(* ===== verification/NF_Prelude.thy ===== *)
theory NF_Prelude
  imports Main "HOL-Library.Word" "HOL-Library.Monad_Syntax"
begin

text \<open>
  Shared ground of the development: the C integer types of the firmware as machine words, the
  little-endian byte image of a 16-bit and a 32-bit integer (every target is little-endian), the
  byte-addressed memory, faults of the C abstract machine as values, and the list lemmas that the
  components share.
\<close>

unbundle bit_operations_syntax

section \<open>C types\<close>

type_synonym u8 = "8 word"
type_synonym u16 = "16 word"
type_synonym u32 = "32 word"
type_synonym u64 = "64 word"

text \<open>Memory as the CPU sees it: one byte at every 32-bit address.\<close>

type_synonym memory = "u32 \<Rightarrow> u8"

named_theorems le_simps \<open>little-endian images of integers\<close>
named_theorems flag_simps \<open>bits of flag words\<close>

lemma unat_pred: "x \<noteq> 0 \<Longrightarrow> unat (x - 1) < unat (x :: 'a::len word)"
  by (metis lessI measure_unat unat_gt_0 word_neq_0_conv)

lemma unat_ucast_u16 [simp]: "unat (ucast (x :: u16) :: u32) = unat x"
  using unsigned_less [of x, where ?'a = nat] by (simp add: unsigned_ucast_eq take_bit_nat_eq_self)

lemma unat_ucast_u8 [simp]: "unat (ucast (x :: u8) :: u32) = unat x"
  using unsigned_less [of x, where ?'a = nat] by (simp add: unsigned_ucast_eq take_bit_nat_eq_self)

lemma uint_u32: "uint (x :: u32) = int (unat x)"
  by simp

lemma sint_u32_small:
  assumes "unat (x :: u32) < 2 ^ 31" shows "sint x = int (unat x)"
proof -
  have "int (unat x) < int (2 ^ 31)" using assms by (simp only: of_nat_less_iff)
  then have "uint x < 2 ^ 31" by simp
  moreover have "- (2 ^ 31) \<le> uint x" by (rule order_trans [of _ 0]) simp_all
  ultimately have "signed_take_bit 31 (uint x) = uint x" by (simp add: signed_take_bit_int_eq_self)
  then show ?thesis by (simp add: sint_uint)
qed

lemma sint_u32_of_nat: "n < 2 ^ 31 \<Longrightarrow> sint (of_nat n :: u32) = int n"
  by (subst sint_u32_small) (simp_all add: unat_of_nat)

lemma unat_u32_less: "unat (x :: u32) < 2 ^ 32"
  using unsigned_less [of x, where ?'a = nat] by simp

section \<open>Faults of the C abstract machine\<close>

text \<open>
  What the C standard leaves undefined and the code does not guard against is a value of its own,
  so that a model never hides it: a null pointer that is dereferenced, an array that is indexed
  out of its bounds, a shift by the width of its operand or more, and a quotient that does not exist in
  its type. A call that does not return is the value \<open>Hang\<close>, a failed debug check that stops the
  system the value \<open>Halt\<close>, a call that resets the processor the value \<open>Reset\<close>.
\<close>

datatype c_fault = NullDeref | BadIndex | BadShift | BadQuotient | Hang | Halt | Reset

type_synonym 'a c_result = "c_fault + 'a"

abbreviation Ret :: "'a \<Rightarrow> 'a c_result" where
  "Ret \<equiv> Inr"

abbreviation Fault :: "c_fault \<Rightarrow> 'a c_result" where
  "Fault \<equiv> Inl"

definition c_bind :: "'a c_result \<Rightarrow> ('a \<Rightarrow> 'b c_result) \<Rightarrow> 'b c_result" where
  "c_bind r f = (case r of Inl e \<Rightarrow> Inl e | Inr x \<Rightarrow> f x)"

lemma c_bind_simps [simp]:
  "c_bind (Inl e) f = Inl e"
  "c_bind (Inr x) f = f x"
  by (simp_all add: c_bind_def)

lemma c_bind_Inr_iff: "c_bind r f = Inr y \<longleftrightarrow> (\<exists>x. r = Inr x \<and> f x = Inr y)"
  by (cases r) auto

definition c_index :: "'a list \<Rightarrow> nat \<Rightarrow> 'a c_result" where
  "c_index xs i = (if i < length xs then Ret (xs ! i) else Fault BadIndex)"

lemma c_index_Inr_iff [simp]: "c_index xs i = Inr x \<longleftrightarrow> i < length xs \<and> x = xs ! i"
  by (auto simp: c_index_def)

lemma c_index_in_bounds: "i < length xs \<Longrightarrow> c_index xs i = Ret (xs ! i)"
  by (simp add: c_index_def)

definition c_store :: "'a list \<Rightarrow> nat \<Rightarrow> 'a \<Rightarrow> 'a list c_result" where
  "c_store xs i v = (if i < length xs then Ret (xs[i := v]) else Fault BadIndex)"

definition c_shr :: "'a::len word \<Rightarrow> nat \<Rightarrow> 'a word c_result" where
  "c_shr v n = (if n < LENGTH('a) then Ret (drop_bit n v) else Fault BadShift)"

text \<open>What follows a computation is needed only for what it returns.\<close>

lemma c_bind_cong [fundef_cong]:
  "r = r' \<Longrightarrow> (\<And>x. r' = Inr x \<Longrightarrow> f x = f' x) \<Longrightarrow> c_bind r f = c_bind r' f'"
  by (cases r') simp_all

text \<open>A counted loop that collects what its turns yield.\<close>

fun c_map :: "('a \<Rightarrow> 'b c_result) \<Rightarrow> 'a list \<Rightarrow> 'b list c_result" where
  "c_map f [] = Ret []"
| "c_map f (x # xs) = c_bind (f x) (\<lambda>y. c_bind (c_map f xs) (\<lambda>ys. Ret (y # ys)))"

lemma c_map_Ret: "(\<And>x. x \<in> set xs \<Longrightarrow> f x = Ret (g x)) \<Longrightarrow> c_map f xs = Ret (map g xs)"
  by (induction xs) auto

lemma c_map_index: "n \<le> length xs \<Longrightarrow> c_map (c_index xs) [0..<n] = Ret (take n xs)"
  by (subst c_map_Ret [where g = "(!) xs"]) (auto simp: c_index_def list_eq_iff_nth_eq)

text \<open>The result of a loop that may run forever, as the result of a call.\<close>

definition c_run :: "'a option \<Rightarrow> 'a c_result" where
  "c_run r = (case r of None \<Rightarrow> Fault Hang | Some x \<Rightarrow> Ret x)"

lemma c_run_simps [simp]: "c_run (Some x) = Ret x" "c_run None = Fault Hang"
  by (simp_all add: c_run_def)

lemma c_run_Inr_iff: "c_run r = Inr x \<longleftrightarrow> r = Some x"
  by (cases r) auto

section \<open>Little-endian images\<close>

definition bytes_of_u16 :: "u16 \<Rightarrow> u8 list" where
  "bytes_of_u16 w = [ucast w, ucast (drop_bit 8 w)]"

definition bytes_of_u32 :: "u32 \<Rightarrow> u8 list" where
  "bytes_of_u32 w =
     [ucast w, ucast (drop_bit 8 w), ucast (drop_bit 16 w), ucast (drop_bit 24 w)]"

definition u16_of_bytes :: "u8 list \<Rightarrow> u16" where
  "u16_of_bytes bs = ucast (bs ! 0) OR push_bit 8 (ucast (bs ! 1))"

definition u32_of_bytes :: "u8 list \<Rightarrow> u32" where
  "u32_of_bytes bs =
     ucast (bs ! 0) OR push_bit 8 (ucast (bs ! 1)) OR
     push_bit 16 (ucast (bs ! 2)) OR push_bit 24 (ucast (bs ! 3))"

lemma length_bytes_of_u16 [simp]: "length (bytes_of_u16 w) = 2"
  by (simp add: bytes_of_u16_def)

lemma length_bytes_of_u32 [simp]: "length (bytes_of_u32 w) = 4"
  by (simp add: bytes_of_u32_def)

lemma u8_bit_bound [dest]: "bit (x :: u8) n \<Longrightarrow> n < 8"
  by (drule bit_imp_le_length) simp

lemma u16_halves:
  "ucast (ucast (a :: u8) OR push_bit 8 (ucast (b :: u8)) :: u16) = a"
  "ucast (drop_bit 8 (ucast (a :: u8) OR push_bit 8 (ucast (b :: u8)) :: u16)) = b"
  by (rule bit_word_eqI, auto simp: bit_simps dest: u8_bit_bound)+

lemma u32_quarters:
  fixes a b c d :: u8
  defines "w \<equiv> ucast a OR push_bit 8 (ucast b) OR push_bit 16 (ucast c) OR push_bit 24 (ucast d) :: u32"
  shows "ucast w = a" "ucast (drop_bit 8 w) = b" "ucast (drop_bit 16 w) = c"
    "ucast (drop_bit 24 w) = d"
  unfolding w_def by (rule bit_word_eqI, auto simp: bit_simps dest: u8_bit_bound)+

lemma u16_of_bytes_of_u16 [simp, le_simps]: "u16_of_bytes (bytes_of_u16 w) = w"
  unfolding u16_of_bytes_def bytes_of_u16_def
  by (rule bit_word_eqI) (auto simp: bit_simps)

lemma u32_of_bytes_of_u32 [simp, le_simps]: "u32_of_bytes (bytes_of_u32 w) = w"
proof (rule bit_word_eqI)
  fix n assume "n < LENGTH(32)"
  then consider "n < 8" | "8 \<le> n" "n < 16" | "16 \<le> n" "n < 24" | "24 \<le> n" "n < 32"
    by force
  then show "bit (u32_of_bytes (bytes_of_u32 w)) n = bit w n"
    by cases (auto simp: u32_of_bytes_def bytes_of_u32_def bit_simps)
qed

lemma bytes_of_u16_of_bytes [le_simps]:
  assumes "length bs = 2" shows "bytes_of_u16 (u16_of_bytes bs) = bs"
proof -
  from assms obtain a b where "bs = [a, b]" by (auto simp: length_Suc_conv numeral_2_eq_2)
  then show ?thesis by (simp add: u16_of_bytes_def bytes_of_u16_def u16_halves del: drop_bit_or)
qed

lemma bytes_of_u32_of_bytes [le_simps]:
  assumes "length bs = 4" shows "bytes_of_u32 (u32_of_bytes bs) = bs"
proof -
  from assms obtain a b c d where "bs = [a, b, c, d]"
    by (auto simp: length_Suc_conv eval_nat_numeral)
  then show ?thesis by (simp add: u32_of_bytes_def bytes_of_u32_def u32_quarters del: drop_bit_or)
qed

end
