(* ===== verification/NF_CRC32.thy ===== *)
theory NF_CRC32
  imports NF_Prelude
begin

text \<open>
  The software CRC-32 of \<open>src/CLR/Core/nanoSupport_CRC32.c\<close>: the table \<open>c_CRCTable\<close> and the
  loop \<open>SUPPORT_ComputeCRC\<close>, which Wire Protocol uses for its header and payload checks. The
  reference is the bit-serial division by the generator polynomial the source names (IEEE 802,
  most significant bit first).
\<close>

section \<open>The code\<close>

definition c_CRCTable :: "u32 list" where
  "c_CRCTable = [
   0x00000000, 0x04C11DB7, 0x09823B6E, 0x0D4326D9, 0x130476DC, 0x17C56B6B, 0x1A864DB2, 0x1E475005,
   0x2608EDB8, 0x22C9F00F, 0x2F8AD6D6, 0x2B4BCB61, 0x350C9B64, 0x31CD86D3, 0x3C8EA00A, 0x384FBDBD,
   0x4C11DB70, 0x48D0C6C7, 0x4593E01E, 0x4152FDA9, 0x5F15ADAC, 0x5BD4B01B, 0x569796C2, 0x52568B75,
   0x6A1936C8, 0x6ED82B7F, 0x639B0DA6, 0x675A1011, 0x791D4014, 0x7DDC5DA3, 0x709F7B7A, 0x745E66CD,
   0x9823B6E0, 0x9CE2AB57, 0x91A18D8E, 0x95609039, 0x8B27C03C, 0x8FE6DD8B, 0x82A5FB52, 0x8664E6E5,
   0xBE2B5B58, 0xBAEA46EF, 0xB7A96036, 0xB3687D81, 0xAD2F2D84, 0xA9EE3033, 0xA4AD16EA, 0xA06C0B5D,
   0xD4326D90, 0xD0F37027, 0xDDB056FE, 0xD9714B49, 0xC7361B4C, 0xC3F706FB, 0xCEB42022, 0xCA753D95,
   0xF23A8028, 0xF6FB9D9F, 0xFBB8BB46, 0xFF79A6F1, 0xE13EF6F4, 0xE5FFEB43, 0xE8BCCD9A, 0xEC7DD02D,
   0x34867077, 0x30476DC0, 0x3D044B19, 0x39C556AE, 0x278206AB, 0x23431B1C, 0x2E003DC5, 0x2AC12072,
   0x128E9DCF, 0x164F8078, 0x1B0CA6A1, 0x1FCDBB16, 0x018AEB13, 0x054BF6A4, 0x0808D07D, 0x0CC9CDCA,
   0x7897AB07, 0x7C56B6B0, 0x71159069, 0x75D48DDE, 0x6B93DDDB, 0x6F52C06C, 0x6211E6B5, 0x66D0FB02,
   0x5E9F46BF, 0x5A5E5B08, 0x571D7DD1, 0x53DC6066, 0x4D9B3063, 0x495A2DD4, 0x44190B0D, 0x40D816BA,
   0xACA5C697, 0xA864DB20, 0xA527FDF9, 0xA1E6E04E, 0xBFA1B04B, 0xBB60ADFC, 0xB6238B25, 0xB2E29692,
   0x8AAD2B2F, 0x8E6C3698, 0x832F1041, 0x87EE0DF6, 0x99A95DF3, 0x9D684044, 0x902B669D, 0x94EA7B2A,
   0xE0B41DE7, 0xE4750050, 0xE9362689, 0xEDF73B3E, 0xF3B06B3B, 0xF771768C, 0xFA325055, 0xFEF34DE2,
   0xC6BCF05F, 0xC27DEDE8, 0xCF3ECB31, 0xCBFFD686, 0xD5B88683, 0xD1799B34, 0xDC3ABDED, 0xD8FBA05A,
   0x690CE0EE, 0x6DCDFD59, 0x608EDB80, 0x644FC637, 0x7A089632, 0x7EC98B85, 0x738AAD5C, 0x774BB0EB,
   0x4F040D56, 0x4BC510E1, 0x46863638, 0x42472B8F, 0x5C007B8A, 0x58C1663D, 0x558240E4, 0x51435D53,
   0x251D3B9E, 0x21DC2629, 0x2C9F00F0, 0x285E1D47, 0x36194D42, 0x32D850F5, 0x3F9B762C, 0x3B5A6B9B,
   0x0315D626, 0x07D4CB91, 0x0A97ED48, 0x0E56F0FF, 0x1011A0FA, 0x14D0BD4D, 0x19939B94, 0x1D528623,
   0xF12F560E, 0xF5EE4BB9, 0xF8AD6D60, 0xFC6C70D7, 0xE22B20D2, 0xE6EA3D65, 0xEBA91BBC, 0xEF68060B,
   0xD727BBB6, 0xD3E6A601, 0xDEA580D8, 0xDA649D6F, 0xC423CD6A, 0xC0E2D0DD, 0xCDA1F604, 0xC960EBB3,
   0xBD3E8D7E, 0xB9FF90C9, 0xB4BCB610, 0xB07DABA7, 0xAE3AFBA2, 0xAAFBE615, 0xA7B8C0CC, 0xA379DD7B,
   0x9B3660C6, 0x9FF77D71, 0x92B45BA8, 0x9675461F, 0x8832161A, 0x8CF30BAD, 0x81B02D74, 0x857130C3,
   0x5D8A9099, 0x594B8D2E, 0x5408ABF7, 0x50C9B640, 0x4E8EE645, 0x4A4FFBF2, 0x470CDD2B, 0x43CDC09C,
   0x7B827D21, 0x7F436096, 0x7200464F, 0x76C15BF8, 0x68860BFD, 0x6C47164A, 0x61043093, 0x65C52D24,
   0x119B4BE9, 0x155A565E, 0x18197087, 0x1CD86D30, 0x029F3D35, 0x065E2082, 0x0B1D065B, 0x0FDC1BEC,
   0x3793A651, 0x3352BBE6, 0x3E119D3F, 0x3AD08088, 0x2497D08D, 0x2056CD3A, 0x2D15EBE3, 0x29D4F654,
   0xC5A92679, 0xC1683BCE, 0xCC2B1D17, 0xC8EA00A0, 0xD6AD50A5, 0xD26C4D12, 0xDF2F6BCB, 0xDBEE767C,
   0xE3A1CBC1, 0xE760D676, 0xEA23F0AF, 0xEEE2ED18, 0xF0A5BD1D, 0xF464A0AA, 0xF9278673, 0xFDE69BC4,
   0x89B8FD09, 0x8D79E0BE, 0x803AC667, 0x84FBDBD0, 0x9ABC8BD5, 0x9E7D9662, 0x933EB0BB, 0x97FFAD0C,
   0xAFB010B1, 0xAB710D06, 0xA6322BDF, 0xA2F33668, 0xBCB4666D, 0xB8757BDA, 0xB5365D03, 0xB1F740B4
  ]"

text \<open>One turn of the loop: \<open>crc = c_CRCTable[((crc >> 24) ^ *ptr++) & 0xFF] ^ (crc << 8)\<close>.\<close>

definition crc_step :: "u32 \<Rightarrow> u8 \<Rightarrow> u32" where
  "crc_step crc b =
     c_CRCTable ! unat ((drop_bit 24 crc XOR ucast b) AND 0xFF) XOR push_bit 8 crc"

text \<open>
  \<open>while(nLength-- > 0)\<close> over the bytes of the block: the length is the length of the list.
\<close>

fun SUPPORT_ComputeCRC :: "u8 list \<Rightarrow> u32 \<Rightarrow> u32" where
  "SUPPORT_ComputeCRC [] crc = crc"
| "SUPPORT_ComputeCRC (b # rgBlock) crc = SUPPORT_ComputeCRC rgBlock (crc_step crc b)"

section \<open>The reference: division by the generator, one bit at a time\<close>

text \<open>
  G(x) = x^32+x^26+x^23+x^22+x^16+x^12+x^11+x^10+x^8+x^7+x^5+x^4+x^2+x+1, without its leading
  term.
\<close>

definition crc_poly :: u32 where
  "crc_poly = (\<Sum>i\<leftarrow>[26, 23, 22, 16, 12, 11, 10, 8, 7, 5, 4, 2, 1, 0]. 2 ^ i)"

definition crc_shift :: "u32 \<Rightarrow> u32" where
  "crc_shift r = push_bit 1 r XOR (if bit r 31 then crc_poly else 0)"

definition crc_byte_ref :: "u32 \<Rightarrow> u8 \<Rightarrow> u32" where
  "crc_byte_ref r b = (crc_shift ^^ 8) (r XOR push_bit 24 (ucast b))"

definition crc_ref :: "u8 list \<Rightarrow> u32 \<Rightarrow> u32" where
  "crc_ref bs r = foldl crc_byte_ref r bs"

lemma crc_poly_eq: "crc_poly = 0x04C11DB7"
  by (simp add: crc_poly_def)

lemma length_c_CRCTable: "length c_CRCTable = 256"
  by (simp add: c_CRCTable_def)

definition crc_table_entry :: "nat \<Rightarrow> u32" where
  "crc_table_entry i = (crc_shift ^^ 8) (push_bit 24 (of_nat i))"

lemma crc_shift_eval:
  "crc_shift r = (if bit r 31 then push_bit 1 r XOR 0x04C11DB7 else push_bit 1 r)"
  by (simp add: crc_shift_def crc_poly_eq)

lemma funpow_8: "(f ^^ 8) x = f (f (f (f (f (f (f (f x)))))))"
  by (simp add: eval_nat_numeral)

text \<open>Every entry of the table of the source is eight bit-serial steps on its index.\<close>

lemma c_CRCTable_eq: "c_CRCTable = map crc_table_entry [0..<256]"
  by (simp add: crc_table_entry_def funpow_8 crc_shift_eval c_CRCTable_def upt_rec)

section \<open>Algebra of the bit-serial step\<close>

lemma crc_shift_xor: "crc_shift (a XOR b) = crc_shift a XOR crc_shift b"
  by (simp add: crc_shift_def push_bit_xor bit_xor_iff xor.assoc xor.left_commute)

lemma crc_shift_pow_xor:
  "(crc_shift ^^ n) (a XOR b) = (crc_shift ^^ n) a XOR (crc_shift ^^ n) b"
  by (induction n) (simp_all add: crc_shift_xor)

lemma crc_shift_no_carry: "\<not> bit r 31 \<Longrightarrow> crc_shift r = push_bit (Suc 0) r"
  by (simp add: crc_shift_def)

lemma crc_shift_pow_low:
  assumes "\<And>j. 32 - k \<le> j \<Longrightarrow> \<not> bit r j" "k \<le> 32"
  shows "(crc_shift ^^ k) r = push_bit k r"
proof -
  have "j \<le> k \<Longrightarrow> (crc_shift ^^ j) r = push_bit j r" for j
  proof (induction j)
    case (Suc j)
    then have top: "\<not> bit (push_bit j r) 31" using assms by (auto simp: bit_simps)
    have "(crc_shift ^^ Suc j) r = crc_shift (push_bit j r)" using Suc by simp
    also have "\<dots> = push_bit (Suc 0) (push_bit j r)" using top by (rule crc_shift_no_carry)
    also have "\<dots> = push_bit (Suc j) r" by (simp only: push_bit_push_bit add_Suc add_0)
    finally show ?case .
  qed simp
  then show ?thesis by simp
qed

lemma bit_crc_shift:
  "n < 32 \<Longrightarrow> bit (crc_shift r) n \<longleftrightarrow> ((0 < n \<and> bit r (n - 1)) \<noteq> (bit r 31 \<and> bit crc_poly n))"
proof -
  assume "n < 32"
  then have "bit (push_bit 1 r) n \<longleftrightarrow> 0 < n \<and> bit r (n - 1)"
    by (simp only: bit_push_bit_iff possible_bit_word) auto
  then show ?thesis by (simp only: crc_shift_def bit_xor_iff) (auto split: if_splits)
qed

lemma crc_shift_eq_0: "crc_shift x = 0 \<Longrightarrow> x = 0"
proof -
  assume x: "crc_shift x = 0"
  then have *: "\<not> bit (crc_shift x) n" for n by simp
  have "bit crc_poly 0" by (simp add: crc_poly_eq)
  with *[of 0] have top: "\<not> bit x 31" by (simp add: bit_crc_shift)
  have "\<not> bit x n" if "n < 32" for n
  proof (cases "n = 31")
    case False
    with that *[of "Suc n"] top show ?thesis by (simp add: bit_crc_shift)
  qed (use top in simp)
  then show "x = 0" by (intro bit_word_eqI) auto
qed

lemma xor_cancel_right: "(a :: u32) XOR c = b XOR c \<longleftrightarrow> a = b"
proof
  assume "a XOR c = b XOR c"
  then have "(a XOR c) XOR c = (b XOR c) XOR c" by simp
  then show "a = b" by (simp add: xor.assoc)
qed simp

lemma xor_eq_0_iff: "(a :: u32) XOR b = 0 \<longleftrightarrow> a = b"
  using xor_cancel_right [of a b b] by simp

lemma crc_shift_inj: "crc_shift a = crc_shift b \<longleftrightarrow> a = b"
proof
  assume "crc_shift a = crc_shift b"
  then have "crc_shift (a XOR b) = 0" by (simp add: crc_shift_xor)
  then have "a XOR b = 0" by (rule crc_shift_eq_0)
  then show "a = b" by (simp only: xor_eq_0_iff)
qed simp

lemma crc_shift_pow_inj: "(crc_shift ^^ n) a = (crc_shift ^^ n) b \<longleftrightarrow> a = b"
  by (induction n) (simp_all add: crc_shift_inj)

section \<open>The table-driven step is eight bit-serial steps\<close>

lemma u32_split_top: "r = push_bit 24 (drop_bit 24 r) XOR take_bit 24 (r :: u32)"
proof (rule bit_word_eqI)
  fix n assume "n < LENGTH(32)"
  then show "bit r n = bit (push_bit 24 (drop_bit 24 r) XOR take_bit 24 r) n"
    by (cases "n < 24") (auto simp: bit_simps)
qed

lemma u32_top_byte:
  fixes r :: u32 and b :: u8
  shows "(drop_bit 24 r XOR ucast b) AND 0xFF = drop_bit 24 (r XOR push_bit 24 (ucast b))"
proof -
  have "(0xFF :: u32) = mask 8" by (simp add: mask_numeral)
  then have "(drop_bit 24 r XOR ucast b) AND 0xFF = take_bit 8 (drop_bit 24 r XOR ucast b)"
    by (simp add: take_bit_eq_mask)
  also have "\<dots> = drop_bit 24 (r XOR push_bit 24 (ucast b))"
  proof (rule bit_word_eqI)
    fix n assume "n < LENGTH(32)"
    then show "bit (take_bit 8 (drop_bit 24 r XOR ucast b)) n =
        bit (drop_bit 24 (r XOR push_bit 24 (ucast b))) n"
      by (cases "n < 8") (auto simp: bit_simps dest: bit_imp_le_length)
  qed
  finally show ?thesis .
qed

lemma u32_top_byte_bound: "unat (drop_bit 24 (r :: u32)) < 256"
proof -
  have "unat (drop_bit 24 r) = drop_bit 24 (unat r)" by (rule unat_drop_bit_eq)
  also have "\<dots> = unat r div 2 ^ 24" by (rule drop_bit_eq_div)
  finally have "unat (drop_bit 24 r) = unat r div 2 ^ 24" .
  moreover have "unat r < 2 ^ 32" using unsigned_less [of r] by simp
  ultimately show ?thesis by simp
qed

lemma crc_step_eq_ref: "crc_step crc b = crc_byte_ref crc b"
proof -
  let ?x = "crc XOR push_bit 24 (ucast b)"
  let ?i = "drop_bit 24 ?x"
  have "crc_byte_ref crc b =
      (crc_shift ^^ 8) (push_bit 24 ?i) XOR (crc_shift ^^ 8) (take_bit 24 ?x)"
    unfolding crc_byte_ref_def
    by (subst u32_split_top [of ?x]) (rule crc_shift_pow_xor)
  also have "(crc_shift ^^ 8) (take_bit 24 ?x) = push_bit 8 (take_bit 24 ?x)"
    by (rule crc_shift_pow_low) (auto simp: bit_simps)
  also have "push_bit 8 (take_bit 24 ?x) = push_bit 8 crc"
    by (rule bit_word_eqI) (auto simp: bit_simps)
  also have "(crc_shift ^^ 8) (push_bit 24 ?i) = c_CRCTable ! unat ?i"
    using u32_top_byte_bound [of ?x] by (simp add: c_CRCTable_eq crc_table_entry_def)
  finally show ?thesis by (simp only: crc_step_def u32_top_byte)
qed

lemma SUPPORT_ComputeCRC_ref: "SUPPORT_ComputeCRC bs crc = crc_ref bs crc"
  by (induction bs arbitrary: crc) (simp_all add: crc_ref_def crc_step_eq_ref)

lemma SUPPORT_ComputeCRC_append:
  "SUPPORT_ComputeCRC (xs @ ys) crc = SUPPORT_ComputeCRC ys (SUPPORT_ComputeCRC xs crc)"
  by (induction xs arbitrary: crc) simp_all

lemma crc_byte_ref_inj: "crc_byte_ref r b = crc_byte_ref r' b \<longleftrightarrow> r = r'"
  by (simp add: crc_byte_ref_def crc_shift_pow_inj xor_cancel_right)

lemma SUPPORT_ComputeCRC_inj:
  "SUPPORT_ComputeCRC bs r = SUPPORT_ComputeCRC bs r' \<longleftrightarrow> r = r'"
  by (induction bs arbitrary: r r') (simp_all add: crc_step_eq_ref crc_byte_ref_inj)

section \<open>What the check detects\<close>

text \<open>Four bytes as one word, first byte on top: the order in which the division reads them.\<close>

definition be_word :: "u8 \<Rightarrow> u8 \<Rightarrow> u8 \<Rightarrow> u8 \<Rightarrow> u32" where
  "be_word a b c d =
     push_bit 24 (ucast a) XOR push_bit 16 (ucast b) XOR push_bit 8 (ucast c) XOR ucast d"

lemma crc_shift_pow_byte:
  assumes "k + 8 \<le> 32"
  shows "(crc_shift ^^ (24 - k)) (push_bit k (ucast (b :: u8))) = push_bit 24 (ucast b)"
proof -
  have "(crc_shift ^^ (24 - k)) (push_bit k (ucast b)) = push_bit (24 - k) (push_bit k (ucast b))"
    by (rule crc_shift_pow_low) (use assms in \<open>auto simp: bit_simps dest: u8_bit_bound\<close>)
  then show ?thesis using assms by (simp add: push_bit_push_bit)
qed

lemma crc_ref_four:
  "crc_ref [a, b, c, d] r = (crc_shift ^^ 32) (r XOR be_word a b c d)"
proof -
  let ?S = "crc_shift ^^ 8"
  have pow: "(crc_shift ^^ 16) x = ?S (?S x)" "(crc_shift ^^ 24) x = ?S (?S (?S x))"
    "(crc_shift ^^ 32) x = ?S (?S (?S (?S x)))" for x
    using funpow_add [of 8 8 crc_shift] funpow_add [of 8 16 crc_shift] funpow_add [of 8 24 crc_shift]
    by simp_all
  have b: "?S x XOR push_bit 24 (ucast b) = ?S (x XOR push_bit 16 (ucast b))" for x
    using crc_shift_pow_byte [of 16 b] crc_shift_pow_xor [of 8 x "push_bit 16 (ucast b)"] by simp
  have c: "?S (?S x) XOR push_bit 24 (ucast c) = ?S (?S (x XOR push_bit 8 (ucast c)))" for x
    using crc_shift_pow_byte [of 8 c] crc_shift_pow_xor [of 16 x "push_bit 8 (ucast c)"]
    by (simp add: pow)
  have d: "?S (?S (?S x)) XOR push_bit 24 (ucast d) = ?S (?S (?S (x XOR ucast d)))" for x
    using crc_shift_pow_byte [of 0 d] crc_shift_pow_xor [of 24 x "ucast d"] by (simp add: pow)
  show ?thesis
    by (simp only: crc_ref_def foldl_Cons foldl_Nil crc_byte_ref_def b c d be_word_def pow xor.assoc)
qed

lemma be_word_inj: "be_word a b c d = be_word a' b' c' d' \<Longrightarrow> [a, b, c, d] = [a', b', c', d']"
proof -
  have bits: "bit (be_word a b c d) n =
      (if n < 8 then bit d n else if n < 16 then bit c (n - 8)
       else if n < 24 then bit b (n - 16) else n < 32 \<and> bit a (n - 24))" for a b c d n
    by (auto simp: be_word_def bit_simps dest: u8_bit_bound)
  assume eq: "be_word a b c d = be_word a' b' c' d'"
  then have *: "bit (be_word a b c d) n = bit (be_word a' b' c' d') n" for n by simp
  show ?thesis
  proof (simp, intro conjI)
    show "d = d'"
    proof (rule bit_word_eqI)
      fix n assume "n < LENGTH(8)" then show "bit d n = bit d' n" using *[of n] by (simp add: bits)
    qed
    show "c = c'"
    proof (rule bit_word_eqI)
      fix n assume "n < LENGTH(8)" then show "bit c n = bit c' n" using *[of "n + 8"] by (simp add: bits)
    qed
    show "b = b'"
    proof (rule bit_word_eqI)
      fix n assume "n < LENGTH(8)" then show "bit b n = bit b' n" using *[of "n + 16"] by (simp add: bits)
    qed
    show "a = a'"
    proof (rule bit_word_eqI)
      fix n assume "n < LENGTH(8)" then show "bit a n = bit a' n" using *[of "n + 24"] by (simp add: bits)
    qed
  qed
qed

lemma xor_left_cancel: "r XOR (r XOR x) = (x :: u32)"
  by (simp add: xor.assoc [symmetric])

lemma SUPPORT_ComputeCRC_four_inj:
  assumes "length xs = 4" "length ys = 4"
    and "SUPPORT_ComputeCRC xs r = SUPPORT_ComputeCRC ys r"
  shows "xs = ys"
proof -
  from assms(1,2) obtain a b c d a' b' c' d' where xy: "xs = [a, b, c, d]" "ys = [a', b', c', d']"
    by (auto simp: length_Suc_conv eval_nat_numeral)
  with assms(3) have "r XOR be_word a b c d = r XOR be_word a' b' c' d'"
    by (simp only: SUPPORT_ComputeCRC_ref crc_ref_four crc_shift_pow_inj)
  then have "r XOR (r XOR be_word a b c d) = r XOR (r XOR be_word a' b' c' d')"
    by (rule arg_cong)
  then have "be_word a b c d = be_word a' b' c' d'"
    by (simp only: xor_left_cancel)
  then show ?thesis unfolding xy by (rule be_word_inj)
qed

text \<open>
  C10: The table-driven loop \<open>SUPPORT_ComputeCRC\<close> computes the remainder of the bit-serial division
  by the generator polynomial named in the source, for every block and every starting value.
\<close>

theorem crc_loop_is_polynomial_division: "SUPPORT_ComputeCRC rgBlock crc = crc_ref rgBlock crc"
  by (rule SUPPORT_ComputeCRC_ref)

text \<open>
  C25: The check detects every corruption that is confined to four consecutive bytes: two blocks of
  the same length that agree outside such a window and have the same CRC are the same block.
\<close>

theorem crc_detects_four_byte_bursts:
  assumes "length xs = length ys"
    and "take i xs = take i ys" and "drop (i + 4) xs = drop (i + 4) ys"
    and "SUPPORT_ComputeCRC xs crc = SUPPORT_ComputeCRC ys crc"
  shows "xs = ys"
proof (cases "i \<le> length xs")
  case False
  with assms show ?thesis by simp
next
  case True
  let ?z = "replicate 4 (0 :: u8)"
  let ?x = "take 4 (drop i (xs @ ?z))" and ?y = "take 4 (drop i (ys @ ?z))"
  have split: "us @ ?z = take i us @ take 4 (drop i (us @ ?z)) @ drop (i + 4) (us @ ?z)"
    if "i \<le> length us" for us
    using that append_take_drop_id [of i "us @ ?z"] append_take_drop_id [of 4 "drop i (us @ ?z)"]
    by (simp add: add.commute)
  have tail: "drop (i + 4) (xs @ ?z) = drop (i + 4) (ys @ ?z)" using assms(1,3) by simp
  have "SUPPORT_ComputeCRC (xs @ ?z) crc = SUPPORT_ComputeCRC (ys @ ?z) crc"
    using assms(4) by (simp only: SUPPORT_ComputeCRC_append)
  then have "SUPPORT_ComputeCRC ?x (SUPPORT_ComputeCRC (take i xs) crc) =
      SUPPORT_ComputeCRC ?y (SUPPORT_ComputeCRC (take i xs) crc)"
    using True assms(1,2) tail
    by (subst (asm) split, simp, subst (asm) (2) split, simp)
       (simp only: SUPPORT_ComputeCRC_append SUPPORT_ComputeCRC_inj)
  then have "?x = ?y"
    by (rule SUPPORT_ComputeCRC_four_inj [rotated 2]) (use True assms(1) in simp_all)
  then have "xs @ ?z = ys @ ?z"
    using True assms(1,2) tail by (metis split)
  then show ?thesis by simp
qed

theorem crc_detects_four_byte_bursts_witness:
  "SUPPORT_ComputeCRC [1, 2, 3, 4, 5, 6] 0 \<noteq> SUPPORT_ComputeCRC [1, 9, 3, 4, 8, 6] 0"
  using crc_detects_four_byte_bursts [of "[1, 2, 3, 4, 5, 6]" "[1, 9, 3, 4, 8, 6]" 1 0] by auto

end
