(* ===== verification/NF_WP_Types.thy ===== *)
theory NF_WP_Types
  imports NF_Prelude
begin

text \<open>
  The data of Wire Protocol (\<open>src/CLR/Include/WireProtocol.h\<close>): flags, receiver states, the packet
  header with its 32-byte image in memory and on the wire, the message, and the global state that
  the receiver, its transport and its application share.
\<close>

section \<open>Constants\<close>

text \<open>\<open>MARKER_DEBUGGER_V1\<close> and \<open>MARKER_PACKET_V1\<close>: seven characters and the final zero.\<close>

definition MARKER_DEBUGGER_V1 :: "u8 list" where
  "MARKER_DEBUGGER_V1 = [0x4E, 0x46, 0x44, 0x42, 0x47, 0x56, 0x31, 0]"

definition MARKER_PACKET_V1 :: "u8 list" where
  "MARKER_PACKET_V1 = [0x4E, 0x46, 0x50, 0x4B, 0x54, 0x56, 0x31, 0]"

lemma length_markers [simp]:
  "length MARKER_DEBUGGER_V1 = 8" "length MARKER_PACKET_V1 = 8"
  by (simp_all add: MARKER_DEBUGGER_V1_def MARKER_PACKET_V1_def)

definition WP_Flags_c_NonCritical :: u32 where "WP_Flags_c_NonCritical = 0x0001"
definition WP_Flags_c_Reply :: u32 where "WP_Flags_c_Reply = 0x0002"
definition WP_Flags_c_BadHeader :: u32 where "WP_Flags_c_BadHeader = 0x0004"
definition WP_Flags_c_BadPayload :: u32 where "WP_Flags_c_BadPayload = 0x0008"
definition WP_Flags_c_NoCaching :: u32 where "WP_Flags_c_NoCaching = 0x2000"
definition WP_Flags_c_NACK :: u32 where "WP_Flags_c_NACK = 0x4000"
definition WP_Flags_c_ACK :: u32 where "WP_Flags_c_ACK = 0x8000"

lemmas WP_Flags_defs [flag_simps] =
  WP_Flags_c_NonCritical_def WP_Flags_c_Reply_def WP_Flags_c_BadHeader_def
  WP_Flags_c_BadPayload_def WP_Flags_c_NoCaching_def WP_Flags_c_NACK_def WP_Flags_c_ACK_def

text \<open>\<open>if (flags & flag)\<close>.\<close>

definition has_flag :: "u32 \<Rightarrow> u32 \<Rightarrow> bool" where
  "has_flag flags flag \<longleftrightarrow> flags AND flag \<noteq> 0"

definition WP_PACKET_SIZE :: nat where "WP_PACKET_SIZE = 1024"

section \<open>The packet header\<close>

record WP_Packet =
  m_signature :: "u8 list"
  m_crcHeader :: u32
  m_crcData :: u32
  m_cmd :: u32
  m_seq :: u16
  m_seqReply :: u16
  m_flags :: u32
  m_hsize :: u32

text \<open>\<open>sizeof(WP_Packet)\<close>, which \<open>WP_CompileCheck\<close> pins at \<open>8 * 4\<close>, and \<open>sizeof(m_signature)\<close>.\<close>

definition sizeof_WP_Packet :: nat where "sizeof_WP_Packet = 32"
definition sizeof_m_signature :: nat where "sizeof_m_signature = 8"

definition packet_bytes :: "WP_Packet \<Rightarrow> u8 list" where
  "packet_bytes p =
     m_signature p @ bytes_of_u32 (m_crcHeader p) @ bytes_of_u32 (m_crcData p) @
     bytes_of_u32 (m_cmd p) @ bytes_of_u16 (m_seq p) @ bytes_of_u16 (m_seqReply p) @
     bytes_of_u32 (m_flags p) @ bytes_of_u32 (m_hsize p)"

definition packet_of_bytes :: "u8 list \<Rightarrow> WP_Packet" where
  "packet_of_bytes bs =
     \<lparr>m_signature = take 8 bs,
      m_crcHeader = u32_of_bytes (take 4 (drop 8 bs)),
      m_crcData = u32_of_bytes (take 4 (drop 12 bs)),
      m_cmd = u32_of_bytes (take 4 (drop 16 bs)),
      m_seq = u16_of_bytes (take 2 (drop 20 bs)),
      m_seqReply = u16_of_bytes (take 2 (drop 22 bs)),
      m_flags = u32_of_bytes (take 4 (drop 24 bs)),
      m_hsize = u32_of_bytes (take 4 (drop 28 bs))\<rparr>"

definition wf_packet :: "WP_Packet \<Rightarrow> bool" where
  "wf_packet p \<longleftrightarrow> length (m_signature p) = 8"

lemma length_packet_bytes [simp]: "wf_packet p \<Longrightarrow> length (packet_bytes p) = 32"
  by (simp add: packet_bytes_def wf_packet_def)

lemma packet_of_packet_bytes [simp, le_simps]:
  assumes "wf_packet p" shows "packet_of_bytes (packet_bytes p) = p"
  using assms by (simp add: packet_bytes_def packet_of_bytes_def wf_packet_def)

lemma packet_bytes_of_bytes [le_simps]:
  assumes "length bs = 32" shows "packet_bytes (packet_of_bytes bs) = bs"
proof -
  let ?t = "\<lambda>n k. take n (drop k bs)"
  have split: "take n (drop k bs) @ drop (k + n) bs = drop k bs" for n k
    by (metis append_take_drop_id drop_drop add.commute)
  have "packet_bytes (packet_of_bytes bs) =
      take 8 bs @ ?t 4 8 @ ?t 4 12 @ ?t 4 16 @ ?t 2 20 @ ?t 2 22 @ ?t 4 24 @ ?t 4 28"
    using assms by (simp add: packet_bytes_def packet_of_bytes_def le_simps)
  also have "?t 4 28 = drop 28 bs" using assms by simp
  also have "?t 4 24 @ drop 28 bs = drop 24 bs" using split [of 4 24] by simp
  also have "?t 2 22 @ drop 24 bs = drop 22 bs" using split [of 2 22] by simp
  also have "?t 2 20 @ drop 22 bs = drop 20 bs" using split [of 2 20] by simp
  also have "?t 4 16 @ drop 20 bs = drop 16 bs" using split [of 4 16] by simp
  also have "?t 4 12 @ drop 16 bs = drop 12 bs" using split [of 4 12] by simp
  also have "?t 4 8 @ drop 12 bs = drop 8 bs" using split [of 4 8] by simp
  finally show ?thesis by simp
qed

lemma wf_packet_of_bytes [simp]: "8 \<le> length bs \<Longrightarrow> wf_packet (packet_of_bytes bs)"
  by (simp add: wf_packet_def packet_of_bytes_def)

section \<open>The receiver\<close>

text \<open>
  \<open>m_rxState\<close> is an \<open>int\<close>: one of the enumerators, or any other value (the \<open>default\<close> branch).
\<close>

datatype ReceiveState =
    ReceiveState_Idle
  | ReceiveState_Initialize
  | ReceiveState_WaitingForHeader
  | ReceiveState_ReadingHeader
  | ReceiveState_CompleteHeader
  | ReceiveState_ReadingPayload
  | ReceiveState_CompletePayload
  | ReceiveState_Unknown int

text \<open>The value of each enumerator; the order of the states is the order of these values.\<close>

fun ReceiveState_value :: "ReceiveState \<Rightarrow> int" where
  "ReceiveState_value ReceiveState_Idle = 1"
| "ReceiveState_value ReceiveState_Initialize = 2"
| "ReceiveState_value ReceiveState_WaitingForHeader = 3"
| "ReceiveState_value ReceiveState_ReadingHeader = 4"
| "ReceiveState_value ReceiveState_CompleteHeader = 5"
| "ReceiveState_value ReceiveState_ReadingPayload = 6"
| "ReceiveState_value ReceiveState_CompletePayload = 7"
| "ReceiveState_value (ReceiveState_Unknown i) = i"

text \<open>
  What a payload pointer of the code can point to: nothing, the global \<open>receptionBuffer\<close>, or an
  object of the caller, whose bytes it denotes for the time of the call.
\<close>

datatype payload_ptr = PayloadNull | PayloadReceptionBuffer | PayloadObject "u8 list"

text \<open>
  \<open>m_pos\<close> is null or points into the header of the message or into its payload, at an offset
  that the code may move below the first byte.
\<close>

datatype pos_ptr = PosNull | PosHeader int | PosPayload payload_ptr int

record WP_Message =
  m_header :: WP_Packet
  m_payload :: payload_ptr
  m_pos :: pos_ptr
  m_size :: u16
  m_payloadTicks :: u64
  m_rxState :: ReceiveState

section \<open>Global state\<close>

text \<open>
  The globals of \<open>WireProtocol_Message.c\<close> (\<open>receptionBuffer\<close>, \<open>lastOutboundMessage\<close> and the pointer
  \<open>marker\<close>, null or the eight bytes it points to), the flag \<open>WP_Port_Intitialised\<close> of the serial
  transports that open their port on first use, and the state \<open>os\<close> of the RTOS and the hardware,
  which only the RTOS calls change. Applications extend the record with globals of their own.
\<close>

record 'o wp_state =
  receptionBuffer :: "u8 list"
  lastOutboundMessage :: u16
  marker :: "u8 list option"
  WP_Port_Intitialised :: bool
  os :: 'o

definition sizeof_receptionBuffer :: nat where
  "sizeof_receptionBuffer = sizeof_WP_Packet + WP_PACKET_SIZE"

lemma sizeof_simps [simp]:
  "sizeof_WP_Packet = 32" "sizeof_m_signature = 8" "sizeof_receptionBuffer = 1056"
  by (simp_all add: sizeof_WP_Packet_def sizeof_m_signature_def sizeof_receptionBuffer_def
      WP_PACKET_SIZE_def)

text \<open>The \<open>n\<close> bytes that a payload pointer points to.\<close>

fun payload_bytes :: "('o, 'z) wp_state_scheme \<Rightarrow> payload_ptr \<Rightarrow> nat \<Rightarrow> u8 list c_result" where
  "payload_bytes g PayloadNull n = (if n = 0 then Ret [] else Fault NullDeref)"
| "payload_bytes g PayloadReceptionBuffer n =
     (if n \<le> length (receptionBuffer g) then Ret (take n (receptionBuffer g)) else Fault BadIndex)"
| "payload_bytes g (PayloadObject d) n = (if n \<le> length d then Ret (take n d) else Fault BadIndex)"

lemma payload_bytes_length: "payload_bytes g p n = Inr bs \<Longrightarrow> length bs = n"
  by (cases p) (auto split: if_splits)

text \<open>Replace the bytes of an object from an offset on; outside of the object is a fault.\<close>

definition store_bytes :: "u8 list \<Rightarrow> int \<Rightarrow> u8 list \<Rightarrow> u8 list c_result" where
  "store_bytes obj off bs =
     (if bs = [] then Ret obj
      else if 0 \<le> off \<and> nat off + length bs \<le> length obj
      then Ret (take (nat off) obj @ bs @ drop (nat off + length bs) obj)
      else Fault BadIndex)"

lemma store_bytes_Nil [simp]: "store_bytes obj off [] = Ret obj"
  by (simp add: store_bytes_def)

lemma store_bytes_length: "store_bytes obj off bs = Inr obj' \<Longrightarrow> length obj' = length obj"
  by (auto simp: store_bytes_def split: if_splits)

lemma store_bytes_all: "length bs = length obj \<Longrightarrow> store_bytes obj 0 bs = Ret bs"
  by (auto simp: store_bytes_def)

lemma store_bytes_below: "off < 0 \<Longrightarrow> bs \<noteq> [] \<Longrightarrow> store_bytes obj off bs = Fault BadIndex"
  by (simp add: store_bytes_def)

section \<open>Property\<close>

text \<open>
  The header structure and its 32 bytes on the wire determine each other: writing the fields and
  reading them back gives the same header, and every 32 bytes are the image of exactly one header.
\<close>

theorem packet_image_roundtrip:
  "(wf_packet p \<longrightarrow> length (packet_bytes p) = sizeof_WP_Packet \<and> packet_of_bytes (packet_bytes p) = p) \<and>
   (length bs = sizeof_WP_Packet \<longrightarrow> wf_packet (packet_of_bytes bs) \<and> packet_bytes (packet_of_bytes bs) = bs)"
  by (simp add: packet_bytes_of_bytes)

theorem packet_image_roundtrip_witness:
  "packet_of_bytes (packet_bytes (packet_of_bytes (map of_nat [0..<32]))) =
     packet_of_bytes (map of_nat [0..<32])"
  using packet_image_roundtrip [of "packet_of_bytes (map of_nat [0..<32])" "map of_nat [0..<32]"] by simp

end
