(* ===== verification/NF_WP_Message.thy ===== *)
theory NF_WP_Message
  imports NF_CRC32 NF_WP_Types
begin

text \<open>
  \<open>src/CLR/WireProtocol/WireProtocol_Message.c\<close>: how messages are prepared and verified, and the
  receiver \<open>WP_Message_Process\<close>, one definition per state of its state machine and the loop that
  runs them. The functions that the linker binds per target (transport, application, time) are the
  fields of a \<open>wp_link\<close>.
\<close>

section \<open>What a target links in\<close>

text \<open>
  \<open>lk_crc32\<close> is the build option \<open>WP_IMPLEMENTS_CRC32\<close>. \<open>lk_ReceiveBytes size\<close> is the call
  \<open>WP_ReceiveBytes(ptr, &size)\<close>: its result, the bytes it stores from \<open>ptr\<close> on and the new size.
\<close>

record ('o, 'z) wp_link =
  lk_crc32 :: bool
  lk_ReceiveBytes :: "u16 \<Rightarrow> ('o, 'z) wp_state_scheme \<Rightarrow>
     bool \<times> u8 list \<times> u16 \<times> ('o, 'z) wp_state_scheme"
  lk_TransmitMessage :: "WP_Message \<Rightarrow> ('o, 'z) wp_state_scheme \<Rightarrow>
     (bool \<times> ('o, 'z) wp_state_scheme) c_result"
  lk_ProcessHeader :: "WP_Message \<Rightarrow> ('o, 'z) wp_state_scheme \<Rightarrow>
     bool \<times> WP_Message \<times> ('o, 'z) wp_state_scheme"
  lk_ProcessPayload :: "WP_Message \<Rightarrow> ('o, 'z) wp_state_scheme \<Rightarrow>
     (WP_Message \<times> ('o, 'z) wp_state_scheme) c_result"
  lk_CurrentSysTicks :: "('o, 'z) wp_state_scheme \<Rightarrow> u64 \<times> ('o, 'z) wp_state_scheme"
  lk_SysTicksToTime :: "u32 \<Rightarrow> u64"

section \<open>Preparing messages\<close>

definition zero_packet :: WP_Packet where
  "zero_packet =
     \<lparr>m_signature = replicate 8 0, m_crcHeader = 0, m_crcData = 0, m_cmd = 0, m_seq = 0,
      m_seqReply = 0, m_flags = 0, m_hsize = 0\<rparr>"

definition WP_Message_Initialize :: "WP_Message \<Rightarrow> WP_Message" where
  "WP_Message_Initialize message =
     message\<lparr>m_header := zero_packet, m_payload := PayloadNull, m_pos := PosNull, m_size := 0,
       m_payloadTicks := 0, m_rxState := ReceiveState_Idle\<rparr>"

definition WP_Message_PrepareReception :: "WP_Message \<Rightarrow> WP_Message" where
  "WP_Message_PrepareReception message = message\<lparr>m_rxState := ReceiveState_Initialize\<rparr>"

text \<open>
  A local \<open>WP_Message\<close> before it is initialised: \<open>WP_Message_Initialize\<close> overwrites every field, so
  its content does not matter.
\<close>

definition local_message :: WP_Message where
  "local_message =
     \<lparr>m_header = zero_packet, m_payload = PayloadNull, m_pos = PosNull, m_size = 0,
      m_payloadTicks = 0, m_rxState = ReceiveState_Unknown 0\<rparr>"

text \<open>
  \<open>SUPPORT_ComputeCRC(payload, size, 0)\<close>: the parameter \<open>nLength\<close> is a signed \<open>int\<close>, so a size of
  2^31 or more counts as no byte.
\<close>

definition payload_crc :: "('o, 'z) wp_state_scheme \<Rightarrow> payload_ptr \<Rightarrow> u32 \<Rightarrow> u32 c_result" where
  "payload_crc g payload sz =
     c_bind (payload_bytes g payload (nat (sint sz))) (\<lambda>bs. Ret (SUPPORT_ComputeCRC bs 0))"

definition header_crc :: "WP_Packet \<Rightarrow> u32" where
  "header_crc p = SUPPORT_ComputeCRC (packet_bytes p) 0"

text \<open>\<open>marker ? marker : MARKER_PACKET_V1\<close>\<close>

definition outbound_signature :: "('o, 'z) wp_state_scheme \<Rightarrow> u8 list" where
  "outbound_signature g = (case marker g of Some bs \<Rightarrow> take 8 bs | None \<Rightarrow> MARKER_PACKET_V1)"

definition WP_Message_PrepareRequest ::
    "bool \<Rightarrow> WP_Message \<Rightarrow> u32 \<Rightarrow> u32 \<Rightarrow> u32 \<Rightarrow> payload_ptr \<Rightarrow> ('o, 'z) wp_state_scheme \<Rightarrow>
       (WP_Message \<times> ('o, 'z) wp_state_scheme) c_result" where
  "WP_Message_PrepareRequest crc32 message cmd flags payloadSize payload g =
     c_bind (if crc32 then payload_crc g payload payloadSize else Ret 0) (\<lambda>crcData.
       let h = (m_header message)\<lparr>m_signature := outbound_signature g, m_crcData := crcData,
             m_cmd := cmd, m_seq := lastOutboundMessage g, m_seqReply := 0, m_flags := flags,
             m_hsize := payloadSize, m_crcHeader := 0\<rparr>
       in Ret (message\<lparr>m_header := h\<lparr>m_crcHeader := if crc32 then header_crc h else 0\<rparr>,
                       m_payload := payload\<rparr>,
               g\<lparr>lastOutboundMessage := lastOutboundMessage g + 1\<rparr>))"

definition WP_Message_PrepareReply ::
    "bool \<Rightarrow> WP_Message \<Rightarrow> WP_Packet \<Rightarrow> u32 \<Rightarrow> u32 \<Rightarrow> payload_ptr \<Rightarrow> ('o, 'z) wp_state_scheme \<Rightarrow>
       (WP_Message \<times> ('o, 'z) wp_state_scheme) c_result" where
  "WP_Message_PrepareReply crc32 message req flags payloadSize payload g =
     c_bind (if crc32 then payload_crc g payload payloadSize else Ret 0) (\<lambda>crcData.
       let h = (m_header message)\<lparr>m_signature := outbound_signature g, m_crcData := crcData,
             m_cmd := m_cmd req, m_seq := lastOutboundMessage g, m_seqReply := m_seq req,
             m_flags := flags OR WP_Flags_c_Reply, m_hsize := payloadSize, m_crcHeader := 0\<rparr>
       in Ret (message\<lparr>m_header := h\<lparr>m_crcHeader := if crc32 then header_crc h else 0\<rparr>,
                       m_payload := payload\<rparr>,
               g\<lparr>lastOutboundMessage := lastOutboundMessage g + 1\<rparr>))"

definition WP_Message_SetPayload :: "WP_Message \<Rightarrow> payload_ptr \<Rightarrow> WP_Message" where
  "WP_Message_SetPayload message payload = message\<lparr>m_payload := payload\<rparr>"

definition WP_Message_Release :: "WP_Message \<Rightarrow> WP_Message" where
  "WP_Message_Release message =
     (if m_payload message \<noteq> PayloadNull then message\<lparr>m_payload := PayloadNull\<rparr> else message)"

section \<open>Sending\<close>

type_synonym ('o, 'z) transmitter =
  "WP_Message \<Rightarrow> ('o, 'z) wp_state_scheme \<Rightarrow> (bool \<times> ('o, 'z) wp_state_scheme) c_result"

text \<open>The flag word that \<open>WP_ReplyToCommand\<close> puts together for a request with the given flags.\<close>

definition reply_flags :: "u32 \<Rightarrow> bool \<Rightarrow> bool \<Rightarrow> u32" where
  "reply_flags req_flags fSuccess fCritical =
     (if has_flag req_flags WP_Flags_c_NoCaching then WP_Flags_c_NoCaching else 0) OR
     (if fSuccess then WP_Flags_c_ACK else WP_Flags_c_NACK) OR
     (if \<not> fCritical then WP_Flags_c_NonCritical else 0)"

definition WP_ReplyToCommand ::
    "bool \<Rightarrow> ('o, 'z) transmitter \<Rightarrow> WP_Message \<Rightarrow> bool \<Rightarrow> bool \<Rightarrow> payload_ptr \<Rightarrow> int \<Rightarrow>
       ('o, 'z) wp_state_scheme \<Rightarrow> (WP_Message \<times> ('o, 'z) wp_state_scheme) c_result" where
  "WP_ReplyToCommand crc32 transmit message fSuccess fCritical ptr sz g =
     (let h = m_header message in
      if has_flag (m_flags h) WP_Flags_c_NonCritical then Ret (message, g)
      else
        let message = message\<lparr>m_header := h\<lparr>m_flags := m_flags h OR WP_Flags_c_NonCritical\<rparr>\<rparr>;
            flags = reply_flags (m_flags (m_header message)) fSuccess fCritical;
            ptr = (if fSuccess then ptr else PayloadNull);
            sz = (if fSuccess then sz else 0);
            msgReply = WP_Message_Initialize local_message
        in c_bind (WP_Message_PrepareReply crc32 msgReply (m_header message) flags
                     (word_of_int sz) ptr g) (\<lambda>(msgReply, g).
           c_bind (transmit msgReply g) (\<lambda>(_, g). Ret (message, g))))"

definition WP_Message_ReplyBadPacket ::
    "bool \<Rightarrow> ('o, 'z) transmitter \<Rightarrow> u32 \<Rightarrow> ('o, 'z) wp_state_scheme \<Rightarrow>
       ('o, 'z) wp_state_scheme c_result" where
  "WP_Message_ReplyBadPacket crc32 transmit flags g =
     c_bind (WP_Message_PrepareRequest crc32 (WP_Message_Initialize local_message) 0
               (WP_Flags_c_NonCritical OR WP_Flags_c_NACK OR flags) 0 PayloadNull g)
       (\<lambda>(message, g). c_bind (transmit message g) (\<lambda>(_, g). Ret g))"

definition WP_SendProtocolMessage ::
    "('o, 'z) transmitter \<Rightarrow> WP_Message \<Rightarrow> ('o, 'z) wp_state_scheme \<Rightarrow>
       ('o, 'z) wp_state_scheme c_result" where
  "WP_SendProtocolMessage transmit message g = c_bind (transmit message g) (\<lambda>(_, g). Ret g)"

definition WP_PrepareAndSendProtocolMessage ::
    "bool \<Rightarrow> ('o, 'z) transmitter \<Rightarrow> u32 \<Rightarrow> u32 \<Rightarrow> payload_ptr \<Rightarrow> u32 \<Rightarrow>
       ('o, 'z) wp_state_scheme \<Rightarrow> ('o, 'z) wp_state_scheme c_result" where
  "WP_PrepareAndSendProtocolMessage crc32 transmit cmd payloadSize payload flags g =
     c_bind (WP_Message_PrepareRequest crc32 (WP_Message_Initialize local_message) cmd flags
               payloadSize payload g)
       (\<lambda>(message, g). c_bind (transmit message g) (\<lambda>(_, g). Ret g))"

section \<open>Verification\<close>

text \<open>
  The first statement clears \<open>m_crcHeader\<close>; the value that is saved, compared and restored
  afterwards is the cleared one.
\<close>

definition WP_Message_VerifyHeader :: "bool \<Rightarrow> WP_Message \<Rightarrow> bool \<times> WP_Message" where
  "WP_Message_VerifyHeader crc32 message =
     (let message = message\<lparr>m_header := (m_header message)\<lparr>m_crcHeader := 0\<rparr>\<rparr> in
      if crc32 then
        let crc = m_crcHeader (m_header message);
            computedCrc = header_crc (m_header message);
            message = message\<lparr>m_header := (m_header message)\<lparr>m_crcHeader := crc\<rparr>\<rparr>
        in if computedCrc \<noteq> crc then (False, message) else (True, message)
      else (True, message))"

definition WP_Message_VerifyPayload ::
    "bool \<Rightarrow> WP_Message \<Rightarrow> ('o, 'z) wp_state_scheme \<Rightarrow> bool c_result" where
  "WP_Message_VerifyPayload crc32 message g =
     (if m_payload message = PayloadNull \<and> m_hsize (m_header message) \<noteq> 0 then Ret False
      else if crc32 then
        c_bind (payload_crc g (m_payload message) (m_hsize (m_header message)))
          (\<lambda>computedCrc. Ret (computedCrc = m_crcData (m_header message)))
      else Ret True)"

section \<open>The receiver\<close>

definition c_PayloadTimeout :: u64 where
  "c_PayloadTimeout = 50000000"

text \<open>One turn of the receiver loop either goes round again or returns from the function.\<close>

datatype 'g wp_step = Continue WP_Message 'g | Return bool WP_Message 'g

definition pos_dec :: "pos_ptr \<Rightarrow> pos_ptr" where
  "pos_dec p = (case p of PosNull \<Rightarrow> PosNull | PosHeader i \<Rightarrow> PosHeader (i - 1)
                        | PosPayload q i \<Rightarrow> PosPayload q (i - 1))"

text \<open>Store received bytes where \<open>m_pos\<close> points.\<close>

fun store_at_pos :: "WP_Message \<Rightarrow> u8 list \<Rightarrow> ('o, 'z) wp_state_scheme \<Rightarrow>
    (WP_Message \<times> ('o, 'z) wp_state_scheme) c_result" where
  "store_at_pos m bs g =
     (if bs = [] then Ret (m, g)
      else case m_pos m of
        PosNull \<Rightarrow> Fault NullDeref
      | PosHeader off \<Rightarrow>
          c_bind (store_bytes (packet_bytes (m_header m)) off bs)
            (\<lambda>h. Ret (m\<lparr>m_header := packet_of_bytes h\<rparr>, g))
      | PosPayload PayloadNull off \<Rightarrow> Fault NullDeref
      | PosPayload PayloadReceptionBuffer off \<Rightarrow>
          c_bind (store_bytes (receptionBuffer g) off bs)
            (\<lambda>b. Ret (m, g\<lparr>receptionBuffer := b\<rparr>))
      | PosPayload (PayloadObject d) off \<Rightarrow>
          c_bind (store_bytes d off bs)
            (\<lambda>d. Ret (m\<lparr>m_pos := PosPayload (PayloadObject d) off,
                        m_payload := PayloadObject d\<rparr>, g)))"

declare store_at_pos.simps [simp del]

text \<open>The call \<open>WP_ReceiveBytes(message->m_pos, &message->m_size)\<close>.\<close>

definition receive_at_pos :: "('o, 'z) wp_link \<Rightarrow> WP_Message \<Rightarrow> ('o, 'z) wp_state_scheme \<Rightarrow>
    (bool \<times> WP_Message \<times> ('o, 'z) wp_state_scheme) c_result" where
  "receive_at_pos L m g =
     (case lk_ReceiveBytes L (m_size m) g of (ok, bs, sz, g) \<Rightarrow>
        c_bind (store_at_pos m bs g) (\<lambda>(m, g). Ret (ok, m\<lparr>m_size := sz\<rparr>, g)))"

definition process_Initialize :: "WP_Message \<Rightarrow> WP_Message" where
  "process_Initialize m =
     (WP_Message_Release m)\<lparr>m_rxState := ReceiveState_WaitingForHeader, m_pos := PosHeader 0,
        m_size := 32\<rparr>"

text \<open>
  The inner loop of \<open>ReceiveState_WaitingForHeader\<close>, over the bytes of the header: \<open>len\<close> is the
  number of bytes received so far, \<open>buf\<close> the 32 bytes of the header. While what was received is no
  beginning of a marker, the bytes are shifted down by one.
\<close>

definition in_sync :: "u8 list \<Rightarrow> nat \<Rightarrow> bool" where
  "in_sync buf lenCmp \<longleftrightarrow>
     take lenCmp buf = take lenCmp MARKER_DEBUGGER_V1 \<or> take lenCmp buf = take lenCmp MARKER_PACKET_V1"

definition memmove_down :: "u8 list \<Rightarrow> nat \<Rightarrow> u8 list" where
  "memmove_down buf n = take n (drop 1 buf) @ drop n buf"

function synch_loop :: "u8 list \<Rightarrow> pos_ptr \<Rightarrow> u16 \<Rightarrow> (u8 list \<times> pos_ptr \<times> u16 \<times> u16) c_result" where
  "synch_loop buf pos sz =
     (let len = 32 - sz in
      if len = 0 then Ret (buf, pos, sz, len)
      else if in_sync buf (min (unat len) 8) then Ret (buf, pos, sz, len)
      else if length buf < unat len then Fault BadIndex
      else synch_loop (memmove_down buf (unat len - 1)) (pos_dec pos) (sz + 1))"
  by auto
termination
proof (relation "measure (\<lambda>(buf, pos, sz). unat (32 - sz))")
  fix buf pos and sz len :: u16
  assume "len = 32 - sz" "len \<noteq> 0"
  moreover have "32 - (sz + 1) = 32 - sz - 1" by (simp only: diff_diff_eq)
  ultimately show "((memmove_down buf (unat len - 1), pos_dec pos, sz + 1), buf, pos, sz)
      \<in> measure (\<lambda>(buf, pos, sz). unat (32 - sz))"
    by (simp only: in_measure case_prod_conv) (rule unat_pred)
qed simp

declare synch_loop.simps [simp del]

definition process_WaitingForHeader :: "('o, 'z) wp_link \<Rightarrow> WP_Message \<Rightarrow>
    ('o, 'z) wp_state_scheme \<Rightarrow> ('o, 'z) wp_state_scheme wp_step c_result" where
  "process_WaitingForHeader L m g =
     c_bind (receive_at_pos L m g) (\<lambda>(ok, m, g).
       if \<not> ok then Ret (Return False m g)
       else c_bind (synch_loop (packet_bytes (m_header m)) (m_pos m) (m_size m))
         (\<lambda>(buf, pos, sz, len).
            let m = m\<lparr>m_header := packet_of_bytes buf, m_pos := pos, m_size := sz\<rparr> in
            if 8 \<le> len then Ret (Continue (m\<lparr>m_rxState := ReceiveState_ReadingHeader\<rparr>) g)
            else Ret (Continue m g)))"

definition process_ReadingHeader :: "('o, 'z) wp_link \<Rightarrow> WP_Message \<Rightarrow>
    ('o, 'z) wp_state_scheme \<Rightarrow> ('o, 'z) wp_state_scheme wp_step c_result" where
  "process_ReadingHeader L m g =
     c_bind (receive_at_pos L m g) (\<lambda>(ok, m, g).
       if \<not> ok then Ret (Return False m g)
       else if m_size m = 0 then Ret (Continue (m\<lparr>m_rxState := ReceiveState_CompleteHeader\<rparr>) g)
       else Ret (Continue m g))"

text \<open>The tail of \<open>ReceiveState_CompleteHeader\<close> for a bad packet.\<close>

definition reject_header :: "('o, 'z) wp_link \<Rightarrow> WP_Message \<Rightarrow>
    ('o, 'z) wp_state_scheme \<Rightarrow> ('o, 'z) wp_state_scheme wp_step c_result" where
  "reject_header L m g =
     c_bind (if has_flag (m_flags (m_header m)) WP_Flags_c_NonCritical then Ret g
             else WP_Message_ReplyBadPacket (lk_crc32 L) (lk_TransmitMessage L) WP_Flags_c_BadHeader g)
       (\<lambda>g. Ret (Continue (m\<lparr>m_rxState := ReceiveState_Initialize\<rparr>) g))"

definition process_CompleteHeader :: "('o, 'z) wp_link \<Rightarrow> WP_Message \<Rightarrow>
    ('o, 'z) wp_state_scheme \<Rightarrow> ('o, 'z) wp_state_scheme wp_step c_result" where
  "process_CompleteHeader L m g =
     (case WP_Message_VerifyHeader (lk_crc32 L) m of (verified, m) \<Rightarrow>
        if \<not> verified then reject_header L m g
        else case lk_ProcessHeader L m g of (accepted, m, g) \<Rightarrow>
          if \<not> accepted then reject_header L m g
          else if m_hsize (m_header m) \<noteq> 0 then
            if m_payload m = PayloadNull
            then Ret (Continue (m\<lparr>m_rxState := ReceiveState_Initialize\<rparr>) g)
            else (case lk_CurrentSysTicks L g of (ticks, g) \<Rightarrow>
              Ret (Continue (m\<lparr>m_payloadTicks := ticks, m_rxState := ReceiveState_ReadingPayload,
                 m_pos := PosPayload (m_payload m) 0, m_size := ucast (m_hsize (m_header m))\<rparr>) g))
          else Ret (Continue (m\<lparr>m_rxState := ReceiveState_CompletePayload\<rparr>) g))"

text \<open>The difference of the ticks is passed as an \<open>unsigned int\<close>: its low 32 bits.\<close>

definition process_ReadingPayload :: "('o, 'z) wp_link \<Rightarrow> WP_Message \<Rightarrow>
    ('o, 'z) wp_state_scheme \<Rightarrow> ('o, 'z) wp_state_scheme wp_step c_result" where
  "process_ReadingPayload L m g =
     (case lk_CurrentSysTicks L g of (curTicks, g) \<Rightarrow>
        if lk_SysTicksToTime L (ucast (curTicks - m_payloadTicks m)) < c_PayloadTimeout then
          c_bind (receive_at_pos L (m\<lparr>m_payloadTicks := curTicks\<rparr>) g) (\<lambda>(ok, m, g).
            if \<not> ok then Ret (Return False m g)
            else if m_size m = 0
            then Ret (Continue (m\<lparr>m_rxState := ReceiveState_CompletePayload\<rparr>) g)
            else Ret (Continue m g))
        else Ret (Continue (m\<lparr>m_rxState := ReceiveState_Initialize\<rparr>) g))"

definition process_CompletePayload :: "('o, 'z) wp_link \<Rightarrow> WP_Message \<Rightarrow>
    ('o, 'z) wp_state_scheme \<Rightarrow> ('o, 'z) wp_state_scheme wp_step c_result" where
  "process_CompletePayload L m g =
     c_bind (WP_Message_VerifyPayload (lk_crc32 L) m g) (\<lambda>verified.
       c_bind (if verified then lk_ProcessPayload L m g
               else c_bind (WP_Message_ReplyBadPacket (lk_crc32 L) (lk_TransmitMessage L)
                              WP_Flags_c_BadPayload g) (\<lambda>g. Ret (m, g)))
         (\<lambda>(m, g). Ret (Continue (m\<lparr>m_rxState := ReceiveState_Initialize\<rparr>) g)))"

text \<open>The \<open>switch\<close>: one turn of the outer loop.\<close>

definition WP_Message_step :: "('o, 'z) wp_link \<Rightarrow> WP_Message \<Rightarrow>
    ('o, 'z) wp_state_scheme \<Rightarrow> ('o, 'z) wp_state_scheme wp_step c_result" where
  "WP_Message_step L m g =
     (case m_rxState m of
        ReceiveState_Idle \<Rightarrow> Ret (Return True m g)
      | ReceiveState_Initialize \<Rightarrow> Ret (Continue (process_Initialize m) g)
      | ReceiveState_WaitingForHeader \<Rightarrow> process_WaitingForHeader L m g
      | ReceiveState_ReadingHeader \<Rightarrow> process_ReadingHeader L m g
      | ReceiveState_CompleteHeader \<Rightarrow> process_CompleteHeader L m g
      | ReceiveState_ReadingPayload \<Rightarrow> process_ReadingPayload L m g
      | ReceiveState_CompletePayload \<Rightarrow> process_CompletePayload L m g
      | ReceiveState_Unknown _ \<Rightarrow> Ret (Return False m g))"

text \<open>The loop may run forever (on a link that never runs dry); then its value is \<open>None\<close>.\<close>

partial_function (option) WP_Message_Process :: "('o, 'z) wp_link \<Rightarrow> WP_Message \<Rightarrow>
    ('o, 'z) wp_state_scheme \<Rightarrow> (bool \<times> WP_Message \<times> ('o, 'z) wp_state_scheme) c_result option" where
  "WP_Message_Process L m g =
     (case WP_Message_step L m g of
        Inl e \<Rightarrow> Some (Inl e)
      | Inr s \<Rightarrow> (case s of
          Return b m g \<Rightarrow> Some (Inr (b, m, g))
        | Continue m g \<Rightarrow> WP_Message_Process L m g))"

text \<open>What the receiver threads of the targets do once per turn.\<close>

definition ReceiverThread_turn :: "('o, 'z) wp_link \<Rightarrow> WP_Message \<Rightarrow>
    ('o, 'z) wp_state_scheme \<Rightarrow> (bool \<times> WP_Message \<times> ('o, 'z) wp_state_scheme) c_result option" where
  "ReceiverThread_turn L inboundMessage g =
     WP_Message_Process L (WP_Message_PrepareReception (WP_Message_Initialize inboundMessage)) g"

section \<open>Preparation and verification\<close>

lemma WP_Message_Initialize_local: "WP_Message_Initialize m = WP_Message_Initialize m'"
  by (simp add: WP_Message_Initialize_def)

lemma wf_zero_packet [simp]: "wf_packet zero_packet"
  by (simp add: wf_packet_def zero_packet_def)

lemma WP_Message_Release_simps [simp]:
  "m_payload (WP_Message_Release m) = PayloadNull"
  "m_header (WP_Message_Release m) = m_header m"
  by (auto simp: WP_Message_Release_def)

lemma process_Initialize_simps [simp]:
  "m_header (process_Initialize m) = m_header m"
  "m_payload (process_Initialize m) = PayloadNull"
  "m_pos (process_Initialize m) = PosHeader 0"
  "m_size (process_Initialize m) = 32"
  "m_rxState (process_Initialize m) = ReceiveState_WaitingForHeader"
  by (simp_all add: process_Initialize_def)

lemma VerifyHeader_no_crc [simp]:
  "WP_Message_VerifyHeader False m = (True, m\<lparr>m_header := (m_header m)\<lparr>m_crcHeader := 0\<rparr>\<rparr>)"
  by (simp add: WP_Message_VerifyHeader_def)

lemma VerifyHeader_crc:
  "WP_Message_VerifyHeader True m =
     (header_crc ((m_header m)\<lparr>m_crcHeader := 0\<rparr>) = 0, m\<lparr>m_header := (m_header m)\<lparr>m_crcHeader := 0\<rparr>\<rparr>)"
  by (simp add: WP_Message_VerifyHeader_def Let_def)

lemma has_flag_or [flag_simps]: "has_flag (a OR b) f \<longleftrightarrow> has_flag a f \<or> has_flag b f"
  unfolding has_flag_def bit_eq_iff by (auto simp: bit_simps)

text \<open>A request that has been answered carries the flag that stops a second answer.\<close>

lemma WP_ReplyToCommand_marks:
  "WP_ReplyToCommand crc32 transmit m s c p n g = Inr (m', g') \<Longrightarrow>
     has_flag (m_flags (m_header m')) WP_Flags_c_NonCritical"
  by (auto simp: WP_ReplyToCommand_def Let_def c_bind_Inr_iff split: if_splits prod.splits)
     (simp_all add: has_flag_or, simp_all add: has_flag_def WP_Flags_defs)

lemma WP_ReplyToCommand_silent:
  "has_flag (m_flags (m_header m)) WP_Flags_c_NonCritical \<Longrightarrow>
     WP_ReplyToCommand crc32 transmit m s c p n g = Inr (m, g)"
  by (simp add: WP_ReplyToCommand_def Let_def)

section \<open>The search for a marker\<close>

text \<open>How many of the received bytes are dropped in front of the first possible marker.\<close>

fun sync_shift :: "u8 list \<Rightarrow> nat" where
  "sync_shift [] = 0"
| "sync_shift (b # bs) =
     (if in_sync (b # bs) (min (length (b # bs)) 8) then 0 else Suc (sync_shift bs))"

lemma in_sync_take: "n \<le> k \<Longrightarrow> in_sync (take k buf) n = in_sync buf n"
  by (simp add: in_sync_def min_def)

lemma sync_shift_le: "sync_shift xs \<le> length xs"
  by (induction xs) auto

lemma sync_shift_before: "j < sync_shift xs \<Longrightarrow> \<not> in_sync (drop j xs) (min (length xs - j) 8)"
proof (induction xs arbitrary: j)
  case (Cons b bs)
  then show ?case by (cases j) (auto split: if_splits)
qed simp

lemma sync_shift_at:
  "sync_shift xs < length xs \<Longrightarrow> in_sync (drop (sync_shift xs) xs) (min (length xs - sync_shift xs) 8)"
  by (induction xs) auto

fun pos_down :: "nat \<Rightarrow> pos_ptr \<Rightarrow> pos_ptr" where
  "pos_down n PosNull = PosNull"
| "pos_down n (PosHeader i) = PosHeader (i - int n)"
| "pos_down n (PosPayload q i) = PosPayload q (i - int n)"

lemma pos_dec_down: "pos_down n (pos_dec p) = pos_down (Suc n) p"
  by (cases p) (auto simp: pos_dec_def)

lemma memmove_down_props:
  assumes "0 < n" "n \<le> length buf"
  shows "length (memmove_down buf (n - 1)) = length buf"
    and "take (n - 1) (memmove_down buf (n - 1)) = drop 1 (take n buf)"
  using assms by (auto simp: memmove_down_def drop_take)

lemma synch_loop_result:
  assumes "length buf = 32" and "unat sz = 32 - n" and "n \<le> 32"
  shows "\<exists>buf'. synch_loop buf pos sz = Ret (buf', pos_down (sync_shift (take n buf)) pos,
             sz + of_nat (sync_shift (take n buf)), 32 - (sz + of_nat (sync_shift (take n buf)))) \<and>
           length buf' = 32 \<and>
           take (n - sync_shift (take n buf)) buf' = drop (sync_shift (take n buf)) (take n buf)"
  using assms
proof (induction n arbitrary: buf pos sz)
  case 0
  then have "sz = 32" by (simp add: word_unat_eq_iff)
  then show ?case using 0 by (cases pos) (subst synch_loop.simps, simp add: Let_def)+
next
  case (Suc n)
  have szle: "sz \<le> 32" using Suc.prems by (simp add: word_le_nat_alt)
  have len: "unat (32 - sz) = Suc n" using Suc.prems szle by (simp add: unat_sub)
  then have ne: "32 - sz \<noteq> 0" by auto
  obtain b bs where got: "take (Suc n) buf = b # bs" using Suc.prems by (cases buf) auto
  then have bs: "length bs = n" "drop 1 (take (Suc n) buf) = bs"
    using Suc.prems by (auto dest: arg_cong [of _ _ length])
  have sync: "in_sync buf (min (Suc n) 8) = in_sync (b # bs) (min (length (b # bs)) 8)"
    using in_sync_take [of "min (Suc n) 8" "Suc n" buf] unfolding got length_Cons bs(1) by simp
  show ?case
  proof (cases "in_sync buf (min (Suc n) 8)")
    case True
    then have "sync_shift (b # bs) = 0" by (simp only: sync sync_shift.simps if_True)
    then show ?thesis using Suc.prems True ne len
      by (cases pos) (subst synch_loop.simps, simp add: Let_def got)+
  next
    case False
    then have k: "sync_shift (b # bs) = Suc (sync_shift bs)"
      by (simp only: sync sync_shift.simps if_False)
    let ?buf = "memmove_down buf n"
    have buf: "length ?buf = 32" "take n ?buf = bs"
      using memmove_down_props [of "Suc n" buf] Suc.prems bs by simp_all
    have "unat (sz + 1) = 32 - n" using Suc.prems by (subst unat_add_lem [THEN iffD1]) simp_all
    from Suc.IH [OF buf(1) this, of "pos_dec pos"] Suc.prems obtain buf' where rec:
      "synch_loop ?buf (pos_dec pos) (sz + 1) = Ret (buf', pos_down (sync_shift bs) (pos_dec pos),
         sz + 1 + of_nat (sync_shift bs), 32 - (sz + 1 + of_nat (sync_shift bs)))"
      "length buf' = 32" "take (n - sync_shift bs) buf' = drop (sync_shift bs) bs"
      unfolding buf by auto
    have "synch_loop buf pos sz = synch_loop ?buf (pos_dec pos) (sz + 1)"
      using Suc.prems False ne len by (subst synch_loop.simps) (simp add: Let_def)
    then show ?thesis using rec by (simp add: got k pos_dec_down ac_simps del: sync_shift.simps)
  qed
qed

section \<open>Properties\<close>

text \<open>
  A request is answered at most once: after \<open>WP_ReplyToCommand\<close> has answered it, a second call
  for the same request, with whatever verdict and data, sends nothing and changes nothing.
\<close>

theorem reply_at_most_once:
  assumes "WP_ReplyToCommand crc32 transmit message fSuccess fCritical ptr sz g = Inr (message', g')"
  shows "WP_ReplyToCommand crc32 transmit message' fSuccess' fCritical' ptr' sz' g'' = Inr (message', g'')"
  by (rule WP_ReplyToCommand_silent, rule WP_ReplyToCommand_marks) (fact assms)

definition sample_state :: "unit wp_state" where
  "sample_state = \<lparr>receptionBuffer = replicate 1056 0, lastOutboundMessage = 7, marker = None,
     WP_Port_Intitialised = False, os = ()\<rparr>"

theorem reply_at_most_once_witness:
  "let request = local_message\<lparr>m_header := zero_packet\<lparr>m_cmd := 3, m_seq := 9\<rparr>\<rparr>;
       sent = (\<lambda>m g. Ret (True, g));
       request' = request\<lparr>m_header := (m_header request)\<lparr>m_flags := WP_Flags_c_NonCritical\<rparr>\<rparr>
   in WP_ReplyToCommand False sent request' False True PayloadNull 4 sample_state =
        Inr (request', sample_state)"
  unfolding Let_def
  by (rule reply_at_most_once [of False "\<lambda>m g. Ret (True, g)"
        "local_message\<lparr>m_header := zero_packet\<lparr>m_cmd := 3, m_seq := 9\<rparr>\<rparr>" True False
        PayloadNull 0 sample_state _ "sample_state\<lparr>lastOutboundMessage := 8\<rparr>"])
     (simp add: WP_ReplyToCommand_def WP_Message_PrepareReply_def has_flag_def flag_simps Let_def
        zero_packet_def sample_state_def)

text \<open>
  With \<open>WP_IMPLEMENTS_CRC32\<close> the header check does not do its work: a message that
  \<open>WP_Message_PrepareRequest\<close> itself has prepared passes \<open>WP_Message_VerifyHeader\<close> exactly when its
  header CRC happens to be zero, because the stored CRC is cleared before it is compared.
\<close>

theorem prepared_header_verifies_iff_crc_zero:
  assumes "WP_Message_PrepareRequest True message cmd flags payloadSize payload g = Inr (message', g')"
  shows "fst (WP_Message_VerifyHeader True message') \<longleftrightarrow> m_crcHeader (m_header message') = 0"
  using assms
  by (auto simp: WP_Message_PrepareRequest_def VerifyHeader_crc Let_def c_bind_Inr_iff)

theorem prepared_header_verifies_iff_crc_zero_witness:
  "\<exists>m g. WP_Message_PrepareRequest True (WP_Message_Initialize local_message) 0 0 0 PayloadNull
      sample_state = Inr (m, g) \<and>
     (fst (WP_Message_VerifyHeader True m) \<longleftrightarrow> m_crcHeader (m_header m) = 0)"
proof -
  let ?r = "WP_Message_PrepareRequest True (WP_Message_Initialize local_message) 0 0 0 PayloadNull
      sample_state"
  obtain m g where "?r = Inr (m, g)"
    by (simp add: WP_Message_PrepareRequest_def payload_crc_def Let_def)
  with prepared_header_verifies_iff_crc_zero [OF this] show ?thesis by blast
qed

text \<open>
  The search for a marker drops received bytes up to the first place where a marker may begin
  and keeps the rest in order: with \<open>n\<close> bytes received, it returns after dropping the least \<open>k\<close> bytes
  such that the remaining ones agree with a marker, and moves \<open>m_pos\<close> and \<open>m_size\<close> by the same \<open>k\<close>.
\<close>

theorem marker_search_drops_least_prefix:
  assumes "length buf = 32" and "unat sz = 32 - n" and "n \<le> 32"
  shows "\<exists>k buf'. synch_loop buf (PosHeader off) sz =
             Ret (buf', PosHeader (off - int k), sz + of_nat k, 32 - (sz + of_nat k)) \<and>
           k \<le> n \<and> length buf' = 32 \<and> take (n - k) buf' = drop k (take n buf) \<and>
           (k = n \<or> in_sync (drop k buf) (min (n - k) 8)) \<and>
           (\<forall>j<k. \<not> in_sync (drop j buf) (min (n - j) 8))"
proof -
  let ?got = "take n buf" and ?k = "sync_shift (take n buf)"
  have got: "length ?got = n" using assms by simp
  have drop: "in_sync (drop j ?got) (min (n - j) 8) = in_sync (drop j buf) (min (n - j) 8)" for j
    by (simp add: drop_take in_sync_take)
  have "?k \<le> n" using sync_shift_le [of ?got] got by simp
  moreover have "?k = n \<or> in_sync (drop ?k buf) (min (n - ?k) 8)"
    using sync_shift_at [of ?got] sync_shift_le [of ?got] unfolding got drop by linarith
  moreover have "\<forall>j<?k. \<not> in_sync (drop j buf) (min (n - j) 8)"
    using sync_shift_before [of _ ?got] unfolding got drop by blast
  ultimately show ?thesis
    using synch_loop_result [OF assms, of "PosHeader off"] by auto
qed

theorem marker_search_drops_least_prefix_witness:
  "let buf = [0x55, 0x4E] @ MARKER_PACKET_V1 @ replicate 22 0 in
   \<exists>k buf'. synch_loop buf (PosHeader 0) 0 =
             Ret (buf', PosHeader (0 - int k), 0 + of_nat k, 32 - (0 + of_nat k)) \<and>
           k \<le> 32 \<and> length buf' = 32 \<and> take (32 - k) buf' = drop k (take 32 buf) \<and>
           (k = 32 \<or> in_sync (drop k buf) (min (32 - k) 8)) \<and>
           (\<forall>j<k. \<not> in_sync (drop j buf) (min (32 - j) 8))"
  unfolding Let_def by (rule marker_search_drops_least_prefix) simp_all

end
