(* ===== verification/NF_WP_Receiver.thy ===== *)
theory NF_WP_Receiver
  imports NF_WP_Message "HOL-Library.Sublist"
begin

text \<open>
  The interfaces of the receiver and what it guarantees over any transport and application that
  keep them. \<open>wp_transport\<close> is the contract of \<open>WP_ReceiveBytes\<close> and \<open>WP_TransmitMessage\<close>,
  \<open>wp_application\<close> that of \<open>WP_App_ProcessHeader\<close> and \<open>WP_App_ProcessPayload\<close>, \<open>wp_receiver\<close> puts
  the two together. The contracts speak of two ghost views of the RTOS: \<open>rx\<close>, the bytes that will
  arrive, in order, and \<open>tx\<close>, the bytes put on the wire.
\<close>

section \<open>Interfaces\<close>

text \<open>The bytes of a message on the wire: its header, and its payload where it has one.\<close>

definition wire_frame :: "WP_Message \<Rightarrow> ('o, 'z) wp_state_scheme \<Rightarrow> u8 list c_result" where
  "wire_frame m g =
     (if m_hsize (m_header m) \<noteq> 0 \<and> m_payload m \<noteq> PayloadNull
      then c_bind (payload_bytes g (m_payload m) (unat (m_hsize (m_header m))))
             (\<lambda>bs. Ret (packet_bytes (m_header m) @ bs))
      else Ret (packet_bytes (m_header m)))"

text \<open>A call that changes nothing but the RTOS and the port of the transport.\<close>

definition only_port :: "('o, 'z) wp_state_scheme \<Rightarrow> ('o, 'z) wp_state_scheme \<Rightarrow> bool" where
  "only_port g g' \<longleftrightarrow> g' = g\<lparr>WP_Port_Intitialised := WP_Port_Intitialised g', os := os g'\<rparr>"

lemma only_port_refl [simp]: "only_port g g"
  by (simp add: only_port_def)

lemma only_port_simps:
  assumes "only_port g g'"
  shows "receptionBuffer g' = receptionBuffer g" "lastOutboundMessage g' = lastOutboundMessage g"
    "marker g' = marker g" "wp_state.more g' = wp_state.more g"
  using assms by (cases g; cases g'; simp add: only_port_def)+

lemma only_port_trans: "only_port g g' \<Longrightarrow> only_port g' g'' \<Longrightarrow> only_port g g''"
  by (cases g; cases g'; cases g''; simp add: only_port_def)

locale wp_transport =
  fixes receive :: "u16 \<Rightarrow> ('o, 'z) wp_state_scheme \<Rightarrow>
      bool \<times> u8 list \<times> u16 \<times> ('o, 'z) wp_state_scheme"
    and transmit :: "('o, 'z) transmitter"
    and rx tx :: "'o \<Rightarrow> u8 list"
  assumes receive_law: "receive n g = (ok, bs, n', g') \<Longrightarrow>
      length bs \<le> unat n \<and> n' = n - of_nat (length bs) \<and> (ok \<longleftrightarrow> length bs = unat n) \<and>
      rx (os g) = bs @ rx (os g') \<and> tx (os g') = tx (os g) \<and> only_port g g'"
    and transmit_law: "transmit m g = Inr (ok, g') \<Longrightarrow>
      only_port g g' \<and> rx (os g') = rx (os g) \<and>
      (\<exists>sent. tx (os g') = tx (os g) @ sent \<and>
         (\<forall>fr. wf_packet (m_header m) \<and> wire_frame m g = Inr fr \<longrightarrow> prefix sent fr \<and> (ok \<longrightarrow> sent = fr)))"
    and transmit_total: "wire_frame m g = Inr fr \<Longrightarrow> \<exists>ok g'. transmit m g = Inr (ok, g')"
begin

lemma receive_complete: "receive n g = (True, bs, n', g') \<Longrightarrow> n' = 0 \<and> length bs = unat n"
  by (drule receive_law) simp

lemma receive_some: "receive n g = (True, bs, n', g') \<Longrightarrow> n \<noteq> 0 \<Longrightarrow> length (rx (os g')) < length (rx (os g))"
  using receive_law [of n g True bs n' g'] receive_complete [of n g bs n' g']
  by (metis length_append less_add_same_cancel2 unat_gt_0 word_neq_0_conv)

lemma receive_rx_le: "receive n g = (ok, bs, n', g') \<Longrightarrow> length (rx (os g')) \<le> length (rx (os g))"
  by (drule receive_law) simp

end

locale wp_application =
  fixes process_header :: "WP_Message \<Rightarrow> ('o, 'z) wp_state_scheme \<Rightarrow>
      bool \<times> WP_Message \<times> ('o, 'z) wp_state_scheme"
    and process_payload :: "WP_Message \<Rightarrow> ('o, 'z) wp_state_scheme \<Rightarrow>
      (WP_Message \<times> ('o, 'z) wp_state_scheme) c_result"
    and rx :: "'o \<Rightarrow> u8 list"
  assumes header_law: "process_header m g = (b, m', g') \<Longrightarrow> rx (os g') = rx (os g)"
    and payload_law: "process_payload m g = Inr (m', g') \<Longrightarrow> rx (os g') = rx (os g)"

locale wp_receiver =
  wp_transport "lk_ReceiveBytes L" "lk_TransmitMessage L" rx tx +
  wp_application "lk_ProcessHeader L" "lk_ProcessPayload L" rx
  for L :: "('o, 'z) wp_link" and rx tx :: "'o \<Rightarrow> u8 list" +
  assumes ticks_law: "lk_CurrentSysTicks L g = (t, g') \<Longrightarrow> rx (os g') = rx (os g)"
begin

lemma ReplyBadPacket_rx:
  "WP_Message_ReplyBadPacket c (lk_TransmitMessage L) f g = Inr g' \<Longrightarrow> rx (os g') = rx (os g)"
  by (auto simp: WP_Message_ReplyBadPacket_def c_bind_Inr_iff WP_Message_PrepareRequest_def Let_def
      split: if_splits dest!: transmit_law)

end

text \<open>
  The states of the receiver in the order in which it leaves them. A turn either consumes a byte of
  the line or moves to a state of lower rank, so the loop returns once the line runs dry.
\<close>

definition rx_rank :: "WP_Message \<Rightarrow> nat" where
  "rx_rank m = (case m_rxState m of
     ReceiveState_Initialize \<Rightarrow> 1
   | ReceiveState_CompletePayload \<Rightarrow> 2
   | ReceiveState_ReadingPayload \<Rightarrow> 3
   | ReceiveState_CompleteHeader \<Rightarrow> 4
   | ReceiveState_ReadingHeader \<Rightarrow> 5
   | ReceiveState_WaitingForHeader \<Rightarrow> (if m_size m = 0 then 6 else 0)
   | _ \<Rightarrow> 0)"

lemma rx_rank_le: "rx_rank m \<le> 6"
  by (simp add: rx_rank_def split: ReceiveState.split)

lemma synch_loop_len:
  "synch_loop buf pos sz = Inr (buf', pos', sz', len) \<Longrightarrow> len = 32 - sz'"
  by (induction buf pos sz rule: synch_loop.induct, subst (asm) synch_loop.simps)
    (auto simp: Let_def split: if_splits)

lemma store_at_pos_os:
  "store_at_pos m bs g = Inr (m', g') \<Longrightarrow>
     os g' = os g \<and> m_rxState m' = m_rxState m \<and> m_size m' = m_size m"
  by (auto simp: store_at_pos.simps c_bind_Inr_iff split: if_splits pos_ptr.splits payload_ptr.splits)

context wp_receiver
begin

definition rx_measure :: "WP_Message \<Rightarrow> ('o, 'z) wp_state_scheme \<Rightarrow> nat" where
  "rx_measure m g = 7 * length (rx (os g)) + rx_rank m"

lemma receive_at_pos_props:
  assumes "receive_at_pos L m g = Inr (ok, m', g')"
  shows "length (rx (os g')) \<le> length (rx (os g))" and "m_rxState m' = m_rxState m"
    and "ok \<Longrightarrow> m_size m' = 0"
    and "ok \<Longrightarrow> m_size m \<noteq> 0 \<Longrightarrow> length (rx (os g')) < length (rx (os g))"
  using assms receive_rx_le receive_complete receive_some
  by (fastforce simp: receive_at_pos_def c_bind_Inr_iff dest!: store_at_pos_os split: prod.splits)+

lemma receive_at_pos_dest:
  "receive_at_pos L m g = Inr (ok, m', g') \<Longrightarrow>
     length (rx (os g')) \<le> length (rx (os g)) \<and> (ok \<longrightarrow> m_size m' = 0)"
  using receive_at_pos_props(1,3) by blast

lemma waiting_decreases:
  assumes "m_rxState m = ReceiveState_WaitingForHeader"
    and "process_WaitingForHeader L m g = Inr (Continue m' g')"
  shows "rx_measure m' g' < rx_measure m g"
proof -
  from assms(2) obtain m1 buf pos sz len where
    rcv: "receive_at_pos L m g = Inr (True, m1, g')" and
    syn: "synch_loop (packet_bytes (m_header m1)) (m_pos m1) (m_size m1) = Inr (buf, pos, sz, len)"
    and m': "m' = m1\<lparr>m_header := packet_of_bytes buf, m_pos := pos, m_size := sz,
               m_rxState := if 8 \<le> len then ReceiveState_ReadingHeader else m_rxState m1\<rparr>"
    by (auto simp: process_WaitingForHeader_def c_bind_Inr_iff Let_def split: if_splits)
  have len: "len = 32 - sz" using synch_loop_len [OF syn] .
  show ?thesis
  proof (cases "m_size m = 0")
    case False
    then show ?thesis using receive_at_pos_props(4) [OF rcv] rx_rank_le [of m']
      by (simp add: rx_measure_def)
  next
    case True
    have "m_rxState m1 = ReceiveState_WaitingForHeader"
      using receive_at_pos_props(2) [OF rcv] assms(1) by simp
    then have "rx_rank m' < 6"
      using len by (auto simp: m' rx_rank_def)
    moreover have "rx_rank m = 6" using True assms(1) by (simp add: rx_rank_def)
    ultimately show ?thesis using receive_at_pos_props(1) [OF rcv] by (simp add: rx_measure_def)
  qed
qed

lemma reading_header_decreases:
  assumes "m_rxState m = ReceiveState_ReadingHeader"
    and "process_ReadingHeader L m g = Inr (Continue m' g')"
  shows "rx_measure m' g' < rx_measure m g"
  using assms
  by (auto simp: process_ReadingHeader_def c_bind_Inr_iff rx_measure_def rx_rank_def
      dest!: receive_at_pos_dest split: if_splits)

lemma complete_header_decreases:
  assumes "m_rxState m = ReceiveState_CompleteHeader"
    and "process_CompleteHeader L m g = Inr (Continue m' g')"
  shows "rx_measure m' g' < rx_measure m g"
proof -
  have "rx_rank m = 4" using assms(1) by (simp add: rx_rank_def)
  moreover have "rx (os g') = rx (os g) \<and> m_rxState m' \<in>
      {ReceiveState_Initialize, ReceiveState_ReadingPayload, ReceiveState_CompletePayload}"
    using assms(2)
    by (auto simp: process_CompleteHeader_def reject_header_def c_bind_Inr_iff
        dest!: header_law ticks_law ReplyBadPacket_rx split: if_splits prod.splits)
  ultimately show ?thesis by (auto simp: rx_measure_def rx_rank_def)
qed

lemma reading_payload_decreases:
  assumes "m_rxState m = ReceiveState_ReadingPayload"
    and "process_ReadingPayload L m g = Inr (Continue m' g')"
  shows "rx_measure m' g' < rx_measure m g"
  using assms
  by (auto simp: process_ReadingPayload_def c_bind_Inr_iff rx_measure_def rx_rank_def
      dest!: receive_at_pos_dest ticks_law split: if_splits prod.splits)

lemma complete_payload_decreases:
  assumes "m_rxState m = ReceiveState_CompletePayload"
    and "process_CompletePayload L m g = Inr (Continue m' g')"
  shows "rx_measure m' g' < rx_measure m g"
  using assms
  by (auto simp: process_CompletePayload_def c_bind_Inr_iff rx_measure_def rx_rank_def
      dest!: payload_law ReplyBadPacket_rx split: if_splits prod.splits)

lemma step_decreases:
  assumes "WP_Message_step L m g = Inr (Continue m' g')"
  shows "rx_measure m' g' < rx_measure m g"
proof (cases "m_rxState m")
  case ReceiveState_Initialize
  with assms show ?thesis
    by (auto simp: WP_Message_step_def rx_measure_def rx_rank_def)
qed (use assms waiting_decreases reading_header_decreases complete_header_decreases
      reading_payload_decreases complete_payload_decreases
      in \<open>auto simp: WP_Message_step_def\<close>)

lemma Process_returns: "\<exists>r. WP_Message_Process L m g = Some r"
proof (induction "rx_measure m g" arbitrary: m g rule: less_induct)
  case less
  show ?case
  proof (cases "WP_Message_step L m g")
    case (Inl e)
    then show ?thesis by (subst WP_Message_Process.simps) simp
  next
    case (Inr s)
    show ?thesis
    proof (cases s)
      case (Continue m' g')
      with less [OF step_decreases] Inr obtain r where "WP_Message_Process L m' g' = Some r"
        by blast
      then show ?thesis using Inr Continue by (subst WP_Message_Process.simps) simp
    next
      case (Return b m' g')
      then show ?thesis using Inr by (subst WP_Message_Process.simps) simp
    qed
  qed
qed

end

section \<open>Resynchronisation\<close>

lemma WP_Message_Process_Continue:
  "WP_Message_step L m g = Inr (Continue m' g') \<Longrightarrow> WP_Message_Process L m g = WP_Message_Process L m' g'"
  by (subst WP_Message_Process.simps) simp

lemma WP_Message_Process_Fault:
  "WP_Message_step L m g = Inl e \<Longrightarrow> WP_Message_Process L m g = Some (Inl e)"
  by (subst WP_Message_Process.simps) simp

lemma WP_Message_Process_Return:
  "WP_Message_step L m g = Inr (Return b m' g') \<Longrightarrow> WP_Message_Process L m g = Some (Inr (b, m', g'))"
  by (subst WP_Message_Process.simps) simp

lemma receive_below_faults:
  assumes "m_pos m = PosHeader off" "off < 0"
    and "lk_ReceiveBytes L (m_size m) g = (ok, bs, n', g')" "bs \<noteq> []"
  shows "receive_at_pos L m g = Inl BadIndex"
  using assms by (simp add: receive_at_pos_def store_at_pos.simps store_bytes_below)

lemma step_below_faults:
  assumes "m_rxState m \<in> {ReceiveState_WaitingForHeader, ReceiveState_ReadingHeader}"
    and "m_pos m = PosHeader off" "off < 0"
    and "lk_ReceiveBytes L (m_size m) g = (ok, bs, n', g')" "bs \<noteq> []"
  shows "WP_Message_step L m g = Inl BadIndex"
  using assms receive_below_faults [OF assms(2-5)]
  by (auto simp: WP_Message_step_def process_WaitingForHeader_def process_ReadingHeader_def)

section \<open>Properties\<close>

text \<open>
  C22: The receiver loop returns: over every transport and application that keep their contracts, and
  from every message and global state, \<open>WP_Message_Process\<close> ends once the bytes that are still to
  arrive have been read (it never spins without consuming input).
\<close>

theorem receiver_returns:
  assumes "wp_receiver L rx tx"
  shows "\<exists>r. WP_Message_Process L m g = Some r"
  using assms by (rule wp_receiver.Process_returns)

text \<open>
  C26: A receiver that has to resynchronise writes outside of the message. When the first 32 bytes do
  not begin with a marker, \<open>m_pos\<close> has been moved below the header by the number of dropped bytes,
  and the next byte that arrives is stored in front of the message object.
\<close>

theorem resynchronisation_writes_out_of_bounds:
  assumes "m_rxState m = ReceiveState_WaitingForHeader" "m_pos m = PosHeader 0" "m_size m = 32"
    and "wf_packet (m_header m)"
    and "lk_ReceiveBytes L 32 g = (True, bs, 0, g1)" "length bs = 32" "\<not> in_sync bs 8"
    and "lk_ReceiveBytes L (of_nat (sync_shift bs)) g1 = (ok, bs', n', g2)" "bs' \<noteq> []"
  shows "WP_Message_Process L m g = Some (Inl BadIndex)"
proof -
  have k: "sync_shift bs \<noteq> 0"
    using assms(6,7) sync_shift_at [of bs] by (cases "sync_shift bs = 0") auto
  have rcv: "receive_at_pos L m g = Inr (True, m\<lparr>m_header := packet_of_bytes bs, m_size := 0\<rparr>, g1)"
    using assms(2-6)
    by (auto simp: receive_at_pos_def store_at_pos.simps store_bytes_all)
  obtain buf' where "synch_loop bs (PosHeader 0) 0 =
      Inr (buf', PosHeader (- int (sync_shift bs)), of_nat (sync_shift bs), 32 - of_nat (sync_shift bs))"
    using synch_loop_result [of bs 0 32 "PosHeader 0"] assms(6) by auto
  with rcv assms(1,2,6) obtain m' where
    step: "WP_Message_step L m g = Inr (Continue m' g1)" and
    m': "m_rxState m' \<in> {ReceiveState_WaitingForHeader, ReceiveState_ReadingHeader}"
      "m_pos m' = PosHeader (- int (sync_shift bs))" "m_size m' = of_nat (sync_shift bs)"
    by (cases "(8 :: u16) \<le> 32 - of_nat (sync_shift bs)")
       (simp_all add: WP_Message_step_def process_WaitingForHeader_def packet_bytes_of_bytes Let_def)
  have "WP_Message_step L m' g1 = Inl BadIndex"
    by (rule step_below_faults [OF m'(1,2)]) (use k m'(3) assms(8,9) in simp_all)
  then show ?thesis
    using step by (simp add: WP_Message_Process_Continue WP_Message_Process_Fault)
qed

end
