(* ===== verification/NF_WP_Transport.thy ===== *)
theory NF_WP_Transport
  imports NF_WP_Receiver
begin

text \<open>
  The transports: \<open>WP_ReceiveBytes\<close> and \<open>WP_TransmitMessage\<close> of
  \<open>targets/.../common/WireProtocol_HAL_Interface.c\<close> for ChibiOS (USB and serial), ESP32, NXP and TI,
  and the tick conversion of \<open>targetHAL_Time.cpp\<close>. The driver calls are parameters: the fields of an
  \<open>rtos_io\<close>, with the documented behaviour of the drivers as the locale \<open>rtos_contract\<close>. Each
  transport is then a \<open>wp_transport\<close>.
\<close>

section \<open>Driver calls\<close>

text \<open>
  \<open>io_read n\<close> is \<open>streamRead\<close>, \<open>sdReadTimeout\<close>, \<open>uart_read_bytes\<close>, \<open>UART_read\<close> or
  \<open>LPUART_RTOS_Receive\<close> for \<open>n\<close> bytes: the count it reports and the bytes it stores. \<open>io_write\<close> is
  \<open>streamWrite\<close>, \<open>chnWriteTimeout\<close>, \<open>uart_write_bytes\<close> or \<open>UART_write\<close> with the count it reports,
  \<open>io_send\<close> is \<open>LPUART_RTOS_Send\<close> and whether it is \<open>kStatus_Success\<close>, \<open>io_open\<close> the installation
  of the port's driver (and whether it succeeds), \<open>io_suspend\<close> is \<open>vTaskSuspend(NULL)\<close>, \<open>io_ticks\<close>
  is \<open>HAL_Time_CurrentSysTicks()\<close>.
\<close>

record 'o rtos_io =
  io_read :: "nat \<Rightarrow> 'o \<Rightarrow> (u32 \<times> u8 list) \<times> 'o"
  io_write :: "u8 list \<Rightarrow> 'o \<Rightarrow> u32 \<times> 'o"
  io_send :: "u8 list \<Rightarrow> 'o \<Rightarrow> bool \<times> 'o"
  io_open :: "'o \<Rightarrow> bool \<times> 'o"
  io_suspend :: "'o \<Rightarrow> 'o"
  io_ticks :: "'o \<Rightarrow> u64 \<times> 'o"

section \<open>The shared shape of the transports\<close>

text \<open>
  The body of every \<open>WP_ReceiveBytes\<close>: a request for no byte succeeds; otherwise the driver is asked
  once, \<open>*size -= read\<close>, and the call succeeds when it got all it asked for. The advanced \<open>ptr\<close> is
  the parameter's local copy: the caller's \<open>m_pos\<close> stays where it was.
\<close>

definition read_request :: "(nat \<Rightarrow> 'o \<Rightarrow> (u32 \<times> u8 list) \<times> 'o) \<Rightarrow> u16 \<Rightarrow>
    ('o, 'z) wp_state_scheme \<Rightarrow> bool \<times> u8 list \<times> u16 \<times> ('o, 'z) wp_state_scheme" where
  "read_request rd sz g =
     (if sz \<noteq> 0 then
        let requestedSize = sz; ((read, bs), s) = rd (unat sz) (os g)
        in (ucast requestedSize = read, bs, sz - ucast read, g\<lparr>os := s\<rparr>)
      else (True, [], sz, g))"

text \<open>Header first, then the payload, each with one write whose count is compared with its size.\<close>

definition write_message :: "(u8 list \<Rightarrow> 'o \<Rightarrow> u32 \<times> 'o) \<Rightarrow> WP_Message \<Rightarrow>
    ('o, 'z) wp_state_scheme \<Rightarrow> (bool \<times> ('o, 'z) wp_state_scheme) c_result" where
  "write_message wr message g =
     (case wr (packet_bytes (m_header message)) (os g) of (writeResult, s) \<Rightarrow>
        let g = g\<lparr>os := s\<rparr> in
        if writeResult = 32 then
          if m_hsize (m_header message) \<noteq> 0 \<and> m_payload message \<noteq> PayloadNull then
            c_bind (payload_bytes g (m_payload message) (unat (m_hsize (m_header message))))
              (\<lambda>bs. case wr bs (os g) of (writeResult, s) \<Rightarrow>
                 Ret (writeResult = m_hsize (m_header message), g\<lparr>os := s\<rparr>))
          else Ret (True, g)
        else Ret (False, g))"

section \<open>The targets\<close>

definition WP_ReceiveBytes_ChibiOS_USB ::
    "'o rtos_io \<Rightarrow> u16 \<Rightarrow> ('o, 'z) wp_state_scheme \<Rightarrow> bool \<times> u8 list \<times> u16 \<times> ('o, 'z) wp_state_scheme" where
  "WP_ReceiveBytes_ChibiOS_USB io = read_request (io_read io)"

definition WP_ReceiveBytes_ChibiOS_Serial ::
    "'o rtos_io \<Rightarrow> u16 \<Rightarrow> ('o, 'z) wp_state_scheme \<Rightarrow> bool \<times> u8 list \<times> u16 \<times> ('o, 'z) wp_state_scheme" where
  "WP_ReceiveBytes_ChibiOS_Serial io = read_request (io_read io)"

definition WP_ReceiveBytes_TI ::
    "'o rtos_io \<Rightarrow> u16 \<Rightarrow> ('o, 'z) wp_state_scheme \<Rightarrow> bool \<times> u8 list \<times> u16 \<times> ('o, 'z) wp_state_scheme" where
  "WP_ReceiveBytes_TI io = read_request (io_read io)"

text \<open>
  On the ESP32 the port number is the constant \<open>UART_NUM_0\<close>, so its check against \<open>UART_NUM_2\<close>
  passes; the results of the driver's set-up calls are not looked at.
\<close>

definition WP_Initialise_ESP32 :: "'o rtos_io \<Rightarrow> ('o, 'z) wp_state_scheme \<Rightarrow> bool \<times> ('o, 'z) wp_state_scheme" where
  "WP_Initialise_ESP32 io g =
     (case io_open io (os g) of (_, s) \<Rightarrow> (True, g\<lparr>os := s, WP_Port_Intitialised := True\<rparr>))"

definition WP_Initialise_NXP :: "'o rtos_io \<Rightarrow> ('o, 'z) wp_state_scheme \<Rightarrow> bool \<times> ('o, 'z) wp_state_scheme" where
  "WP_Initialise_NXP io g =
     (case io_open io (os g) of (ok, s) \<Rightarrow>
        (ok, g\<lparr>os := (if ok then s else io_suspend io s), WP_Port_Intitialised := ok\<rparr>))"

definition open_if_closed :: "(('o, 'z) wp_state_scheme \<Rightarrow> bool \<times> ('o, 'z) wp_state_scheme) \<Rightarrow>
    ('o, 'z) wp_state_scheme \<Rightarrow> ('o, 'z) wp_state_scheme" where
  "open_if_closed init g = (if WP_Port_Intitialised g then g else snd (init g))"

definition WP_ReceiveBytes_ESP32 ::
    "'o rtos_io \<Rightarrow> u16 \<Rightarrow> ('o, 'z) wp_state_scheme \<Rightarrow> bool \<times> u8 list \<times> u16 \<times> ('o, 'z) wp_state_scheme" where
  "WP_ReceiveBytes_ESP32 io sz g =
     read_request (io_read io) sz (open_if_closed (WP_Initialise_ESP32 io) g)"

definition WP_ReceiveBytes_NXP ::
    "'o rtos_io \<Rightarrow> u16 \<Rightarrow> ('o, 'z) wp_state_scheme \<Rightarrow> bool \<times> u8 list \<times> u16 \<times> ('o, 'z) wp_state_scheme" where
  "WP_ReceiveBytes_NXP io sz g =
     read_request (io_read io) sz (open_if_closed (WP_Initialise_NXP io) g)"

definition WP_TransmitMessage_ChibiOS_USB :: "'o rtos_io \<Rightarrow> ('o, 'z) transmitter" where
  "WP_TransmitMessage_ChibiOS_USB io = write_message (io_write io)"

definition WP_TransmitMessage_ChibiOS_Serial :: "'o rtos_io \<Rightarrow> ('o, 'z) transmitter" where
  "WP_TransmitMessage_ChibiOS_Serial io = write_message (io_write io)"

definition WP_TransmitMessage_TI :: "'o rtos_io \<Rightarrow> ('o, 'z) transmitter" where
  "WP_TransmitMessage_TI io = write_message (io_write io)"

definition WP_TransmitMessage_ESP32 :: "'o rtos_io \<Rightarrow> ('o, 'z) transmitter" where
  "WP_TransmitMessage_ESP32 io message g =
     write_message (io_write io) message (open_if_closed (WP_Initialise_ESP32 io) g)"

definition WP_TransmitMessage_NXP :: "'o rtos_io \<Rightarrow> ('o, 'z) transmitter" where
  "WP_TransmitMessage_NXP io message g =
     (let g = open_if_closed (WP_Initialise_NXP io) g in
      case io_send io (packet_bytes (m_header message)) (os g) of (ok, s) \<Rightarrow>
        let g = g\<lparr>os := s\<rparr> in
        if \<not> ok then Ret (False, g)
        else if m_hsize (m_header message) \<noteq> 0 \<and> m_payload message \<noteq> PayloadNull then
          c_bind (payload_bytes g (m_payload message) (unat (m_hsize (m_header message))))
            (\<lambda>bs. case io_send io bs (os g) of (ok, s) \<Rightarrow> Ret (ok, g\<lparr>os := s\<rparr>))
        else Ret (True, g))"

text \<open>The weak defaults of \<open>src/CLR/WireProtocol/WireProtocol_HAL_Interface.c\<close>.\<close>

definition WP_ReceiveBytes_weak ::
    "u16 \<Rightarrow> ('o, 'z) wp_state_scheme \<Rightarrow> bool \<times> u8 list \<times> u16 \<times> ('o, 'z) wp_state_scheme" where
  "WP_ReceiveBytes_weak sz g = (False, [], sz, g)"

definition WP_TransmitMessage_weak :: "('o, 'z) transmitter" where
  "WP_TransmitMessage_weak message g = Ret (False, g)"

text \<open>
  \<open>HAL_Time_SysTicksToTime\<close>: system ticks to units of 100 ns, for the tick frequency
  \<open>CH_CFG_ST_FREQUENCY\<close>; the 32-bit ticks are widened before they are multiplied.
\<close>

definition HAL_Time_SysTicksToTime :: "u64 \<Rightarrow> u32 \<Rightarrow> u64" where
  "HAL_Time_SysTicksToTime CH_CFG_ST_FREQUENCY sysTicks =
     ((ucast sysTicks * 1000000 + CH_CFG_ST_FREQUENCY - 1) div CH_CFG_ST_FREQUENCY) * 10"

section \<open>The contract of the drivers\<close>

locale rtos_contract =
  fixes io :: "'o rtos_io" and rx tx :: "'o \<Rightarrow> u8 list"
  assumes read_law: "io_read io n s = ((k, bs), s') \<Longrightarrow>
      unat k = length bs \<and> length bs \<le> n \<and> rx s = bs @ rx s' \<and> tx s' = tx s"
    and write_law: "io_write io bs s = (k, s') \<Longrightarrow>
      unat k \<le> length bs \<and> rx s' = rx s \<and> tx s' = tx s @ take (unat k) bs"
    and send_law: "io_send io bs s = (ok, s') \<Longrightarrow>
      rx s' = rx s \<and> (\<exists>sent. prefix sent bs \<and> tx s' = tx s @ sent \<and> (ok \<longrightarrow> sent = bs))"
    and open_law: "io_open io s = (ok, s') \<Longrightarrow> rx s' = rx s \<and> tx s' = tx s"
    and suspend_law: "rx (io_suspend io s) = rx s \<and> tx (io_suspend io s) = tx s"
    and clock_law: "io_ticks io s = (t, s') \<Longrightarrow> rx s' = rx s \<and> tx s' = tx s"
begin

lemma read_request_law:
  assumes "read_request (io_read io) n g = (ok, bs, n', g')"
  shows "length bs \<le> unat n \<and> n' = n - of_nat (length bs) \<and> (ok \<longleftrightarrow> length bs = unat n) \<and>
      rx (os g) = bs @ rx (os g') \<and> tx (os g') = tx (os g) \<and> only_port g g'"
proof (cases "n = 0")
  case True
  with assms show ?thesis by (auto simp: read_request_def)
next
  case False
  obtain k b s' where rd: "io_read io (unat n) (os g) = ((k, b), s')"
    by (metis surj_pair)
  note law = read_law [OF rd]
  have k: "(ucast k :: u16) = of_nat (length b)" using law by (metis of_nat_unat)
  have "ucast n = k \<longleftrightarrow> length b = unat n"
    using law unat_ucast_u16 [of n] by (auto simp: word_unat_eq_iff)
  with False assms rd law k show ?thesis
    by (auto simp: read_request_def only_port_def)
qed

lemma write_message_law:
  assumes "write_message (io_write io) m g = Inr (ok, g')"
  shows "only_port g g' \<and> rx (os g') = rx (os g) \<and>
      (\<exists>sent. tx (os g') = tx (os g) @ sent \<and>
         (\<forall>fr. wf_packet (m_header m) \<and> wire_frame m g = Inr fr \<longrightarrow> prefix sent fr \<and> (ok \<longrightarrow> sent = fr)))"
proof -
  let ?h = "packet_bytes (m_header m)" and ?n = "m_hsize (m_header m)"
  obtain k s1 where w1: "io_write io ?h (os g) = (k, s1)" by force
  note law1 = write_law [OF w1]
  have g1: "only_port g (g\<lparr>os := s1\<rparr>)" by (simp add: only_port_def)
  have pay1: "payload_bytes (g\<lparr>os := s1\<rparr>) p n = payload_bytes g p n" for p n
    by (cases p) simp_all
  show ?thesis
  proof (cases "k = 32 \<and> ?n \<noteq> 0 \<and> m_payload m \<noteq> PayloadNull")
    case False
    with assms w1 have g': "g' = g\<lparr>os := s1\<rparr>" and ok: "ok \<longrightarrow> k = 32"
        "ok \<longrightarrow> \<not> (?n \<noteq> 0 \<and> m_payload m \<noteq> PayloadNull)"
      by (auto simp: write_message_def Let_def split: if_splits)
    have "prefix (take (unat k) ?h) fr \<and> (ok \<longrightarrow> take (unat k) ?h = fr)"
      if "wf_packet (m_header m)" "wire_frame m g = Inr fr" for fr
      using that ok take_is_prefix [of "unat k" ?h]
      by (auto simp: wire_frame_def c_bind_Inr_iff split: if_splits intro: prefix_prefix)
    then show ?thesis using law1 g1 by (auto simp: g')
  next
    case True
    with assms w1 obtain bs where bs: "payload_bytes g (m_payload m) (unat ?n) = Inr bs"
      by (auto simp: write_message_def Let_def pay1 c_bind_Inr_iff)
    obtain j s2 where w2: "io_write io bs s1 = (j, s2)" by force
    note law2 = write_law [OF w2]
    have g': "g' = g\<lparr>os := s2\<rparr>" and ok: "ok \<longleftrightarrow> j = ?n"
      using assms True w1 w2 bs by (simp_all add: write_message_def Let_def pay1)
    have len: "length bs = unat ?n" using payload_bytes_length [OF bs] .
    have "prefix (take (unat k) ?h @ take (unat j) bs) fr \<and>
        (ok \<longrightarrow> take (unat k) ?h @ take (unat j) bs = fr)"
      if "wf_packet (m_header m)" "wire_frame m g = Inr fr" for fr
      using that True bs len ok take_is_prefix [of "unat j" bs] by (auto simp: wire_frame_def)
    then show ?thesis using law1 law2 by (auto simp: g' only_port_def intro!: exI)
  qed
qed

lemma write_message_total:
  assumes "wire_frame m g = Inr fr"
  shows "\<exists>ok g'. write_message (io_write io) m g = Inr (ok, g')"
proof -
  have pay: "payload_bytes (g\<lparr>os := s\<rparr>) p n = payload_bytes g p n" for s p n
    by (cases p) simp_all
  show ?thesis using assms
    by (auto simp: write_message_def wire_frame_def Let_def pay c_bind_Inr_iff case_prod_beta
        split: if_splits)
qed

lemma open_if_closed_laws:
  assumes "init = WP_Initialise_ESP32 io \<or> init = WP_Initialise_NXP io"
  shows "only_port g (open_if_closed init g)" and "rx (os (open_if_closed init g)) = rx (os g)"
    and "tx (os (open_if_closed init g)) = tx (os g)"
  using assms suspend_law open_law [of "os g"]
  by (auto simp: open_if_closed_def WP_Initialise_ESP32_def WP_Initialise_NXP_def only_port_def
      split: prod.splits)

end

lemma payload_bytes_only_port: "only_port g g' \<Longrightarrow> payload_bytes g' p n = payload_bytes g p n"
  by (cases p) (simp_all add: only_port_simps)

lemma wire_frame_only_port: "only_port g g' \<Longrightarrow> wire_frame m g' = wire_frame m g"
  by (simp add: wire_frame_def payload_bytes_only_port)

context rtos_contract
begin

lemma send_message_law:
  assumes "WP_TransmitMessage_NXP io m g = Inr (ok, g')"
  shows "only_port g g' \<and> rx (os g') = rx (os g) \<and>
      (\<exists>sent. tx (os g') = tx (os g) @ sent \<and>
         (\<forall>fr. wf_packet (m_header m) \<and> wire_frame m g = Inr fr \<longrightarrow> prefix sent fr \<and> (ok \<longrightarrow> sent = fr)))"
proof -
  let ?h = "packet_bytes (m_header m)" and ?n = "m_hsize (m_header m)"
  define g0 where "g0 = open_if_closed (WP_Initialise_NXP io) g"
  note open0 = open_if_closed_laws [OF disjI2 [OF refl], of g, folded g0_def]
  obtain b s1 where w1: "io_send io ?h (os g0) = (b, s1)" by force
  from send_law [OF w1] obtain sent1 where
    s1: "rx s1 = rx (os g0)" "prefix sent1 ?h" "tx s1 = tx (os g0) @ sent1" "b \<longrightarrow> sent1 = ?h" by auto
  have port1: "only_port g (g0\<lparr>os := s1\<rparr>)"
    using open0(1) by (rule only_port_trans) (simp add: only_port_def)
  show ?thesis
  proof (cases "b \<and> ?n \<noteq> 0 \<and> m_payload m \<noteq> PayloadNull")
    case False
    with assms w1 have g': "g' = g0\<lparr>os := s1\<rparr>" and ok: "ok \<longrightarrow> b"
        "ok \<longrightarrow> \<not> (?n \<noteq> 0 \<and> m_payload m \<noteq> PayloadNull)"
      by (auto simp: WP_TransmitMessage_NXP_def Let_def g0_def split: if_splits)
    have "prefix sent1 fr \<and> (ok \<longrightarrow> sent1 = fr)" if "wire_frame m g = Inr fr" for fr
      using that ok s1 by (auto simp: wire_frame_def c_bind_Inr_iff split: if_splits intro: prefix_prefix)
    then show ?thesis using s1 open0 port1 by (auto simp: g')
  next
    case True
    with assms w1 obtain bs where
      bs: "payload_bytes (g0\<lparr>os := s1\<rparr>) (m_payload m) (unat ?n) = Inr bs"
      by (auto simp: WP_TransmitMessage_NXP_def Let_def g0_def c_bind_Inr_iff)
    obtain c s2 where w2: "io_send io bs s1 = (c, s2)" by force
    from send_law [OF w2] obtain sent2 where
      s2: "rx s2 = rx s1" "prefix sent2 bs" "tx s2 = tx s1 @ sent2" "c \<longrightarrow> sent2 = bs" by auto
    have g': "g' = g0\<lparr>os := s2\<rparr>" and ok: "ok = c"
      using assms True w1 w2 bs by (simp_all add: WP_TransmitMessage_NXP_def Let_def g0_def)
    have "prefix (sent1 @ sent2) fr \<and> (ok \<longrightarrow> sent1 @ sent2 = fr)" if "wire_frame m g = Inr fr" for fr
      using that True bs s1 s2 ok payload_bytes_only_port [OF port1]
      by (auto simp: wire_frame_def)
    moreover have "only_port g g'"
      using open0(1) by (rule only_port_trans) (simp add: only_port_def g')
    ultimately show ?thesis using s1 s2 open0 by (auto simp: g' intro!: exI [of _ "sent1 @ sent2"])
  qed
qed

lemma send_message_total:
  assumes "wire_frame m g = Inr fr"
  shows "\<exists>ok g'. WP_TransmitMessage_NXP io m g = Inr (ok, g')"
proof -
  have pay: "payload_bytes (open_if_closed (WP_Initialise_NXP io) g\<lparr>os := s\<rparr>) p n = payload_bytes g p n"
    for s p n
    by (rule payload_bytes_only_port, rule only_port_trans,
        rule open_if_closed_laws(1) [OF disjI2 [OF refl]]) (simp add: only_port_def)
  show ?thesis using assms
    by (auto simp: WP_TransmitMessage_NXP_def wire_frame_def Let_def pay c_bind_Inr_iff case_prod_beta
        split: if_splits)
qed

text \<open>Behind an opened port the shared bodies keep their laws.\<close>

lemma opened_read_law:
  assumes "init = WP_Initialise_ESP32 io \<or> init = WP_Initialise_NXP io"
    and "read_request (io_read io) n (open_if_closed init g) = (ok, bs, n', g')"
  shows "length bs \<le> unat n \<and> n' = n - of_nat (length bs) \<and> (ok \<longleftrightarrow> length bs = unat n) \<and>
      rx (os g) = bs @ rx (os g') \<and> tx (os g') = tx (os g) \<and> only_port g g'"
  using read_request_law [OF assms(2)] open_if_closed_laws [OF assms(1), of g] only_port_trans
  by metis

end

text \<open>Every transport keeps the contract the receiver relies on.\<close>

sublocale rtos_contract \<subseteq> usb: wp_transport
    "WP_ReceiveBytes_ChibiOS_USB io" "WP_TransmitMessage_ChibiOS_USB io" rx tx
  by unfold_locales
     (unfold WP_ReceiveBytes_ChibiOS_USB_def WP_TransmitMessage_ChibiOS_USB_def,
      fact read_request_law, fact write_message_law, fact write_message_total)

sublocale rtos_contract \<subseteq> serial: wp_transport
    "WP_ReceiveBytes_ChibiOS_Serial io" "WP_TransmitMessage_ChibiOS_Serial io" rx tx
  by unfold_locales
     (unfold WP_ReceiveBytes_ChibiOS_Serial_def WP_TransmitMessage_ChibiOS_Serial_def,
      fact read_request_law, fact write_message_law, fact write_message_total)

sublocale rtos_contract \<subseteq> ti: wp_transport
    "WP_ReceiveBytes_TI io" "WP_TransmitMessage_TI io" rx tx
  by unfold_locales
     (unfold WP_ReceiveBytes_TI_def WP_TransmitMessage_TI_def,
      fact read_request_law, fact write_message_law, fact write_message_total)

sublocale rtos_contract \<subseteq> nxp: wp_transport
    "WP_ReceiveBytes_NXP io" "WP_TransmitMessage_NXP io" rx tx
  by unfold_locales
     (unfold WP_ReceiveBytes_NXP_def, erule opened_read_law [rotated], simp,
      fact send_message_law, fact send_message_total)

context rtos_contract
begin

lemma opened_write_law:
  assumes "WP_TransmitMessage_ESP32 io m g = Inr (ok, g')"
  shows "only_port g g' \<and> rx (os g') = rx (os g) \<and>
      (\<exists>sent. tx (os g') = tx (os g) @ sent \<and>
         (\<forall>fr. wf_packet (m_header m) \<and> wire_frame m g = Inr fr \<longrightarrow> prefix sent fr \<and> (ok \<longrightarrow> sent = fr)))"
proof -
  note opened = open_if_closed_laws [OF disjI1 [OF refl], of g]
  have "write_message (io_write io) m (open_if_closed (WP_Initialise_ESP32 io) g) = Inr (ok, g')"
    using assms by (simp add: WP_TransmitMessage_ESP32_def)
  from write_message_law [OF this] show ?thesis
    unfolding opened wire_frame_only_port [OF opened(1)]
    by (blast intro: only_port_trans opened(1))
qed

lemma opened_write_total:
  assumes "wire_frame m g = Inr fr"
  shows "\<exists>ok g'. WP_TransmitMessage_ESP32 io m g = Inr (ok, g')"
  unfolding WP_TransmitMessage_ESP32_def
  by (rule write_message_total)
     (simp only: wire_frame_only_port [OF open_if_closed_laws(1) [OF disjI1 [OF refl]]] assms)

end

sublocale rtos_contract \<subseteq> esp32: wp_transport
    "WP_ReceiveBytes_ESP32 io" "WP_TransmitMessage_ESP32 io" rx tx
  by unfold_locales
     (unfold WP_ReceiveBytes_ESP32_def, erule opened_read_law [rotated], simp,
      fact opened_write_law, fact opened_write_total)

context rtos_contract
begin

lemma transports:
  "wp_transport (WP_ReceiveBytes_ChibiOS_USB io) (WP_TransmitMessage_ChibiOS_USB io) rx tx"
  "wp_transport (WP_ReceiveBytes_ChibiOS_Serial io) (WP_TransmitMessage_ChibiOS_Serial io) rx tx"
  "wp_transport (WP_ReceiveBytes_ESP32 io) (WP_TransmitMessage_ESP32 io) rx tx"
  "wp_transport (WP_ReceiveBytes_NXP io) (WP_TransmitMessage_NXP io) rx tx"
  "wp_transport (WP_ReceiveBytes_TI io) (WP_TransmitMessage_TI io) rx tx"
  by unfold_locales

end

section \<open>A line to run the model on\<close>

text \<open>
  A serial line whose future input is known: each read gets at most the next burst, everything that
  is written goes out. It keeps the contract of the drivers and serves as the concrete RTOS on which
  the model is evaluated.
\<close>

record uart_line =
  line_in :: "u8 list"
  line_out :: "u8 list"
  line_bursts :: "nat list"
  line_ticks :: u64

definition line_read :: "nat \<Rightarrow> 'b uart_line_scheme \<Rightarrow> (u32 \<times> u8 list) \<times> 'b uart_line_scheme" where
  "line_read n s =
     (let burst = (case line_bursts s of [] \<Rightarrow> n | b # _ \<Rightarrow> min b n);
          bs = take (min burst 65535) (line_in s)
      in ((of_nat (length bs), bs),
          s\<lparr>line_in := drop (length bs) (line_in s), line_bursts := tl (line_bursts s)\<rparr>))"

definition line_io :: "'b uart_line_scheme rtos_io" where
  "line_io =
     \<lparr>io_read = line_read,
      io_write = (\<lambda>bs s. let n = min (length bs) 65535
                        in (of_nat n, s\<lparr>line_out := line_out s @ take n bs\<rparr>)),
      io_send = (\<lambda>bs s. (True, s\<lparr>line_out := line_out s @ bs\<rparr>)),
      io_open = (\<lambda>s. (True, s)),
      io_suspend = (\<lambda>s. s),
      io_ticks = (\<lambda>s. (line_ticks s, s\<lparr>line_ticks := line_ticks s + 1\<rparr>))\<rparr>"

lemma unat_of_nat_small: "n \<le> 65535 \<Longrightarrow> unat (of_nat n :: u32) = n"
  by (simp add: unat_of_nat)

interpretation line: rtos_contract line_io line_in line_out
proof
  fix n s k bs s'
  assume "io_read line_io n s = ((k, bs), s')"
  then show "unat k = length bs \<and> length bs \<le> n \<and> line_in s = bs @ line_in s' \<and> line_out s' = line_out s"
    by (auto simp: line_io_def line_read_def Let_def unat_of_nat_small min_def split: list.splits)
qed (auto simp: line_io_def Let_def unat_of_nat_small min_def split: if_splits)

section \<open>Time\<close>

text \<open>The conversion is the rounded-up quotient: nothing overflows, whatever the ticks.\<close>

lemma HAL_Time_SysTicksToTime_eq:
  assumes "0 < unat f" and "unat f \<le> 2 ^ 32"
  shows "unat (HAL_Time_SysTicksToTime f t) = (unat t * 1000000 + unat f - 1) div unat f * 10"
proof -
  have t: "unat t < 2 ^ 32" using unsigned_less [of t, where ?'a = nat] by simp
  have w: "unat (ucast t :: u64) = unat t"
    using t by (simp add: unsigned_ucast_eq take_bit_nat_eq_self)
  have mul: "unat (ucast t * (1000000 :: u64)) = unat t * 1000000"
    using t by (subst unat_mult_lem [THEN iffD1]) (simp_all add: w)
  have add: "unat (ucast t * 1000000 + f) = unat t * 1000000 + unat f"
    using t assms(2) by (subst unat_add_lem [THEN iffD1]) (simp_all add: mul)
  have sub: "unat (ucast t * 1000000 + f - 1) = unat t * 1000000 + unat f - 1"
    using assms(1) by (subst unat_sub) (simp_all add: add word_le_nat_alt)
  let ?q = "(unat t * 1000000 + unat f - 1) div unat f"
  have "unat t * 1000000 + unat f - 1 < 2 ^ 53" using t assms(2) by simp
  then have "?q < 2 ^ 53" by (rule le_less_trans [OF div_le_dividend])
  then show ?thesis
    by (simp add: HAL_Time_SysTicksToTime_def, subst unat_mult_lem [THEN iffD1])
       (simp_all add: unat_div sub)
qed

section \<open>Linking a target\<close>

text \<open>The weak defaults of \<open>src/CLR/WireProtocol/WireProtocol_App_Interface.c\<close>.\<close>

definition WP_App_ProcessHeader_weak :: "WP_Message \<Rightarrow> ('o, 'z) wp_state_scheme \<Rightarrow>
    bool \<times> WP_Message \<times> ('o, 'z) wp_state_scheme" where
  "WP_App_ProcessHeader_weak message g = (False, message, g)"

definition WP_App_ProcessPayload_weak :: "WP_Message \<Rightarrow> ('o, 'z) wp_state_scheme \<Rightarrow>
    (WP_Message \<times> ('o, 'z) wp_state_scheme) c_result" where
  "WP_App_ProcessPayload_weak message g = Ret (message, g)"

interpretation weak_application:
  wp_application WP_App_ProcessHeader_weak WP_App_ProcessPayload_weak rx for rx
  by unfold_locales (auto simp: WP_App_ProcessHeader_weak_def WP_App_ProcessPayload_weak_def)

definition wp_target where
  "wp_target crc32 receive transmit header payload io freq =
     \<lparr>lk_crc32 = crc32, lk_ReceiveBytes = receive, lk_TransmitMessage = transmit,
      lk_ProcessHeader = header, lk_ProcessPayload = payload,
      lk_CurrentSysTicks = (\<lambda>g. case io_ticks io (os g) of (t, s) \<Rightarrow> (t, g\<lparr>os := s\<rparr>)),
      lk_SysTicksToTime = HAL_Time_SysTicksToTime freq\<rparr>"

lemma wp_target_simps [simp]:
  "lk_crc32 (wp_target c r t h p io f) = c"
  "lk_ReceiveBytes (wp_target c r t h p io f) = r"
  "lk_TransmitMessage (wp_target c r t h p io f) = t"
  "lk_ProcessHeader (wp_target c r t h p io f) = h"
  "lk_ProcessPayload (wp_target c r t h p io f) = p"
  "lk_SysTicksToTime (wp_target c r t h p io f) = HAL_Time_SysTicksToTime f"
  by (simp_all add: wp_target_def)

lemma wp_receiver_target:
  assumes "rtos_contract io rx tx" "wp_transport r t rx tx" "wp_application h p rx"
  shows "wp_receiver (wp_target c r t h p io f) rx tx"
  using assms
  by (auto simp: wp_receiver_def wp_receiver_axioms_def wp_target_def
      dest: rtos_contract.clock_law [OF assms(1)] split: prod.splits)

text \<open>
  The library part of Wire Protocol linked with each transport and the weak application on the line
  of the previous section: every such build is a \<open>wp_receiver\<close>.
\<close>

definition serial_link :: "bool \<Rightarrow> ('b uart_line_scheme, 'z) wp_link" where
  "serial_link crc32 = wp_target crc32 (WP_ReceiveBytes_ChibiOS_Serial line_io)
     (WP_TransmitMessage_ChibiOS_Serial line_io) WP_App_ProcessHeader_weak WP_App_ProcessPayload_weak
     line_io 1000"

interpretation serial_receiver: wp_receiver "serial_link crc32" line_in line_out for crc32
  unfolding serial_link_def
  by (rule wp_receiver_target [OF line.rtos_contract_axioms line.serial.wp_transport_axioms
        weak_application.wp_application_axioms])

definition line_state :: "u8 list \<Rightarrow> nat list \<Rightarrow> uart_line wp_state" where
  "line_state bs bursts =
     \<lparr>receptionBuffer = replicate 1056 0, lastOutboundMessage = 0, marker = None,
      WP_Port_Intitialised = False,
      os = \<lparr>line_in = bs, line_out = [], line_bursts = bursts, line_ticks = 0\<rparr>\<rparr>"

theorem receiver_returns_witness:
  "\<exists>r. WP_Message_Process (serial_link True) (process_Initialize local_message)
         (line_state MARKER_PACKET_V1 [3]) = Some r"
  by (rule receiver_returns) (rule serial_receiver.wp_receiver_axioms)

text \<open>One byte of noise, then a marker and a whole packet, is such an input.\<close>

theorem resynchronisation_writes_out_of_bounds_witness:
  "WP_Message_Process (serial_link False) (process_Initialize (WP_Message_Initialize local_message))
     (line_state (0x55 # MARKER_PACKET_V1 @ replicate 24 0) []) = Some (Inl BadIndex)"
  by (rule resynchronisation_writes_out_of_bounds
      [where bs = "0x55 # MARKER_PACKET_V1 @ replicate 23 0" and ok = True and bs' = "[0]" and n' = 0
         and ?g1.0 = "line_state [0] []" and ?g2.0 = "line_state [] []"])
     (simp_all add: serial_link_def WP_ReceiveBytes_ChibiOS_Serial_def read_request_def
        line_io_def line_read_def line_state_def Let_def in_sync_def MARKER_PACKET_V1_def
        MARKER_DEBUGGER_V1_def WP_Message_Initialize_def unat_of_nat)

section \<open>Properties\<close>

text \<open>
  \<open>WP_TransmitMessage\<close> of every target puts the message on the wire as a whole or reports
  failure: what goes out is a beginning of the header followed by the payload, and it is all of it
  when the call returns true. Nothing else of the global state changes.
\<close>

theorem transmit_reports_whole_frame:
  assumes "rtos_contract io rx tx" and "wf_packet (m_header m)" and "wire_frame m g = Inr fr"
    and "transmit \<in> {WP_TransmitMessage_ChibiOS_USB io, WP_TransmitMessage_ChibiOS_Serial io,
           WP_TransmitMessage_ESP32 io, WP_TransmitMessage_NXP io, WP_TransmitMessage_TI io}"
  shows "\<exists>ok g' sent. transmit m g = Inr (ok, g') \<and> tx (os g') = tx (os g) @ sent \<and>
           prefix sent fr \<and> (ok \<longrightarrow> sent = fr) \<and> receptionBuffer g' = receptionBuffer g \<and>
           lastOutboundMessage g' = lastOutboundMessage g"
proof -
  have "\<exists>receive. wp_transport receive transmit rx tx"
    using assms(4) rtos_contract.transports [OF assms(1)] by blast
  then obtain receive where tr: "wp_transport receive transmit rx tx" ..
  from wp_transport.transmit_total [OF tr assms(3)] obtain ok g' where
    run: "transmit m g = Inr (ok, g')" by auto
  from wp_transport.transmit_law [OF tr run] assms(2,3) run show ?thesis
    by (auto simp: only_port_simps)
qed

theorem transmit_reports_whole_frame_witness:
  "\<exists>ok g' sent. WP_TransmitMessage_ESP32 line_io (WP_Message_Initialize local_message)
        (line_state [] []) = Inr (ok, g') \<and>
      line_out (os g') = line_out (os (line_state [] [])) @ sent \<and> prefix sent (replicate 32 0) \<and>
      (ok \<longrightarrow> sent = replicate 32 0) \<and> receptionBuffer g' = receptionBuffer (line_state [] []) \<and>
      lastOutboundMessage g' = lastOutboundMessage (line_state [] [])"
  by (rule transmit_reports_whole_frame [OF line.rtos_contract_axioms])
     (simp_all add: WP_Message_Initialize_def wire_frame_def packet_bytes_def zero_packet_def
        wf_packet_def bytes_of_u32_def bytes_of_u16_def eval_nat_numeral)

text \<open>
  C10: \<open>HAL_Time_SysTicksToTime\<close> is the exact rounded-up conversion of 32-bit ticks to microseconds,
  times ten: the 64-bit intermediate values never wrap, for every tick frequency of up to 2^32 Hz.
\<close>

theorem ticks_to_time_exact:
  assumes "0 < unat freq" and "unat freq \<le> 2 ^ 32"
  shows "unat (HAL_Time_SysTicksToTime freq sysTicks) =
           (unat sysTicks * 1000000 + unat freq - 1) div unat freq * 10"
  using assms by (rule HAL_Time_SysTicksToTime_eq)

theorem ticks_to_time_exact_witness:
  "unat (HAL_Time_SysTicksToTime 1000 0xFFFFFFFF) =
     (unat (0xFFFFFFFF :: u32) * 1000000 + unat (1000 :: u64) - 1) div unat (1000 :: u64) * 10"
  by (rule ticks_to_time_exact) simp_all

end
