(* ===== verification/NF_BlockStorage.thy ===== *)
theory NF_BlockStorage
  imports NF_Prelude
begin

text \<open>
  The block storage layer, \<open>src/PAL/BlockStorage/nanoPAL_BlockStorage.c\<close> and its header: the
  description of a device (regions of equal blocks, split into ranges by usage), the search for a
  region by address or usage, streams, the dispatch through the driver table of a device and the
  global list of devices. Driver and hardware are parameters: the functions of a driver table over a
  state \<open>'h\<close> of the hardware; a table entry may be null.
\<close>

section \<open>Data\<close>

definition BlockRange_USAGE_MASK :: u32 where "BlockRange_USAGE_MASK = 0x000000FF"

definition BlockUsage_ANY :: u32 where "BlockUsage_ANY = 0x0000"
definition BlockUsage_BOOTSTRAP :: u32 where "BlockUsage_BOOTSTRAP = 0x0010"
definition BlockUsage_CODE :: u32 where "BlockUsage_CODE = 0x0020"
definition BlockUsage_CONFIG :: u32 where "BlockUsage_CONFIG = 0x0030"
definition BlockUsage_FILESYSTEM :: u32 where "BlockUsage_FILESYSTEM = 0x0040"
definition BlockUsage_DEPLOYMENT :: u32 where "BlockUsage_DEPLOYMENT = 0x0050"

text \<open>The block types that the device tables use, put together as in the header.\<close>

definition BlockRange_BLOCKTYPE_BOOTSTRAP :: u32 where
  "BlockRange_BLOCKTYPE_BOOTSTRAP = 0x80000000 OR 0x40000000 OR 0x1000 OR BlockUsage_BOOTSTRAP"
definition BlockRange_BLOCKTYPE_CODE :: u32 where
  "BlockRange_BLOCKTYPE_CODE = 0x80000000 OR 0x40000000 OR 0x1000 OR BlockUsage_CODE"
definition BlockRange_BLOCKTYPE_CONFIG :: u32 where
  "BlockRange_BLOCKTYPE_CONFIG = 0x10000 OR 0x40000000 OR 0x4000 OR BlockUsage_CONFIG"
definition BlockRange_BLOCKTYPE_DEPLOYMENT :: u32 where
  "BlockRange_BLOCKTYPE_DEPLOYMENT = 0x40000000 OR 0x2000 OR BlockUsage_DEPLOYMENT"
definition BlockRange_BLOCKTYPE_FILESYSTEM :: u32 where
  "BlockRange_BLOCKTYPE_FILESYSTEM = 0x4000 OR BlockUsage_FILESYSTEM"

lemmas BlockUsage_defs =
  BlockUsage_ANY_def BlockUsage_BOOTSTRAP_def BlockUsage_CODE_def BlockUsage_CONFIG_def
  BlockUsage_FILESYSTEM_def BlockUsage_DEPLOYMENT_def BlockRange_USAGE_MASK_def

lemmas BLOCKTYPE_defs =
  BlockRange_BLOCKTYPE_BOOTSTRAP_def BlockRange_BLOCKTYPE_CODE_def BlockRange_BLOCKTYPE_CONFIG_def
  BlockRange_BLOCKTYPE_DEPLOYMENT_def BlockRange_BLOCKTYPE_FILESYSTEM_def

record BlockRange =
  RangeType :: u32
  StartBlock :: u32
  EndBlock :: u32

definition BlockRange_GetBlockCount :: "BlockRange \<Rightarrow> u32" where
  "BlockRange_GetBlockCount block = EndBlock block - StartBlock block + 1"

definition BlockRange_GetBlockUsage :: "BlockRange \<Rightarrow> u32" where
  "BlockRange_GetBlockUsage block = RangeType block AND BlockRange_USAGE_MASK"

record BlockRegionInfo =
  Attributes :: u32
  Start :: u32
  NumBlocks :: u32
  BytesPerBlock :: u32
  NumBlockRanges :: u32
  BlockRanges :: "BlockRange list"

definition BlockRegionAttribute_MemoryMapped :: u32 where "BlockRegionAttribute_MemoryMapped = 1"

definition BlockRegionInfo_Size :: "BlockRegionInfo \<Rightarrow> u32" where
  "BlockRegionInfo_Size region = NumBlocks region * BytesPerBlock region"

definition BlockRegionInfo_BlockAddress :: "BlockRegionInfo \<Rightarrow> u32 \<Rightarrow> u32" where
  "BlockRegionInfo_BlockAddress region blockIndex = Start region + blockIndex * BytesPerBlock region"

record DeviceBlockInfo =
  Attribute :: u32
  BytesPerSector :: u32
  NumRegions :: u32
  Regions :: "BlockRegionInfo list"

definition MediaAttribute_SupportsXIP :: u32 where "MediaAttribute_SupportsXIP = 2"

section \<open>Searching a device description\<close>

text \<open>The division by \<open>BytesPerSector\<close> is undefined in C for zero; HOL's \<open>div\<close> gives 0 there.\<close>

definition DeviceBlockInfo_PhysicalToSectorAddress :: "DeviceBlockInfo \<Rightarrow> BlockRegionInfo \<Rightarrow> u32 \<Rightarrow> u32" where
  "DeviceBlockInfo_PhysicalToSectorAddress blockInfo pRegion phyAddress =
     (phyAddress - Start pRegion) div BytesPerSector blockInfo"

text \<open>
  The loop over the ranges of one region: \<open>j\<close> is the loop counter, the result the index of the range
  whose end lies above the address.
\<close>

function range_loop :: "BlockRegionInfo \<Rightarrow> u32 \<Rightarrow> u32 \<Rightarrow> nat \<Rightarrow> nat option c_result" where
  "range_loop pRegion address endRangeAddr j =
     (if j < unat (NumBlockRanges pRegion) then
        c_bind (c_index (BlockRanges pRegion) j) (\<lambda>range.
          let endRangeAddr = endRangeAddr + BytesPerBlock pRegion * BlockRange_GetBlockCount range
          in if address < endRangeAddr then Ret (Some j)
             else range_loop pRegion address endRangeAddr (j + 1))
      else Ret None)"
  by auto
termination by (relation "measure (\<lambda>(r, a, e, j). unat (NumBlockRanges r) - j)") auto

declare range_loop.simps [simp del]

text \<open>The address test of a region, as the code writes it (32-bit arithmetic).\<close>

definition region_holds :: "BlockRegionInfo \<Rightarrow> u32 \<Rightarrow> bool" where
  "region_holds pRegion address \<longleftrightarrow>
     Start pRegion \<le> address \<and> address < Start pRegion + NumBlocks pRegion * BytesPerBlock pRegion"

function region_loop :: "DeviceBlockInfo \<Rightarrow> u32 \<Rightarrow> nat \<Rightarrow> (nat \<times> nat) option c_result" where
  "region_loop blockInfo address i =
     (if i < unat (NumRegions blockInfo) then
        c_bind (c_index (Regions blockInfo) i) (\<lambda>pRegion.
          if region_holds pRegion address then
            c_bind (c_index (BlockRanges pRegion) 0) (\<lambda>range0.
              c_bind (range_loop pRegion address
                        (Start pRegion + BytesPerBlock pRegion * StartBlock range0) 0) (\<lambda>found.
                case found of Some j \<Rightarrow> Ret (Some (i, j))
                | None \<Rightarrow> region_loop blockInfo address (i + 1)))
          else region_loop blockInfo address (i + 1))
      else Ret None)"
  by auto
termination by (relation "measure (\<lambda>(d, a, i). unat (NumRegions d) - i)") auto

declare region_loop.simps [simp del]

text \<open>
  The result and the values of \<open>*blockRegionIndex\<close> and \<open>*blockRangeIndex\<close> after the call, for the
  value \<open>blockRangeIndex\<close> before it.
\<close>

definition DeviceBlockInfo_FindRegionFromAddress ::
    "DeviceBlockInfo \<Rightarrow> u32 \<Rightarrow> u32 \<Rightarrow> (bool \<times> u32 \<times> u32) c_result" where
  "DeviceBlockInfo_FindRegionFromAddress blockInfo address blockRangeIndex =
     c_bind (region_loop blockInfo address 0) (\<lambda>found.
       case found of Some (i, j) \<Rightarrow> Ret (True, of_nat i, of_nat j)
       | None \<Rightarrow> Ret (False, 0, blockRangeIndex))"

text \<open>
  \<open>FindNextUsageBlock\<close>: the inner loop counts an \<open>int\<close> from \<open>*blockRangeIndex\<close> up to
  \<open>(int)NumBlockRanges\<close>.
\<close>

definition usage_matches :: "u32 \<Rightarrow> BlockRange \<Rightarrow> bool" where
  "usage_matches blockUsage pRange \<longleftrightarrow>
     RangeType pRange AND BlockRange_USAGE_MASK = blockUsage \<or> blockUsage = BlockUsage_ANY"

function usage_range_loop :: "BlockRegionInfo \<Rightarrow> u32 \<Rightarrow> int \<Rightarrow> int option c_result" where
  "usage_range_loop region blockUsage j =
     (if j < sint (NumBlockRanges region) then
        if j < 0 then Fault BadIndex
        else c_bind (c_index (BlockRanges region) (nat j)) (\<lambda>range.
          if usage_matches blockUsage range then Ret (Some j)
          else usage_range_loop region blockUsage (j + 1))
      else Ret None)"
  by auto
termination by (relation "measure (\<lambda>(r, u, j). nat (sint (NumBlockRanges r) - j))") auto

declare usage_range_loop.simps [simp del]

text \<open>
  The pointers \<open>address\<close>, \<open>blockRegionIndex\<close> and \<open>blockRangeIndex\<close> are null or denote the value they
  point to; the values after the call come with the result.
\<close>

function usage_region_loop :: "DeviceBlockInfo \<Rightarrow> u32 \<Rightarrow> u32 option \<Rightarrow> nat \<Rightarrow> u32 \<Rightarrow> u32 option \<Rightarrow>
    (bool \<times> u32 option \<times> u32 \<times> u32 option) c_result" where
  "usage_region_loop blockInfo blockUsage address i regionIndex rangeIndex =
     (if i < unat (NumRegions blockInfo) then
        c_bind (c_index (Regions blockInfo) i) (\<lambda>region.
          case rangeIndex of None \<Rightarrow> Fault NullDeref
          | Some k \<Rightarrow>
            c_bind (usage_range_loop region blockUsage (sint k)) (\<lambda>found.
              case found of
                None \<Rightarrow> usage_region_loop blockInfo blockUsage address (i + 1) regionIndex (Some 0)
              | Some j \<Rightarrow>
                  c_bind (c_index (BlockRanges region) (nat j)) (\<lambda>range.
                    case address of None \<Rightarrow> Fault NullDeref
                    | Some _ \<Rightarrow> Ret (True, Some (BlockRegionInfo_BlockAddress region (StartBlock range)),
                                    of_nat i, Some (of_int j)))))
      else Ret (False, address, regionIndex, rangeIndex))"
  by auto
termination by (relation "measure (\<lambda>(d, u, a, i, r, k). unat (NumRegions d) - i)") auto

declare usage_region_loop.simps [simp del]

definition DeviceBlockInfo_FindNextUsageBlock :: "DeviceBlockInfo \<Rightarrow> u32 \<Rightarrow> u32 option \<Rightarrow> u32 option \<Rightarrow>
    u32 option \<Rightarrow> (bool \<times> u32 option \<times> u32 \<times> u32 option) c_result" where
  "DeviceBlockInfo_FindNextUsageBlock blockInfo blockUsage address blockRegionIndex blockRangeIndex =
     (case blockRegionIndex of None \<Rightarrow> Fault NullDeref
      | Some r \<Rightarrow> usage_region_loop blockInfo blockUsage address (unat r) r blockRangeIndex)"

text \<open>The three parameters are set to null before they are passed on.\<close>

definition DeviceBlockInfo_FindForBlockUsage :: "DeviceBlockInfo \<Rightarrow> u32 \<Rightarrow> u32 option \<Rightarrow> u32 option \<Rightarrow>
    u32 option \<Rightarrow> (bool \<times> u32 option \<times> u32 \<times> u32 option) c_result" where
  "DeviceBlockInfo_FindForBlockUsage blockInfo blockUsage address blockRegionIndex blockRangeIndex =
     (let address = None; blockRegionIndex = None; blockRangeIndex = None
      in DeviceBlockInfo_FindNextUsageBlock blockInfo blockUsage address blockRegionIndex blockRangeIndex)"

section \<open>Devices\<close>

text \<open>The parts of \<open>MEMORY_MAPPED_NOR_BLOCK_CONFIG\<close> that carry information.\<close>

record block_config =
  BlockDeviceInformation :: DeviceBlockInfo
  BaseAddress_cfg :: u32
  SizeInBytes_cfg :: u32

text \<open>
  \<open>IBlockStorageDevice\<close>: the driver table. Every function gets the context of the device; a read
  returns its verdict and the bytes it stored in the buffer.
\<close>

record 'h IBlockStorageDevice =
  v_InitializeDevice :: "(block_config \<Rightarrow> 'h \<Rightarrow> (bool \<times> 'h) c_result) option"
  v_UninitializeDevice :: "(block_config \<Rightarrow> 'h \<Rightarrow> (bool \<times> 'h) c_result) option"
  v_GetDeviceInfo :: "(block_config \<Rightarrow> DeviceBlockInfo) option"
  v_Read :: "(block_config \<Rightarrow> u32 \<Rightarrow> u32 \<Rightarrow> 'h \<Rightarrow> (bool \<times> u8 list \<times> 'h) c_result) option"
  v_Write :: "(block_config \<Rightarrow> u32 \<Rightarrow> u32 \<Rightarrow> u8 list \<Rightarrow> bool \<Rightarrow> 'h \<Rightarrow> (bool \<times> 'h) c_result) option"
  v_Memset :: "(block_config \<Rightarrow> u32 \<Rightarrow> u8 \<Rightarrow> u32 \<Rightarrow> 'h \<Rightarrow> (bool \<times> 'h) c_result) option"
  v_IsBlockErased :: "(block_config \<Rightarrow> u32 \<Rightarrow> u32 \<Rightarrow> 'h \<Rightarrow> bool c_result) option"
  v_EraseBlock :: "(block_config \<Rightarrow> u32 \<Rightarrow> 'h \<Rightarrow> (bool \<times> 'h) c_result) option"
  v_SetPowerState :: "(block_config \<Rightarrow> u32 \<Rightarrow> 'h \<Rightarrow> 'h) option"
  v_GetMemoryMappedAddress :: "(block_config \<Rightarrow> u32 \<Rightarrow> u32 \<Rightarrow> bool \<times> u32) option"

record 'h BlockStorageDevice =
  m_BSD :: "'h IBlockStorageDevice"
  m_context :: block_config

text \<open>
  A device object is named by a number (its address); \<open>devices\<close> holds the objects. \<open>DeviceList\<close> and
  \<open>DeviceCount\<close> are \<open>g_BlockStorage\<close>, \<open>hw\<close> is the hardware behind the drivers.
\<close>

type_synonym dev = nat

definition TARGET_BLOCKSTORAGE_COUNT :: nat where "TARGET_BLOCKSTORAGE_COUNT = 1"

record 'h block_storage =
  DeviceList :: "dev option list"
  DeviceCount :: u32
  devices :: "dev \<Rightarrow> 'h BlockStorageDevice option"
  hw :: 'h

text \<open>Calling through a pointer: the device, then the entry of its table.\<close>

definition device_at :: "'h block_storage \<Rightarrow> dev option \<Rightarrow> 'h BlockStorageDevice c_result" where
  "device_at b d = (case Option.bind d (devices b) of None \<Rightarrow> Fault NullDeref | Some x \<Rightarrow> Ret x)"

definition entry :: "'f option \<Rightarrow> 'f c_result" where
  "entry f = (case f of None \<Rightarrow> Fault NullDeref | Some x \<Rightarrow> Ret x)"

lemma entry_Some [simp]: "entry (Some f) = Ret f" "entry None = Fault NullDeref"
  by (simp_all add: entry_def)

definition BlockStorageDevice_InitializeDevice :: "dev option \<Rightarrow> 'h block_storage \<Rightarrow> (bool \<times> 'h block_storage) c_result" where
  "BlockStorageDevice_InitializeDevice device b =
     c_bind (device_at b device) (\<lambda>d. c_bind (entry (v_InitializeDevice (m_BSD d)))
       (\<lambda>f. c_bind (f (m_context d) (hw b)) (\<lambda>(r, h). Ret (r, b\<lparr>hw := h\<rparr>))))"

definition BlockStorageDevice_UninitializeDevice :: "dev option \<Rightarrow> 'h block_storage \<Rightarrow> (bool \<times> 'h block_storage) c_result" where
  "BlockStorageDevice_UninitializeDevice device b =
     c_bind (device_at b device) (\<lambda>d. c_bind (entry (v_UninitializeDevice (m_BSD d)))
       (\<lambda>f. c_bind (f (m_context d) (hw b)) (\<lambda>(r, h). Ret (r, b\<lparr>hw := h\<rparr>))))"

definition BlockStorageDevice_GetDeviceInfo :: "dev option \<Rightarrow> 'h block_storage \<Rightarrow> DeviceBlockInfo c_result" where
  "BlockStorageDevice_GetDeviceInfo device b =
     c_bind (device_at b device) (\<lambda>d. c_bind (entry (v_GetDeviceInfo (m_BSD d)))
       (\<lambda>f. Ret (f (m_context d))))"

definition BlockStorageDevice_Read :: "dev option \<Rightarrow> u32 \<Rightarrow> u32 \<Rightarrow> 'h block_storage \<Rightarrow>
    (bool \<times> u8 list \<times> 'h block_storage) c_result" where
  "BlockStorageDevice_Read device startAddress numBytes b =
     c_bind (device_at b device) (\<lambda>d. c_bind (entry (v_Read (m_BSD d)))
       (\<lambda>f. c_bind (f (m_context d) startAddress numBytes (hw b))
          (\<lambda>(r, bs, h). Ret (r, bs, b\<lparr>hw := h\<rparr>))))"

definition BlockStorageDevice_Write :: "dev option \<Rightarrow> u32 \<Rightarrow> u32 \<Rightarrow> u8 list \<Rightarrow> bool \<Rightarrow> 'h block_storage \<Rightarrow>
    (bool \<times> 'h block_storage) c_result" where
  "BlockStorageDevice_Write device startAddress numBytes buffer readModifyWrite b =
     c_bind (device_at b device) (\<lambda>d. c_bind (entry (v_Write (m_BSD d)))
       (\<lambda>f. c_bind (f (m_context d) startAddress numBytes buffer readModifyWrite (hw b))
          (\<lambda>(r, h). Ret (r, b\<lparr>hw := h\<rparr>))))"

definition BlockStorageDevice_Memset :: "dev option \<Rightarrow> u32 \<Rightarrow> u8 \<Rightarrow> u32 \<Rightarrow> 'h block_storage \<Rightarrow>
    (bool \<times> 'h block_storage) c_result" where
  "BlockStorageDevice_Memset device startAddress buffer numBytes b =
     c_bind (device_at b device) (\<lambda>d. c_bind (entry (v_Memset (m_BSD d)))
       (\<lambda>f. c_bind (f (m_context d) startAddress buffer numBytes (hw b))
          (\<lambda>(r, h). Ret (r, b\<lparr>hw := h\<rparr>))))"

definition BlockStorageDevice_IsBlockErased :: "dev option \<Rightarrow> u32 \<Rightarrow> u32 \<Rightarrow> 'h block_storage \<Rightarrow> bool c_result" where
  "BlockStorageDevice_IsBlockErased device blockStartAddress len b =
     c_bind (device_at b device) (\<lambda>d. c_bind (entry (v_IsBlockErased (m_BSD d)))
       (\<lambda>f. f (m_context d) blockStartAddress len (hw b)))"

definition BlockStorageDevice_EraseBlock :: "dev option \<Rightarrow> u32 \<Rightarrow> 'h block_storage \<Rightarrow> (bool \<times> 'h block_storage) c_result" where
  "BlockStorageDevice_EraseBlock device address b =
     c_bind (device_at b device) (\<lambda>d. c_bind (entry (v_EraseBlock (m_BSD d)))
       (\<lambda>f. c_bind (f (m_context d) address (hw b)) (\<lambda>(r, h). Ret (r, b\<lparr>hw := h\<rparr>))))"

definition BlockStorageDevice_SetPowerState :: "dev option \<Rightarrow> u32 \<Rightarrow> 'h block_storage \<Rightarrow> 'h block_storage c_result" where
  "BlockStorageDevice_SetPowerState device state b =
     c_bind (device_at b device) (\<lambda>d. c_bind (entry (v_SetPowerState (m_BSD d)))
       (\<lambda>f. Ret (b\<lparr>hw := f (m_context d) state (hw b)\<rparr>)))"

definition BlockStorageDevice_GetMemoryMappedAddress :: "dev option \<Rightarrow> u32 \<Rightarrow> u32 \<Rightarrow> 'h block_storage \<Rightarrow>
    (bool \<times> u32) c_result" where
  "BlockStorageDevice_GetMemoryMappedAddress device blockRegionIndex blockRangeIndex b =
     c_bind (device_at b device) (\<lambda>d. c_bind (entry (v_GetMemoryMappedAddress (m_BSD d)))
       (\<lambda>f. Ret (f (m_context d) blockRegionIndex blockRangeIndex)))"

definition BlockStorageDevice_FindRegionFromAddress :: "dev option \<Rightarrow> u32 \<Rightarrow> u32 \<Rightarrow> 'h block_storage \<Rightarrow>
    (bool \<times> u32 \<times> u32) c_result" where
  "BlockStorageDevice_FindRegionFromAddress device address blockRangeIndex b =
     c_bind (BlockStorageDevice_GetDeviceInfo device b)
       (\<lambda>deviceInfo. DeviceBlockInfo_FindRegionFromAddress deviceInfo address blockRangeIndex)"

definition BlockStorageDevice_FindForBlockUsage :: "dev option \<Rightarrow> u32 \<Rightarrow> u32 option \<Rightarrow> u32 option \<Rightarrow>
    u32 option \<Rightarrow> 'h block_storage \<Rightarrow> (bool \<times> u32 option \<times> u32 \<times> u32 option) c_result" where
  "BlockStorageDevice_FindForBlockUsage device blockUsage address blockRegionIndex blockRangeIndex b =
     c_bind (BlockStorageDevice_GetDeviceInfo device b) (\<lambda>deviceInfo.
       DeviceBlockInfo_FindForBlockUsage deviceInfo blockUsage address blockRegionIndex blockRangeIndex)"

definition BlockStorageDevice_FindNextUsageBlock :: "dev option \<Rightarrow> u32 \<Rightarrow> u32 option \<Rightarrow> u32 option \<Rightarrow>
    u32 option \<Rightarrow> 'h block_storage \<Rightarrow> (bool \<times> u32 option \<times> u32 \<times> u32 option) c_result" where
  "BlockStorageDevice_FindNextUsageBlock device blockUsage address blockRegionIndex blockRangeIndex b =
     c_bind (BlockStorageDevice_GetDeviceInfo device b) (\<lambda>deviceInfo.
       DeviceBlockInfo_FindNextUsageBlock deviceInfo blockUsage address blockRegionIndex blockRangeIndex)"

definition BlockStorageDevice_Next :: "dev option \<Rightarrow> dev option" where
  "BlockStorageDevice_Next device = None"

definition BlockStorageDevice_Prev :: "dev option \<Rightarrow> dev option" where
  "BlockStorageDevice_Prev device = None"

section \<open>The device list\<close>

definition BlockStorageList_Initialize :: "'h block_storage \<Rightarrow> 'h block_storage" where
  "BlockStorageList_Initialize b =
     b\<lparr>DeviceList := replicate TARGET_BLOCKSTORAGE_COUNT None, DeviceCount := 0\<rparr>"

definition BlockStorageList_InitializeDevices :: "'h block_storage \<Rightarrow> bool \<times> 'h block_storage" where
  "BlockStorageList_InitializeDevices b = (True, b)"

definition BlockStorageList_UnInitializeDevices :: "'h block_storage \<Rightarrow> bool \<times> 'h block_storage" where
  "BlockStorageList_UnInitializeDevices b = (True, b)"

text \<open>
  \<open>success\<close> keeps its value from one free slot to the next; a free slot whose device fails to
  initialise is left free and the search goes on.
\<close>

function add_loop :: "dev \<Rightarrow> 'h IBlockStorageDevice \<Rightarrow> block_config \<Rightarrow> bool \<Rightarrow> bool \<Rightarrow> nat \<Rightarrow>
    'h block_storage \<Rightarrow> (bool \<times> 'h block_storage) c_result" where
  "add_loop pBSD vtable config init success i b =
     (if i < TARGET_BLOCKSTORAGE_COUNT then
        c_bind (c_index (DeviceList b) i) (\<lambda>slot.
          if slot = None then
            let b = b\<lparr>devices := (devices b)(pBSD \<mapsto> \<lparr>m_BSD = vtable, m_context = config\<rparr>)\<rparr> in
            c_bind (if init then BlockStorageDevice_InitializeDevice (Some pBSD) b
                    else Ret (success, b)) (\<lambda>(success, b).
              if success
              then Ret (True, b\<lparr>DeviceList := (DeviceList b)[i := Some pBSD],
                                DeviceCount := DeviceCount b + 1\<rparr>)
              else add_loop pBSD vtable config init success (i + 1) b)
          else add_loop pBSD vtable config init success (i + 1) b)
      else Ret (False, b))"
  by auto
termination
  by (relation "measure (\<lambda>(p, v, c, t, s, i, b). TARGET_BLOCKSTORAGE_COUNT - i)") auto

declare add_loop.simps [simp del]

definition BlockStorageList_AddDevice :: "dev \<Rightarrow> 'h IBlockStorageDevice \<Rightarrow> block_config \<Rightarrow> bool \<Rightarrow>
    'h block_storage \<Rightarrow> (bool \<times> 'h block_storage) c_result" where
  "BlockStorageList_AddDevice pBSD vtable config init b = add_loop pBSD vtable config init True 0 b"

function remove_loop :: "dev \<Rightarrow> bool \<Rightarrow> nat \<Rightarrow> 'h block_storage \<Rightarrow> (bool \<times> 'h block_storage) c_result" where
  "remove_loop pBSD unInit i b =
     (if i < TARGET_BLOCKSTORAGE_COUNT then
        c_bind (c_index (DeviceList b) i) (\<lambda>slot.
          if slot = Some pBSD then
            c_bind (if unInit then BlockStorageDevice_UninitializeDevice (Some pBSD) b
                    else Ret (True, b)) (\<lambda>(_, b).
              Ret (True, b\<lparr>DeviceList := (DeviceList b)[i := None]\<rparr>))
          else remove_loop pBSD unInit (i + 1) b)
      else Ret (False, b))"
  by auto
termination by (relation "measure (\<lambda>(p, u, i, b). TARGET_BLOCKSTORAGE_COUNT - i)") auto

declare remove_loop.simps [simp del]

definition BlockStorageList_RemoveDevice :: "dev \<Rightarrow> bool \<Rightarrow> 'h block_storage \<Rightarrow> (bool \<times> 'h block_storage) c_result" where
  "BlockStorageList_RemoveDevice pBSD unInit b = remove_loop pBSD unInit 0 b"

function first_loop :: "nat \<Rightarrow> 'h block_storage \<Rightarrow> dev option c_result" where
  "first_loop i b =
     (if i < TARGET_BLOCKSTORAGE_COUNT then
        c_bind (c_index (DeviceList b) i) (\<lambda>slot.
          if slot \<noteq> None then Ret slot else first_loop (i + 1) b)
      else Ret None)"
  by auto
termination by (relation "measure (\<lambda>(i, b). TARGET_BLOCKSTORAGE_COUNT - i)") auto

declare first_loop.simps [simp del]

definition BlockStorageList_GetFirstDevice :: "'h block_storage \<Rightarrow> dev option c_result" where
  "BlockStorageList_GetFirstDevice b = first_loop 0 b"

text \<open>The block start of an address: \<open>(address - Start) / BytesPerBlock * BytesPerBlock + Start\<close>.\<close>

definition block_start :: "BlockRegionInfo \<Rightarrow> u32 \<Rightarrow> u32" where
  "block_start pRegion address =
     (address - Start pRegion) div BytesPerBlock pRegion * BytesPerBlock pRegion + Start pRegion"

function physical_loop :: "DeviceBlockInfo \<Rightarrow> u32 \<Rightarrow> nat \<Rightarrow> u32 option c_result" where
  "physical_loop pDeviceInfo physicalAddress i =
     (if i < unat (NumRegions pDeviceInfo) then
        c_bind (c_index (Regions pDeviceInfo) i) (\<lambda>pRegion.
          if region_holds pRegion physicalAddress
          then Ret (Some (block_start pRegion physicalAddress))
          else physical_loop pDeviceInfo physicalAddress (i + 1))
      else Ret None)"
  by auto
termination by (relation "measure (\<lambda>(d, a, i). unat (NumRegions d) - i)") auto

declare physical_loop.simps [simp del]

text \<open>The result, \<open>*pBSD\<close> and \<open>*blockAddress\<close> after the call (the latter from its value before).\<close>

definition BlockStorageList_FindDeviceForPhysicalAddress :: "u32 \<Rightarrow> u32 \<Rightarrow> 'h block_storage \<Rightarrow>
    (bool \<times> dev option \<times> u32) c_result" where
  "BlockStorageList_FindDeviceForPhysicalAddress physicalAddress blockAddress b =
     c_bind (BlockStorageList_GetFirstDevice b) (\<lambda>block.
       if block = None then Ret (True, None, blockAddress)
       else c_bind (BlockStorageDevice_GetDeviceInfo block b) (\<lambda>pDeviceInfo.
         c_bind (physical_loop pDeviceInfo physicalAddress 0) (\<lambda>found.
           case found of Some a \<Rightarrow> Ret (True, block, a)
           | None \<Rightarrow> Ret (False, None, blockAddress))))"

end
