(* ===== verification/NF_FlashSTM32.thy ===== *)
theory NF_FlashSTM32
  imports NF_BlockStorage
begin

text \<open>
  The STM32 flash drivers: the low level driver \<open>FLASHv2/flash_lld.c\<close> (F4 and F7 series), the ChibiOS
  driver \<open>hal_stm32_flash.c\<close> on top of it and the block storage driver
  \<open>Target_BlockStorage_STM32FlashDriver.c\<close>. The flash controller is a parameter, a \<open>flash_bus\<close>; what
  the reference manual says about it is the locale \<open>flash_controller\<close>.
\<close>

section \<open>The controller as the code sees it\<close>

text \<open>
  Register reads and writes, loads and stores in the flash memory, the cache operations of the vendor
  header, the system time, and \<open>bus_poll\<close>, the time that goes by in one turn of a polling loop; and the
  error flags, which \<open>flash_lld.h\<close> gathers per part (0xF2, with \<open>FLASH_SR_RDERR\<close> on the parts that have it).
\<close>

record 'h flash_bus =
  get_CR :: "'h \<Rightarrow> u32"
  set_CR :: "u32 \<Rightarrow> 'h \<Rightarrow> 'h"
  get_SR :: "'h \<Rightarrow> u32"
  set_SR :: "u32 \<Rightarrow> 'h \<Rightarrow> 'h"
  write_KEYR :: "u32 \<Rightarrow> 'h \<Rightarrow> 'h"
  write_AR :: "u32 \<Rightarrow> 'h \<Rightarrow> 'h"
  get_ACR :: "'h \<Rightarrow> u32"
  instruction_cache_flush :: "'h \<Rightarrow> 'h"
  data_cache_flush :: "'h \<Rightarrow> 'h"
  load8 :: "'h \<Rightarrow> memory"
  store16 :: "u32 \<Rightarrow> u16 \<Rightarrow> 'h \<Rightarrow> 'h"
  store8 :: "u32 \<Rightarrow> u8 \<Rightarrow> 'h \<Rightarrow> 'h"
  system_time :: "'h \<Rightarrow> u32"
  TIME_MS2I :: "u32 \<Rightarrow> u32"
  bus_poll :: "'h \<Rightarrow> 'h"
  FLASH_FLAG_ALL_ERRORS :: u32

text \<open>Bits of the registers, from the device header.\<close>

definition FLASH_CR_LOCK :: u32 where "FLASH_CR_LOCK = 0x80000000"
definition FLASH_CR_STRT :: u32 where "FLASH_CR_STRT = 0x00010000"
definition FLASH_CR_PG :: u32 where "FLASH_CR_PG = 0x00000001"
definition FLASH_CR_SER :: u32 where "FLASH_CR_SER = 0x00000002"
definition FLASH_CR_SNB :: u32 where "FLASH_CR_SNB = 0x000000F8"
definition FLASH_CR_PSIZE :: u32 where "FLASH_CR_PSIZE = 0x00000300"
definition FLASH_SR_BSY :: u32 where "FLASH_SR_BSY = 0x00010000"
definition FLASH_SR_EOP :: u32 where "FLASH_SR_EOP = 0x00000001"
definition FLASH_ACR_ICEN :: u32 where "FLASH_ACR_ICEN = 0x00000200"
definition FLASH_ACR_DCEN :: u32 where "FLASH_ACR_DCEN = 0x00000400"

lemmas flash_bits = FLASH_CR_LOCK_def FLASH_CR_STRT_def FLASH_CR_PG_def FLASH_CR_SER_def
  FLASH_CR_SNB_def FLASH_CR_PSIZE_def FLASH_SR_BSY_def FLASH_SR_EOP_def FLASH_ACR_ICEN_def
  FLASH_ACR_DCEN_def

text \<open>Constants of \<open>flash_lld.h\<close>.\<close>

definition FLASH_KEY1 :: u32 where "FLASH_KEY1 = 0x45670123"
definition FLASH_KEY2 :: u32 where "FLASH_KEY2 = 0xCDEF89AB"
definition CR_PSIZE_MASK :: u32 where "CR_PSIZE_MASK = 0xFFFFFCFF"
definition FLASH_PSIZE_BYTE :: u32 where "FLASH_PSIZE_BYTE = 0x00000000"
definition FLASH_PSIZE_HALF_WORD :: u32 where "FLASH_PSIZE_HALF_WORD = 0x00000100"
definition FLASH_ERASED_WORD :: u32 where "FLASH_ERASED_WORD = 0xFFFFFFFF"

section \<open>FLASHv2/flash_lld.c\<close>

definition HAL_FLASH_Unlock :: "'h flash_bus \<Rightarrow> 'h \<Rightarrow> bool \<times> 'h" where
  "HAL_FLASH_Unlock fb h =
     (if get_CR fb h AND FLASH_CR_LOCK \<noteq> 0
      then (True, write_KEYR fb FLASH_KEY2 (write_KEYR fb FLASH_KEY1 h)) else (False, h))"

definition HAL_FLASH_Lock :: "'h flash_bus \<Rightarrow> 'h \<Rightarrow> 'h" where
  "HAL_FLASH_Lock fb h = set_CR fb (get_CR fb h OR FLASH_CR_LOCK) h"

text \<open>\<open>chVTIsSystemTimeWithin(start, end)\<close> of ChibiOS.\<close>

definition time_within :: "u32 \<Rightarrow> u32 \<Rightarrow> u32 \<Rightarrow> bool" where
  "time_within start stop now \<longleftrightarrow> now - start < stop - start"

partial_function (option) wait_loop :: "'h flash_bus \<Rightarrow> u32 \<Rightarrow> u32 \<Rightarrow> 'h \<Rightarrow> (bool \<times> 'h) option" where
  "wait_loop fb start stop h =
     (if get_SR fb h AND FLASH_SR_BSY \<noteq> 0 then
        if time_within start stop (system_time fb h) then wait_loop fb start stop (bus_poll fb h)
        else Some (False, h)
      else Some (True, h))"

definition FLASH_WaitForLastOperation :: "'h flash_bus \<Rightarrow> u32 \<Rightarrow> 'h \<Rightarrow> (bool \<times> 'h) option" where
  "FLASH_WaitForLastOperation fb timeout h =
     (let start = system_time fb h; stop = start + TIME_MS2I fb timeout in
      map_option (\<lambda>(idle, h).
          if \<not> idle then (False, h)
          else if get_SR fb h AND FLASH_FLAG_ALL_ERRORS fb \<noteq> 0 then (False, h)
          else (True, if get_SR fb h AND FLASH_SR_EOP \<noteq> 0 then set_SR fb FLASH_SR_EOP h else h))
        (wait_loop fb start stop h))"

definition FLASH_FlushCaches :: "'h flash_bus \<Rightarrow> 'h \<Rightarrow> 'h" where
  "FLASH_FlushCaches fb h =
     (let h = (if get_ACR fb h AND FLASH_ACR_ICEN \<noteq> 0 then instruction_cache_flush fb h else h)
      in if get_ACR fb h AND FLASH_ACR_DCEN \<noteq> 0 then data_cache_flush fb h else h)"

function copy_loop :: "memory \<Rightarrow> u32 \<Rightarrow> u32 \<Rightarrow> u8 list" where
  "copy_loop mem cursor endAddress =
     (if cursor < endAddress then mem cursor # copy_loop mem (cursor + 1) endAddress else [])"
  by auto
termination
proof (relation "measure (\<lambda>(m, c, e). unat (e - c))")
  fix m :: memory and c e :: u32
  assume "c < e"
  then have "e - c \<noteq> 0" by auto
  from unat_pred [OF this] show "((m, c + 1, e), m, c, e) \<in> measure (\<lambda>(m, c, e). unat (e - c))"
    by (simp add: diff_diff_eq)
qed simp

declare copy_loop.simps [simp del]

definition flash_lld_readBytes :: "'h flash_bus \<Rightarrow> u32 \<Rightarrow> u32 \<Rightarrow> 'h \<Rightarrow> u8 list" where
  "flash_lld_readBytes fb startAddress len h =
     copy_loop (load8 fb h) startAddress (startAddress + len)"

text \<open>
  One turn of the write loop programs a half-word, or the last byte; the buffer is the list of bytes
  that are still to be written. \<open>cursor\<close> grows by two in either case.
\<close>

definition program_unit :: "'h flash_bus \<Rightarrow> u32 \<Rightarrow> u32 \<Rightarrow> u8 list \<Rightarrow> 'h \<Rightarrow> (u8 list \<times> 'h) c_result" where
  "program_unit fb cursor endAddress buffer h =
     (if 2 \<le> sint (endAddress - cursor) then
        let h = set_CR fb (get_CR fb h AND CR_PSIZE_MASK) h;
            h = set_CR fb (get_CR fb h OR FLASH_PSIZE_HALF_WORD) h;
            h = set_CR fb (get_CR fb h OR FLASH_CR_PG) h
        in if length buffer < 2 then Fault BadIndex
           else Ret (drop 2 buffer, store16 fb cursor (u16_of_bytes (take 2 buffer)) h)
      else
        let h = set_CR fb (get_CR fb h AND CR_PSIZE_MASK) h;
            h = set_CR fb (get_CR fb h OR FLASH_PSIZE_BYTE) h;
            h = set_CR fb (get_CR fb h OR FLASH_CR_PG) h
        in if buffer = [] then Fault BadIndex
           else Ret (buffer, store8 fb cursor (hd buffer) h))"

partial_function (option) write_loop :: "'h flash_bus \<Rightarrow> u32 \<Rightarrow> u32 \<Rightarrow> u8 list \<Rightarrow> bool \<Rightarrow> 'h \<Rightarrow>
    (bool \<times> 'h) c_result option" where
  "write_loop fb cursor endAddress buffer success h =
     (if cursor < endAddress then
        case program_unit fb cursor endAddress buffer h of
          Inl e \<Rightarrow> Some (Inl e)
        | Inr r \<Rightarrow> (case r of (buffer, h) \<Rightarrow>
            Option.bind (FLASH_WaitForLastOperation fb 500 h) (\<lambda>(success, h).
              if \<not> success then Some (Ret (False, h))
              else write_loop fb (cursor + 2) endAddress buffer success h))
      else Some (Ret (success, h)))"

definition flash_lld_write :: "'h flash_bus \<Rightarrow> u32 \<Rightarrow> u32 \<Rightarrow> u8 list \<Rightarrow> 'h \<Rightarrow> (bool \<times> 'h) c_result" where
  "flash_lld_write fb startAddress len buffer h =
     (case HAL_FLASH_Unlock fb h of (unlocked, h) \<Rightarrow>
        if \<not> unlocked then Ret (False, h)
        else
          let h = set_SR fb (FLASH_FLAG_ALL_ERRORS fb) h in
          c_bind (c_run (write_loop fb startAddress (startAddress + len) buffer False h)) (\<lambda>r.
            c_bind r (\<lambda>(success, h).
              let h = set_CR fb (get_CR fb h AND NOT FLASH_CR_PG) h
              in Ret (success, HAL_FLASH_Lock fb h))))"

partial_function (option) erased_loop :: "memory \<Rightarrow> u32 \<Rightarrow> u32 \<Rightarrow> bool option" where
  "erased_loop mem cursor endAddress =
     (if cursor < endAddress then
        if u32_of_bytes [mem cursor, mem (cursor + 1), mem (cursor + 2), mem (cursor + 3)] \<noteq> FLASH_ERASED_WORD
        then Some False
        else erased_loop mem (cursor + 4) endAddress
      else Some True)"

definition flash_lld_isErased :: "'h flash_bus \<Rightarrow> u32 \<Rightarrow> u32 \<Rightarrow> 'h \<Rightarrow> bool c_result" where
  "flash_lld_isErased fb startAddress len h =
     c_run (erased_loop (load8 fb h) startAddress (startAddress + len))"

text \<open>
  \<open>A n\<close> is \<open>ADDR_FLASH_SECTOR_n\<close>. The chain is that of the parts which define sector 8 and above (the
  others do not define \<open>FLASH_SECTOR_11\<close>, which the last branch names).
\<close>

definition flash_lld_getSector :: "(nat \<Rightarrow> u32) \<Rightarrow> u32 \<Rightarrow> u8" where
  "flash_lld_getSector A address =
     (if address < A 1 \<and> address \<ge> A 0 then 0
      else if address < A 2 \<and> address \<ge> A 1 then 1
      else if address < A 3 \<and> address \<ge> A 2 then 2
      else if address < A 4 \<and> address \<ge> A 3 then 3
      else if address < A 5 \<and> address \<ge> A 4 then 4
      else if address < A 6 \<and> address \<ge> A 5 then 5
      else if address < A 7 \<and> address \<ge> A 6 then 6
      else if address < A 8 \<and> address \<ge> A 7 then 7
      else if address < A 9 \<and> address \<ge> A 8 then 8
      else if address < A 10 \<and> address \<ge> A 9 then 9
      else if address < A 11 \<and> address \<ge> A 10 then 10
      else 11)"

text \<open>\<open>ADDR_FLASH_SECTOR_n\<close> of the parts with 24 sectors (F427 to F479) and of the F7 parts.\<close>

definition ADDR_FLASH_SECTOR_F42x :: "nat \<Rightarrow> u32" where
  "ADDR_FLASH_SECTOR_F42x n =
     [0x08000000, 0x08004000, 0x08008000, 0x0800C000, 0x08010000, 0x08020000, 0x08040000, 0x08060000,
      0x08080000, 0x080A0000, 0x080C0000, 0x080E0000, 0x08100000, 0x08104000, 0x08108000, 0x0810C000,
      0x08110000, 0x08120000, 0x08140000, 0x08160000, 0x08180000, 0x081A0000, 0x081C0000, 0x081E0000] ! n"

definition ADDR_FLASH_SECTOR_F7 :: "nat \<Rightarrow> u32" where
  "ADDR_FLASH_SECTOR_F7 n =
     [0x08000000, 0x08008000, 0x08010000, 0x08018000, 0x08020000, 0x08040000, 0x08080000, 0x080C0000,
      0x08100000, 0x08140000, 0x08180000, 0x081C0000] ! n"

text \<open>\<open>flush\<close> is the build for an F4 part, which flushes the caches.\<close>

definition flash_lld_erase :: "bool \<Rightarrow> (nat \<Rightarrow> u32) \<Rightarrow> 'h flash_bus \<Rightarrow> u32 \<Rightarrow> 'h \<Rightarrow> (bool \<times> 'h) c_result" where
  "flash_lld_erase flush A fb address h =
     (case HAL_FLASH_Unlock fb h of (unlocked, h) \<Rightarrow>
        if \<not> unlocked then Ret (False, h)
        else
          let h = set_SR fb (FLASH_FLAG_ALL_ERRORS fb) h;
              sectorNumber = flash_lld_getSector A address;
              sectorNumber = (if 11 < sectorNumber then sectorNumber + 4 else sectorNumber);
              h = set_CR fb (get_CR fb h AND NOT FLASH_CR_PSIZE) h;
              h = set_CR fb (get_CR fb h OR FLASH_PSIZE_HALF_WORD) h;
              h = set_CR fb (get_CR fb h AND NOT FLASH_CR_SNB) h;
              h = set_CR fb (get_CR fb h OR (FLASH_CR_SER OR push_bit 3 (ucast sectorNumber))) h;
              h = set_CR fb (get_CR fb h OR FLASH_CR_STRT) h
          in c_bind (c_run (FLASH_WaitForLastOperation fb 2000 h)) (\<lambda>(success, h).
               let h = set_CR fb (get_CR fb h AND NOT (FLASH_CR_SER OR FLASH_CR_SNB)) h;
                   h = (if flush then FLASH_FlushCaches fb h else h)
               in Ret (success, HAL_FLASH_Lock fb h)))"

section \<open>hal_stm32_flash.c\<close>

definition FLASH_BASE :: u32 where "FLASH_BASE = 0x08000000"

text \<open>\<open>osalDbgCheck\<close> halts the system when the build has debug checks (\<open>dbg\<close>) and the condition fails.\<close>

definition osalDbgCheck :: "bool \<Rightarrow> bool \<Rightarrow> unit c_result" where
  "osalDbgCheck dbg c = (if dbg \<and> \<not> c then Fault Halt else Ret ())"

definition stm32FlashReadBytes :: "bool \<Rightarrow> 'h flash_bus \<Rightarrow> u32 \<Rightarrow> u32 \<Rightarrow> 'h \<Rightarrow> u8 list c_result" where
  "stm32FlashReadBytes dbg fb startAddress len h =
     c_bind (osalDbgCheck dbg (startAddress > FLASH_BASE \<and> len > 0))
       (\<lambda>_. Ret (flash_lld_readBytes fb startAddress len h))"

definition stm32FlashWrite :: "bool \<Rightarrow> 'h flash_bus \<Rightarrow> u32 \<Rightarrow> u32 \<Rightarrow> u8 list \<Rightarrow> 'h \<Rightarrow> (bool \<times> 'h) c_result" where
  "stm32FlashWrite dbg fb startAddress len buffer h =
     c_bind (osalDbgCheck dbg (startAddress > FLASH_BASE \<and> len > 0))
       (\<lambda>_. flash_lld_write fb startAddress len buffer h)"

definition stm32FlashIsErased :: "bool \<Rightarrow> 'h flash_bus \<Rightarrow> u32 \<Rightarrow> u32 \<Rightarrow> 'h \<Rightarrow> bool c_result" where
  "stm32FlashIsErased dbg fb startAddress len h =
     c_bind (osalDbgCheck dbg (startAddress > FLASH_BASE \<and> len > 0))
       (\<lambda>_. flash_lld_isErased fb startAddress len h)"

definition stm32FlashErase :: "bool \<Rightarrow> bool \<Rightarrow> (nat \<Rightarrow> u32) \<Rightarrow> 'h flash_bus \<Rightarrow> u32 \<Rightarrow> 'h \<Rightarrow> (bool \<times> 'h) c_result" where
  "stm32FlashErase dbg flush A fb address h =
     c_bind (osalDbgCheck dbg (address > FLASH_BASE)) (\<lambda>_. flash_lld_erase flush A fb address h)"

definition stm32FlashGetSector :: "(nat \<Rightarrow> u32) \<Rightarrow> u32 \<Rightarrow> u8" where
  "stm32FlashGetSector A address = flash_lld_getSector A address"

section \<open>Target_BlockStorage_STM32FlashDriver.c\<close>

definition STM32FlashDriver_InitializeDevice :: "block_config \<Rightarrow> 'h \<Rightarrow> (bool \<times> 'h) c_result" where
  "STM32FlashDriver_InitializeDevice context h = Ret (True, h)"

definition STM32FlashDriver_UninitializeDevice :: "block_config \<Rightarrow> 'h \<Rightarrow> (bool \<times> 'h) c_result" where
  "STM32FlashDriver_UninitializeDevice context h = Ret (True, h)"

definition STM32FlashDriver_GetDeviceInfo :: "block_config \<Rightarrow> DeviceBlockInfo" where
  "STM32FlashDriver_GetDeviceInfo context = BlockDeviceInformation context"

definition STM32FlashDriver_Read :: "bool \<Rightarrow> 'h flash_bus \<Rightarrow> block_config \<Rightarrow> u32 \<Rightarrow> u32 \<Rightarrow> 'h \<Rightarrow>
    (bool \<times> u8 list \<times> 'h) c_result" where
  "STM32FlashDriver_Read dbg fb context startAddress numBytes h =
     c_bind (stm32FlashReadBytes dbg fb startAddress numBytes h) (\<lambda>bs. Ret (True, bs, h))"

definition STM32FlashDriver_Write :: "bool \<Rightarrow> 'h flash_bus \<Rightarrow> block_config \<Rightarrow> u32 \<Rightarrow> u32 \<Rightarrow> u8 list \<Rightarrow>
    bool \<Rightarrow> 'h \<Rightarrow> (bool \<times> 'h) c_result" where
  "STM32FlashDriver_Write dbg fb context startAddress numBytes buffer readModifyWrite h =
     stm32FlashWrite dbg fb startAddress numBytes buffer h"

definition STM32FlashDriver_IsBlockErased :: "bool \<Rightarrow> 'h flash_bus \<Rightarrow> block_config \<Rightarrow> u32 \<Rightarrow> u32 \<Rightarrow> 'h \<Rightarrow>
    bool c_result" where
  "STM32FlashDriver_IsBlockErased dbg fb context blockAddress len h =
     stm32FlashIsErased dbg fb blockAddress len h"

definition STM32FlashDriver_EraseBlock :: "bool \<Rightarrow> bool \<Rightarrow> (nat \<Rightarrow> u32) \<Rightarrow> 'h flash_bus \<Rightarrow> block_config \<Rightarrow>
    u32 \<Rightarrow> 'h \<Rightarrow> (bool \<times> 'h) c_result" where
  "STM32FlashDriver_EraseBlock dbg flush A fb context address h = stm32FlashErase dbg flush A fb address h"

text \<open>\<open>platform_BlockStorage.c\<close>: the driver table; three of its entries are null.\<close>

definition STM32Flash_BlockStorageInterface :: "bool \<Rightarrow> bool \<Rightarrow> (nat \<Rightarrow> u32) \<Rightarrow> 'h flash_bus \<Rightarrow>
    'h IBlockStorageDevice" where
  "STM32Flash_BlockStorageInterface dbg flush A fb =
     \<lparr>v_InitializeDevice = Some STM32FlashDriver_InitializeDevice,
      v_UninitializeDevice = Some STM32FlashDriver_UninitializeDevice,
      v_GetDeviceInfo = Some STM32FlashDriver_GetDeviceInfo,
      v_Read = Some (STM32FlashDriver_Read dbg fb),
      v_Write = Some (STM32FlashDriver_Write dbg fb),
      v_Memset = None,
      v_IsBlockErased = Some (STM32FlashDriver_IsBlockErased dbg fb),
      v_EraseBlock = Some (STM32FlashDriver_EraseBlock dbg flush A fb),
      v_SetPowerState = None,
      v_GetMemoryMappedAddress = None\<rparr>"

end
