(* ===== verification/NF_Booter.thy ===== *)
theory NF_Booter
  imports NF_WP_Transport NF_FlashSTM32
begin

text \<open>
  The application of the nanoBooter of the ChibiOS targets: \<open>nanoBooter/WireProtocol_App_Interface.c\<close>
  (what it accepts, the duplicate filter, the dispatch) and
  \<open>nanoBooter/WireProtocol_MonitorCommands.c\<close> (one definition per command).
\<close>

section \<open>State and what the target links in\<close>

text \<open>The application adds one global to those of Wire Protocol.\<close>

record 'o booter_state = "'o wp_state" +
  lastPacketSequence :: u32

definition lastPacketSequence_init :: u32 where "lastPacketSequence_init = 0x00FEFFFF"

text \<open>
  What differs between the targets: the transport, the build of the flash driver over its controller,
  the version and the text that the build generates, the memory map, the storage table, the heap, the
  configuration manager (\<open>bt_config\<close> is \<open>HAS_CONFIG_BLOCK\<close>), and the bytes \<open>bt_stack\<close> that an
  uninitialised local object holds.
\<close>

record 'o booter_target =
  bt_crc32 :: bool
  bt_transmit :: "WP_Message \<Rightarrow> 'o booter_state \<Rightarrow> (bool \<times> 'o booter_state) c_result"
  bt_debug :: bool
  bt_flush :: bool
  bt_sectors :: "nat \<Rightarrow> u32"
  bt_flash :: "'o flash_bus"
  bt_version :: "u16 \<times> u16 \<times> u16"
  bt_oem_info :: "u8 list"
  bt_RAM1 :: "u32 \<times> u32"
  bt_FLASH1 :: "u32 \<times> u32"
  bt_storage :: "'o block_storage"
  bt_malloc :: "nat \<Rightarrow> 'o booter_state \<Rightarrow> bool \<times> 'o booter_state"
  bt_config :: bool
  bt_GetConfigurationBlock :: "u32 \<Rightarrow> u32 \<Rightarrow> 'o booter_state \<Rightarrow> u8 list option \<times> 'o booter_state"
  bt_StoreConfigurationBlock :: "u8 list \<Rightarrow> u32 \<Rightarrow> u32 \<Rightarrow> u32 \<Rightarrow> u32 \<Rightarrow> 'o booter_state \<Rightarrow> bool \<times> 'o booter_state"
  bt_stack :: "u8 list"

type_synonym 'o handler =
  "WP_Message \<Rightarrow> 'o booter_state \<Rightarrow> (bool \<times> WP_Message \<times> 'o booter_state) c_result"

definition reply :: "'o booter_target \<Rightarrow> WP_Message \<Rightarrow> bool \<Rightarrow> payload_ptr \<Rightarrow> int \<Rightarrow> 'o booter_state \<Rightarrow>
    (WP_Message \<times> 'o booter_state) c_result" where
  "reply T message fSuccess ptr sz g =
     WP_ReplyToCommand (bt_crc32 T) (bt_transmit T) message fSuccess False ptr sz g"

text \<open>Reading a field of a command: the word at an offset of the payload, and the bytes behind it.\<close>

definition payload_u32 :: "'o booter_state \<Rightarrow> payload_ptr \<Rightarrow> nat \<Rightarrow> u32 c_result" where
  "payload_u32 g p off = c_bind (payload_bytes g p (off + 4)) (\<lambda>bs. Ret (u32_of_bytes (drop off bs)))"

definition payload_rest :: "'o booter_state \<Rightarrow> payload_ptr \<Rightarrow> nat \<Rightarrow> u8 list c_result" where
  "payload_rest g p off =
     (case p of PayloadNull \<Rightarrow> Fault NullDeref
      | PayloadReceptionBuffer \<Rightarrow> Ret (drop off (receptionBuffer g))
      | PayloadObject d \<Rightarrow> Ret (drop off d))"

section \<open>Helper functions\<close>

definition NanoBooter_GetReleaseInfo :: "'o booter_target \<Rightarrow> (bool \<times> u8 list) c_result" where
  "NanoBooter_GetReleaseInfo T =
     (case bt_version T of (major, minor, build) \<Rightarrow>
        if length (bt_oem_info T) < 56 then Fault BadIndex
        else Ret (True, bytes_of_u16 major @ bytes_of_u16 minor @ bytes_of_u16 build @ bytes_of_u16 0 @
                        take 56 (bt_oem_info T)))"

datatype AccessMemory_Operations =
    AccessMemory_Check | AccessMemory_Read | AccessMemory_Write | AccessMemory_Erase | AccessMemory_Mask

definition AccessMemoryErrorCode_NoError :: u32 where "AccessMemoryErrorCode_NoError = 0"

text \<open>The result, what the buffer holds afterwards, the error code and the state of the hardware.\<close>

definition AccessMemory :: "'o booter_target \<Rightarrow> u32 \<Rightarrow> u32 \<Rightarrow> u8 list \<Rightarrow> AccessMemory_Operations \<Rightarrow> 'o \<Rightarrow>
    (bool \<times> u8 list \<times> u32 \<times> 'o) c_result" where
  "AccessMemory T location lengthInBytes buffer mode h =
     (let errorCode = AccessMemoryErrorCode_NoError; fb = bt_flash T; dbg = bt_debug T in
      case mode of
        AccessMemory_Write \<Rightarrow>
          c_bind (stm32FlashWrite dbg fb location lengthInBytes buffer h)
            (\<lambda>(ok, h). Ret (ok, buffer, errorCode, h))
      | AccessMemory_Erase \<Rightarrow>
          c_bind (stm32FlashErase dbg (bt_flush T) (bt_sectors T) fb location h)
            (\<lambda>(ok, h). Ret (ok, buffer, errorCode, h))
      | AccessMemory_Check \<Rightarrow>
          c_bind (stm32FlashIsErased dbg fb location lengthInBytes h)
            (\<lambda>ok. Ret (ok, buffer, errorCode, h))
      | AccessMemory_Read \<Rightarrow>
          c_bind (stm32FlashReadBytes dbg fb location lengthInBytes h) (\<lambda>bs.
            if length buffer < length bs then Fault BadIndex
            else Ret (True, bs @ drop (length bs) buffer, errorCode, h))
      | AccessMemory_Mask \<Rightarrow> Ret (False, buffer, errorCode, h))"

section \<open>Commands\<close>

definition Monitor_Ping_c_Ping_Source_NanoBooter :: u32 where
  "Monitor_Ping_c_Ping_Source_NanoBooter = 0x00010001"
definition Monitor_Ping_c_Ping_WPFlag_SupportsCRC32 :: u32 where
  "Monitor_Ping_c_Ping_WPFlag_SupportsCRC32 = 0x00000010"
definition Monitor_Ping_c_PacketSize_1024 :: u32 where "Monitor_Ping_c_PacketSize_1024 = 0x00000100"

text \<open>\<open>WP_PACKET_SIZE\<close> is 1024 in the model, which selects the packet size flag.\<close>

definition Monitor_Ping :: "'o booter_target \<Rightarrow> 'o handler" where
  "Monitor_Ping T message g =
     (if \<not> has_flag (m_flags (m_header message)) WP_Flags_c_Reply then
        let flags = (if bt_crc32 T then Monitor_Ping_c_Ping_WPFlag_SupportsCRC32 else 0) OR
              Monitor_Ping_c_PacketSize_1024;
            cmdReply = bytes_of_u32 Monitor_Ping_c_Ping_Source_NanoBooter @ bytes_of_u32 flags
        in c_bind (reply T message True (PayloadObject cmdReply) 8 g) (\<lambda>(message, g). Ret (True, message, g))
      else Ret (True, message, g))"

definition Monitor_OemInfo :: "'o booter_target \<Rightarrow> 'o handler" where
  "Monitor_OemInfo T message g =
     (if \<not> has_flag (m_flags (m_header message)) WP_Flags_c_Reply then
        c_bind (NanoBooter_GetReleaseInfo T) (\<lambda>(fOK, cmdReply).
          c_bind (reply T message fOK (PayloadObject cmdReply) 64 g) (\<lambda>(message, g). Ret (True, message, g)))
      else Ret (True, message, g))"

definition Monitor_ReadMemory :: "'o booter_target \<Rightarrow> 'o handler" where
  "Monitor_ReadMemory T message g =
     (let cmd = m_payload message in
      c_bind (payload_u32 g cmd 0) (\<lambda>address. c_bind (payload_u32 g cmd 4) (\<lambda>len0.
        let buf = take 1024 (bt_stack T);
            len = (if len0 > 1024 then 1024 else len0)
        in c_bind (AccessMemory T address len buf AccessMemory_Read (os g)) (\<lambda>(_, buf, _, h).
           c_bind (reply T message True (PayloadObject buf) (uint len) (g\<lparr>os := h\<rparr>))
             (\<lambda>(message, g). Ret (True, message, g))))))"

text \<open>The result of \<open>AccessMemory\<close> is not looked at; the reply carries the error code only.\<close>

definition Monitor_WriteMemory :: "'o booter_target \<Rightarrow> 'o handler" where
  "Monitor_WriteMemory T message g =
     (let cmd = m_payload message in
      c_bind (payload_u32 g cmd 0) (\<lambda>address. c_bind (payload_u32 g cmd 4) (\<lambda>len.
      c_bind (payload_rest g cmd 8) (\<lambda>data.
      c_bind (AccessMemory T address len data AccessMemory_Write (os g)) (\<lambda>(_, _, errorCode, h).
        c_bind (reply T message True (PayloadObject (bytes_of_u32 errorCode)) 4 (g\<lparr>os := h\<rparr>))
          (\<lambda>(message, g). Ret (True, message, g)))))))"

definition Monitor_Reboot_c_EnterBootloader :: u32 where "Monitor_Reboot_c_EnterBootloader = 1"

definition Monitor_Reboot :: "'o booter_target \<Rightarrow> 'o handler" where
  "Monitor_Reboot T message g =
     (let cmd = m_payload message in
      c_bind (reply T message True PayloadNull 0 g) (\<lambda>(message, g).
        if cmd \<noteq> PayloadNull then
          c_bind (payload_u32 g cmd 0) (\<lambda>flags.
            if flags AND Monitor_Reboot_c_EnterBootloader \<noteq> Monitor_Reboot_c_EnterBootloader
            then Fault Reset else Ret (True, message, g))
        else Ret (True, message, g)))"

definition Monitor_EraseMemory :: "'o booter_target \<Rightarrow> 'o handler" where
  "Monitor_EraseMemory T message g =
     (let cmd = m_payload message in
      c_bind (payload_u32 g cmd 0) (\<lambda>address. c_bind (payload_u32 g cmd 4) (\<lambda>len.
      c_bind (AccessMemory T address len [] AccessMemory_Erase (os g)) (\<lambda>(_, _, errorCode, h).
        c_bind (reply T message True (PayloadObject (bytes_of_u32 errorCode)) 4 (g\<lparr>os := h\<rparr>))
          (\<lambda>(message, g). Ret (True, message, g))))))"

definition DeviceConfigurationOption_Network :: u32 where "DeviceConfigurationOption_Network = 1"
definition DeviceConfigurationOption_Wireless80211Network :: u32 where
  "DeviceConfigurationOption_Wireless80211Network = 2"
definition DeviceConfigurationOption_X509CaRootBundle :: u32 where
  "DeviceConfigurationOption_X509CaRootBundle = 4"
definition DeviceConfigurationOption_All :: u32 where "DeviceConfigurationOption_All = 255"

text \<open>A configuration block that the manager yields is the structure of its option, sent whole.\<close>

definition Monitor_QueryConfiguration :: "'o booter_target \<Rightarrow> 'o handler" where
  "Monitor_QueryConfiguration T message g =
     (if \<not> bt_config T then Ret (False, message, g)
      else
        let cmd = m_payload message in
        c_bind (payload_u32 g cmd 0) (\<lambda>configuration. c_bind (payload_u32 g cmd 4) (\<lambda>blockIndex.
          let failed = (\<lambda>g. c_bind (reply T message False PayloadNull 0 g)
                (\<lambda>(message, g). Ret (False, message, g))) in
          if configuration = DeviceConfigurationOption_Network \<or>
             configuration = DeviceConfigurationOption_Wireless80211Network then
            (case bt_GetConfigurationBlock T configuration blockIndex g of
               (Some block, g) \<Rightarrow>
                 c_bind (reply T message True (PayloadObject block) (int (length block)) g)
                   (\<lambda>(message, g). Ret (True, message, g))
             | (None, g) \<Rightarrow> failed g)
          else failed g)))"

definition Monitor_UpdateConfiguration :: "'o booter_target \<Rightarrow> 'o handler" where
  "Monitor_UpdateConfiguration T message g =
     (if \<not> bt_config T then Ret (False, message, g)
      else
        let cmd = m_payload message in
        c_bind (payload_u32 g cmd 0) (\<lambda>configuration. c_bind (payload_u32 g cmd 4) (\<lambda>blockIndex.
        c_bind (payload_u32 g cmd 8) (\<lambda>len. c_bind (payload_u32 g cmd 12) (\<lambda>offset.
        c_bind (payload_rest g cmd 16) (\<lambda>data.
          case (if configuration \<in> {DeviceConfigurationOption_Network, DeviceConfigurationOption_Wireless80211Network,
                  DeviceConfigurationOption_X509CaRootBundle, DeviceConfigurationOption_All}
                then case bt_StoreConfigurationBlock T data configuration blockIndex len offset g of
                       (stored, g) \<Rightarrow> (stored, if stored then 0 else 100, g)
                else (False, 10, g)) of
            (success, errorCode, g) \<Rightarrow>
              c_bind (reply T message success (PayloadObject (bytes_of_u32 errorCode)) 4 g)
                (\<lambda>(message, g). Ret (success, message, g))))))))"

text \<open>\<open>cmdReply.crc\<close> is never assigned: the check does not use its buffer.\<close>

definition Monitor_CheckMemory :: "'o booter_target \<Rightarrow> 'o handler" where
  "Monitor_CheckMemory T message g =
     (let cmd = m_payload message in
      c_bind (payload_u32 g cmd 0) (\<lambda>address. c_bind (payload_u32 g cmd 4) (\<lambda>len.
      c_bind (AccessMemory T address len (take 4 (bt_stack T)) AccessMemory_Check (os g)) (\<lambda>(ret, crc, _, h).
        c_bind (reply T message ret (PayloadObject crc) 4 (g\<lparr>os := h\<rparr>))
          (\<lambda>(message, g). Ret (ret, message, g))))))"

definition Monitor_MemoryMap_c_RAM :: u32 where "Monitor_MemoryMap_c_RAM = 1"
definition Monitor_MemoryMap_c_FLASH :: u32 where "Monitor_MemoryMap_c_FLASH = 2"

definition Monitor_MemoryMap :: "'o booter_target \<Rightarrow> 'o handler" where
  "Monitor_MemoryMap T message g =
     (let mem_map = concat [bytes_of_u32 (fst (bt_RAM1 T)), bytes_of_u32 (snd (bt_RAM1 T)),
                        bytes_of_u32 Monitor_MemoryMap_c_RAM, bytes_of_u32 (fst (bt_FLASH1 T)),
                        bytes_of_u32 (snd (bt_FLASH1 T)), bytes_of_u32 Monitor_MemoryMap_c_FLASH]
      in c_bind (reply T message True (PayloadObject mem_map) 24 g) (\<lambda>(message, g). Ret (True, message, g)))"

text \<open>
  The sector map takes two passes over the table: the first counts the ranges, the second fills the
  allocated array with one \<open>Flash_BlockRegionInfo\<close> of four words per range.
\<close>

definition sector_entry :: "BlockRegionInfo \<Rightarrow> BlockRange \<Rightarrow> u8 list" where
  "sector_entry pRegion br =
     bytes_of_u32 (BlockRegionInfo_BlockAddress pRegion (StartBlock br)) @
     bytes_of_u32 (BlockRange_GetBlockCount br) @
     bytes_of_u32 (BytesPerBlock pRegion) @
     bytes_of_u32 (RangeType br AND BlockRange_USAGE_MASK)"

definition count_ranges :: "DeviceBlockInfo \<Rightarrow> nat c_result" where
  "count_ranges info =
     c_bind (c_map (c_index (Regions info)) [0..<unat (NumRegions info)])
       (\<lambda>rs. Ret (sum_list (map (\<lambda>r. unat (NumBlockRanges r)) rs)))"

definition sector_map :: "DeviceBlockInfo \<Rightarrow> u8 list c_result" where
  "sector_map info =
     c_bind (c_map (c_index (Regions info)) [0..<unat (NumRegions info)]) (\<lambda>rs.
     c_bind (c_map (\<lambda>r. c_bind (c_map (c_index (BlockRanges r)) [0..<unat (NumBlockRanges r)])
                          (\<lambda>ranges. Ret (concat (map (sector_entry r) ranges)))) rs)
       (\<lambda>entries. Ret (concat entries)))"

definition Monitor_FlashSectorMap :: "'o booter_target \<Rightarrow> 'o handler" where
  "Monitor_FlashSectorMap T message g =
     (if \<not> has_flag (m_flags (m_header message)) WP_Flags_c_Reply then
        let failed = (\<lambda>g. c_bind (reply T message True PayloadNull 0 g)
              (\<lambda>(message, g). Ret (False, message, g))) in
        c_bind (BlockStorageList_GetFirstDevice (bt_storage T)) (\<lambda>device.
          if device = None then failed g
          else
            c_bind (BlockStorageDevice_GetDeviceInfo device (bt_storage T)) (\<lambda>info.
            c_bind (count_ranges info) (\<lambda>rangeCount.
              case bt_malloc T (rangeCount * 16) g of (allocated, g) \<Rightarrow>
                if \<not> allocated then failed g
                else c_bind (sector_map info) (\<lambda>pData.
                  c_bind (reply T message True (PayloadObject pData) (int (rangeCount * 16)) g)
                    (\<lambda>(message, g). Ret (True, message, g))))))
      else Ret (True, message, g))"

section \<open>WireProtocol_App_Interface.c\<close>

text \<open>The tables; the numbers are those of the commands in \<open>WireProtocol.h\<close>.\<close>

definition c_Lookup_Request :: "'o booter_target \<Rightarrow> (u32 \<times> 'o handler) list" where
  "c_Lookup_Request T =
     [(0x00, Monitor_Ping T), (0x07, Monitor_Reboot T), (0x02, Monitor_ReadMemory T),
      (0x03, Monitor_WriteMemory T), (0x04, Monitor_CheckMemory T), (0x05, Monitor_EraseMemory T),
      (0x0F, Monitor_QueryConfiguration T), (0x10, Monitor_UpdateConfiguration T),
      (0x08, Monitor_MemoryMap T), (0x0C, Monitor_FlashSectorMap T), (0x0E, Monitor_OemInfo T)]"

definition c_Lookup_Reply :: "'o booter_target \<Rightarrow> (u32 \<times> 'o handler) list" where
  "c_Lookup_Reply T = [(0x00, Monitor_Ping T)]"

definition WP_App_ProcessHeader_Booter :: "WP_Message \<Rightarrow> ('o, 'z) wp_state_scheme \<Rightarrow>
    bool \<times> WP_Message \<times> ('o, 'z) wp_state_scheme" where
  "WP_App_ProcessHeader_Booter message g =
     (if unat (m_hsize (m_header message)) > sizeof_receptionBuffer then (False, message, g)
      else (True, message\<lparr>m_payload := PayloadReceptionBuffer\<rparr>, g))"

fun lookup_loop :: "'o booter_target \<Rightarrow> (u32 \<times> 'o handler) list \<Rightarrow> 'o handler" where
  "lookup_loop T [] message g =
     c_bind (reply T message False PayloadNull 0 g) (\<lambda>(message, g). Ret (True, message, g))"
| "lookup_loop T ((command, handler) # cmds) message g =
     (if command = m_cmd (m_header message) then
        c_bind (handler message g) (\<lambda>(result, message, g).
          c_bind (reply T message result PayloadNull 0 g) (\<lambda>(message, g). Ret (True, message, g)))
      else lookup_loop T cmds message g)"

definition WP_App_ProcessPayload_Booter :: "'o booter_target \<Rightarrow> 'o handler" where
  "WP_App_ProcessPayload_Booter T message g =
     (if ucast (m_seq (m_header message)) = lastPacketSequence g then Ret (False, message, g)
      else
        let g = g\<lparr>lastPacketSequence := ucast (m_seq (m_header message))\<rparr> in
        if has_flag (m_flags (m_header message)) WP_Flags_c_NACK then Ret (True, message, g)
        else lookup_loop T (if has_flag (m_flags (m_header message)) WP_Flags_c_Reply
                            then c_Lookup_Reply T else c_Lookup_Request T) message g)"

end
