(* ===== verification/NF_BooterFrames.thy ===== *)
theory NF_BooterFrames
  imports NF_Booter
begin

text \<open>
  From the wire to the application: a frame that arrives in time at a receiver that waits for a header
  reaches the booter's \<open>WP_App_ProcessPayload\<close> with its header and payload as sent, and the payload
  is never stored outside of \<open>receptionBuffer\<close>.
\<close>

section \<open>A frame that arrives in time\<close>

text \<open>
  The transport delivers what has arrived (no read runs into its timeout), and two readings of the
  clock around it lie within the payload timeout.
\<close>

locale prompt_link =
  wp_transport "lk_ReceiveBytes L" "lk_TransmitMessage L" rx tx
  for L :: "('o, 'z) wp_link" and rx tx :: "'o \<Rightarrow> u8 list" +
  assumes no_crc: "\<not> lk_crc32 L"
    and delivers: "unat n \<le> length (rx (os g)) \<Longrightarrow> fst (lk_ReceiveBytes L n g)"
    and clock_only: "lk_CurrentSysTicks L g = (t, g') \<Longrightarrow> only_port g g' \<and> rx (os g') = rx (os g)"
    and clock_close: "lk_CurrentSysTicks L g = (t1, g1) \<Longrightarrow> lk_CurrentSysTicks L g1 = (t2, g2) \<Longrightarrow>
      lk_SysTicksToTime L (ucast (t2 - t1)) < c_PayloadTimeout"
begin

lemma receive_all:
  assumes "rx (os g) = bs @ rest" and "length bs = unat n"
  shows "\<exists>g'. lk_ReceiveBytes L n g = (True, bs, 0, g') \<and> only_port g g' \<and> rx (os g') = rest"
proof -
  obtain ok bs' n' g' where r: "lk_ReceiveBytes L n g = (ok, bs', n', g')"
    by (metis surj_pair)
  have ok using delivers [of n g] assms r by simp
  with receive_law [OF r] receive_complete [of n g bs' n' g'] r
  have "length bs' = unat n" "rx (os g) = bs' @ rx (os g')" "only_port g g'" "n' = 0" by auto
  with assms r \<open>ok\<close> show ?thesis by auto
qed

lemma step_Initialize:
  "m_rxState m = ReceiveState_Initialize \<Longrightarrow>
     WP_Message_Process L m g = WP_Message_Process L (process_Initialize m) g"
  by (rule WP_Message_Process_Continue) (simp add: WP_Message_step_def)

lemma step_Waiting:
  assumes "m_rxState m = ReceiveState_WaitingForHeader" "m_pos m = PosHeader 0" "m_size m = 32"
    and "wf_packet (m_header m)" "wf_packet p"
    and "m_signature p \<in> {MARKER_DEBUGGER_V1, MARKER_PACKET_V1}"
    and "rx (os g) = packet_bytes p @ rest"
  shows "\<exists>g'. WP_Message_Process L m g =
      WP_Message_Process L (m\<lparr>m_header := p, m_size := 0, m_rxState := ReceiveState_ReadingHeader\<rparr>) g' \<and>
      only_port g g' \<and> rx (os g') = rest"
proof -
  obtain g' where r: "lk_ReceiveBytes L 32 g = (True, packet_bytes p, 0, g')" "only_port g g'" "rx (os g') = rest"
    using receive_all [OF assms(7), of 32] assms(5) by auto
  have "take 8 (packet_bytes p) = m_signature p" using assms(5) by (simp add: packet_bytes_def wf_packet_def)
  then have "in_sync (packet_bytes p) 8" using assms(6) by (auto simp: in_sync_def)
  then have "synch_loop (packet_bytes p) (PosHeader 0) 0 = Ret (packet_bytes p, PosHeader 0, 0, 32)"
    by (subst synch_loop.simps) (simp add: Let_def)
  with r assms have "WP_Message_step L m g =
      Inr (Continue (m\<lparr>m_header := p, m_size := 0, m_rxState := ReceiveState_ReadingHeader\<rparr>) g')"
    by (simp add: WP_Message_step_def process_WaitingForHeader_def receive_at_pos_def store_at_pos.simps
        store_bytes_all Let_def)
       (metis length_0_conv length_packet_bytes zero_neq_numeral)
  from WP_Message_Process_Continue [OF this] r show ?thesis by blast
qed

lemma step_ReadingHeader_done:
  assumes "m_rxState m = ReceiveState_ReadingHeader" "m_size m = 0"
  shows "\<exists>g'. WP_Message_Process L m g = WP_Message_Process L (m\<lparr>m_rxState := ReceiveState_CompleteHeader\<rparr>) g' \<and>
      only_port g g' \<and> rx (os g') = rx (os g)"
proof -
  obtain g' where r: "lk_ReceiveBytes L 0 g = (True, [], 0, g')" "only_port g g'" "rx (os g') = rx (os g)"
    using receive_all [of g "[]" "rx (os g)" 0] by auto
  with assms have "WP_Message_step L m g = Inr (Continue (m\<lparr>m_rxState := ReceiveState_CompleteHeader\<rparr>) g')"
    by (simp add: WP_Message_step_def process_ReadingHeader_def receive_at_pos_def store_at_pos.simps)
  from WP_Message_Process_Continue [OF this] r show ?thesis by blast
qed

text \<open>With the booter's \<open>WP_App_ProcessHeader\<close> the payload goes to the start of the reception buffer.\<close>

lemma step_payload:
  assumes "lk_ProcessHeader L = WP_App_ProcessHeader_Booter"
    and "m_rxState m = ReceiveState_CompleteHeader"
    and "unat (m_hsize (m_header m)) = length payload" "0 < length payload" "length payload \<le> 1056"
    and "length (receptionBuffer g) = 1056" and "rx (os g) = payload @ rest"
  shows "\<exists>m' g'. WP_Message_Process L m g = WP_Message_Process L m' g' \<and>
      m_rxState m' = ReceiveState_CompletePayload \<and> m_header m' = (m_header m)\<lparr>m_crcHeader := 0\<rparr> \<and>
      m_payload m' = PayloadReceptionBuffer \<and>
      receptionBuffer g' = payload @ drop (length payload) (receptionBuffer g) \<and> rx (os g') = rest \<and>
      wp_state.more g' = wp_state.more g \<and> lastOutboundMessage g' = lastOutboundMessage g"
proof -
  let ?p = "(m_header m)\<lparr>m_crcHeader := 0\<rparr>"
  obtain t1 g1 where c1: "lk_CurrentSysTicks L g = (t1, g1)" by (cases "lk_CurrentSysTicks L g")
  obtain t2 g2 where c2: "lk_CurrentSysTicks L g1 = (t2, g2)" by (cases "lk_CurrentSysTicks L g1")
  have sz: "unat (ucast (m_hsize (m_header m)) :: u16) = length payload"
    using assms(3,5) by (simp add: unsigned_ucast_eq take_bit_nat_eq_self)
  have nz: "m_hsize (m_header m) \<noteq> 0" using assms(3,4) by auto
  let ?m1 = "m\<lparr>m_header := ?p, m_payload := PayloadReceptionBuffer, m_payloadTicks := t1,
      m_rxState := ReceiveState_ReadingPayload, m_pos := PosPayload PayloadReceptionBuffer 0,
      m_size := ucast (m_hsize (m_header m))\<rparr>"
  have s1: "WP_Message_Process L m g = WP_Message_Process L ?m1 g1"
    using assms nz c1 no_crc
    by (intro WP_Message_Process_Continue)
       (simp add: WP_Message_step_def process_CompleteHeader_def WP_App_ProcessHeader_Booter_def)
  have "rx (os g2) = payload @ rest" using clock_only [OF c1] clock_only [OF c2] assms(7) by simp
  from receive_all [OF this sz [symmetric]] obtain g3 where
    r: "lk_ReceiveBytes L (ucast (m_hsize (m_header m))) g2 = (True, payload, 0, g3)"
    and g3: "only_port g2 g3" "rx (os g3) = rest" by blast
  have port: "only_port g g3"
    using clock_only [OF c1] clock_only [OF c2] g3 only_port_trans by blast
  let ?b = "payload @ drop (length payload) (receptionBuffer g)"
  let ?m2 = "?m1\<lparr>m_payloadTicks := t2, m_size := 0, m_rxState := ReceiveState_CompletePayload\<rparr>"
  have buf: "receptionBuffer g3 = receptionBuffer g" using only_port_simps [OF port] by simp
  have ne: "payload \<noteq> []" using assms(4) by auto
  have "store_bytes (receptionBuffer g) 0 payload = Ret ?b"
    using assms(5,6) ne by (simp add: store_bytes_def)
  then have "receive_at_pos L (?m1\<lparr>m_payloadTicks := t2\<rparr>) g2 =
      Ret (True, ?m1\<lparr>m_payloadTicks := t2, m_size := 0\<rparr>, g3\<lparr>receptionBuffer := ?b\<rparr>)"
    using r ne by (simp add: receive_at_pos_def store_at_pos.simps buf)
  then have "WP_Message_Process L ?m1 g1 = WP_Message_Process L ?m2 (g3\<lparr>receptionBuffer := ?b\<rparr>)"
    using c2 clock_close [OF c1 c2]
    by (intro WP_Message_Process_Continue) (simp add: WP_Message_step_def process_ReadingPayload_def)
  with s1 have "WP_Message_Process L m g = WP_Message_Process L ?m2 (g3\<lparr>receptionBuffer := ?b\<rparr>)" by simp
  then show ?thesis
    using g3 only_port_simps [OF port]
    by (intro exI [of _ ?m2] exI [of _ "g3\<lparr>receptionBuffer := ?b\<rparr>"]) simp
qed

lemma step_no_payload:
  assumes "lk_ProcessHeader L = WP_App_ProcessHeader_Booter"
    and "m_rxState m = ReceiveState_CompleteHeader" and "m_hsize (m_header m) = 0"
  shows "WP_Message_Process L m g = WP_Message_Process L (m\<lparr>m_header := (m_header m)\<lparr>m_crcHeader := 0\<rparr>,
      m_payload := PayloadReceptionBuffer, m_rxState := ReceiveState_CompletePayload\<rparr>) g"
  using assms no_crc
  by (intro WP_Message_Process_Continue)
     (simp add: WP_Message_step_def process_CompleteHeader_def WP_App_ProcessHeader_Booter_def)

lemma step_CompletePayload:
  assumes "m_rxState m = ReceiveState_CompletePayload" "m_payload m = PayloadReceptionBuffer"
  shows "WP_Message_Process L m g =
    (case lk_ProcessPayload L m g of Inl e \<Rightarrow> Some (Inl e)
     | Inr r \<Rightarrow> WP_Message_Process L ((fst r)\<lparr>m_rxState := ReceiveState_Initialize\<rparr>) (snd r))"
  using assms no_crc
  by (subst WP_Message_Process.simps)
     (auto simp: WP_Message_step_def process_CompletePayload_def WP_Message_VerifyPayload_def split: sum.splits)

lemma frame_reaches_payload:
  assumes "lk_ProcessHeader L = WP_App_ProcessHeader_Booter"
    and "m_rxState m = ReceiveState_Initialize" and "wf_packet (m_header m)"
    and "wf_packet p" and "m_signature p \<in> {MARKER_DEBUGGER_V1, MARKER_PACKET_V1}"
    and "unat (m_hsize p) = length payload" "length payload \<le> 1056"
    and "length (receptionBuffer g) = 1056" and "rx (os g) = packet_bytes p @ payload @ rest"
  shows "\<exists>m' g'. WP_Message_Process L m g = WP_Message_Process L m' g' \<and>
      m_rxState m' = ReceiveState_CompletePayload \<and> m_header m' = p\<lparr>m_crcHeader := 0\<rparr> \<and>
      m_payload m' = PayloadReceptionBuffer \<and>
      receptionBuffer g' = payload @ drop (length payload) (receptionBuffer g) \<and> rx (os g') = rest \<and>
      wp_state.more g' = wp_state.more g \<and> lastOutboundMessage g' = lastOutboundMessage g"
proof -
  let ?m0 = "process_Initialize m"
  let ?m1 = "?m0\<lparr>m_header := p, m_size := 0, m_rxState := ReceiveState_ReadingHeader\<rparr>"
  let ?m2 = "?m1\<lparr>m_rxState := ReceiveState_CompleteHeader\<rparr>"
  obtain g1 where g1: "WP_Message_Process L ?m0 g = WP_Message_Process L ?m1 g1"
    "only_port g g1" "rx (os g1) = payload @ rest"
    using step_Waiting [of ?m0 p g "payload @ rest"] assms by auto
  obtain g2 where g2: "WP_Message_Process L ?m1 g1 = WP_Message_Process L ?m2 g2"
    "only_port g1 g2" "rx (os g2) = payload @ rest"
    using step_ReadingHeader_done [of ?m1 g1] g1(3) by auto
  have start: "WP_Message_Process L m g = WP_Message_Process L ?m2 g2"
    using step_Initialize [OF assms(2)] g1(1) g2(1) by simp
  have same: "receptionBuffer g2 = receptionBuffer g" "wp_state.more g2 = wp_state.more g"
    "lastOutboundMessage g2 = lastOutboundMessage g"
    using only_port_simps [OF only_port_trans [OF g1(2) g2(2)]] by simp_all
  show ?thesis
  proof (cases "payload = []")
    case True
    then have "m_hsize p = 0" using assms(6) by (simp add: unat_eq_0)
    then show ?thesis using step_no_payload [OF assms(1), of ?m2 g2] start same g2(3) True
      by (intro exI [of _ "?m2\<lparr>m_header := p\<lparr>m_crcHeader := 0\<rparr>, m_payload := PayloadReceptionBuffer,
            m_rxState := ReceiveState_CompletePayload\<rparr>"] exI [of _ g2]) simp
  next
    case False
    then show ?thesis using step_payload [OF assms(1), of ?m2 payload g2 rest] assms(6-8) start same g2(3)
      by simp
  qed
qed

end

section \<open>Payloads stay inside the reception buffer\<close>

text \<open>The receiver as a transition system: one turn of its loop that goes round again.\<close>

inductive rx_turn :: "('o, 'z) wp_link \<Rightarrow> WP_Message \<times> ('o, 'z) wp_state_scheme \<Rightarrow>
    WP_Message \<times> ('o, 'z) wp_state_scheme \<Rightarrow> bool" for L where
  turn: "WP_Message_step L m g = Inr (Continue m' g') \<Longrightarrow> rx_turn L (m, g) (m', g')"

inductive_simps rx_turn_iff [simp]: "rx_turn L (m, g) (m', g')"

definition payload_in_buffer :: "WP_Message \<times> ('o, 'z) wp_state_scheme \<Rightarrow> bool" where
  "payload_in_buffer mg \<longleftrightarrow> (case mg of (m, g) \<Rightarrow> length (receptionBuffer g) = sizeof_receptionBuffer \<and>
     (m_rxState m = ReceiveState_ReadingPayload \<longrightarrow>
        m_pos m = PosPayload PayloadReceptionBuffer 0 \<and> unat (m_size m) \<le> sizeof_receptionBuffer))"

lemma store_at_pos_buffer:
  "store_at_pos m bs g = Inr (m', g') \<Longrightarrow> length (receptionBuffer g') = length (receptionBuffer g)"
  by (auto simp: store_at_pos.simps c_bind_Inr_iff dest: store_bytes_length
      split: if_splits pos_ptr.splits payload_ptr.splits)

text \<open>The application of the booter as the receiver sees it.\<close>

locale booter_link =
  wp_transport "lk_ReceiveBytes L" "lk_TransmitMessage L" rx tx
  for L :: "('o, 'z) wp_link" and rx tx :: "'o \<Rightarrow> u8 list" +
  assumes header: "lk_ProcessHeader L = WP_App_ProcessHeader_Booter"
    and payload_keeps: "lk_ProcessPayload L m g = Inr (m', g') \<Longrightarrow>
      length (receptionBuffer g') = length (receptionBuffer g)"
    and clock_keeps: "lk_CurrentSysTicks L g = (t, g') \<Longrightarrow> only_port g g'"
begin

lemma receive_at_pos_buffer:
  assumes "receive_at_pos L m g = Inr (ok, m', g')"
  shows "length (receptionBuffer g') = length (receptionBuffer g)"
proof -
  obtain bs sz g1 m1 where r: "lk_ReceiveBytes L (m_size m) g = (ok, bs, sz, g1)"
    and s: "store_at_pos m bs g1 = Inr (m1, g')"
    using assms by (auto simp: receive_at_pos_def c_bind_Inr_iff split: prod.splits)
  have "receptionBuffer g1 = receptionBuffer g" using receive_law [OF r] only_port_simps by blast
  with store_at_pos_buffer [OF s] show ?thesis by simp
qed

lemma ReplyBadPacket_buffer:
  assumes "WP_Message_ReplyBadPacket c (lk_TransmitMessage L) f g = Inr g'"
  shows "receptionBuffer g' = receptionBuffer g"
proof -
  obtain m1 g1 ok where p: "WP_Message_PrepareRequest c (WP_Message_Initialize local_message) 0
        (WP_Flags_c_NonCritical OR WP_Flags_c_NACK OR f) 0 PayloadNull g = Inr (m1, g1)"
    and t: "lk_TransmitMessage L m1 g1 = Inr (ok, g')"
    using assms by (auto simp: WP_Message_ReplyBadPacket_def c_bind_Inr_iff)
  have "receptionBuffer g1 = receptionBuffer g"
    using p by (auto simp: WP_Message_PrepareRequest_def Let_def c_bind_Inr_iff)
  with transmit_law [OF t] only_port_simps show ?thesis by metis
qed

lemma header_turn:
  assumes "process_CompleteHeader L m g = Inr (Continue m' g')"
  shows "length (receptionBuffer g') = length (receptionBuffer g) \<and>
    (m_rxState m' = ReceiveState_ReadingPayload \<longrightarrow>
       m_pos m' = PosPayload PayloadReceptionBuffer 0 \<and> unat (m_size m') \<le> 1056)"
proof -
  obtain ok m1 where v: "WP_Message_VerifyHeader (lk_crc32 L) m = (ok, m1)"
    by (cases "WP_Message_VerifyHeader (lk_crc32 L) m")
  obtain t g1 where c: "lk_CurrentSysTicks L g = (t, g1)" by (cases "lk_CurrentSysTicks L g")
  have g1: "receptionBuffer g1 = receptionBuffer g" using only_port_simps [OF clock_keeps [OF c]] by simp
  show ?thesis
  proof (cases "ok \<and> unat (m_hsize (m_header m1)) \<le> 1056 \<and> m_hsize (m_header m1) \<noteq> 0")
    case True
    moreover have "unat (ucast (m_hsize (m_header m1)) :: u16) \<le> 1056"
      using True by (simp add: unsigned_ucast_eq take_bit_nat_eq_self)
    ultimately show ?thesis using assms v c g1
      by (auto simp: process_CompleteHeader_def header WP_App_ProcessHeader_Booter_def)
  next
    case False
    then have "m_rxState m' \<noteq> ReceiveState_ReadingPayload" and "receptionBuffer g' = receptionBuffer g"
      using assms v ReplyBadPacket_buffer
      by (auto simp: process_CompleteHeader_def reject_header_def header WP_App_ProcessHeader_Booter_def
          c_bind_Inr_iff not_less split: if_splits)
    then show ?thesis by simp
  qed
qed

lemma payload_turn_stays:
  assumes "process_ReadingPayload L m g = Inr (Continue m' g')"
  shows "length (receptionBuffer g') = length (receptionBuffer g) \<and>
    m_rxState m' \<noteq> ReceiveState_ReadingPayload"
proof -
  obtain t g1 where c: "lk_CurrentSysTicks L g = (t, g1)" by (cases "lk_CurrentSysTicks L g")
  have g1: "receptionBuffer g1 = receptionBuffer g" using only_port_simps [OF clock_keeps [OF c]] by simp
  have "ok \<Longrightarrow> m_size m1 = 0" if "receive_at_pos L m0 g0 = Inr (ok, m1, g2)" for m0 g0 ok m1 g2
    using that receive_complete by (auto simp: receive_at_pos_def c_bind_Inr_iff split: prod.splits)
  then show ?thesis using assms c g1 receive_at_pos_buffer
    by (fastforce simp: process_ReadingPayload_def c_bind_Inr_iff split: if_splits)
qed

lemma invariant_turn:
  assumes "rx_turn L (m, g) (m', g')" and "payload_in_buffer (m, g)"
  shows "payload_in_buffer (m', g')"
proof -
  have step: "WP_Message_step L m g = Inr (Continue m' g')" using assms(1) by simp
  have len: "length (receptionBuffer g) = 1056" using assms(2) by (simp add: payload_in_buffer_def)
  have "length (receptionBuffer g') = 1056 \<and> (m_rxState m' = ReceiveState_ReadingPayload \<longrightarrow>
       m_pos m' = PosPayload PayloadReceptionBuffer 0 \<and> unat (m_size m') \<le> 1056)"
  proof (cases "m_rxState m")
    case ReceiveState_WaitingForHeader
    then obtain m1 where r: "receive_at_pos L m g = Inr (True, m1, g')" and m': "m_rxState m' \<in> {m_rxState m1, ReceiveState_ReadingHeader}"
      using step by (auto simp: WP_Message_step_def process_WaitingForHeader_def c_bind_Inr_iff Let_def split: if_splits)
    have "m_rxState m1 = m_rxState m"
      using r store_at_pos_os by (fastforce simp: receive_at_pos_def c_bind_Inr_iff split: prod.splits)
    then show ?thesis using receive_at_pos_buffer [OF r] m' ReceiveState_WaitingForHeader len by auto
  next
    case ReceiveState_ReadingHeader
    then obtain m1 where r: "receive_at_pos L m g = Inr (True, m1, g')" and m': "m_rxState m' \<in> {m_rxState m1, ReceiveState_CompleteHeader}"
      using step by (auto simp: WP_Message_step_def process_ReadingHeader_def c_bind_Inr_iff split: if_splits)
    have "m_rxState m1 = m_rxState m"
      using r store_at_pos_os by (fastforce simp: receive_at_pos_def c_bind_Inr_iff split: prod.splits)
    then show ?thesis using receive_at_pos_buffer [OF r] m' ReceiveState_ReadingHeader len by auto
  next
    case ReceiveState_CompleteHeader
    then show ?thesis using step header_turn len by (simp add: WP_Message_step_def)
  next
    case ReceiveState_ReadingPayload
    then show ?thesis using step payload_turn_stays len by (simp add: WP_Message_step_def)
  next
    case ReceiveState_CompletePayload
    then show ?thesis using step len payload_keeps ReplyBadPacket_buffer
      by (auto simp: WP_Message_step_def process_CompletePayload_def c_bind_Inr_iff split: if_splits)
  qed (use step len in \<open>auto simp: WP_Message_step_def\<close>)
  then show ?thesis by (simp add: payload_in_buffer_def)
qed

lemma invariant_reachable:
  "(rx_turn L)\<^sup>*\<^sup>* mg mg' \<Longrightarrow> payload_in_buffer mg \<Longrightarrow> payload_in_buffer mg'"
proof (induction rule: rtranclp_induct)
  case (step y z)
  then show ?case by (cases y; cases z) (use invariant_turn in blast)
qed

lemma payload_turn_safe:
  assumes "payload_in_buffer (m, g)" and "m_rxState m = ReceiveState_ReadingPayload"
  shows "\<exists>s. WP_Message_step L m g = Inr s"
proof -
  obtain t g1 where c: "lk_CurrentSysTicks L g = (t, g1)" by (cases "lk_CurrentSysTicks L g")
  let ?m = "m\<lparr>m_payloadTicks := t\<rparr>"
  obtain ok bs n g2 where r: "lk_ReceiveBytes L (m_size m) g1 = (ok, bs, n, g2)" by (metis surj_pair)
  have "only_port g g2" using receive_law [OF r] clock_keeps [OF c] only_port_trans by blast
  then have buf: "length (receptionBuffer g2) = 1056"
    using only_port_simps assms(1) by (fastforce simp: payload_in_buffer_def)
  have "length bs \<le> 1056" using receive_law [OF r] assms by (simp add: payload_in_buffer_def)
  then have "\<exists>b. store_bytes (receptionBuffer g2) 0 bs = Inr b" using buf by (simp add: store_bytes_def)
  then obtain b where "store_bytes (receptionBuffer g2) 0 bs = Inr b" ..
  then have "\<exists>q. receive_at_pos L ?m g1 = Inr q"
    using r assms by (auto simp: receive_at_pos_def store_at_pos.simps payload_in_buffer_def)
  then show ?thesis using assms(2) c
    by (auto simp: WP_Message_step_def process_ReadingPayload_def)
qed

end

end
