(* ===== verification/NF_FlashController.thy ===== *)
theory NF_FlashController
  imports NF_FlashSTM32
begin

text \<open>
  What the flash driver of the F4 and F7 series achieves over a controller that behaves as the
  reference manual documents it: the locale \<open>flash_controller\<close>. Its ghost view \<open>perr\<close> says that an
  operation has failed (the error flag shows once the controller is idle), \<open>in_sector n a\<close> that the
  address belongs to the sector whose number the SNB field names as \<open>n\<close>.
\<close>

section \<open>Programming clears bits\<close>

fun program :: "memory \<Rightarrow> u32 \<Rightarrow> u8 list \<Rightarrow> memory" where
  "program mem a [] = mem"
| "program mem a (b # bs) = program (mem(a := mem a AND b)) (a + 1) bs"

lemma program_append:
  "program mem a (xs @ ys) = program (program mem a xs) (a + of_nat (length xs)) ys"
  by (induction xs arbitrary: mem a) (simp_all add: ac_simps)

lemma program_elsewhere:
  assumes "unat a + length bs \<le> 2 ^ 32" and "unat x < unat a \<or> unat a + length bs \<le> unat x"
  shows "program mem a bs x = mem x"
  using assms
proof (induction bs arbitrary: mem a)
  case (Cons b bs)
  show ?case
  proof (cases "bs = []")
    case True
    with Cons.prems show ?thesis by auto
  next
    case False
    then have "unat a + 1 < 2 ^ 32" using Cons.prems by (cases bs) auto
    then have a1: "unat (a + 1) = unat a + 1" by (simp add: unat_add_lem [THEN iffD1])
    have "program (mem(a := mem a AND b)) (a + 1) bs x = (mem(a := mem a AND b)) x"
      by (rule Cons.IH) (use Cons.prems a1 in auto)
    then show ?thesis using Cons.prems by auto
  qed
qed simp

lemma program_inside:
  assumes "unat a + length bs \<le> 2 ^ 32" and "i < length bs"
  shows "program mem a bs (a + of_nat i) = mem (a + of_nat i) AND bs ! i"
  using assms
proof (induction bs arbitrary: mem a i)
  case (Cons b bs)
  show ?case
  proof (cases "bs = []")
    case True
    with Cons.prems show ?thesis by simp
  next
    case False
    then have "unat a + 1 < 2 ^ 32" using Cons.prems by (cases bs) auto
    then have a1: "unat (a + 1) = unat a + 1" by (simp add: unat_add_lem [THEN iffD1])
    show ?thesis
    proof (cases i)
      case 0
      have "program (mem(a := mem a AND b)) (a + 1) bs a = (mem(a := mem a AND b)) a"
        by (rule program_elsewhere) (use Cons.prems a1 in auto)
      then show ?thesis using 0 by simp
    next
      case (Suc k)
      have "unat (of_nat i :: u32) = i" using Cons.prems by (simp add: unat_of_nat)
      then have "a + of_nat i \<noteq> a" using Suc by auto
      have "program (mem(a := mem a AND b)) (a + 1) bs (a + 1 + of_nat k) =
          (mem(a := mem a AND b)) (a + 1 + of_nat k) AND bs ! k"
        by (rule Cons.IH) (use Cons.prems a1 Suc in auto)
      with Suc \<open>a + of_nat i \<noteq> a\<close> show ?thesis by (simp add: add.assoc)
    qed
  qed
qed simp

section \<open>The controller\<close>

lemma strt_split: "x AND FLASH_CR_STRT = 0 \<Longrightarrow> x AND NOT FLASH_CR_STRT = x"
  by (rule bit_word_eqI) (auto simp: bit_eq_iff bit_simps)

locale flash_controller =
  fixes fb :: "'h flash_bus" and perr :: "'h \<Rightarrow> bool" and in_sector :: "u32 \<Rightarrow> u32 \<Rightarrow> bool"
  assumes set_law: "get_SR fb h AND FLASH_SR_BSY = 0 \<Longrightarrow> get_CR fb h AND FLASH_CR_LOCK = 0 \<Longrightarrow>
      v AND FLASH_CR_STRT = 0 \<Longrightarrow>
      get_CR fb (set_CR fb v h) = v \<and> get_SR fb (set_CR fb v h) = get_SR fb h \<and>
      load8 fb (set_CR fb v h) = load8 fb h"
    and key_law: "get_SR fb h AND FLASH_SR_BSY = 0 \<Longrightarrow> get_CR fb h AND FLASH_CR_LOCK \<noteq> 0 \<Longrightarrow>
      get_CR fb (write_KEYR fb FLASH_KEY2 (write_KEYR fb FLASH_KEY1 h)) = get_CR fb h AND NOT FLASH_CR_LOCK \<and>
      get_SR fb (write_KEYR fb FLASH_KEY2 (write_KEYR fb FLASH_KEY1 h)) = get_SR fb h \<and>
      load8 fb (write_KEYR fb FLASH_KEY2 (write_KEYR fb FLASH_KEY1 h)) = load8 fb h"
    and sr_law: "get_CR fb (set_SR fb v h) = get_CR fb h \<and> load8 fb (set_SR fb v h) = load8 fb h \<and>
      get_SR fb (set_SR fb v h) AND FLASH_SR_BSY = get_SR fb h AND FLASH_SR_BSY"
    and poll_law: "load8 fb (bus_poll fb h) = load8 fb h \<and> perr (bus_poll fb h) = perr h \<and>
      get_CR fb (bus_poll fb h) AND NOT FLASH_CR_STRT = get_CR fb h AND NOT FLASH_CR_STRT"
    and idle_law: "get_SR fb h AND FLASH_SR_BSY = 0 \<Longrightarrow>
      get_CR fb h AND FLASH_CR_STRT = 0 \<and> (perr h \<longrightarrow> get_SR fb h AND FLASH_FLAG_ALL_ERRORS fb \<noteq> 0)"
    and store16_law: "get_SR fb h AND FLASH_SR_BSY = 0 \<Longrightarrow> get_CR fb h AND FLASH_CR_LOCK = 0 \<Longrightarrow>
      get_CR fb h AND FLASH_CR_PG \<noteq> 0 \<Longrightarrow> get_CR fb h AND FLASH_CR_PSIZE = FLASH_PSIZE_HALF_WORD \<Longrightarrow>
      get_CR fb (store16 fb a w h) = get_CR fb h \<and>
      (\<not> perr (store16 fb a w h) \<longrightarrow> load8 fb (store16 fb a w h) = program (load8 fb h) a (bytes_of_u16 w))"
    and store8_law: "get_SR fb h AND FLASH_SR_BSY = 0 \<Longrightarrow> get_CR fb h AND FLASH_CR_LOCK = 0 \<Longrightarrow>
      get_CR fb h AND FLASH_CR_PG \<noteq> 0 \<Longrightarrow> get_CR fb h AND FLASH_CR_PSIZE = FLASH_PSIZE_BYTE \<Longrightarrow>
      get_CR fb (store8 fb a b h) = get_CR fb h \<and>
      (\<not> perr (store8 fb a b h) \<longrightarrow> load8 fb (store8 fb a b h) = program (load8 fb h) a [b])"
    and erase_law: "get_SR fb h AND FLASH_SR_BSY = 0 \<Longrightarrow> get_CR fb h AND FLASH_CR_LOCK = 0 \<Longrightarrow>
      get_CR fb h AND FLASH_CR_SER \<noteq> 0 \<Longrightarrow>
      get_CR fb (set_CR fb (get_CR fb h OR FLASH_CR_STRT) h) AND NOT FLASH_CR_STRT = get_CR fb h \<and>
      (\<not> perr (set_CR fb (get_CR fb h OR FLASH_CR_STRT) h) \<longrightarrow>
         load8 fb (set_CR fb (get_CR fb h OR FLASH_CR_STRT) h) =
         (\<lambda>x. if in_sector (drop_bit 3 (get_CR fb h AND FLASH_CR_SNB)) x then 0xFF else load8 fb h x))"
    and cache_law: "load8 fb (instruction_cache_flush fb h) = load8 fb h \<and>
      get_CR fb (instruction_cache_flush fb h) = get_CR fb h \<and>
      get_SR fb (instruction_cache_flush fb h) = get_SR fb h \<and>
      load8 fb (data_cache_flush fb h) = load8 fb h \<and>
      get_CR fb (data_cache_flush fb h) = get_CR fb h \<and> get_SR fb (data_cache_flush fb h) = get_SR fb h"
begin

definition ready :: "'h \<Rightarrow> bool" where
  "ready h \<longleftrightarrow> get_SR fb h AND FLASH_SR_BSY = 0 \<and> get_CR fb h AND FLASH_CR_LOCK = 0"

lemma ready_set:
  assumes "ready h" "v AND FLASH_CR_STRT = 0" "v AND FLASH_CR_LOCK = 0"
  shows "ready (set_CR fb v h)" "get_CR fb (set_CR fb v h) = v" "load8 fb (set_CR fb v h) = load8 fb h"
  using assms set_law [of h v] by (auto simp: ready_def)

lemma ready_cr: "ready h \<Longrightarrow> get_CR fb h AND FLASH_CR_STRT = 0 \<and> get_CR fb h AND FLASH_CR_LOCK = 0"
  using idle_law by (simp add: ready_def)

text \<open>Waiting keeps the memory; when it succeeds the controller is idle and the operation went well.\<close>

lemma wait_loop_props:
  assumes "wait_loop fb start stop h = Some (idle, h')"
  shows "load8 fb h' = load8 fb h \<and> perr h' = perr h \<and>
     get_CR fb h' AND NOT FLASH_CR_STRT = get_CR fb h AND NOT FLASH_CR_STRT \<and>
     (idle \<longrightarrow> get_SR fb h' AND FLASH_SR_BSY = 0)"
proof -
  have "case r of (idle, h') \<Rightarrow> load8 fb' h' = load8 fb' h \<and> perr h' = perr h \<and>
     get_CR fb' h' AND NOT FLASH_CR_STRT = get_CR fb' h AND NOT FLASH_CR_STRT \<and>
     (idle \<longrightarrow> get_SR fb' h' AND FLASH_SR_BSY = 0)"
    if "wait_loop fb' start stop h = Some r" and "fb' = fb" for fb' start stop h r
    using that
  proof (induction rule: wait_loop.raw_induct [rotated, consumes 1, case_names body])
    case (body loop fb' start stop h r)
    then show ?case using poll_law [of h]
      by (auto split: if_splits prod.splits)
  qed
  from this [OF assms refl] show ?thesis by simp
qed

lemma wait_succeeds:
  assumes "FLASH_WaitForLastOperation fb timeout h = Some (True, h')"
  shows "\<not> perr h" "load8 fb h' = load8 fb h" "get_SR fb h' AND FLASH_SR_BSY = 0"
    "get_CR fb h' = get_CR fb h AND NOT FLASH_CR_STRT"
proof -
  let ?s = "system_time fb h" and ?e = "system_time fb h + TIME_MS2I fb timeout"
  obtain h1 where loop: "wait_loop fb ?s ?e h = Some (True, h1)"
    and ok: "get_SR fb h1 AND FLASH_FLAG_ALL_ERRORS fb = 0"
    and h': "h' = (if get_SR fb h1 AND FLASH_SR_EOP \<noteq> 0 then set_SR fb FLASH_SR_EOP h1 else h1)"
    using assms by (auto simp: FLASH_WaitForLastOperation_def Let_def split: if_splits)
  note p = wait_loop_props [OF loop]
  have idle: "get_SR fb h1 AND FLASH_SR_BSY = 0" using p by simp
  have sr: "load8 fb h' = load8 fb h1" "get_SR fb h' AND FLASH_SR_BSY = 0" "get_CR fb h' = get_CR fb h1"
    using sr_law [of FLASH_SR_EOP h1] idle by (simp_all add: h')
  show "\<not> perr h" "load8 fb h' = load8 fb h" "get_SR fb h' AND FLASH_SR_BSY = 0"
    using p sr ok idle_law [OF idle] by auto
  show "get_CR fb h' = get_CR fb h AND NOT FLASH_CR_STRT"
    using p sr idle_law [OF idle] strt_split by simp
qed

lemma unlock_ready:
  assumes "get_SR fb h AND FLASH_SR_BSY = 0" "HAL_FLASH_Unlock fb h = (True, h')"
  shows "ready (set_SR fb v h')" "load8 fb (set_SR fb v h') = load8 fb h"
proof -
  have lock: "get_CR fb h AND FLASH_CR_LOCK \<noteq> 0"
    and h': "h' = write_KEYR fb FLASH_KEY2 (write_KEYR fb FLASH_KEY1 h)"
    using assms(2) by (auto simp: HAL_FLASH_Unlock_def split: if_splits)
  have "(get_CR fb h AND NOT FLASH_CR_LOCK) AND FLASH_CR_LOCK = 0"
    by (simp add: and.assoc flash_bits)
  then show "ready (set_SR fb v h')" "load8 fb (set_SR fb v h') = load8 fb h"
    using key_law [OF assms(1) lock] sr_law [of v h'] assms(1) by (simp_all add: ready_def h')
qed

text \<open>One unit of the write loop.\<close>

lemma cr_program_bits:
  fixes c :: u32
  assumes "c AND FLASH_CR_STRT = 0" "c AND FLASH_CR_LOCK = 0" and "p = FLASH_PSIZE_HALF_WORD \<or> p = FLASH_PSIZE_BYTE"
  shows "(c AND CR_PSIZE_MASK) AND FLASH_CR_STRT = 0" "(c AND CR_PSIZE_MASK) AND FLASH_CR_LOCK = 0"
    "((c AND CR_PSIZE_MASK) OR p) AND FLASH_CR_STRT = 0" "((c AND CR_PSIZE_MASK) OR p) AND FLASH_CR_LOCK = 0"
    "((c AND CR_PSIZE_MASK) OR p OR FLASH_CR_PG) AND FLASH_CR_STRT = 0"
    "((c AND CR_PSIZE_MASK) OR p OR FLASH_CR_PG) AND FLASH_CR_LOCK = 0"
    "((c AND CR_PSIZE_MASK) OR p OR FLASH_CR_PG) AND FLASH_CR_PG \<noteq> 0"
    "((c AND CR_PSIZE_MASK) OR p OR FLASH_CR_PG) AND FLASH_CR_PSIZE = p"
  using assms
  by (auto simp: flash_bits CR_PSIZE_MASK_def FLASH_PSIZE_HALF_WORD_def FLASH_PSIZE_BYTE_def
      bit.conj_disj_distrib2 and.assoc)

lemma cr_program_ready:
  assumes "ready h" and "p = FLASH_PSIZE_HALF_WORD \<or> p = FLASH_PSIZE_BYTE"
    and "h1 = set_CR fb (get_CR fb h AND CR_PSIZE_MASK) h"
    and "h2 = set_CR fb (get_CR fb h1 OR p) h1"
    and "h3 = set_CR fb (get_CR fb h2 OR FLASH_CR_PG) h2"
  shows "ready h3" "load8 fb h3 = load8 fb h" "get_CR fb h3 AND FLASH_CR_PG \<noteq> 0"
    "get_CR fb h3 AND FLASH_CR_PSIZE = p"
proof -
  note cr = ready_cr [OF assms(1)]
  note bits = cr_program_bits [OF conjunct1 [OF cr] conjunct2 [OF cr] assms(2)]
  have h1: "ready h1" "get_CR fb h1 = get_CR fb h AND CR_PSIZE_MASK" "load8 fb h1 = load8 fb h"
    using ready_set [OF assms(1) bits(1,2)] by (simp_all add: assms(3))
  have h2: "ready h2" "get_CR fb h2 = (get_CR fb h AND CR_PSIZE_MASK) OR p" "load8 fb h2 = load8 fb h"
    using ready_set [OF h1(1)] bits(3,4) h1(2,3) by (simp_all add: assms(4))
  have h3: "ready h3" "get_CR fb h3 = (get_CR fb h AND CR_PSIZE_MASK) OR p OR FLASH_CR_PG"
    "load8 fb h3 = load8 fb h"
    using ready_set [OF h2(1)] bits(5,6) h2(2,3) by (simp_all add: assms(5) or.assoc)
  then show "ready h3" "load8 fb h3 = load8 fb h" "get_CR fb h3 AND FLASH_CR_PG \<noteq> 0"
    "get_CR fb h3 AND FLASH_CR_PSIZE = p" using bits(7,8) by simp_all
qed

text \<open>How many bytes one unit programs, and what it does when no error follows.\<close>

definition unit_size :: "u32 \<Rightarrow> u32 \<Rightarrow> nat" where
  "unit_size cursor endAddress = (if 2 \<le> sint (endAddress - cursor) then 2 else 1)"

lemma program_unit_props:
  assumes "ready h" and "unit_size c e \<le> length buf"
  shows "\<exists>h1. program_unit fb c e buf h = Ret (drop (if unit_size c e = 2 then 2 else 0) buf, h1) \<and>
     get_CR fb h1 AND FLASH_CR_STRT = 0 \<and> get_CR fb h1 AND FLASH_CR_LOCK = 0 \<and>
     (\<not> perr h1 \<longrightarrow> load8 fb h1 = program (load8 fb h) c (take (unit_size c e) buf))"
proof (cases "2 \<le> sint (e - c)")
  case True
  let ?h1 = "set_CR fb (get_CR fb h AND CR_PSIZE_MASK) h"
  let ?h2 = "set_CR fb (get_CR fb ?h1 OR FLASH_PSIZE_HALF_WORD) ?h1"
  let ?h3 = "set_CR fb (get_CR fb ?h2 OR FLASH_CR_PG) ?h2"
  note set = cr_program_ready [OF assms(1) disjI1 [OF refl] refl refl refl]
  have len: "2 \<le> length buf" using True assms(2) by (simp add: unit_size_def)
  have "bytes_of_u16 (u16_of_bytes (take 2 buf)) = take 2 buf" using len by (simp add: bytes_of_u16_of_bytes)
  then have "get_CR fb (store16 fb c (u16_of_bytes (take 2 buf)) ?h3) = get_CR fb ?h3 \<and>
      (\<not> perr (store16 fb c (u16_of_bytes (take 2 buf)) ?h3) \<longrightarrow>
         load8 fb (store16 fb c (u16_of_bytes (take 2 buf)) ?h3) = program (load8 fb h) c (take 2 buf))"
    using store16_law [of ?h3 c "u16_of_bytes (take 2 buf)"] set by (simp add: ready_def)
  then show ?thesis using True len ready_cr [OF set(1)]
    by (simp add: program_unit_def Let_def unit_size_def)
next
  case False
  let ?h1 = "set_CR fb (get_CR fb h AND CR_PSIZE_MASK) h"
  let ?h2 = "set_CR fb (get_CR fb ?h1 OR FLASH_PSIZE_BYTE) ?h1"
  let ?h3 = "set_CR fb (get_CR fb ?h2 OR FLASH_CR_PG) ?h2"
  note set = cr_program_ready [OF assms(1) disjI2 [OF refl] refl refl refl]
  obtain b bs where buf: "buf = b # bs" using False assms(2) by (cases buf) (simp_all add: unit_size_def)
  have "get_CR fb (store8 fb c b ?h3) = get_CR fb ?h3 \<and>
      (\<not> perr (store8 fb c b ?h3) \<longrightarrow> load8 fb (store8 fb c b ?h3) = program (load8 fb h) c [b])"
    using store8_law [of ?h3 c b] set by (simp add: ready_def)
  then show ?thesis using False buf ready_cr [OF set(1)]
    by (simp add: program_unit_def Let_def unit_size_def)
qed

lemma write_loop_props:
  assumes "write_loop fb c e buf s h = Some (Ret (True, h'))"
    and "ready h" "unat c \<le> unat e" "unat e < 2 ^ 32 - 1" "unat e - unat c < 2 ^ 31"
    and "unat e - unat c \<le> length buf"
  shows "load8 fb h' = program (load8 fb h) c (take (unat e - unat c) buf) \<and> ready h'"
  using assms
proof (induction "unat e - unat c" arbitrary: c buf s h rule: less_induct)
  case less
  show ?case
  proof (cases "c < e")
    case False
    then have "c = e" using less.prems(3) by (simp add: word_le_nat_alt word_less_nat_alt word_unat_eq_iff)
    moreover have "s \<and> h' = h" using less.prems(1) False by (subst (asm) write_loop.simps) simp
    ultimately show ?thesis using less.prems(2) by simp
  next
    case True
    let ?n = "unat e - unat c" and ?u = "unit_size c e"
    have diff: "unat (e - c) = ?n" using True by (simp add: unat_sub)
    have n: "0 < ?n" using True by (simp add: word_less_nat_alt)
    have "sint (e - c) = int ?n" using sint_u32_small [of "e - c"] less.prems(5) by (simp add: diff)
    then have u: "?u = (if 2 \<le> ?n then 2 else 1)" by (simp add: unit_size_def)
    then have ule: "?u \<le> ?n" using n by auto
    obtain h1 where unit: "program_unit fb c e buf h = Ret (drop (if ?u = 2 then 2 else 0) buf, h1)"
      and cr1: "get_CR fb h1 AND FLASH_CR_STRT = 0" "get_CR fb h1 AND FLASH_CR_LOCK = 0"
      and mem1: "\<not> perr h1 \<longrightarrow> load8 fb h1 = program (load8 fb h) c (take ?u buf)"
      using program_unit_props [OF less.prems(2), of c e buf] ule less.prems(6) by fastforce
    obtain h2 where wait: "FLASH_WaitForLastOperation fb 500 h1 = Some (True, h2)"
      and rec: "write_loop fb (c + 2) e (drop (if ?u = 2 then 2 else 0) buf) True h2 = Some (Ret (True, h'))"
      using less.prems(1) True unit
      by (subst (asm) write_loop.simps) (auto simp: bind_eq_Some_conv split: if_splits)
    note w = wait_succeeds [OF wait]
    have ready2: "ready h2" using w(3,4) cr1 strt_split by (simp add: ready_def)
    have mem2: "load8 fb h2 = program (load8 fb h) c (take ?u buf)" using w mem1 by simp
    have c2: "unat (c + 2) = unat c + 2"
      using n less.prems(3,4) by (subst unat_add_lem [THEN iffD1]) auto
    show ?thesis
    proof (cases "2 \<le> ?n")
      case two: True
      then have "load8 fb h' = program (load8 fb h2) (c + 2) (take (?n - 2) (drop 2 buf)) \<and> ready h'"
        using less.hyps [OF _ rec ready2] less.prems(3-6) c2 u by auto
      moreover have "take ?n buf = take 2 buf @ take (?n - 2) (drop 2 buf)"
        using two by (metis le_add_diff_inverse take_add)
      ultimately show ?thesis using mem2 u two less.prems(6) by (simp add: program_append)
    next
      case one: False
      then have "\<not> c + 2 < e" using c2 n by (simp add: word_less_nat_alt)
      then have "h' = h2" using rec by (subst (asm) write_loop.simps) simp
      moreover have "?n = 1" using one n by simp
      ultimately show ?thesis using mem2 ready2 u by simp
    qed
  qed
qed

lemma write_program:
  assumes "flash_lld_write fb start len buf h = Ret (True, h')"
    and "get_SR fb h AND FLASH_SR_BSY = 0"
    and "unat start + unat len < 2 ^ 32 - 1" "unat len < 2 ^ 31" "unat len \<le> length buf"
  shows "load8 fb h' = program (load8 fb h) start (take (unat len) buf) \<and>
     get_CR fb h' AND FLASH_CR_LOCK \<noteq> 0"
proof -
  obtain hu where unl: "HAL_FLASH_Unlock fb h = (True, hu)"
    using assms(1) by (cases "HAL_FLASH_Unlock fb h") (auto simp: flash_lld_write_def split: if_splits)
  let ?h0 = "set_SR fb (FLASH_FLAG_ALL_ERRORS fb) hu"
  note r0 = unlock_ready [OF assms(2) unl, of "FLASH_FLAG_ALL_ERRORS fb"]
  obtain h1 where loop: "write_loop fb start (start + len) buf False ?h0 = Some (Ret (True, h1))"
    and h': "h' = HAL_FLASH_Lock fb (set_CR fb (get_CR fb h1 AND NOT FLASH_CR_PG) h1)"
    using assms(1) unl by (auto simp: flash_lld_write_def Let_def c_bind_Inr_iff c_run_Inr_iff)
  have e: "unat (start + len) = unat start + unat len"
    using assms(3) by (subst unat_add_lem [THEN iffD1]) auto
  have p: "load8 fb h1 = program (load8 fb h) start (take (unat len) buf)" "ready h1"
    using write_loop_props [OF loop r0(1)] assms(3-5) r0(2) by (simp_all add: e)
  let ?h2 = "set_CR fb (get_CR fb h1 AND NOT FLASH_CR_PG) h1"
  have cr: "(get_CR fb h1 AND NOT FLASH_CR_PG) AND FLASH_CR_STRT = 0"
    "(get_CR fb h1 AND NOT FLASH_CR_PG) AND FLASH_CR_LOCK = 0"
    using ready_cr [OF p(2)] by (simp_all add: and.assoc flash_bits)
  note r2 = ready_set [OF p(2) cr]
  have "(get_CR fb ?h2 OR FLASH_CR_LOCK) AND FLASH_CR_STRT = 0"
    using cr by (simp add: r2 bit.conj_disj_distrib2) (simp add: flash_bits)
  with r2 set_law [of ?h2 "get_CR fb ?h2 OR FLASH_CR_LOCK"]
  have "load8 fb h' = load8 fb ?h2" "get_CR fb h' = get_CR fb ?h2 OR FLASH_CR_LOCK"
    by (simp_all add: h' HAL_FLASH_Lock_def ready_def)
  moreover have "(get_CR fb ?h2 OR FLASH_CR_LOCK) AND FLASH_CR_LOCK \<noteq> 0"
    by (simp add: bit.conj_disj_distrib2 r2 cr(2)) (simp add: flash_bits)
  ultimately show ?thesis using p r2 by simp
qed

lemma erase_program:
  assumes "flash_lld_erase flush A fb address h = Ret (True, h')"
    and "get_SR fb h AND FLASH_SR_BSY = 0"
  shows "load8 fb h' = (\<lambda>x. if in_sector (ucast (flash_lld_getSector A address)) x then 0xFF else load8 fb h x) \<and>
     get_CR fb h' AND FLASH_CR_LOCK \<noteq> 0"
proof -
  let ?s = "flash_lld_getSector A address"
  have s: "?s \<in> {0, 1, 2, 3, 4, 5, 6, 7, 8, 9, 10, 11}" by (simp add: flash_lld_getSector_def)
  then have small: "\<not> 11 < ?s" by auto
  obtain hu where unl: "HAL_FLASH_Unlock fb h = (True, hu)"
    using assms(1) by (cases "HAL_FLASH_Unlock fb h") (auto simp: flash_lld_erase_def split: if_splits)
  define h0 where "h0 = set_SR fb (FLASH_FLAG_ALL_ERRORS fb) hu"
  note r0 = unlock_ready [OF assms(2) unl, of "FLASH_FLAG_ALL_ERRORS fb", folded h0_def]
  define h1 where "h1 = set_CR fb (get_CR fb h0 AND NOT FLASH_CR_PSIZE) h0"
  define h2 where "h2 = set_CR fb (get_CR fb h1 OR FLASH_PSIZE_HALF_WORD) h1"
  define h3 where "h3 = set_CR fb (get_CR fb h2 AND NOT FLASH_CR_SNB) h2"
  define h4 where "h4 = set_CR fb (get_CR fb h3 OR (FLASH_CR_SER OR push_bit 3 (ucast ?s))) h3"
  define h5 where "h5 = set_CR fb (get_CR fb h4 OR FLASH_CR_STRT) h4"
  note defs = flash_bits FLASH_PSIZE_HALF_WORD_def bit.conj_disj_distrib2 and.assoc
  have r1: "ready h1" "load8 fb h1 = load8 fb h0"
    using ready_set [OF r0(1), of "get_CR fb h0 AND NOT FLASH_CR_PSIZE"] ready_cr [OF r0(1)]
    by (simp_all add: h1_def defs)
  have r2: "ready h2" "load8 fb h2 = load8 fb h0"
    using ready_set [OF r1(1), of "get_CR fb h1 OR FLASH_PSIZE_HALF_WORD"] ready_cr [OF r1(1)] r1(2)
    by (simp_all add: h2_def defs)
  have r3: "ready h3" "load8 fb h3 = load8 fb h0" "get_CR fb h3 AND FLASH_CR_SNB = 0"
    using ready_set [OF r2(1), of "get_CR fb h2 AND NOT FLASH_CR_SNB"] ready_cr [OF r2(1)] r2(2)
    by (simp_all add: h3_def defs)
  have cr4: "(get_CR fb h3 OR (FLASH_CR_SER OR push_bit 3 (ucast ?s))) AND FLASH_CR_STRT = 0"
    "(get_CR fb h3 OR (FLASH_CR_SER OR push_bit 3 (ucast ?s))) AND FLASH_CR_LOCK = 0"
    "(get_CR fb h3 OR (FLASH_CR_SER OR push_bit 3 (ucast ?s))) AND FLASH_CR_SER \<noteq> 0"
    "drop_bit 3 ((get_CR fb h3 OR (FLASH_CR_SER OR push_bit 3 (ucast ?s))) AND FLASH_CR_SNB) = ucast ?s"
    using s r3(3) ready_cr [OF r3(1)] by (elim insertE; simp add: defs)+
  note r4 = ready_set [OF r3(1) cr4(1,2), folded h4_def]
  have e: "get_CR fb h5 AND NOT FLASH_CR_STRT = get_CR fb h4"
    "\<not> perr h5 \<longrightarrow> load8 fb h5 = (\<lambda>x. if in_sector (ucast ?s) x then 0xFF else load8 fb h4 x)"
    using erase_law [of h4] r4 cr4 by (simp_all add: ready_def h5_def)
  obtain h6 where wait: "FLASH_WaitForLastOperation fb 2000 h5 = Some (True, h6)"
    and h': "h' = HAL_FLASH_Lock fb (let h = set_CR fb (get_CR fb h6 AND NOT (FLASH_CR_SER OR FLASH_CR_SNB)) h6
              in if flush then FLASH_FlushCaches fb h else h)"
    using assms(1) unl small
    by (auto simp: flash_lld_erase_def Let_def c_bind_Inr_iff c_run_Inr_iff
        h0_def h1_def h2_def h3_def h4_def h5_def)
  note w = wait_succeeds [OF wait]
  have r6: "ready h6" "load8 fb h6 = (\<lambda>x. if in_sector (ucast ?s) x then 0xFF else load8 fb h x)"
    using w e r4 r3(2) r0(2) by (auto simp: ready_def)
  define h7 where "h7 = set_CR fb (get_CR fb h6 AND NOT (FLASH_CR_SER OR FLASH_CR_SNB)) h6"
  have r7: "ready h7" "load8 fb h7 = load8 fb h6"
    using ready_set [OF r6(1), of "get_CR fb h6 AND NOT (FLASH_CR_SER OR FLASH_CR_SNB)"] ready_cr [OF r6(1)]
    by (simp_all add: h7_def defs)
  define h8 where "h8 = (if flush then FLASH_FlushCaches fb h7 else h7)"
  have r8: "ready h8" "load8 fb h8 = load8 fb h6"
    using r7 cache_law by (auto simp: h8_def FLASH_FlushCaches_def Let_def ready_def)
  have locked: "h' = HAL_FLASH_Lock fb h8" unfolding h8_def h7_def h' Let_def ..
  have "(get_CR fb h8 OR FLASH_CR_LOCK) AND FLASH_CR_STRT = 0"
    using ready_cr [OF r8(1)] by (simp add: defs)
  with r8 set_law [of h8 "get_CR fb h8 OR FLASH_CR_LOCK"]
  have "load8 fb h' = load8 fb h8" "get_CR fb h' = get_CR fb h8 OR FLASH_CR_LOCK"
    unfolding locked by (simp_all add: HAL_FLASH_Lock_def ready_def)
  moreover have "(get_CR fb h8 OR FLASH_CR_LOCK) AND FLASH_CR_LOCK \<noteq> 0"
    using ready_cr [OF r8(1)] by (simp add: defs)
  ultimately show ?thesis using r8 r6 by simp
qed

end

section \<open>Reading back\<close>

lemma copy_loop_nth:
  "length (copy_loop mem c e) = unat e - unat c \<and>
   (\<forall>i < unat e - unat c. copy_loop mem c e ! i = mem (c + of_nat i))"
proof (induction mem c e rule: copy_loop.induct)
  case (1 mem c e)
  show ?case
  proof (cases "c < e")
    case True
    then have c1: "unat (c + 1) = unat c + 1"
      using unat_u32_less [of e] by (subst unat_add_lem [THEN iffD1]) (auto simp: word_less_nat_alt)
    have "copy_loop mem c e ! i = mem (c + of_nat i)" if "i < unat e - unat c" for i
      using that True 1 c1 by (subst copy_loop.simps, cases i) (auto simp: ac_simps)
    moreover have "length (copy_loop mem c e) = unat e - unat c"
      using True 1 c1 by (subst copy_loop.simps) (auto simp: word_less_nat_alt)
    ultimately show ?thesis by blast
  next
    case False
    then show ?thesis by (subst (1 2) copy_loop.simps) (simp add: word_less_nat_alt)
  qed
qed

text \<open>Flash that was erased before it is programmed reads back as what was written.\<close>

lemma program_erased_reads_back:
  assumes "unat a + length bs < 2 ^ 32" and "\<forall>i < length bs. mem (a + of_nat i) = 0xFF"
  shows "copy_loop (program mem a bs) a (a + of_nat (length bs)) = bs"
proof (rule nth_equalityI)
  have len: "unat (a + of_nat (length bs)) = unat a + length bs"
    using assms(1) by (subst unat_add_lem [THEN iffD1]) (simp_all add: unat_of_nat)
  then show "length (copy_loop (program mem a bs) a (a + of_nat (length bs))) = length bs"
    by (simp add: copy_loop_nth)
  fix i assume "i < length (copy_loop (program mem a bs) a (a + of_nat (length bs)))"
  then have i: "i < length bs" by (simp add: copy_loop_nth len)
  have ff: "(0xFF :: u8) = - 1" by simp
  have ffi: "0xFF AND bs ! i = bs ! i" unfolding ff by simp
  then show "copy_loop (program mem a bs) a (a + of_nat (length bs)) ! i = bs ! i"
    using i assms program_inside [of a bs i mem] copy_loop_nth len ffi by simp
qed

end
