(* ===== verification/NF_BlockStream.thy ===== *)
theory NF_BlockStream
  imports NF_BlockStorage
begin

text \<open>
  The streams of \<open>nanoPAL_BlockStorage.c\<close>: a stream is opened on the first range of a given usage,
  positioned within it and read through, either as the address of memory (XIP or memory mapped) or by
  the driver.
\<close>

definition STREAM_XIP :: u32 where "STREAM_XIP = 0x00000001"
definition STREAM_MemoryMapped :: u32 where "STREAM_MemoryMapped = 0x00000004"

record BlockStorageStream =
  BaseAddress :: u32
  MemoryMappedAddress :: u32
  CurrentIndex :: u32
  Length :: u32
  BlockLength :: u32
  Usage :: u32
  Flags :: u32
  RegionIndex :: u32
  RangeIndex :: u32
  CurrentUsage :: u32
  Device :: "dev option"

definition BlockStorageStream_IsXIP :: "BlockStorageStream \<Rightarrow> bool" where
  "BlockStorageStream_IsXIP stream = False"

definition BlockStorageStream_IsReadModifyWrite :: "BlockStorageStream \<Rightarrow> bool" where
  "BlockStorageStream_IsReadModifyWrite stream = False"

definition BlockStorageStream_SetReadModifyWrite :: "BlockStorageStream \<Rightarrow> bool" where
  "BlockStorageStream_SetReadModifyWrite stream = False"

definition BlockStorageStream_Write :: "BlockStorageStream \<Rightarrow> u8 list \<Rightarrow> u32 \<Rightarrow> bool" where
  "BlockStorageStream_Write stream data len = False"

definition BlockStorageStream_Erase :: "BlockStorageStream \<Rightarrow> u32 \<Rightarrow> bool" where
  "BlockStorageStream_Erase stream len = False"

definition BlockStorageStream_ReadIntoBuffer :: "BlockStorageStream \<Rightarrow> u32 \<Rightarrow> bool" where
  "BlockStorageStream_ReadIntoBuffer stream len = False"

definition BlockStorageStream_IsErased :: "BlockStorageStream \<Rightarrow> u32 \<Rightarrow> bool" where
  "BlockStorageStream_IsErased stream len = False"

definition BlockStorageStream_CurrentAddress :: "BlockStorageStream \<Rightarrow> u32" where
  "BlockStorageStream_CurrentAddress stream = BaseAddress stream + CurrentIndex stream"

definition BlockStorageStream_CurrentMappedAddress :: "BlockStorageStream \<Rightarrow> u32" where
  "BlockStorageStream_CurrentMappedAddress stream = MemoryMappedAddress stream + CurrentIndex stream"

section \<open>Opening a stream\<close>

text \<open>
  The search over the devices of the list: it starts from the indices the stream already holds, and
  the indices it leaves behind in one device are those the next one starts from.
\<close>

function stream_search :: "u32 \<Rightarrow> nat \<Rightarrow> BlockStorageStream \<Rightarrow> 'h block_storage \<Rightarrow>
    ((dev option \<times> DeviceBlockInfo) option \<times> BlockStorageStream) c_result" where
  "stream_search blockUsage i stream b =
     (if i < TARGET_BLOCKSTORAGE_COUNT then
        c_bind (c_index (DeviceList b) i) (\<lambda>device.
          c_bind (BlockStorageDevice_GetDeviceInfo device b) (\<lambda>deviceInfo.
            c_bind (DeviceBlockInfo_FindNextUsageBlock deviceInfo blockUsage (Some (BaseAddress stream))
                      (Some (RegionIndex stream)) (Some (RangeIndex stream)))
              (\<lambda>(found, address, region, k).
                 let stream = stream\<lparr>BaseAddress := the address, RegionIndex := region,
                                     RangeIndex := the k\<rparr>
                 in if found then Ret (Some (device, deviceInfo), stream)
                    else stream_search blockUsage (i + 1) stream b)))
      else Ret (None, stream))"
  by auto
termination by (relation "measure (\<lambda>(u, i, s, b). TARGET_BLOCKSTORAGE_COUNT - i)") auto

declare stream_search.simps [simp del]

text \<open>What is filled in once the device and the range are known.\<close>

definition stream_fill :: "dev option \<Rightarrow> DeviceBlockInfo \<Rightarrow> BlockStorageStream \<Rightarrow> 'h block_storage \<Rightarrow>
    BlockStorageStream c_result" where
  "stream_fill device deviceInfo stream b =
     c_bind (c_index (Regions deviceInfo) (unat (RegionIndex stream))) (\<lambda>pRegion.
       c_bind (c_index (BlockRanges pRegion) (unat (RangeIndex stream))) (\<lambda>pRange.
         let stream = stream\<lparr>CurrentIndex := 0,
               Length := BlockRange_GetBlockCount pRange * BytesPerBlock pRegion,
               BlockLength := BytesPerBlock pRegion,
               CurrentUsage := RangeType pRange AND BlockRange_USAGE_MASK,
               Device := device,
               Flags := (if Attribute deviceInfo AND MediaAttribute_SupportsXIP \<noteq> 0
                         then Flags stream OR STREAM_XIP else Flags stream AND NOT STREAM_XIP)\<rparr>
         in if Attributes pRegion AND BlockRegionAttribute_MemoryMapped \<noteq> 0 then
              c_bind (BlockStorageDevice_GetMemoryMappedAddress device (RegionIndex stream)
                        (RangeIndex stream) b)
                (\<lambda>(_, address). Ret (stream\<lparr>MemoryMappedAddress := address,
                   Flags := Flags stream OR STREAM_MemoryMapped\<rparr>))
            else Ret (stream\<lparr>Flags := Flags stream AND NOT STREAM_MemoryMapped\<rparr>)))"

definition BlockStorageStream_InitializeWithBlockStorageDevice :: "BlockStorageStream \<Rightarrow> u32 \<Rightarrow>
    dev option \<Rightarrow> 'h block_storage \<Rightarrow> (bool \<times> BlockStorageStream) c_result" where
  "BlockStorageStream_InitializeWithBlockStorageDevice stream blockUsage pDevice b =
     (let backupStream = stream in
      c_bind (if pDevice \<noteq> None
              then c_bind (BlockStorageDevice_GetDeviceInfo pDevice b)
                     (\<lambda>deviceInfo. Ret (Some (pDevice, deviceInfo), stream))
              else stream_search blockUsage 0 stream b) (\<lambda>(deviceInfo, stream).
        case deviceInfo of
          Some (device, deviceInfo) \<Rightarrow>
            c_bind (stream_fill device deviceInfo stream b) (\<lambda>stream. Ret (True, stream))
        | None \<Rightarrow> Ret (False, backupStream)))"

definition BlockStorageStream_Initialize :: "BlockStorageStream \<Rightarrow> u32 \<Rightarrow> 'h block_storage \<Rightarrow>
    (bool \<times> BlockStorageStream) c_result" where
  "BlockStorageStream_Initialize stream blockUsage b =
     BlockStorageStream_InitializeWithBlockStorageDevice stream blockUsage None b"

section \<open>Moving\<close>

text \<open>
  \<open>NextStream\<close> and \<open>PrevStream\<close> have the same body: they go back range by range, region by region and
  device by device to a range of the stream's usage. One turn of the loop moves the stream and yields
  the description it now refers to, with the region and range, or \<open>None\<close> when there is no device left.
\<close>

definition prev_turn :: "BlockStorageStream \<Rightarrow> DeviceBlockInfo \<Rightarrow> 'h block_storage \<Rightarrow>
    (BlockStorageStream \<times> DeviceBlockInfo \<times> BlockRegionInfo \<times> BlockRange) option c_result" where
  "prev_turn stream deviceInfo b =
     c_bind (if RangeIndex stream = 0 then
               if RegionIndex stream = 0 then
                 let device = BlockStorageDevice_Prev (Device stream) in
                 if device = None \<or> BlockStorageDevice_Prev device = None then Ret None
                 else c_bind (BlockStorageDevice_GetDeviceInfo device b) (\<lambda>deviceInfo.
                   Ret (Some (stream\<lparr>Device := device, RegionIndex := NumRegions deviceInfo - 1\<rparr>,
                              deviceInfo, True)))
               else Ret (Some (stream\<lparr>RegionIndex := RegionIndex stream - 1\<rparr>, deviceInfo, True))
             else Ret (Some (stream\<lparr>RangeIndex := RangeIndex stream - 1\<rparr>, deviceInfo, False)))
       (\<lambda>moved. case moved of None \<Rightarrow> Ret None
        | Some (stream, deviceInfo, fLastIndex) \<Rightarrow>
            c_bind (c_index (Regions deviceInfo) (unat (RegionIndex stream))) (\<lambda>pRegion.
              let stream = (if fLastIndex then stream\<lparr>RangeIndex := NumBlockRanges pRegion - 1\<rparr> else stream)
              in c_bind (c_index (BlockRanges pRegion) (unat (RangeIndex stream))) (\<lambda>pRange.
                   Ret (Some (stream, deviceInfo, pRegion, pRange)))))"

partial_function (option) prev_loop :: "BlockStorageStream \<Rightarrow> DeviceBlockInfo \<Rightarrow> 'h block_storage \<Rightarrow>
    (BlockStorageStream \<times> DeviceBlockInfo \<times> BlockRegionInfo \<times> BlockRange) option c_result option" where
  "prev_loop stream deviceInfo b =
     (case prev_turn stream deviceInfo b of
        Inl e \<Rightarrow> Some (Inl e)
      | Inr r \<Rightarrow> (case r of None \<Rightarrow> Some (Ret None)
        | Some t \<Rightarrow> (case t of (s, d, region, pRange) \<Rightarrow>
            if BlockRange_GetBlockUsage pRange \<noteq> Usage s then prev_loop s d b
            else Some (Ret (Some (s, d, region, pRange))))))"

definition stream_back :: "BlockStorageStream \<Rightarrow> 'h block_storage \<Rightarrow> (bool \<times> BlockStorageStream) c_result option" where
  "stream_back stream b =
     (if Device stream = None \<or> BlockStorageDevice_Prev (Device stream) = None
      then Some (Ret (False, stream))
      else case BlockStorageDevice_GetDeviceInfo (Device stream) b of
        Inl e \<Rightarrow> Some (Inl e)
      | Inr deviceInfo \<Rightarrow> map_option (\<lambda>r. c_bind r (\<lambda>t. case t of
            None \<Rightarrow> Ret (False, stream)
          | Some (s, d, pRegion, pRange) \<Rightarrow> Ret (True,
              s\<lparr>Flags := (if Attribute d AND MediaAttribute_SupportsXIP \<noteq> 0
                          then Flags s OR STREAM_XIP else Flags s AND NOT STREAM_XIP),
                BlockLength := BytesPerBlock pRegion,
                BaseAddress := Start pRegion + StartBlock pRange * BytesPerBlock pRegion,
                Length := BlockRange_GetBlockCount pRange * BytesPerBlock pRegion,
                CurrentIndex := 0\<rparr>)))
          (prev_loop stream deviceInfo b))"

definition BlockStorageStream_NextStream :: "BlockStorageStream \<Rightarrow> 'h block_storage \<Rightarrow>
    (bool \<times> BlockStorageStream) c_result option" where
  "BlockStorageStream_NextStream stream b = stream_back stream b"

definition BlockStorageStream_PrevStream :: "BlockStorageStream \<Rightarrow> 'h block_storage \<Rightarrow>
    (bool \<times> BlockStorageStream) c_result option" where
  "BlockStorageStream_PrevStream stream b = stream_back stream b"

text \<open>The \<open>default\<close> branch of the switch is any other value of the parameter.\<close>

datatype SeekOrigin = SeekBegin | SeekCurrent | SeekEnd | SeekOther

text \<open>\<open>seekIndex\<close> is an \<open>int32_t\<close>; the sum with the unsigned offset wraps in 32 bits.\<close>

definition BlockStorageStream_Seek :: "BlockStorageStream \<Rightarrow> u32 \<Rightarrow> SeekOrigin \<Rightarrow> bool \<times> BlockStorageStream" where
  "BlockStorageStream_Seek stream offset origin =
     (case (case origin of
              SeekBegin \<Rightarrow> Some 0
            | SeekCurrent \<Rightarrow> Some (CurrentIndex stream)
            | SeekEnd \<Rightarrow> Some (Length stream)
            | SeekOther \<Rightarrow> None) of
        None \<Rightarrow> (False, stream)
      | Some start \<Rightarrow>
          let seekIndex = start + offset in
          if sint seekIndex \<ge> sint (Length stream) then (False, stream)
          else if sint seekIndex < 0 then (False, stream)
          else (True, stream\<lparr>CurrentIndex := seekIndex\<rparr>))"

section \<open>Reading\<close>

text \<open>
  One turn of the loop, for \<open>len\<close> bytes that are still to read: \<open>*buffer\<close> is an address, \<open>stored\<close>
  lists what the driver has stored, each piece with its offset in the caller's buffer. \<open>Inl\<close> is the
  failing return, \<open>Inr\<close> the next turn.
\<close>

type_synonym 'h read_state = "BlockStorageStream \<times> u32 \<times> u32 \<times> (u32 \<times> u8 list) list \<times> 'h block_storage"

definition read_turn :: "DeviceBlockInfo \<Rightarrow> u32 \<Rightarrow> 'h read_state \<Rightarrow>
    (bool \<times> u32 \<times> 'h read_state) c_result" where
  "read_turn deviceInfo len st = (case st of (stream, buffer, pBuffer, stored, b) \<Rightarrow>
     let readLen = (if CurrentIndex stream + len > Length stream
                    then Length stream - CurrentIndex stream else len);
         next = (\<lambda>buffer stored b. Ret (True, len - readLen,
                  (stream\<lparr>CurrentIndex := CurrentIndex stream + readLen\<rparr>, buffer,
                   pBuffer + readLen, stored, b)))
     in if Attribute deviceInfo AND MediaAttribute_SupportsXIP \<noteq> 0
        then next (BlockStorageStream_CurrentAddress stream) stored b
        else if Flags stream AND STREAM_MemoryMapped \<noteq> 0
        then next (BlockStorageStream_CurrentMappedAddress stream) stored b
        else c_bind (BlockStorageDevice_Read (Device stream) (BlockStorageStream_CurrentAddress stream)
                       readLen b) (\<lambda>(ok, bs, b).
               if \<not> ok then Ret (False, len, (stream, buffer, pBuffer, stored @ [(pBuffer, bs)], b))
               else next buffer (stored @ [(pBuffer, bs)]) b))"

partial_function (option) read_loop :: "DeviceBlockInfo \<Rightarrow> u32 \<Rightarrow> 'h read_state \<Rightarrow>
    (bool \<times> 'h read_state) c_result option" where
  "read_loop deviceInfo len st =
     (if len = 0 then Some (Ret (True, st))
      else case read_turn deviceInfo len st of
        Inl e \<Rightarrow> Some (Inl e)
      | Inr r \<Rightarrow> (case r of (ok, len, st) \<Rightarrow>
          if ok then read_loop deviceInfo len st else Some (Ret (False, st))))"

text \<open>
  \<open>buffer\<close> is null or points to an address. The result is \<open>None\<close> when the loop does not end.
\<close>

definition BlockStorageStream_Read :: "BlockStorageStream option \<Rightarrow> u32 option \<Rightarrow> u32 \<Rightarrow>
    'h block_storage \<Rightarrow>
    (bool \<times> BlockStorageStream option \<times> u32 option \<times> (u32 \<times> u8 list) list \<times> 'h block_storage)
      c_result option" where
  "BlockStorageStream_Read stream buffer len b =
     (case (stream, buffer) of
        (Some s, Some p) \<Rightarrow>
          if Device s = None then Some (Ret (False, stream, buffer, [], b))
          else (case BlockStorageDevice_GetDeviceInfo (Device s) b of
            Inl e \<Rightarrow> Some (Inl e)
          | Inr deviceInfo \<Rightarrow>
              map_option (\<lambda>r. c_bind r (\<lambda>(ok, s, p, _, stored, b). Ret (ok, Some s, Some p, stored, b)))
                (read_loop deviceInfo len (s, p, 0, [], b)))
      | _ \<Rightarrow> Some (Ret (False, stream, buffer, [], b)))"

end
