(* ===== verification/NF_BlockLayout.thy ===== *)
theory NF_BlockLayout
  imports NF_BlockStream
begin

text \<open>
  What a device description must satisfy for the searches of the block storage layer to do their work
  (\<open>wf_device\<close>: the ranges of each region tile its blocks, the regions lie one above the other and none
  reaches the end of the address space), and what the searches then find. The locale \<open>device_layout\<close>
  is the interface between the layer and the device tables of the targets.
\<close>

section \<open>Well-formed descriptions\<close>

fun ranges_cover :: "nat \<Rightarrow> nat \<Rightarrow> BlockRange list \<Rightarrow> bool" where
  "ranges_cover s n [] \<longleftrightarrow> s = n"
| "ranges_cover s n (r # rs) \<longleftrightarrow>
     unat (StartBlock r) = s \<and> s \<le> unat (EndBlock r) \<and> ranges_cover (unat (EndBlock r) + 1) n rs"

definition region_end :: "BlockRegionInfo \<Rightarrow> nat" where
  "region_end r = unat (Start r) + unat (NumBlocks r) * unat (BytesPerBlock r)"

definition wf_region :: "BlockRegionInfo \<Rightarrow> bool" where
  "wf_region r \<longleftrightarrow>
     BlockRanges r \<noteq> [] \<and> length (BlockRanges r) < 2 ^ 31 \<and>
     unat (NumBlockRanges r) = length (BlockRanges r) \<and>
     ranges_cover 0 (unat (NumBlocks r)) (BlockRanges r) \<and>
     0 < unat (BytesPerBlock r) \<and> region_end r < 2 ^ 32"

definition wf_device :: "DeviceBlockInfo \<Rightarrow> bool" where
  "wf_device d \<longleftrightarrow>
     unat (NumRegions d) = length (Regions d) \<and> list_all wf_region (Regions d) \<and>
     sorted_wrt (\<lambda>r r'. region_end r \<le> unat (Start r')) (Regions d)"

text \<open>The addresses of a range of blocks.\<close>

definition in_range :: "BlockRegionInfo \<Rightarrow> nat \<Rightarrow> u32 \<Rightarrow> bool" where
  "in_range r j a \<longleftrightarrow> j < length (BlockRanges r) \<and>
     unat (Start r) + unat (StartBlock (BlockRanges r ! j)) * unat (BytesPerBlock r) \<le> unat a \<and>
     unat a < unat (Start r) + (unat (EndBlock (BlockRanges r ! j)) + 1) * unat (BytesPerBlock r)"

lemma ranges_cover_le: "ranges_cover s n rs \<Longrightarrow> s \<le> n"
  by (induction rs arbitrary: s) fastforce+

lemma ranges_cover_drop:
  assumes "ranges_cover s n rs" "j < length rs"
  shows "ranges_cover (unat (StartBlock (rs ! j))) n (drop j rs)"
  using assms
proof (induction rs arbitrary: s j)
  case (Cons r rs)
  then show ?case by (cases j) auto
qed simp

lemma unat_wf_sum:
  assumes "s + k < 2 ^ 32"
  shows "unat (of_nat s + of_nat k :: u32) = s + k"
  using assms by (simp add: unat_of_nat flip: of_nat_add)

lemma region_holds_iff:
  assumes "wf_region r"
  shows "region_holds r a \<longleftrightarrow> unat (Start r) \<le> unat a \<and> unat a < region_end r"
proof -
  have "Start r + NumBlocks r * BytesPerBlock r = of_nat (region_end r)"
    by (simp add: region_end_def)
  moreover have "region_end r < 2 ^ 32" using assms by (simp add: wf_region_def)
  ultimately show ?thesis
    by (simp add: region_holds_def word_le_nat_alt word_less_nat_alt unat_of_nat)
qed

section \<open>Search by address\<close>

lemma range_loop_finds:
  assumes wf: "wf_region r"
    and "ranges_cover s (unat (NumBlocks r)) (drop j (BlockRanges r))"
    and "unat (Start r) + s * unat (BytesPerBlock r) \<le> unat a" and "unat a < region_end r"
    and "e = of_nat (unat (Start r) + s * unat (BytesPerBlock r))"
  shows "\<exists>j'. range_loop r a e j = Ret (Some j') \<and> in_range r j' a"
  using assms(2-)
proof (induction "length (BlockRanges r) - j" arbitrary: s j e rule: less_induct)
  case less
  let ?B = "unat (BytesPerBlock r)" and ?rs = "BlockRanges r"
  have n: "unat (NumBlockRanges r) = length ?rs" and bound: "region_end r < 2 ^ 32"
    using wf by (simp_all add: wf_region_def)
  show ?case
  proof (cases "j < length ?rs")
    case False
    with less.prems show ?thesis by (simp add: region_end_def)
  next
    case True
    let ?x = "?rs ! j" and ?t = "unat (EndBlock (?rs ! j)) + 1"
    have cons: "drop j ?rs = ?x # drop (j + 1) ?rs" using True by (simp add: Cons_nth_drop_Suc)
    with less.prems have x: "unat (StartBlock ?x) = s" "s \<le> unat (EndBlock ?x)"
      and rest: "ranges_cover ?t (unat (NumBlocks r)) (drop (j + 1) ?rs)" by auto
    have "?t \<le> unat (NumBlocks r)" using ranges_cover_le [OF rest] .
    then have "?t * ?B \<le> unat (NumBlocks r) * ?B" by (rule mult_right_mono) simp
    then have fits: "unat (Start r) + ?t * ?B < 2 ^ 32" using bound by (simp add: region_end_def)
    have "StartBlock ?x = of_nat s" using x(1) by auto
    then have "EndBlock ?x - StartBlock ?x + 1 = of_nat (?t - s)"
      using x(2) by (simp add: of_nat_diff)
    then have e': "e + BytesPerBlock r * BlockRange_GetBlockCount ?x = of_nat (unat (Start r) + ?t * ?B)"
      using x less.prems(4) by (simp add: BlockRange_GetBlockCount_def of_nat_diff algebra_simps)
    show ?thesis
    proof (cases "unat a < unat (Start r) + ?t * ?B")
      case below: True
      then have "a < of_nat (unat (Start r) + ?t * ?B)"
        using fits by (simp add: word_less_nat_alt unat_of_nat del: of_nat_add of_nat_mult of_nat_Suc)
      then have "range_loop r a e j = Ret (Some j)"
        using True n by (subst range_loop.simps) (simp only: c_index_in_bounds c_bind_simps e' Let_def if_True)
      moreover have "in_range r j a" using True below x less.prems(2) by (simp add: in_range_def)
      ultimately show ?thesis by blast
    next
      case above: False
      then have "\<not> a < of_nat (unat (Start r) + ?t * ?B)"
        using fits by (simp add: word_less_nat_alt unat_of_nat del: of_nat_add of_nat_mult of_nat_Suc)
      then have "range_loop r a e j = range_loop r a (of_nat (unat (Start r) + ?t * ?B)) (j + 1)"
        using True n
        by (subst range_loop.simps) (simp only: c_index_in_bounds c_bind_simps e' Let_def if_True if_False)
      then show ?thesis
        using less.hyps [OF _ rest _ less.prems(3) refl] True above by auto
    qed
  qed
qed

lemma region_loop_finds:
  assumes wf: "wf_device d"
    and "i \<le> i0" "i0 < length (Regions d)"
    and "unat (Start (Regions d ! i0)) \<le> unat a" "unat a < region_end (Regions d ! i0)"
  shows "\<exists>j. region_loop d a i = Ret (Some (i0, j)) \<and> in_range (Regions d ! i0) j a"
  using assms(2)
proof (induction rule: inc_induct)
  case base
  let ?r = "Regions d ! i0"
  have r: "wf_region ?r" and n: "unat (NumRegions d) = length (Regions d)"
    using wf assms(3) by (auto simp: wf_device_def list_all_length)
  then obtain x xs where ne: "BlockRanges ?r = x # xs" and x: "unat (StartBlock x) = 0"
    and cov: "ranges_cover 0 (unat (NumBlocks ?r)) (BlockRanges ?r)"
    by (cases "BlockRanges ?r") (auto simp: wf_region_def)
  have "StartBlock x = 0" using x by (simp add: unat_eq_0)
  then have "\<exists>j. range_loop ?r a (Start ?r + BytesPerBlock ?r * StartBlock x) 0 = Ret (Some j) \<and> in_range ?r j a"
    using range_loop_finds [OF r, of 0 0 a] cov assms(4,5) by simp
  moreover have "region_holds ?r a" using region_holds_iff [OF r] assms(4,5) by simp
  ultimately show ?case using assms(3) n ne
    by (subst region_loop.simps) (auto simp: c_index_in_bounds)
next
  case (step i)
  have n: "unat (NumRegions d) = length (Regions d)" and r: "wf_region (Regions d ! i)"
    and srt: "region_end (Regions d ! i) \<le> unat (Start (Regions d ! i0))"
    using wf step assms(3) by (auto simp: wf_device_def list_all_length sorted_wrt_iff_nth_less)
  then have "\<not> region_holds (Regions d ! i) a"
    using region_holds_iff [OF r] assms(4) by simp
  then have "region_loop d a i = region_loop d a (Suc i)"
    using step assms(3) n by (subst region_loop.simps) (simp add: c_index_in_bounds)
  then show ?case using step by simp
qed

lemma region_loop_fails:
  assumes wf: "wf_device d"
    and none: "\<forall>r \<in> set (Regions d). \<not> (unat (Start r) \<le> unat a \<and> unat a < region_end r)"
  shows "region_loop d a i = Ret None"
proof (induction "length (Regions d) - i" arbitrary: i rule: less_induct)
  case less
  have n: "unat (NumRegions d) = length (Regions d)" using wf by (simp add: wf_device_def)
  show ?case
  proof (cases "i < length (Regions d)")
    case True
    then have "\<not> region_holds (Regions d ! i) a"
      using wf none region_holds_iff [of "Regions d ! i" a] by (simp add: wf_device_def list_all_length)
    then show ?thesis using True n less [of "i + 1"]
      by (subst region_loop.simps) (simp add: c_index_in_bounds)
  next
    case False
    then show ?thesis using n by (subst region_loop.simps) simp
  qed
qed

text \<open>An address lies in one range of one region at most.\<close>

lemma ranges_cover_start:
  "ranges_cover s n rs \<Longrightarrow> j < length rs \<Longrightarrow> s \<le> unat (StartBlock (rs ! j))"
proof (induction rs arbitrary: s j)
  case (Cons r rs)
  then show ?case by (cases j) fastforce+
qed simp

lemma ranges_cover_end:
  assumes "ranges_cover s n rs" "j < j'" "j' < length rs"
  shows "unat (EndBlock (rs ! j)) + 1 \<le> unat (StartBlock (rs ! j'))"
proof -
  have "drop j rs = rs ! j # drop (Suc j) rs" using assms by (simp add: Cons_nth_drop_Suc)
  with ranges_cover_drop [OF assms(1), of j] assms
  have "ranges_cover (unat (EndBlock (rs ! j)) + 1) n (drop (Suc j) rs)" by simp
  from ranges_cover_start [OF this, of "j' - Suc j"] assms show ?thesis by simp
qed

lemma in_range_region:
  assumes "wf_region r" "in_range r j a"
  shows "unat (Start r) \<le> unat a" "unat a < region_end r"
proof -
  let ?e = "unat (EndBlock (BlockRanges r ! j)) + 1"
  have j: "j < length (BlockRanges r)" using assms(2) by (simp add: in_range_def)
  then have "drop j (BlockRanges r) = BlockRanges r ! j # drop (Suc j) (BlockRanges r)"
    by (simp add: Cons_nth_drop_Suc)
  then have "?e \<le> unat (NumBlocks r)"
    using assms(1) j ranges_cover_drop [of 0 "unat (NumBlocks r)" "BlockRanges r" j] ranges_cover_le
    by (fastforce simp: wf_region_def)
  then have "?e * unat (BytesPerBlock r) \<le> unat (NumBlocks r) * unat (BytesPerBlock r)"
    by (rule mult_right_mono) simp
  then show "unat (Start r) \<le> unat a" "unat a < region_end r"
    using assms(2) by (auto simp: in_range_def region_end_def)
qed

lemma in_range_unique_range:
  assumes "wf_region r" "in_range r j a" "in_range r j' a"
  shows "j = j'"
proof -
  have "\<not> k < k'" if "in_range r k a" "in_range r k' a" for k k'
  proof
    assume "k < k'"
    then have "unat (EndBlock (BlockRanges r ! k)) + 1 \<le> unat (StartBlock (BlockRanges r ! k'))"
      using assms(1) that ranges_cover_end [of 0 "unat (NumBlocks r)" "BlockRanges r" k k']
      by (simp add: wf_region_def in_range_def)
    then have "(unat (EndBlock (BlockRanges r ! k)) + 1) * unat (BytesPerBlock r) \<le>
        unat (StartBlock (BlockRanges r ! k')) * unat (BytesPerBlock r)" by (rule mult_right_mono) simp
    then show False using that by (auto simp: in_range_def)
  qed
  with assms(2,3) show ?thesis by (meson linorder_neqE_nat)
qed

lemma wf_device_region:
  "wf_device d \<Longrightarrow> i < length (Regions d) \<Longrightarrow> wf_region (Regions d ! i)"
  by (simp add: wf_device_def list_all_length)

lemma wf_device_sorted:
  "wf_device d \<Longrightarrow> i < i' \<Longrightarrow> i' < length (Regions d) \<Longrightarrow>
     region_end (Regions d ! i) \<le> unat (Start (Regions d ! i'))"
  by (simp add: wf_device_def sorted_wrt_iff_nth_less)

lemma in_range_unique_region:
  assumes "wf_device d" "i < length (Regions d)" "i' < length (Regions d)"
    and "in_range (Regions d ! i) j a" "in_range (Regions d ! i') j' a"
  shows "i = i'"
proof -
  have "unat (Start (Regions d ! i)) \<le> unat a" "unat a < region_end (Regions d ! i)"
    "unat (Start (Regions d ! i')) \<le> unat a" "unat a < region_end (Regions d ! i')"
    using assms in_range_region wf_device_region by blast+
  with wf_device_sorted [OF assms(1), of i i'] wf_device_sorted [OF assms(1), of i' i] assms(2,3)
  show ?thesis by (meson linorder_neqE_nat order.strict_trans2 not_less)
qed

section \<open>Search by usage\<close>

lemma usage_range_loop_result:
  assumes wf: "wf_region r"
  shows "usage_range_loop r u (int j) =
     Ret (map_option int (List.find (\<lambda>k. usage_matches u (BlockRanges r ! k)) [j..<length (BlockRanges r)]))"
proof (induction "length (BlockRanges r) - j" arbitrary: j rule: less_induct)
  case less
  have n: "sint (NumBlockRanges r) = int (length (BlockRanges r))"
    using wf sint_u32_small [of "NumBlockRanges r"] by (simp add: wf_region_def)
  show ?case
  proof (cases "j < length (BlockRanges r)")
    case True
    then have "[j..<length (BlockRanges r)] = j # [j + 1..<length (BlockRanges r)]"
      by (simp add: upt_conv_Cons)
    then show ?thesis using True n less [of "j + 1"]
      by (subst usage_range_loop.simps) (simp add: c_index_in_bounds add.commute)
  next
    case False
    then show ?thesis using n by (subst usage_range_loop.simps) simp
  qed
qed

text \<open>
  The positions \<open>(i, j)\<close> of the ranges in the order of the search, from region \<open>r\<close> on, in region \<open>r\<close>
  itself from range \<open>k\<close> on.
\<close>

definition usage_positions :: "DeviceBlockInfo \<Rightarrow> nat \<Rightarrow> nat \<Rightarrow> (nat \<times> nat) list" where
  "usage_positions d r k =
     concat (map (\<lambda>i. map (Pair i) [(if i = r then k else 0)..<length (BlockRanges (Regions d ! i))])
               [r..<length (Regions d)])"

definition usage_at :: "DeviceBlockInfo \<Rightarrow> u32 \<Rightarrow> nat \<times> nat \<Rightarrow> bool" where
  "usage_at d u p \<longleftrightarrow> usage_matches u (BlockRanges (Regions d ! fst p) ! snd p)"

lemma find_append: "List.find P (xs @ ys) = (case List.find P xs of None \<Rightarrow> List.find P ys | Some x \<Rightarrow> Some x)"
  by (induction xs) auto

lemma find_map: "List.find P (map f xs) = map_option f (List.find (P \<circ> f) xs)"
  by (induction xs) auto

lemma usage_positions_Cons:
  assumes "r < length (Regions d)"
  shows "usage_positions d r k =
     map (Pair r) [k..<length (BlockRanges (Regions d ! r))] @ usage_positions d (r + 1) 0"
proof -
  have tail: "map (\<lambda>i. map (Pair i) [(if i = r then k else 0)..<length (BlockRanges (Regions d ! i))])
      [Suc r..<length (Regions d)] =
    map (\<lambda>i. map (Pair i) [0..<length (BlockRanges (Regions d ! i))])
      [Suc r..<length (Regions d)]" by (rule map_cong) auto
  show ?thesis using assms by (simp add: usage_positions_def upt_conv_Cons tail)
qed

lemma usage_region_loop_result:
  assumes wf: "wf_device d" and "length (Regions d) < 2 ^ 32" and "k < 2 ^ 31"
  shows "usage_region_loop d u (Some a) r r0 (Some (of_nat k)) =
     Ret (case List.find (usage_at d u) (usage_positions d r k) of
            Some (i, j) \<Rightarrow> (True, Some (BlockRegionInfo_BlockAddress (Regions d ! i)
                              (StartBlock (BlockRanges (Regions d ! i) ! j))), of_nat i, Some (of_nat j))
          | None \<Rightarrow> (False, Some a, r0, Some (if r < length (Regions d) then 0 else of_nat k)))"
  using assms(3)
proof (induction "length (Regions d) - r" arbitrary: r k rule: less_induct)
  case less
  have n: "unat (NumRegions d) = length (Regions d)" using wf by (simp add: wf_device_def)
  show ?case
  proof (cases "r < length (Regions d)")
    case False
    then show ?thesis using n
      by (subst usage_region_loop.simps) (simp add: usage_positions_def)
  next
    case True
    let ?reg = "Regions d ! r" and ?F = "List.find (\<lambda>j. usage_at d u (r, j)) [k..<length (BlockRanges (Regions d ! r))]"
    have k: "sint (of_nat k :: u32) = int k" using less.prems by (simp add: sint_u32_of_nat)
    have inner: "usage_range_loop ?reg u (int k) = Ret (map_option int ?F)"
      using usage_range_loop_result [OF wf_device_region [OF wf True]] by (simp add: usage_at_def)
    have pos: "List.find (usage_at d u) (usage_positions d r k) =
        (case ?F of Some j \<Rightarrow> Some (r, j) | None \<Rightarrow> List.find (usage_at d u) (usage_positions d (r + 1) 0))"
      by (simp add: usage_positions_Cons [OF True] find_append find_map comp_def split: option.split)
    show ?thesis
    proof (cases ?F)
      case None
      then show ?thesis using True n less.hyps [of "r + 1" 0] inner k
        by (subst usage_region_loop.simps)
           (simp add: c_index_in_bounds pos split: option.split)
    next
      case (Some j)
      then have "j < length (BlockRanges ?reg)" by (auto simp: find_Some_iff)
      then show ?thesis using Some True n inner k
        by (subst usage_region_loop.simps) (simp add: c_index_in_bounds pos)
    qed
  qed
qed

section \<open>Block starts\<close>

lemma block_start_unat:
  assumes "wf_region r" "region_holds r a"
  shows "unat (block_start r a) =
     (unat a - unat (Start r)) div unat (BytesPerBlock r) * unat (BytesPerBlock r) + unat (Start r)"
proof -
  let ?B = "unat (BytesPerBlock r)" and ?o = "unat a - unat (Start r)"
  have le: "unat (Start r) \<le> unat a" using assms region_holds_iff by blast
  have "unat a < 2 ^ 32" using unsigned_less [of a, where ?'a = nat] by simp
  then have small: "?o div ?B < 2 ^ 32"
    by (intro le_less_trans [OF div_le_dividend]) linarith
  note \<open>unat a < 2 ^ 32\<close>
  moreover have q: "?o div ?B * ?B \<le> ?o" by simp
  ultimately have fits: "?o div ?B * ?B + unat (Start r) < 2 ^ 32" using le by linarith
  have "(a - Start r) div BytesPerBlock r = of_nat (?o div ?B)"
    using le small by (simp add: word_unat_eq_iff unat_div unat_sub word_le_nat_alt unat_of_nat)
  then have "block_start r a = of_nat (?o div ?B * ?B + unat (Start r))"
    by (simp add: block_start_def)
  then show ?thesis using fits by (simp add: unat_of_nat del: of_nat_add of_nat_mult)
qed

section \<open>The interface to the device tables\<close>

locale device_layout =
  fixes info :: DeviceBlockInfo
  assumes layout: "wf_device info" and few_regions: "length (Regions info) < 2 ^ 31"
begin

lemma find_region:
  assumes "i < length (Regions info)" "in_range (Regions info ! i) j a"
  shows "DeviceBlockInfo_FindRegionFromAddress info a k = Ret (True, of_nat i, of_nat j)"
proof -
  note reg = wf_device_region [OF layout assms(1)]
  obtain j' where "region_loop info a 0 = Ret (Some (i, j'))" "in_range (Regions info ! i) j' a"
    using region_loop_finds [OF layout, of 0 i a] in_range_region [OF reg assms(2)] assms(1) by auto
  with in_range_unique_range [OF reg assms(2)] show ?thesis
    by (simp add: DeviceBlockInfo_FindRegionFromAddress_def)
qed

lemma find_region_none:
  assumes "\<forall>i j. i < length (Regions info) \<longrightarrow> \<not> in_range (Regions info ! i) j a"
  shows "DeviceBlockInfo_FindRegionFromAddress info a k = Ret (False, 0, k)"
proof -
  have "\<forall>r \<in> set (Regions info). \<not> (unat (Start r) \<le> unat a \<and> unat a < region_end r)"
  proof (intro ballI notI)
    fix r assume "r \<in> set (Regions info)" and "unat (Start r) \<le> unat a \<and> unat a < region_end r"
    then obtain i where "i < length (Regions info)" "r = Regions info ! i"
      by (auto simp: in_set_conv_nth)
    with \<open>unat (Start r) \<le> unat a \<and> _\<close> assms region_loop_finds [OF layout, of i i a]
    show False by auto
  qed
  then show ?thesis
    by (simp add: DeviceBlockInfo_FindRegionFromAddress_def region_loop_fails [OF layout])
qed

lemma find_usage:
  assumes "r \<le> length (Regions info)" "k < 2 ^ 31"
  shows "DeviceBlockInfo_FindNextUsageBlock info u (Some a) (Some (of_nat r)) (Some (of_nat k)) =
     Ret (case List.find (usage_at info u) (usage_positions info r k) of
            Some (i, j) \<Rightarrow> (True, Some (BlockRegionInfo_BlockAddress (Regions info ! i)
                              (StartBlock (BlockRanges (Regions info ! i) ! j))), of_nat i, Some (of_nat j))
          | None \<Rightarrow> (False, Some a, of_nat r, Some (if r < length (Regions info) then 0 else of_nat k)))"
proof -
  have "unat (of_nat r :: u32) = r" using assms(1) few_regions by (simp add: unat_of_nat)
  then show ?thesis
    using usage_region_loop_result [OF layout _ assms(2), of u a r "of_nat r"] few_regions
    by (simp add: DeviceBlockInfo_FindNextUsageBlock_def)
qed

lemma physical_loop_finds:
  assumes "i \<le> i0" "i0 < length (Regions info)" "region_holds (Regions info ! i0) a"
  shows "physical_loop info a i = Ret (Some (block_start (Regions info ! i0) a))"
  using assms(1)
proof (induction rule: inc_induct)
  case base
  have n: "unat (NumRegions info) = length (Regions info)" using layout by (simp add: wf_device_def)
  then show ?case using assms by (subst physical_loop.simps) (simp add: c_index_in_bounds)
next
  case (step i)
  have n: "unat (NumRegions info) = length (Regions info)" using layout by (simp add: wf_device_def)
  have "\<not> region_holds (Regions info ! i) a"
    using wf_device_sorted [OF layout, of i i0] step assms
      region_holds_iff [OF wf_device_region [OF layout, of i]]
      region_holds_iff [OF wf_device_region [OF layout, of i0]] by simp
  then have "physical_loop info a i = physical_loop info a (Suc i)"
    using step assms n by (subst physical_loop.simps) (simp add: c_index_in_bounds)
  then show ?case using step by simp
qed

end

section \<open>Reading a stream past its end\<close>

lemma read_loop_stuck:
  assumes "read_loop d len (s, p, q, st, b) = Some y"
    and "Attribute d AND MediaAttribute_SupportsXIP \<noteq> 0" "len \<noteq> 0"
    and "CurrentIndex s = Length s" "unat (Length s) + unat len < 2 ^ 32"
  shows False
proof -
  define stuck where "stuck = (\<lambda>(d :: DeviceBlockInfo, len, st :: 'a read_state). case st of (s, _, _, _, _) \<Rightarrow>
      Attribute d AND MediaAttribute_SupportsXIP \<noteq> 0 \<and> len \<noteq> (0 :: u32) \<and>
      CurrentIndex s = Length s \<and> unat (Length s) + unat len < 2 ^ 32)"
  have "\<not> stuck (d, len, st)" if "read_loop d len st = Some y" for d len st y
    using that
  proof (induction rule: read_loop.raw_induct [rotated, consumes 1, case_names body])
    case (body loop d len st y)
    obtain s p q w b where st: "st = (s, p, q, w, b)" by (metis surj_pair)
    show ?case
    proof
      assume stuck: "stuck (d, len, st)"
      then have "unat (Length s + len) = unat (Length s) + unat len"
        by (simp add: stuck_def st unat_add_lem [THEN iffD1])
      with stuck have clip: "Length s + len > Length s"
        by (simp add: stuck_def st word_less_nat_alt unat_gt_0)
      obtain q' where turn: "read_turn d len st =
          Ret (True, len, (s, BlockStorageStream_CurrentAddress s, q', w, b))"
        using stuck clip by (auto simp: stuck_def st read_turn_def Let_def)
      have "loop d len (s, BlockStorageStream_CurrentAddress s, q', w, b) = Some y"
        using body(2) stuck turn by (simp add: stuck_def st split: if_splits)
      from body(1) [OF this] stuck show False by (simp add: stuck_def st)
    qed
  qed
  from this [OF assms(1)] assms(2-) show False by (simp add: stuck_def)
qed

lemma read_turn_xip:
  assumes "Attribute d AND MediaAttribute_SupportsXIP \<noteq> 0"
  shows "read_turn d len (s, p, q, w, b) =
     (let n = if CurrentIndex s + len > Length s then Length s - CurrentIndex s else len
      in Ret (True, len - n, (s\<lparr>CurrentIndex := CurrentIndex s + n\<rparr>,
                BlockStorageStream_CurrentAddress s, q + n, w, b)))"
  using assms by (simp add: read_turn_def Let_def)

section \<open>Properties\<close>

text \<open>
  C17: On a well-formed device description the search by address is exact: it answers true just when
  the address lies in some range of some region, and then with the indices of that region and range.
\<close>

theorem find_region_from_address_exact:
  assumes "wf_device d" and "length (Regions d) < 2 ^ 31"
  shows "\<exists>found i' j'. DeviceBlockInfo_FindRegionFromAddress d a k = Ret (found, i', j') \<and>
     (found \<longleftrightarrow> (\<exists>i < length (Regions d). \<exists>j. in_range (Regions d ! i) j a)) \<and>
     (\<forall>i < length (Regions d). \<forall>j. in_range (Regions d ! i) j a \<longrightarrow> i' = of_nat i \<and> j' = of_nat j)"
proof -
  have l: "device_layout d" using assms by unfold_locales
  show ?thesis
  proof (cases "\<exists>i < length (Regions d). \<exists>j. in_range (Regions d ! i) j a")
    case True
    then obtain i j where ij: "i < length (Regions d)" "in_range (Regions d ! i) j a" by blast
    have "i' = i \<and> j' = j" if "i' < length (Regions d)" "in_range (Regions d ! i') j' a" for i' j'
    proof -
      have i: "i' = i" using in_range_unique_region [OF assms(1) that(1) ij(1) that(2) ij(2)] .
      with in_range_unique_range [OF wf_device_region [OF assms(1) ij(1)]] that ij show ?thesis by simp
    qed
    with ij device_layout.find_region [OF l ij, of k] show ?thesis by blast
  next
    case False
    with device_layout.find_region_none [OF l, of a k] show ?thesis by auto
  qed
qed

text \<open>
  The search by usage answers with the first range of that usage at or behind the given position,
  in the order of regions and ranges, together with the address of its first block; when there is
  none it answers false and leaves the address and the region as they were.
\<close>

theorem find_next_usage_block_first:
  assumes "wf_device d" and "length (Regions d) < 2 ^ 31" and "r \<le> length (Regions d)" and "k < 2 ^ 31"
  shows "DeviceBlockInfo_FindNextUsageBlock d u (Some a) (Some (of_nat r)) (Some (of_nat k)) =
     Ret (case List.find (usage_at d u) (usage_positions d r k) of
            Some (i, j) \<Rightarrow> (True, Some (BlockRegionInfo_BlockAddress (Regions d ! i)
                              (StartBlock (BlockRanges (Regions d ! i) ! j))), of_nat i, Some (of_nat j))
          | None \<Rightarrow> (False, Some a, of_nat r, Some (if r < length (Regions d) then 0 else of_nat k)))"
proof -
  have "device_layout d" using assms by unfold_locales
  from device_layout.find_usage [OF this assms(3,4)] show ?thesis .
qed

text \<open>
  C17: \<open>DeviceBlockInfo_FindForBlockUsage\<close> never searches anything: for every description, usage and
  valid pointers it dereferences a null pointer, since it sets its pointer parameters (instead of
  what they point to) to zero.
\<close>

theorem find_for_block_usage_dereferences_null:
  "DeviceBlockInfo_FindForBlockUsage d usage (Some address) (Some region) (Some k) = Fault NullDeref"
  by (simp add: DeviceBlockInfo_FindForBlockUsage_def DeviceBlockInfo_FindNextUsageBlock_def)


text \<open>
  A read of an XIP stream that fits behind the current position ends, hands out the address of
  the current position and advances by the requested length; a read that is longer than what is left
  of the stream never returns.
\<close>

theorem xip_read_fits_or_hangs:
  assumes "Attribute d AND MediaAttribute_SupportsXIP \<noteq> 0" and "0 < unat len"
    and "unat (CurrentIndex s) \<le> unat (Length s)" and "unat (Length s) + unat len < 2 ^ 32"
  shows "read_loop d len (s, p, q, w, b) =
     (if unat (CurrentIndex s) + unat len \<le> unat (Length s)
      then Some (Ret (True, (s\<lparr>CurrentIndex := CurrentIndex s + len\<rparr>,
             BaseAddress s + CurrentIndex s, q + len, w, b)))
      else None)"
proof -
  have "unat (CurrentIndex s + len) = unat (CurrentIndex s) + unat len"
    using assms(3,4) by (simp add: unat_add_lem [THEN iffD1])
  then have clip: "CurrentIndex s + len > Length s \<longleftrightarrow> \<not> unat (CurrentIndex s) + unat len \<le> unat (Length s)"
    by (simp add: word_less_nat_alt not_le)
  have len: "len \<noteq> 0" using assms(2) by auto
  show ?thesis
  proof (cases "unat (CurrentIndex s) + unat len \<le> unat (Length s)")
    case True
    then show ?thesis using len clip
      by (subst read_loop.simps) (simp add: read_turn_xip [OF assms(1)]
          read_loop.simps [of _ 0] BlockStorageStream_CurrentAddress_def)
  next
    case False
    let ?n = "Length s - CurrentIndex s" and ?s = "s\<lparr>CurrentIndex := Length s\<rparr>"
    have n: "unat ?n = unat (Length s) - unat (CurrentIndex s)"
      using assms(3) by (simp add: unat_sub word_le_nat_alt)
    then have rest: "unat (len - ?n) = unat len - (unat (Length s) - unat (CurrentIndex s))"
      using False by (subst unat_sub) (simp_all add: word_le_nat_alt)
    have "read_loop d len (s, p, q, w, b) =
        read_loop d (len - ?n) (?s, BlockStorageStream_CurrentAddress s, q + ?n, w, b)"
      using False len clip by (subst read_loop.simps) (simp add: read_turn_xip [OF assms(1)] Let_def)
    moreover have "read_loop d (len - ?n) (?s, BlockStorageStream_CurrentAddress s, q + ?n, w, b) = None"
    proof (rule ccontr)
      assume "\<not> ?thesis"
      then obtain y where "read_loop d (len - ?n) (?s, BlockStorageStream_CurrentAddress s, q + ?n, w, b) = Some y"
        by blast
      moreover have "0 < unat (len - ?n)" using rest False assms(3) by simp
      moreover have "unat (Length s) + unat (len - ?n) < 2 ^ 32"
        unfolding rest by (rule le_less_trans [OF _ assms(4)]) simp
      ultimately have hangs: "read_loop d (len - ?n) (?s, BlockStorageStream_CurrentAddress s, q + ?n, w, b) = Some y"
        "len - ?n \<noteq> 0" "unat (Length ?s) + unat (len - ?n) < 2 ^ 32" by auto
      show False by (rule read_loop_stuck [OF hangs(1) assms(1) hangs(2) _ hangs(3)]) simp
    qed
    ultimately show ?thesis using False by simp
  qed
qed

text \<open>
  C19: \<open>NextStream\<close> and \<open>PrevStream\<close> never move a stream: both return false at once and leave it as it
  is, because a device never has a predecessor.
\<close>

theorem next_and_prev_stream_never_move:
  "BlockStorageStream_NextStream stream b = Some (Ret (False, stream)) \<and>
   BlockStorageStream_PrevStream stream b = Some (Ret (False, stream))"
  by (simp add: BlockStorageStream_NextStream_def BlockStorageStream_PrevStream_def stream_back_def
      BlockStorageDevice_Prev_def)

text \<open>
  The block found for a physical address is the block that holds it: on a well-formed description
  of the first device, an address inside of a region yields a block start that lies at or below the
  address by less than a block, on a block boundary of the region.
\<close>

theorem physical_address_block:
  assumes "BlockStorageList_GetFirstDevice b = Ret (Some dv)"
    and "BlockStorageDevice_GetDeviceInfo (Some dv) b = Ret d"
    and "wf_device d" "length (Regions d) < 2 ^ 31"
    and "i < length (Regions d)" "unat (Start (Regions d ! i)) \<le> unat a" "unat a < region_end (Regions d ! i)"
  shows "\<exists>blk n. BlockStorageList_FindDeviceForPhysicalAddress a x b = Ret (True, Some dv, blk) \<and>
     unat blk = unat (Start (Regions d ! i)) + n * unat (BytesPerBlock (Regions d ! i)) \<and>
     unat blk \<le> unat a \<and> unat a < unat blk + unat (BytesPerBlock (Regions d ! i))"
proof -
  let ?r = "Regions d ! i"
  let ?B = "unat (BytesPerBlock ?r)" and ?o = "unat a - unat (Start ?r)"
  have l: "device_layout d" using assms by unfold_locales
  have r: "wf_region ?r" using wf_device_region [OF assms(3,5)] .
  have h: "region_holds ?r a" using region_holds_iff [OF r] assms(6,7) by simp
  have B: "0 < ?B" using r by (simp add: wf_region_def)
  have "?o div ?B * ?B \<le> ?o" "?o < ?o div ?B * ?B + ?B"
    using B by (simp_all add: dividend_less_div_times add.commute)
  then have "unat (block_start ?r a) \<le> unat a" "unat a < unat (block_start ?r a) + ?B"
    unfolding block_start_unat [OF r h] using assms(6) by linarith+
  with block_start_unat [OF r h] show ?thesis
    using assms(1,2) device_layout.physical_loop_finds [OF l le0 assms(5) h]
    by (auto simp: BlockStorageList_FindDeviceForPhysicalAddress_def)
qed

text \<open>
  The device count drifts from the list: adding a device (without initialising it) to the empty
  list and removing it again leaves the list empty but the count at one.
\<close>

theorem remove_device_keeps_count:
  assumes "BlockStorageList_AddDevice dv vtable config False (BlockStorageList_Initialize b) = Ret (True, b')"
    and "BlockStorageList_RemoveDevice dv False b' = Ret (removed, b'')"
  shows "removed \<and> DeviceList b'' = [None] \<and> DeviceCount b'' = 1"
proof -
  have b': "DeviceList b' = [Some dv]" "DeviceCount b' = 1"
    using assms(1)
    by (auto simp: BlockStorageList_AddDevice_def BlockStorageList_Initialize_def Let_def
        TARGET_BLOCKSTORAGE_COUNT_def add_loop.simps c_index_in_bounds)
  show ?thesis
    using assms(2) b'
    by (auto simp: BlockStorageList_RemoveDevice_def TARGET_BLOCKSTORAGE_COUNT_def
        remove_loop.simps c_index_in_bounds)
qed

end
