(* ===== verification/NF_DeviceTables.thy ===== *)
theory NF_DeviceTables
  imports NF_BlockLayout
begin

text \<open>
  The storage tables of the targets, \<open>targets/.../common/Device_BlockStorage*.c\<close>: one description and
  one configuration per target and build flavour. Every description but the one of the 2 MB ESP32 is a
  \<open>device_layout\<close>; those of the STM32 targets tile the whole flash memory of the part.
\<close>

section \<open>The tables\<close>

definition Device_BlockInfo_STM32F429I_DISCOVERY :: DeviceBlockInfo where
  "Device_BlockInfo_STM32F429I_DISCOVERY =
     \<lparr>Attribute = MediaAttribute_SupportsXIP, BytesPerSector = 2, NumRegions = 6,
      Regions = [
        \<lparr>Attributes = 0, Start = 0x08000000, NumBlocks = 4, BytesPerBlock = 0x4000,
          NumBlockRanges = 2, BlockRanges = [
            \<lparr>RangeType = BlockRange_BLOCKTYPE_BOOTSTRAP, StartBlock = 0, EndBlock = 0\<rparr>,
            \<lparr>RangeType = BlockRange_BLOCKTYPE_CODE, StartBlock = 1, EndBlock = 3\<rparr>]\<rparr>,
        \<lparr>Attributes = 0, Start = 0x08010000, NumBlocks = 1, BytesPerBlock = 0x10000,
          NumBlockRanges = 1, BlockRanges = [
            \<lparr>RangeType = BlockRange_BLOCKTYPE_CODE, StartBlock = 0, EndBlock = 0\<rparr>]\<rparr>,
        \<lparr>Attributes = 0, Start = 0x08020000, NumBlocks = 7, BytesPerBlock = 0x20000,
          NumBlockRanges = 2, BlockRanges = [
            \<lparr>RangeType = BlockRange_BLOCKTYPE_CODE, StartBlock = 0, EndBlock = 0\<rparr>,
            \<lparr>RangeType = BlockRange_BLOCKTYPE_DEPLOYMENT, StartBlock = 1, EndBlock = 6\<rparr>]\<rparr>,
        \<lparr>Attributes = 0, Start = 0x08100000, NumBlocks = 4, BytesPerBlock = 0x4000,
          NumBlockRanges = 1, BlockRanges = [
            \<lparr>RangeType = BlockRange_BLOCKTYPE_DEPLOYMENT, StartBlock = 0, EndBlock = 3\<rparr>]\<rparr>,
        \<lparr>Attributes = 0, Start = 0x08110000, NumBlocks = 1, BytesPerBlock = 0x10000,
          NumBlockRanges = 1, BlockRanges = [
            \<lparr>RangeType = BlockRange_BLOCKTYPE_DEPLOYMENT, StartBlock = 0, EndBlock = 0\<rparr>]\<rparr>,
        \<lparr>Attributes = 0, Start = 0x08120000, NumBlocks = 7, BytesPerBlock = 0x20000,
          NumBlockRanges = 1, BlockRanges = [
            \<lparr>RangeType = BlockRange_BLOCKTYPE_DEPLOYMENT, StartBlock = 0, EndBlock = 6\<rparr>]\<rparr>]\<rparr>"

definition Device_BlockStorageConfig_STM32F429I_DISCOVERY :: block_config where
  "Device_BlockStorageConfig_STM32F429I_DISCOVERY =
     \<lparr>BlockDeviceInformation = Device_BlockInfo_STM32F429I_DISCOVERY,
      BaseAddress_cfg = 0x08000000, SizeInBytes_cfg = 0x00200000\<rparr>"

definition Device_BlockInfo_STM32F429I_DISCOVERY_DEBUG :: DeviceBlockInfo where
  "Device_BlockInfo_STM32F429I_DISCOVERY_DEBUG =
     \<lparr>Attribute = MediaAttribute_SupportsXIP, BytesPerSector = 2, NumRegions = 6,
      Regions = [
        \<lparr>Attributes = 0, Start = 0x08000000, NumBlocks = 4, BytesPerBlock = 0x4000,
          NumBlockRanges = 2, BlockRanges = [
            \<lparr>RangeType = BlockRange_BLOCKTYPE_BOOTSTRAP, StartBlock = 0, EndBlock = 1\<rparr>,
            \<lparr>RangeType = BlockRange_BLOCKTYPE_CODE, StartBlock = 2, EndBlock = 3\<rparr>]\<rparr>,
        \<lparr>Attributes = 0, Start = 0x08010000, NumBlocks = 1, BytesPerBlock = 0x10000,
          NumBlockRanges = 1, BlockRanges = [
            \<lparr>RangeType = BlockRange_BLOCKTYPE_CODE, StartBlock = 0, EndBlock = 0\<rparr>]\<rparr>,
        \<lparr>Attributes = 0, Start = 0x08020000, NumBlocks = 7, BytesPerBlock = 0x20000,
          NumBlockRanges = 2, BlockRanges = [
            \<lparr>RangeType = BlockRange_BLOCKTYPE_CODE, StartBlock = 0, EndBlock = 3\<rparr>,
            \<lparr>RangeType = BlockRange_BLOCKTYPE_DEPLOYMENT, StartBlock = 4, EndBlock = 6\<rparr>]\<rparr>,
        \<lparr>Attributes = 0, Start = 0x08100000, NumBlocks = 4, BytesPerBlock = 0x4000,
          NumBlockRanges = 1, BlockRanges = [
            \<lparr>RangeType = BlockRange_BLOCKTYPE_DEPLOYMENT, StartBlock = 0, EndBlock = 3\<rparr>]\<rparr>,
        \<lparr>Attributes = 0, Start = 0x08110000, NumBlocks = 1, BytesPerBlock = 0x10000,
          NumBlockRanges = 1, BlockRanges = [
            \<lparr>RangeType = BlockRange_BLOCKTYPE_DEPLOYMENT, StartBlock = 0, EndBlock = 0\<rparr>]\<rparr>,
        \<lparr>Attributes = 0, Start = 0x08120000, NumBlocks = 7, BytesPerBlock = 0x20000,
          NumBlockRanges = 1, BlockRanges = [
            \<lparr>RangeType = BlockRange_BLOCKTYPE_DEPLOYMENT, StartBlock = 0, EndBlock = 6\<rparr>]\<rparr>]\<rparr>"

definition Device_BlockStorageConfig_STM32F429I_DISCOVERY_DEBUG :: block_config where
  "Device_BlockStorageConfig_STM32F429I_DISCOVERY_DEBUG =
     \<lparr>BlockDeviceInformation = Device_BlockInfo_STM32F429I_DISCOVERY_DEBUG,
      BaseAddress_cfg = 0x08000000, SizeInBytes_cfg = 0x00200000\<rparr>"

definition Device_BlockInfo_NETDUINO3_WIFI :: DeviceBlockInfo where
  "Device_BlockInfo_NETDUINO3_WIFI =
     \<lparr>Attribute = MediaAttribute_SupportsXIP, BytesPerSector = 2, NumRegions = 6,
      Regions = [
        \<lparr>Attributes = 0, Start = 0x08000000, NumBlocks = 4, BytesPerBlock = 0x4000,
          NumBlockRanges = 2, BlockRanges = [
            \<lparr>RangeType = BlockRange_BLOCKTYPE_BOOTSTRAP, StartBlock = 0, EndBlock = 0\<rparr>,
            \<lparr>RangeType = BlockRange_BLOCKTYPE_CODE, StartBlock = 1, EndBlock = 3\<rparr>]\<rparr>,
        \<lparr>Attributes = 0, Start = 0x08010000, NumBlocks = 1, BytesPerBlock = 0x10000,
          NumBlockRanges = 1, BlockRanges = [
            \<lparr>RangeType = BlockRange_BLOCKTYPE_CODE, StartBlock = 0, EndBlock = 0\<rparr>]\<rparr>,
        \<lparr>Attributes = 0, Start = 0x08020000, NumBlocks = 7, BytesPerBlock = 0x20000,
          NumBlockRanges = 2, BlockRanges = [
            \<lparr>RangeType = BlockRange_BLOCKTYPE_CODE, StartBlock = 0, EndBlock = 0\<rparr>,
            \<lparr>RangeType = BlockRange_BLOCKTYPE_DEPLOYMENT, StartBlock = 1, EndBlock = 6\<rparr>]\<rparr>,
        \<lparr>Attributes = 0, Start = 0x08100000, NumBlocks = 4, BytesPerBlock = 0x4000,
          NumBlockRanges = 1, BlockRanges = [
            \<lparr>RangeType = BlockRange_BLOCKTYPE_DEPLOYMENT, StartBlock = 0, EndBlock = 3\<rparr>]\<rparr>,
        \<lparr>Attributes = 0, Start = 0x08110000, NumBlocks = 1, BytesPerBlock = 0x10000,
          NumBlockRanges = 1, BlockRanges = [
            \<lparr>RangeType = BlockRange_BLOCKTYPE_DEPLOYMENT, StartBlock = 0, EndBlock = 0\<rparr>]\<rparr>,
        \<lparr>Attributes = 0, Start = 0x08120000, NumBlocks = 7, BytesPerBlock = 0x20000,
          NumBlockRanges = 1, BlockRanges = [
            \<lparr>RangeType = BlockRange_BLOCKTYPE_DEPLOYMENT, StartBlock = 0, EndBlock = 6\<rparr>]\<rparr>]\<rparr>"

definition Device_BlockStorageConfig_NETDUINO3_WIFI :: block_config where
  "Device_BlockStorageConfig_NETDUINO3_WIFI =
     \<lparr>BlockDeviceInformation = Device_BlockInfo_NETDUINO3_WIFI,
      BaseAddress_cfg = 0x08000000, SizeInBytes_cfg = 0x00200000\<rparr>"

definition Device_BlockInfo_NETDUINO3_WIFI_DEBUG :: DeviceBlockInfo where
  "Device_BlockInfo_NETDUINO3_WIFI_DEBUG =
     \<lparr>Attribute = MediaAttribute_SupportsXIP, BytesPerSector = 2, NumRegions = 6,
      Regions = [
        \<lparr>Attributes = 0, Start = 0x08000000, NumBlocks = 4, BytesPerBlock = 0x4000,
          NumBlockRanges = 2, BlockRanges = [
            \<lparr>RangeType = BlockRange_BLOCKTYPE_BOOTSTRAP, StartBlock = 0, EndBlock = 1\<rparr>,
            \<lparr>RangeType = BlockRange_BLOCKTYPE_CODE, StartBlock = 2, EndBlock = 3\<rparr>]\<rparr>,
        \<lparr>Attributes = 0, Start = 0x08010000, NumBlocks = 1, BytesPerBlock = 0x10000,
          NumBlockRanges = 1, BlockRanges = [
            \<lparr>RangeType = BlockRange_BLOCKTYPE_CODE, StartBlock = 0, EndBlock = 0\<rparr>]\<rparr>,
        \<lparr>Attributes = 0, Start = 0x08020000, NumBlocks = 7, BytesPerBlock = 0x20000,
          NumBlockRanges = 2, BlockRanges = [
            \<lparr>RangeType = BlockRange_BLOCKTYPE_CODE, StartBlock = 0, EndBlock = 3\<rparr>,
            \<lparr>RangeType = BlockRange_BLOCKTYPE_DEPLOYMENT, StartBlock = 4, EndBlock = 6\<rparr>]\<rparr>,
        \<lparr>Attributes = 0, Start = 0x08100000, NumBlocks = 4, BytesPerBlock = 0x4000,
          NumBlockRanges = 1, BlockRanges = [
            \<lparr>RangeType = BlockRange_BLOCKTYPE_DEPLOYMENT, StartBlock = 0, EndBlock = 3\<rparr>]\<rparr>,
        \<lparr>Attributes = 0, Start = 0x08110000, NumBlocks = 1, BytesPerBlock = 0x10000,
          NumBlockRanges = 1, BlockRanges = [
            \<lparr>RangeType = BlockRange_BLOCKTYPE_DEPLOYMENT, StartBlock = 0, EndBlock = 0\<rparr>]\<rparr>,
        \<lparr>Attributes = 0, Start = 0x08120000, NumBlocks = 7, BytesPerBlock = 0x20000,
          NumBlockRanges = 1, BlockRanges = [
            \<lparr>RangeType = BlockRange_BLOCKTYPE_DEPLOYMENT, StartBlock = 0, EndBlock = 6\<rparr>]\<rparr>]\<rparr>"

definition Device_BlockStorageConfig_NETDUINO3_WIFI_DEBUG :: block_config where
  "Device_BlockStorageConfig_NETDUINO3_WIFI_DEBUG =
     \<lparr>BlockDeviceInformation = Device_BlockInfo_NETDUINO3_WIFI_DEBUG,
      BaseAddress_cfg = 0x08000000, SizeInBytes_cfg = 0x00200000\<rparr>"

definition Device_BlockInfo_MBN_QUAIL :: DeviceBlockInfo where
  "Device_BlockInfo_MBN_QUAIL =
     \<lparr>Attribute = MediaAttribute_SupportsXIP, BytesPerSector = 2, NumRegions = 6,
      Regions = [
        \<lparr>Attributes = 0, Start = 0x08000000, NumBlocks = 4, BytesPerBlock = 0x4000,
          NumBlockRanges = 2, BlockRanges = [
            \<lparr>RangeType = BlockRange_BLOCKTYPE_BOOTSTRAP, StartBlock = 0, EndBlock = 0\<rparr>,
            \<lparr>RangeType = BlockRange_BLOCKTYPE_CODE, StartBlock = 1, EndBlock = 3\<rparr>]\<rparr>,
        \<lparr>Attributes = 0, Start = 0x08010000, NumBlocks = 1, BytesPerBlock = 0x10000,
          NumBlockRanges = 1, BlockRanges = [
            \<lparr>RangeType = BlockRange_BLOCKTYPE_CODE, StartBlock = 0, EndBlock = 0\<rparr>]\<rparr>,
        \<lparr>Attributes = 0, Start = 0x08020000, NumBlocks = 7, BytesPerBlock = 0x20000,
          NumBlockRanges = 2, BlockRanges = [
            \<lparr>RangeType = BlockRange_BLOCKTYPE_CODE, StartBlock = 0, EndBlock = 0\<rparr>,
            \<lparr>RangeType = BlockRange_BLOCKTYPE_DEPLOYMENT, StartBlock = 1, EndBlock = 6\<rparr>]\<rparr>,
        \<lparr>Attributes = 0, Start = 0x08100000, NumBlocks = 4, BytesPerBlock = 0x4000,
          NumBlockRanges = 1, BlockRanges = [
            \<lparr>RangeType = BlockRange_BLOCKTYPE_DEPLOYMENT, StartBlock = 0, EndBlock = 3\<rparr>]\<rparr>,
        \<lparr>Attributes = 0, Start = 0x08110000, NumBlocks = 1, BytesPerBlock = 0x10000,
          NumBlockRanges = 1, BlockRanges = [
            \<lparr>RangeType = BlockRange_BLOCKTYPE_DEPLOYMENT, StartBlock = 0, EndBlock = 0\<rparr>]\<rparr>,
        \<lparr>Attributes = 0, Start = 0x08120000, NumBlocks = 7, BytesPerBlock = 0x20000,
          NumBlockRanges = 1, BlockRanges = [
            \<lparr>RangeType = BlockRange_BLOCKTYPE_DEPLOYMENT, StartBlock = 0, EndBlock = 6\<rparr>]\<rparr>]\<rparr>"

definition Device_BlockStorageConfig_MBN_QUAIL :: block_config where
  "Device_BlockStorageConfig_MBN_QUAIL =
     \<lparr>BlockDeviceInformation = Device_BlockInfo_MBN_QUAIL,
      BaseAddress_cfg = 0x08000000, SizeInBytes_cfg = 0x00200000\<rparr>"

definition Device_BlockInfo_MBN_QUAIL_DEBUG :: DeviceBlockInfo where
  "Device_BlockInfo_MBN_QUAIL_DEBUG =
     \<lparr>Attribute = MediaAttribute_SupportsXIP, BytesPerSector = 2, NumRegions = 6,
      Regions = [
        \<lparr>Attributes = 0, Start = 0x08000000, NumBlocks = 4, BytesPerBlock = 0x4000,
          NumBlockRanges = 2, BlockRanges = [
            \<lparr>RangeType = BlockRange_BLOCKTYPE_BOOTSTRAP, StartBlock = 0, EndBlock = 1\<rparr>,
            \<lparr>RangeType = BlockRange_BLOCKTYPE_CODE, StartBlock = 2, EndBlock = 3\<rparr>]\<rparr>,
        \<lparr>Attributes = 0, Start = 0x08010000, NumBlocks = 1, BytesPerBlock = 0x10000,
          NumBlockRanges = 1, BlockRanges = [
            \<lparr>RangeType = BlockRange_BLOCKTYPE_CODE, StartBlock = 0, EndBlock = 0\<rparr>]\<rparr>,
        \<lparr>Attributes = 0, Start = 0x08020000, NumBlocks = 7, BytesPerBlock = 0x20000,
          NumBlockRanges = 2, BlockRanges = [
            \<lparr>RangeType = BlockRange_BLOCKTYPE_CODE, StartBlock = 0, EndBlock = 3\<rparr>,
            \<lparr>RangeType = BlockRange_BLOCKTYPE_DEPLOYMENT, StartBlock = 4, EndBlock = 6\<rparr>]\<rparr>,
        \<lparr>Attributes = 0, Start = 0x08100000, NumBlocks = 4, BytesPerBlock = 0x4000,
          NumBlockRanges = 1, BlockRanges = [
            \<lparr>RangeType = BlockRange_BLOCKTYPE_DEPLOYMENT, StartBlock = 0, EndBlock = 3\<rparr>]\<rparr>,
        \<lparr>Attributes = 0, Start = 0x08110000, NumBlocks = 1, BytesPerBlock = 0x10000,
          NumBlockRanges = 1, BlockRanges = [
            \<lparr>RangeType = BlockRange_BLOCKTYPE_DEPLOYMENT, StartBlock = 0, EndBlock = 0\<rparr>]\<rparr>,
        \<lparr>Attributes = 0, Start = 0x08120000, NumBlocks = 7, BytesPerBlock = 0x20000,
          NumBlockRanges = 1, BlockRanges = [
            \<lparr>RangeType = BlockRange_BLOCKTYPE_DEPLOYMENT, StartBlock = 0, EndBlock = 6\<rparr>]\<rparr>]\<rparr>"

definition Device_BlockStorageConfig_MBN_QUAIL_DEBUG :: block_config where
  "Device_BlockStorageConfig_MBN_QUAIL_DEBUG =
     \<lparr>BlockDeviceInformation = Device_BlockInfo_MBN_QUAIL_DEBUG,
      BaseAddress_cfg = 0x08000000, SizeInBytes_cfg = 0x00200000\<rparr>"

definition Device_BlockInfo_STM32F769I_DISCOVERY :: DeviceBlockInfo where
  "Device_BlockInfo_STM32F769I_DISCOVERY =
     \<lparr>Attribute = MediaAttribute_SupportsXIP, BytesPerSector = 2, NumRegions = 3,
      Regions = [
        \<lparr>Attributes = 0, Start = 0x08000000, NumBlocks = 4, BytesPerBlock = 0x8000,
          NumBlockRanges = 3, BlockRanges = [
            \<lparr>RangeType = BlockRange_BLOCKTYPE_BOOTSTRAP, StartBlock = 0, EndBlock = 0\<rparr>,
            \<lparr>RangeType = BlockRange_BLOCKTYPE_CONFIG, StartBlock = 1, EndBlock = 1\<rparr>,
            \<lparr>RangeType = BlockRange_BLOCKTYPE_CODE, StartBlock = 2, EndBlock = 3\<rparr>]\<rparr>,
        \<lparr>Attributes = 0, Start = 0x08020000, NumBlocks = 1, BytesPerBlock = 0x20000,
          NumBlockRanges = 1, BlockRanges = [
            \<lparr>RangeType = BlockRange_BLOCKTYPE_CODE, StartBlock = 0, EndBlock = 0\<rparr>]\<rparr>,
        \<lparr>Attributes = 0, Start = 0x08040000, NumBlocks = 7, BytesPerBlock = 0x40000,
          NumBlockRanges = 2, BlockRanges = [
            \<lparr>RangeType = BlockRange_BLOCKTYPE_CODE, StartBlock = 0, EndBlock = 0\<rparr>,
            \<lparr>RangeType = BlockRange_BLOCKTYPE_DEPLOYMENT, StartBlock = 1, EndBlock = 6\<rparr>]\<rparr>]\<rparr>"

definition Device_BlockStorageConfig_STM32F769I_DISCOVERY :: block_config where
  "Device_BlockStorageConfig_STM32F769I_DISCOVERY =
     \<lparr>BlockDeviceInformation = Device_BlockInfo_STM32F769I_DISCOVERY,
      BaseAddress_cfg = 0x08000000, SizeInBytes_cfg = 0x00200000\<rparr>"

definition Device_BlockInfo_STM32F769I_DISCOVERY_DEBUG :: DeviceBlockInfo where
  "Device_BlockInfo_STM32F769I_DISCOVERY_DEBUG =
     \<lparr>Attribute = MediaAttribute_SupportsXIP, BytesPerSector = 2, NumRegions = 3,
      Regions = [
        \<lparr>Attributes = 0, Start = 0x08000000, NumBlocks = 4, BytesPerBlock = 0x8000,
          NumBlockRanges = 3, BlockRanges = [
            \<lparr>RangeType = BlockRange_BLOCKTYPE_BOOTSTRAP, StartBlock = 0, EndBlock = 0\<rparr>,
            \<lparr>RangeType = BlockRange_BLOCKTYPE_CONFIG, StartBlock = 1, EndBlock = 1\<rparr>,
            \<lparr>RangeType = BlockRange_BLOCKTYPE_CODE, StartBlock = 2, EndBlock = 3\<rparr>]\<rparr>,
        \<lparr>Attributes = 0, Start = 0x08020000, NumBlocks = 1, BytesPerBlock = 0x20000,
          NumBlockRanges = 1, BlockRanges = [
            \<lparr>RangeType = BlockRange_BLOCKTYPE_CODE, StartBlock = 0, EndBlock = 0\<rparr>]\<rparr>,
        \<lparr>Attributes = 0, Start = 0x08040000, NumBlocks = 7, BytesPerBlock = 0x40000,
          NumBlockRanges = 2, BlockRanges = [
            \<lparr>RangeType = BlockRange_BLOCKTYPE_CODE, StartBlock = 0, EndBlock = 1\<rparr>,
            \<lparr>RangeType = BlockRange_BLOCKTYPE_DEPLOYMENT, StartBlock = 2, EndBlock = 6\<rparr>]\<rparr>]\<rparr>"

definition Device_BlockStorageConfig_STM32F769I_DISCOVERY_DEBUG :: block_config where
  "Device_BlockStorageConfig_STM32F769I_DISCOVERY_DEBUG =
     \<lparr>BlockDeviceInformation = Device_BlockInfo_STM32F769I_DISCOVERY_DEBUG,
      BaseAddress_cfg = 0x08000000, SizeInBytes_cfg = 0x00200000\<rparr>"

definition Device_BlockInfo_NUCLEO64_F091RC :: DeviceBlockInfo where
  "Device_BlockInfo_NUCLEO64_F091RC =
     \<lparr>Attribute = MediaAttribute_SupportsXIP, BytesPerSector = 2, NumRegions = 1,
      Regions = [
        \<lparr>Attributes = 0, Start = 0x08000000, NumBlocks = 128, BytesPerBlock = 0x800,
          NumBlockRanges = 3, BlockRanges = [
            \<lparr>RangeType = BlockRange_BLOCKTYPE_BOOTSTRAP, StartBlock = 0, EndBlock = 4\<rparr>,
            \<lparr>RangeType = BlockRange_BLOCKTYPE_CODE, StartBlock = 5, EndBlock = 83\<rparr>,
            \<lparr>RangeType = BlockRange_BLOCKTYPE_DEPLOYMENT, StartBlock = 84, EndBlock = 127\<rparr>]\<rparr>]\<rparr>"

definition Device_BlockStorageConfig_NUCLEO64_F091RC :: block_config where
  "Device_BlockStorageConfig_NUCLEO64_F091RC =
     \<lparr>BlockDeviceInformation = Device_BlockInfo_NUCLEO64_F091RC,
      BaseAddress_cfg = 0x08000000, SizeInBytes_cfg = 0x00040000\<rparr>"

definition Device_BlockInfo_NUCLEO64_F091RC_DEBUG :: DeviceBlockInfo where
  "Device_BlockInfo_NUCLEO64_F091RC_DEBUG =
     \<lparr>Attribute = MediaAttribute_SupportsXIP, BytesPerSector = 2, NumRegions = 1,
      Regions = [
        \<lparr>Attributes = 0, Start = 0x08000000, NumBlocks = 128, BytesPerBlock = 0x800,
          NumBlockRanges = 3, BlockRanges = [
            \<lparr>RangeType = BlockRange_BLOCKTYPE_BOOTSTRAP, StartBlock = 0, EndBlock = 4\<rparr>,
            \<lparr>RangeType = BlockRange_BLOCKTYPE_CODE, StartBlock = 5, EndBlock = 94\<rparr>,
            \<lparr>RangeType = BlockRange_BLOCKTYPE_DEPLOYMENT, StartBlock = 95, EndBlock = 127\<rparr>]\<rparr>]\<rparr>"

definition Device_BlockStorageConfig_NUCLEO64_F091RC_DEBUG :: block_config where
  "Device_BlockStorageConfig_NUCLEO64_F091RC_DEBUG =
     \<lparr>BlockDeviceInformation = Device_BlockInfo_NUCLEO64_F091RC_DEBUG,
      BaseAddress_cfg = 0x08000000, SizeInBytes_cfg = 0x00040000\<rparr>"

definition Device_BlockInfo_MIMXRT1060_EVK :: DeviceBlockInfo where
  "Device_BlockInfo_MIMXRT1060_EVK =
     \<lparr>Attribute = MediaAttribute_SupportsXIP, BytesPerSector = 2, NumRegions = 1,
      Regions = [
        \<lparr>Attributes = 0, Start = 0x60000000, NumBlocks = 0x300, BytesPerBlock = 0x1000,
          NumBlockRanges = 4, BlockRanges = [
            \<lparr>RangeType = BlockRange_BLOCKTYPE_BOOTSTRAP, StartBlock = 0x000, EndBlock = 0x00F\<rparr>,
            \<lparr>RangeType = BlockRange_BLOCKTYPE_CONFIG, StartBlock = 0x010, EndBlock = 0x01F\<rparr>,
            \<lparr>RangeType = BlockRange_BLOCKTYPE_CODE, StartBlock = 0x020, EndBlock = 0x1FF\<rparr>,
            \<lparr>RangeType = BlockRange_BLOCKTYPE_DEPLOYMENT, StartBlock = 0x200, EndBlock = 0x2FF\<rparr>]\<rparr>]\<rparr>"

definition Device_BlockStorageConfig_MIMXRT1060_EVK :: block_config where
  "Device_BlockStorageConfig_MIMXRT1060_EVK =
     \<lparr>BlockDeviceInformation = Device_BlockInfo_MIMXRT1060_EVK,
      BaseAddress_cfg = 0x60000000, SizeInBytes_cfg = 0x00800000\<rparr>"

definition Device_BlockInfo_CC3220SF_LAUNCHXL :: DeviceBlockInfo where
  "Device_BlockInfo_CC3220SF_LAUNCHXL =
     \<lparr>Attribute = MediaAttribute_SupportsXIP, BytesPerSector = 2, NumRegions = 1,
      Regions = [
        \<lparr>Attributes = 0, Start = 0x01000800, NumBlocks = 511, BytesPerBlock = 0x800,
          NumBlockRanges = 2, BlockRanges = [
            \<lparr>RangeType = BlockRange_BLOCKTYPE_CODE, StartBlock = 0, EndBlock = 93\<rparr>,
            \<lparr>RangeType = BlockRange_BLOCKTYPE_DEPLOYMENT, StartBlock = 94, EndBlock = 510\<rparr>]\<rparr>]\<rparr>"

definition Device_BlockStorageConfig_CC3220SF_LAUNCHXL :: block_config where
  "Device_BlockStorageConfig_CC3220SF_LAUNCHXL =
     \<lparr>BlockDeviceInformation = Device_BlockInfo_CC3220SF_LAUNCHXL,
      BaseAddress_cfg = 0x08000000, SizeInBytes_cfg = 0x00200000\<rparr>"

definition Device_BlockInfo_CC3220SF_LAUNCHXL_DEBUG :: DeviceBlockInfo where
  "Device_BlockInfo_CC3220SF_LAUNCHXL_DEBUG =
     \<lparr>Attribute = MediaAttribute_SupportsXIP, BytesPerSector = 2, NumRegions = 1,
      Regions = [
        \<lparr>Attributes = 0, Start = 0x01000800, NumBlocks = 511, BytesPerBlock = 0x800,
          NumBlockRanges = 2, BlockRanges = [
            \<lparr>RangeType = BlockRange_BLOCKTYPE_CODE, StartBlock = 0, EndBlock = 124\<rparr>,
            \<lparr>RangeType = BlockRange_BLOCKTYPE_DEPLOYMENT, StartBlock = 125, EndBlock = 510\<rparr>]\<rparr>]\<rparr>"

definition Device_BlockStorageConfig_CC3220SF_LAUNCHXL_DEBUG :: block_config where
  "Device_BlockStorageConfig_CC3220SF_LAUNCHXL_DEBUG =
     \<lparr>BlockDeviceInformation = Device_BlockInfo_CC3220SF_LAUNCHXL_DEBUG,
      BaseAddress_cfg = 0x08000000, SizeInBytes_cfg = 0x00200000\<rparr>"

definition Device_BlockInfo_ESP32_4MB :: DeviceBlockInfo where
  "Device_BlockInfo_ESP32_4MB =
     \<lparr>Attribute = 0, BytesPerSector = 1, NumRegions = 3,
      Regions = [
        \<lparr>Attributes = 0, Start = 0x010000, NumBlocks = 1, BytesPerBlock = 0x100000,
          NumBlockRanges = 1, BlockRanges = [
            \<lparr>RangeType = BlockRange_BLOCKTYPE_CODE, StartBlock = 0, EndBlock = 0\<rparr>]\<rparr>,
        \<lparr>Attributes = BlockRegionAttribute_MemoryMapped, Start = 0x110000, NumBlocks = 1, BytesPerBlock = 0x1C0000,
          NumBlockRanges = 1, BlockRanges = [
            \<lparr>RangeType = BlockRange_BLOCKTYPE_DEPLOYMENT, StartBlock = 0, EndBlock = 0\<rparr>]\<rparr>,
        \<lparr>Attributes = 0, Start = 0x2D0000, NumBlocks = 1, BytesPerBlock = 0x40000,
          NumBlockRanges = 1, BlockRanges = [
            \<lparr>RangeType = BlockRange_BLOCKTYPE_CONFIG, StartBlock = 0, EndBlock = 0\<rparr>]\<rparr>]\<rparr>"

definition Device_BlockStorageConfig_ESP32_4MB :: block_config where
  "Device_BlockStorageConfig_ESP32_4MB =
     \<lparr>BlockDeviceInformation = Device_BlockInfo_ESP32_4MB,
      BaseAddress_cfg = 0x00000000, SizeInBytes_cfg = 0x00000000\<rparr>"

definition Device_BlockInfo_ESP32_2MB :: DeviceBlockInfo where
  "Device_BlockInfo_ESP32_2MB =
     \<lparr>Attribute = 0, BytesPerSector = 1, NumRegions = 3,
      Regions = [
        \<lparr>Attributes = 0, Start = 0x010000, NumBlocks = 1, BytesPerBlock = 0x100000,
          NumBlockRanges = 1, BlockRanges = [
            \<lparr>RangeType = BlockRange_BLOCKTYPE_CODE, StartBlock = 0, EndBlock = 1\<rparr>]\<rparr>,
        \<lparr>Attributes = BlockRegionAttribute_MemoryMapped, Start = 0x110000, NumBlocks = 1, BytesPerBlock = 0x70000,
          NumBlockRanges = 1, BlockRanges = [
            \<lparr>RangeType = BlockRange_BLOCKTYPE_DEPLOYMENT, StartBlock = 0, EndBlock = 0\<rparr>]\<rparr>,
        \<lparr>Attributes = 0, Start = 0x0, NumBlocks = 1, BytesPerBlock = 0x10000,
          NumBlockRanges = 1, BlockRanges = [
            \<lparr>RangeType = BlockRange_BLOCKTYPE_CONFIG, StartBlock = 0, EndBlock = 0\<rparr>]\<rparr>]\<rparr>"

definition Device_BlockStorageConfig_ESP32_2MB :: block_config where
  "Device_BlockStorageConfig_ESP32_2MB =
     \<lparr>BlockDeviceInformation = Device_BlockInfo_ESP32_2MB,
      BaseAddress_cfg = 0x08000000, SizeInBytes_cfg = 0x00200000\<rparr>"

section \<open>Their layout\<close>

lemmas device_table_defs =
  Device_BlockInfo_STM32F429I_DISCOVERY_def
  Device_BlockInfo_STM32F429I_DISCOVERY_DEBUG_def
  Device_BlockInfo_NETDUINO3_WIFI_def
  Device_BlockInfo_NETDUINO3_WIFI_DEBUG_def
  Device_BlockInfo_MBN_QUAIL_def
  Device_BlockInfo_MBN_QUAIL_DEBUG_def
  Device_BlockInfo_STM32F769I_DISCOVERY_def
  Device_BlockInfo_STM32F769I_DISCOVERY_DEBUG_def
  Device_BlockInfo_NUCLEO64_F091RC_def
  Device_BlockInfo_NUCLEO64_F091RC_DEBUG_def
  Device_BlockInfo_MIMXRT1060_EVK_def
  Device_BlockInfo_CC3220SF_LAUNCHXL_def
  Device_BlockInfo_CC3220SF_LAUNCHXL_DEBUG_def
  Device_BlockInfo_ESP32_4MB_def
  Device_BlockInfo_ESP32_2MB_def

lemmas layout_simps =
  wf_device_def wf_region_def region_end_def

interpretation layout_STM32F429I_DISCOVERY: device_layout Device_BlockInfo_STM32F429I_DISCOVERY
  by unfold_locales (simp_all add: Device_BlockInfo_STM32F429I_DISCOVERY_def layout_simps)

interpretation layout_STM32F429I_DISCOVERY_DEBUG: device_layout Device_BlockInfo_STM32F429I_DISCOVERY_DEBUG
  by unfold_locales (simp_all add: Device_BlockInfo_STM32F429I_DISCOVERY_DEBUG_def layout_simps)

interpretation layout_NETDUINO3_WIFI: device_layout Device_BlockInfo_NETDUINO3_WIFI
  by unfold_locales (simp_all add: Device_BlockInfo_NETDUINO3_WIFI_def layout_simps)

interpretation layout_NETDUINO3_WIFI_DEBUG: device_layout Device_BlockInfo_NETDUINO3_WIFI_DEBUG
  by unfold_locales (simp_all add: Device_BlockInfo_NETDUINO3_WIFI_DEBUG_def layout_simps)

interpretation layout_MBN_QUAIL: device_layout Device_BlockInfo_MBN_QUAIL
  by unfold_locales (simp_all add: Device_BlockInfo_MBN_QUAIL_def layout_simps)

interpretation layout_MBN_QUAIL_DEBUG: device_layout Device_BlockInfo_MBN_QUAIL_DEBUG
  by unfold_locales (simp_all add: Device_BlockInfo_MBN_QUAIL_DEBUG_def layout_simps)

interpretation layout_STM32F769I_DISCOVERY: device_layout Device_BlockInfo_STM32F769I_DISCOVERY
  by unfold_locales (simp_all add: Device_BlockInfo_STM32F769I_DISCOVERY_def layout_simps)

interpretation layout_STM32F769I_DISCOVERY_DEBUG: device_layout Device_BlockInfo_STM32F769I_DISCOVERY_DEBUG
  by unfold_locales (simp_all add: Device_BlockInfo_STM32F769I_DISCOVERY_DEBUG_def layout_simps)

interpretation layout_NUCLEO64_F091RC: device_layout Device_BlockInfo_NUCLEO64_F091RC
  by unfold_locales (simp_all add: Device_BlockInfo_NUCLEO64_F091RC_def layout_simps)

interpretation layout_NUCLEO64_F091RC_DEBUG: device_layout Device_BlockInfo_NUCLEO64_F091RC_DEBUG
  by unfold_locales (simp_all add: Device_BlockInfo_NUCLEO64_F091RC_DEBUG_def layout_simps)

interpretation layout_MIMXRT1060_EVK: device_layout Device_BlockInfo_MIMXRT1060_EVK
  by unfold_locales (simp_all add: Device_BlockInfo_MIMXRT1060_EVK_def layout_simps)

interpretation layout_CC3220SF_LAUNCHXL: device_layout Device_BlockInfo_CC3220SF_LAUNCHXL
  by unfold_locales (simp_all add: Device_BlockInfo_CC3220SF_LAUNCHXL_def layout_simps)

interpretation layout_CC3220SF_LAUNCHXL_DEBUG: device_layout Device_BlockInfo_CC3220SF_LAUNCHXL_DEBUG
  by unfold_locales (simp_all add: Device_BlockInfo_CC3220SF_LAUNCHXL_DEBUG_def layout_simps)

interpretation layout_ESP32_4MB: device_layout Device_BlockInfo_ESP32_4MB
  by unfold_locales (simp_all add: Device_BlockInfo_ESP32_4MB_def layout_simps)

text \<open>The regions of a description leave no gap between two addresses.\<close>

fun regions_tile :: "nat \<Rightarrow> nat \<Rightarrow> BlockRegionInfo list \<Rightarrow> bool" where
  "regions_tile s e [] \<longleftrightarrow> s = e"
| "regions_tile s e (r # rs) \<longleftrightarrow> unat (Start r) = s \<and> regions_tile (region_end r) e rs"

lemma regions_tile_covers:
  "regions_tile s e rs \<Longrightarrow> s \<le> unat a \<Longrightarrow> unat a < e \<Longrightarrow>
     \<exists>i < length rs. unat (Start (rs ! i)) \<le> unat a \<and> unat a < region_end (rs ! i)"
proof (induction rs arbitrary: s)
  case (Cons r rs)
  show ?case
  proof (cases "unat a < region_end r")
    case True
    with Cons.prems show ?thesis by (intro exI [of _ 0]) simp
  next
    case False
    with Cons.prems Cons.IH [of "region_end r"] obtain i where
      "i < length rs" "unat (Start (rs ! i)) \<le> unat a" "unat a < region_end (rs ! i)" by auto
    then show ?thesis by (intro exI [of _ "Suc i"]) simp
  qed
qed simp

definition tiles_flash :: "block_config \<Rightarrow> bool" where
  "tiles_flash cfg \<longleftrightarrow>
     regions_tile (unat (BaseAddress_cfg cfg)) (unat (BaseAddress_cfg cfg) + unat (SizeInBytes_cfg cfg))
       (Regions (BlockDeviceInformation cfg))"

definition stm32_configs :: "block_config list" where
  "stm32_configs = [
     Device_BlockStorageConfig_STM32F429I_DISCOVERY, 
     Device_BlockStorageConfig_STM32F429I_DISCOVERY_DEBUG, 
     Device_BlockStorageConfig_NETDUINO3_WIFI, 
     Device_BlockStorageConfig_NETDUINO3_WIFI_DEBUG, 
     Device_BlockStorageConfig_MBN_QUAIL, 
     Device_BlockStorageConfig_MBN_QUAIL_DEBUG, 
     Device_BlockStorageConfig_STM32F769I_DISCOVERY, 
     Device_BlockStorageConfig_STM32F769I_DISCOVERY_DEBUG, 
     Device_BlockStorageConfig_NUCLEO64_F091RC, 
     Device_BlockStorageConfig_NUCLEO64_F091RC_DEBUG]"

lemma stm32_layouts:
  "cfg \<in> set stm32_configs \<Longrightarrow> device_layout (BlockDeviceInformation cfg) \<and> tiles_flash cfg"
  unfolding stm32_configs_def
  by (auto simp: tiles_flash_def region_end_def
      Device_BlockStorageConfig_STM32F429I_DISCOVERY_def
      Device_BlockStorageConfig_STM32F429I_DISCOVERY_DEBUG_def
      Device_BlockStorageConfig_NETDUINO3_WIFI_def
      Device_BlockStorageConfig_NETDUINO3_WIFI_DEBUG_def
      Device_BlockStorageConfig_MBN_QUAIL_def
      Device_BlockStorageConfig_MBN_QUAIL_DEBUG_def
      Device_BlockStorageConfig_STM32F769I_DISCOVERY_def
      Device_BlockStorageConfig_STM32F769I_DISCOVERY_DEBUG_def
      Device_BlockStorageConfig_NUCLEO64_F091RC_def
      Device_BlockStorageConfig_NUCLEO64_F091RC_DEBUG_def
    intro!: layout_STM32F429I_DISCOVERY.device_layout_axioms layout_STM32F429I_DISCOVERY_DEBUG.device_layout_axioms layout_NETDUINO3_WIFI.device_layout_axioms layout_NETDUINO3_WIFI_DEBUG.device_layout_axioms layout_MBN_QUAIL.device_layout_axioms layout_MBN_QUAIL_DEBUG.device_layout_axioms layout_STM32F769I_DISCOVERY.device_layout_axioms layout_STM32F769I_DISCOVERY_DEBUG.device_layout_axioms layout_NUCLEO64_F091RC.device_layout_axioms layout_NUCLEO64_F091RC_DEBUG.device_layout_axioms)
     (simp_all add: device_table_defs region_end_def)

section \<open>Properties\<close>

text \<open>
  On every STM32 target the storage table accounts for the whole flash memory: each address from
  the base address of the configuration up to its size is found, in a region and range that hold it.
\<close>

theorem stm32_tables_account_for_all_flash:
  assumes "cfg \<in> set stm32_configs"
    and "unat (BaseAddress_cfg cfg) \<le> unat a"
    and "unat a < unat (BaseAddress_cfg cfg) + unat (SizeInBytes_cfg cfg)"
  shows "\<exists>i j. DeviceBlockInfo_FindRegionFromAddress (BlockDeviceInformation cfg) a k =
                 Ret (True, of_nat i, of_nat j) \<and>
               i < length (Regions (BlockDeviceInformation cfg)) \<and>
               in_range (Regions (BlockDeviceInformation cfg) ! i) j a"
proof -
  let ?d = "BlockDeviceInformation cfg"
  have l: "device_layout ?d" and t: "tiles_flash cfg" using stm32_layouts [OF assms(1)] by auto
  obtain i where i: "i < length (Regions ?d)" "unat (Start (Regions ?d ! i)) \<le> unat a"
      "unat a < region_end (Regions ?d ! i)"
    using regions_tile_covers t assms(2,3) unfolding tiles_flash_def by blast
  then obtain j where "in_range (Regions ?d ! i) j a"
    using region_loop_finds [OF device_layout.layout [OF l], of i i a] by auto
  with i device_layout.find_region [OF l i(1)] show ?thesis by blast
qed

theorem stm32_tables_account_for_all_flash_witness:
  "\<exists>i j. DeviceBlockInfo_FindRegionFromAddress
             (BlockDeviceInformation Device_BlockStorageConfig_STM32F769I_DISCOVERY) 0x080C1234 0 =
           Ret (True, of_nat i, of_nat j) \<and>
         i < length (Regions (BlockDeviceInformation Device_BlockStorageConfig_STM32F769I_DISCOVERY)) \<and>
         in_range (Regions (BlockDeviceInformation Device_BlockStorageConfig_STM32F769I_DISCOVERY) ! i) j
           0x080C1234"
  by (rule stm32_tables_account_for_all_flash)
     (simp_all add: stm32_configs_def Device_BlockStorageConfig_STM32F769I_DISCOVERY_def)

text \<open>
  The table of the 2 MB ESP32 is not a layout: its first region has one block but a range of two,
  so a stream opened on the code is twice as long as the region, and its configuration region starts
  at address 0, below the others.
\<close>

theorem esp32_2mb_table_malformed:
  "\<not> wf_device Device_BlockInfo_ESP32_2MB \<and>
   (\<forall>s b. \<exists>s'. stream_fill None Device_BlockInfo_ESP32_2MB (s\<lparr>RegionIndex := 0, RangeIndex := 0\<rparr>) b = Ret s' \<and>
      Length s' = 2 * BlockRegionInfo_Size (Regions Device_BlockInfo_ESP32_2MB ! 0))"
  by (simp add: Device_BlockInfo_ESP32_2MB_def layout_simps stream_fill_def Let_def c_index_def
      BlockRegionInfo_Size_def BlockRange_GetBlockCount_def)

section \<open>Witnesses on the tables\<close>

theorem find_region_from_address_exact_witness:
  "\<exists>found i' j'. DeviceBlockInfo_FindRegionFromAddress Device_BlockInfo_MIMXRT1060_EVK 0x60010800 0 =
       Ret (found, i', j') \<and>
     (found \<longleftrightarrow> (\<exists>i < length (Regions Device_BlockInfo_MIMXRT1060_EVK). \<exists>j.
        in_range (Regions Device_BlockInfo_MIMXRT1060_EVK ! i) j 0x60010800)) \<and>
     (\<forall>i < length (Regions Device_BlockInfo_MIMXRT1060_EVK). \<forall>j.
        in_range (Regions Device_BlockInfo_MIMXRT1060_EVK ! i) j 0x60010800 \<longrightarrow>
        i' = of_nat i \<and> j' = of_nat j)"
  by (rule find_region_from_address_exact)
     (rule layout_MIMXRT1060_EVK.layout, rule layout_MIMXRT1060_EVK.few_regions)

theorem find_next_usage_block_first_witness:
  "DeviceBlockInfo_FindNextUsageBlock Device_BlockInfo_NUCLEO64_F091RC BlockUsage_DEPLOYMENT (Some 0)
     (Some 0) (Some 0) = Ret (True, Some 0x0802A000, 0, Some 2)"
  using find_next_usage_block_first [OF layout_NUCLEO64_F091RC.layout
      layout_NUCLEO64_F091RC.few_regions, of 0 0 BlockUsage_DEPLOYMENT 0]
  by (simp add: Device_BlockInfo_NUCLEO64_F091RC_def usage_positions_def usage_at_def usage_matches_def
      BLOCKTYPE_defs BlockUsage_defs BlockRegionInfo_BlockAddress_def upt_rec)

theorem xip_read_fits_or_hangs_witness:
  "let s = \<lparr>BaseAddress = 0x08080000, MemoryMappedAddress = 0, CurrentIndex = 0x17FFFC,
            Length = 0x180000, BlockLength = 0x40000, Usage = 0, Flags = 1, RegionIndex = 2,
            RangeIndex = 1, CurrentUsage = 0x50, Device = Some 0\<rparr>;
       b = \<lparr>DeviceList = [Some 0], DeviceCount = 1, devices = Map.empty, hw = ()\<rparr>
   in read_loop Device_BlockInfo_STM32F769I_DISCOVERY 8 (s, 0, 0, [], b) = None"
  unfolding Let_def
  by (subst xip_read_fits_or_hangs)
     (simp_all add: Device_BlockInfo_STM32F769I_DISCOVERY_def MediaAttribute_SupportsXIP_def)

text \<open>A driver table with the description function only, and the storage it is linked into.\<close>

definition info_driver :: "unit IBlockStorageDevice" where
  "info_driver =
     \<lparr>v_InitializeDevice = Some (\<lambda>c h. Ret (True, h)), v_UninitializeDevice = Some (\<lambda>c h. Ret (True, h)),
      v_GetDeviceInfo = Some BlockDeviceInformation, v_Read = None, v_Write = None, v_Memset = None,
      v_IsBlockErased = None, v_EraseBlock = None, v_SetPowerState = None,
      v_GetMemoryMappedAddress = None\<rparr>"

definition info_storage :: "unit block_storage" where
  "info_storage =
     \<lparr>DeviceList = [Some 1], DeviceCount = 1,
      devices = [1 \<mapsto> \<lparr>m_BSD = info_driver, m_context = Device_BlockStorageConfig_NUCLEO64_F091RC\<rparr>],
      hw = ()\<rparr>"

theorem physical_address_block_witness:
  "\<exists>blk n. BlockStorageList_FindDeviceForPhysicalAddress 0x0802A123 0 info_storage =
       Ret (True, Some 1, blk) \<and>
     unat blk = unat (Start (Regions Device_BlockInfo_NUCLEO64_F091RC ! 0)) +
       n * unat (BytesPerBlock (Regions Device_BlockInfo_NUCLEO64_F091RC ! 0)) \<and>
     unat blk \<le> unat (0x0802A123 :: u32) \<and>
     unat (0x0802A123 :: u32) < unat blk + unat (BytesPerBlock (Regions Device_BlockInfo_NUCLEO64_F091RC ! 0))"
  by (rule physical_address_block [OF _ _ layout_NUCLEO64_F091RC.layout layout_NUCLEO64_F091RC.few_regions])
     (simp_all add: info_storage_def info_driver_def BlockStorageList_GetFirstDevice_def first_loop.simps
        TARGET_BLOCKSTORAGE_COUNT_def c_index_def BlockStorageDevice_GetDeviceInfo_def device_at_def
        Device_BlockStorageConfig_NUCLEO64_F091RC_def Device_BlockInfo_NUCLEO64_F091RC_def region_end_def)

theorem remove_device_keeps_count_witness:
  "\<exists>b' b''. BlockStorageList_AddDevice 1 info_driver Device_BlockStorageConfig_ESP32_4MB False
       (BlockStorageList_Initialize info_storage) = Ret (True, b') \<and>
     BlockStorageList_RemoveDevice 1 False b' = Ret (True, b'') \<and>
     DeviceList b'' = [None] \<and> DeviceCount b'' = 1"
proof -
  obtain b' where add: "BlockStorageList_AddDevice 1 info_driver Device_BlockStorageConfig_ESP32_4MB False
       (BlockStorageList_Initialize info_storage) = Ret (True, b')"
    and one: "DeviceList b' = [Some 1]"
    by (simp add: BlockStorageList_AddDevice_def BlockStorageList_Initialize_def Let_def
        TARGET_BLOCKSTORAGE_COUNT_def add_loop.simps c_index_in_bounds)
  obtain r b'' where "BlockStorageList_RemoveDevice 1 False b' = Ret (r, b'')"
    using one by (simp add: BlockStorageList_RemoveDevice_def TARGET_BLOCKSTORAGE_COUNT_def
        remove_loop.simps c_index_in_bounds)
  with remove_device_keeps_count [OF add this] add show ?thesis by auto
qed

end
