(* ===== verification/NF_FlashProps.thy ===== *)
theory NF_FlashProps
  imports NF_FlashController NF_DeviceTables
begin

text \<open>
  A controller to run the STM32 flash driver on, the proof that it keeps the contract, and the
  properties of the driver: what writing, erasing and the blank check do over every controller that
  keeps the contract, and what erasing does in the second bank of the 2 MB parts.
\<close>

section \<open>A controller that completes at once\<close>

record sim_flash =
  sim_cr :: u32
  sim_key :: bool
  sim_mem :: memory

definition sector_end_F42x :: "nat \<Rightarrow> u32" where
  "sector_end_F42x n = (if n < 23 then ADDR_FLASH_SECTOR_F42x (n + 1) else 0x08200000)"

text \<open>SNB codes sectors 12 to 23 as 16 to 27.\<close>

definition in_sector_F42x :: "u32 \<Rightarrow> u32 \<Rightarrow> bool" where
  "in_sector_F42x snb x \<longleftrightarrow>
     (let k = unat snb; n = (if k < 12 then k else k - 4) in
      (k < 12 \<or> 16 \<le> k \<and> k < 28) \<and> ADDR_FLASH_SECTOR_F42x n \<le> x \<and> x < sector_end_F42x n)"

definition sector_end_F7 :: "nat \<Rightarrow> u32" where
  "sector_end_F7 n = (if n < 11 then ADDR_FLASH_SECTOR_F7 (n + 1) else 0x08200000)"

definition in_sector_F7 :: "u32 \<Rightarrow> u32 \<Rightarrow> bool" where
  "in_sector_F7 snb x \<longleftrightarrow>
     (let n = unat snb in n < 12 \<and> ADDR_FLASH_SECTOR_F7 n \<le> x \<and> x < sector_end_F7 n)"

definition sim_set_CR :: "(u32 \<Rightarrow> u32 \<Rightarrow> bool) \<Rightarrow> u32 \<Rightarrow> sim_flash \<Rightarrow> sim_flash" where
  "sim_set_CR sec v h =
     (if sim_cr h AND FLASH_CR_LOCK \<noteq> 0 then h
      else h\<lparr>sim_cr := v AND NOT FLASH_CR_STRT,
             sim_mem := (if v AND FLASH_CR_STRT \<noteq> 0 \<and> v AND FLASH_CR_SER \<noteq> 0
                         then (\<lambda>x. if sec (drop_bit 3 (v AND FLASH_CR_SNB)) x then 0xFF else sim_mem h x)
                         else sim_mem h)\<rparr>)"

definition sim_write_KEYR :: "u32 \<Rightarrow> sim_flash \<Rightarrow> sim_flash" where
  "sim_write_KEYR k h =
     (if k = FLASH_KEY2 \<and> sim_key h then h\<lparr>sim_key := False, sim_cr := sim_cr h AND NOT FLASH_CR_LOCK\<rparr>
      else h\<lparr>sim_key := (k = FLASH_KEY1)\<rparr>)"

definition sim_store :: "u32 \<Rightarrow> u8 list \<Rightarrow> sim_flash \<Rightarrow> sim_flash" where
  "sim_store a bs h =
     (if sim_cr h AND FLASH_CR_LOCK = 0 \<and> sim_cr h AND FLASH_CR_PG \<noteq> 0
      then h\<lparr>sim_mem := program (sim_mem h) a bs\<rparr> else h)"

definition sim_bus :: "(u32 \<Rightarrow> u32 \<Rightarrow> bool) \<Rightarrow> sim_flash flash_bus" where
  "sim_bus sec =
     \<lparr>get_CR = (\<lambda>h. sim_cr h AND NOT FLASH_CR_STRT), set_CR = sim_set_CR sec, get_SR = (\<lambda>h. 0),
      set_SR = (\<lambda>v h. h), write_KEYR = sim_write_KEYR, write_AR = (\<lambda>v h. h), get_ACR = (\<lambda>h. 0x600),
      instruction_cache_flush = (\<lambda>h. h), data_cache_flush = (\<lambda>h. h), load8 = sim_mem,
      store16 = (\<lambda>a w. sim_store a (bytes_of_u16 w)), store8 = (\<lambda>a b. sim_store a [b]),
      system_time = (\<lambda>h. 0), TIME_MS2I = (\<lambda>ms. ms), bus_poll = (\<lambda>h. h), FLASH_FLAG_ALL_ERRORS = 0xF2\<rparr>"

lemma sim_bit_facts:
  "(x AND NOT FLASH_CR_STRT) AND FLASH_CR_STRT = 0"
  "(x AND NOT FLASH_CR_STRT) AND NOT FLASH_CR_STRT = x AND NOT FLASH_CR_STRT"
  "(x AND NOT FLASH_CR_STRT) AND FLASH_CR_LOCK = x AND FLASH_CR_LOCK"
  "(x AND NOT FLASH_CR_STRT) AND FLASH_CR_PG = x AND FLASH_CR_PG"
  "(x AND NOT FLASH_CR_STRT) AND FLASH_CR_SER = x AND FLASH_CR_SER"
  "(x AND NOT FLASH_CR_STRT) AND FLASH_CR_SNB = x AND FLASH_CR_SNB"
  "(x AND NOT FLASH_CR_STRT) AND NOT FLASH_CR_LOCK = (x AND NOT FLASH_CR_LOCK) AND NOT FLASH_CR_STRT"
  by (simp_all add: and.assoc flash_bits)

lemma strt_bits [simp]:
  "FLASH_CR_STRT AND FLASH_CR_LOCK = 0" "FLASH_CR_STRT AND FLASH_CR_PG = 0"
  "FLASH_CR_STRT AND FLASH_CR_SER = 0" "FLASH_CR_STRT AND FLASH_CR_SNB = 0"
  "FLASH_CR_STRT AND NOT FLASH_CR_STRT = 0" "FLASH_CR_STRT \<noteq> 0"
  by (simp_all add: flash_bits)

interpretation sim: flash_controller "sim_bus sec" "\<lambda>_. False" sec for sec
proof
  fix h :: sim_flash
  assume "get_CR (sim_bus sec) h AND FLASH_CR_SER \<noteq> 0" "get_CR (sim_bus sec) h AND FLASH_CR_LOCK = 0"
  then show "get_CR (sim_bus sec) (set_CR (sim_bus sec) (get_CR (sim_bus sec) h OR FLASH_CR_STRT) h)
        AND NOT FLASH_CR_STRT = get_CR (sim_bus sec) h \<and>
      (\<not> False \<longrightarrow> load8 (sim_bus sec) (set_CR (sim_bus sec) (get_CR (sim_bus sec) h OR FLASH_CR_STRT) h) =
        (\<lambda>x. if sec (drop_bit 3 (get_CR (sim_bus sec) h AND FLASH_CR_SNB)) x then 0xFF
             else load8 (sim_bus sec) h x))"
    by (auto simp: sim_bus_def sim_set_CR_def sim_bit_facts bit.conj_disj_distrib2 fun_eq_iff)
qed (auto simp: sim_bus_def sim_set_CR_def sim_write_KEYR_def sim_store_def sim_bit_facts strt_split
    FLASH_KEY1_def FLASH_KEY2_def)

lemma all_less_add: "(\<forall>i < m + (n::nat). P i) \<longleftrightarrow> (\<forall>i < m. P i) \<and> (\<forall>i < n. P (m + i))"
proof -
  have "P i" if "\<forall>i < m. P i" "\<forall>i < n. P (m + i)" "i < m + n" for i
    using that(1) that(2) [rule_format, of "i - m"] that(3) by (cases "i < m") auto
  then show ?thesis by auto
qed

lemma all_less_four: "(\<forall>i < (4::nat). P i) \<longleftrightarrow> P 0 \<and> P 1 \<and> P 2 \<and> P 3"
  by (simp add: numeral_eq_Suc less_Suc_eq all_conj_distrib imp_disjL conj_ac)

section \<open>Which sector an address belongs to\<close>

lemma upto_12: "(n < (12::nat)) = (n \<in> {0, 1, 2, 3, 4, 5, 6, 7, 8, 9, 10, 11})"
  by simp presburger

lemma sector_exists:
  fixes x :: u32 and E A :: "nat \<Rightarrow> u32"
  assumes "\<forall>n < 11. E n = A (n + 1)" and "A 0 \<le> x" and "x < E 11"
  shows "\<exists>n < 12. A n \<le> x \<and> x < E n"
proof (rule ccontr)
  assume no: "\<not> (\<exists>n < 12. A n \<le> x \<and> x < E n)"
  have "E n \<le> x" if "n < 12" for n :: nat
    using that
  proof (induction n)
    case 0
    then show ?case using no assms(2) by (auto simp: not_less)
  next
    case (Suc n)
    then have "A (Suc n) \<le> x" using assms(1) by simp
    then show ?case using no Suc.prems by (auto simp: not_less)
  qed
  from this [of 11] assms(3) show False by simp
qed

lemma getSector_F7:
  assumes "0x08000000 \<le> x" and "x < 0x08200000"
  shows "\<exists>n < 12. flash_lld_getSector ADDR_FLASH_SECTOR_F7 x = of_nat n \<and>
     ADDR_FLASH_SECTOR_F7 n \<le> x \<and> x < sector_end_F7 n"
proof -
  obtain n where n: "n < 12" "ADDR_FLASH_SECTOR_F7 n \<le> x" "x < sector_end_F7 n"
    using sector_exists [of sector_end_F7 ADDR_FLASH_SECTOR_F7 x] assms
    by (auto simp: sector_end_F7_def ADDR_FLASH_SECTOR_F7_def)
  then have "flash_lld_getSector ADDR_FLASH_SECTOR_F7 x = of_nat n"
    unfolding upto_12
    by (elim insertE; simp add: flash_lld_getSector_def ADDR_FLASH_SECTOR_F7_def sector_end_F7_def
        word_less_nat_alt word_le_nat_alt)
  with n show ?thesis by blast
qed

lemma getSector_F42x:
  assumes "0x08000000 \<le> x" and "x < 0x08100000"
  shows "\<exists>n < 12. flash_lld_getSector ADDR_FLASH_SECTOR_F42x x = of_nat n \<and>
     ADDR_FLASH_SECTOR_F42x n \<le> x \<and> x < sector_end_F42x n"
proof -
  obtain n where n: "n < 12" "ADDR_FLASH_SECTOR_F42x n \<le> x" "x < sector_end_F42x n"
    using sector_exists [of sector_end_F42x ADDR_FLASH_SECTOR_F42x x] assms
    by (auto simp: sector_end_F42x_def ADDR_FLASH_SECTOR_F42x_def)
  then have "flash_lld_getSector ADDR_FLASH_SECTOR_F42x x = of_nat n"
    unfolding upto_12
    by (elim insertE; simp add: flash_lld_getSector_def ADDR_FLASH_SECTOR_F42x_def sector_end_F42x_def
        word_less_nat_alt word_le_nat_alt)
  with n show ?thesis by blast
qed

lemma getSector_F42x_upper:
  assumes "0x08100000 \<le> x"
  shows "flash_lld_getSector ADDR_FLASH_SECTOR_F42x x = 11"
  using assms
  by (simp add: flash_lld_getSector_def ADDR_FLASH_SECTOR_F42x_def word_le_nat_alt word_less_nat_alt)

lemma in_sector_F7_code: "n < 12 \<Longrightarrow>
    in_sector_F7 (ucast (of_nat n :: u8)) x \<longleftrightarrow> ADDR_FLASH_SECTOR_F7 n \<le> x \<and> x < sector_end_F7 n"
  unfolding upto_12 by (auto simp: in_sector_F7_def sector_end_F7_def)

lemma in_sector_F42x_code: "n < 12 \<Longrightarrow>
    in_sector_F42x (ucast (of_nat n :: u8)) x \<longleftrightarrow> ADDR_FLASH_SECTOR_F42x n \<le> x \<and> x < sector_end_F42x n"
  unfolding upto_12 by (auto simp: in_sector_F42x_def)

section \<open>The blank check\<close>

lemma u32_of_bytes_erased:
  "u32_of_bytes [a, b, c, d] = 0xFFFFFFFF \<longleftrightarrow> a = 0xFF \<and> b = 0xFF \<and> c = 0xFF \<and> d = 0xFF"
proof
  assume "u32_of_bytes [a, b, c, d] = 0xFFFFFFFF"
  then have "bytes_of_u32 (u32_of_bytes [a, b, c, d]) = bytes_of_u32 0xFFFFFFFF" by simp
  then show "a = 0xFF \<and> b = 0xFF \<and> c = 0xFF \<and> d = 0xFF"
    by (simp add: bytes_of_u32_of_bytes) (simp add: bytes_of_u32_def)
qed (simp add: u32_of_bytes_def)

text \<open>The words the loop looks at.\<close>

definition words_for :: "nat \<Rightarrow> nat" where
  "words_for n = 4 * ((n + 3) div 4)"

lemma words_for_step: "0 < n \<Longrightarrow> words_for n = 4 + words_for (n - 4)"
proof (cases "n < 4")
  case True
  assume "0 < n"
  with True have "n = 1 \<or> n = 2 \<or> n = 3" by linarith
  then show ?thesis by (auto simp: words_for_def)
next
  case False
  then obtain k where "n = 4 + k" using le_Suc_ex not_less by blast
  moreover have "(k + 3 + 4) div 4 = Suc ((k + 3) div 4)" by simp
  ultimately show ?thesis by (simp add: words_for_def add.commute del: div_add_self1 div_add_self2)
qed

lemma erased_loop_exact:
  assumes "unat e + 3 < 2 ^ 32" and "unat c \<le> unat e"
  shows "erased_loop mem c e = Some (\<forall>i < words_for (unat e - unat c). mem (c + of_nat i) = 0xFF)"
  using assms
proof (induction "unat e - unat c" arbitrary: c rule: less_induct)
  case less
  show ?case
  proof (cases "c < e")
    case False
    then have "unat e - unat c = 0" by (simp add: word_less_nat_alt)
    then show ?thesis using False by (subst erased_loop.simps) (simp add: words_for_def)
  next
    case True
    then have lt: "unat c < unat e" by (simp add: word_less_nat_alt)
    then have c4: "unat (c + 4) = unat c + 4"
      using less.prems by (subst unat_add_lem [THEN iffD1]) auto
    have here: "u32_of_bytes [mem c, mem (c + 1), mem (c + 2), mem (c + 3)] = FLASH_ERASED_WORD \<longleftrightarrow>
        (\<forall>i < 4. mem (c + of_nat i) = 0xFF)"
      by (simp add: FLASH_ERASED_WORD_def u32_of_bytes_erased all_less_four)
    have w: "words_for (unat e - unat c) = 4 + words_for (unat e - unat (c + 4))"
      using words_for_step [of "unat e - unat c"] lt c4 by simp
    have rest: "erased_loop mem (c + 4) e =
        Some (\<forall>i < words_for (unat e - unat (c + 4)). mem (c + 4 + of_nat i) = 0xFF)"
    proof (cases "unat (c + 4) \<le> unat e")
      case True
      then show ?thesis using less.hyps [of "c + 4"] lt c4 less.prems by simp
    next
      case False
      then have "unat e - unat (c + 4) = 0" "\<not> c + 4 < e" by (simp_all add: word_less_nat_alt)
      then show ?thesis by (subst erased_loop.simps) (simp add: words_for_def)
    qed
    have split: "(\<forall>i < words_for (unat e - unat c). mem (c + of_nat i) = 0xFF) \<longleftrightarrow>
        (\<forall>i < 4. mem (c + of_nat i) = 0xFF) \<and>
        (\<forall>i < words_for (unat e - unat (c + 4)). mem (c + 4 + of_nat i) = 0xFF)"
      unfolding w all_less_add by (simp add: add.assoc)
    show ?thesis
    proof (cases "\<forall>i < 4. mem (c + of_nat i) = 0xFF")
      case all: True
      then have "u32_of_bytes [mem c, mem (c + 1), mem (c + 2), mem (c + 3)] = FLASH_ERASED_WORD"
        by (rule here [THEN iffD2])
      with True have "erased_loop mem c e = erased_loop mem (c + 4) e"
        by (subst erased_loop.simps) simp
      then show ?thesis unfolding split by (simp only: eqTrueI [OF all] rest simp_thms)
    next
      case False
      then have "u32_of_bytes [mem c, mem (c + 1), mem (c + 2), mem (c + 3)] \<noteq> FLASH_ERASED_WORD"
        unfolding here .
      with True have "erased_loop mem c e = Some False"
        by (subst erased_loop.simps) simp
      then show ?thesis unfolding split using False by (simp only: simp_thms)
    qed
  qed
qed

section \<open>Waiting ends\<close>

lemma wait_loop_returns:
  assumes "get_SR fb ((bus_poll fb ^^ n) h) AND FLASH_SR_BSY = 0"
  shows "\<exists>r. wait_loop fb start stop h = Some r"
  using assms
proof (induction n arbitrary: h)
  case 0
  then have "wait_loop fb start stop h = Some (True, h)" by (subst wait_loop.simps) simp
  then show ?case by blast
next
  case (Suc n)
  then have "get_SR fb ((bus_poll fb ^^ n) (bus_poll fb h)) AND FLASH_SR_BSY = 0"
    by (simp add: funpow_swap1)
  from Suc.IH [OF this] show ?case by (subst wait_loop.simps) auto
qed

definition always_completes :: "'h flash_bus \<Rightarrow> bool" where
  "always_completes fb \<longleftrightarrow> (\<forall>h. \<exists>n. get_SR fb ((bus_poll fb ^^ n) h) AND FLASH_SR_BSY = 0)"

lemma wait_returns:
  assumes "always_completes fb"
  shows "\<exists>r. FLASH_WaitForLastOperation fb timeout h = Some r"
proof -
  obtain n where "get_SR fb ((bus_poll fb ^^ n) h) AND FLASH_SR_BSY = 0"
    using assms unfolding always_completes_def by blast
  from wait_loop_returns [OF this] obtain r
    where "wait_loop fb (system_time fb h) (system_time fb h + TIME_MS2I fb timeout) h = Some r" by blast
  then show ?thesis by (simp add: FLASH_WaitForLastOperation_def Let_def)
qed

lemma program_unit_returns:
  assumes "if 2 \<le> sint (e - c) then 2 \<le> length buf else buf \<noteq> []"
  shows "\<exists>h1. program_unit fb c e buf h = Ret (drop (if 2 \<le> sint (e - c) then 2 else 0) buf, h1)"
  using assms by (auto simp: program_unit_def Let_def split: if_splits)

lemma write_loop_returns:
  assumes "always_completes fb" and "unat e < 2 ^ 32 - 1"
    and "unat e - unat c < 2 ^ 31" and "unat e - unat c \<le> length buf"
  shows "\<exists>r. write_loop fb c e buf s h = Some (Ret r)"
  using assms(3,4)
proof (induction "unat e - unat c" arbitrary: c buf s h rule: less_induct)
  case less
  show ?case
  proof (cases "c < e")
    case False
    then show ?thesis by (subst write_loop.simps) simp
  next
    case True
    then have lt: "unat c < unat e" by (simp add: word_less_nat_alt)
    have diff: "unat (e - c) = unat e - unat c" using True by (simp add: unat_sub)
    have small: "sint (e - c) = int (unat e - unat c)"
      using sint_u32_small [of "e - c"] less.prems(1) by (simp add: diff)
    define k where "k = unat e - unat c"
    have k: "0 < k" "k \<le> length buf" using lt less.prems(2) by (simp_all add: k_def)
    have c2: "unat (c + 2) = unat c + 2"
      using lt assms(2) by (subst unat_add_lem [THEN iffD1]) auto
    have enough: "if 2 \<le> sint (e - c) then 2 \<le> length buf else buf \<noteq> []"
      unfolding small using k by (auto simp flip: k_def)
    obtain h1 where unit: "program_unit fb c e buf h = Ret (drop (if 2 \<le> sint (e - c) then 2 else 0) buf, h1)"
      using program_unit_returns [OF enough, of fb h] by blast
    obtain s2 h2 where wait: "FLASH_WaitForLastOperation fb 500 h1 = Some (s2, h2)"
      using wait_returns [OF assms(1), of 500 h1] by auto
    have "\<exists>r. write_loop fb (c + 2) e (drop (if 2 \<le> sint (e - c) then 2 else 0) buf) s2 h2 = Some (Ret r)"
    proof (cases "2 \<le> sint (e - c)")
      case True
      then have "2 \<le> k" unfolding small by (simp flip: k_def)
      then show ?thesis using True lt c2 less.prems by (intro less.hyps) (simp_all add: k_def)
    next
      case False
      then have "k < 2" unfolding small by (simp flip: k_def)
      then have "\<not> c + 2 < e" using c2 by (simp add: word_less_nat_alt k_def)
      then show ?thesis by (subst write_loop.simps) simp
    qed
    with True unit wait show ?thesis by (subst write_loop.simps) auto
  qed
qed

section \<open>Running the driver on the simple controller\<close>

lemma sim_wait: "FLASH_WaitForLastOperation (sim_bus sec) t h = Some (True, h)"
  by (simp add: FLASH_WaitForLastOperation_def wait_loop.simps sim_bus_def)

lemma sim_unlock:
  assumes "sim_cr h AND FLASH_CR_LOCK \<noteq> 0"
  shows "\<exists>h'. HAL_FLASH_Unlock (sim_bus sec) h = (True, h')"
  using assms by (simp add: HAL_FLASH_Unlock_def sim_bus_def sim_bit_facts)

lemma sim_erase_returns:
  assumes "sim_cr h AND FLASH_CR_LOCK \<noteq> 0"
  shows "\<exists>h'. flash_lld_erase flush A (sim_bus sec) a h = Ret (True, h')"
  using sim_unlock [OF assms, of sec] by (auto simp: flash_lld_erase_def Let_def sim_wait)

lemma sim_write_returns:
  assumes "sim_cr h AND FLASH_CR_LOCK \<noteq> 0"
  shows "\<exists>h'. flash_lld_write (sim_bus sec) 0x08000020 3 [1, 2, 3] h = Ret (True, h')"
proof -
  obtain h0 where unl: "HAL_FLASH_Unlock (sim_bus sec) h = (True, h0)"
    using sim_unlock [OF assms] by blast
  have last: "\<exists>h'. write_loop (sim_bus sec) 0x08000022 0x08000023 [3] True h = Some (Ret (True, h'))" for h
    by (subst write_loop.simps) (simp add: program_unit_def Let_def sim_wait write_loop.simps)
  have "\<exists>h'. write_loop (sim_bus sec) 0x08000020 0x08000023 [1, 2, 3] False h = Some (Ret (True, h'))" for h
    by (subst write_loop.simps) (simp add: program_unit_def Let_def sim_wait last)
  from this [of "set_SR (sim_bus sec) (FLASH_FLAG_ALL_ERRORS (sim_bus sec)) h0"] obtain h1
    where "write_loop (sim_bus sec) 0x08000020 0x08000023 [1, 2, 3] False
        (set_SR (sim_bus sec) (FLASH_FLAG_ALL_ERRORS (sim_bus sec)) h0) = Some (Ret (True, h1))" ..
  with unl show ?thesis by (simp add: flash_lld_write_def Let_def)
qed

definition sim_start :: sim_flash where
  "sim_start = \<lparr>sim_cr = FLASH_CR_LOCK, sim_key = False, sim_mem = (\<lambda>x. if x < 0x08000010 then 0x5A else 0xFF)\<rparr>"

lemma sim_start_facts [simp]:
  "sim_cr sim_start AND FLASH_CR_LOCK \<noteq> 0" "get_SR (sim_bus sec) h = 0"
  "load8 (sim_bus sec) = sim_mem" "sim_mem sim_start x = (if x < 0x08000010 then 0x5A else 0xFF)"
  by (simp_all add: sim_start_def sim_bus_def flash_bits)

section \<open>Properties\<close>

text \<open>
  C8: writing to flash. Over every controller that keeps the documented contract, a call of
  \<open>flash_lld_write\<close> that returns true has programmed the buffer: on a range that was erased the
  buffer reads back unchanged, whatever its length (odd lengths end with a byte program), no other
  byte changes, and the controller is locked again.
\<close>

theorem flash_write_reads_back:
  assumes "flash_controller fb perr sec"
    and "get_SR fb h AND FLASH_SR_BSY = 0"
    and "unat start + length buf < 2 ^ 32 - 1" and "length buf < 2 ^ 31"
    and "flash_lld_write fb start (of_nat (length buf)) buf h = Ret (True, h')"
    and "\<forall>i < length buf. load8 fb h (start + of_nat i) = 0xFF"
  shows "flash_lld_readBytes fb start (of_nat (length buf)) h' = buf \<and>
    (\<forall>x. (unat start \<le> unat x \<longrightarrow> unat start + length buf \<le> unat x) \<longrightarrow> load8 fb h' x = load8 fb h x) \<and>
    get_CR fb h' AND FLASH_CR_LOCK \<noteq> 0"
proof -
  have len: "unat (of_nat (length buf) :: u32) = length buf" using assms(4) by (simp add: unat_of_nat)
  have w: "load8 fb h' = program (load8 fb h) start buf" "get_CR fb h' AND FLASH_CR_LOCK \<noteq> 0"
    using flash_controller.write_program [OF assms(1) assms(5) assms(2)] assms(3,4) len by simp_all
  moreover have "flash_lld_readBytes fb start (of_nat (length buf)) h' = buf"
    unfolding flash_lld_readBytes_def w(1) using assms(3,6) by (intro program_erased_reads_back) auto
  moreover have "load8 fb h' x = load8 fb h x"
    if "unat start \<le> unat x \<longrightarrow> unat start + length buf \<le> unat x" for x
    unfolding w(1) using assms(3) that by (intro program_elsewhere) auto
  ultimately show ?thesis by blast
qed

theorem flash_write_reads_back_witness:
  "\<exists>h'. flash_lld_write (sim_bus in_sector_F7) 0x08000020 3 [1, 2, 3] sim_start = Ret (True, h') \<and>
     flash_lld_readBytes (sim_bus in_sector_F7) 0x08000020 3 h' = [1, 2, 3] \<and> sim_mem h' 0x08000004 = 0x5A"
proof -
  obtain h' where w: "flash_lld_write (sim_bus in_sector_F7) 0x08000020 3 [1, 2, 3] sim_start = Ret (True, h')"
    using sim_write_returns [OF sim_start_facts(1)] by blast
  have "\<forall>i < length [1, 2, 3 :: u8]. load8 (sim_bus in_sector_F7) sim_start (0x08000020 + of_nat i) = 0xFF"
    by (auto simp: less_Suc_eq)
  from flash_write_reads_back [OF sim.flash_controller_axioms _ _ _ _ this, of h'] w
  show ?thesis by simp
qed

text \<open>
  Erasing on the F7 parts. Over every controller that keeps the documented contract and has the
  sector map of the reference manual, a call of \<open>flash_lld_erase\<close> that returns true has erased the
  sector that holds the address, all of it and nothing else, and has locked the controller again.
\<close>

theorem flash_erase_F7_exact:
  assumes "flash_controller fb perr in_sector_F7"
    and "get_SR fb h AND FLASH_SR_BSY = 0"
    and "0x08000000 \<le> address" and "address < 0x08200000"
    and "flash_lld_erase False ADDR_FLASH_SECTOR_F7 fb address h = Ret (True, h')"
  shows "\<exists>n < 12. ADDR_FLASH_SECTOR_F7 n \<le> address \<and> address < sector_end_F7 n \<and>
    (\<forall>x. load8 fb h' x = (if ADDR_FLASH_SECTOR_F7 n \<le> x \<and> x < sector_end_F7 n then 0xFF else load8 fb h x)) \<and>
    get_CR fb h' AND FLASH_CR_LOCK \<noteq> 0"
proof -
  obtain n where n: "n < 12" "flash_lld_getSector ADDR_FLASH_SECTOR_F7 address = of_nat n"
    "ADDR_FLASH_SECTOR_F7 n \<le> address" "address < sector_end_F7 n"
    using getSector_F7 [OF assms(3,4)] by blast
  show ?thesis
    using flash_controller.erase_program [OF assms(1) assms(5) assms(2)] n
    by (intro exI [of _ n]) (simp add: in_sector_F7_code)
qed

theorem flash_erase_F7_exact_witness:
  "\<exists>h'. flash_lld_erase False ADDR_FLASH_SECTOR_F7 (sim_bus in_sector_F7) 0x08000004 sim_start = Ret (True, h') \<and>
     sim_mem sim_start 0x08000004 = 0x5A \<and> sim_mem h' 0x08000004 = 0xFF"
proof -
  obtain h' where e: "flash_lld_erase False ADDR_FLASH_SECTOR_F7 (sim_bus in_sector_F7) 0x08000004 sim_start = Ret (True, h')"
    using sim_erase_returns [OF sim_start_facts(1)] by blast
  from flash_erase_F7_exact [OF sim.flash_controller_axioms _ _ _ e] e show ?thesis by auto
qed

lemma getSector_F7_start: "n < 12 \<Longrightarrow> flash_lld_getSector ADDR_FLASH_SECTOR_F7 (ADDR_FLASH_SECTOR_F7 n) = of_nat n"
  unfolding upto_12 by (elim insertE; simp add: flash_lld_getSector_def ADDR_FLASH_SECTOR_F7_def)

lemma F769_blocks_are_sectors:
  assumes "r \<in> set (Regions Device_BlockInfo_STM32F769I_DISCOVERY)" and "b < unat (NumBlocks r)"
  shows "\<exists>n < 12. BlockRegionInfo_BlockAddress r (of_nat b) = ADDR_FLASH_SECTOR_F7 n \<and>
     unat (sector_end_F7 n) = unat (ADDR_FLASH_SECTOR_F7 n) + unat (BytesPerBlock r)"
proof -
  let ?R = "Regions Device_BlockInfo_STM32F769I_DISCOVERY"
  have upto_7: "k < 7 \<longleftrightarrow> k \<in> {0, 1, 2, 3, 4, 5, 6}" and upto_4: "k < 4 \<longleftrightarrow> k \<in> {0, 1, 2, 3}" for k :: nat
    by (simp; presburger)+
  note defs = Device_BlockInfo_STM32F769I_DISCOVERY_def BlockRegionInfo_BlockAddress_def
    ADDR_FLASH_SECTOR_F7_def sector_end_F7_def
  consider "r = ?R ! 0" | "r = ?R ! 1" | "r = ?R ! 2"
    using assms(1) by (auto simp: Device_BlockInfo_STM32F769I_DISCOVERY_def)
  then show ?thesis
  proof cases
    case 1
    with assms(2) have "b \<in> {0, 1, 2, 3}" unfolding upto_4 [symmetric] by (simp add: defs)
    with 1 show ?thesis by (intro exI [of _ b]) (elim insertE; simp add: defs)
  next
    case 2
    with assms(2) have "b = 0" by (simp add: defs)
    with 2 show ?thesis by (intro exI [of _ 4]) (simp add: defs)
  next
    case 3
    with assms(2) have "b \<in> {0, 1, 2, 3, 4, 5, 6}" unfolding upto_7 [symmetric] by (simp add: defs)
    with 3 show ?thesis by (intro exI [of _ "b + 5"]) (elim insertE; simp add: defs)
  qed
qed

text \<open>
  C23: erasing the blocks of the STM32F769I-DISCO storage table. For every region and block of the
  target's table, a call of the driver's \<open>EraseBlock\<close> on the start of the block that returns true has
  erased exactly the bytes of that block.
\<close>

theorem erase_block_F769_exact:
  assumes "flash_controller fb perr in_sector_F7"
    and "get_SR fb h AND FLASH_SR_BSY = 0"
    and "r \<in> set (Regions Device_BlockInfo_STM32F769I_DISCOVERY)" and "b < unat (NumBlocks r)"
    and "STM32FlashDriver_EraseBlock dbg False ADDR_FLASH_SECTOR_F7 fb ctx (BlockRegionInfo_BlockAddress r (of_nat b)) h =
      Ret (True, h')"
  shows "load8 fb h' x = (if BlockRegionInfo_BlockAddress r (of_nat b) \<le> x \<and>
      unat x < unat (BlockRegionInfo_BlockAddress r (of_nat b)) + unat (BytesPerBlock r)
      then 0xFF else load8 fb h x)"
proof -
  obtain n where n: "n < 12" "BlockRegionInfo_BlockAddress r (of_nat b) = ADDR_FLASH_SECTOR_F7 n"
    "unat (sector_end_F7 n) = unat (ADDR_FLASH_SECTOR_F7 n) + unat (BytesPerBlock r)"
    using F769_blocks_are_sectors [OF assms(3,4)] by blast
  have "flash_lld_erase False ADDR_FLASH_SECTOR_F7 fb (ADDR_FLASH_SECTOR_F7 n) h = Ret (True, h')"
    using assms(5) n(2)
    by (simp add: STM32FlashDriver_EraseBlock_def stm32FlashErase_def osalDbgCheck_def split: if_splits)
  from flash_controller.erase_program [OF assms(1) this assms(2)] n
  show ?thesis by (simp add: getSector_F7_start in_sector_F7_code word_less_nat_alt)
qed

theorem erase_block_F769_exact_witness:
  "\<exists>h'. STM32FlashDriver_EraseBlock True False ADDR_FLASH_SECTOR_F7 (sim_bus in_sector_F7)
        Device_BlockStorageConfig_STM32F769I_DISCOVERY 0x08040000 (sim_start\<lparr>sim_mem := (\<lambda>x. 0)\<rparr>) = Ret (True, h') \<and>
     sim_mem h' 0x0807FFFF = 0xFF \<and> sim_mem h' 0x08080000 = 0"
proof -
  let ?h = "sim_start\<lparr>sim_mem := (\<lambda>x. 0)\<rparr>"
  let ?r = "Regions Device_BlockInfo_STM32F769I_DISCOVERY ! 2"
  have "sim_cr ?h AND FLASH_CR_LOCK \<noteq> 0" using sim_start_facts(1) by simp
  then obtain h' where e: "flash_lld_erase False ADDR_FLASH_SECTOR_F7 (sim_bus in_sector_F7) 0x08040000 ?h = Ret (True, h')"
    using sim_erase_returns by blast
  have r: "?r \<in> set (Regions Device_BlockInfo_STM32F769I_DISCOVERY)" "0 < unat (NumBlocks ?r)"
    "BlockRegionInfo_BlockAddress ?r (of_nat 0) = 0x08040000" "unat (BytesPerBlock ?r) = 0x40000"
    by (simp_all add: Device_BlockInfo_STM32F769I_DISCOVERY_def BlockRegionInfo_BlockAddress_def)
  have run: "STM32FlashDriver_EraseBlock True False ADDR_FLASH_SECTOR_F7 (sim_bus in_sector_F7)
        Device_BlockStorageConfig_STM32F769I_DISCOVERY (BlockRegionInfo_BlockAddress ?r (of_nat 0)) ?h = Ret (True, h')"
    unfolding r(3) using e
    by (simp add: STM32FlashDriver_EraseBlock_def stm32FlashErase_def osalDbgCheck_def FLASH_BASE_def)
  have "get_SR (sim_bus in_sector_F7) ?h AND FLASH_SR_BSY = 0" by simp
  from erase_block_F769_exact [OF sim.flash_controller_axioms this r(1,2) run] run
  show ?thesis unfolding r(3,4) by simp
qed

text \<open>
  The second bank of the F427 to F479 parts. Over every controller that keeps the documented
  contract and has the sector map of the reference manual for these parts, an erase of an address in
  the second bank that returns true leaves the whole second bank as it was and erases the last sector
  of the first bank instead: the sector chain ends at sector 11, so that the offset of 4 for the
  sectors of the second bank is never added.
\<close>

theorem flash_erase_second_bank_erases_sector_11:
  assumes "flash_controller fb perr in_sector_F42x"
    and "get_SR fb h AND FLASH_SR_BSY = 0"
    and "0x08100000 \<le> address"
    and "flash_lld_erase flush ADDR_FLASH_SECTOR_F42x fb address h = Ret (True, h')"
  shows "load8 fb h' x = (if 0x080E0000 \<le> x \<and> x < 0x08100000 then 0xFF else load8 fb h x)"
proof -
  have "in_sector_F42x (ucast (11 :: u8)) x \<longleftrightarrow> 0x080E0000 \<le> x \<and> x < 0x08100000"
    using in_sector_F42x_code [of 11 x] by (simp add: ADDR_FLASH_SECTOR_F42x_def sector_end_F42x_def)
  then show ?thesis
    using flash_controller.erase_program [OF assms(1) assms(4) assms(2)] getSector_F42x_upper [OF assms(3)]
    by simp
qed

theorem flash_erase_second_bank_erases_sector_11_witness:
  "\<exists>h'. flash_lld_erase True ADDR_FLASH_SECTOR_F42x (sim_bus in_sector_F42x) 0x08104000
        (sim_start\<lparr>sim_mem := (\<lambda>x. 0)\<rparr>) = Ret (True, h') \<and>
     sim_mem h' 0x08104000 = 0 \<and> sim_mem h' 0x080E0000 = 0xFF"
proof -
  let ?h = "sim_start\<lparr>sim_mem := (\<lambda>x. 0)\<rparr>"
  have "sim_cr ?h AND FLASH_CR_LOCK \<noteq> 0" using sim_start_facts(1) by simp
  then obtain h' where e: "flash_lld_erase True ADDR_FLASH_SECTOR_F42x (sim_bus in_sector_F42x) 0x08104000 ?h = Ret (True, h')"
    using sim_erase_returns by blast
  from flash_erase_second_bank_erases_sector_11 [OF sim.flash_controller_axioms _ _ e] e
  show ?thesis by simp
qed

text \<open>
  The blank check. When the words it looks at lie below the end of the address space,
  \<open>flash_lld_isErased\<close> returns, and true exactly when every byte of the words that cover the range is
  0xFF; for a length that is a multiple of four these are the bytes of the range.
\<close>

theorem flash_is_erased_exact:
  assumes "unat start + unat len + 3 < 2 ^ 32"
  shows "flash_lld_isErased fb start len h = Ret (\<forall>i < 4 * ((unat len + 3) div 4). load8 fb h (start + of_nat i) = 0xFF)"
proof -
  have e: "unat (start + len) = unat start + unat len"
    using assms by (subst unat_add_lem [THEN iffD1]) auto
  then show ?thesis
    using erased_loop_exact [of "start + len" start "load8 fb h"] assms
    by (simp add: flash_lld_isErased_def c_run_def words_for_def)
qed

theorem flash_is_erased_exact_witness:
  "flash_lld_isErased (sim_bus in_sector_F7) 0x08000000 4 sim_start = Ret False"
proof -
  have "\<not> (\<forall>i < 4 * ((unat (4::u32) + 3) div 4). load8 (sim_bus in_sector_F7) sim_start (0x08000000 + of_nat i) = 0xFF)"
    by (intro notI) (drule spec [of _ 0], simp)
  with flash_is_erased_exact [where start = "0x08000000" and len = "4" and fb = "sim_bus in_sector_F7" and h = sim_start] show ?thesis by simp
qed

text \<open>
  Writing returns. When the controller completes every operation after some number of polls,
  \<open>flash_lld_write\<close> of a range that ends below the last address of the address space returns for every
  buffer that is long enough: it neither waits for ever nor reads behind the buffer.
\<close>

theorem flash_write_returns:
  assumes "\<forall>h. \<exists>n. get_SR fb ((bus_poll fb ^^ n) h) AND FLASH_SR_BSY = 0"
    and "unat start + unat len < 2 ^ 32 - 1" and "unat len < 2 ^ 31" and "unat len \<le> length buf"
  shows "\<exists>success h'. flash_lld_write fb start len buf h = Ret (success, h')"
proof -
  obtain unlocked h0 where unl: "HAL_FLASH_Unlock fb h = (unlocked, h0)" by (cases "HAL_FLASH_Unlock fb h")
  have e: "unat (start + len) = unat start + unat len"
    using assms(2) by (subst unat_add_lem [THEN iffD1]) auto
  have "\<exists>r. write_loop fb start (start + len) buf False (set_SR fb (FLASH_FLAG_ALL_ERRORS fb) h0) = Some (Ret r)"
    using assms by (intro write_loop_returns) (simp_all add: e always_completes_def)
  then show ?thesis using unl by (auto simp: flash_lld_write_def Let_def)
qed

theorem flash_write_returns_witness:
  "\<exists>success h'. flash_lld_write (sim_bus in_sector_F7) 0x08000100 2 [1, 2, 3] sim_start = Ret (success, h')"
proof -
  have "\<forall>h. \<exists>n. get_SR (sim_bus in_sector_F7) ((bus_poll (sim_bus in_sector_F7) ^^ n) h) AND FLASH_SR_BSY = 0"
    by simp
  then show ?thesis by (rule flash_write_returns) simp_all
qed

end
