(* ===== verification/NF_FlashF0L0.thy ===== *)
theory NF_FlashF0L0
  imports NF_FlashProps
begin

text \<open>
  The low level flash drivers of the F0 series (\<open>FLASHv1/flash_lld.c\<close>, suffix \<open>_v1\<close>) and of the L0
  series (\<open>FLASHv3/flash_lld.c\<close>, suffix \<open>_v3\<close>). Reading and the blank check are the same code as in
  \<open>FLASHv2\<close>. The L0 controller has other registers and is a parameter of its own, a \<open>pe_bus\<close>.
\<close>

section \<open>FLASHv1/flash_lld.c\<close>

definition FLASH_CR_LOCK_v1 :: u32 where "FLASH_CR_LOCK_v1 = 0x80"
definition FLASH_CR_STRT_v1 :: u32 where "FLASH_CR_STRT_v1 = 0x40"
definition FLASH_CR_PER_v1 :: u32 where "FLASH_CR_PER_v1 = 0x02"
definition FLASH_CR_PG_v1 :: u32 where "FLASH_CR_PG_v1 = 0x01"
definition FLASH_FLAG_BSY_v1 :: u32 where "FLASH_FLAG_BSY_v1 = 0x01"
definition F0_SERIES_SECTOR_SIZE :: u32 where "F0_SERIES_SECTOR_SIZE = 0x1000"

definition HAL_FLASH_Unlock_v1 :: "'h flash_bus \<Rightarrow> 'h \<Rightarrow> bool \<times> 'h" where
  "HAL_FLASH_Unlock_v1 fb h =
     (if get_CR fb h AND FLASH_CR_LOCK_v1 \<noteq> 0
      then (True, write_KEYR fb FLASH_KEY2 (write_KEYR fb FLASH_KEY1 h)) else (False, h))"

definition HAL_FLASH_Lock_v1 :: "'h flash_bus \<Rightarrow> 'h \<Rightarrow> 'h" where
  "HAL_FLASH_Lock_v1 fb h = set_CR fb (get_CR fb h OR FLASH_CR_LOCK_v1) h"

text \<open>The polling loops have no timeout.\<close>

partial_function (option) busy_loop_v1 :: "'h flash_bus \<Rightarrow> 'h \<Rightarrow> 'h option" where
  "busy_loop_v1 fb h =
     (if get_SR fb h AND FLASH_FLAG_BSY_v1 = FLASH_FLAG_BSY_v1 then busy_loop_v1 fb (bus_poll fb h) else Some h)"

partial_function (option) write_loop_v1 :: "'h flash_bus \<Rightarrow> u32 \<Rightarrow> u32 \<Rightarrow> u8 list \<Rightarrow> 'h \<Rightarrow> 'h c_result option" where
  "write_loop_v1 fb cursor endAddress buffer h =
     (if cursor < endAddress then
        if 2 \<le> sint (endAddress - cursor) then
          if length buffer < 2 then Some (Fault BadIndex)
          else Option.bind (busy_loop_v1 fb (store16 fb cursor (u16_of_bytes (take 2 buffer)) h))
                 (\<lambda>h. write_loop_v1 fb (cursor + 2) endAddress (drop 2 buffer) h)
        else
          if buffer = [] then Some (Fault BadIndex)
          else Option.bind (busy_loop_v1 fb (store8 fb cursor (hd buffer) h))
                 (\<lambda>h. write_loop_v1 fb (cursor + 2) endAddress buffer h)
      else Some (Ret h))"

definition flash_lld_write_v1 :: "'h flash_bus \<Rightarrow> u32 \<Rightarrow> u32 \<Rightarrow> u8 list \<Rightarrow> 'h \<Rightarrow> (bool \<times> 'h) c_result" where
  "flash_lld_write_v1 fb startAddress len buffer h =
     (case HAL_FLASH_Unlock_v1 fb h of (unlocked, h) \<Rightarrow>
        if unlocked then
          let h = set_CR fb (get_CR fb h OR FLASH_CR_PG_v1) h in
          c_bind (c_run (write_loop_v1 fb startAddress (startAddress + len) buffer h)) (\<lambda>r.
            c_bind r (\<lambda>h.
              let h = set_CR fb (get_CR fb h AND NOT FLASH_CR_PG_v1) h
              in Ret (True, HAL_FLASH_Lock_v1 fb h)))
        else Ret (False, h))"

text \<open>The result is truncated to eight bits.\<close>

definition flash_lld_getSector_v1 :: "u32 \<Rightarrow> u8" where
  "flash_lld_getSector_v1 address = ucast ((address - FLASH_BASE) div F0_SERIES_SECTOR_SIZE)"

definition flash_lld_erase_v1 :: "'h flash_bus \<Rightarrow> u32 \<Rightarrow> 'h \<Rightarrow> (bool \<times> 'h) c_result" where
  "flash_lld_erase_v1 fb address h =
     (case HAL_FLASH_Unlock_v1 fb h of (unlocked, h) \<Rightarrow>
        if unlocked then
          let h = set_CR fb (get_CR fb h OR FLASH_CR_PER_v1) h;
              h = write_AR fb address h;
              h = set_CR fb (get_CR fb h OR FLASH_CR_STRT_v1) h
          in c_bind (c_run (busy_loop_v1 fb h)) (\<lambda>h.
               let h = set_CR fb (get_CR fb h AND NOT FLASH_CR_PER_v1) h
               in Ret (True, HAL_FLASH_Lock_v1 fb h))
        else Ret (False, h))"

section \<open>FLASHv3/flash_lld.c\<close>

record 'h pe_bus =
  get_PECR :: "'h \<Rightarrow> u32"
  set_PECR :: "u32 \<Rightarrow> 'h \<Rightarrow> 'h"
  write_PEKEYR :: "u32 \<Rightarrow> 'h \<Rightarrow> 'h"
  write_PRGKEYR :: "u32 \<Rightarrow> 'h \<Rightarrow> 'h"
  pe_get_SR :: "'h \<Rightarrow> u32"
  pe_set_SR :: "u32 \<Rightarrow> 'h \<Rightarrow> 'h"
  pe_load8 :: "'h \<Rightarrow> memory"
  pe_store32 :: "u32 \<Rightarrow> u32 \<Rightarrow> 'h \<Rightarrow> 'h"
  pe_store16 :: "u32 \<Rightarrow> u16 \<Rightarrow> 'h \<Rightarrow> 'h"
  pe_store8 :: "u32 \<Rightarrow> u8 \<Rightarrow> 'h \<Rightarrow> 'h"
  pe_time :: "'h \<Rightarrow> u32"
  pe_MS2I :: "u32 \<Rightarrow> u32"
  pe_poll :: "'h \<Rightarrow> 'h"

definition FLASH_PECR_PELOCK :: u32 where "FLASH_PECR_PELOCK = 0x001"
definition FLASH_PECR_PRGLOCK :: u32 where "FLASH_PECR_PRGLOCK = 0x002"
definition FLASH_PECR_PROG :: u32 where "FLASH_PECR_PROG = 0x008"
definition FLASH_PECR_ERASE :: u32 where "FLASH_PECR_ERASE = 0x200"
definition FLASH_SR_BSY_v3 :: u32 where "FLASH_SR_BSY_v3 = 0x1"
definition FLASH_SR_EOP_v3 :: u32 where "FLASH_SR_EOP_v3 = 0x2"
definition FLASH_ERRORS_v3 :: "u32 list" where
  "FLASH_ERRORS_v3 = [0x100, 0x200, 0x400, 0x800, 0x2000, 0x20000, 0x10000]"
definition FLASH_PEKEY1 :: u32 where "FLASH_PEKEY1 = 0x89ABCDEF"
definition FLASH_PEKEY2 :: u32 where "FLASH_PEKEY2 = 0x02030405"
definition FLASH_PRGKEY1 :: u32 where "FLASH_PRGKEY1 = 0x8C9DAEBF"
definition FLASH_PRGKEY2 :: u32 where "FLASH_PRGKEY2 = 0x13141516"
definition FLASH_TIMEOUT_VALUE :: u32 where "FLASH_TIMEOUT_VALUE = 50000"
definition FLASH_PAGE_SIZE :: u32 where "FLASH_PAGE_SIZE = 128"

datatype HAL_StatusTypeDef = HAL_OK | HAL_ERROR | HAL_BUSY | HAL_TIMEOUT

text \<open>The conversion to \<open>bool\<close> and back that the return types of the file force: \<open>HAL_OK\<close> is 0.\<close>

definition status_bool :: "HAL_StatusTypeDef \<Rightarrow> bool" where
  "status_bool st \<longleftrightarrow> st \<noteq> HAL_OK"

definition HAL_FLASH_Unlock_v3 :: "'h pe_bus \<Rightarrow> 'h \<Rightarrow> bool \<times> 'h" where
  "HAL_FLASH_Unlock_v3 pb h =
     (if get_PECR pb h AND FLASH_PECR_PRGLOCK \<noteq> 0 then
        let h = (if get_PECR pb h AND FLASH_PECR_PELOCK \<noteq> 0
                 then write_PEKEYR pb FLASH_PEKEY2 (write_PEKEYR pb FLASH_PEKEY1 h) else h)
        in (status_bool HAL_OK, write_PRGKEYR pb FLASH_PRGKEY2 (write_PRGKEYR pb FLASH_PRGKEY1 h))
      else (status_bool HAL_ERROR, h))"

definition HAL_FLASH_Lock_v3 :: "'h pe_bus \<Rightarrow> 'h \<Rightarrow> 'h" where
  "HAL_FLASH_Lock_v3 pb h = set_PECR pb (get_PECR pb h OR FLASH_PECR_PRGLOCK) h"

partial_function (option) wait_loop_v3 :: "'h pe_bus \<Rightarrow> u32 \<Rightarrow> u32 \<Rightarrow> 'h \<Rightarrow> (bool \<times> 'h) option" where
  "wait_loop_v3 pb start stop h =
     (if pe_get_SR pb h AND FLASH_SR_BSY_v3 = FLASH_SR_BSY_v3 then
        if time_within start stop (pe_time pb h) then wait_loop_v3 pb start stop (pe_poll pb h)
        else Some (False, h)
      else Some (True, h))"

text \<open>On a timeout the function returns \<open>false\<close>, which as a status is \<open>HAL_OK\<close>.\<close>

definition FLASH_WaitForLastOperation_v3 :: "'h pe_bus \<Rightarrow> u32 \<Rightarrow> 'h \<Rightarrow> (HAL_StatusTypeDef \<times> 'h) option" where
  "FLASH_WaitForLastOperation_v3 pb timeout h =
     (let start = pe_time pb h; stop = start + pe_MS2I pb timeout in
      map_option (\<lambda>(idle, h).
          if \<not> idle then (HAL_OK, h)
          else
            let h = (if pe_get_SR pb h AND FLASH_SR_EOP_v3 = FLASH_SR_EOP_v3 then pe_set_SR pb FLASH_SR_EOP_v3 h else h)
            in if list_ex (\<lambda>f. pe_get_SR pb h AND f = f) FLASH_ERRORS_v3 then (HAL_ERROR, h) else (HAL_OK, h))
        (wait_loop_v3 pb start stop h))"

partial_function (option) write_loop_v3 :: "'h pe_bus \<Rightarrow> u32 \<Rightarrow> u32 \<Rightarrow> u8 list \<Rightarrow> HAL_StatusTypeDef \<Rightarrow> 'h \<Rightarrow>
    (HAL_StatusTypeDef \<times> 'h) c_result option" where
  "write_loop_v3 pb cursor endAddress buffer status h =
     (if cursor < endAddress then
        Option.bind (FLASH_WaitForLastOperation_v3 pb FLASH_TIMEOUT_VALUE h) (\<lambda>(status, h).
          if status = HAL_OK then
            if 2 \<le> sint (endAddress - cursor) then
              if length buffer < 2 then Some (Fault BadIndex)
              else write_loop_v3 pb (cursor + 2) endAddress (drop 2 buffer) status
                     (pe_store16 pb cursor (u16_of_bytes (take 2 buffer)) h)
            else
              if buffer = [] then Some (Fault BadIndex)
              else write_loop_v3 pb (cursor + 2) endAddress buffer status (pe_store8 pb cursor (hd buffer) h)
          else write_loop_v3 pb cursor endAddress buffer status h)
      else Some (Ret (status, h)))"

definition flash_lld_write_v3 :: "'h pe_bus \<Rightarrow> u32 \<Rightarrow> u32 \<Rightarrow> u8 list \<Rightarrow> 'h \<Rightarrow> (bool \<times> 'h) c_result" where
  "flash_lld_write_v3 pb startAddress len buffer h =
     (case HAL_FLASH_Unlock_v3 pb h of (unlocked, h) \<Rightarrow>
        if unlocked then
          c_bind (c_run (write_loop_v3 pb startAddress (startAddress + len) buffer HAL_ERROR h)) (\<lambda>r.
            c_bind r (\<lambda>(status, h). Ret (status = HAL_OK, HAL_FLASH_Lock_v3 pb h)))
        else Ret (HAL_ERROR = HAL_OK, h))"

definition flash_lld_getSector_v3 :: "u32 \<Rightarrow> u8" where
  "flash_lld_getSector_v3 address = ucast ((address - FLASH_BASE) div FLASH_PAGE_SIZE)"

definition flash_lld_erase_v3 :: "'h pe_bus \<Rightarrow> u32 \<Rightarrow> 'h \<Rightarrow> (bool \<times> 'h) c_result" where
  "flash_lld_erase_v3 pb address h =
     (case HAL_FLASH_Unlock_v3 pb h of (unlocked, h) \<Rightarrow>
        if unlocked then
          let h = set_PECR pb (get_PECR pb h OR FLASH_PECR_ERASE) h;
              h = set_PECR pb (get_PECR pb h OR FLASH_PECR_PROG) h;
              h = pe_store32 pb (address AND NOT (FLASH_PAGE_SIZE - 1)) 0 h
          in c_bind (c_run (FLASH_WaitForLastOperation_v3 pb FLASH_TIMEOUT_VALUE h)) (\<lambda>(status, h).
               let h = set_PECR pb (get_PECR pb h AND NOT FLASH_PECR_PROG) h;
                   h = set_PECR pb (get_PECR pb h AND NOT FLASH_PECR_ERASE) h
               in Ret (True, HAL_FLASH_Lock_v3 pb h))
        else Ret (False, h))"

section \<open>Properties\<close>

text \<open>
  What the F0 driver reports. Over every controller, a write or an erase that returns reports
  success exactly when the controller was locked on entry; no error of the controller can be
  reported, and an unlocked controller is never touched.
\<close>

theorem flash_v1_reports_only_the_lock:
  "(flash_lld_write_v1 fb start len buf h = Ret (ok, h') \<longrightarrow>
      ok = (get_CR fb h AND FLASH_CR_LOCK_v1 \<noteq> 0) \<and> (\<not> ok \<longrightarrow> h' = h)) \<and>
   (flash_lld_erase_v1 fb address h = Ret (ok, h') \<longrightarrow>
      ok = (get_CR fb h AND FLASH_CR_LOCK_v1 \<noteq> 0) \<and> (\<not> ok \<longrightarrow> h' = h))"
  by (auto simp: flash_lld_write_v1_def flash_lld_erase_v1_def HAL_FLASH_Unlock_v1_def Let_def
      c_bind_Inr_iff split: if_splits)

theorem flash_v1_reports_only_the_lock_witness:
  "flash_lld_write_v1 (sim_bus in_sector_F7) 0x08000020 2 [1, 2] sim_start = Ret (False, sim_start) \<and>
   (\<exists>h'. flash_lld_erase_v1 (sim_bus in_sector_F7) 0x08000020 (sim_start\<lparr>sim_cr := 0x80\<rparr>) = Ret (True, h'))"
proof -
  have w: "flash_lld_write_v1 (sim_bus in_sector_F7) 0x08000020 2 [1, 2] sim_start = Ret (False, sim_start)"
    by (simp add: flash_lld_write_v1_def HAL_FLASH_Unlock_v1_def FLASH_CR_LOCK_v1_def sim_bus_def sim_start_def flash_bits)
  have "\<exists>r. flash_lld_erase_v1 (sim_bus in_sector_F7) 0x08000020 (sim_start\<lparr>sim_cr := 0x80\<rparr>) = Ret r"
    by (auto simp: flash_lld_erase_v1_def HAL_FLASH_Unlock_v1_def Let_def busy_loop_v1.simps FLASH_FLAG_BSY_v1_def)
  then obtain ok h' where e: "flash_lld_erase_v1 (sim_bus in_sector_F7) 0x08000020 (sim_start\<lparr>sim_cr := 0x80\<rparr>) = Ret (ok, h')"
    by auto
  moreover have "get_CR (sim_bus in_sector_F7) (sim_start\<lparr>sim_cr := 0x80\<rparr>) AND FLASH_CR_LOCK_v1 \<noteq> 0"
    by (simp add: sim_bus_def FLASH_CR_LOCK_v1_def flash_bits)
  ultimately show ?thesis
    using flash_v1_reports_only_the_lock [where fb = "sim_bus in_sector_F7" and h = "sim_start\<lparr>sim_cr := 0x80\<rparr>"
        and ok = ok and h' = h' and address = "0x08000020", THEN conjunct2] w
    by (cases ok) simp_all
qed

text \<open>
  The L0 driver on a locked controller. Over every controller whose key registers leave the memory
  alone, a write or an erase on a locked controller unlocks it and gives up: \<open>HAL_FLASH_Unlock\<close>
  returns \<open>HAL_OK\<close>, which is false. The call reports failure, the memory is as it was, and the
  controller is left unlocked, since only the other branch locks it.
\<close>

theorem flash_v3_locked_gives_up:
  assumes "\<And>k h. pe_load8 pb (write_PEKEYR pb k h) = pe_load8 pb h"
    and "\<And>k h. pe_load8 pb (write_PRGKEYR pb k h) = pe_load8 pb h"
    and "get_PECR pb h AND FLASH_PECR_PRGLOCK \<noteq> 0"
  shows "\<exists>h'. flash_lld_write_v3 pb start len buf h = Ret (False, h') \<and>
    flash_lld_erase_v3 pb address h = Ret (False, h') \<and> pe_load8 pb h' = pe_load8 pb h \<and>
    (\<exists>h0. h' = write_PRGKEYR pb FLASH_PRGKEY2 (write_PRGKEYR pb FLASH_PRGKEY1 h0))"
  using assms
  by (auto simp: flash_lld_write_v3_def flash_lld_erase_v3_def HAL_FLASH_Unlock_v3_def status_bool_def Let_def)

record sim_pe =
  pe_cr :: u32
  pe_sr :: u32
  pe_mem :: memory

definition sim_pe_bus :: "sim_pe pe_bus" where
  "sim_pe_bus =
     \<lparr>get_PECR = pe_cr, set_PECR = (\<lambda>v h. h\<lparr>pe_cr := v\<rparr>),
      write_PEKEYR = (\<lambda>k h. if k = FLASH_PEKEY2 then h\<lparr>pe_cr := pe_cr h AND NOT FLASH_PECR_PELOCK\<rparr> else h),
      write_PRGKEYR = (\<lambda>k h. if k = FLASH_PRGKEY2 then h\<lparr>pe_cr := pe_cr h AND NOT FLASH_PECR_PRGLOCK\<rparr> else h),
      pe_get_SR = pe_sr, pe_set_SR = (\<lambda>v h. h\<lparr>pe_sr := pe_sr h AND NOT v\<rparr>), pe_load8 = pe_mem,
      pe_store32 = (\<lambda>a w h. h\<lparr>pe_mem := program (pe_mem h) a (bytes_of_u32 w)\<rparr>),
      pe_store16 = (\<lambda>a w h. h\<lparr>pe_mem := program (pe_mem h) a (bytes_of_u16 w)\<rparr>),
      pe_store8 = (\<lambda>a b h. h\<lparr>pe_mem := program (pe_mem h) a [b]\<rparr>),
      pe_time = (\<lambda>h. 0), pe_MS2I = (\<lambda>ms. ms), pe_poll = (\<lambda>h. h)\<rparr>"

definition pe_reset :: sim_pe where
  "pe_reset = \<lparr>pe_cr = 0x7, pe_sr = 0x8, pe_mem = (\<lambda>a. 0)\<rparr>"

theorem flash_v3_locked_gives_up_witness:
  "\<exists>h'. flash_lld_write_v3 sim_pe_bus 0x08001000 2 [1, 2] pe_reset = Ret (False, h') \<and>
     flash_lld_erase_v3 sim_pe_bus 0x08001000 pe_reset = Ret (False, h') \<and> pe_mem h' = pe_mem pe_reset"
proof -
  have "get_PECR sim_pe_bus pe_reset AND FLASH_PECR_PRGLOCK \<noteq> 0"
    by (simp add: sim_pe_bus_def pe_reset_def FLASH_PECR_PRGLOCK_def)
  moreover have "pe_load8 sim_pe_bus (write_PEKEYR sim_pe_bus k h) = pe_load8 sim_pe_bus h"
    "pe_load8 sim_pe_bus (write_PRGKEYR sim_pe_bus k h) = pe_load8 sim_pe_bus h" for k h
    by (simp_all add: sim_pe_bus_def)
  moreover have "pe_load8 sim_pe_bus = pe_mem" by (simp add: sim_pe_bus_def)
  ultimately show ?thesis
    using flash_v3_locked_gives_up [where pb = sim_pe_bus and h = pe_reset and start = "0x08001000" and
        len = "2" and buf = "[1, 2]" and address = "0x08001000"] by auto
qed

lemma write_loop_v3_stuck:
  assumes "\<And>v h. pe_get_SR pb (pe_set_SR pb v h) = pe_get_SR pb h AND NOT v"
    and "write_loop_v3 pb c e buf st h = Some r" and "c < e"
    and "pe_get_SR pb h AND FLASH_SR_BSY_v3 = 0"
    and "f \<in> set FLASH_ERRORS_v3" "pe_get_SR pb h AND f = f"
  shows False
proof -
  have eop: "x AND NOT FLASH_SR_EOP_v3 AND g = x AND g" if "g = FLASH_SR_BSY_v3 \<or> g = f" for x g
  proof -
    have "NOT FLASH_SR_EOP_v3 AND g = g"
      using that assms(5) by (auto simp: FLASH_ERRORS_v3_def FLASH_SR_EOP_v3_def FLASH_SR_BSY_v3_def)
    then show ?thesis by (simp only: and.assoc)
  qed
  define bad where "bad = (\<lambda>h. pe_get_SR pb h AND FLASH_SR_BSY_v3 = 0 \<and> pe_get_SR pb h AND f = f)"
  have wait: "\<exists>h'. FLASH_WaitForLastOperation_v3 pb t h = Some (HAL_ERROR, h') \<and> bad h'" if "bad h" for t h
  proof -
    let ?h = "if pe_get_SR pb h AND FLASH_SR_EOP_v3 = FLASH_SR_EOP_v3 then pe_set_SR pb FLASH_SR_EOP_v3 h else h"
    have "bad ?h" using that eop by (auto simp: bad_def assms(1) and.assoc)
    moreover from this have "list_ex (\<lambda>f. pe_get_SR pb ?h AND f = f) FLASH_ERRORS_v3"
      using assms(5) unfolding list_ex_iff bad_def by blast
    moreover have "wait_loop_v3 pb s u h = Some (True, h)" for s u
      using that by (subst wait_loop_v3.simps) (simp add: bad_def FLASH_SR_BSY_v3_def)
    ultimately show ?thesis
      by (intro exI [of _ ?h]) (simp only: FLASH_WaitForLastOperation_v3_def Let_def option.map prod.case if_True simp_thms if_False)
  qed
  have "\<not> (pb' = pb \<and> c < e \<and> bad h)" if "write_loop_v3 pb' c e buf st h = Some r" for pb' c e buf st h r
    using that
  proof (induction rule: write_loop_v3.raw_induct [rotated, consumes 1, case_names body])
    case (body loop pb' c e buf st h r)
    show ?case
    proof
      assume stuck: "pb' = pb \<and> c < e \<and> bad h"
      then obtain h' where h': "FLASH_WaitForLastOperation_v3 pb FLASH_TIMEOUT_VALUE h = Some (HAL_ERROR, h')" "bad h'"
        using wait by blast
      have "loop pb' c e buf HAL_ERROR h' = Some r" using body(2) stuck h'(1) by simp
      from body(1) [OF this] stuck h'(2) show False by blast
    qed
  qed
  from this [OF assms(2)] assms(3,4,6) show False by (simp add: bad_def)
qed

text \<open>
  The L0 driver after an error. Over every controller whose status register behaves as documented
  (writing a flag clears that flag only), a write of at least one byte on an idle controller that
  shows an error and is already unlocked never returns: the loop neither moves on nor leaves, and
  nothing clears the error.
\<close>

theorem flash_v3_error_never_returns:
  assumes "\<And>v h. pe_get_SR pb (pe_set_SR pb v h) = pe_get_SR pb h AND NOT v"
    and "get_PECR pb h AND FLASH_PECR_PRGLOCK = 0"
    and "start < start + len"
    and "pe_get_SR pb h AND FLASH_SR_BSY_v3 = 0"
    and "f \<in> set FLASH_ERRORS_v3" "pe_get_SR pb h AND f = f"
  shows "flash_lld_write_v3 pb start len buf h = Fault Hang"
proof -
  have "write_loop_v3 pb start (start + len) buf HAL_ERROR h = None"
    using write_loop_v3_stuck [OF assms(1) _ assms(3-6)] by (cases "write_loop_v3 pb start (start + len) buf HAL_ERROR h") blast+
  then show ?thesis using assms(2)
    by (simp add: flash_lld_write_v3_def HAL_FLASH_Unlock_v3_def status_bool_def)
qed

theorem flash_v3_error_never_returns_witness:
  "flash_lld_write_v3 sim_pe_bus 0x08001000 2 [1, 2] (pe_reset\<lparr>pe_cr := 0, pe_sr := 0x100\<rparr>) = Fault Hang"
  by (rule flash_v3_error_never_returns [where f = "0x100"])
     (simp_all add: sim_pe_bus_def FLASH_ERRORS_v3_def FLASH_SR_BSY_v3_def)

end
