(* ===== verification/NF_BooterApp.thy ===== *)
theory NF_BooterApp
  imports NF_BooterFrames NF_FlashF0L0
begin

text \<open>
  What the booter's application guarantees over any transport, flash controller, heap and
  configuration manager that leave the line and the globals of Wire Protocol alone: the locale
  \<open>booter_app\<close>. Each request is answered once, a repeated packet is ignored, and the receiver's
  contract for its application holds.
\<close>

section \<open>Flash operations leave other parts of the hardware alone\<close>

locale quiet_flash =
  fixes fb :: "'o flash_bus" and view :: "'o \<Rightarrow> 'v"
  assumes quiet [simp]:
    "view (set_CR fb v h) = view h" "view (set_SR fb v h) = view h" "view (write_KEYR fb v h) = view h"
    "view (instruction_cache_flush fb h) = view h" "view (data_cache_flush fb h) = view h"
    "view (store16 fb a w h) = view h" "view (store8 fb a b h) = view h" "view (bus_poll fb h) = view h"
begin

lemma wait_loop_quiet: "wait_loop fb start stop h = Some (b, h') \<Longrightarrow> view h' = view h"
proof -
  have "case r of (b, h') \<Rightarrow> fb' = fb \<longrightarrow> view h' = view h" if "wait_loop fb' start stop h = Some r" for fb' start stop h r
    using that
  proof (induction rule: wait_loop.raw_induct [rotated, consumes 1, case_names body])
    case (body loop fb' start stop h r)
    then show ?case by (auto split: if_splits prod.splits)
  qed
  then show "wait_loop fb start stop h = Some (b, h') \<Longrightarrow> view h' = view h" by blast
qed

lemma wait_quiet: "FLASH_WaitForLastOperation fb t h = Some (b, h') \<Longrightarrow> view h' = view h"
  by (auto simp: FLASH_WaitForLastOperation_def Let_def dest: wait_loop_quiet split: if_splits)

lemma program_unit_quiet: "program_unit fb c e buf h = Inr (buf', h') \<Longrightarrow> view h' = view h"
  by (auto simp: program_unit_def Let_def split: if_splits)

lemma write_loop_quiet:
  "write_loop fb c e buf s h = Some (Inr (b, h')) \<Longrightarrow> view h' = view h"
proof -
  have "case r of Inl e \<Rightarrow> True | Inr q \<Rightarrow> fb' = fb \<longrightarrow> view (snd q) = view h"
    if "write_loop fb' c e buf s h = Some r" for fb' c e buf s h r
    using that
  proof (induction rule: write_loop.raw_induct [rotated, consumes 1, case_names body])
    case (body loop fb' c e buf s h r)
    show ?case
    proof (cases "fb' = fb \<and> c < e")
      case False
      then show ?thesis using body(2) by (cases r) (auto split: if_splits sum.splits)
    next
      case True
      show ?thesis
      proof (cases "program_unit fb c e buf h")
        case (Inl f)
        then show ?thesis using body(2) True by auto
      next
        case (Inr q)
        obtain b1 h1 where q: "q = (b1, h1)" by (cases q)
        obtain s2 h2 where w: "FLASH_WaitForLastOperation fb 500 h1 = Some (s2, h2)"
          using body(2) True Inr q by (auto simp: bind_eq_Some_conv)
        have v: "view h2 = view h" using program_unit_quiet Inr q wait_quiet [OF w] by simp
        show ?thesis
        proof (cases s2)
          case False
          then show ?thesis using body(2) True Inr q w v by auto
        next
          case True
          then have "loop fb (c + 2) e b1 True h2 = Some r" using body(2) \<open>fb' = fb \<and> c < e\<close> Inr q w by auto
          from body(1) [OF this] v show ?thesis by (auto split: sum.splits)
        qed
      qed
    qed
  qed
  then show "write_loop fb c e buf s h = Some (Inr (b, h')) \<Longrightarrow> view h' = view h" by fastforce
qed

lemma lock_quiet [simp]: "view (HAL_FLASH_Lock fb h) = view h"
  by (simp add: HAL_FLASH_Lock_def)

lemma unlock_quiet: "HAL_FLASH_Unlock fb h = (b, h') \<Longrightarrow> view h' = view h"
  by (auto simp: HAL_FLASH_Unlock_def split: if_splits)

lemma write_quiet: "flash_lld_write fb start len buf h = Inr (b, h') \<Longrightarrow> view h' = view h"
  by (auto simp: flash_lld_write_def Let_def c_bind_Inr_iff c_run_Inr_iff
      dest!: write_loop_quiet unlock_quiet split: prod.splits if_splits)

lemma erase_quiet: "flash_lld_erase flush A fb address h = Inr (b, h') \<Longrightarrow> view h' = view h"
  by (auto simp: flash_lld_erase_def FLASH_FlushCaches_def Let_def c_bind_Inr_iff c_run_Inr_iff
      dest!: wait_quiet unlock_quiet split: prod.splits if_splits)

end

section \<open>The application\<close>

text \<open>
  \<open>same\<close>: what an operation of the application leaves alone. \<open>once\<close>: it has done at most one of
  sending a reply and leaving the request unanswered; an answered request carries \<open>WP_Flags_c_NonCritical\<close>.
\<close>

abbreviation answered :: "WP_Message \<Rightarrow> bool" where
  "answered m \<equiv> has_flag (m_flags (m_header m)) WP_Flags_c_NonCritical"

definition same :: "('o \<Rightarrow> u8 list) \<Rightarrow> ('o, 'z) wp_state_scheme \<Rightarrow> ('o, 'z) wp_state_scheme \<Rightarrow> bool" where
  "same rx g g' \<longleftrightarrow> receptionBuffer g' = receptionBuffer g \<and> wp_state.more g' = wp_state.more g \<and>
     rx (os g') = rx (os g)"

definition once :: "('o \<Rightarrow> u8 list) \<Rightarrow> WP_Message \<times> ('o, 'z) wp_state_scheme \<Rightarrow>
    WP_Message \<times> ('o, 'z) wp_state_scheme \<Rightarrow> bool" where
  "once rx mg mg' \<longleftrightarrow> (case mg of (m, g) \<Rightarrow> case mg' of (m', g') \<Rightarrow> same rx g g' \<and>
     (answered m' = answered m \<and> lastOutboundMessage g' = lastOutboundMessage g \<or>
      \<not> answered m \<and> answered m' \<and> lastOutboundMessage g' = lastOutboundMessage g + 1))"

lemma same_refl [simp]: "same rx g g" and same_trans: "same rx g g' \<Longrightarrow> same rx g' g'' \<Longrightarrow> same rx g g''"
  by (simp_all add: same_def)

lemma same_os [simp]: "rx h = rx (os g) \<Longrightarrow> same rx g (g\<lparr>os := h\<rparr>)"
  by (simp add: same_def)

lemma once_refl [simp]: "once rx mg mg"
  by (simp add: once_def split: prod.split)

lemma once_trans: "once rx a b \<Longrightarrow> once rx b c \<Longrightarrow> once rx a c"
  unfolding once_def by (cases a; cases b; cases c) (auto intro: same_trans)

lemma once_same: "same rx g g' \<Longrightarrow> lastOutboundMessage g' = lastOutboundMessage g \<Longrightarrow> once rx (m, g) (m, g')"
  by (simp add: once_def)

locale booter_app = quiet_flash "bt_flash T" rx
  for T :: "'o booter_target" and rx :: "'o \<Rightarrow> u8 list" +
  assumes transmit_only: "bt_transmit T m g = Inr (ok, g') \<Longrightarrow> only_port g g' \<and> rx (os g') = rx (os g)"
    and malloc_only: "bt_malloc T n g = (ok, g') \<Longrightarrow> only_port g g' \<and> rx (os g') = rx (os g)"
    and get_only: "bt_GetConfigurationBlock T c i g = (bs, g') \<Longrightarrow> only_port g g' \<and> rx (os g') = rx (os g)"
    and store_only: "bt_StoreConfigurationBlock T d c i len off g = (ok, g') \<Longrightarrow>
      only_port g g' \<and> rx (os g') = rx (os g)"
begin

lemma only_port_same:
  "only_port g g' \<and> rx (os g') = rx (os g) \<Longrightarrow> same rx g g' \<and> lastOutboundMessage g' = lastOutboundMessage g"
  by (auto simp: same_def dest: only_port_simps)

lemma reply_once:
  assumes "reply T m s p n g = Inr (m', g')"
  shows "once rx (m, g) (m', g') \<and> answered m'"
proof (cases "answered m")
  case True
  then have "m' = m" "g' = g" using assms by (simp_all add: reply_def WP_ReplyToCommand_silent)
  with True show ?thesis by simp
next
  case False
  have ans: "answered m'" using assms WP_ReplyToCommand_marks unfolding reply_def by blast
  obtain msg g1 ok where
    prep: "WP_Message_PrepareReply (bt_crc32 T) (WP_Message_Initialize local_message)
        ((m_header m)\<lparr>m_flags := m_flags (m_header m) OR WP_Flags_c_NonCritical\<rparr>)
        (reply_flags (m_flags (m_header m) OR WP_Flags_c_NonCritical) s False)
        (word_of_int (if s then n else 0)) (if s then p else PayloadNull) g = Inr (msg, g1)"
    and send: "bt_transmit T msg g1 = Inr (ok, g')"
    using assms False by (auto simp: reply_def WP_ReplyToCommand_def Let_def c_bind_Inr_iff)
  have "g1 = g\<lparr>lastOutboundMessage := lastOutboundMessage g + 1\<rparr>"
    using prep by (auto simp: WP_Message_PrepareReply_def Let_def c_bind_Inr_iff)
  with only_port_same [OF transmit_only [OF send]] ans False show ?thesis
    by (auto simp: once_def same_def)
qed

lemma AccessMemory_quiet: "AccessMemory T a n buf mode h = Inr (ok, buf', e, h') \<Longrightarrow> rx h' = rx h"
  by (cases mode)
     (auto simp: AccessMemory_def stm32FlashWrite_def stm32FlashErase_def stm32FlashIsErased_def
        stm32FlashReadBytes_def Let_def c_bind_Inr_iff dest!: write_quiet erase_quiet split: if_splits)

lemma access_reply_once:
  assumes "AccessMemory T a n buf mode (os g) = Inr (ok, buf', e, h)"
    and "reply T m s p k (g\<lparr>os := h\<rparr>) = Inr (m', g')"
  shows "once rx (m, g) (m', g')"
  using once_trans [OF once_same conjunct1 [OF reply_once [OF assms(2)]]] AccessMemory_quiet [OF assms(1)]
  by simp

lemma outside_reply_once:
  assumes "only_port g g1 \<and> rx (os g1) = rx (os g)" and "reply T m s p k g1 = Inr (m', g')"
  shows "once rx (m, g) (m', g')"
  using once_trans [OF once_same conjunct1 [OF reply_once [OF assms(2)]]] only_port_same [OF assms(1)]
  by simp

text \<open>Every command of the tables answers at most once and touches nothing else.\<close>

lemma handlers_once:
  assumes "(c, f) \<in> set (c_Lookup_Request T) \<union> set (c_Lookup_Reply T)"
    and "f m g = Inr (r, m', g')"
  shows "once rx (m, g) (m', g')"
proof -
  note [dest] = conjunct1 [OF reply_once]
  have "once rx (m, g) (m', g')" if "Monitor_Ping T m g = Inr (r, m', g')"
    using that by (auto simp: Monitor_Ping_def Let_def c_bind_Inr_iff split: if_splits)
  moreover have "once rx (m, g) (m', g')" if "Monitor_OemInfo T m g = Inr (r, m', g')"
    using that by (auto simp: Monitor_OemInfo_def c_bind_Inr_iff split: if_splits)
  moreover have "once rx (m, g) (m', g')" if "Monitor_MemoryMap T m g = Inr (r, m', g')"
    using that by (auto simp: Monitor_MemoryMap_def Let_def c_bind_Inr_iff)
  moreover have "once rx (m, g) (m', g')" if "Monitor_Reboot T m g = Inr (r, m', g')"
    using that by (auto simp: Monitor_Reboot_def Let_def c_bind_Inr_iff split: if_splits)
  moreover have "once rx (m, g) (m', g')" if "Monitor_ReadMemory T m g = Inr (r, m', g')"
    using that by (auto simp: Monitor_ReadMemory_def Let_def c_bind_Inr_iff intro: access_reply_once)
  moreover have "once rx (m, g) (m', g')" if "Monitor_WriteMemory T m g = Inr (r, m', g')"
    using that by (auto simp: Monitor_WriteMemory_def Let_def c_bind_Inr_iff intro: access_reply_once)
  moreover have "once rx (m, g) (m', g')" if "Monitor_EraseMemory T m g = Inr (r, m', g')"
    using that by (auto simp: Monitor_EraseMemory_def Let_def c_bind_Inr_iff intro: access_reply_once)
  moreover have "once rx (m, g) (m', g')" if "Monitor_CheckMemory T m g = Inr (r, m', g')"
    using that by (auto simp: Monitor_CheckMemory_def Let_def c_bind_Inr_iff intro: access_reply_once)
  moreover have "once rx (m, g) (m', g')" if "Monitor_QueryConfiguration T m g = Inr (r, m', g')"
    using that by (auto simp: Monitor_QueryConfiguration_def Let_def c_bind_Inr_iff
        intro: outside_reply_once dest: get_only split: if_splits prod.splits option.splits)
  moreover have "once rx (m, g) (m', g')" if "Monitor_UpdateConfiguration T m g = Inr (r, m', g')"
    using that by (auto simp: Monitor_UpdateConfiguration_def Let_def c_bind_Inr_iff
        intro: outside_reply_once dest: store_only split: if_splits prod.splits)
  moreover have "once rx (m, g) (m', g')" if "Monitor_FlashSectorMap T m g = Inr (r, m', g')"
    using that malloc_only [OF surjective_pairing]
    by (auto simp: Monitor_FlashSectorMap_def Let_def c_bind_Inr_iff case_prod_beta
        intro: outside_reply_once split: if_splits)
  ultimately show ?thesis using assms by (auto simp: c_Lookup_Request_def c_Lookup_Reply_def)
qed

lemma lookup_once:
  assumes "set cmds \<subseteq> set (c_Lookup_Request T) \<union> set (c_Lookup_Reply T)"
    and "lookup_loop T cmds m g = Inr (r, m', g')"
  shows "once rx (m, g) (m', g') \<and> answered m'"
  using assms
proof (induction cmds arbitrary: m g)
  case Nil
  then show ?case using reply_once by (auto simp: c_bind_Inr_iff)
next
  case (Cons cmd cmds)
  obtain command handler where cmd: "cmd = (command, handler)" by (cases cmd)
  show ?case
  proof (cases "command = m_cmd (m_header m)")
    case False
    then show ?thesis using Cons cmd by simp
  next
    case True
    then obtain r1 m1 g1 where h: "handler m g = Inr (r1, m1, g1)"
      and rep: "reply T m1 r1 PayloadNull 0 g1 = Inr (m', g')"
      using Cons.prems(2) cmd by (auto simp: c_bind_Inr_iff)
    have "(command, handler) \<in> set (c_Lookup_Request T) \<union> set (c_Lookup_Reply T)"
      using Cons.prems(1) cmd by auto
    from once_trans [OF handlers_once [OF this h] conjunct1 [OF reply_once [OF rep]]] reply_once [OF rep]
    show ?thesis by blast
  qed
qed

lemma ProcessPayload_once:
  assumes "WP_App_ProcessPayload_Booter T m g = Inr (r, m', g')"
    and "ucast (m_seq (m_header m)) \<noteq> lastPacketSequence g"
  shows "same rx (g\<lparr>lastPacketSequence := ucast (m_seq (m_header m))\<rparr>) g' \<and>
    lastOutboundMessage g' = lastOutboundMessage g +
      (if has_flag (m_flags (m_header m)) WP_Flags_c_NACK \<or> answered m then 0 else 1)"
proof (cases "has_flag (m_flags (m_header m)) WP_Flags_c_NACK")
  case True
  then show ?thesis using assms by (auto simp: WP_App_ProcessPayload_Booter_def Let_def)
next
  case False
  let ?g = "g\<lparr>lastPacketSequence := ucast (m_seq (m_header m))\<rparr>"
  have "lookup_loop T (if has_flag (m_flags (m_header m)) WP_Flags_c_Reply
      then c_Lookup_Reply T else c_Lookup_Request T) m ?g = Inr (r, m', g')"
    using assms False by (simp add: WP_App_ProcessPayload_Booter_def Let_def)
  from lookup_once [OF _ this] have "once rx (m, ?g) (m', g') \<and> answered m'" by simp
  with False show ?thesis by (auto simp: once_def)
qed

text \<open>The application as the receiver calls it: the result of \<open>WP_App_ProcessPayload\<close> is not looked at.\<close>

lemma ProcessPayload_same:
  assumes "WP_App_ProcessPayload_Booter T m g = Inr (r, m', g')"
  shows "receptionBuffer g' = receptionBuffer g \<and> rx (os g') = rx (os g)"
proof (cases "ucast (m_seq (m_header m)) = lastPacketSequence g")
  case True
  then show ?thesis using assms by (simp add: WP_App_ProcessPayload_Booter_def)
next
  case False
  from ProcessPayload_once [OF assms this] show ?thesis by (simp add: same_def)
qed

end

definition booter_payload :: "'o booter_target \<Rightarrow> WP_Message \<Rightarrow> 'o booter_state \<Rightarrow>
    (WP_Message \<times> 'o booter_state) c_result" where
  "booter_payload T m g = c_bind (WP_App_ProcessPayload_Booter T m g) (\<lambda>(_, m, g). Ret (m, g))"

sublocale booter_app \<subseteq> app: wp_application WP_App_ProcessHeader_Booter "booter_payload T" rx
  by unfold_locales
     (auto simp: WP_App_ProcessHeader_Booter_def booter_payload_def c_bind_Inr_iff
       dest: ProcessPayload_same split: if_splits)

section \<open>A board to run the booter on\<close>

text \<open>The serial line of the transports and the flash controller of the driver's properties.\<close>

record board = uart_line +
  chip :: sim_flash

definition on_chip :: "(sim_flash \<Rightarrow> sim_flash) \<Rightarrow> board \<Rightarrow> board" where
  "on_chip f b = b\<lparr>chip := f (chip b)\<rparr>"

definition board_bus :: "board flash_bus" where
  "board_bus = (let s = sim_bus in_sector_F7 in
     \<lparr>get_CR = (\<lambda>b. get_CR s (chip b)), set_CR = (\<lambda>v. on_chip (set_CR s v)), get_SR = (\<lambda>b. get_SR s (chip b)),
      set_SR = (\<lambda>v. on_chip (set_SR s v)), write_KEYR = (\<lambda>v. on_chip (write_KEYR s v)),
      write_AR = (\<lambda>v. on_chip (write_AR s v)), get_ACR = (\<lambda>b. get_ACR s (chip b)),
      instruction_cache_flush = on_chip (instruction_cache_flush s),
      data_cache_flush = on_chip (data_cache_flush s), load8 = (\<lambda>b. load8 s (chip b)),
      store16 = (\<lambda>a w. on_chip (store16 s a w)), store8 = (\<lambda>a v. on_chip (store8 s a v)),
      system_time = (\<lambda>b. system_time s (chip b)), TIME_MS2I = TIME_MS2I s,
      bus_poll = on_chip (bus_poll s), FLASH_FLAG_ALL_ERRORS = FLASH_FLAG_ALL_ERRORS s\<rparr>)"

lemma on_chip_simps [simp]:
  "chip (on_chip f b) = f (chip b)" "line_in (on_chip f b) = line_in b"
  "line_out (on_chip f b) = line_out b" "line_bursts (on_chip f b) = line_bursts b"
  "line_ticks (on_chip f b) = line_ticks b"
  by (simp_all add: on_chip_def)

text \<open>The line delivers without timeouts here.\<close>

definition prompt_io :: "'b uart_line_scheme rtos_io" where
  "prompt_io = line_io\<lparr>io_read := (\<lambda>n s. line_read n (s\<lparr>line_bursts := []\<rparr>))\<rparr>"

interpretation prompt: rtos_contract "prompt_io :: 'b uart_line_scheme rtos_io" line_in line_out
proof
  fix n and s :: "'b uart_line_scheme" and k bs s'
  assume "io_read prompt_io n s = ((k, bs), s')"
  then show "unat k = length bs \<and> length bs \<le> n \<and> line_in s = bs @ line_in s' \<and> line_out s' = line_out s"
    by (auto simp: prompt_io_def line_io_def line_read_def Let_def unat_of_nat_small min_def split: list.splits)
qed (auto simp: prompt_io_def line_io_def Let_def unat_of_nat_small min_def split: if_splits)

definition F769_driver_storage :: "board block_storage" where
  "F769_driver_storage =
     \<lparr>DeviceList = [Some 0], DeviceCount = 1,
      devices = (\<lambda>d. if d = 0 then Some \<lparr>m_BSD = STM32Flash_BlockStorageInterface False False ADDR_FLASH_SECTOR_F7 board_bus,
        m_context = Device_BlockStorageConfig_STM32F769I_DISCOVERY\<rparr> else None),
      hw = \<lparr>line_in = [], line_out = [], line_bursts = [], line_ticks = 0, chip = sim_start\<rparr>\<rparr>"

definition F769_booter :: "board booter_target" where
  "F769_booter =
     \<lparr>bt_crc32 = False, bt_transmit = WP_TransmitMessage_ChibiOS_Serial prompt_io, bt_debug = True, bt_flush = False,
      bt_sectors = ADDR_FLASH_SECTOR_F7, bt_flash = board_bus, bt_version = (1, 2, 3),
      bt_oem_info = replicate 56 0x20, bt_RAM1 = (0x20000000, 0x80000), bt_FLASH1 = (0x08000000, 0x200000),
      bt_storage = F769_driver_storage, bt_malloc = (\<lambda>n g. (True, g)), bt_config = False,
      bt_GetConfigurationBlock = (\<lambda>c i g. (None, g)),
      bt_StoreConfigurationBlock = (\<lambda>d c i n f g. (False, g)), bt_stack = replicate 1024 0xCC\<rparr>"

interpretation F769: booter_app F769_booter line_in
proof
  fix m and g :: "board booter_state" and ok g'
  assume "bt_transmit F769_booter m g = Inr (ok, g')"
  then show "only_port g g' \<and> line_in (os g') = line_in (os g)"
    by (auto simp: F769_booter_def dest: prompt.serial.transmit_law)
qed (simp_all add: F769_booter_def board_bus_def Let_def)

text \<open>The booter linked with the serial transport on this board.\<close>

definition booter_link_F769 :: "(board, unit booter_state_ext) wp_link" where
  "booter_link_F769 = wp_target False (WP_ReceiveBytes_ChibiOS_Serial prompt_io)
     (WP_TransmitMessage_ChibiOS_Serial prompt_io) WP_App_ProcessHeader_Booter (booter_payload F769_booter) prompt_io 1000"

interpretation F769_receiver: wp_receiver booter_link_F769 line_in line_out
  unfolding booter_link_F769_def
  by (rule wp_receiver_target [OF prompt.rtos_contract_axioms prompt.serial.wp_transport_axioms
        F769.app.wp_application_axioms])

interpretation F769_link: booter_link booter_link_F769 line_in line_out
proof
  fix m and g :: "board booter_state" and m' g'
  assume "lk_ProcessPayload booter_link_F769 m g = Inr (m', g')"
  then show "length (receptionBuffer g') = length (receptionBuffer g)"
    using F769.ProcessPayload_same by (fastforce simp: booter_link_F769_def booter_payload_def c_bind_Inr_iff)
next
  fix g :: "board booter_state" and t g'
  assume "lk_CurrentSysTicks booter_link_F769 g = (t, g')"
  then show "only_port g g'" by (auto simp: booter_link_F769_def wp_target_def only_port_def split: prod.splits)
qed (simp add: booter_link_F769_def)

interpretation F769_prompt: prompt_link booter_link_F769 line_in line_out
proof
  fix n :: u16 and g :: "board booter_state"
  assume "unat n \<le> length (line_in (os g))"
  moreover have "unat n < 2 ^ 16" using unsigned_less [of n, where ?'a = nat] by simp
  ultimately have "of_nat (min (min (unat n) 65535) (length (line_in (os g)))) = (ucast n :: u32)"
    by (simp add: word_unat_eq_iff min_def)
  then show "fst (lk_ReceiveBytes booter_link_F769 n g)"
    by (simp add: booter_link_F769_def WP_ReceiveBytes_ChibiOS_Serial_def read_request_def prompt_io_def
        line_read_def Let_def min.commute min.left_commute)
next
  fix g g1 g2 :: "board booter_state" and t1 t2
  assume "lk_CurrentSysTicks booter_link_F769 g = (t1, g1)" "lk_CurrentSysTicks booter_link_F769 g1 = (t2, g2)"
  then have "t2 - t1 = 1" by (auto simp: booter_link_F769_def wp_target_def prompt_io_def line_io_def)
  then show "lk_SysTicksToTime booter_link_F769 (ucast (t2 - t1)) < c_PayloadTimeout"
    by (simp add: booter_link_F769_def HAL_Time_SysTicksToTime_def c_PayloadTimeout_def)
qed (auto simp: booter_link_F769_def wp_target_def only_port_def prompt_io_def line_io_def split: prod.splits)

end
