(* ===== verification/NF_SectorMap.thy ===== *)
theory NF_SectorMap
  imports NF_BooterApp
begin

text \<open>
  What the booter's sector map command reads from a well-formed storage table: one entry per block
  range, in order, and where the regions of the table leave no gap the entries leave none either.
\<close>

fun entries_tile :: "nat \<Rightarrow> nat \<Rightarrow> (u32 \<times> u32 \<times> u32 \<times> u32) list \<Rightarrow> bool" where
  "entries_tile s e [] \<longleftrightarrow> s = e"
| "entries_tile s e ((start, blocks, bytes, usage) # es) \<longleftrightarrow>
     unat start = s \<and> entries_tile (s + unat blocks * unat bytes) e es"

lemma entries_tile_append:
  "entries_tile s m es \<Longrightarrow> entries_tile m e fs \<Longrightarrow> entries_tile s e (es @ fs)"
  by (induction es arbitrary: s) auto

lemma concat_concat_map: "concat (concat (map f xs)) = concat (map (\<lambda>x. concat (f x)) xs)"
  by (induction xs) auto

definition region_entries :: "BlockRegionInfo \<Rightarrow> (u32 \<times> u32 \<times> u32 \<times> u32) list" where
  "region_entries r = map (\<lambda>br. (BlockRegionInfo_BlockAddress r (StartBlock br), BlockRange_GetBlockCount br,
     BytesPerBlock r, RangeType br AND BlockRange_USAGE_MASK)) (BlockRanges r)"

definition entry_bytes :: "u32 \<times> u32 \<times> u32 \<times> u32 \<Rightarrow> u8 list" where
  "entry_bytes = (\<lambda>(start, blocks, bytes, usage).
     bytes_of_u32 start @ bytes_of_u32 blocks @ bytes_of_u32 bytes @ bytes_of_u32 usage)"

definition table_entries :: "DeviceBlockInfo \<Rightarrow> (u32 \<times> u32 \<times> u32 \<times> u32) list" where
  "table_entries info = concat (map region_entries (Regions info))"

lemma map_entry_bytes: "map entry_bytes (region_entries r) = map (sector_entry r) (BlockRanges r)"
  by (simp add: region_entries_def entry_bytes_def sector_entry_def)

lemma ranges_tile:
  assumes "wf_region r" and "ranges_cover s (unat (NumBlocks r)) brs"
  shows "entries_tile (unat (Start r) + s * unat (BytesPerBlock r)) (region_end r)
    (map (\<lambda>br. (BlockRegionInfo_BlockAddress r (StartBlock br), BlockRange_GetBlockCount br,
       BytesPerBlock r, RangeType br AND BlockRange_USAGE_MASK)) brs)"
  using assms(2)
proof (induction brs arbitrary: s)
  case Nil
  then show ?case by (simp add: region_end_def)
next
  case (Cons br brs)
  let ?B = "unat (BytesPerBlock r)"
  have br: "unat (StartBlock br) = s" "s \<le> unat (EndBlock br)"
    and rest: "ranges_cover (unat (EndBlock br) + 1) (unat (NumBlocks r)) brs" using Cons.prems by auto
  have le: "unat (EndBlock br) + 1 \<le> unat (NumBlocks r)" using ranges_cover_le [OF rest] .
  have "s * ?B \<le> unat (NumBlocks r) * ?B" using br(2) le by (intro mult_le_mono1) simp
  then have "unat (Start r) + s * ?B \<le> region_end r" unfolding region_end_def by (rule add_left_mono)
  then have fit: "unat (Start r) + s * ?B < 2 ^ 32"
    using assms(1) unfolding wf_region_def by (blast intro: le_less_trans)
  have addr: "unat (BlockRegionInfo_BlockAddress r (StartBlock br)) = unat (Start r) + s * ?B"
    using block_start_unat fit br(1)
    by (simp add: BlockRegionInfo_BlockAddress_def unat_add_lem [THEN iffD1] unat_mult_lem [THEN iffD1])
  have lt: "unat (EndBlock br) < 2 ^ 32 - 1" using le unat_u32_less [of "NumBlocks r"] by simp
  have "unat (BlockRange_GetBlockCount br) = unat (EndBlock br) + 1 - s"
    using br lt by (simp add: BlockRange_GetBlockCount_def unat_sub unat_add_lem [THEN iffD1] word_le_nat_alt)
  moreover have "s * ?B + (unat (EndBlock br) + 1 - s) * ?B = (unat (EndBlock br) + 1) * ?B"
    using br(2) by (metis add_mult_distrib le_add_diff_inverse le_SucI Suc_eq_plus1)
  ultimately have "unat (Start r) + s * ?B + unat (BlockRange_GetBlockCount br) * ?B =
      unat (Start r) + (unat (EndBlock br) + 1) * ?B" by (simp only: add.assoc)
  with Cons.IH [OF rest] addr show ?case
    by (simp only: list.map entries_tile.simps br(1) simp_thms)
qed

lemma region_tile: "wf_region r \<Longrightarrow> entries_tile (unat (Start r)) (region_end r) (region_entries r)"
  using ranges_tile [of r 0 "BlockRanges r"] by (simp add: region_entries_def wf_region_def)

lemma table_tile:
  "regions_tile s e rs \<Longrightarrow> list_all wf_region rs \<Longrightarrow> entries_tile s e (concat (map region_entries rs))"
  by (induction rs arbitrary: s) (auto intro: entries_tile_append region_tile)

context device_layout
begin

lemma regions_read: "c_map (c_index (Regions info)) [0..<unat (NumRegions info)] = Ret (Regions info)"
  using c_map_index [of "unat (NumRegions info)" "Regions info"] layout by (simp add: wf_device_def)

lemma sector_map_entries:
  "sector_map info = Ret (concat (map entry_bytes (table_entries info)))"
proof -
  have "c_map (\<lambda>r. c_bind (c_map (c_index (BlockRanges r)) [0..<unat (NumBlockRanges r)])
      (\<lambda>ranges. Ret (concat (map (sector_entry r) ranges)))) (Regions info) =
    Ret (map (\<lambda>r. concat (map (sector_entry r) (BlockRanges r))) (Regions info))"
  proof (rule c_map_Ret)
    fix r assume "r \<in> set (Regions info)"
    then have "unat (NumBlockRanges r) = length (BlockRanges r)"
      using layout by (auto simp: wf_device_def wf_region_def list_all_iff)
    then show "c_bind (c_map (c_index (BlockRanges r)) [0..<unat (NumBlockRanges r)])
        (\<lambda>ranges. Ret (concat (map (sector_entry r) ranges))) = Ret (concat (map (sector_entry r) (BlockRanges r)))"
      by (simp add: c_map_index)
  qed
  then show ?thesis
    by (simp add: sector_map_def regions_read table_entries_def map_concat map_entry_bytes concat_concat_map o_def)
qed

lemma count_entries: "count_ranges info = Ret (length (table_entries info))"
proof -
  have "map (\<lambda>r. unat (NumBlockRanges r)) (Regions info) = map (\<lambda>r. length (region_entries r)) (Regions info)"
    using layout by (auto simp: wf_device_def wf_region_def list_all_iff region_entries_def)
  from arg_cong [OF this, of sum_list] show ?thesis
    by (simp add: count_ranges_def regions_read table_entries_def length_concat o_def)
qed

end

end
