(* ===== verification/NF_ObjArray.thy ===== *)
theory NF_ObjArray
  imports NF_Prelude "HOL-Library.Signed_Division"
begin

text \<open>
  The arrays of object references that the managed collections keep their elements in
  (CLR_RT_HeapBlock_Array.cpp), and the interface through which every collection is used: a
  sequence of operations, each of which may find the heap exhausted.

  An object reference is a 32-bit pointer, 0 for null. A \<open>CLR_INT32\<close> is an \<open>int\<close>, wrapped by \<open>s32\<close>
  wherever the code's arithmetic could leave the type.
\<close>

section \<open>Integers and results\<close>

type_synonym objref = u32
type_synonym hresult = u32

abbreviation NULL :: objref where
  "NULL \<equiv> 0"

definition s32 :: "int \<Rightarrow> int" where
  "s32 i = signed_take_bit 31 i"

lemma s32_small [simp]: "- (2 ^ 31) \<le> i \<Longrightarrow> i < 2 ^ 31 \<Longrightarrow> s32 i = i"
  unfolding s32_def by (rule signed_take_bit_int_eq_self) simp_all

lemma s32_of_nat [simp]: "n < 2 ^ 31 \<Longrightarrow> s32 (int n) = int n"
proof -
  assume "n < 2 ^ 31"
  then have "int n < int (2 ^ 31)" by (simp only: of_nat_less_iff)
  then show ?thesis by (intro s32_small) simp_all
qed

definition MAKE_HRESULT :: "u32 \<Rightarrow> u32 \<Rightarrow> u32 \<Rightarrow> hresult" where
  "MAKE_HRESULT sev fac code = push_bit 31 sev OR push_bit 16 fac OR code"

definition S_OK :: hresult where "S_OK = 0"
definition CLR_E_OUT_OF_RANGE :: hresult where "CLR_E_OUT_OF_RANGE = MAKE_HRESULT 1 0x2500 0"
definition CLR_E_INVALID_OPERATION :: hresult where
  "CLR_E_INVALID_OPERATION = MAKE_HRESULT 1 0x5600 0"
definition CLR_E_OUT_OF_MEMORY :: hresult where "CLR_E_OUT_OF_MEMORY = MAKE_HRESULT 1 0x7A00 0"
definition CLR_E_INVALID_PARAMETER :: hresult where
  "CLR_E_INVALID_PARAMETER = MAKE_HRESULT 1 0x7D00 0"

lemmas hresult_defs = S_OK_def CLR_E_OUT_OF_RANGE_def CLR_E_INVALID_OPERATION_def
  CLR_E_OUT_OF_MEMORY_def CLR_E_INVALID_PARAMETER_def MAKE_HRESULT_def

lemma hresult_neq [simp]:
  "S_OK \<noteq> CLR_E_OUT_OF_RANGE" "S_OK \<noteq> CLR_E_INVALID_OPERATION" "S_OK \<noteq> CLR_E_OUT_OF_MEMORY"
  "S_OK \<noteq> CLR_E_INVALID_PARAMETER" "CLR_E_OUT_OF_RANGE \<noteq> S_OK" "CLR_E_OUT_OF_MEMORY \<noteq> S_OK"
  "CLR_E_OUT_OF_RANGE \<noteq> CLR_E_OUT_OF_MEMORY"
  "CLR_E_INVALID_OPERATION \<noteq> CLR_E_OUT_OF_MEMORY"
  by (simp_all add: hresult_defs)

section \<open>Arrays of references\<close>

record obj_array =
  m_typeOfElement :: u8
  elements :: "objref list"

definition m_numOfElements :: "obj_array \<Rightarrow> int" where
  "m_numOfElements a = int (length (elements a))"

text \<open>The parameter of \<open>GetElement\<close> is a \<open>CLR_UINT32\<close>: a negative index becomes a huge one.\<close>

definition elem_index :: "int \<Rightarrow> nat" where
  "elem_index i = nat (i mod 2 ^ 32)"

definition load_element :: "obj_array \<Rightarrow> int \<Rightarrow> objref c_result" where
  "load_element a i = c_index (elements a) (elem_index i)"

definition store_element :: "obj_array \<Rightarrow> int \<Rightarrow> objref \<Rightarrow> obj_array c_result" where
  "store_element a i v =
     (if elem_index i < length (elements a) then Ret (a\<lparr>elements := (elements a)[elem_index i := v]\<rparr>)
      else Fault BadIndex)"

text \<open>A block of elements written at a position; outside the array it is a fault.\<close>

definition overwrite :: "'a list \<Rightarrow> nat \<Rightarrow> 'a list \<Rightarrow> 'a list" where
  "overwrite xs j ys = take j xs @ ys @ drop (j + length ys) xs"

definition memcpy_elements ::
    "obj_array \<Rightarrow> int \<Rightarrow> obj_array \<Rightarrow> int \<Rightarrow> int \<Rightarrow> obj_array c_result" where
  "memcpy_elements dst j src i n =
     (if n = 0 then Ret dst
      else if 0 \<le> n \<and> elem_index i + nat n \<le> length (elements src) \<and>
        elem_index j + nat n \<le> length (elements dst)
      then Ret (dst\<lparr>elements := overwrite (elements dst) (elem_index j)
        (take (nat n) (drop (elem_index i) (elements src)))\<rparr>)
      else Fault BadIndex)"

text \<open>\<open>ClearElements\<close> on an array of references: zero fill, and every block a null reference.\<close>

definition ClearElements :: "obj_array \<Rightarrow> int \<Rightarrow> int \<Rightarrow> obj_array c_result" where
  "ClearElements a index len =
     (if len = 0 then Ret a
      else if 0 \<le> len \<and> elem_index index + nat len \<le> length (elements a)
      then Ret (a\<lparr>elements := overwrite (elements a) (elem_index index) (replicate (nat len) NULL)\<rparr>)
      else Fault BadIndex)"

text \<open>
  What the collections need of the execution engine: the data type that \<open>mscorlib\<close> records for
  \<open>System.Object\<close>, whether the heap can give so many consecutive heap blocks, and the copy with
  casts between arrays of different types (\<open>CLR_RT_HeapBlock_Array::Copy\<close>, which rests on the type
  system). The copy returns its result code and the destination.
\<close>

record clr_heap =
  m_Object_dataType :: u8
  ExtractHeapBlocks :: "u32 \<Rightarrow> bool"
  Array_Copy :: "obj_array \<Rightarrow> int \<Rightarrow> obj_array \<Rightarrow> int \<Rightarrow> int \<Rightarrow> (hresult \<times> obj_array) c_result"

definition DATATYPE_OBJECT :: u8 where "DATATYPE_OBJECT = 16"
definition HB_MaxSize :: u32 where "HB_MaxSize = 0xFFFF"
definition sizeof_HeapBlock :: u32 where "sizeof_HeapBlock = 12"
definition sizeof_HeapBlock_Array :: u32 where "sizeof_HeapBlock_Array = 20"

definition CONVERTFROMSIZETOHEAPBLOCKS :: "u32 \<Rightarrow> u32" where
  "CONVERTFROMSIZETOHEAPBLOCKS x = (x + (sizeof_HeapBlock - 1)) div sizeof_HeapBlock"

text \<open>The heap blocks taken for an array of references; the length is computed in 32 bits.\<close>

definition ExtractHeapBlocksForArray :: "clr_heap \<Rightarrow> u32 \<Rightarrow> u32 option" where
  "ExtractHeapBlocksForArray h len =
     (let totLength = sizeof_HeapBlock_Array + len * sizeof_HeapBlock;
          lengthHB = CONVERTFROMSIZETOHEAPBLOCKS totLength
      in if lengthHB > HB_MaxSize then None
         else if ExtractHeapBlocks h lengthHB then Some lengthHB else None)"

text \<open>
  \<open>CreateInstance\<close> for the element type \<open>System.Object\<close>. The new array is cleared element by
  element; where the blocks taken do not hold all elements that runs over the end of the array.
\<close>

definition CreateInstance :: "clr_heap \<Rightarrow> u32 \<Rightarrow> (hresult + obj_array) c_result" where
  "CreateInstance h len =
     (if sint len < 0 then Ret (Inl CLR_E_OUT_OF_RANGE)
      else case ExtractHeapBlocksForArray h len of
        None \<Rightarrow> Ret (Inl CLR_E_OUT_OF_MEMORY)
      | Some blocks \<Rightarrow>
          if unat sizeof_HeapBlock_Array + unat len * unat sizeof_HeapBlock \<le> unat blocks * unat sizeof_HeapBlock
          then Ret (Inr \<lparr>m_typeOfElement = m_Object_dataType h, elements = replicate (unat len) NULL\<rparr>)
          else Fault BadIndex)"

subsection \<open>Lemmas\<close>

lemma elem_index_small [simp]: "0 \<le> i \<Longrightarrow> i < 2 ^ 31 \<Longrightarrow> elem_index i = nat i"
  by (simp add: elem_index_def)

lemma elem_index_of_nat [simp]: "n < 2 ^ 31 \<Longrightarrow> elem_index (int n) = n"
proof -
  assume "n < 2 ^ 31"
  then have "int n < int (2 ^ 31)" by (simp only: of_nat_less_iff)
  then show ?thesis by (subst elem_index_small) simp_all
qed

lemma load_element_nat:
  "i < length (elements a) \<Longrightarrow> length (elements a) < 2 ^ 31 \<Longrightarrow>
     load_element a (int i) = Ret (elements a ! i)"
  by (simp add: load_element_def c_index_def)

lemma store_element_nat:
  "i < length (elements a) \<Longrightarrow> length (elements a) < 2 ^ 31 \<Longrightarrow>
     store_element a (int i) v = Ret (a\<lparr>elements := (elements a)[i := v]\<rparr>)"
  by (simp add: store_element_def)

lemma length_overwrite [simp]:
  "j + length ys \<le> length xs \<Longrightarrow> length (overwrite xs j ys) = length xs"
  by (simp add: overwrite_def)

lemma nth_overwrite:
  "j + length ys \<le> length xs \<Longrightarrow> i < length xs \<Longrightarrow>
     overwrite xs j ys ! i = (if j \<le> i \<and> i < j + length ys then ys ! (i - j) else xs ! i)"
  by (auto simp: overwrite_def nth_append min_def)

lemma ClearElements_nat:
  "i + n \<le> length (elements a) \<Longrightarrow> length (elements a) < 2 ^ 31 \<Longrightarrow>
     ClearElements a (int i) (int n) =
       Ret (a\<lparr>elements := overwrite (elements a) i (replicate n NULL)\<rparr>)"
  by (cases "n = 0") (simp_all add: ClearElements_def overwrite_def)

lemma memcpy_elements_nat:
  "i + n \<le> length (elements src) \<Longrightarrow> j + n \<le> length (elements dst) \<Longrightarrow>
     length (elements src) < 2 ^ 31 \<Longrightarrow> length (elements dst) < 2 ^ 31 \<Longrightarrow>
     memcpy_elements dst (int j) src (int i) (int n) =
       Ret (dst\<lparr>elements := overwrite (elements dst) j (take n (drop i (elements src)))\<rparr>)"
  by (cases "n = 0") (simp_all add: memcpy_elements_def overwrite_def)

text \<open>Below this length the 32-bit size is the true one.\<close>

definition safe_length :: "int \<Rightarrow> bool" where
  "safe_length n \<longleftrightarrow> n < 0x15555553"

lemma array_blocks:
  assumes "unat len * 12 + 31 < 2 ^ 32"
  shows "unat (CONVERTFROMSIZETOHEAPBLOCKS (sizeof_HeapBlock_Array + len * sizeof_HeapBlock)) =
     (unat len * 12 + 31) div 12"
proof -
  have m: "unat (len * 12) = unat len * 12" using assms by (subst unat_mult_lem [THEN iffD1]) simp_all
  have p: "unat (20 + len * 12) = 20 + unat len * 12"
    using assms m by (subst unat_add_lem [THEN iffD1]) simp_all
  have q: "unat (20 + len * 12 + 11) = 31 + unat len * 12"
    using assms p by (subst unat_add_lem [THEN iffD1]) simp_all
  have "unat (12 :: u32) = 12" by simp
  then have "unat ((20 + len * 12 + 11) div 12) = (31 + unat len * 12) div 12"
    using q by (metis unat_div)
  then show ?thesis
    by (simp add: CONVERTFROMSIZETOHEAPBLOCKS_def sizeof_HeapBlock_def sizeof_HeapBlock_Array_def
        add.commute)
qed

lemma CreateInstance_cases:
  assumes "safe_length n" and "- (2 ^ 31) \<le> n"
  obtains (no_memory) hr where "CreateInstance h (word_of_int n) = Ret (Inl hr)"
      "hr = (if n < 0 then CLR_E_OUT_OF_RANGE else CLR_E_OUT_OF_MEMORY)"
  | (array) "CreateInstance h (word_of_int n) =
      Ret (Inr \<lparr>m_typeOfElement = m_Object_dataType h, elements = replicate (nat n) NULL\<rparr>)"
      "0 \<le> n" "n \<le> 0xFFFF"
proof -
  have s: "sint (word_of_int n :: u32) = n"
  proof -
    have "signed_take_bit 31 n = n"
      using assms by (intro signed_take_bit_int_eq_self) (simp_all add: safe_length_def)
    then show ?thesis using sint_sbintrunc' [of n, where ?'a = 32] by simp
  qed
  show ?thesis
  proof (cases "n < 0")
    case True
    then show ?thesis using no_memory s by (simp add: CreateInstance_def)
  next
    case False
    then obtain k where n: "n = int k" by (metis not_less zero_le_imp_eq_int)
    have k: "k * 12 + 31 < 2 ^ 32" using assms(1) by (simp add: n safe_length_def)
    have u: "unat (word_of_int n :: u32) = k" using k by (simp add: n unat_of_nat)
    show ?thesis
    proof (cases "ExtractHeapBlocksForArray h (word_of_int n)")
      case None
      then show ?thesis using no_memory s False by (simp add: CreateInstance_def)
    next
      case (Some b)
      have ub: "unat b = (k * 12 + 31) div 12"
        using Some array_blocks [of "word_of_int n"] k u
        by (auto simp: ExtractHeapBlocksForArray_def Let_def split: if_splits)
      have "b \<le> 0xFFFF"
        using Some by (auto simp: ExtractHeapBlocksForArray_def Let_def HB_MaxSize_def split: if_splits)
      then have le: "k \<le> 0xFFFF" using ub by (simp add: word_le_nat_alt)
      have "20 + k * 12 \<le> (k * 12 + 31) div 12 * 12" by presburger
      then have "CreateInstance h (word_of_int n) =
          Ret (Inr \<lparr>m_typeOfElement = m_Object_dataType h, elements = replicate (nat n) NULL\<rparr>)"
        using s False Some u ub
        by (simp add: CreateInstance_def sizeof_HeapBlock_def sizeof_HeapBlock_Array_def n)
      then show ?thesis using array le n by simp
    qed
  qed
qed

text \<open>An array that the heap can hold.\<close>

definition wf_array :: "obj_array \<Rightarrow> bool" where
  "wf_array a \<longleftrightarrow> 0 < length (elements a) \<and> length (elements a) \<le> 0xFFFF"

section \<open>The interface of a collection\<close>

type_synonym op_reply = "hresult \<times> objref option"

text \<open>
  A client of a collection sends it operations, one after another. The collection promises that
  each of them does what a reference operation on a list does, or reports that it got no memory
  and leaves the list as it was. \<open>fit\<close> is the precondition under which the promise is made.
\<close>

fun run_ops :: "('op \<Rightarrow> 's \<Rightarrow> ('r \<times> 's) c_result) \<Rightarrow> 'op list \<Rightarrow> 's \<Rightarrow> ('r list \<times> 's) c_result" where
  "run_ops step [] s = Ret ([], s)"
| "run_ops step (x # xs) s =
     c_bind (step x s) (\<lambda>(r, s'). c_bind (run_ops step xs s') (\<lambda>(rs, t). Ret (r # rs, t)))"

text \<open>The reference run; the flag of an operation says whether the heap refused it.\<close>

fun run_list :: "('op \<Rightarrow> 'a list \<Rightarrow> 'r \<times> 'a list) \<Rightarrow> 'r \<Rightarrow> ('op \<times> bool) list \<Rightarrow> 'a list \<Rightarrow> 'r list \<times> 'a list" where
  "run_list ref full [] xs = ([], xs)"
| "run_list ref full ((x, refused) # ops) xs =
     (let (r, ys) = (if refused then (full, xs) else ref x xs);
          (rs, zs) = run_list ref full ops ys
      in (r # rs, zs))"

locale collection =
  fixes step :: "'op \<Rightarrow> 's \<Rightarrow> ('r \<times> 's) c_result"
    and reference :: "'op \<Rightarrow> 'a list \<Rightarrow> 'r \<times> 'a list"
    and full :: 'r
    and wf :: "'s \<Rightarrow> bool"
    and contents :: "'s \<Rightarrow> 'a list"
    and fit :: "'op list \<Rightarrow> 's \<Rightarrow> bool"
  assumes step_ok: "wf s \<Longrightarrow> fit (x # xs) s \<Longrightarrow> \<exists>r s'. step x s = Ret (r, s') \<and> wf s' \<and> fit xs s' \<and>
      ((r, contents s') = reference x (contents s) \<or> (r = full \<and> contents s' = contents s))"
begin

lemma run_refines:
  assumes "wf s" and "fit ops s"
  shows "\<exists>rs s' fs. run_ops step ops s = Ret (rs, s') \<and> wf s' \<and> length fs = length ops \<and>
      run_list reference full (zip ops fs) (contents s) = (rs, contents s')"
  using assms
proof (induction ops arbitrary: s)
  case Nil
  then show ?case by simp
next
  case (Cons x xs)
  obtain r s1 where s1: "step x s = Ret (r, s1)" "wf s1" "fit xs s1"
    and ok: "(r, contents s1) = reference x (contents s) \<or> (r = full \<and> contents s1 = contents s)"
    using step_ok [OF Cons.prems] by blast
  obtain f where f: "(if f then (full, contents s) else reference x (contents s)) = (r, contents s1)"
    using ok by (metis (full_types))
  obtain rs s2 fs where "run_ops step xs s1 = Ret (rs, s2)" "wf s2" "length fs = length xs"
    "run_list reference full (zip xs fs) (contents s1) = (rs, contents s2)"
    using Cons.IH [OF s1(2,3)] by blast
  then have "run_ops step (x # xs) s = Ret (r # rs, s2) \<and> wf s2 \<and> length (f # fs) = length (x # xs) \<and>
      run_list reference full (zip (x # xs) (f # fs)) (contents s) = (r # rs, contents s2)"
    using s1(1) f by simp
  then show ?case by blast
qed

lemma run_no_fault: "wf s \<Longrightarrow> fit ops s \<Longrightarrow> \<exists>rs s'. run_ops step ops s = Ret (rs, s') \<and> wf s'"
  using run_refines by blast

end

text \<open>A collection that never refuses does exactly what the reference does.\<close>

locale exact_collection = collection step reference full wf contents fit
  for step :: "'op \<Rightarrow> 's \<Rightarrow> ('r \<times> 's) c_result"
    and reference :: "'op \<Rightarrow> 'a list \<Rightarrow> 'r \<times> 'a list"
    and full :: 'r
    and wf :: "'s \<Rightarrow> bool"
    and contents :: "'s \<Rightarrow> 'a list"
    and fit :: "'op list \<Rightarrow> 's \<Rightarrow> bool" +
  assumes step_exact: "wf s \<Longrightarrow> fit (x # xs) s \<Longrightarrow> step x s = Ret (r, s') \<Longrightarrow>
      (r, contents s') = reference x (contents s)"
begin

lemma run_exact:
  assumes "wf s" and "fit ops s"
  shows "\<exists>rs s'. run_ops step ops s = Ret (rs, s') \<and> wf s' \<and>
      run_list reference full (zip ops (replicate (length ops) False)) (contents s) = (rs, contents s')"
  using assms
proof (induction ops arbitrary: s)
  case Nil
  then show ?case by simp
next
  case (Cons x xs)
  obtain r s1 where s1: "step x s = Ret (r, s1)" "wf s1" "fit xs s1"
    using step_ok [OF Cons.prems] by blast
  have r: "reference x (contents s) = (r, contents s1)" using step_exact [OF Cons.prems s1(1)] by simp
  obtain rs s2 where "run_ops step xs s1 = Ret (rs, s2)" "wf s2"
    "run_list reference full (zip xs (replicate (length xs) False)) (contents s1) = (rs, contents s2)"
    using Cons.IH [OF s1(2,3)] by blast
  then show ?case using s1(1) r by simp
qed

end

end
