(* ===== verification/NF_Stack.thy ===== *)
theory NF_Stack
  imports NF_ObjArray
begin

text \<open>
  \<open>System.Collections.Stack\<close> (CLR_RT_HeapBlock_Stack.cpp). The elements lie at the end of the
  array, the top first; a full stack moves to an array of twice the capacity. Every operation is
  that of a list, and no operation leaves a reference behind in a slot the stack does not use.
\<close>

section \<open>The code\<close>

record heap_stack =
  s_array :: obj_array
  s_size :: int

datatype stack_op = Push objref | Pop | S_Peek | S_Clear

definition Stack_Pop :: "heap_stack \<Rightarrow> (op_reply \<times> heap_stack) c_result" where
  "Stack_Pop s =
     (if s_size s = 0 then Ret ((CLR_E_INVALID_OPERATION, None), s)
      else let i = m_numOfElements (s_array s) - s_size s in
        c_bind (load_element (s_array s) i) (\<lambda>v.
        c_bind (store_element (s_array s) i NULL) (\<lambda>a.
        Ret ((S_OK, Some v), s\<lparr>s_array := a, s_size := s32 (s_size s - 1)\<rparr>))))"

definition Stack_Push :: "clr_heap \<Rightarrow> objref \<Rightarrow> heap_stack \<Rightarrow> (op_reply \<times> heap_stack) c_result" where
  "Stack_Push h value s =
     (let size = s_size s; capacity = s32 (m_numOfElements (s_array s));
          put = (\<lambda>array capacity.
            let size = s32 (size + 1) in
            c_bind (store_element array (capacity - size) value) (\<lambda>a.
            Ret ((S_OK, None), s\<lparr>s_array := a, s_size := size\<rparr>)))
      in if size = capacity then
           let capacity = s32 (capacity * 2) in
           c_bind (CreateInstance h (word_of_int capacity)) (\<lambda>r. case r of
             Inl hr \<Rightarrow> Ret ((hr, None), s)
           | Inr newArray \<Rightarrow>
               c_bind (memcpy_elements newArray size (s_array s) 0 size) (\<lambda>newArray.
               put newArray capacity))
         else put (s_array s) capacity)"

definition Stack_Peek :: "heap_stack \<Rightarrow> (op_reply \<times> heap_stack) c_result" where
  "Stack_Peek s =
     (if s_size s = 0 then Ret ((CLR_E_INVALID_OPERATION, None), s)
      else c_bind (load_element (s_array s) (m_numOfElements (s_array s) - s_size s)) (\<lambda>v.
        Ret ((S_OK, Some v), s)))"

definition Stack_Clear :: "heap_stack \<Rightarrow> (op_reply \<times> heap_stack) c_result" where
  "Stack_Clear s =
     c_bind (ClearElements (s_array s) (m_numOfElements (s_array s) - s_size s) (s_size s)) (\<lambda>a.
     Ret ((S_OK, None), s\<lparr>s_array := a, s_size := 0\<rparr>))"

fun stack_step :: "clr_heap \<Rightarrow> stack_op \<Rightarrow> heap_stack \<Rightarrow> (op_reply \<times> heap_stack) c_result" where
  "stack_step h (Push v) s = Stack_Push h v s"
| "stack_step h Pop s = Stack_Pop s"
| "stack_step h S_Peek s = Stack_Peek s"
| "stack_step h S_Clear s = Stack_Clear s"

section \<open>What a stack promises\<close>

fun stack_reference :: "stack_op \<Rightarrow> objref list \<Rightarrow> op_reply \<times> objref list" where
  "stack_reference (Push v) xs = ((S_OK, None), v # xs)"
| "stack_reference Pop [] = ((CLR_E_INVALID_OPERATION, None), [])"
| "stack_reference Pop (x # xs) = ((S_OK, Some x), xs)"
| "stack_reference S_Peek [] = ((CLR_E_INVALID_OPERATION, None), [])"
| "stack_reference S_Peek (x # xs) = ((S_OK, Some x), x # xs)"
| "stack_reference S_Clear xs = ((S_OK, None), [])"

definition stack_free :: "heap_stack \<Rightarrow> nat" where
  "stack_free s = length (elements (s_array s)) - nat (s_size s)"

definition stack_list :: "heap_stack \<Rightarrow> objref list" where
  "stack_list s = drop (stack_free s) (elements (s_array s))"

definition wf_stack :: "heap_stack \<Rightarrow> bool" where
  "wf_stack s \<longleftrightarrow> wf_array (s_array s) \<and> 0 \<le> s_size s \<and>
     nat (s_size s) \<le> length (elements (s_array s)) \<and>
     take (stack_free s) (elements (s_array s)) = replicate (stack_free s) NULL"

text \<open>A stack over an array whose slots are \<open>f\<close> nulls and then the elements.\<close>

lemma wf_stack_iff:
  "wf_stack s \<and> stack_list s = xs \<longleftrightarrow>
     (\<exists>f. elements (s_array s) = replicate f NULL @ xs \<and> s_size s = int (length xs) \<and>
        0 < f + length xs \<and> f + length xs \<le> 0xFFFF)"
proof
  assume l: "wf_stack s \<and> stack_list s = xs"
  let ?n = "length (elements (s_array s))"
  have "length xs = nat (s_size s)" using l by (auto simp: wf_stack_def stack_list_def stack_free_def)
  moreover have "elements (s_array s) = replicate (stack_free s) NULL @ xs"
    using l by (metis append_take_drop_id stack_list_def wf_stack_def)
  ultimately show "\<exists>f. elements (s_array s) = replicate f NULL @ xs \<and> s_size s = int (length xs) \<and>
        0 < f + length xs \<and> f + length xs \<le> 0xFFFF"
    using l unfolding wf_stack_def wf_array_def
    by (intro exI [of _ "stack_free s"]) (auto simp: stack_free_def)
next
  assume "\<exists>f. elements (s_array s) = replicate f NULL @ xs \<and> s_size s = int (length xs) \<and>
        0 < f + length xs \<and> f + length xs \<le> 0xFFFF"
  then show "wf_stack s \<and> stack_list s = xs"
    by (auto simp: wf_stack_def wf_array_def stack_list_def stack_free_def)
qed

lemma stack_Pop:
  assumes "wf_stack s"
  shows "\<exists>r s'. Stack_Pop s = Ret (r, s') \<and> wf_stack s' \<and> (r, stack_list s') = stack_reference Pop (stack_list s)"
proof -
  obtain f where f: "elements (s_array s) = replicate f NULL @ stack_list s"
    "s_size s = int (length (stack_list s))" "0 < f + length (stack_list s)"
    "f + length (stack_list s) \<le> 0xFFFF"
    using assms wf_stack_iff [of s "stack_list s"] by auto
  show ?thesis
  proof (cases "stack_list s")
    case Nil
    then show ?thesis using assms f by (auto simp: Stack_Pop_def)
  next
    case (Cons x xs)
    let ?s = "s\<lparr>s_array := (s_array s)\<lparr>elements := replicate f NULL @ NULL # xs\<rparr>, s_size := int (length xs)\<rparr>"
    have i: "m_numOfElements (s_array s) - s_size s = int f"
      using f Cons by (simp add: m_numOfElements_def)
    have e: "elements (s_array s) = replicate f NULL @ x # xs" using f(1) Cons by simp
    have "Stack_Pop s = Ret ((S_OK, Some x), ?s)"
      unfolding Stack_Pop_def i Let_def using f Cons e
      by (simp add: load_element_nat store_element_nat nth_append list_update_append)
    moreover have "wf_stack ?s \<and> stack_list ?s = xs"
      using f Cons by (subst wf_stack_iff) (auto intro!: exI [of _ "Suc f"] simp: replicate_app_Cons_same)
    ultimately show ?thesis using Cons by auto
  qed
qed

lemma stack_Peek:
  assumes "wf_stack s"
  shows "\<exists>r. Stack_Peek s = Ret (r, s) \<and> (r, stack_list s) = stack_reference S_Peek (stack_list s)"
proof -
  obtain f where f: "elements (s_array s) = replicate f NULL @ stack_list s"
    "s_size s = int (length (stack_list s))" "f + length (stack_list s) \<le> 0xFFFF"
    using assms wf_stack_iff [of s "stack_list s"] by auto
  then have i: "m_numOfElements (s_array s) - s_size s = int f" by (simp add: m_numOfElements_def)
  show ?thesis
  proof (cases "stack_list s")
    case Nil
    then show ?thesis using f by (simp add: Stack_Peek_def)
  next
    case (Cons x xs)
    then show ?thesis using f i by (simp add: Stack_Peek_def load_element_nat nth_append)
  qed
qed

lemma stack_Clear:
  assumes "wf_stack s"
  shows "\<exists>s'. Stack_Clear s = Ret ((S_OK, None), s') \<and> wf_stack s' \<and> stack_list s' = []"
proof -
  obtain f where f: "elements (s_array s) = replicate f NULL @ stack_list s"
    "s_size s = int (length (stack_list s))" "0 < f + length (stack_list s)"
    "f + length (stack_list s) \<le> 0xFFFF"
    using assms wf_stack_iff [of s "stack_list s"] by auto
  let ?n = "length (stack_list s)"
  let ?s = "s\<lparr>s_array := (s_array s)\<lparr>elements := replicate (f + ?n) NULL\<rparr>, s_size := 0\<rparr>"
  have i: "m_numOfElements (s_array s) - s_size s = int f" using f by (simp add: m_numOfElements_def)
  have "overwrite (replicate f NULL @ stack_list s) f (replicate ?n NULL) = replicate (f + ?n) NULL"
    by (simp add: overwrite_def replicate_add)
  then have "Stack_Clear s = Ret ((S_OK, None), ?s)"
    unfolding Stack_Clear_def i using f by (simp add: ClearElements_nat)
  moreover have "wf_stack ?s \<and> stack_list ?s = []"
    using f by (subst wf_stack_iff) (auto intro!: exI [of _ "f + ?n"])
  ultimately show ?thesis by blast
qed

text \<open>The store of \<open>Push\<close>, in an array with a free slot.\<close>

lemma stack_put:
  assumes "elements a = replicate (Suc f) NULL @ xs" and "Suc f + length xs \<le> 0xFFFF"
  shows "store_element a (int (Suc f + length xs) - s32 (int (length xs) + 1)) v =
      Ret (a\<lparr>elements := replicate f NULL @ v # xs\<rparr>)"
proof -
  have i: "int (Suc f + length xs) - s32 (int (length xs) + 1) = int f" using assms(2) by simp
  have e: "elements a = replicate f NULL @ NULL # xs" using assms(1) by (simp add: replicate_app_Cons_same)
  show ?thesis unfolding i using assms(2) e
    by (subst store_element_nat) (simp_all add: list_update_append)
qed

lemma wf_stack_put:
  assumes "Suc f + length xs \<le> 0xFFFF"
  shows "wf_stack (s\<lparr>s_array := a\<lparr>elements := replicate f NULL @ v # xs\<rparr>, s_size := s32 (int (length xs) + 1)\<rparr>)"
    and "stack_list (s\<lparr>s_array := a\<lparr>elements := replicate f NULL @ v # xs\<rparr>, s_size := s32 (int (length xs) + 1)\<rparr>) =
      v # xs"
  using assms wf_stack_iff [of "s\<lparr>s_array := a\<lparr>elements := replicate f NULL @ v # xs\<rparr>,
    s_size := s32 (int (length xs) + 1)\<rparr>" "v # xs"] by auto

lemma stack_Push:
  assumes "wf_stack s"
  shows "\<exists>r s'. Stack_Push h v s = Ret (r, s') \<and> wf_stack s' \<and>
    ((r, stack_list s') = stack_reference (Push v) (stack_list s) \<or>
     r = (CLR_E_OUT_OF_MEMORY, None) \<and> stack_list s' = stack_list s)"
proof -
  define xs where "xs = stack_list s"
  obtain f where f: "elements (s_array s) = replicate f NULL @ xs" "s_size s = int (length xs)"
    "0 < f + length xs" "f + length xs \<le> 0xFFFF"
    using assms wf_stack_iff [of s xs] unfolding xs_def by auto
  have cap: "s32 (m_numOfElements (s_array s)) = int (f + length xs)"
    using f by (simp add: m_numOfElements_def)
  show ?thesis
  proof (cases f)
    case (Suc g)
    have "Stack_Push h v s = Ret ((S_OK, None), s\<lparr>s_array := (s_array s)\<lparr>elements := replicate g NULL @ v # xs\<rparr>,
        s_size := s32 (int (length xs) + 1)\<rparr>)"
      unfolding Stack_Push_def cap f(2) Let_def using f Suc stack_put [of "s_array s" g xs v] by simp
    then show ?thesis using wf_stack_put [of g xs v "s_array s" s] f(4) Suc by (auto simp: xs_def)
  next
    case 0
    let ?n = "length xs"
    have n: "0 < ?n" "?n \<le> 0xFFFF" using f 0 by simp_all
    have c2: "s32 (int ?n * 2) = int (?n * 2)" using n by simp
    have len: "safe_length (int (?n * 2))" "- (2 ^ 31) \<le> int (?n * 2)"
      using n by (simp_all add: safe_length_def)
    show ?thesis
    proof (cases rule: CreateInstance_cases [OF len, of h])
      case (1 hr)
      then have "Stack_Push h v s = Ret ((CLR_E_OUT_OF_MEMORY, None), s)"
        unfolding Stack_Push_def cap f(2) Let_def using 0 c2 by simp
      then show ?thesis using assms by auto
    next
      case 2
      let ?new = "\<lparr>m_typeOfElement = m_Object_dataType h, elements = replicate (2 * ?n) NULL\<rparr>"
      let ?new' = "?new\<lparr>elements := replicate ?n NULL @ xs\<rparr>"
      obtain g where g: "?n = Suc g" using n by (cases ?n) simp_all
      have "memcpy_elements ?new (int ?n) (s_array s) (int 0) (int ?n) = Ret ?new'"
        using f 0 n by (subst memcpy_elements_nat) (simp_all add: overwrite_def)
      then have cp: "memcpy_elements ?new (int ?n) (s_array s) 0 (int ?n) = Ret ?new'" by simp
      have put: "store_element ?new' (int (?n * 2) - s32 (int ?n + 1)) v =
          Ret (?new'\<lparr>elements := replicate g NULL @ v # xs\<rparr>)"
        using stack_put [of ?new' g xs v] g 2 by (simp add: mult_2_right)
      have "Stack_Push h v s = Ret ((S_OK, None),
          s\<lparr>s_array := ?new'\<lparr>elements := replicate g NULL @ v # xs\<rparr>, s_size := s32 (int ?n + 1)\<rparr>)"
        unfolding Stack_Push_def cap f(2) Let_def using 0 c2 2 cp put
        by (simp add: mult.commute nat_mult_distrib)
      then show ?thesis using wf_stack_put [of g xs v ?new' s] g 2 by (auto simp: xs_def)
    qed
  qed
qed

text \<open>The stack is a collection.\<close>

lemma stack_step_ok:
  assumes "wf_stack s"
  shows "\<exists>r s'. stack_step h op s = Ret (r, s') \<and> wf_stack s' \<and>
    ((r, stack_list s') = stack_reference op (stack_list s) \<or>
     r = (CLR_E_OUT_OF_MEMORY, None) \<and> stack_list s' = stack_list s)"
proof (cases op)
  case Push
  then show ?thesis using stack_Push [OF assms] by simp
next
  case Pop
  then show ?thesis using stack_Pop [OF assms] by auto
next
  case S_Peek
  then show ?thesis using stack_Peek [OF assms] assms by auto
next
  case S_Clear
  then show ?thesis using stack_Clear [OF assms] by auto
qed

interpretation stack: collection "stack_step h" stack_reference "(CLR_E_OUT_OF_MEMORY, None)"
    wf_stack stack_list "\<lambda>_ _. True"
  for h
  using stack_step_ok by unfold_locales blast

end
