(* ===== verification/NF_ArrayList.thy ===== *)
theory NF_ArrayList
  imports NF_ObjArray
begin

text \<open>
  \<open>System.Collections.ArrayList\<close> (CLR_RT_HeapBlock_ArrayList.cpp). The elements lie at the start of
  the array, the free slots behind them are null. Insertion and removal move the elements behind
  the position one by one; the loops are the functions \<open>shift_up\<close> and \<open>shift_down\<close>.
\<close>

section \<open>The code\<close>

record heap_arraylist =
  l_items :: obj_array
  l_size :: int

datatype list_op =
    GetItem int | SetItem int objref | Add objref | L_Clear | Insert int objref | RemoveAt int
  | SetCapacity int

type_synonym list_reply = "hresult \<times> objref option \<times> int option"

definition c_DefaultCapacity :: u32 where "c_DefaultCapacity = 4"

definition List_GetItem :: "int \<Rightarrow> heap_arraylist \<Rightarrow> (list_reply \<times> heap_arraylist) c_result" where
  "List_GetItem index s =
     (if index < 0 \<or> index \<ge> l_size s then Ret ((CLR_E_OUT_OF_RANGE, None, None), s)
      else c_bind (load_element (l_items s) index) (\<lambda>v. Ret ((S_OK, Some v, None), s)))"

definition List_SetItem :: "int \<Rightarrow> objref \<Rightarrow> heap_arraylist \<Rightarrow> (list_reply \<times> heap_arraylist) c_result" where
  "List_SetItem index value s =
     (if index < 0 \<or> index \<ge> l_size s then Ret ((CLR_E_OUT_OF_RANGE, None, None), s)
      else c_bind (store_element (l_items s) index value) (\<lambda>a.
        Ret ((S_OK, None, None), s\<lparr>l_items := a\<rparr>)))"

definition List_SetCapacity :: "clr_heap \<Rightarrow> u32 \<Rightarrow> heap_arraylist \<Rightarrow> (hresult \<times> heap_arraylist) c_result" where
  "List_SetCapacity h newCapacity s =
     (let size = word_of_int (l_size s) :: u32 in
      if uint newCapacity \<noteq> m_numOfElements (l_items s) then
        if newCapacity < size then Ret (CLR_E_OUT_OF_RANGE, s)
        else
          let newCapacity = (if newCapacity < c_DefaultCapacity then c_DefaultCapacity else newCapacity) in
          c_bind (CreateInstance h newCapacity) (\<lambda>r. case r of
            Inl hr \<Rightarrow> Ret (hr, s)
          | Inr newItems \<Rightarrow>
              c_bind (if size > 0 then memcpy_elements newItems 0 (l_items s) 0 (uint size) else Ret newItems)
                (\<lambda>newItems. Ret (S_OK, s\<lparr>l_items := newItems\<rparr>)))
      else Ret (S_OK, s))"

definition List_EnsureCapacity ::
    "clr_heap \<Rightarrow> int \<Rightarrow> int \<Rightarrow> heap_arraylist \<Rightarrow> (hresult \<times> heap_arraylist) c_result" where
  "List_EnsureCapacity h min' currentCapacity s =
     (if currentCapacity < min' then
        let newCapacity = s32 (currentCapacity * 3) sdiv 2;
            newCapacity = (if newCapacity < min' then min' else newCapacity)
        in List_SetCapacity h (word_of_int newCapacity) s
      else Ret (S_OK, s))"

text \<open>Room for one more element, then the rest of the operation.\<close>

definition List_grow ::
    "clr_heap \<Rightarrow> heap_arraylist \<Rightarrow> (heap_arraylist \<Rightarrow> (list_reply \<times> heap_arraylist) c_result) \<Rightarrow>
     (list_reply \<times> heap_arraylist) c_result" where
  "List_grow h s k =
     (let size = l_size s; capacity = s32 (m_numOfElements (l_items s)) in
      if size = capacity then
        c_bind (List_EnsureCapacity h (s32 (size + 1)) capacity s) (\<lambda>(hr, s').
          if hr \<noteq> S_OK then Ret ((hr, None, None), s') else k s')
      else k s)"

definition List_Add :: "clr_heap \<Rightarrow> objref \<Rightarrow> heap_arraylist \<Rightarrow> (list_reply \<times> heap_arraylist) c_result" where
  "List_Add h value s =
     List_grow h s (\<lambda>s'.
       c_bind (store_element (l_items s') (l_size s) value) (\<lambda>a.
       Ret ((S_OK, None, Some (l_size s)), s'\<lparr>l_items := a, l_size := s32 (l_size s + 1)\<rparr>)))"

definition List_Clear :: "heap_arraylist \<Rightarrow> (list_reply \<times> heap_arraylist) c_result" where
  "List_Clear s =
     c_bind (ClearElements (l_items s) 0 (l_size s)) (\<lambda>a.
     Ret ((S_OK, None, None), s\<lparr>l_items := a, l_size := 0\<rparr>))"

text \<open>Everything up one slot: from \<open>current\<close> down until it reaches \<open>end\<close>.\<close>

fun shift_up :: "objref list \<Rightarrow> nat \<Rightarrow> nat \<Rightarrow> objref list c_result" where
  "shift_up xs 0 last' = Fault BadIndex"
| "shift_up xs (Suc i) last' =
     (if Suc i < length xs then
        let xs' = xs[Suc i := xs ! i] in
        if i = last' then Ret xs' else shift_up xs' i last'
      else Fault BadIndex)"

text \<open>Everything down one slot: from \<open>current\<close> up until it reaches \<open>end\<close>.\<close>

function shift_down :: "objref list \<Rightarrow> nat \<Rightarrow> nat \<Rightarrow> objref list c_result" where
  "shift_down xs i last' =
     (if Suc i < length xs then
        let xs' = xs[i := xs ! Suc i] in
        if Suc i = last' then Ret xs' else shift_down xs' (Suc i) last'
      else Fault BadIndex)"
  by pat_completeness auto
termination
  by (relation "measure (\<lambda>(xs, i, _). length xs - i)") auto

declare shift_down.simps [simp del]

definition List_Insert ::
    "clr_heap \<Rightarrow> int \<Rightarrow> objref \<Rightarrow> heap_arraylist \<Rightarrow> (list_reply \<times> heap_arraylist) c_result" where
  "List_Insert h index value s =
     (let size = l_size s in
      if index < 0 \<or> index > size then Ret ((CLR_E_OUT_OF_RANGE, None, None), s)
      else List_grow h s (\<lambda>s'.
        c_bind (if index < size
            then shift_up (elements (l_items s')) (elem_index size) (elem_index index)
            else Ret (elements (l_items s'))) (\<lambda>xs.
        c_bind (store_element ((l_items s')\<lparr>elements := xs\<rparr>) index value) (\<lambda>a.
        Ret ((S_OK, None, None), s'\<lparr>l_items := a, l_size := s32 (size + 1)\<rparr>)))))"

definition List_RemoveAt :: "int \<Rightarrow> heap_arraylist \<Rightarrow> (list_reply \<times> heap_arraylist) c_result" where
  "List_RemoveAt index s =
     (let size = l_size s in
      if index < 0 \<or> index \<ge> size then Ret ((CLR_E_OUT_OF_RANGE, None, None), s)
      else
        c_bind (if index < size - 1
            then shift_down (elements (l_items s)) (elem_index index) (elem_index (size - 1))
            else Ret (elements (l_items s))) (\<lambda>xs.
        let size = s32 (size - 1) in
        c_bind (store_element ((l_items s)\<lparr>elements := xs\<rparr>) size NULL) (\<lambda>a.
        Ret ((S_OK, None, None), s\<lparr>l_items := a, l_size := size\<rparr>))))"

fun list_step :: "clr_heap \<Rightarrow> list_op \<Rightarrow> heap_arraylist \<Rightarrow> (list_reply \<times> heap_arraylist) c_result" where
  "list_step h (GetItem i) s = List_GetItem i s"
| "list_step h (SetItem i v) s = List_SetItem i v s"
| "list_step h (Add v) s = List_Add h v s"
| "list_step h L_Clear s = List_Clear s"
| "list_step h (Insert i v) s = List_Insert h i v s"
| "list_step h (RemoveAt i) s = List_RemoveAt i s"
| "list_step h (SetCapacity n) s =
     c_bind (List_SetCapacity h (word_of_int n) s) (\<lambda>(hr, s'). Ret ((hr, None, None), s'))"

section \<open>What a list promises\<close>

fun list_reference :: "list_op \<Rightarrow> objref list \<Rightarrow> list_reply \<times> objref list" where
  "list_reference (GetItem i) xs =
     (if i < 0 \<or> i \<ge> int (length xs) then ((CLR_E_OUT_OF_RANGE, None, None), xs)
      else ((S_OK, Some (xs ! nat i), None), xs))"
| "list_reference (SetItem i v) xs =
     (if i < 0 \<or> i \<ge> int (length xs) then ((CLR_E_OUT_OF_RANGE, None, None), xs)
      else ((S_OK, None, None), xs[nat i := v]))"
| "list_reference (Add v) xs = ((S_OK, None, Some (int (length xs))), xs @ [v])"
| "list_reference L_Clear xs = ((S_OK, None, None), [])"
| "list_reference (Insert i v) xs =
     (if i < 0 \<or> i > int (length xs) then ((CLR_E_OUT_OF_RANGE, None, None), xs)
      else ((S_OK, None, None), take (nat i) xs @ v # drop (nat i) xs))"
| "list_reference (RemoveAt i) xs =
     (if i < 0 \<or> i \<ge> int (length xs) then ((CLR_E_OUT_OF_RANGE, None, None), xs)
      else ((S_OK, None, None), take (nat i) xs @ drop (Suc (nat i)) xs))"
| "list_reference (SetCapacity n) xs =
     (if n < int (length xs) then ((CLR_E_OUT_OF_RANGE, None, None), xs)
      else ((S_OK, None, None), xs))"

definition list_contents :: "heap_arraylist \<Rightarrow> objref list" where
  "list_contents s = take (nat (l_size s)) (elements (l_items s))"

definition wf_list :: "heap_arraylist \<Rightarrow> bool" where
  "wf_list s \<longleftrightarrow> wf_array (l_items s) \<and> 0 \<le> l_size s \<and>
     nat (l_size s) \<le> length (elements (l_items s)) \<and>
     drop (nat (l_size s)) (elements (l_items s)) =
       replicate (length (elements (l_items s)) - nat (l_size s)) NULL"

lemma wf_list_iff:
  "wf_list s \<and> list_contents s = xs \<longleftrightarrow>
     (\<exists>f. elements (l_items s) = xs @ replicate f NULL \<and> l_size s = int (length xs) \<and>
        0 < length xs + f \<and> length xs + f \<le> 0xFFFF)"
proof
  assume l: "wf_list s \<and> list_contents s = xs"
  let ?n = "length (elements (l_items s))"
  have "length xs = nat (l_size s)" using l by (auto simp: wf_list_def list_contents_def)
  moreover have "elements (l_items s) = xs @ replicate (?n - nat (l_size s)) NULL"
    using l by (metis append_take_drop_id list_contents_def wf_list_def)
  ultimately show "\<exists>f. elements (l_items s) = xs @ replicate f NULL \<and> l_size s = int (length xs) \<and>
        0 < length xs + f \<and> length xs + f \<le> 0xFFFF"
    using l unfolding wf_list_def wf_array_def
    by (intro exI [of _ "?n - nat (l_size s)"]) auto
next
  assume "\<exists>f. elements (l_items s) = xs @ replicate f NULL \<and> l_size s = int (length xs) \<and>
        0 < length xs + f \<and> length xs + f \<le> 0xFFFF"
  then show "wf_list s \<and> list_contents s = xs"
    by (auto simp: wf_list_def wf_array_def list_contents_def)
qed

lemma wf_listE:
  assumes "wf_list s"
  obtains f where "elements (l_items s) = list_contents s @ replicate f NULL"
    "l_size s = int (length (list_contents s))" "0 < length (list_contents s) + f"
    "length (list_contents s) + f \<le> 0xFFFF"
  using assms wf_list_iff [of s "list_contents s"] by auto

section \<open>The loops\<close>

lemma shift_up_list:
  "zs \<noteq> [] \<Longrightarrow> shift_up (ys @ zs @ w # rest) (length ys + length zs) (length ys) =
     Ret (ys @ hd zs # zs @ rest)"
proof (induction zs arbitrary: w rest rule: rev_induct)
  case (snoc z zs)
  have e: "(ys @ (zs @ [z]) @ w # rest)[Suc (length ys + length zs) := z] = ys @ zs @ z # z # rest"
    by (simp add: list_update_append)
  have n: "(ys @ (zs @ [z]) @ w # rest) ! (length ys + length zs) = z"
    by (simp add: nth_append)
  show ?case
  proof (cases "zs = []")
    case True
    then show ?thesis using e n by (simp add: list_update_append nth_append)
  next
    case False
    then have "length ys + length zs \<noteq> length ys" by simp
    then show ?thesis using snoc.IH [OF False, of z "z # rest"] e n False by simp
  qed
qed simp

lemma shift_down_list:
  "zs \<noteq> [] \<Longrightarrow> shift_down (ys @ y # zs @ rest) (length ys) (length ys + length zs) =
     Ret (ys @ zs @ last zs # rest)"
proof (induction zs arbitrary: ys y)
  case (Cons z zs)
  have "Suc (length ys) < length (ys @ y # (z # zs) @ rest)" by simp
  moreover have "(ys @ y # (z # zs) @ rest)[length ys := z] = (ys @ [z]) @ z # zs @ rest" by simp
  moreover have "(ys @ y # (z # zs) @ rest) ! Suc (length ys) = z" by (simp add: nth_append)
  ultimately have "shift_down (ys @ y # (z # zs) @ rest) (length ys) (length ys + length (z # zs)) =
      (if Suc (length ys) = length ys + length (z # zs) then Ret ((ys @ [z]) @ z # zs @ rest)
       else shift_down ((ys @ [z]) @ z # zs @ rest) (Suc (length ys)) (length ys + length (z # zs)))"
    by (subst shift_down.simps) (simp only: Let_def if_True)
  then show ?case using Cons.IH [of "ys @ [z]" z] by (cases "zs = []") auto
qed simp

section \<open>Every operation is that of a list\<close>

definition list_ok :: "list_op \<Rightarrow> heap_arraylist \<Rightarrow> (list_reply \<times> heap_arraylist) c_result \<Rightarrow> bool" where
  "list_ok op s res \<longleftrightarrow> (\<exists>r s'. res = Ret (r, s') \<and> wf_list s' \<and>
     ((r, list_contents s') = list_reference op (list_contents s) \<or>
      r = (CLR_E_OUT_OF_MEMORY, None, None) \<and> list_contents s' = list_contents s))"

lemma list_okI:
  assumes "res = Ret (r, s')" and "elements (l_items s') = ys @ replicate f NULL"
    and "l_size s' = int (length ys)" and "0 < length ys + f" and "length ys + f \<le> 0xFFFF"
    and "list_reference op (list_contents s) = (r, ys)"
  shows "list_ok op s res"
proof -
  have "wf_list s' \<and> list_contents s' = ys" by (subst wf_list_iff) (use assms in blast)
  then show ?thesis unfolding list_ok_def using assms by auto
qed

lemma list_ok_unchanged:
  assumes "res = Ret (r, s)" and "wf_list s"
    and "list_reference op (list_contents s) = (r, list_contents s) \<or> r = (CLR_E_OUT_OF_MEMORY, None, None)"
  shows "list_ok op s res"
  unfolding list_ok_def using assms by auto

lemma not_out_of_range:
  assumes "\<not> (i < 0 \<or> i \<ge> int n)" obtains k where "i = int k" "k < n"
  using assms by (metis linorder_not_le of_nat_less_iff zero_le_imp_eq_int)

lemma list_GetItem: "wf_list s \<Longrightarrow> list_ok (GetItem i) s (List_GetItem i s)"
proof -
  assume wf: "wf_list s"
  obtain f where f: "elements (l_items s) = list_contents s @ replicate f NULL"
    "l_size s = int (length (list_contents s))" "length (list_contents s) + f \<le> 0xFFFF"
    using wf by (rule wf_listE)
  show ?thesis
  proof (cases "i < 0 \<or> i \<ge> int (length (list_contents s))")
    case True
    then show ?thesis using wf f(2) by (intro list_ok_unchanged) (auto simp: List_GetItem_def)
  next
    case False
    then obtain k where k: "i = int k" "k < length (list_contents s)" by (rule not_out_of_range)
    then have "List_GetItem i s = Ret ((S_OK, Some (list_contents s ! k), None), s)"
      using f by (simp add: List_GetItem_def load_element_nat nth_append)
    then show ?thesis by (rule list_ok_unchanged) (use wf k in auto)
  qed
qed

lemma list_SetItem: "wf_list s \<Longrightarrow> list_ok (SetItem i v) s (List_SetItem i v s)"
proof -
  assume wf: "wf_list s"
  obtain f where f: "elements (l_items s) = list_contents s @ replicate f NULL"
    "l_size s = int (length (list_contents s))" "0 < length (list_contents s) + f"
    "length (list_contents s) + f \<le> 0xFFFF"
    using wf by (rule wf_listE)
  show ?thesis
  proof (cases "i < 0 \<or> i \<ge> int (length (list_contents s))")
    case True
    then show ?thesis using wf f(2) by (intro list_ok_unchanged) (auto simp: List_SetItem_def)
  next
    case False
    then obtain k where k: "i = int k" "k < length (list_contents s)" by (rule not_out_of_range)
    let ?ys = "(list_contents s)[k := v]"
    have "List_SetItem i v s = Ret ((S_OK, None, None),
        s\<lparr>l_items := (l_items s)\<lparr>elements := ?ys @ replicate f NULL\<rparr>\<rparr>)"
      using f k by (simp add: List_SetItem_def store_element_nat list_update_append)
    then show ?thesis by (rule list_okI) (use f k in simp_all)
  qed
qed

lemma list_Clear: "wf_list s \<Longrightarrow> list_ok L_Clear s (List_Clear s)"
proof -
  assume wf: "wf_list s"
  obtain f where f: "elements (l_items s) = list_contents s @ replicate f NULL"
    "l_size s = int (length (list_contents s))" "0 < length (list_contents s) + f"
    "length (list_contents s) + f \<le> 0xFFFF"
    using wf by (rule wf_listE)
  let ?n = "length (list_contents s)"
  have "ClearElements (l_items s) (int 0) (int ?n) =
      Ret ((l_items s)\<lparr>elements := replicate (?n + f) NULL\<rparr>)"
    using f by (subst ClearElements_nat) (simp_all add: overwrite_def replicate_add)
  then have "List_Clear s = Ret ((S_OK, None, None),
      s\<lparr>l_items := (l_items s)\<lparr>elements := [] @ replicate (?n + f) NULL\<rparr>, l_size := 0\<rparr>)"
    by (simp add: List_Clear_def f(2))
  then show ?thesis by (rule list_okI) (use f in simp_all)
qed

lemma list_RemoveAt: "wf_list s \<Longrightarrow> list_ok (RemoveAt i) s (List_RemoveAt i s)"
proof -
  assume wf: "wf_list s"
  define xs where "xs = list_contents s"
  obtain f where f: "elements (l_items s) = xs @ replicate f NULL"
    "l_size s = int (length xs)" "0 < length xs + f" "length xs + f \<le> 0xFFFF"
    using wf unfolding xs_def by (rule wf_listE)
  show ?thesis
  proof (cases "i < 0 \<or> i \<ge> int (length xs)")
    case True
    then show ?thesis using wf f(2)
      by (intro list_ok_unchanged) (auto simp: List_RemoveAt_def xs_def)
  next
    case False
    then obtain k where k: "i = int k" "k < length xs" by (rule not_out_of_range)
    obtain ys z zs where xs: "xs = ys @ z # zs" and lys: "length ys = k"
      using k id_take_nth_drop [OF k(2)] by (metis length_take less_imp_le min.absorb2)
    have n: "length xs - 1 = k + length zs" using xs lys by simp
    have step: "(if i < int (length xs) - 1 then shift_down (elements (l_items s)) (elem_index i)
          (elem_index (int (length xs) - 1)) else Ret (elements (l_items s))) =
        Ret (ys @ zs @ last (z # zs) # replicate f NULL)"
    proof (cases "zs = []")
      case True
      then show ?thesis using f(1) xs lys k(1) by simp
    next
      case False
      have e: "elem_index i = length ys" "elem_index (int (length xs) - 1) = length ys + length zs"
        using f(4) xs lys k by simp_all
      have "i < int (length xs) - 1" using False xs lys k(1) by simp
      moreover have "shift_down (elements (l_items s)) (length ys) (length ys + length zs) =
          Ret (ys @ zs @ last zs # replicate f NULL)"
        using shift_down_list [OF False, of ys z "replicate f NULL"] f(1) xs by simp
      ultimately show ?thesis using False unfolding e by simp
    qed
    have st: "store_element ((l_items s)\<lparr>elements := ys @ zs @ last (z # zs) # replicate f NULL\<rparr>)
          (int (length ys + length zs)) NULL =
        Ret ((l_items s)\<lparr>elements := (ys @ zs) @ replicate (Suc f) NULL\<rparr>)"
      using f(4) xs by (subst store_element_nat) (simp_all add: list_update_append)
    have sz: "s32 (int (length xs) - 1) = int (length ys + length zs)" using f(4) xs by simp
    have "List_RemoveAt i s = Ret ((S_OK, None, None),
        s\<lparr>l_items := (l_items s)\<lparr>elements := (ys @ zs) @ replicate (Suc f) NULL\<rparr>,
          l_size := int (length (ys @ zs))\<rparr>)"
      unfolding List_RemoveAt_def Let_def f(2) step sz using False st by simp
    then show ?thesis
      by (rule list_okI [where f = "Suc f"]) (use f xs lys k in \<open>simp_all flip: xs_def\<close>)
  qed
qed

subsection \<open>Growing\<close>

definition capacity_code :: "int \<Rightarrow> objref list \<Rightarrow> hresult" where
  "capacity_code n xs = (if n < int (length xs) then CLR_E_OUT_OF_RANGE else S_OK)"

lemma uint_word_of_int_u32: "- (2 ^ 31) \<le> n \<Longrightarrow> n < 2 ^ 31 \<Longrightarrow>
    uint (word_of_int n :: u32) = (if n < 0 then 2 ^ 32 + n else n)"
proof -
  assume n: "- (2 ^ 31) \<le> n" "n < 2 ^ 31"
  show ?thesis
  proof (cases "n < 0")
    case True
    have "n mod 4294967296 = (4294967296 + n) mod 4294967296" by simp
    also have "\<dots> = 4294967296 + n" using n True by (intro mod_pos_pos_trivial) simp_all
    finally show ?thesis using True by (simp add: uint_word_of_int)
  next
    case False
    then have "n mod 4294967296 = n" using n by (intro mod_pos_pos_trivial) simp_all
    then show ?thesis using False by (simp add: uint_word_of_int)
  qed
qed

lemma set_capacity_copies:
  assumes f: "elements (l_items s) = xs @ replicate f NULL" "l_size s = int (length xs)"
      "length xs + f \<le> 0xFFFF"
    and m: "length xs \<le> m" "0 < m" "m \<le> 0xFFFF"
    and new: "CreateInstance h (word_of_int (int m)) = Ret (Inr \<lparr>m_typeOfElement = t, elements = replicate m NULL\<rparr>)"
  shows "c_bind (CreateInstance h (word_of_int (int m))) (\<lambda>r. case r of
            Inl hr \<Rightarrow> Ret (hr, s)
          | Inr newItems \<Rightarrow>
              c_bind (if 0 < (word_of_int (l_size s) :: u32)
                  then memcpy_elements newItems 0 (l_items s) 0 (uint (word_of_int (l_size s) :: u32)) else Ret newItems)
                (\<lambda>newItems. Ret (S_OK, s\<lparr>l_items := newItems\<rparr>))) =
      Ret (S_OK, s\<lparr>l_items := \<lparr>m_typeOfElement = t, elements = xs @ replicate (m - length xs) NULL\<rparr>\<rparr>)"
proof -
  let ?new = "\<lparr>m_typeOfElement = t, elements = replicate m NULL\<rparr>"
  have u: "uint (word_of_int (l_size s) :: u32) = int (length xs)"
    unfolding f(2) by (subst uint_word_of_int_u32) (use f in simp_all)
  have pos: "0 < (word_of_int (l_size s) :: u32) \<longleftrightarrow> xs \<noteq> []"
    unfolding word_less_def u by simp
  have "memcpy_elements ?new (int 0) (l_items s) (int 0) (int (length xs)) =
      Ret (?new\<lparr>elements := xs @ replicate (m - length xs) NULL\<rparr>)"
    using f m by (subst memcpy_elements_nat) (simp_all add: overwrite_def)
  then show ?thesis unfolding new pos u by simp
qed

lemma list_SetCapacity:
  assumes wf: "wf_list s" and n: "safe_length n" "- (2 ^ 31) \<le> n"
  shows "\<exists>hr s'. List_SetCapacity h (word_of_int n) s = Ret (hr, s') \<and> wf_list s' \<and>
    list_contents s' = list_contents s \<and> hr \<in> {capacity_code n (list_contents s), CLR_E_OUT_OF_MEMORY} \<and>
    (hr = S_OK \<longrightarrow> n \<le> m_numOfElements (l_items s')) \<and> (hr \<noteq> S_OK \<longrightarrow> s' = s)"
proof -
  define xs where "xs = list_contents s"
  obtain f where f: "elements (l_items s) = xs @ replicate f NULL"
    "l_size s = int (length xs)" "0 < length xs + f" "length xs + f \<le> 0xFFFF"
    using wf unfolding xs_def by (rule wf_listE)
  have cap: "m_numOfElements (l_items s) = int (length xs + f)" using f by (simp add: m_numOfElements_def)
  have un: "uint (word_of_int n :: u32) = (if n < 0 then 2 ^ 32 + n else n)"
    using n by (intro uint_word_of_int_u32) (simp_all add: safe_length_def)
  have us: "uint (word_of_int (l_size s) :: u32) = int (length xs)"
    unfolding f(2) by (subst uint_word_of_int_u32) (use f in simp_all)
  have u4: "uint c_DefaultCapacity = 4" by (simp add: c_DefaultCapacity_def)
  show ?thesis
  proof (cases "n < 0")
    case True
    have "CreateInstance h (word_of_int n) = Ret (Inl CLR_E_OUT_OF_RANGE)"
      using True by (cases rule: CreateInstance_cases [OF n, of h]) auto
    then have "List_SetCapacity h (word_of_int n) s = Ret (CLR_E_OUT_OF_RANGE, s)"
      using True n(2) f(4)
      by (simp add: List_SetCapacity_def Let_def un us u4 cap word_less_def)
    then show ?thesis using wf True by (auto simp: capacity_code_def)
  next
    case False
    then obtain k where k: "n = int k" by (metis not_less zero_le_imp_eq_int)
    consider "k = length xs + f" | "k \<noteq> length xs + f" "k < length xs"
      | "k \<noteq> length xs + f" "length xs \<le> k" by linarith
    then show ?thesis
    proof cases
      case 1
      then have "List_SetCapacity h (word_of_int n) s = Ret (S_OK, s)"
        using k un cap by (simp add: List_SetCapacity_def)
      then show ?thesis using wf 1 k cap by (auto simp: capacity_code_def xs_def)
    next
      case 2
      then have "List_SetCapacity h (word_of_int n) s = Ret (CLR_E_OUT_OF_RANGE, s)"
        using k un cap us by (simp add: List_SetCapacity_def word_less_def)
      then show ?thesis using wf 2 k by (auto simp: capacity_code_def xs_def)
    next
      case 3
      define m where "m = max 4 k"
      have m: "(if (word_of_int n :: u32) < c_DefaultCapacity then c_DefaultCapacity else word_of_int n) =
          word_of_int (int m)"
        using k un u4 by (auto simp: m_def word_less_def max_def c_DefaultCapacity_def)
      have m': "safe_length (int m)" "- (2 ^ 31) \<le> int m"
        using n(1) k by (auto simp: m_def safe_length_def)
      have unfold: "List_SetCapacity h (word_of_int n) s = c_bind (CreateInstance h (word_of_int (int m))) (\<lambda>r. case r of
            Inl hr \<Rightarrow> Ret (hr, s)
          | Inr newItems \<Rightarrow>
              c_bind (if 0 < (word_of_int (l_size s) :: u32)
                  then memcpy_elements newItems 0 (l_items s) 0 (uint (word_of_int (l_size s) :: u32)) else Ret newItems)
                (\<lambda>newItems. Ret (S_OK, s\<lparr>l_items := newItems\<rparr>)))"
      proof -
        have "uint (word_of_int n :: u32) \<noteq> m_numOfElements (l_items s)"
          "\<not> word_of_int n < (word_of_int (l_size s) :: u32)"
          using 3 k un cap us by (simp_all add: word_less_def)
        then show ?thesis unfolding List_SetCapacity_def Let_def m by (simp only: if_False if_True not_False_eq_True)
      qed
      show ?thesis
      proof (cases rule: CreateInstance_cases [OF m', of h])
        case (1 hr)
        then have "List_SetCapacity h (word_of_int n) s = Ret (CLR_E_OUT_OF_MEMORY, s)"
          unfolding unfold by simp
        then show ?thesis using wf by auto
      next
        case 2
        let ?s = "s\<lparr>l_items := \<lparr>m_typeOfElement = m_Object_dataType h,
            elements = xs @ replicate (m - length xs) NULL\<rparr>\<rparr>"
        have lm: "length xs \<le> m" "0 < m" "m \<le> 0xFFFF" using 3 2 by (auto simp: m_def)
        have "List_SetCapacity h (word_of_int n) s = Ret (S_OK, ?s)"
          unfolding unfold by (rule set_capacity_copies [OF f(1,2,4) lm]) (use 2 in simp)
        moreover have "wf_list ?s \<and> list_contents ?s = xs"
          using lm f(2) by (subst wf_list_iff) (auto intro!: exI [of _ "m - length xs"])
        ultimately show ?thesis using 3 k lm
          by (auto simp: capacity_code_def xs_def m_numOfElements_def m_def)
      qed
    qed
  qed
qed

lemma list_grow:
  assumes wf: "wf_list s"
  shows "List_grow h s k = Ret ((CLR_E_OUT_OF_MEMORY, None, None), s) \<or>
    (\<exists>s' f. List_grow h s k = k s' \<and> elements (l_items s') = list_contents s @ replicate (Suc f) NULL \<and>
       l_size s' = l_size s \<and> length (list_contents s) + Suc f \<le> 0xFFFF)"
proof -
  define xs where "xs = list_contents s"
  obtain f where f: "elements (l_items s) = xs @ replicate f NULL"
    "l_size s = int (length xs)" "0 < length xs + f" "length xs + f \<le> 0xFFFF"
    using wf unfolding xs_def by (rule wf_listE)
  have cap: "s32 (m_numOfElements (l_items s)) = int (length xs + f)"
    using f by (simp add: m_numOfElements_def)
  show ?thesis
  proof (cases f)
    case (Suc g)
    then have "List_grow h s k = k s" using f cap by (simp add: List_grow_def)
    then show ?thesis using f Suc unfolding xs_def by blast
  next
    case 0
    define n where "n = (let c = int (length xs) * 3 div 2 in if c < int (length xs) + 1 then int (length xs) + 1 else c)"
    have "s32 (int (length xs) * 3) sdiv 2 = int (length xs) * 3 div 2"
      using f 0 by (simp add: signed_divide_int_def sgn_if)
    then have ens: "List_EnsureCapacity h (s32 (int (length xs) + 1)) (int (length xs)) s =
        List_SetCapacity h (word_of_int n) s"
      using f 0 by (simp add: List_EnsureCapacity_def Let_def n_def)
    have n: "safe_length n" "- (2 ^ 31) \<le> n" "int (length xs) < n"
      using f 0 by (auto simp: n_def safe_length_def Let_def)
    obtain hr s' where s': "List_SetCapacity h (word_of_int n) s = Ret (hr, s')" "wf_list s'"
      "list_contents s' = xs" "hr \<in> {capacity_code n xs, CLR_E_OUT_OF_MEMORY}"
      "hr = S_OK \<longrightarrow> n \<le> m_numOfElements (l_items s')" "hr \<noteq> S_OK \<longrightarrow> s' = s"
      using list_SetCapacity [OF wf n(1,2), of h] unfolding xs_def by blast
    have gr: "List_grow h s k = (if hr \<noteq> S_OK then Ret ((hr, None, None), s') else k s')"
      using f 0 cap ens s'(1) by (simp add: List_grow_def)
    have hr: "hr = S_OK \<or> hr = CLR_E_OUT_OF_MEMORY" using s'(4) n(3) by (auto simp: capacity_code_def)
    show ?thesis
    proof (cases "hr = S_OK")
      case True
      obtain e where e: "elements (l_items s') = xs @ replicate e NULL" "l_size s' = int (length xs)"
        "length xs + e \<le> 0xFFFF" using s'(2,3) by (metis wf_listE)
      have "0 < e" using True s'(5) n(3) e(1) by (simp add: m_numOfElements_def)
      then obtain g where "e = Suc g" by (cases e) simp_all
      then show ?thesis using gr True e f(2) unfolding xs_def by (metis (no_types))
    next
      case False
      then show ?thesis using gr hr s'(6) by simp
    qed
  qed
qed

lemma list_Add: "wf_list s \<Longrightarrow> list_ok (Add v) s (List_Add h v s)"
proof -
  assume wf: "wf_list s"
  define xs where "xs = list_contents s"
  have sz: "l_size s = int (length xs)" using wf unfolding xs_def by (rule wf_listE)
  let ?k = "\<lambda>s'. c_bind (store_element (l_items s') (l_size s) v) (\<lambda>a.
       Ret ((S_OK, None, Some (l_size s)), s'\<lparr>l_items := a, l_size := s32 (l_size s + 1)\<rparr>))"
  from list_grow [OF wf, of h ?k] show ?thesis
  proof (elim disjE exE conjE)
    assume "List_grow h s ?k = Ret ((CLR_E_OUT_OF_MEMORY, None, None), s)"
    then have "List_Add h v s = Ret ((CLR_E_OUT_OF_MEMORY, None, None), s)" unfolding List_Add_def .
    then show ?thesis by (rule list_ok_unchanged) (use wf in simp_all)
  next
    fix s' f assume g: "List_grow h s ?k = ?k s'" "l_size s' = l_size s"
      and e: "elements (l_items s') = list_contents s @ replicate (Suc f) NULL"
      and l: "length (list_contents s) + Suc f \<le> 0xFFFF"
    have "store_element (l_items s') (int (length xs)) v =
        Ret ((l_items s')\<lparr>elements := (xs @ [v]) @ replicate f NULL\<rparr>)"
      using e l by (subst store_element_nat) (simp_all add: xs_def list_update_append)
    then have "List_Add h v s = Ret ((S_OK, None, Some (int (length xs))),
        s'\<lparr>l_items := (l_items s')\<lparr>elements := (xs @ [v]) @ replicate f NULL\<rparr>,
           l_size := int (length (xs @ [v]))\<rparr>)"
      unfolding List_Add_def g using sz l by (simp add: xs_def)
    then show ?thesis by (rule list_okI [where f = f]) (use l in \<open>simp_all add: xs_def\<close>)
  qed
qed

lemma list_Insert: "wf_list s \<Longrightarrow> list_ok (Insert i v) s (List_Insert h i v s)"
proof -
  assume wf: "wf_list s"
  define xs where "xs = list_contents s"
  have sz: "l_size s = int (length xs)" using wf unfolding xs_def by (rule wf_listE)
  show ?thesis
  proof (cases "i < 0 \<or> i > int (length xs)")
    case True
    then have "List_Insert h i v s = Ret ((CLR_E_OUT_OF_RANGE, None, None), s)"
      by (simp add: List_Insert_def sz)
    then show ?thesis by (rule list_ok_unchanged) (use wf True in \<open>auto simp: xs_def\<close>)
  next
    case False
    then obtain k where k: "i = int k" "k \<le> length xs"
      by (metis linorder_not_le of_nat_le_iff zero_le_imp_eq_int)
    define ys zs where "ys = take k xs" and "zs = drop k xs"
    have ref: "list_reference (Insert i v) (list_contents s) = ((S_OK, None, None), ys @ v # zs)"
      unfolding ys_def zs_def xs_def [symmetric] using False k(1) by simp
    have xs: "xs = ys @ zs" "length ys = k" using k by (simp_all add: ys_def zs_def)
    let ?k = "\<lambda>s'. c_bind (if i < l_size s
            then shift_up (elements (l_items s')) (elem_index (l_size s)) (elem_index i)
            else Ret (elements (l_items s'))) (\<lambda>xs.
        c_bind (store_element ((l_items s')\<lparr>elements := xs\<rparr>) i v) (\<lambda>a.
        Ret ((S_OK, None, None), s'\<lparr>l_items := a, l_size := s32 (l_size s + 1)\<rparr>)))"
    have ins: "List_Insert h i v s = List_grow h s ?k"
      using False sz unfolding List_Insert_def Let_def by simp
    from list_grow [OF wf, of h ?k] show ?thesis
    proof (elim disjE exE conjE)
      assume "List_grow h s ?k = Ret ((CLR_E_OUT_OF_MEMORY, None, None), s)"
      then have "List_Insert h i v s = Ret ((CLR_E_OUT_OF_MEMORY, None, None), s)" unfolding ins .
      then show ?thesis by (rule list_ok_unchanged) (use wf in simp_all)
    next
      fix s' f assume g: "List_grow h s ?k = ?k s'" "l_size s' = l_size s"
        and e: "elements (l_items s') = list_contents s @ replicate (Suc f) NULL"
        and l: "length (list_contents s) + Suc f \<le> 0xFFFF"
      have e': "elements (l_items s') = ys @ zs @ NULL # replicate f NULL" using e xs by (simp flip: xs_def)
      have l': "k + length zs + Suc f \<le> 0xFFFF" using l xs by (simp flip: xs_def)
      obtain w where w: "(if i < l_size s
            then shift_up (elements (l_items s')) (elem_index (l_size s)) (elem_index i)
            else Ret (elements (l_items s'))) = Ret (ys @ w # zs @ replicate f NULL)"
      proof (cases "zs = []")
        case True
        then show ?thesis using that [of NULL] e' k xs sz by simp
      next
        case False
        have ix: "elem_index (l_size s) = length ys + length zs" "elem_index i = length ys"
          using sz xs k l' by simp_all
        have "i < l_size s" using False sz xs k by simp
        moreover have "shift_up (elements (l_items s')) (length ys + length zs) (length ys) =
            Ret (ys @ hd zs # zs @ replicate f NULL)"
          unfolding e' using shift_up_list [OF False, of ys NULL "replicate f NULL"] .
        ultimately show ?thesis using that [of "hd zs"] unfolding ix by simp
      qed
      have st: "store_element ((l_items s')\<lparr>elements := ys @ w # zs @ replicate f NULL\<rparr>) i v =
          Ret ((l_items s')\<lparr>elements := (ys @ v # zs) @ replicate f NULL\<rparr>)"
        unfolding k(1) using xs l' by (subst store_element_nat) (simp_all add: list_update_append)
      have "List_Insert h i v s = Ret ((S_OK, None, None),
          s'\<lparr>l_items := (l_items s')\<lparr>elements := (ys @ v # zs) @ replicate f NULL\<rparr>,
             l_size := int (length (ys @ v # zs))\<rparr>)"
        unfolding ins g w c_bind_simps st using sz xs l' by simp
      then show ?thesis
        by (rule list_okI [where f = f]) (use l' xs(2) ref in simp_all)
    qed
  qed
qed

subsection \<open>The list is a collection\<close>

text \<open>A capacity that a client may ask for: one whose size in bytes fits 32 bits, or a negative one.\<close>

fun list_op_fits :: "list_op \<Rightarrow> bool" where
  "list_op_fits (SetCapacity n) \<longleftrightarrow> safe_length n \<and> - (2 ^ 31) \<le> n"
| "list_op_fits _ \<longleftrightarrow> True"

lemma list_step_ok:
  assumes "wf_list s" and "list_op_fits op"
  shows "list_ok op s (list_step h op s)"
proof (cases op)
  case (SetCapacity n)
  then obtain hr s' where s': "List_SetCapacity h (word_of_int n) s = Ret (hr, s')" "wf_list s'"
    "list_contents s' = list_contents s" "hr \<in> {capacity_code n (list_contents s), CLR_E_OUT_OF_MEMORY}"
    using list_SetCapacity [OF assms(1), of n h] assms(2) by auto
  then show ?thesis unfolding SetCapacity list_ok_def by (auto simp: capacity_code_def)
qed (simp_all add: assms list_GetItem list_SetItem list_Add list_Clear list_Insert list_RemoveAt)

interpretation array_list: collection "list_step h" list_reference "(CLR_E_OUT_OF_MEMORY, None, None)"
    wf_list list_contents "\<lambda>ops _. \<forall>op \<in> set ops. list_op_fits op"
  for h
proof unfold_locales
  fix s x xs
  assume "wf_list s" and "\<forall>op \<in> set (x # xs). list_op_fits op"
  then have "list_ok x s (list_step h x s)" and "\<forall>op \<in> set xs. list_op_fits op"
    using list_step_ok by simp_all
  then show "\<exists>r s'. list_step h x s = Ret (r, s') \<and> wf_list s' \<and> (\<forall>op \<in> set xs. list_op_fits op) \<and>
      ((r, list_contents s') = list_reference x (list_contents s) \<or>
       r = (CLR_E_OUT_OF_MEMORY, None, None) \<and> list_contents s' = list_contents s)"
    unfolding list_ok_def by blast
qed

end
