(* ===== verification/NF_Queue.thy ===== *)
theory NF_Queue
  imports NF_ObjArray
begin

text \<open>
  \<open>System.Collections.Queue\<close> (CLR_RT_HeapBlock_Queue.cpp): a ring of references. A queue that is not
  full is a first-in first-out list. The copy to an array of objects takes its arguments the wrong
  way round, so that a full queue loses what it holds when it grows.
\<close>

section \<open>The code\<close>

record heap_queue =
  q_array :: obj_array
  q_head :: int
  q_tail :: int
  q_size :: int

datatype queue_op = Enqueue objref | Dequeue | Q_Peek | Q_Clear

definition Queue_Dequeue :: "heap_queue \<Rightarrow> (op_reply \<times> heap_queue) c_result" where
  "Queue_Dequeue q =
     (if q_size q = 0 then Ret ((CLR_E_INVALID_OPERATION, None), q)
      else
        c_bind (load_element (q_array q) (q_head q)) (\<lambda>v.
        c_bind (store_element (q_array q) (q_head q) NULL) (\<lambda>a.
        Ret ((S_OK, Some v), q\<lparr>q_array := a,
          q_head := s32 ((q_head q + 1) mod 2 ^ 32 mod m_numOfElements a),
          q_size := s32 (q_size q - 1)\<rparr>))))"

definition Queue_Peek :: "heap_queue \<Rightarrow> (op_reply \<times> heap_queue) c_result" where
  "Queue_Peek q =
     (if q_size q = 0 then Ret ((CLR_E_INVALID_OPERATION, None), q)
      else c_bind (load_element (q_array q) (q_head q)) (\<lambda>v. Ret ((S_OK, Some v), q)))"

definition Queue_Clear :: "heap_queue \<Rightarrow> (op_reply \<times> heap_queue) c_result" where
  "Queue_Clear q =
     (let array = q_array q; n = q_size q; head = q_head q; tail = q_tail q in
      c_bind
        (if n > 0 then
           if head < tail then ClearElements array head n
           else c_bind (ClearElements array head (m_numOfElements array - head)) (\<lambda>a. ClearElements a 0 tail)
         else Ret array) (\<lambda>a.
      Ret ((S_OK, None), q\<lparr>q_array := a, q_size := (if n > 0 then 0 else n), q_head := 0, q_tail := 0\<rparr>)))"

text \<open>
  The first array is the destination of the \<open>memcpy\<close>, although it is called the source. The result
  is the code and both arrays.
\<close>

definition ObjArrayMemcpy ::
    "obj_array \<Rightarrow> int \<Rightarrow> obj_array \<Rightarrow> int \<Rightarrow> int \<Rightarrow> (hresult \<times> obj_array \<times> obj_array) c_result" where
  "ObjArrayMemcpy arraySrc indexSrc arrayDst indexDst len =
     c_bind (memcpy_elements arraySrc indexSrc arrayDst indexDst len) (\<lambda>a. Ret (S_OK, a, arrayDst))"

definition Queue_arrayCopy ::
    "clr_heap \<Rightarrow> u8 \<Rightarrow> obj_array \<Rightarrow> int \<Rightarrow> obj_array \<Rightarrow> int \<Rightarrow> int \<Rightarrow> (hresult \<times> obj_array \<times> obj_array) c_result" where
  "Queue_arrayCopy h typeOfElement =
     (if typeOfElement = DATATYPE_OBJECT then ObjArrayMemcpy
      else (\<lambda>src i dst j n. c_bind (Array_Copy h src i dst j n) (\<lambda>(hr, dst'). Ret (hr, src, dst'))))"

text \<open>The queue and the target after the copy; the target is not the queue's own array.\<close>

definition Queue_CopyTo ::
    "clr_heap \<Rightarrow> obj_array \<Rightarrow> int \<Rightarrow> heap_queue \<Rightarrow> (hresult \<times> obj_array \<times> heap_queue) c_result" where
  "Queue_CopyTo h toArray index q =
     (let array = q_array q; n = q_size q; head = q_head q; tail = q_tail q;
          arrayCopy = Queue_arrayCopy h (m_typeOfElement toArray)
      in if s32 (s32 (m_numOfElements toArray) - index) < n
         then Ret (CLR_E_INVALID_PARAMETER, toArray, q)
         else if n > 0 then
           if head < tail then
             c_bind (arrayCopy array head toArray index n) (\<lambda>(hr, a, t). Ret (hr, t, q\<lparr>q_array := a\<rparr>))
           else
             let firstPart = s32 (m_numOfElements array - head) in
             c_bind (arrayCopy array head toArray index firstPart) (\<lambda>(hr, a, t).
             if hr \<noteq> S_OK then Ret (hr, t, q\<lparr>q_array := a\<rparr>)
             else c_bind (arrayCopy a 0 t (s32 (index + firstPart)) tail) (\<lambda>(hr, a, t).
               Ret (hr, t, q\<lparr>q_array := a\<rparr>)))
         else Ret (S_OK, toArray, q))"

definition Queue_Enqueue :: "clr_heap \<Rightarrow> objref \<Rightarrow> heap_queue \<Rightarrow> (op_reply \<times> heap_queue) c_result" where
  "Queue_Enqueue h value q =
     (let n = q_size q; capacity = s32 (m_numOfElements (q_array q));
          put = (\<lambda>array tail capacity q.
            c_bind (store_element array tail value) (\<lambda>a.
            Ret ((S_OK, None), q\<lparr>q_array := a, q_tail := s32 (tail + 1) smod capacity,
              q_size := s32 (n + 1)\<rparr>)))
      in if n = capacity then
           let capacity = s32 (capacity * 2) in
           c_bind (CreateInstance h (word_of_int capacity)) (\<lambda>r. case r of
             Inl hr \<Rightarrow> Ret ((hr, None), q)
           | Inr array \<Rightarrow>
               c_bind (Queue_CopyTo h array 0 q) (\<lambda>(hr, array, q').
               put array n capacity (q'\<lparr>q_array := array, q_head := 0, q_tail := n\<rparr>)))
         else put (q_array q) (q_tail q) capacity q)"

fun queue_step :: "clr_heap \<Rightarrow> queue_op \<Rightarrow> heap_queue \<Rightarrow> (op_reply \<times> heap_queue) c_result" where
  "queue_step h (Enqueue v) q = Queue_Enqueue h v q"
| "queue_step h Dequeue q = Queue_Dequeue q"
| "queue_step h Q_Peek q = Queue_Peek q"
| "queue_step h Q_Clear q = Queue_Clear q"

section \<open>What a queue promises\<close>

fun queue_reference :: "queue_op \<Rightarrow> objref list \<Rightarrow> op_reply \<times> objref list" where
  "queue_reference (Enqueue v) xs = ((S_OK, None), xs @ [v])"
| "queue_reference Dequeue [] = ((CLR_E_INVALID_OPERATION, None), [])"
| "queue_reference Dequeue (x # xs) = ((S_OK, Some x), xs)"
| "queue_reference Q_Peek [] = ((CLR_E_INVALID_OPERATION, None), [])"
| "queue_reference Q_Peek (x # xs) = ((S_OK, Some x), x # xs)"
| "queue_reference Q_Clear xs = ((S_OK, None), [])"

text \<open>The array as seen from the head.\<close>

definition queue_ring :: "heap_queue \<Rightarrow> objref list" where
  "queue_ring q = rotate (nat (q_head q)) (elements (q_array q))"

definition queue_contents :: "heap_queue \<Rightarrow> objref list" where
  "queue_contents q = take (nat (q_size q)) (queue_ring q)"

definition queue_free :: "heap_queue \<Rightarrow> nat" where
  "queue_free q = length (elements (q_array q)) - nat (q_size q)"

definition wf_queue :: "heap_queue \<Rightarrow> bool" where
  "wf_queue q \<longleftrightarrow> wf_array (q_array q) \<and> 0 \<le> q_size q \<and> q_size q \<le> m_numOfElements (q_array q) \<and>
     0 \<le> q_head q \<and> q_head q < m_numOfElements (q_array q) \<and>
     q_tail q = (q_head q + q_size q) mod m_numOfElements (q_array q) \<and>
     drop (nat (q_size q)) (queue_ring q) = replicate (queue_free q) NULL"

lemma wf_queueE:
  assumes "wf_queue q"
  obtains hd' where "q_head q = int hd'" "hd' < length (elements (q_array q))"
    "q_size q = int (length (queue_contents q))"
    "q_tail q = int ((hd' + length (queue_contents q)) mod length (elements (q_array q)))"
    "rotate hd' (elements (q_array q)) = queue_contents q @ replicate (queue_free q) NULL"
    "length (elements (q_array q)) = length (queue_contents q) + queue_free q"
    "0 < length (elements (q_array q))" "length (elements (q_array q)) \<le> 0xFFFF"
proof -
  let ?n = "length (elements (q_array q))"
  obtain hd' k where i: "q_head q = int hd'" "q_size q = int k" using assms unfolding wf_queue_def
    by (metis zero_le_imp_eq_int)
  have k: "k \<le> ?n" "hd' < ?n" using assms i by (auto simp: wf_queue_def m_numOfElements_def)
  have lc: "length (queue_contents q) = k" using k i by (simp add: queue_contents_def queue_ring_def)
  have "rotate hd' (elements (q_array q)) = queue_contents q @ replicate (queue_free q) NULL"
    using assms i unfolding wf_queue_def queue_contents_def queue_ring_def
    by (metis append_take_drop_id nat_int)
  moreover have "q_tail q = int ((hd' + k) mod ?n)"
    using assms i by (simp add: wf_queue_def m_numOfElements_def zmod_int)
  moreover have "?n = k + queue_free q" using k i by (simp add: queue_free_def)
  moreover have "0 < ?n" "?n \<le> 0xFFFF" using assms by (simp_all add: wf_queue_def wf_array_def)
  ultimately show thesis using that [of hd'] i k(2) unfolding lc by blast
qed

lemma wf_queueI:
  assumes "q_head q = int hd'" "hd' < length (elements (q_array q))" "q_size q = int (length xs)"
    and "q_tail q = int ((hd' + length xs) mod length (elements (q_array q)))"
    and "rotate hd' (elements (q_array q)) = xs @ replicate f NULL"
    and "length (elements (q_array q)) \<le> 0xFFFF"
  shows "wf_queue q \<and> queue_contents q = xs \<and> queue_free q = f"
proof -
  have "length (rotate hd' (elements (q_array q))) = length xs + f" unfolding assms(5) by simp
  then have n: "length (elements (q_array q)) = length xs + f" by simp
  then have f: "queue_free q = f" using assms(3) by (simp add: queue_free_def)
  have "queue_ring q = xs @ replicate f NULL" using assms(1,5) by (simp add: queue_ring_def)
  then show ?thesis using assms n f
    by (auto simp: wf_queue_def wf_array_def queue_contents_def m_numOfElements_def zmod_int)
qed

section \<open>Rings\<close>

lemma rotate_update:
  assumes "i < length xs"
  shows "rotate m (xs[(m + i) mod length xs := v]) = (rotate m xs)[i := v]"
proof (rule nth_equalityI)
  fix j assume "j < length (rotate m (xs[(m + i) mod length xs := v]))"
  then have j: "j < length xs" by simp
  have "rotate m [0..<length xs] ! k = (m + k) mod length xs" if "k < length xs" for k
  proof -
    have "(m + k) mod length xs < length xs" by (rule mod_less_divisor) (use that in linarith)
    then show ?thesis using that by (simp add: nth_rotate)
  qed
  then have "(m + i) mod length xs = (m + j) mod length xs \<longleftrightarrow> i = j"
    using nth_eq_iff_index_eq [of "rotate m [0..<length xs]" i j] assms j by simp
  moreover have "(m + j) mod length xs < length xs" by (rule mod_less_divisor) (use j in linarith)
  ultimately show "rotate m (xs[(m + i) mod length xs := v]) ! j = (rotate m xs)[i := v] ! j"
    using j assms by (simp add: nth_rotate nth_list_update)
qed simp

lemma smod_nonneg [simp]: "0 \<le> k \<Longrightarrow> 0 < l \<Longrightarrow> (k :: int) smod l = k mod l"
  by (simp add: signed_modulo_int_def sgn_if)

section \<open>A queue that is not full\<close>

lemma queue_Peek:
  assumes "wf_queue q"
  shows "\<exists>r. Queue_Peek q = Ret (r, q) \<and> (r, queue_contents q) = queue_reference Q_Peek (queue_contents q)"
proof -
  define xs where "xs = queue_contents q"
  obtain hd' where q: "q_head q = int hd'" "hd' < length (elements (q_array q))" "q_size q = int (length xs)"
    "rotate hd' (elements (q_array q)) = xs @ replicate (queue_free q) NULL"
    "length (elements (q_array q)) \<le> 0xFFFF"
    using assms unfolding xs_def by (rule wf_queueE)
  show ?thesis
  proof (cases xs)
    case Nil
    then show ?thesis using q by (simp add: Queue_Peek_def flip: xs_def)
  next
    case (Cons x ys)
    have "elements (q_array q) ! hd' = rotate hd' (elements (q_array q)) ! 0"
      using q(2) by (subst nth_rotate) auto
    then have "load_element (q_array q) (q_head q) = Ret x"
      unfolding q(1) using q(2,4,5) Cons by (subst load_element_nat) simp_all
    then show ?thesis using q(3) Cons by (simp add: Queue_Peek_def flip: xs_def)
  qed
qed

lemma queue_Dequeue:
  assumes "wf_queue q"
  shows "\<exists>r q'. Queue_Dequeue q = Ret (r, q') \<and> wf_queue q' \<and> queue_free q \<le> queue_free q' \<and>
    (r, queue_contents q') = queue_reference Dequeue (queue_contents q)"
proof -
  define xs where "xs = queue_contents q"
  obtain hd' where q: "q_head q = int hd'" "hd' < length (elements (q_array q))" "q_size q = int (length xs)"
    "q_tail q = int ((hd' + length xs) mod length (elements (q_array q)))"
    "rotate hd' (elements (q_array q)) = xs @ replicate (queue_free q) NULL"
    "length (elements (q_array q)) = length xs + queue_free q"
    "length (elements (q_array q)) \<le> 0xFFFF"
    using assms unfolding xs_def by (rule wf_queueE)
  show ?thesis
  proof (cases xs)
    case Nil
    then show ?thesis using q assms by (simp add: Queue_Dequeue_def flip: xs_def)
  next
    case (Cons x ys)
    let ?n = "length (elements (q_array q))"
    let ?a = "(q_array q)\<lparr>elements := (elements (q_array q))[hd' := NULL]\<rparr>"
    have "elements (q_array q) ! hd' = rotate hd' (elements (q_array q)) ! 0"
      using q(2) by (subst nth_rotate) auto
    then have ld: "load_element (q_array q) (q_head q) = Ret x"
      unfolding q(1) using q(2,5,7) Cons by (subst load_element_nat) simp_all
    have st: "store_element (q_array q) (q_head q) NULL = Ret ?a"
      unfolding q(1) using q(2,7) by (subst store_element_nat) simp_all
    let ?h = "Suc hd' mod ?n"
    let ?q = "q\<lparr>q_array := ?a, q_head := int ?h, q_size := int (length ys)\<rparr>"
    have "(int hd' + 1) mod 2 ^ 32 = int (Suc hd')" using q(2,7) by simp
    then have "(q_head q + 1) mod 2 ^ 32 mod m_numOfElements ?a = int ?h"
      unfolding q(1) by (simp add: m_numOfElements_def zmod_int)
    moreover have "?h < ?n" by (rule mod_less_divisor) (use q(2) in linarith)
    then have "?h < 2 ^ 31" using q(7) by simp
    ultimately have hd: "s32 ((q_head q + 1) mod 2 ^ 32 mod m_numOfElements ?a) = int ?h"
      by simp
    have sz: "s32 (q_size q - 1) = int (length ys)" using q(3,6,7) Cons by simp
    have dq: "Queue_Dequeue q = Ret ((S_OK, Some x), ?q)"
      unfolding Queue_Dequeue_def ld st c_bind_simps hd sz using q(3) Cons by simp
    have "rotate hd' (elements ?a) = (rotate hd' (elements (q_array q)))[0 := NULL]"
      using rotate_update [of 0 "elements (q_array q)" hd' NULL] q(2) by (cases "elements (q_array q)") auto
    then have "rotate hd' (elements ?a) = NULL # ys @ replicate (queue_free q) NULL"
      using q(5) Cons by simp
    then have "rotate (Suc hd') (elements ?a) = ys @ replicate (Suc (queue_free q)) NULL"
      by (simp flip: replicate_append_same)
    then have "rotate ?h (elements ?a) = ys @ replicate (Suc (queue_free q)) NULL"
      using rotate_conv_mod [of "Suc hd'" "elements ?a"] by simp
    moreover have "(?h + length ys) mod ?n = (hd' + length xs) mod ?n"
      using Cons by (simp add: mod_simps)
    ultimately have "wf_queue ?q \<and> queue_contents ?q = ys \<and> queue_free ?q = Suc (queue_free q)"
      using q(2,4,7) by (intro wf_queueI [where hd' = ?h]) (auto intro: mod_less_divisor)
    then show ?thesis using dq Cons by (auto simp flip: xs_def)
  qed
qed

lemma queue_Enqueue:
  assumes "wf_queue q" and "0 < queue_free q"
  shows "\<exists>q'. Queue_Enqueue h v q = Ret ((S_OK, None), q') \<and> wf_queue q' \<and>
    queue_contents q' = queue_contents q @ [v] \<and> queue_free q' = queue_free q - 1"
proof -
  define xs where "xs = queue_contents q"
  obtain hd' where q: "q_head q = int hd'" "hd' < length (elements (q_array q))" "q_size q = int (length xs)"
    "q_tail q = int ((hd' + length xs) mod length (elements (q_array q)))"
    "rotate hd' (elements (q_array q)) = xs @ replicate (queue_free q) NULL"
    "length (elements (q_array q)) = length xs + queue_free q"
    "length (elements (q_array q)) \<le> 0xFFFF"
    using assms(1) unfolding xs_def by (rule wf_queueE)
  obtain g where g: "queue_free q = Suc g" using assms(2) by (cases "queue_free q") simp_all
  let ?n = "length (elements (q_array q))"
  let ?t = "(hd' + length xs) mod ?n"
  let ?a = "(q_array q)\<lparr>elements := (elements (q_array q))[?t := v]\<rparr>"
  let ?q = "q\<lparr>q_array := ?a, q_tail := int (Suc ?t mod ?n), q_size := int (Suc (length xs))\<rparr>"
  have t: "?t < ?n" by (rule mod_less_divisor) (use q(2) in linarith)
  have cap: "s32 (m_numOfElements (q_array q)) = int ?n" using q(7) by (simp add: m_numOfElements_def)
  have st: "store_element (q_array q) (int ?t) v = Ret ?a"
    using t q(7) by (subst store_element_nat) simp_all
  have "s32 (int ?t + 1) = int (Suc ?t)" using t q(7) by simp
  then have "s32 (int ?t + 1) smod int ?n = int (Suc ?t) smod int ?n" by (simp only:)
  also have "\<dots> = int (Suc ?t) mod int ?n" by (rule smod_nonneg) (use t in linarith)+
  finally have tl: "s32 (int ?t + 1) smod int ?n = int (Suc ?t mod ?n)" by (simp only: zmod_int)
  have sz: "s32 (int (length xs) + 1) = int (Suc (length xs))" using q(6,7) g by simp
  have "int (length xs) \<noteq> int ?n" using q(6) g by simp
  then have eq: "Queue_Enqueue h v q = Ret ((S_OK, None), ?q)"
    unfolding Queue_Enqueue_def Let_def cap q(3,4) by (simp only: if_False st c_bind_simps tl sz)
  have "rotate hd' (elements ?a) = (rotate hd' (elements (q_array q)))[length xs := v]"
    using rotate_update [of "length xs" "elements (q_array q)" hd' v] q(6) g by simp
  then have "rotate hd' (elements ?a) = (xs @ [v]) @ replicate g NULL"
    using q(5) g by (simp add: list_update_append)
  moreover have "Suc ?t mod ?n = (hd' + length (xs @ [v])) mod ?n"
    by (simp add: mod_Suc_eq)
  ultimately have "wf_queue ?q \<and> queue_contents ?q = xs @ [v] \<and> queue_free ?q = g"
    using q(1,2,7) by (intro wf_queueI [where hd' = hd']) auto
  then show ?thesis using eq g by (auto simp: xs_def)
qed

text \<open>A slot that the queue does not use is null.\<close>

lemma queue_null_slot:
  assumes r: "rotate h' es = xs @ replicate f NULL" and h: "h' < length es" and j: "j < length es"
    and out: "h' \<le> j \<Longrightarrow> length xs \<le> j - h'" "j < h' \<Longrightarrow> length xs \<le> j + length es - h'"
  shows "es ! j = NULL"
proof -
  define i where "i = (if h' \<le> j then j - h' else j + length es - h')"
  have i: "i < length es" "length xs \<le> i" "(h' + i) mod length es = j"
    using h j out by (auto simp: i_def)
  have n: "length es = length xs + f" using arg_cong [OF r, of length] by simp
  have "es ! j = rotate h' es ! i" using i by (simp add: nth_rotate)
  also have "\<dots> = NULL" unfolding r using i n by (simp add: nth_append)
  finally show ?thesis .
qed

lemma queue_Clear:
  assumes "wf_queue q"
  shows "\<exists>q'. Queue_Clear q = Ret ((S_OK, None), q') \<and> wf_queue q' \<and> queue_contents q' = [] \<and>
    queue_free q' = queue_free q + length (queue_contents q)"
proof -
  define xs where "xs = queue_contents q"
  obtain hd' where q: "q_head q = int hd'" "hd' < length (elements (q_array q))" "q_size q = int (length xs)"
    "q_tail q = int ((hd' + length xs) mod length (elements (q_array q)))"
    "rotate hd' (elements (q_array q)) = xs @ replicate (queue_free q) NULL"
    "length (elements (q_array q)) = length xs + queue_free q"
    "length (elements (q_array q)) \<le> 0xFFFF"
    using assms unfolding xs_def by (rule wf_queueE)
  let ?es = "elements (q_array q)"
  let ?n = "length ?es"
  let ?a = "(q_array q)\<lparr>elements := replicate ?n NULL\<rparr>"
  note null = queue_null_slot [OF q(5,2)]
  have res: "(if q_size q > 0 then
           if q_head q < q_tail q then ClearElements (q_array q) (q_head q) (q_size q)
           else c_bind (ClearElements (q_array q) (q_head q) (m_numOfElements (q_array q) - q_head q))
             (\<lambda>a. ClearElements a 0 (q_tail q))
         else Ret (q_array q)) = Ret ?a"
  proof (cases "xs = []")
    case True
    have "?es = replicate ?n NULL" by (rule nth_equalityI) (use null True in auto)
    then show ?thesis using q(3) True by simp
  next
    case False
    show ?thesis
    proof (cases "hd' + length xs < ?n")
      case True
      then have t: "q_tail q = int (hd' + length xs)" using q(4) by simp
      have "overwrite ?es hd' (replicate (length xs) NULL) = replicate ?n NULL"
        by (rule nth_equalityI) (use True null in \<open>auto simp: nth_overwrite\<close>)
      then show ?thesis using True False t q(1,3,7) by (simp add: ClearElements_nat)
    next
      case wrap: False
      define t where "t = hd' + length xs - ?n"
      have "hd' + length xs = ?n + t" "t \<le> hd'" "t < ?n" using wrap q(2,6) by (simp_all add: t_def)
      then have t: "q_tail q = int t" "t \<le> hd'" using q(4) by simp_all
      have m: "m_numOfElements (q_array q) - q_head q = int (?n - hd')"
        using q(1,2) by (simp add: m_numOfElements_def)
      let ?b = "(q_array q)\<lparr>elements := overwrite ?es hd' (replicate (?n - hd') NULL)\<rparr>"
      have c1: "ClearElements (q_array q) (int hd') (int (?n - hd')) = Ret ?b"
        using q(2,7) by (subst ClearElements_nat) simp_all
      have "ClearElements ?b (int 0) (int t) = Ret (?b\<lparr>elements := overwrite (elements ?b) 0 (replicate t NULL)\<rparr>)"
        using q(2,7) t(2) by (subst ClearElements_nat) simp_all
      moreover have "overwrite (elements ?b) 0 (replicate t NULL) = replicate ?n NULL"
        by (rule nth_equalityI)
          (use q(2,6) t(2) wrap null in \<open>auto simp: nth_overwrite t_def\<close>)
      ultimately have c2: "ClearElements ?b 0 (int t) = Ret ?a" by simp
      have "\<not> int hd' < int t" using t(2) by simp
      then show ?thesis unfolding m t(1) unfolding q(1,3) using False c1 c2 by simp
    qed
  qed
  let ?q = "q\<lparr>q_array := ?a, q_size := 0, q_head := 0, q_tail := 0\<rparr>"
  have "Queue_Clear q = Ret ((S_OK, None), ?q)"
    unfolding Queue_Clear_def Let_def res using q(3) by simp
  moreover have "wf_queue ?q \<and> queue_contents ?q = [] \<and> queue_free ?q = ?n"
    using q(2,7) by (intro wf_queueI [where hd' = 0]) auto
  ultimately show ?thesis using q(6) by (auto simp flip: xs_def)
qed

subsection \<open>The queue is a collection\<close>

fun enqueues :: "queue_op list \<Rightarrow> nat" where
  "enqueues [] = 0"
| "enqueues (Enqueue v # ops) = Suc (enqueues ops)"
| "enqueues (_ # ops) = enqueues ops"

lemma queue_step_ok:
  assumes "wf_queue q" and "enqueues (x # xs) \<le> queue_free q"
  shows "\<exists>r q'. queue_step h x q = Ret (r, q') \<and> wf_queue q' \<and> enqueues xs \<le> queue_free q' \<and>
    (r, queue_contents q') = queue_reference x (queue_contents q)"
proof (cases x)
  case (Enqueue v)
  then show ?thesis using queue_Enqueue [OF assms(1), of h v] assms(2) by auto
next
  case Dequeue
  then show ?thesis using queue_Dequeue [OF assms(1)] assms(2) by force
next
  case Q_Peek
  then show ?thesis using queue_Peek [OF assms(1)] assms by auto
next
  case Q_Clear
  then show ?thesis using queue_Clear [OF assms(1)] assms(2) by force
qed

interpretation queue: exact_collection "queue_step h" queue_reference "(CLR_E_OUT_OF_MEMORY, None)"
    wf_queue queue_contents "\<lambda>ops q. enqueues ops \<le> queue_free q"
  for h
proof unfold_locales
  fix s x xs
  assume a: "wf_queue s" "enqueues (x # xs) \<le> queue_free s"
  then show "\<exists>r s'. queue_step h x s = Ret (r, s') \<and> wf_queue s' \<and> enqueues xs \<le> queue_free s' \<and>
      ((r, queue_contents s') = queue_reference x (queue_contents s) \<or>
       r = (CLR_E_OUT_OF_MEMORY, None) \<and> queue_contents s' = queue_contents s)"
    using queue_step_ok by blast
  fix r s'
  assume "queue_step h x s = Ret (r, s')"
  then show "(r, queue_contents s') = queue_reference x (queue_contents s)"
    using queue_step_ok [OF a, of h] by auto
qed

section \<open>Copying out and growing\<close>

lemma memcpy_elements_ok:
  assumes "i + n \<le> length (elements src)" "j + n \<le> length (elements dst)"
    and "length (elements src) < 2 ^ 31" "length (elements dst) < 2 ^ 31"
  obtains a where "memcpy_elements dst (int j) src (int i) (int n) = Ret a"
    "length (elements a) = length (elements dst)"
  using that memcpy_elements_nat [OF assms] assms by simp

lemma copy_to_object_array:
  assumes "wf_queue q" and "m_typeOfElement t = DATATYPE_OBJECT"
    and "i + length (queue_contents q) \<le> length (elements t)" "length (elements t) < 2 ^ 31"
  shows "\<exists>a. Queue_CopyTo h t (int i) q = Ret (S_OK, t, q\<lparr>q_array := a\<rparr>)"
proof -
  define xs where "xs = queue_contents q"
  obtain hd' where q: "q_head q = int hd'" "hd' < length (elements (q_array q))" "q_size q = int (length xs)"
    "q_tail q = int ((hd' + length xs) mod length (elements (q_array q)))"
    "length (elements (q_array q)) = length xs + queue_free q"
    "length (elements (q_array q)) \<le> 0xFFFF"
    using assms(1) unfolding xs_def by (rule wf_queueE)
  let ?n = "length (elements (q_array q))"
  have room: "\<not> s32 (s32 (m_numOfElements t) - int i) < int (length xs)"
    using assms(3,4) by (simp add: m_numOfElements_def xs_def flip: of_nat_diff)
  note copy_def = Queue_CopyTo_def Let_def q(3) Queue_arrayCopy_def assms(2) ObjArrayMemcpy_def
  show ?thesis
  proof (cases "xs = []")
    case True
    then show ?thesis unfolding copy_def using room by (auto intro: exI [of _ "q_array q"])
  next
    case ne: False
    show ?thesis
    proof (cases "hd' + length xs < ?n")
      case True
      then have tl: "q_tail q = int (hd' + length xs)" using q(4) by simp
      obtain a where "memcpy_elements (q_array q) (int hd') t (int i) (int (length xs)) = Ret a"
        by (rule memcpy_elements_ok [of i "length xs" t hd' "q_array q"])
          (use True assms(3,4) q(6) in \<open>auto simp flip: xs_def\<close>)
      then show ?thesis unfolding copy_def using room ne tl q(1) by auto
    next
      case False
      define k where "k = hd' + length xs - ?n"
      have "hd' + length xs = ?n + k" "k \<le> hd'" "k < ?n" using False q(2,5) by (simp_all add: k_def)
      then have tl: "q_tail q = int k" "k \<le> hd'" "?n - hd' + k = length xs" using q(2,4) by simp_all
      have fp: "s32 (m_numOfElements (q_array q) - int hd') = int (?n - hd')"
        using q(2,6) by (simp add: m_numOfElements_def)
      have ix: "s32 (int i + int (?n - hd')) = int (i + (?n - hd'))"
        using assms(3,4) tl(3) by (simp add: xs_def)
      obtain a where a: "memcpy_elements (q_array q) (int hd') t (int i) (int (?n - hd')) = Ret a"
        "length (elements a) = ?n"
        by (rule memcpy_elements_ok [of i "?n - hd'" t hd' "q_array q"])
          (use q(2,6) tl(3) assms(3,4) in \<open>auto simp flip: xs_def\<close>)
      obtain b where "memcpy_elements a (int 0) t (int (i + (?n - hd'))) (int k) = Ret b"
        by (rule memcpy_elements_ok [of "i + (?n - hd')" k t 0 a])
          (use a(2) q(2,6) tl(2,3) assms(3,4) in \<open>auto simp flip: xs_def\<close>)
      then have b: "memcpy_elements a 0 t (int (i + (?n - hd'))) (int k) = Ret b" by simp
      have "\<not> int hd' < int k" "0 < int (length xs)" using tl(2) ne by simp_all
      then show ?thesis
        unfolding copy_def q(1) tl(1) fp ix
        by (simp only: room a(1) b if_True if_False c_bind_simps case_prod_conv simp_thms) auto
    qed
  qed
qed

lemma elem_index_negative:
  assumes "i < 0" "- (2 ^ 30) \<le> i" shows "0xFFFF < elem_index i"
proof -
  have "i mod 4294967296 = (4294967296 + i) mod 4294967296" by simp
  also have "\<dots> = 4294967296 + i" using assms by (intro mod_pos_pos_trivial) simp_all
  finally show ?thesis using assms by (simp add: elem_index_def)
qed

lemma memcpy_elements_negative:
  "i < 0 \<Longrightarrow> - (2 ^ 30) \<le> i \<Longrightarrow> length (elements src) \<le> 0xFFFF \<Longrightarrow> 0 < n \<Longrightarrow>
     memcpy_elements dst j src i n = Fault BadIndex"
  using elem_index_negative [of i] by (simp add: memcpy_elements_def)

text \<open>A negative index passes the check of \<open>CopyTo\<close> and reaches the copy.\<close>

lemma copy_to_negative_index:
  assumes "wf_queue q" and "queue_contents q \<noteq> []" and "m_typeOfElement t = DATATYPE_OBJECT"
    and "length (elements t) \<le> 0xFFFF" and i: "i < 0" "- (2 ^ 30) \<le> i"
    and room: "int (length (queue_contents q)) \<le> int (length (elements t)) - i"
  shows "Queue_CopyTo h t i q = Fault BadIndex"
proof -
  define xs where "xs = queue_contents q"
  obtain hd' where q: "q_head q = int hd'" "hd' < length (elements (q_array q))" "q_size q = int (length xs)"
    "length (elements (q_array q)) = length xs + queue_free q"
    "length (elements (q_array q)) \<le> 0xFFFF"
    using assms(1) unfolding xs_def by (rule wf_queueE)
  have r: "\<not> s32 (s32 (m_numOfElements t) - i) < q_size q" "0 < q_size q"
    using room assms(2,4) i q(3) by (simp_all add: m_numOfElements_def xs_def)
  have fp: "0 < s32 (m_numOfElements (q_array q) - q_head q)"
    using q(1,2,5) by (simp add: m_numOfElements_def)
  note fault = memcpy_elements_negative [OF i assms(4)]
  show ?thesis
    unfolding Queue_CopyTo_def Let_def Queue_arrayCopy_def assms(3) ObjArrayMemcpy_def
    using r fp by (simp add: fault)
qed

text \<open>A full queue of objects grows, and every element it held is gone.\<close>

lemma queue_growth:
  assumes "wf_queue q" and "queue_free q = 0" and "m_Object_dataType h = DATATYPE_OBJECT"
    and "ExtractHeapBlocksForArray h (of_nat (2 * length (queue_contents q))) \<noteq> None"
  shows "\<exists>q'. Queue_Enqueue h v q = Ret ((S_OK, None), q') \<and>
    queue_contents q' = replicate (length (queue_contents q)) NULL @ [v]"
proof -
  define xs where "xs = queue_contents q"
  obtain hd' where q: "q_head q = int hd'" "hd' < length (elements (q_array q))" "q_size q = int (length xs)"
    "length (elements (q_array q)) = length xs + queue_free q"
    "length (elements (q_array q)) \<le> 0xFFFF"
    using assms(1) unfolding xs_def by (rule wf_queueE)
  let ?n = "length xs"
  have n: "0 < ?n" "?n \<le> 0xFFFF" using q(2,4,5) assms(2) by linarith+
  have cap: "s32 (m_numOfElements (q_array q)) = int ?n" using q(4) n assms(2) by (simp add: m_numOfElements_def)
  have c2: "s32 (int ?n * 2) = int (2 * ?n)" using n by simp
  have len: "safe_length (int (2 * ?n))" "- (2 ^ 31) \<le> int (2 * ?n)"
    using n by (simp_all add: safe_length_def)
  let ?t = "\<lparr>m_typeOfElement = DATATYPE_OBJECT, elements = replicate (2 * ?n) NULL\<rparr>"
  have new: "CreateInstance h (word_of_int (int (2 * ?n))) = Ret (Inr ?t)"
  proof (cases rule: CreateInstance_cases [OF len, of h])
    case (1 hr)
    have "ExtractHeapBlocksForArray h (word_of_int (int (2 * ?n))) \<noteq> None" using assms(4) by (simp add: xs_def)
    then show ?thesis using 1 by (auto simp: CreateInstance_def split: if_splits)
  next
    case 2
    then show ?thesis using assms(3) by (simp add: nat_mult_distrib)
  qed
  obtain b where cp: "Queue_CopyTo h ?t (int 0) q = Ret (S_OK, ?t, q\<lparr>q_array := b\<rparr>)"
    using copy_to_object_array [OF assms(1), of ?t 0 h] n by (auto simp: xs_def)
  let ?a = "?t\<lparr>elements := (replicate (2 * ?n) NULL)[?n := v]\<rparr>"
  have st: "store_element ?t (int ?n) v = Ret ?a" using n by (subst store_element_nat) simp_all
  let ?q = "q\<lparr>q_array := ?a, q_head := 0,
      q_tail := s32 (int ?n + 1) smod int (2 * ?n), q_size := s32 (int ?n + 1)\<rparr>"
  have "Queue_Enqueue h v q = Ret ((S_OK, None), ?q)"
    using cp unfolding Queue_Enqueue_def Let_def cap q(3) c2 new by (simp add: st)
  moreover have tk: "take (Suc ?n) ((replicate (2 * ?n) NULL)[?n := v]) = replicate ?n NULL @ [v]"
  proof -
    have "replicate (2 * ?n) NULL = replicate ?n NULL @ replicate ?n NULL"
      by (simp flip: replicate_add add: mult_2)
    then show ?thesis using n by (cases ?n) (simp_all add: list_update_append)
  qed
  moreover have "queue_contents ?q = replicate ?n NULL @ [v]"
    using n tk by (simp add: queue_contents_def queue_ring_def nat_add_distrib)
  ultimately show ?thesis unfolding xs_def by blast
qed

end
