(* ===== verification/NF_Collections.thy ===== *)
theory NF_Collections
  imports NF_Stack NF_ArrayList NF_Queue
begin

text \<open>
  What the three collections promise their clients, and the two places where the code breaks the
  promise: the growth of a queue of objects, and the creation of an array whose size in bytes does
  not fit 32 bits.
\<close>

text \<open>A heap with room for everything, on which the witnesses run.\<close>

definition roomy_heap :: clr_heap where
  "roomy_heap = \<lparr>m_Object_dataType = DATATYPE_OBJECT, ExtractHeapBlocks = (\<lambda>_. True),
     Array_Copy = (\<lambda>src i dst j n. Ret (S_OK, dst))\<rparr>"

definition small_array :: "objref list \<Rightarrow> obj_array" where
  "small_array xs = \<lparr>m_typeOfElement = DATATYPE_OBJECT, elements = xs\<rparr>"

definition ring_of_four :: heap_queue where
  "ring_of_four = \<lparr>q_array = small_array [9, 0, 0, 8], q_head = 3, q_tail = 1, q_size = 2\<rparr>"

lemma ring_of_four: "wf_queue ring_of_four" "queue_free ring_of_four = 2"
    "queue_contents ring_of_four = [8, 9]"
  by (simp_all add: ring_of_four_def small_array_def wf_queue_def wf_array_def m_numOfElements_def
      queue_free_def queue_ring_def queue_contents_def rotate_drop_take numeral_2_eq_2)

section \<open>The collections are lists\<close>

text \<open>
  C18: a queue with enough free slots is a first-in first-out list: every sequence of \<open>Enqueue\<close>,
  \<open>Dequeue\<close>, \<open>Peek\<close> and \<open>Clear\<close> with at most as many insertions as there are free slots yields
  exactly the replies of the same operations on a list, from any position of the ring.
\<close>

theorem queue_is_fifo:
  assumes "wf_queue q" and "enqueues ops \<le> queue_free q"
  shows "\<exists>rs q'. run_ops (queue_step h) ops q = Ret (rs, q') \<and> wf_queue q' \<and>
      run_list queue_reference (CLR_E_OUT_OF_MEMORY, None) (zip ops (replicate (length ops) False))
        (queue_contents q) = (rs, queue_contents q')"
  using assms by (rule queue.run_exact)

theorem queue_is_fifo_witness:
  "\<exists>q'. run_ops (queue_step roomy_heap) [Enqueue 7, Dequeue, Q_Peek, Enqueue 6] ring_of_four =
      Ret ([(S_OK, None), (S_OK, Some 8), (S_OK, Some 9), (S_OK, None)], q') \<and>
      queue_contents q' = [9, 7, 6]"
  using queue_is_fifo [of ring_of_four "[Enqueue 7, Dequeue, Q_Peek, Enqueue 6]" roomy_heap]
  by (auto simp: ring_of_four)





text \<open>
  C30: the types of the \<open>ArrayList\<close> operations: on a well-formed list each of them returns, keeps
  the list well-formed (in particular every slot behind the elements is null, so that nothing
  removed is kept alive) and its code is success, out of range or out of memory.
\<close>

theorem array_list_step_typed:
  assumes "wf_list s" and "list_op_fits op"
  shows "\<exists>hr v i s'. list_step h op s = Ret ((hr, v, i), s') \<and> wf_list s' \<and>
      hr \<in> {S_OK, CLR_E_OUT_OF_RANGE, CLR_E_OUT_OF_MEMORY}"
proof -
  obtain r s' where "list_step h op s = Ret (r, s')" "wf_list s'"
    "(r, list_contents s') = list_reference op (list_contents s) \<or> r = (CLR_E_OUT_OF_MEMORY, None, None)"
    using list_step_ok [OF assms] unfolding list_ok_def by blast
  moreover have "fst (fst (list_reference op xs)) \<in> {S_OK, CLR_E_OUT_OF_RANGE}" for xs
    by (cases op) auto
  ultimately show ?thesis by (metis (no_types, lifting) fst_conv insert_iff prod.collapse)
qed

theorem array_list_step_typed_witness:
  "\<exists>hr v i s'. list_step roomy_heap (SetCapacity 1) \<lparr>l_items = small_array [3, 4, 0, 0], l_size = 2\<rparr> =
      Ret ((hr, v, i), s') \<and> wf_list s' \<and> hr \<in> {S_OK, CLR_E_OUT_OF_RANGE, CLR_E_OUT_OF_MEMORY}"
  by (rule array_list_step_typed)
    (simp_all add: wf_list_def wf_array_def small_array_def safe_length_def numeral_2_eq_2)

section \<open>Where the promise breaks\<close>

text \<open>
  \<open>Enqueue\<close> on a full queue. The queue moves to an array of twice the capacity, but because the
  copy to an array of objects has its arguments swapped the elements are not moved: the call
  succeeds, the queue ends with the new element, and every earlier element reads null.
\<close>

theorem queue_growth_loses_elements:
  assumes "wf_queue q" and "queue_free q = 0" and "m_Object_dataType h = DATATYPE_OBJECT"
    and "ExtractHeapBlocksForArray h (of_nat (2 * length (queue_contents q))) \<noteq> None"
  shows "\<exists>q'. Queue_Enqueue h v q = Ret ((S_OK, None), q') \<and>
    queue_contents q' = replicate (length (queue_contents q)) NULL @ [v]"
  using assms by (rule queue_growth)

theorem queue_growth_loses_elements_witness:
  "\<exists>q'. Queue_Enqueue roomy_heap 7
      \<lparr>q_array = small_array [3, 4], q_head = 1, q_tail = 1, q_size = 2\<rparr> = Ret ((S_OK, None), q') \<and>
    queue_contents q' = [NULL, NULL, 7]"
proof -
  let ?q = "\<lparr>q_array = small_array [3, 4], q_head = 1, q_tail = 1, q_size = 2\<rparr>"
  have c: "queue_contents ?q = [4, 3]"
    by (simp add: queue_contents_def queue_ring_def small_array_def)
  have "wf_queue ?q" "queue_free ?q = 0"
    by (simp_all add: wf_queue_def wf_array_def small_array_def m_numOfElements_def queue_ring_def
        queue_free_def)
  moreover have "ExtractHeapBlocksForArray roomy_heap (of_nat (2 * length (queue_contents ?q))) \<noteq> None"
    by (simp add: c ExtractHeapBlocksForArray_def roomy_heap_def CONVERTFROMSIZETOHEAPBLOCKS_def
        sizeof_HeapBlock_def sizeof_HeapBlock_Array_def HB_MaxSize_def)
  ultimately show ?thesis
    using queue_growth_loses_elements [of ?q roomy_heap 7] c
    by (simp add: roomy_heap_def numeral_2_eq_2)
qed

text \<open>
  Arrays are created whole as long as the size fits 32 bits; beyond that the size wraps around and
  the array is given fewer heap blocks than it has elements.
\<close>

theorem create_array_in_bounds:
  assumes "safe_length n" and "- (2 ^ 31) \<le> n"
  shows "CreateInstance h (word_of_int n) \<in>
    {Ret (Inl (if n < 0 then CLR_E_OUT_OF_RANGE else CLR_E_OUT_OF_MEMORY)),
     Ret (Inr \<lparr>m_typeOfElement = m_Object_dataType h, elements = replicate (nat n) NULL\<rparr>)}"
  by (cases rule: CreateInstance_cases [OF assms, of h]) simp_all

theorem create_array_overruns: "CreateInstance roomy_heap 0x15555556 = Fault BadIndex"
  by (simp add: CreateInstance_def ExtractHeapBlocksForArray_def roomy_heap_def
      CONVERTFROMSIZETOHEAPBLOCKS_def sizeof_HeapBlock_def sizeof_HeapBlock_Array_def HB_MaxSize_def)

text \<open>A negative index of \<open>CopyTo\<close> is not refused; the copy reads and writes outside the arrays.\<close>

theorem queue_copy_to_negative_index:
  "Queue_CopyTo roomy_heap (small_array [0, 0]) (- 1) ring_of_four = Fault BadIndex"
  by (rule copy_to_negative_index) (simp_all add: ring_of_four small_array_def)

end
