(* ===== verification/NF_Unicode.thy ===== *)
theory NF_Unicode
  imports NF_ObjArray
begin

text \<open>
  The conversions between UTF-8 and UTF-16 of the runtime (CLR_RT_UnicodeHelper.cpp). An input
  pointer is the list of what lies behind it, up to the end of the buffer: reading beyond that is a
  fault. An output pointer is a buffer, a position and the number of free units that the caller
  declared.
\<close>

section \<open>The code\<close>

definition SURROGATE_HALFBASE :: u32 where "SURROGATE_HALFBASE = 0x10000"
definition SURROGATE_HALFMASK :: u32 where "SURROGATE_HALFMASK = 0x3FF"
definition HIGH_SURROGATE_START :: u16 where "HIGH_SURROGATE_START = 0xD800"
definition HIGH_SURROGATE_END :: u16 where "HIGH_SURROGATE_END = 0xDBFF"
definition LOW_SURROGATE_START :: u16 where "LOW_SURROGATE_START = 0xDC00"
definition LOW_SURROGATE_END :: u16 where "LOW_SURROGATE_END = 0xDFFF"

lemmas surrogate_defs = SURROGATE_HALFBASE_def SURROGATE_HALFMASK_def HIGH_SURROGATE_START_def
  HIGH_SURROGATE_END_def LOW_SURROGATE_START_def LOW_SURROGATE_END_def

subsection \<open>Counting\<close>

definition UTF8_BAD_LOWPART :: "u8 \<Rightarrow> bool" where
  "UTF8_BAD_LOWPART ch \<longleftrightarrow> ch < 0x80 \<or> ch > 0xBF"

text \<open>\<open>UTF8_CHECK_LOWPART\<close>, so many times: \<open>None\<close> is the early return of -1.\<close>

fun check_lowparts :: "nat \<Rightarrow> u8 list \<Rightarrow> u8 list option c_result" where
  "check_lowparts 0 src = Ret (Some src)"
| "check_lowparts (Suc n) [] = Fault BadIndex"
| "check_lowparts (Suc n) (ch # src) =
     (if UTF8_BAD_LOWPART ch then Ret None else check_lowparts n src)"

lemma check_lowparts_length: "check_lowparts n src = Ret (Some src') \<Longrightarrow> length src' \<le> length src"
  by (induction n src rule: check_lowparts.induct) (auto split: if_splits)

text \<open>Lead byte: how many further bytes, and how many UTF-16 units the sequence stands for.\<close>

definition count_lead :: "u8 \<Rightarrow> (nat \<times> int) option" where
  "count_lead ch =
     (let hi = ch AND 0xF0 in
      if hi < 0x80 then Some (0, 1)
      else if hi < 0xC0 then None
      else if hi < 0xE0 then Some (1, 1)
      else if hi = 0xE0 then Some (2, 1)
      else Some (3, 2))"

function CountNumberOfCharacters_loop :: "int \<Rightarrow> int \<Rightarrow> u8 list \<Rightarrow> int c_result" where
  "CountNumberOfCharacters_loop m num [] = Fault BadIndex"
| "CountNumberOfCharacters_loop m num (ch # src) =
     (if ch = 0 then Ret num
      else if m = 0 then Ret num
      else case count_lead ch of
        None \<Rightarrow> Ret (- 1)
      | Some (n, units) \<Rightarrow>
          (case check_lowparts n src of
             Inl e \<Rightarrow> Inl e
           | Inr None \<Rightarrow> Ret (- 1)
           | Inr (Some src') \<Rightarrow> CountNumberOfCharacters_loop (m - 1) (num + units) src'))"
  by pat_completeness auto
termination
  by (relation "measure (\<lambda>(_, _, src). length src)") (auto dest: check_lowparts_length)

definition CountNumberOfCharacters :: "int \<Rightarrow> u8 list \<Rightarrow> int c_result" where
  "CountNumberOfCharacters m src = CountNumberOfCharacters_loop m 0 src"

fun CountNumberOfBytes_loop :: "int \<Rightarrow> int \<Rightarrow> u16 list \<Rightarrow> int c_result" where
  "CountNumberOfBytes_loop m num [] = Fault BadIndex"
| "CountNumberOfBytes_loop m num (ch # src) =
     (if ch = 0 then Ret num
      else if m = 0 then Ret num
      else if ch < 0x80 then CountNumberOfBytes_loop (m - 1) (num + 1) src
      else if ch < 0x800 then CountNumberOfBytes_loop (m - 1) (num + 2) src
      else if LOW_SURROGATE_START \<le> ch \<and> ch \<le> LOW_SURROGATE_END then Ret (- 1)
      else if HIGH_SURROGATE_START \<le> ch \<and> ch \<le> HIGH_SURROGATE_END then
        (case src of
           [] \<Rightarrow> Fault BadIndex
         | ch' # src' \<Rightarrow>
             if LOW_SURROGATE_START \<le> ch' \<and> ch' \<le> LOW_SURROGATE_END
             then CountNumberOfBytes_loop (m - 2) (num + 4) src'
             else Ret (- 1))
      else CountNumberOfBytes_loop (m - 1) (num + 3) src)"

definition CountNumberOfBytes :: "int \<Rightarrow> u16 list \<Rightarrow> int c_result" where
  "CountNumberOfBytes m src = CountNumberOfBytes_loop m 0 src"

subsection \<open>Output\<close>

record 'a out =
  o_buf :: "'a list"
  o_pos :: nat
  o_size :: int

definition put_units :: "'a list \<Rightarrow> 'a out \<Rightarrow> 'a out c_result" where
  "put_units xs out =
     (if o_pos out + length xs \<le> length (o_buf out)
      then Ret (out\<lparr>o_buf := overwrite (o_buf out) (o_pos out) xs, o_pos := o_pos out + length xs,
        o_size := o_size out - int (length xs)\<rparr>)
      else Fault BadIndex)"

text \<open>The end of both conversions: a terminator behind the output, which the pointer stays before.\<close>

definition put_terminator :: "'a \<Rightarrow> bool \<Rightarrow> 'a out \<Rightarrow> (bool \<times> 'a out) c_result" where
  "put_terminator z fJustMove out =
     (if fJustMove then Ret (True, out)
      else if o_size out < 1 then Ret (False, out)
      else c_bind (put_units [z] out) (\<lambda>out'. Ret (True, out\<lparr>o_buf := o_buf out'\<rparr>)))"

subsection \<open>From UTF-8\<close>

text \<open>
  The \<open>switch\<close> on the lead byte: the conversion ends, behind the byte or with the byte un-read, or
  a sequence of so many bytes begins, which becomes so many units; the mask is for the lead byte.
\<close>

datatype utf8_lead = Reject | Unread | Sequence nat nat u32

definition convert_lead :: "u8 \<Rightarrow> utf8_lead" where
  "convert_lead ch =
     (let hi = ch AND 0xF0 in
      if hi < 0x80 then (if ch = 0 then Unread else Sequence 1 1 0x7F)
      else if hi < 0xC0 then Reject
      else if hi < 0xE0 then (if ch < 0xC2 then Unread else Sequence 2 1 0x1F)
      else if hi = 0xE0 then Sequence 3 1 0x0F
      else if ch \<ge> 0xF5 then Unread else Sequence 4 2 0x07)"

definition UTF8_LOAD_LOWPART :: "u8 \<Rightarrow> u32 \<Rightarrow> u32" where
  "UTF8_LOAD_LOWPART ch ch2 = push_bit 6 ch2 OR (ucast ch AND 0x3F)"

definition utf16_units :: "nat \<Rightarrow> u32 \<Rightarrow> u16 list" where
  "utf16_units k ch2 =
     (if k = 1 then [ucast ch2]
      else [ucast (drop_bit 10 ch2 + ucast HIGH_SURROGATE_START),
            ucast ((ch2 AND SURROGATE_HALFMASK) + ucast LOW_SURROGATE_START)])"

lemma convert_lead_units: "convert_lead ch = Sequence n k m \<Longrightarrow> 0 < n \<and> 0 < k"
  by (auto simp: convert_lead_def Let_def split: if_splits)

function ConvertFromUTF8_loop ::
    "bool \<Rightarrow> int \<Rightarrow> int \<Rightarrow> u8 list \<Rightarrow> u16 out \<Rightarrow> (bool \<times> u8 list \<times> u16 out) c_result" where
  "ConvertFromUTF8_loop fJustMove iMaxChars iMaxBytes src out =
     (if iMaxChars > 0 \<and> iMaxBytes > 0 then
        (case src of
           [] \<Rightarrow> Fault BadIndex
         | ch # src' \<Rightarrow>
             (case convert_lead ch of
                Reject \<Rightarrow> Ret (False, src', out)
              | Unread \<Rightarrow> Ret (False, src, out)
              | Sequence n k m \<Rightarrow>
                  if iMaxBytes < int n then Ret (False, src, out)
                  else if \<not> fJustMove \<and> o_size out < int k then Ret (False, src, out)
                  else if length src' < n - 1 then Fault BadIndex
                  else case (if fJustMove then Ret out
                      else put_units (utf16_units k
                        (fold UTF8_LOAD_LOWPART (take (n - 1) src') (ucast ch AND m))) out) of
                    Inl e \<Rightarrow> Inl e
                  | Inr out' \<Rightarrow> ConvertFromUTF8_loop fJustMove (iMaxChars - int k) (iMaxBytes - int n)
                      (drop (n - 1) src') out'))
      else Ret (True, src, out))"
  by pat_completeness auto
termination
  by (relation "measure (\<lambda>(_, iMaxChars, _). nat iMaxChars)") (auto dest: convert_lead_units)

declare ConvertFromUTF8_loop.simps [simp del]

definition ConvertFromUTF8 ::
    "int \<Rightarrow> bool \<Rightarrow> int \<Rightarrow> u8 list \<Rightarrow> u16 out \<Rightarrow> (bool \<times> u8 list \<times> u16 out) c_result" where
  "ConvertFromUTF8 iMaxChars fJustMove iMaxBytes src out =
     c_bind (ConvertFromUTF8_loop fJustMove iMaxChars
        (if iMaxBytes = - 1 then s32 (iMaxChars * 3) else iMaxBytes) src out) (\<lambda>(ok, src', out').
     if ok then c_bind (put_terminator 0 fJustMove out') (\<lambda>(res, out''). Ret (res, src', out''))
     else Ret (False, src', out'))"

subsection \<open>To UTF-8\<close>

text \<open>The bytes written for one character; the last one is written first and the rest shifted.\<close>

definition utf8_low :: "u32 \<Rightarrow> u8" where
  "utf8_low ch = ucast (0x80 OR (ch AND 0x3F))"

definition utf8_bytes :: "nat \<Rightarrow> u32 \<Rightarrow> u8 list" where
  "utf8_bytes n ch =
     (if n = 1 then [ucast ch]
      else if n = 2 then [ucast (0xC0 OR (drop_bit 6 ch AND 0x1F)), utf8_low ch]
      else if n = 3 then [ucast (0xE0 OR (drop_bit 12 ch AND 0x0F)), utf8_low (drop_bit 6 ch), utf8_low ch]
      else [ucast (0xF0 OR (drop_bit 18 ch AND 0x07)), utf8_low (drop_bit 12 ch),
            utf8_low (drop_bit 6 ch), utf8_low ch])"

text \<open>One character: how many units it is, how many bytes it takes, its code and what follows it.\<close>

definition utf16_char :: "u16 \<Rightarrow> u16 list \<Rightarrow> (nat \<times> nat \<times> u32 \<times> u16 list) c_result" where
  "utf16_char unit src =
     (let ch = ucast unit :: u32 in
      if ch < 0x80 then Ret (1, 1, ch, src)
      else if ch < 0x800 then Ret (1, 2, ch, src)
      else if HIGH_SURROGATE_START \<le> unit \<and> unit \<le> HIGH_SURROGATE_END then
        (case src of
           [] \<Rightarrow> Fault BadIndex
         | unit' # src' \<Rightarrow>
             Ret (2, 4, SURROGATE_HALFBASE + push_bit 10 (ch - ucast HIGH_SURROGATE_START) +
               (ucast unit' - ucast LOW_SURROGATE_START), src'))
      else Ret (1, 3, ch, src))"

lemma utf16_char_units: "utf16_char unit src = Ret (k, n, ch, rest) \<Longrightarrow> 0 < k"
  by (auto simp: utf16_char_def Let_def split: if_splits list.splits)

function ConvertToUTF8_loop ::
    "bool \<Rightarrow> int \<Rightarrow> u16 list \<Rightarrow> u8 out \<Rightarrow> (bool \<times> u16 list \<times> u8 out) c_result" where
  "ConvertToUTF8_loop fJustMove iMaxChars src out =
     (if iMaxChars > 0 then
        (case src of
           [] \<Rightarrow> Fault BadIndex
         | unit # src' \<Rightarrow>
             if unit = 0 then Ret (True, src', out)
             else (case utf16_char unit src' of
                 Inl e \<Rightarrow> Inl e
               | Inr (k, n, ch, rest) \<Rightarrow>
                   if \<not> fJustMove \<and> o_size out < int n then Ret (False, rest, out)
                   else (case (if fJustMove then Ret out else put_units (utf8_bytes n ch) out) of
                       Inl e \<Rightarrow> Inl e
                     | Inr out' \<Rightarrow> ConvertToUTF8_loop fJustMove (iMaxChars - int k) rest out')))
      else Ret (True, src, out))"
  by pat_completeness auto
termination
  by (relation "measure (\<lambda>(_, iMaxChars, _). nat iMaxChars)") (auto dest: utf16_char_units)

declare ConvertToUTF8_loop.simps [simp del]

definition ConvertToUTF8 ::
    "int \<Rightarrow> bool \<Rightarrow> u16 list \<Rightarrow> u8 out \<Rightarrow> (bool \<times> u16 list \<times> u8 out) c_result" where
  "ConvertToUTF8 iMaxChars fJustMove src out =
     c_bind (ConvertToUTF8_loop fJustMove iMaxChars src out) (\<lambda>(ok, src', out').
     if ok then c_bind (put_terminator 0 fJustMove out') (\<lambda>(res, out''). Ret (res, src', out''))
     else Ret (False, src', out'))"

subsection \<open>Moving back\<close>

text \<open>
  The string and the position in it. Whether \<open>char\<close> is signed depends on the target; the test of
  the byte is made on the promoted value.
\<close>

definition promote_char :: "bool \<Rightarrow> u8 \<Rightarrow> u32" where
  "promote_char char_signed b = (if char_signed then scast b else ucast b)"

definition utf8_start_test :: "u32 \<Rightarrow> bool" where
  "utf8_start_test current \<longleftrightarrow>
     current AND 0x10000000 = 0x00000000 \<or> current AND 0x11000000 = 0x11000000"

fun MoveBackward_loop :: "bool \<Rightarrow> u8 list \<Rightarrow> nat \<Rightarrow> int \<Rightarrow> (bool \<times> nat) c_result" where
  "MoveBackward_loop cs str 0 iMaxChars = Fault BadIndex"
| "MoveBackward_loop cs str (Suc pos) iMaxChars =
     c_bind (c_index str pos) (\<lambda>b.
     let iMaxChars = (if utf8_start_test (promote_char cs b) then iMaxChars - 1 else iMaxChars) in
     if iMaxChars = 0 then Ret (True, pos)
     else if pos = 0 then Ret (False, pos)
     else MoveBackward_loop cs str pos iMaxChars)"

definition MoveBackwardInUTF8 :: "bool \<Rightarrow> u8 list \<Rightarrow> nat \<Rightarrow> int \<Rightarrow> (bool \<times> nat) c_result" where
  "MoveBackwardInUTF8 cs str pos iMaxChars =
     (if pos = 0 \<or> iMaxChars < 1 then Ret (False, pos) else MoveBackward_loop cs str pos iMaxChars)"

subsection \<open>Assigning a string\<close>

text \<open>
  \<open>UnicodeString::Assign\<close>: the code, the length and, where it was allocated, the buffer. \<open>Allocate\<close>
  gives a buffer of unknown content or nothing.
\<close>

definition UnicodeString_Assign ::
    "(nat \<Rightarrow> u16 list option) \<Rightarrow> u8 list \<Rightarrow> (hresult \<times> int \<times> u16 list option) c_result" where
  "UnicodeString_Assign Allocate str =
     c_bind (CountNumberOfCharacters (- 1) str) (\<lambda>len.
     if len < 0 then Ret (CLR_E_INVALID_PARAMETER, len, None)
     else case Allocate (nat len + 1) of
       None \<Rightarrow> Ret (CLR_E_OUT_OF_MEMORY, len, None)
     | Some buf \<Rightarrow>
         c_bind (ConvertFromUTF8 len False (- 1) str \<lparr>o_buf = buf, o_pos = 0, o_size = len + 1\<rparr>)
           (\<lambda>(_, _, out).
         if nat len < length (o_buf out) then Ret (S_OK, len, Some ((o_buf out)[nat len := 0]))
         else Fault BadIndex))"

end
