(* ===== verification/NF_UnicodeProps.thy ===== *)
theory NF_UnicodeProps
  imports NF_Unicode
begin

text \<open>
  The conversions against the definition of the two encodings on code points: UTF-16 to UTF-8 is
  right for every string, counting is right in both directions, UTF-8 to UTF-16 is right for the
  basic plane, and above it every code point comes out \<open>0x10000\<close> too high.
\<close>

section \<open>The encodings\<close>

definition scalar_value :: "nat \<Rightarrow> bool" where
  "scalar_value c \<longleftrightarrow> 0 < c \<and> c < 0x110000 \<and> (c < 0xD800 \<or> 0xE000 \<le> c)"

definition utf8_of :: "nat \<Rightarrow> u8 list" where
  "utf8_of c =
     (if c < 0x80 then [of_nat c]
      else if c < 0x800 then [of_nat (0xC0 + c div 64), of_nat (0x80 + c mod 64)]
      else if c < 0x10000 then
        [of_nat (0xE0 + c div 64 div 64), of_nat (0x80 + c div 64 mod 64), of_nat (0x80 + c mod 64)]
      else [of_nat (0xF0 + c div 64 div 64 div 64), of_nat (0x80 + c div 64 div 64 mod 64),
            of_nat (0x80 + c div 64 mod 64), of_nat (0x80 + c mod 64)])"

definition utf16_of :: "nat \<Rightarrow> u16 list" where
  "utf16_of c =
     (if c < 0x10000 then [of_nat c]
      else [of_nat (0xD800 + (c - 0x10000) div 0x400), of_nat (0xDC00 + (c - 0x10000) mod 0x400)])"

definition utf8_string :: "nat list \<Rightarrow> u8 list" where
  "utf8_string cs = concat (map utf8_of cs)"

definition utf16_string :: "nat list \<Rightarrow> u16 list" where
  "utf16_string cs = concat (map utf16_of cs)"

lemma string_simps [simp]:
  "utf8_string [] = []" "utf8_string (c # cs) = utf8_of c @ utf8_string cs"
  "utf16_string [] = []" "utf16_string (c # cs) = utf16_of c @ utf16_string cs"
  by (simp_all add: utf8_string_def utf16_string_def)

section \<open>Bits\<close>

lemma masks:
  "(x :: u32) AND 0x3F = take_bit 6 x" "(x :: u32) AND 0x1F = take_bit 5 x"
  "(x :: u32) AND 0x0F = take_bit 4 x" "(x :: u32) AND 0x07 = take_bit 3 x"
  "(x :: u32) AND 0x7F = take_bit 7 x" "(x :: u32) AND 0x3FF = take_bit 10 x"
  by (simp_all add: take_bit_eq_mask mask_eq_exp_minus_1)

lemma shift_or: "v < 2 ^ k \<Longrightarrow> push_bit k w OR v = push_bit k w + (v :: nat)"
  by (rule disjunctive_add [symmetric]) (metis bit_push_bit_iff bit_take_bit_iff not_le take_bit_nat_eq_self)

lemma word_via_unat: "unat (x :: 'a::len word) = n \<Longrightarrow> x = of_nat n"
  by auto

lemma unat_small: "n < 2 ^ 32 \<Longrightarrow> unat (of_nat n :: u32) = n"
  by (simp add: unat_of_nat)

lemma take_bit_u32: "n < 2 ^ 32 \<Longrightarrow> take_bit k (of_nat n :: u32) = of_nat (n mod 2 ^ k)"
  by (rule word_via_unat) (simp only: unsigned_take_bit_eq unat_small take_bit_nat_def)

lemma drop_bit_u32: "n < 2 ^ 32 \<Longrightarrow> drop_bit k (of_nat n :: u32) = of_nat (n div 2 ^ k)"
  by (rule word_via_unat) (simp only: unat_drop_bit_eq unat_small drop_bit_nat_def)

lemma or_u32:
  assumes "v < 2 ^ k" and "w * 2 ^ k + v < 2 ^ 32"
  shows "of_nat (w * 2 ^ k) OR of_nat v = (of_nat (w * 2 ^ k + v) :: u32)"
proof (rule word_via_unat)
  have "unat (of_nat (w * 2 ^ k) OR of_nat v :: u32) = w * 2 ^ k OR v"
    using assms(2) by (simp only: unsigned_or_eq) (simp only: unat_small)
  then show "unat (of_nat (w * 2 ^ k) OR of_nat v :: u32) = w * 2 ^ k + v"
    using shift_or [OF assms(1), of w] by (simp add: push_bit_eq_mult)
qed

lemma push_bit_u32: "push_bit k (of_nat n :: u32) = of_nat (n * 2 ^ k)"
  by (simp add: push_bit_eq_mult)

lemma ucast_u8: "n < 2 ^ 32 \<Longrightarrow> ucast (of_nat n :: u32) = (of_nat n :: u8)"
  by (simp add: unsigned_of_nat take_bit_nat_eq_self)

lemma ucast_u16: "n < 2 ^ 32 \<Longrightarrow> ucast (of_nat n :: u32) = (of_nat n :: u16)"
  by (simp add: unsigned_of_nat take_bit_nat_eq_self)

lemma ucast_from_u8: "n < 256 \<Longrightarrow> ucast (of_nat n :: u8) = (of_nat n :: u32)"
  by (simp add: unsigned_of_nat take_bit_nat_eq_self)

lemma ucast_from_u16: "n < 65536 \<Longrightarrow> ucast (of_nat n :: u16) = (of_nat n :: u32)"
  by (simp add: unsigned_of_nat take_bit_nat_eq_self)

lemma u8_less: "n < 256 \<Longrightarrow> m < 256 \<Longrightarrow> (of_nat n :: u8) < of_nat m \<longleftrightarrow> n < m"
  by (simp add: word_less_nat_alt unat_of_nat)

lemma u16_less: "n < 65536 \<Longrightarrow> m < 65536 \<Longrightarrow> (of_nat n :: u16) < of_nat m \<longleftrightarrow> n < m"
  by (simp add: word_less_nat_alt unat_of_nat)

lemma u16_le: "n < 65536 \<Longrightarrow> m < 65536 \<Longrightarrow> (of_nat n :: u16) \<le> of_nat m \<longleftrightarrow> n \<le> m"
  by (simp add: word_le_nat_alt unat_of_nat)

section \<open>Bytes and values\<close>

lemma utf8_low_of_nat:
  assumes "n < 2 ^ 32" shows "utf8_low (of_nat n) = of_nat (0x80 + n mod 64)"
proof -
  have "(0x80 :: u32) = of_nat (2 * 2 ^ 6)" by simp
  then have "(0x80 :: u32) OR of_nat (n mod 2 ^ 6) = of_nat (2 * 2 ^ 6 + n mod 2 ^ 6)"
    using or_u32 [of "n mod 2 ^ 6" 6 2] by simp
  then have "utf8_low (of_nat n) = ucast (of_nat (2 * 2 ^ 6 + n mod 2 ^ 6) :: u32)"
    unfolding utf8_low_def masks take_bit_u32 [OF assms] by (simp only:)
  also have "\<dots> = of_nat (2 * 2 ^ 6 + n mod 2 ^ 6)" by (rule ucast_u8) simp
  finally show ?thesis by simp
qed

lemma lead_of_nat:
  assumes "w * 2 ^ k + v < 256" and "v < 2 ^ k"
  shows "ucast (of_nat (w * 2 ^ k) OR take_bit k (of_nat v) :: u32) = (of_nat (w * 2 ^ k + v) :: u8)"
proof -
  have lim: "w * 2 ^ k + v < 2 ^ 32" "v < 2 ^ 32" using assms(1) by simp_all
  have "take_bit k (of_nat v :: u32) = of_nat v" using assms(2) take_bit_u32 [OF lim(2)] by simp
  then show ?thesis using or_u32 [OF assms(2) lim(1)] ucast_u8 [OF lim(1)] by (simp only:)
qed

lemma low_value: "n < 256 \<Longrightarrow> (ucast (of_nat n :: u8) AND 0x3F :: u32) = of_nat (n mod 64)"
  unfolding masks by (subst ucast_from_u8, assumption, subst take_bit_u32) simp_all

lemma UTF8_LOAD_LOWPART_of_nat:
  assumes "w * 64 + v < 2 ^ 32" and "v < 64"
  shows "UTF8_LOAD_LOWPART (of_nat (0x80 + v)) (of_nat w) = of_nat (w * 64 + v)"
proof -
  have "(ucast (of_nat (0x80 + v) :: u8) AND 0x3F :: u32) = of_nat ((0x80 + v) mod 64)"
    by (rule low_value) (use assms in simp)
  also have "(0x80 + v) mod 64 = v" using assms(2) by (simp add: mod_if)
  finally have l: "(ucast (of_nat (0x80 + v) :: u8) AND 0x3F :: u32) = of_nat v" .
  have "(2 :: nat) ^ 6 = 64" by simp
  then show ?thesis using or_u32 [of v 6 w] assms
    unfolding UTF8_LOAD_LOWPART_def push_bit_u32 l by (simp only:)
qed

lemma u8_eq: "n < 256 \<Longrightarrow> m < 256 \<Longrightarrow> (of_nat n :: u8) = of_nat m \<longleftrightarrow> n = m"
  by (simp add: word_unat_eq_iff unat_of_nat)

lemma and_high_nibble: "(x :: u8) AND 0xF0 = push_bit 4 (drop_bit 4 x)"
proof -
  have "x AND NOT (mask 4) = push_bit 4 (drop_bit 4 x)"
    by (auto intro!: bit_word_eqI simp: bit_simps)
  moreover have "NOT (mask 4) = (0xF0 :: u8)" by (simp add: mask_eq_exp_minus_1)
  ultimately show ?thesis by (simp only:)
qed

lemma nibble_less: "n div 16 * 16 < m * 16 \<longleftrightarrow> n < m * (16 :: nat)"
  by (simp add: div_less_iff_less_mult)

lemma high_nibble:
  assumes "n < 256" shows "(of_nat n :: u8) AND 0xF0 = of_nat (n div 16 * 16)"
proof -
  have "unat (drop_bit 4 (of_nat n :: u8)) = n div 2 ^ 4"
    using assms by (simp add: unat_drop_bit_eq unat_of_nat drop_bit_nat_def)
  then have "drop_bit 4 (of_nat n :: u8) = of_nat (n div 2 ^ 4)" by (rule word_via_unat)
  then show ?thesis unfolding and_high_nibble by (simp add: push_bit_eq_mult)
qed

lemma lead_nibble:
  assumes "n < 256"
  shows "(of_nat n :: u8) AND 0xF0 < 0x80 \<longleftrightarrow> n < 0x80" "(of_nat n :: u8) AND 0xF0 < 0xC0 \<longleftrightarrow> n < 0xC0"
    "(of_nat n :: u8) AND 0xF0 < 0xE0 \<longleftrightarrow> n < 0xE0"
    "(of_nat n :: u8) AND 0xF0 = 0xE0 \<longleftrightarrow> \<not> n < 0xE0 \<and> n < 0xF0"
proof -
  have hi: "n div 16 * 16 < 256" using assms by simp
  have less: "(of_nat n :: u8) AND 0xF0 < of_nat (m * 16) \<longleftrightarrow> n < m * 16" if "m < 16" for m
    unfolding high_nibble [OF assms] using u8_less [OF hi, of "m * 16"] nibble_less [of n m] that by simp
  show "(of_nat n :: u8) AND 0xF0 < 0x80 \<longleftrightarrow> n < 0x80" "(of_nat n :: u8) AND 0xF0 < 0xC0 \<longleftrightarrow> n < 0xC0"
    "(of_nat n :: u8) AND 0xF0 < 0xE0 \<longleftrightarrow> n < 0xE0"
    using less [of 8] less [of 12] less [of 14] by simp_all
  have "a * 16 = 14 * 16 \<longleftrightarrow> \<not> a * 16 < 14 * 16 \<and> a * 16 < 15 * (16 :: nat)" for a by auto
  then have "n div 16 * 16 = 224 \<longleftrightarrow> \<not> n < 224 \<and> n < 240"
    using nibble_less [of n 14] nibble_less [of n 15] by simp
  then show "(of_nat n :: u8) AND 0xF0 = 0xE0 \<longleftrightarrow> \<not> n < 0xE0 \<and> n < 0xF0"
    unfolding high_nibble [OF assms] using u8_eq [OF hi, of 224] by simp
qed

lemma convert_lead_of_nat:
  assumes "n < 256"
  shows "convert_lead (of_nat n) =
     (if n < 0x80 then (if n = 0 then Unread else Sequence 1 1 0x7F)
      else if n < 0xC0 then Reject
      else if n < 0xE0 then (if n < 0xC2 then Unread else Sequence 2 1 0x1F)
      else if n < 0xF0 then Sequence 3 1 0x0F
      else if n \<ge> 0xF5 then Unread else Sequence 4 2 0x07)"
proof -
  have c: "(of_nat n :: u8) = 0 \<longleftrightarrow> n = 0" "(of_nat n :: u8) < 0xC2 \<longleftrightarrow> n < 0xC2"
    "(of_nat n :: u8) \<ge> 0xF5 \<longleftrightarrow> n \<ge> 0xF5"
    using u8_eq [OF assms, of 0] u8_less [OF assms, of 194] u8_less [OF assms, of 245]
    by (simp_all add: linorder_not_less [symmetric])
  show ?thesis unfolding convert_lead_def Let_def lead_nibble [OF assms] c by simp
qed

lemma count_lead_of_nat:
  assumes "n < 256"
  shows "count_lead (of_nat n) =
     (if n < 0x80 then Some (0, 1) else if n < 0xC0 then None else if n < 0xE0 then Some (1, 1)
      else if n < 0xF0 then Some (2, 1) else Some (3, 2))"
  unfolding count_lead_def Let_def lead_nibble [OF assms] by simp

lemma good_lowpart: "v < 64 \<Longrightarrow> \<not> UTF8_BAD_LOWPART (of_nat (0x80 + v))"
  using u8_less [of "0x80 + v" 128] u8_less [of 191 "0x80 + v"] by (simp add: UTF8_BAD_LOWPART_def)

section \<open>One character to UTF-8\<close>

lemma utf8_bytes_of_nat:
  assumes "c < 0x110000" shows "utf8_bytes (length (utf8_of c)) (of_nat c) = utf8_of c"
proof -
  have c: "c < 2 ^ 32" "c div 2 ^ 6 < 2 ^ 32" "c div 2 ^ 12 < 2 ^ 32" "c div 2 ^ 18 < 2 ^ 32"
    using assms by (simp_all add: div_less_iff_less_mult)
  have d: "c div 64 div 64 = c div 4096" "c div 64 div 64 div 64 = c div 262144"
    "c div 4096 div 64 = c div 262144"
    by (simp_all add: div_mult2_eq [symmetric])
  note low = utf8_low_of_nat [OF c(1)] utf8_low_of_nat [OF c(2)] utf8_low_of_nat [OF c(3)]
  consider "c < 0x80" | "0x80 \<le> c" "c < 0x800" | "0x800 \<le> c" "c < 0x10000" | "0x10000 \<le> c"
    by linarith
  then show ?thesis
  proof cases
    case 1
    then show ?thesis using ucast_u8 [OF c(1)] by (simp add: utf8_bytes_def utf8_of_def)
  next
    case 2
    have "c div 2 ^ 6 < 2 ^ 5" using 2 by (simp add: div_less_iff_less_mult)
    then have "ucast (of_nat (6 * 2 ^ 5) OR take_bit 5 (of_nat (c div 2 ^ 6)) :: u32) =
        (of_nat (6 * 2 ^ 5 + c div 2 ^ 6) :: u8)" by (intro lead_of_nat) simp_all
    then show ?thesis using 2 low
      by (simp add: utf8_bytes_def utf8_of_def masks drop_bit_u32 [OF c(1)] d)
  next
    case 3
    have "c div 2 ^ 12 < 2 ^ 4" using 3 by (simp add: div_less_iff_less_mult)
    then have "ucast (of_nat (14 * 2 ^ 4) OR take_bit 4 (of_nat (c div 2 ^ 12)) :: u32) =
        (of_nat (14 * 2 ^ 4 + c div 2 ^ 12) :: u8)" by (intro lead_of_nat) simp_all
    then show ?thesis using 3 low
      by (simp add: utf8_bytes_def utf8_of_def masks drop_bit_u32 [OF c(1)] d)
  next
    case 4
    have "c div 2 ^ 18 < 2 ^ 3" using assms by (simp add: div_less_iff_less_mult)
    then have "ucast (of_nat (30 * 2 ^ 3) OR take_bit 3 (of_nat (c div 2 ^ 18)) :: u32) =
        (of_nat (30 * 2 ^ 3 + c div 2 ^ 18) :: u8)" by (intro lead_of_nat) simp_all
    then show ?thesis using 4 low
      by (simp add: utf8_bytes_def utf8_of_def masks drop_bit_u32 [OF c(1)] d)
  qed
qed

lemma u32_less: "n < 2 ^ 32 \<Longrightarrow> m < 2 ^ 32 \<Longrightarrow> (of_nat n :: u32) < of_nat m \<longleftrightarrow> n < m"
  by (simp only: word_less_nat_alt unat_small)

lemma utf16_char_BMP:
  assumes "scalar_value c" and "c < 0x10000"
  shows "utf16_char (of_nat c) src = Ret (1, length (utf8_of c), of_nat c, src)"
proof -
  have "\<not> (HIGH_SURROGATE_START \<le> of_nat c \<and> (of_nat c :: u16) \<le> HIGH_SURROGATE_END)"
    using assms u16_le [of "0xD800" c] u16_le [of c "0xDBFF"]
    by (auto simp: surrogate_defs scalar_value_def)
  moreover have "(of_nat c :: u32) < 0x80 \<longleftrightarrow> c < 0x80" "(of_nat c :: u32) < 0x800 \<longleftrightarrow> c < 0x800"
    using assms(2) u32_less [of c "0x80"] u32_less [of c "0x800"] by simp_all
  ultimately show ?thesis using assms(2)
    by (auto simp: utf16_char_def Let_def ucast_from_u16 utf8_of_def)
qed

lemma utf16_char_pair:
  assumes "0x10000 \<le> c" and "c < 0x110000"
  shows "utf16_char (of_nat (0xD800 + (c - 0x10000) div 0x400)) (of_nat (0xDC00 + (c - 0x10000) mod 0x400) # src) =
    Ret (2, 4, of_nat c, src)"
proof -
  define h where "h = (c - 0x10000) div 0x400"
  define l where "l = (c - 0x10000) mod 0x400"
  have h: "h < 0x400" using assms by (simp add: h_def div_less_iff_less_mult)
  have l: "l < 0x400" by (simp add: l_def)
  have c: "0x10000 + h * 0x400 + l = c" using assms(1) by (simp add: h_def l_def)
  have hu: "ucast (of_nat (0xD800 + h) :: u16) = (of_nat (0xD800 + h) :: u32)"
    and lu: "ucast (of_nat (0xDC00 + l) :: u16) = (of_nat (0xDC00 + l) :: u32)"
    using h l by (intro ucast_from_u16; simp)+
  have ge: "\<not> (of_nat (0xD800 + h) :: u32) < 0x80" "\<not> (of_nat (0xD800 + h) :: u32) < 0x800"
    using h u32_less [of "0xD800 + h" "0x80"] u32_less [of "0xD800 + h" "0x800"] by simp_all
  have s: "HIGH_SURROGATE_START \<le> of_nat (0xD800 + h)" "of_nat (0xD800 + h) \<le> HIGH_SURROGATE_END"
    using h u16_le [of "0xD800" "0xD800 + h"] u16_le [of "0xD800 + h" "0xDBFF"] by (simp_all add: surrogate_defs)
  have "SURROGATE_HALFBASE + push_bit 10 (of_nat (0xD800 + h) - ucast HIGH_SURROGATE_START) +
      (of_nat (0xDC00 + l) - ucast LOW_SURROGATE_START) = (of_nat c :: u32)"
    unfolding c [symmetric] by (simp add: surrogate_defs push_bit_eq_mult)
  then show ?thesis
    unfolding utf16_char_def Let_def h_def [symmetric] l_def [symmetric] hu using ge s lu by simp
qed

section \<open>Output buffers\<close>

text \<open>The buffer holds what was written and has room for more; the declared size is the true one.\<close>

definition out_at :: "'a list \<Rightarrow> 'a list \<Rightarrow> 'a out \<Rightarrow> bool" where
  "out_at ws free out \<longleftrightarrow> o_buf out = ws @ free \<and> o_pos out = length ws \<and> o_size out = int (length free)"

lemma put_units_at:
  assumes "out_at ws free out" and "length xs \<le> length free"
  shows "\<exists>out'. put_units xs out = Ret out' \<and> out_at (ws @ xs) (drop (length xs) free) out'"
  using assms by (auto simp: put_units_def out_at_def overwrite_def)

lemma put_terminator_at:
  assumes "out_at ws (x # free) out"
  shows "\<exists>out'. put_terminator z False out = Ret (True, out') \<and> o_buf out' = ws @ z # free \<and>
    o_pos out' = length ws \<and> o_size out' = int (Suc (length free))"
  using assms by (auto simp: put_terminator_def put_units_def out_at_def overwrite_def)

section \<open>Strings to UTF-8\<close>

lemma utf16_of_cases:
  assumes "scalar_value c"
  obtains (BMP) "c < 0x10000" "utf16_of c = [of_nat c]" "length (utf16_of c) = 1"
  | (pair) "0x10000 \<le> c" "c < 0x110000" "length (utf16_of c) = 2" "length (utf8_of c) = 4"
      "utf16_of c = [of_nat (0xD800 + (c - 0x10000) div 0x400), of_nat (0xDC00 + (c - 0x10000) mod 0x400)]"
  using assms by (cases "c < 0x10000") (auto simp: utf16_of_def utf8_of_def scalar_value_def)

lemma utf16_char_of:
  assumes "scalar_value c"
  obtains unit src' where "utf16_of c @ src = unit # src'" "unit \<noteq> 0"
    "utf16_char unit src' = Ret (length (utf16_of c), length (utf8_of c), of_nat c, src)"
proof (rule utf16_of_cases [OF assms])
  assume c: "c < 0x10000" "utf16_of c = [of_nat c]" "length (utf16_of c) = 1"
  have "(of_nat c :: u16) \<noteq> 0"
    using c(1) assms by (simp add: word_unat_eq_iff unat_of_nat scalar_value_def)
  then show thesis using that [of "of_nat c" src] c utf16_char_BMP [OF assms c(1), of src] by simp
next
  let ?h = "0xD800 + (c - 0x10000) div 0x400"
  assume c: "0x10000 \<le> c" "c < 0x110000" "length (utf16_of c) = 2" "length (utf8_of c) = 4"
    "utf16_of c = [of_nat ?h, of_nat (0xDC00 + (c - 0x10000) mod 0x400)]"
  have "?h < 2 ^ 16" using c(2) by (simp add: div_less_iff_less_mult)
  then have "unat (of_nat ?h :: u16) = ?h" by (simp only: unat_of_nat) simp
  then have "(of_nat ?h :: u16) \<noteq> 0" by (metis add_is_0 unat_0 zero_neq_numeral)
  then show thesis
    using that [of "of_nat ?h" "of_nat (0xDC00 + (c - 0x10000) mod 0x400) # src"] c
      utf16_char_pair [OF c(1,2), of src] by simp
qed

lemma to_utf8_string:
  assumes "\<forall>c \<in> set cs. scalar_value c" and "out_at ws free out"
    and "length (utf8_string cs) \<le> length free" and "int (length (utf16_string cs)) \<le> m"
  shows "\<exists>out'. ConvertToUTF8_loop False m (utf16_string cs @ src) out =
      ConvertToUTF8_loop False (m - int (length (utf16_string cs))) src out' \<and>
      out_at (ws @ utf8_string cs) (drop (length (utf8_string cs)) free) out'"
  using assms
proof (induction cs arbitrary: ws free out m)
  case Nil
  then show ?case by auto
next
  case (Cons c cs)
  have c: "scalar_value c" "c < 0x110000" using Cons.prems(1) by (simp_all add: scalar_value_def)
  obtain unit src' where u: "utf16_of c @ (utf16_string cs @ src) = unit # src'" "unit \<noteq> 0"
    "utf16_char unit src' =
      Ret (length (utf16_of c), length (utf8_of c), of_nat c, utf16_string cs @ src)"
    by (rule utf16_char_of [OF c(1)])
  have k: "0 < length (utf16_of c)" by (simp add: utf16_of_def)
  obtain out1 where o1: "put_units (utf8_of c) out = Ret out1"
    "out_at (ws @ utf8_of c) (drop (length (utf8_of c)) free) out1"
    using put_units_at [OF Cons.prems(2), of "utf8_of c"] Cons.prems(3) by auto
  have "\<not> o_size out < int (length (utf8_of c))"
    using Cons.prems(2,3) by (simp add: out_at_def)
  moreover have "int (length (utf16_of c)) + int (length (utf16_string cs)) \<le> m"
    using Cons.prems(4) by simp
  then have "0 < m" using k by linarith
  ultimately have "ConvertToUTF8_loop False m (utf16_string (c # cs) @ src) out =
      ConvertToUTF8_loop False (m - int (length (utf16_of c))) (utf16_string cs @ src) out1"
    using u o1(1) utf8_bytes_of_nat [OF c(2)] by (subst ConvertToUTF8_loop.simps) simp
  moreover have l: "length (utf8_string cs) \<le> length (drop (length (utf8_of c)) free)"
    using Cons.prems(3) by simp
  moreover obtain out2 where
    "ConvertToUTF8_loop False (m - int (length (utf16_of c))) (utf16_string cs @ src) out1 =
      ConvertToUTF8_loop False (m - int (length (utf16_of c)) - int (length (utf16_string cs))) src out2"
    "out_at ((ws @ utf8_of c) @ utf8_string cs) (drop (length (utf8_string cs)) (drop (length (utf8_of c)) free)) out2"
    using Cons.IH [OF _ o1(2) l, of "m - int (length (utf16_of c))"] Cons.prems by auto
  ultimately show ?case by (auto simp: algebra_simps)
qed

lemma ConvertToUTF8_string:
  assumes "\<forall>c \<in> set cs. scalar_value c" and "out_at ws free out"
    and "length (utf8_string cs) < length free" and "int (length (utf16_string cs)) \<le> m"
  shows "\<exists>src' out'. ConvertToUTF8 m False (utf16_string cs @ 0 # src) out = Ret (True, src', out') \<and>
      o_buf out' = ws @ utf8_string cs @ 0 # drop (Suc (length (utf8_string cs))) free \<and>
      o_pos out' = length ws + length (utf8_string cs)"
proof -
  obtain out1 where o1: "ConvertToUTF8_loop False m (utf16_string cs @ 0 # src) out =
      ConvertToUTF8_loop False (m - int (length (utf16_string cs))) (0 # src) out1"
    "out_at (ws @ utf8_string cs) (drop (length (utf8_string cs)) free) out1"
    using to_utf8_string [OF assms(1,2) _ assms(4), of "0 # src"] assms(3) by auto
  have stop: "\<exists>src'. ConvertToUTF8_loop False k (0 # src) out1 = Ret (True, src', out1)" for k
    by (subst ConvertToUTF8_loop.simps) simp
  obtain x free' where f: "drop (length (utf8_string cs)) free = x # free'"
    using assms(3) by (metis Cons_nth_drop_Suc)
  then have "drop (Suc (length (utf8_string cs))) free = free'" by (metis drop_Suc list.sel(3) tl_drop)
  then show ?thesis
    using stop [of "m - int (length (utf16_string cs))"] put_terminator_at [of "ws @ utf8_string cs" x free' out1 0]
      o1 f by (auto simp: ConvertToUTF8_def)
qed

section \<open>One character from UTF-8\<close>

text \<open>What the decoder makes of a code point.\<close>

definition misread :: "nat \<Rightarrow> nat" where
  "misread c = (if c < 0x10000 then c else c + 0x10000)"

lemma lead_value:
  assumes "n < 256"
  shows "(ucast (of_nat n :: u8) AND 0x7F :: u32) = of_nat (n mod 128)"
    "(ucast (of_nat n :: u8) AND 0x1F :: u32) = of_nat (n mod 32)"
    "(ucast (of_nat n :: u8) AND 0x0F :: u32) = of_nat (n mod 16)"
    "(ucast (of_nat n :: u8) AND 0x07 :: u32) = of_nat (n mod 8)"
  unfolding masks ucast_from_u8 [OF assms] using assms by (subst take_bit_u32, simp, simp)+

lemma decode_utf8_of:
  assumes "scalar_value c"
  obtains ch tail' n k m where "utf8_of c = ch # tail'" "ch \<noteq> 0" "convert_lead ch = Sequence n k m"
    "n = Suc (length tail')" "k = length (utf16_of c)"
    "utf16_units k (fold UTF8_LOAD_LOWPART tail' (ucast ch AND m)) = utf16_of (misread c)"
proof -
  have c: "0 < c" "c < 0x110000" using assms by (simp_all add: scalar_value_def)
  define a b d where "a = c div 64" and "b = a div 64" and "d = b div 64"
  have split: "c = a * 64 + c mod 64" "a = b * 64 + a mod 64" "b = d * 64 + b mod 64"
    by (simp_all add: a_def b_def d_def)
  have lim: "c < 2 ^ 32" "a < 2 ^ 32" "b < 2 ^ 32" using c by (simp_all add: a_def b_def div_less_iff_less_mult)
  have load: "UTF8_LOAD_LOWPART (of_nat (0x80 + c mod 64)) (of_nat a) = of_nat c"
    "UTF8_LOAD_LOWPART (of_nat (0x80 + a mod 64)) (of_nat b) = of_nat a"
    "UTF8_LOAD_LOWPART (of_nat (0x80 + b mod 64)) (of_nat d) = of_nat b"
    using UTF8_LOAD_LOWPART_of_nat [of a "c mod 64"] UTF8_LOAD_LOWPART_of_nat [of b "a mod 64"]
      UTF8_LOAD_LOWPART_of_nat [of d "b mod 64"] split lim by simp_all
  have unit: "utf16_units 1 (of_nat c) = [of_nat c]" using ucast_u16 [OF lim(1)] by (simp add: utf16_units_def)
  consider "c < 0x80" | "0x80 \<le> c" "c < 0x800" | "0x800 \<le> c" "c < 0x10000" | "0x10000 \<le> c"
    by linarith
  then show thesis
  proof cases
    case 1
    have "(of_nat c :: u8) \<noteq> 0" using u8_eq [of c 0] 1 c by simp
    then show ?thesis
      using that [of "of_nat c" "[]" 1 1 "0x7F"] 1 c unit convert_lead_of_nat [of c] lead_value(1) [of c]
      by (simp add: utf8_of_def utf16_of_def misread_def)
  next
    case 2
    have r: "2 \<le> a" "a < 32" using 2 by (simp_all add: a_def div_less_iff_less_mult less_eq_div_iff_mult_less_eq)
    have "(of_nat (0xC0 + a) :: u8) \<noteq> 0" using u8_eq [of "0xC0 + a" 0] r by simp
    moreover have "(0xC0 + a) mod 32 = a" using r by (simp add: mod_if)
    ultimately show ?thesis
      using that [of "of_nat (0xC0 + a)" "[of_nat (0x80 + c mod 64)]" 2 1 "0x1F"] 2 r unit load
        convert_lead_of_nat [of "0xC0 + a"] lead_value(2) [of "0xC0 + a"]
      by (simp add: utf8_of_def utf16_of_def misread_def a_def [symmetric] del: of_nat_add)
  next
    case 3
    have r: "b < 16" using 3 by (simp add: a_def b_def div_less_iff_less_mult)
    have "(of_nat (0xE0 + b) :: u8) \<noteq> 0" using u8_eq [of "0xE0 + b" 0] r by simp
    moreover have "(0xE0 + b) mod 16 = b" using r by (simp add: mod_if)
    ultimately show ?thesis
      using that [of "of_nat (0xE0 + b)" "[of_nat (0x80 + a mod 64), of_nat (0x80 + c mod 64)]" 3 1 "0x0F"]
        3 r unit load convert_lead_of_nat [of "0xE0 + b"] lead_value(3) [of "0xE0 + b"]
      by (simp add: utf8_of_def utf16_of_def misread_def a_def [symmetric] b_def [symmetric] del: of_nat_add)
  next
    case 4
    have r: "d < 5" using c by (simp add: a_def b_def d_def div_less_iff_less_mult)
    have n: "(of_nat (0xF0 + d) :: u8) \<noteq> 0" using u8_eq [of "0xF0 + d" 0] r by simp
    have m: "(0xF0 + d) mod 8 = d" using r by (simp add: mod_if)
    have "drop_bit 10 (of_nat c) + ucast HIGH_SURROGATE_START = (of_nat (0xD800 + c div 0x400) :: u32)"
      using drop_bit_u32 [OF lim(1), of 10] by (simp add: surrogate_defs)
    moreover have "(of_nat c AND SURROGATE_HALFMASK) + ucast LOW_SURROGATE_START =
        (of_nat (0xDC00 + c mod 0x400) :: u32)"
      using take_bit_u32 [OF lim(1), of 10] by (simp add: surrogate_defs masks)
    moreover have "0xD800 + c div 0x400 < 2 ^ 32" "0xDC00 + c mod 0x400 < 2 ^ 32"
      using c by (simp_all add: div_less_iff_less_mult)
    note this [THEN ucast_u16]
    ultimately have "utf16_units 2 (of_nat c) = [of_nat (0xD800 + c div 0x400), of_nat (0xDC00 + c mod 0x400)]"
      by (simp only: utf16_units_def numeral_eq_one_iff semiring_norm if_False)
    then have "utf16_units 2 (of_nat c) = utf16_of (misread c)"
      using 4 by (simp add: utf16_of_def misread_def del: of_nat_add)
    then show ?thesis
      using that [of "of_nat (0xF0 + d)"
          "[of_nat (0x80 + b mod 64), of_nat (0x80 + a mod 64), of_nat (0x80 + c mod 64)]" 4 2 "0x07"]
        4 r n m load convert_lead_of_nat [of "0xF0 + d"] lead_value(4) [of "0xF0 + d"]
      by (simp add: utf8_of_def utf16_of_def misread_def a_def [symmetric] b_def [symmetric]
          d_def [symmetric] del: of_nat_add)
  qed
qed

section \<open>Strings from UTF-8\<close>

lemma length_misread [simp]: "length (utf16_of (misread c)) = length (utf16_of c)"
  by (simp add: utf16_of_def misread_def)

lemma length_misread_string [simp]: "length (utf16_string (map misread cs)) = length (utf16_string cs)"
  by (induction cs) simp_all

lemma length_utf8_utf16: "length (utf8_of c) \<le> 3 * length (utf16_of c)"
  by (simp add: utf8_of_def utf16_of_def)

lemma length_utf8_utf16_string: "length (utf8_string cs) \<le> 3 * length (utf16_string cs)"
  using length_utf8_utf16 by (induction cs) (simp_all add: add_mono distrib_left)

lemma from_utf8_string:
  assumes "\<forall>c \<in> set cs. scalar_value c" and "out_at ws free out"
    and "length (utf16_string cs) \<le> length free" and "int (length (utf16_string cs)) \<le> m"
    and "int (length (utf8_string cs)) \<le> b"
  shows "\<exists>out'. ConvertFromUTF8_loop False m b (utf8_string cs @ src) out =
      ConvertFromUTF8_loop False (m - int (length (utf16_string cs))) (b - int (length (utf8_string cs))) src out' \<and>
      out_at (ws @ utf16_string (map misread cs)) (drop (length (utf16_string cs)) free) out'"
  using assms
proof (induction cs arbitrary: ws free out m b)
  case Nil
  then show ?case by auto
next
  case (Cons c cs)
  obtain ch tl' n k mk where d: "utf8_of c = ch # tl'" "convert_lead ch = Sequence n k mk"
    "n = Suc (length tl')" "k = length (utf16_of c)"
    "utf16_units k (fold UTF8_LOAD_LOWPART tl' (ucast ch AND mk)) = utf16_of (misread c)"
    using decode_utf8_of Cons.prems(1) by (metis list.set_intros(1))
  have k: "0 < k" by (simp add: d(4) utf16_of_def)
  have lens: "length (utf16_string (c # cs)) = k + length (utf16_string cs)"
    "length (utf8_string (c # cs)) = n + length (utf8_string cs)" using d by simp_all
  obtain out1 where o1: "put_units (utf16_of (misread c)) out = Ret out1"
    "out_at (ws @ utf16_of (misread c)) (drop k free) out1"
    using put_units_at [OF Cons.prems(2), of "utf16_of (misread c)"] Cons.prems(3) d(4) by auto
  have pos: "0 < m" "0 < b" "\<not> b < int n" "\<not> o_size out < int k"
    using Cons.prems(2-5) k d(3) unfolding lens out_at_def by linarith+
  have "ConvertFromUTF8_loop False m b (utf8_string (c # cs) @ src) out =
      ConvertFromUTF8_loop False (m - int k) (b - int n) (utf8_string cs @ src) out1"
    using d pos o1(1) by (subst ConvertFromUTF8_loop.simps) simp
  moreover obtain out2 where
    "ConvertFromUTF8_loop False (m - int k) (b - int n) (utf8_string cs @ src) out1 =
      ConvertFromUTF8_loop False (m - int k - int (length (utf16_string cs)))
        (b - int n - int (length (utf8_string cs))) src out2"
    "out_at ((ws @ utf16_of (misread c)) @ utf16_string (map misread cs))
        (drop (length (utf16_string cs)) (drop k free)) out2"
  proof -
    have "length (utf16_string cs) \<le> length (drop k free)" using Cons.prems(3) unfolding lens by simp
    moreover have "int (length (utf16_string cs)) \<le> m - int k" "int (length (utf8_string cs)) \<le> b - int n"
      using Cons.prems(4,5) unfolding lens by linarith+
    ultimately show thesis using Cons.IH [OF _ o1(2)] Cons.prems(1) that by auto
  qed
  ultimately show ?case unfolding lens by (auto simp: algebra_simps)
qed

lemma ConvertFromUTF8_string:
  assumes "\<forall>c \<in> set cs. scalar_value c" and "out_at ws free out"
    and "length (utf16_string cs) < length free"
    and "length (utf16_string cs) * 3 < 2 ^ 31"
  shows "\<exists>src' out'. ConvertFromUTF8 (int (length (utf16_string cs))) False (- 1) (utf8_string cs @ src) out =
        Ret (True, src', out') \<and>
      o_buf out' = ws @ utf16_string (map misread cs) @ 0 # drop (Suc (length (utf16_string cs))) free \<and>
      o_pos out' = length ws + length (utf16_string cs)"
proof -
  let ?m = "int (length (utf16_string cs))"
  have "int (length (utf16_string cs) * 3) < int (2 ^ 31)" using assms(4) by (simp only: of_nat_less_iff)
  then have b: "s32 (?m * 3) = ?m * 3" by simp
  have "int (length (utf8_string cs)) \<le> ?m * 3" using length_utf8_utf16_string [of cs] by linarith
  then obtain out1 where o1: "ConvertFromUTF8_loop False ?m (?m * 3) (utf8_string cs @ src) out =
      ConvertFromUTF8_loop False (?m - ?m) (?m * 3 - int (length (utf8_string cs))) src out1"
    "out_at (ws @ utf16_string (map misread cs)) (drop (length (utf16_string cs)) free) out1"
    using from_utf8_string [OF assms(1,2), of ?m "?m * 3" src] assms(3) by auto
  have stop: "ConvertFromUTF8_loop False (?m - ?m) c src out1 = Ret (True, src, out1)" for c
    by (subst ConvertFromUTF8_loop.simps) simp
  obtain x free' where f: "drop (length (utf16_string cs)) free = x # free'"
    using assms(3) by (metis Cons_nth_drop_Suc)
  then have "drop (Suc (length (utf16_string cs))) free = free'" by (metis drop_Suc list.sel(3) tl_drop)
  then show ?thesis
    using put_terminator_at [of "ws @ utf16_string (map misread cs)" x free' out1 0] o1 f stop b
    by (auto simp: ConvertFromUTF8_def)
qed

section \<open>Counting\<close>

lemma count_utf8_of:
  assumes "scalar_value c" and "m < 0"
  shows "CountNumberOfCharacters_loop m num (utf8_of c @ src) =
    CountNumberOfCharacters_loop (m - 1) (num + int (length (utf16_of c))) src"
proof -
  have c: "0 < c" "c < 0x110000" using assms by (simp_all add: scalar_value_def)
  consider "c < 0x80" | "0x80 \<le> c" "c < 0x800" | "0x800 \<le> c" "c < 0x10000" | "0x10000 \<le> c"
    by linarith
  then show ?thesis
  proof cases
    case 1
    have "(of_nat c :: u8) \<noteq> 0" using u8_eq [of c 0] 1 c by simp
    then show ?thesis using 1 count_lead_of_nat [of c] assms(2) by (simp add: utf8_of_def utf16_of_def)
  next
    case 2
    let ?a = "c div 64"
    have r: "?a < 32" using 2 by (simp add: div_less_iff_less_mult)
    have "(of_nat (0xC0 + ?a) :: u8) \<noteq> 0" using u8_eq [of "0xC0 + ?a" 0] r by simp
    then show ?thesis using 2 r count_lead_of_nat [of "0xC0 + ?a"] assms(2) good_lowpart [of "c mod 64"]
      by (simp add: utf8_of_def utf16_of_def del: of_nat_add)
  next
    case 3
    let ?a = "c div 64 div 64"
    have r: "?a < 16" using 3 by (simp add: div_less_iff_less_mult)
    have "(of_nat (0xE0 + ?a) :: u8) \<noteq> 0" using u8_eq [of "0xE0 + ?a" 0] r by simp
    then show ?thesis using 3 r count_lead_of_nat [of "0xE0 + ?a"] assms(2)
        good_lowpart [of "c mod 64"] good_lowpart [of "c div 64 mod 64"]
      by (simp add: utf8_of_def utf16_of_def numeral_2_eq_2 del: of_nat_add)
  next
    case 4
    let ?a = "c div 64 div 64 div 64"
    have r: "?a < 5" using c by (simp add: div_less_iff_less_mult)
    have "(of_nat (0xF0 + ?a) :: u8) \<noteq> 0" using u8_eq [of "0xF0 + ?a" 0] r by simp
    then show ?thesis using 4 r count_lead_of_nat [of "0xF0 + ?a"] assms(2)
        good_lowpart [of "c mod 64"] good_lowpart [of "c div 64 mod 64"] good_lowpart [of "c div 64 div 64 mod 64"]
      by (simp add: utf8_of_def utf16_of_def numeral_3_eq_3 del: of_nat_add)
  qed
qed

lemma count_utf8_string:
  "\<forall>c \<in> set cs. scalar_value c \<Longrightarrow> m < 0 \<Longrightarrow>
    CountNumberOfCharacters_loop m num (utf8_string cs @ 0 # src) = Ret (num + int (length (utf16_string cs)))"
  by (induction cs arbitrary: m num) (simp_all add: count_utf8_of)

lemma count_utf16_of:
  assumes "scalar_value c" and "m < 0"
  shows "\<exists>m'. m' < 0 \<and> CountNumberOfBytes_loop m num (utf16_of c @ src) =
    CountNumberOfBytes_loop m' (num + int (length (utf8_of c))) src"
proof (rule utf16_of_cases [OF assms(1)])
  assume c: "c < 0x10000" "utf16_of c = [of_nat c]"
  have z: "(of_nat c :: u16) \<noteq> 0"
    using c(1) assms by (simp add: word_unat_eq_iff unat_of_nat scalar_value_def)
  have less: "(of_nat c :: u16) < 0x80 \<longleftrightarrow> c < 0x80" "(of_nat c :: u16) < 0x800 \<longleftrightarrow> c < 0x800"
    using c(1) u16_less [of c "0x80"] u16_less [of c "0x800"] by simp_all
  have "\<not> (HIGH_SURROGATE_START \<le> of_nat c \<and> (of_nat c :: u16) \<le> HIGH_SURROGATE_END)"
    "\<not> (LOW_SURROGATE_START \<le> of_nat c \<and> (of_nat c :: u16) \<le> LOW_SURROGATE_END)"
    using assms(1) c(1) u16_le [of "0xD800" c] u16_le [of c "0xDBFF"] u16_le [of "0xDC00" c]
      u16_le [of c "0xDFFF"] by (auto simp: surrogate_defs scalar_value_def)
  then show ?thesis using z less c assms(2)
    by (intro exI [of _ "m - 1"]) (auto simp: utf8_of_def)
next
  let ?h = "0xD800 + (c - 0x10000) div 0x400" and ?l = "0xDC00 + (c - 0x10000) mod 0x400"
  assume c: "0x10000 \<le> c" "c < 0x110000" "length (utf8_of c) = 4" "utf16_of c = [of_nat ?h, of_nat ?l]"
  have h: "?h < 0xDC00" using c(2) by (simp add: div_less_iff_less_mult)
  have l: "?l < 0xE000" by simp
  have ge: "\<not> (of_nat ?h :: u16) < 0x80" "\<not> (of_nat ?h :: u16) < 0x800"
    using h u16_less [of ?h "0x80"] u16_less [of ?h "0x800"] by (simp_all del: of_nat_add)
  then have z: "(of_nat ?h :: u16) \<noteq> 0" by (auto simp del: of_nat_add)
  have "HIGH_SURROGATE_START \<le> of_nat ?h" "of_nat ?h \<le> HIGH_SURROGATE_END"
    "\<not> LOW_SURROGATE_START \<le> of_nat ?h"
    "LOW_SURROGATE_START \<le> of_nat ?l" "of_nat ?l \<le> LOW_SURROGATE_END"
    using h l u16_le [of "0xD800" ?h] u16_le [of ?h "0xDBFF"] u16_le [of "0xDC00" ?h]
      u16_le [of "0xDC00" ?l] u16_le [of ?l "0xDFFF"] by (simp_all add: surrogate_defs del: of_nat_add)
  then show ?thesis using z ge c assms(2)
    by (intro exI [of _ "m - 2"]) (simp del: of_nat_add)
qed

lemma count_utf16_string:
  "\<forall>c \<in> set cs. scalar_value c \<Longrightarrow> m < 0 \<Longrightarrow>
    CountNumberOfBytes_loop m num (utf16_string cs @ 0 # src) = Ret (num + int (length (utf8_string cs)))"
proof (induction cs arbitrary: m num)
  case (Cons c cs)
  obtain m' where "m' < 0" "CountNumberOfBytes_loop m num (utf16_of c @ utf16_string cs @ 0 # src) =
      CountNumberOfBytes_loop m' (num + int (length (utf8_of c))) (utf16_string cs @ 0 # src)"
    using count_utf16_of Cons.prems by (meson list.set_intros(1))
  then show ?case using Cons.IH [of m'] Cons.prems(1) by simp
qed simp

section \<open>Assigning a string\<close>

lemma Assign_string:
  assumes "\<forall>c \<in> set cs. scalar_value c" and "Allocate (length (utf16_string cs) + 1) = Some buf"
    and "length buf = length (utf16_string cs) + 1" and "length (utf16_string cs) * 3 < 2 ^ 31"
  shows "UnicodeString_Assign Allocate (utf8_string cs @ [0]) =
    Ret (S_OK, int (length (utf16_string cs)), Some (utf16_string (map misread cs) @ [0]))"
proof -
  let ?n = "length (utf16_string cs)"
  let ?out = "\<lparr>o_buf = buf, o_pos = 0, o_size = int ?n + 1\<rparr>"
  have cnt: "CountNumberOfCharacters (- 1) (utf8_string cs @ [0]) = Ret (int ?n)"
    using count_utf8_string [OF assms(1), of "- 1" 0 "[]"] by (simp add: CountNumberOfCharacters_def)
  have "out_at [] buf ?out" using assms(3) by (simp add: out_at_def)
  then obtain src' out' where "ConvertFromUTF8 (int ?n) False (- 1) (utf8_string cs @ [0]) ?out = Ret (True, src', out')"
    "o_buf out' = utf16_string (map misread cs) @ [0]"
    using ConvertFromUTF8_string [OF assms(1), of "[]" buf ?out "[0]"] assms(3,4) by auto
  then show ?thesis using cnt assms(2)
    by (simp add: UnicodeString_Assign_def nat_add_distrib list_update_append)
qed

lemma misread_BMP: "\<forall>c \<in> set cs. c < 0x10000 \<Longrightarrow> map misread cs = cs"
  by (induction cs) (simp_all add: misread_def)

text \<open>Every byte passes the test for the start of a character.\<close>

lemma utf8_start_test: "utf8_start_test (promote_char cs b)"
proof (cases cs)
  case False
  have "(ucast b :: u32) AND 2 ^ k = 0" if "8 \<le> k" for k
    using that u8_bit_bound [of b k] by (auto intro!: bit_word_eqI simp: bit_simps bit_exp_iff)
  from this [of 28] show ?thesis using False by (simp add: utf8_start_test_def promote_char_def)
next
  case True
  show ?thesis
  proof (cases "bit b 7")
    case neg: True
    have "(scast b :: u32) AND (2 ^ k OR 2 ^ l) = 2 ^ k OR 2 ^ l" if "8 \<le> k" "8 \<le> l" for k l
      using neg that by (auto intro!: bit_word_eqI simp: bit_simps bit_exp_iff min_def)
    from this [of 28 24] show ?thesis using True by (simp add: utf8_start_test_def promote_char_def)
  next
    case False
    have "(scast b :: u32) AND 2 ^ k = 0" if "8 \<le> k" for k
      using False that u8_bit_bound [of b k] by (auto intro!: bit_word_eqI simp: bit_simps bit_exp_iff min_def)
    from this [of 28] show ?thesis using True by (simp add: utf8_start_test_def promote_char_def)
  qed
qed

lemma MoveBackward_loop_bytes:
  "0 < n \<Longrightarrow> 0 < pos \<Longrightarrow> pos \<le> length str \<Longrightarrow>
     MoveBackward_loop cs str pos (int n) = Ret (n \<le> pos, pos - n)"
proof (induction pos arbitrary: n)
  case (Suc pos)
  show ?case
  proof (cases "n = 1 \<or> pos = 0")
    case True
    then show ?thesis using Suc.prems by (auto simp: utf8_start_test c_index_def)
  next
    case False
    then have "int n - 1 = int (n - 1)" "0 < n - 1" "0 < pos" "int n \<noteq> 1" using Suc.prems by auto
    then show ?thesis using Suc.IH [of "n - 1"] Suc.prems False
      by (auto simp: utf8_start_test c_index_def)
  qed
qed simp

section \<open>Properties\<close>

text \<open>
  C12: strings to UTF-8. For every string of Unicode characters in UTF-16, surrogate pairs included,
  \<open>CountNumberOfBytes\<close> is the length of its UTF-8 encoding, and \<open>ConvertToUTF8\<close> into a buffer of
  that length and a terminator succeeds and writes exactly the encoding and the terminator.
\<close>

theorem utf16_to_utf8:
  assumes "\<forall>c \<in> set cs. scalar_value c"
    and "length buf = length (utf8_string cs) + 1" and "int (length (utf16_string cs)) \<le> m"
  shows "CountNumberOfBytes (- 1) (utf16_string cs @ [0]) = Ret (int (length (utf8_string cs))) \<and>
    (\<exists>src' out'. ConvertToUTF8 m False (utf16_string cs @ [0])
        \<lparr>o_buf = pre @ buf, o_pos = length pre, o_size = int (length buf)\<rparr> = Ret (True, src', out') \<and>
      o_buf out' = pre @ utf8_string cs @ [0])"
proof
  show "CountNumberOfBytes (- 1) (utf16_string cs @ [0]) = Ret (int (length (utf8_string cs)))"
    using count_utf16_string [OF assms(1), of "- 1" 0 "[]"] by (simp add: CountNumberOfBytes_def)
  let ?out = "\<lparr>o_buf = pre @ buf, o_pos = length pre, o_size = int (length buf)\<rparr>"
  have "out_at pre buf ?out" by (simp add: out_at_def)
  then show "\<exists>src' out'. ConvertToUTF8 m False (utf16_string cs @ [0]) ?out = Ret (True, src', out') \<and>
      o_buf out' = pre @ utf8_string cs @ [0]"
    using ConvertToUTF8_string [OF assms(1), of pre buf ?out m "[]"] assms(2,3) by force
qed

theorem utf16_to_utf8_witness:
  "\<exists>src' out'. ConvertToUTF8 3 False [0x41, 0xD83D, 0xDE00, 0]
      \<lparr>o_buf = [9, 0, 0, 0, 0, 0, 0], o_pos = 1, o_size = 6\<rparr> = Ret (True, src', out') \<and>
      o_buf out' = [9, 0x41, 0xF0, 0x9F, 0x98, 0x80, 0]"
  using utf16_to_utf8 [of "[0x41, 0x1F600]" "[0, 0, 0, 0, 0, 0]" 3 "[9]"]
  by (simp add: scalar_value_def utf8_of_def utf16_of_def)



text \<open>
  Assigning a UTF-8 string. \<open>UnicodeString::Assign\<close> measures the string, allocates exactly the
  units it needs and a terminator, and never writes outside the buffer; what it stores is the
  string with every character above the basic plane read \<open>0x10000\<close> too high.
\<close>

theorem assign_stores_string:
  assumes "\<forall>c \<in> set cs. scalar_value c" and "Allocate (length (utf16_string cs) + 1) = Some buf"
    and "length buf = length (utf16_string cs) + 1" and "length (utf16_string cs) * 3 < 2 ^ 31"
  shows "UnicodeString_Assign Allocate (utf8_string cs @ [0]) =
    Ret (S_OK, int (length (utf16_string cs)), Some (utf16_string (map misread cs) @ [0]))"
  using assms by (rule Assign_string)

theorem assign_stores_string_witness:
  "UnicodeString_Assign (\<lambda>n. Some (replicate n 7)) [0x41, 0xE2, 0x82, 0xAC, 0] =
    Ret (S_OK, 2, Some [0x41, 0x20AC, 0])"
  using assign_stores_string [of "[0x41, 0x20AC]" "\<lambda>n. Some (replicate n 7)" "[7, 7, 7]"]
  by (simp add: numeral_3_eq_3 scalar_value_def utf8_of_def utf16_of_def misread_def)

text \<open>The grinning face, U+1F600, is stored as the surrogate pair of U+2F600.\<close>

theorem supplementary_character_misread:
  "UnicodeString_Assign (\<lambda>n. Some (replicate n 7)) (utf8_of 0x1F600 @ [0]) =
    Ret (S_OK, 2, Some [0xD87D, 0xDE00, 0])"
  "utf16_of 0x1F600 = [0xD83D, 0xDE00]"
  using Assign_string [of "[0x1F600]" "\<lambda>n. Some (replicate n 7)" "[7, 7, 7]"]
  by (simp_all add: numeral_3_eq_3 scalar_value_def utf8_of_def utf16_of_def misread_def)

text \<open>
  Moving back in a UTF-8 string moves bytes, not characters: the masks of the test for a start
  byte are hexadecimal where binary ones were meant, so every byte of every string passes the test,
  whether \<open>char\<close> is signed or not.
\<close>

theorem move_backward_counts_bytes:
  assumes "0 < n" and "0 < pos" and "pos \<le> length str"
  shows "MoveBackwardInUTF8 cs str pos (int n) = Ret (n \<le> pos, pos - n)"
  using MoveBackward_loop_bytes [OF assms, of cs] assms by (simp add: MoveBackwardInUTF8_def)

theorem move_backward_counts_bytes_witness:
  "MoveBackwardInUTF8 True [0x41, 0xE2, 0x82, 0xAC, 0] 4 1 = Ret (True, 3)"
  using move_backward_counts_bytes [of 1 4 "[0x41, 0xE2, 0x82, 0xAC, 0]" True] by simp

end
