(* ===== verification/NF_HeapCluster.thy ===== *)
theory NF_HeapCluster
  imports NF_ObjArray
begin

text \<open>
  A cluster of the managed heap (CLR_RT_HeapCluster.cpp): the memory of a cluster as heap blocks,
  the list of the free ones, and the allocator. An address is the number of a heap block from the
  start of the payload. The nodes before the first and behind the last free block are the fields of
  the list itself, which overlap: the previous pointer of the head and the next pointer of the tail
  are the one field \<open>m_null\<close>.
\<close>

section \<open>Memory\<close>

datatype node_ptr = Null | Head | Tail | Blk nat

text \<open>
  A heap block as the code reads it: the three fields of its id, the two links of a node, and what
  the salvage tests read of a weak reference or of an array.
\<close>

record hblock =
  dataType :: u8
  hflags :: u8
  dataSize :: nat
  nextBlock :: node_ptr
  prevBlock :: node_ptr
  weak_flags :: u32
  weak_target :: bool
  arr_typeOfElement :: u8
  arr_sizeOfElement :: u8
  arr_fReference :: u8
  arr_numOfElements :: u32

record cluster =
  m_first :: node_ptr
  m_null :: node_ptr
  m_last :: node_ptr
  blocks :: "nat \<Rightarrow> hblock"
  m_payloadSize :: nat

definition DATATYPE_U1 :: u8 where "DATATYPE_U1 = 3"
definition DATATYPE_SZARRAY :: u8 where "DATATYPE_SZARRAY = 19"
definition DATATYPE_FREEBLOCK :: u8 where "DATATYPE_FREEBLOCK = 21"
definition DATATYPE_WEAKCLASS :: u8 where "DATATYPE_WEAKCLASS = 24"
definition DATATYPE_FIRST_INVALID :: u8 where "DATATYPE_FIRST_INVALID = 54"

definition HB_Alive :: u8 where "HB_Alive = 0x01"
definition HB_Event :: u8 where "HB_Event = 0x04"
definition HB_InitializeToZero :: u32 where "HB_InitializeToZero = 0x100"
definition HB_Pinned :: u8 where "HB_Pinned = 0x08"

definition WR_SurviveBoot :: u32 where "WR_SurviveBoot = 0x00000001"
definition WR_Persisted :: u32 where "WR_Persisted = 0x20000000"
definition sizeof_WeakReference :: u32 where "sizeof_WeakReference = 48"

definition IsFlagSet :: "u8 \<Rightarrow> hblock \<Rightarrow> bool" where
  "IsFlagSet f b \<longleftrightarrow> hflags b AND f \<noteq> 0"

abbreviation IsAlive :: "hblock \<Rightarrow> bool" where "IsAlive \<equiv> IsFlagSet HB_Alive"
abbreviation IsEvent :: "hblock \<Rightarrow> bool" where "IsEvent \<equiv> IsFlagSet HB_Event"

definition MarkAlive :: "hblock \<Rightarrow> hblock" where
  "MarkAlive b = b\<lparr>hflags := hflags b OR HB_Alive\<rparr>"

definition MarkDead :: "hblock \<Rightarrow> hblock" where
  "MarkDead b = b\<lparr>hflags := hflags b AND NOT HB_Alive\<rparr>"

text \<open>\<open>SetDataId(CLR_RT_HEAPBLOCK_RAW_ID(...))\<close>: the flags lose all but 8 bits, the size all but 16.\<close>

definition SetDataId :: "u8 \<Rightarrow> u32 \<Rightarrow> nat \<Rightarrow> hblock \<Rightarrow> hblock" where
  "SetDataId dt fl sz b = b\<lparr>dataType := dt, hflags := ucast fl, dataSize := sz mod 2 ^ 16\<rparr>"

definition ClearData :: "hblock \<Rightarrow> hblock" where
  "ClearData b = b\<lparr>nextBlock := Null, prevBlock := Null\<rparr>"

text \<open>
  \<open>InitializeToZero\<close>, for what the record holds of the contents. The flags of a weak reference and the
  header of an array lie in the second heap block, the serialized target in the fourth.
\<close>

definition InitializeToZero :: "hblock \<Rightarrow> hblock" where
  "InitializeToZero b =
     (let b = ClearData b;
          b = (if dataSize b < 2 then b
               else b\<lparr>weak_flags := 0, arr_typeOfElement := 0, arr_sizeOfElement := 0, arr_fReference := 0,
                 arr_numOfElements := 0\<rparr>)
      in if dataSize b < 4 then b else b\<lparr>weak_target := False\<rparr>)"

definition update_block :: "nat \<Rightarrow> (hblock \<Rightarrow> hblock) \<Rightarrow> cluster \<Rightarrow> cluster" where
  "update_block a f c = c\<lparr>blocks := (blocks c)(a := f (blocks c a))\<rparr>"

definition change_block :: "nat \<Rightarrow> (hblock \<Rightarrow> hblock) \<Rightarrow> cluster \<Rightarrow> cluster c_result" where
  "change_block a f c = (if a < m_payloadSize c then Ret (update_block a f c) else Fault BadIndex)"

section \<open>Nodes\<close>

fun link_next :: "cluster \<Rightarrow> node_ptr \<Rightarrow> node_ptr" where
  "link_next c Head = m_first c"
| "link_next c Tail = m_null c"
| "link_next c (Blk a) = nextBlock (blocks c a)"
| "link_next c Null = Null"

fun link_prev :: "cluster \<Rightarrow> node_ptr \<Rightarrow> node_ptr" where
  "link_prev c Head = m_null c"
| "link_prev c Tail = m_last c"
| "link_prev c (Blk a) = prevBlock (blocks c a)"
| "link_prev c Null = Null"

fun node_ok :: "cluster \<Rightarrow> node_ptr \<Rightarrow> bool" where
  "node_ok c Null \<longleftrightarrow> False"
| "node_ok c (Blk a) \<longleftrightarrow> a < m_payloadSize c"
| "node_ok c _ \<longleftrightarrow> True"

definition node_fault :: "node_ptr \<Rightarrow> c_fault" where
  "node_fault p = (if p = Null then NullDeref else BadIndex)"

definition Next :: "cluster \<Rightarrow> node_ptr \<Rightarrow> node_ptr c_result" where
  "Next c p = (if node_ok c p then Ret (link_next c p) else Fault (node_fault p))"

definition Prev :: "cluster \<Rightarrow> node_ptr \<Rightarrow> node_ptr c_result" where
  "Prev c p = (if node_ok c p then Ret (link_prev c p) else Fault (node_fault p))"

fun put_next :: "node_ptr \<Rightarrow> node_ptr \<Rightarrow> cluster \<Rightarrow> cluster" where
  "put_next Head q c = c\<lparr>m_first := q\<rparr>"
| "put_next Tail q c = c\<lparr>m_null := q\<rparr>"
| "put_next (Blk a) q c = update_block a (\<lambda>b. b\<lparr>nextBlock := q\<rparr>) c"
| "put_next Null q c = c"

fun put_prev :: "node_ptr \<Rightarrow> node_ptr \<Rightarrow> cluster \<Rightarrow> cluster" where
  "put_prev Head q c = c\<lparr>m_null := q\<rparr>"
| "put_prev Tail q c = c\<lparr>m_last := q\<rparr>"
| "put_prev (Blk a) q c = update_block a (\<lambda>b. b\<lparr>prevBlock := q\<rparr>) c"
| "put_prev Null q c = c"

definition SetNext :: "node_ptr \<Rightarrow> node_ptr \<Rightarrow> cluster \<Rightarrow> cluster c_result" where
  "SetNext p q c = (if node_ok c p then Ret (put_next p q c) else Fault (node_fault p))"

definition SetPrev :: "node_ptr \<Rightarrow> node_ptr \<Rightarrow> cluster \<Rightarrow> cluster c_result" where
  "SetPrev p q c = (if node_ok c p then Ret (put_prev p q c) else Fault (node_fault p))"

definition DblLinkedList_Initialize :: "cluster \<Rightarrow> cluster" where
  "DblLinkedList_Initialize c = c\<lparr>m_first := Tail, m_null := Null, m_last := Head\<rparr>"

text \<open>\<open>ValidateList\<close> of the builds that validate the heap; the others have an empty body.\<close>

partial_function (option) ValidateList_loop :: "cluster \<Rightarrow> node_ptr \<Rightarrow> unit c_result option" where
  "ValidateList_loop c prev =
     (case Next c prev of
        Inl e \<Rightarrow> Some (Inl e)
      | Inr node \<Rightarrow>
          if node = Null then Some (Ret ())
          else (case Prev c node of
              Inl e \<Rightarrow> Some (Inl e)
            | Inr p \<Rightarrow> if p \<noteq> prev then Some (Fault Halt) else ValidateList_loop c node))"

definition ValidateList :: "cluster \<Rightarrow> unit c_result option" where
  "ValidateList c = (if m_null c \<noteq> Null then Some (Fault Halt) else ValidateList_loop c Head)"

section \<open>The allocator\<close>

text \<open>The search of the free list, forward from the first node or backward from the last.\<close>

partial_function (option) find_forward ::
    "cluster \<Rightarrow> nat \<Rightarrow> node_ptr \<Rightarrow> (nat \<times> nat) option c_result option" where
  "find_forward c len ptr =
     (case Next c ptr of
        Inl e \<Rightarrow> Some (Inl e)
      | Inr ptrNext \<Rightarrow>
          if ptrNext = Null then Some (Ret None)
          else (case ptr of
              Blk a \<Rightarrow> if dataSize (blocks c a) \<ge> len then Some (Ret (Some (a, dataSize (blocks c a))))
                else find_forward c len ptrNext
            | _ \<Rightarrow> Some (Fault BadIndex)))"

partial_function (option) find_backward ::
    "cluster \<Rightarrow> nat \<Rightarrow> node_ptr \<Rightarrow> (nat \<times> nat) option c_result option" where
  "find_backward c len ptr =
     (case Prev c ptr of
        Inl e \<Rightarrow> Some (Inl e)
      | Inr ptrPrev \<Rightarrow>
          if ptrPrev = Null then Some (Ret None)
          else (case ptr of
              Blk a \<Rightarrow> if dataSize (blocks c a) \<ge> len then Some (Ret (Some (a, dataSize (blocks c a))))
                else find_backward c len ptrPrev
            | _ \<Rightarrow> Some (Fault BadIndex)))"

text \<open>
  The part behind the search, for the block found. The result is the address of the extracted
  block.
\<close>

definition extract_from ::
    "u8 \<Rightarrow> u32 \<Rightarrow> nat \<Rightarrow> nat \<Rightarrow> nat \<Rightarrow> cluster \<Rightarrow> (nat \<times> cluster) c_result" where
  "extract_from dt flags len res found c =
     c_bind (Next c (Blk res)) (\<lambda>next.
     c_bind (Prev c (Blk res)) (\<lambda>prev.
     let available = found - len in
     c_bind
       (if available \<noteq> 0 then
          if flags AND ucast HB_Event \<noteq> 0 then
            c_bind (change_block res (SetDataId DATATYPE_FREEBLOCK (ucast HB_Pinned) available) c) (\<lambda>c.
            Ret (res + available, c))
          else
            let ptr = res + len in
            c_bind (change_block ptr (SetDataId DATATYPE_FREEBLOCK (ucast HB_Pinned) available) c) (\<lambda>c.
            c_bind (SetNext (Blk ptr) next c) (\<lambda>c.
            c_bind (SetPrev (Blk ptr) prev c) (\<lambda>c.
            c_bind (SetNext prev (Blk ptr) c) (\<lambda>c.
            c_bind (SetPrev next (Blk ptr) c) (\<lambda>c. Ret (res, c))))))
        else
          c_bind (SetNext prev next c) (\<lambda>c.
          c_bind (SetPrev next prev c) (\<lambda>c. Ret (res, c)))) (\<lambda>(res, c).
     c_bind (change_block res (SetDataId dt flags len) c) (\<lambda>c.
     if flags AND HB_InitializeToZero \<noteq> 0
     then c_bind (change_block res InitializeToZero c) (\<lambda>c. Ret (res, c))
     else Ret (res, c)))))"

definition ExtractBlocks ::
    "u8 \<Rightarrow> u32 \<Rightarrow> nat \<Rightarrow> cluster \<Rightarrow> (nat option \<times> cluster) c_result option" where
  "ExtractBlocks dt flags len c =
     (case ValidateList c of
        None \<Rightarrow> None
      | Some (Inl e) \<Rightarrow> Some (Inl e)
      | Some (Inr _) \<Rightarrow>
          (case (if flags AND ucast HB_Event \<noteq> 0 then find_backward c len (m_last c)
              else find_forward c len (m_first c)) of
             None \<Rightarrow> None
           | Some (Inl e) \<Rightarrow> Some (Inl e)
           | Some (Inr None) \<Rightarrow>
               (case ValidateList c of
                  None \<Rightarrow> None
                | Some (Inl e) \<Rightarrow> Some (Inl e)
                | Some (Inr _) \<Rightarrow> Some (Ret (None, c)))
           | Some (Inr (Some (res, available))) \<Rightarrow>
               (case extract_from dt flags len res available c of
                  Inl e \<Rightarrow> Some (Inl e)
                | Inr (res, c') \<Rightarrow>
                    (case ValidateList c' of
                       None \<Rightarrow> None
                     | Some (Inl e) \<Rightarrow> Some (Inl e)
                     | Some (Inr _) \<Rightarrow> Some (Ret (Some res, c'))))))"

section \<open>After a garbage collection\<close>

text \<open>\<open>ValidateBlock\<close> of the builds that validate the heap.\<close>

definition ValidateBlock :: "cluster \<Rightarrow> nat \<Rightarrow> unit c_result" where
  "ValidateBlock c ptr =
     (if ptr \<ge> m_payloadSize c \<or> dataType (blocks c ptr) \<ge> DATATYPE_FIRST_INVALID \<or>
        dataSize (blocks c ptr) = 0 \<or> ptr + dataSize (blocks c ptr) > m_payloadSize c
      then Fault Halt else Ret ())"

lemma ValidateBlock_size: "ValidateBlock c ptr = Ret u \<Longrightarrow> ptr < m_payloadSize c \<and> 0 < dataSize (blocks c ptr)"
  by (auto simp: ValidateBlock_def split: if_splits)

text \<open>The run of dead blocks from one on: where it ends and how long it is.\<close>

function dead_run :: "cluster \<Rightarrow> nat \<Rightarrow> nat \<Rightarrow> (nat \<times> nat) c_result" where
  "dead_run c next lenTot =
     (case ValidateBlock c next of
        Inl e \<Rightarrow> Inl e
      | Inr _ \<Rightarrow>
          if next + dataSize (blocks c next) < m_payloadSize c \<and> \<not> IsAlive (blocks c (next + dataSize (blocks c next)))
          then dead_run c (next + dataSize (blocks c next)) (lenTot + dataSize (blocks c next))
          else Ret (next + dataSize (blocks c next), lenTot + dataSize (blocks c next)))"
  by pat_completeness auto
termination
  by (relation "measure (\<lambda>(c, next, _). m_payloadSize c - next)") (auto dest!: ValidateBlock_size)

declare dead_run.simps [simp del]

lemma dead_run_advances: "dead_run c next n = Ret (next', n') \<Longrightarrow> next < next' \<and> next < m_payloadSize c"
proof (induction c "next" n rule: dead_run.induct)
  case (1 c nxt n)
  then show ?case
    by (subst (asm) (2) dead_run.simps)
      (auto simp: Let_def split: sum.splits if_splits dest!: ValidateBlock_size)
qed

text \<open>One free block in place of a run of dead ones, linked behind the last free block.\<close>

definition link_free :: "nat \<Rightarrow> nat \<Rightarrow> node_ptr \<Rightarrow> cluster \<Rightarrow> cluster c_result" where
  "link_free ptr lenTot last' c =
     c_bind (change_block ptr (SetDataId DATATYPE_FREEBLOCK (ucast HB_Pinned) lenTot) c) (\<lambda>c.
     c_bind (SetNext last' (Blk ptr) c) (\<lambda>c.
     SetPrev (Blk ptr) last' c))"

lemma payload_put [simp]:
  "m_payloadSize (put_next p q c) = m_payloadSize c" "m_payloadSize (put_prev p q c) = m_payloadSize c"
  "m_payloadSize (update_block a f c) = m_payloadSize c"
  by (cases p; simp add: update_block_def)+

lemma change_block_payload: "change_block a f c = Ret c' \<Longrightarrow> m_payloadSize c' = m_payloadSize c"
  by (auto simp: change_block_def split: if_splits)

lemma SetNext_payload: "SetNext p q c = Ret c' \<Longrightarrow> m_payloadSize c' = m_payloadSize c"
  by (auto simp: SetNext_def split: if_splits)

lemma SetPrev_payload: "SetPrev p q c = Ret c' \<Longrightarrow> m_payloadSize c' = m_payloadSize c"
  by (auto simp: SetPrev_def split: if_splits)

lemma link_free_payload: "link_free ptr n l c = Ret c' \<Longrightarrow> m_payloadSize c' = m_payloadSize c"
  by (auto simp: link_free_def c_bind_Inr_iff dest!: change_block_payload SetNext_payload SetPrev_payload)

function RecoverFromGC_loop :: "cluster \<Rightarrow> nat \<Rightarrow> node_ptr \<Rightarrow> (cluster \<times> node_ptr) c_result" where
  "RecoverFromGC_loop c ptr last' =
     (if ptr < m_payloadSize c then
        (case ValidateBlock c ptr of
           Inl e \<Rightarrow> Inl e
         | Inr _ \<Rightarrow>
             if \<not> IsAlive (blocks c ptr) then
               (case dead_run c ptr 0 of
                  Inl e \<Rightarrow> Inl e
                | Inr (next, lenTot) \<Rightarrow>
                    (case link_free ptr lenTot last' c of
                       Inl e \<Rightarrow> Inl e
                     | Inr c' \<Rightarrow> RecoverFromGC_loop c' next (Blk ptr)))
             else
               (let c' = (if IsEvent (blocks c ptr) then c else update_block ptr MarkDead c) in
                RecoverFromGC_loop c' (ptr + dataSize (blocks c ptr)) last'))
      else Ret (c, last'))"
  by pat_completeness auto
termination
  by (relation "measure (\<lambda>(c, ptr, _). m_payloadSize c - ptr)")
    (auto dest!: ValidateBlock_size dead_run_advances link_free_payload)

declare RecoverFromGC_loop.simps [simp del]

definition RecoverFromGC :: "cluster \<Rightarrow> cluster c_result" where
  "RecoverFromGC c =
     c_bind (SetPrev Head Null c) (\<lambda>c.
     c_bind (RecoverFromGC_loop c 0 Head) (\<lambda>(c, last').
     c_bind (SetNext last' Tail c) (\<lambda>c.
     c_bind (SetPrev Tail last' c) (\<lambda>c.
     SetNext Tail Null c))))"

section \<open>Returning a region\<close>

text \<open>The first free block behind a node, or the tail.\<close>

partial_function (option) insert_point :: "cluster \<Rightarrow> nat \<Rightarrow> node_ptr \<Rightarrow> node_ptr c_result option" where
  "insert_point c node ptr =
     (case Next c ptr of
        Inl e \<Rightarrow> Some (Inl e)
      | Inr ptrNext \<Rightarrow>
          if ptrNext = Null then Some (Ret ptr)
          else (case ptr of
              Blk a \<Rightarrow> if a > node then Some (Ret ptr) else insert_point c node ptrNext
            | _ \<Rightarrow> Some (Fault BadIndex)))"

text \<open>\<open>ConsistencyCheck_Nodes\<close> of the builds that validate the heap: both neighbours or none.\<close>

definition ConsistencyCheck_Nodes :: "node_ptr \<Rightarrow> node_ptr \<Rightarrow> unit c_result" where
  "ConsistencyCheck_Nodes prev next =
     (if (prev = Null) \<longleftrightarrow> (next = Null) then Ret () else Fault Halt)"

definition RemoveFromList :: "node_ptr \<Rightarrow> cluster \<Rightarrow> cluster c_result" where
  "RemoveFromList p c =
     c_bind (Prev c p) (\<lambda>prev.
     c_bind (Next c p) (\<lambda>next.
     c_bind (ConsistencyCheck_Nodes prev next) (\<lambda>_.
     c_bind (if prev \<noteq> Null then SetNext prev next c else Ret c) (\<lambda>c.
     if next \<noteq> Null then SetPrev next prev c else Ret c))))"

definition Unlink :: "node_ptr \<Rightarrow> cluster \<Rightarrow> cluster c_result" where
  "Unlink p c =
     c_bind (RemoveFromList p c) (\<lambda>c.
     c_bind (SetPrev p Null c) (\<lambda>c.
     SetNext p Null c))"

definition InsertBeforeNode :: "node_ptr \<Rightarrow> node_ptr \<Rightarrow> cluster \<Rightarrow> cluster c_result option" where
  "InsertBeforeNode node nodeNew c =
     (case ValidateList c of
        None \<Rightarrow> None
      | Some (Inl e) \<Rightarrow> Some (Inl e)
      | Some (Inr _) \<Rightarrow> Some
          (if node \<noteq> Null \<and> nodeNew \<noteq> Null \<and> node \<noteq> nodeNew then
             c_bind (RemoveFromList nodeNew c) (\<lambda>c.
             c_bind (Prev c node) (\<lambda>prev.
             c_bind (SetNext nodeNew node c) (\<lambda>c.
             c_bind (SetPrev nodeNew prev c) (\<lambda>c.
             c_bind (SetPrev node nodeNew c) (\<lambda>c.
             SetNext prev nodeNew c)))))
           else Ret c))"

text \<open>The size of a node; only a block has one.\<close>

definition block_of :: "node_ptr \<Rightarrow> nat c_result" where
  "block_of p = (case p of Blk a \<Rightarrow> Ret a | _ \<Rightarrow> Fault BadIndex)"

definition coalesce_following :: "nat \<Rightarrow> nat \<Rightarrow> cluster \<Rightarrow> (nat \<times> cluster) c_result" where
  "coalesce_following node sz c =
     c_bind (Next c (Blk node)) (\<lambda>ptr.
     c_bind (Next c ptr) (\<lambda>ptrNext.
     if ptrNext \<noteq> Null \<and> ptr = Blk (node + sz)
     then c_bind (Unlink ptr c) (\<lambda>c'. Ret (sz + dataSize (blocks c (node + sz)), c'))
     else Ret (sz, c)))"

definition coalesce_preceding :: "nat \<Rightarrow> nat \<Rightarrow> cluster \<Rightarrow> (nat \<times> nat \<times> cluster) c_result" where
  "coalesce_preceding node sz c =
     c_bind (Prev c (Blk node)) (\<lambda>ptr.
     c_bind (Prev c ptr) (\<lambda>ptrPrev.
     if ptrPrev \<noteq> Null then
       c_bind (block_of ptr) (\<lambda>a.
       if a + dataSize (blocks c a) = node
       then c_bind (Unlink (Blk node) c) (\<lambda>c'. Ret (a, sz + dataSize (blocks c a), c'))
       else Ret (node, sz, c))
     else Ret (node, sz, c)))"

definition coalesce :: "nat \<Rightarrow> nat \<Rightarrow> cluster \<Rightarrow> (nat \<times> cluster) c_result" where
  "coalesce node sz c =
     c_bind (coalesce_following node sz c) (\<lambda>(sz, c).
     c_bind (coalesce_preceding node sz c) (\<lambda>(node, sz, c).
     c_bind (change_block node (SetDataId DATATYPE_FREEBLOCK (ucast HB_Pinned) sz) c) (\<lambda>c.
     Ret (node, c))))"

definition InsertInOrder :: "nat \<Rightarrow> nat \<Rightarrow> cluster \<Rightarrow> (nat \<times> cluster) c_result option" where
  "InsertInOrder node sz c =
     (case insert_point c node (m_first c) of
        None \<Rightarrow> None
      | Some (Inl e) \<Rightarrow> Some (Inl e)
      | Some (Inr ptr) \<Rightarrow>
          (case change_block node ClearData c of
             Inl e \<Rightarrow> Some (Inl e)
           | Inr c \<Rightarrow>
               (case InsertBeforeNode ptr (Blk node) c of
                  None \<Rightarrow> None
                | Some (Inl e) \<Rightarrow> Some (Inl e)
                | Some (Inr c) \<Rightarrow> Some (coalesce node sz c))))"

section \<open>Initialization\<close>

definition salvage_weak :: "hblock \<Rightarrow> bool" where
  "salvage_weak b \<longleftrightarrow> dataType b = DATATYPE_WEAKCLASS \<and>
     dataSize b = unat (CONVERTFROMSIZETOHEAPBLOCKS sizeof_WeakReference) \<and> weak_target b \<and>
     weak_flags b AND WR_SurviveBoot \<noteq> 0"

definition salvage_array :: "nat \<Rightarrow> nat \<Rightarrow> hblock \<Rightarrow> bool" where
  "salvage_array ptr last' b \<longleftrightarrow> dataType b = DATATYPE_SZARRAY \<and>
     arr_typeOfElement b = DATATYPE_U1 \<and> arr_fReference b = 0 \<and>
     dataSize b = unat (CONVERTFROMSIZETOHEAPBLOCKS
       (sizeof_HeapBlock_Array + ucast (arr_sizeOfElement b) * arr_numOfElements b)) \<and>
     ptr + dataSize b \<le> last'"

definition revive_weak :: "hblock \<Rightarrow> hblock" where
  "revive_weak b = MarkAlive (b\<lparr>nextBlock := Null, prevBlock := Null,
     weak_flags := weak_flags b AND NOT WR_Persisted\<rparr>)"

text \<open>The scan for objects to salvage; what is none becomes free blocks of the given size.\<close>

partial_function (option) Initialize_loop :: "nat \<Rightarrow> nat \<Rightarrow> cluster \<Rightarrow> cluster option" where
  "Initialize_loop ptr blockSize c =
     (if ptr < m_payloadSize c then
        let b = blocks c ptr in
        if salvage_weak b then Initialize_loop (ptr + dataSize b) blockSize (update_block ptr revive_weak c)
        else if salvage_array ptr (m_payloadSize c) b
        then Initialize_loop (ptr + dataSize b) blockSize (update_block ptr MarkAlive c)
        else
          let blockSize = (if ptr + blockSize > m_payloadSize c then m_payloadSize c - ptr else blockSize) in
          Initialize_loop (ptr + blockSize) blockSize
            (update_block ptr (SetDataId DATATYPE_FREEBLOCK 0 blockSize) c)
      else Some c)"

definition sizeof_HeapCluster :: nat where "sizeof_HeapCluster = 32"

text \<open>The cluster over a memory that nobody erased.\<close>

definition HeapCluster_Initialize :: "nat \<Rightarrow> nat \<Rightarrow> cluster \<Rightarrow> cluster c_result option" where
  "HeapCluster_Initialize sz blockSize c =
     (case Initialize_loop 0 blockSize
         ((DblLinkedList_Initialize c)\<lparr>m_payloadSize := (sz - sizeof_HeapCluster) div unat sizeof_HeapBlock\<rparr>) of
        None \<Rightarrow> None
      | Some c' \<Rightarrow>
          (case RecoverFromGC c' of
             Inl e \<Rightarrow> Some (Inl e)
           | Inr c'' \<Rightarrow>
               (case ValidateList c'' of
                  None \<Rightarrow> None
                | Some (Inl e) \<Rightarrow> Some (Inl e)
                | Some (Inr _) \<Rightarrow> Some (Ret c''))))"

end
