(* ===== verification/NF_HeapProps.thy ===== *)
theory NF_HeapProps
  imports NF_HeapCluster
begin

text \<open>
  The invariant of a heap cluster (its blocks tile the payload, and the free list holds exactly the
  free blocks, in order of their addresses) and what the allocator and the sweep of the garbage
  collector make of it.
\<close>

section \<open>Lists of nodes\<close>

text \<open>A doubly linked path from one node over some blocks to another.\<close>

fun seg :: "cluster \<Rightarrow> node_ptr \<Rightarrow> nat list \<Rightarrow> node_ptr \<Rightarrow> bool" where
  "seg c p [] q \<longleftrightarrow> link_next c p = q \<and> link_prev c q = p"
| "seg c p (a # as) q \<longleftrightarrow> link_next c p = Blk a \<and> link_prev c (Blk a) = p \<and> seg c (Blk a) as q"

definition free_list :: "cluster \<Rightarrow> nat list \<Rightarrow> bool" where
  "free_list c fs \<longleftrightarrow> seg c Head fs Tail \<and> m_null c = Null \<and> (\<forall>a \<in> set fs. a < m_payloadSize c) \<and> distinct fs"

lemma seg_append: "seg c p (xs @ a # ys) q \<longleftrightarrow> seg c p xs (Blk a) \<and> seg c (Blk a) ys q"
  by (induction xs arbitrary: p) auto

lemma seg_prev_in: "seg c p xs q \<Longrightarrow> link_prev c q \<in> set (p # map Blk xs)"
  by (induction xs arbitrary: p) auto

lemma seg_next_in: "seg c p xs q \<Longrightarrow> link_next c p \<in> set (map Blk xs @ [q])"
  by (cases xs) auto

lemma seg_frame:
  "(\<forall>x \<in> set (p # map Blk xs). link_next c' x = link_next c x) \<Longrightarrow>
   (\<forall>x \<in> set (q # map Blk xs). link_prev c' x = link_prev c x) \<Longrightarrow> seg c' p xs q \<longleftrightarrow> seg c p xs q"
  by (induction xs arbitrary: p) auto

lemma seg_retarget:
  assumes "seg c p xs q" and "distinct xs" and "p \<notin> Blk ` set xs"
    and "\<forall>x \<in> set (p # map Blk xs). x \<noteq> link_prev c q \<longrightarrow> link_next c' x = link_next c x"
    and "\<forall>x \<in> set (map Blk xs). link_prev c' x = link_prev c x"
    and "link_next c' (link_prev c q) = r" and "link_prev c' r = link_prev c q"
  shows "seg c' p xs r"
  using assms
proof (induction xs arbitrary: p)
  case (Cons a as)
  have s: "link_next c p = Blk a" "link_prev c (Blk a) = p" "seg c (Blk a) as q" using Cons.prems(1) by auto
  have "p \<noteq> link_prev c q" using seg_prev_in [OF s(3)] Cons.prems(3) by auto
  then have "link_next c' p = Blk a" "link_prev c' (Blk a) = p" using Cons.prems(4,5) s by auto
  moreover have "seg c' (Blk a) as r"
    using Cons.IH [OF s(3)] Cons.prems(2,4-7) by auto
  ultimately show ?case by simp
qed auto

lemma seg_resource:
  assumes "seg c q ys t" and "distinct ys" and "t \<notin> Blk ` set ys" and "q \<notin> Blk ` set ys"
    and "\<forall>x \<in> set (map Blk ys). link_next c' x = link_next c x"
    and "\<forall>x \<in> set (t # map Blk ys). x \<noteq> link_next c q \<longrightarrow> link_prev c' x = link_prev c x"
    and "link_prev c' (link_next c q) = r" and "link_next c' r = link_next c q"
  shows "seg c' r ys t"
proof (cases ys)
  case Nil
  then show ?thesis using assms by auto
next
  case (Cons y zs)
  have s: "link_next c q = Blk y" "seg c (Blk y) zs t" using assms(1) Cons by auto
  have "link_prev c' (Blk x) = link_prev c (Blk x)" if "x \<in> set zs" for x
  proof -
    have "Blk x \<noteq> link_next c q" using that assms(2) Cons s(1) by auto
    moreover have "Blk x \<in> set (t # map Blk ys)" using that Cons by simp
    ultimately show ?thesis using assms(6) by blast
  qed
  then have "seg c' (Blk y) zs t"
    using seg_frame [of "Blk y" zs c' c t] s(2) assms(3,5,6) Cons s(1) by auto
  then show ?thesis using Cons s(1) assms(7,8) by simp
qed

subsection \<open>Updates\<close>

lemma link_next_put_next:
  "p \<noteq> Null \<Longrightarrow> p \<noteq> Tail \<Longrightarrow> link_next (put_next p q c) x = (if x = p then q else link_next c x)"
  by (cases p; cases x) (auto simp: update_block_def)

lemma link_prev_put_next: "p \<noteq> Tail \<Longrightarrow> link_prev (put_next p q c) x = link_prev c x"
  by (cases p; cases x) (auto simp: update_block_def)

lemma link_prev_put_prev:
  "p \<noteq> Null \<Longrightarrow> p \<noteq> Head \<Longrightarrow> link_prev (put_prev p q c) x = (if x = p then q else link_prev c x)"
  by (cases p; cases x) (auto simp: update_block_def)

lemma link_next_put_prev: "p \<noteq> Head \<Longrightarrow> link_next (put_prev p q c) x = link_next c x"
  by (cases p; cases x) (auto simp: update_block_def)

lemma link_update_block:
  assumes "\<And>b. nextBlock (f b) = nextBlock b" and "\<And>b. prevBlock (f b) = prevBlock b"
  shows "link_next (update_block a f c) x = link_next c x"
    and "link_prev (update_block a f c) x = link_prev c x"
  using assms by (cases x; simp add: update_block_def)+

lemma SetDataId_links [simp]:
  "nextBlock (SetDataId dt fl sz b) = nextBlock b" "prevBlock (SetDataId dt fl sz b) = prevBlock b"
  by (simp_all add: SetDataId_def)

lemmas link_SetDataId [simp] = link_update_block [of "SetDataId dt fl sz" for dt fl sz, simplified]

lemma InitializeToZero_id [simp]:
  "dataType (InitializeToZero b) = dataType b" "hflags (InitializeToZero b) = hflags b"
  "dataSize (InitializeToZero b) = dataSize b"
  by (simp_all add: InitializeToZero_def ClearData_def Let_def)

lemma link_clear:
  "x \<noteq> Blk a \<Longrightarrow> link_next (update_block a InitializeToZero c) x = link_next c x"
  "x \<noteq> Blk a \<Longrightarrow> link_prev (update_block a InitializeToZero c) x = link_prev c x"
  by (cases x; simp add: update_block_def)+

lemma m_null_put [simp]:
  "p \<noteq> Tail \<Longrightarrow> m_null (put_next p q c) = m_null c" "p \<noteq> Head \<Longrightarrow> m_null (put_prev p q c) = m_null c"
  "m_null (update_block a f c) = m_null c"
  by (cases p; simp add: update_block_def)+

lemma node_ok_payload: "m_payloadSize c' = m_payloadSize c \<Longrightarrow> node_ok c' p = node_ok c p"
  by (cases p) auto

lemma node_ok_put [simp]:
  "node_ok (put_next p q c) x = node_ok c x" "node_ok (put_prev p q c) x = node_ok c x"
  "node_ok (update_block a f c) x = node_ok c x"
  by (rule node_ok_payload; simp)+

declare link_next.simps(1,3) [simp del] link_prev.simps(2,3) [simp del]
declare put_next.simps [simp del] put_prev.simps [simp del]

text \<open>The id of a block: all that the tiling depends on.\<close>

definition same_id :: "hblock \<Rightarrow> hblock \<Rightarrow> bool" where
  "same_id b b' \<longleftrightarrow> dataType b = dataType b' \<and> dataSize b = dataSize b' \<and> hflags b = hflags b'"

lemma same_id_put [simp]:
  "same_id (blocks (put_next p q c) a) (blocks c a)" "same_id (blocks (put_prev p q c) a) (blocks c a)"
  by (cases p; simp add: update_block_def same_id_def put_next.simps put_prev.simps)+

lemma same_id_refl [simp]: "same_id b b"
  by (simp add: same_id_def)

lemma same_id_trans: "same_id b b' \<Longrightarrow> same_id b' b'' \<Longrightarrow> same_id b b''"
  by (simp add: same_id_def)

section \<open>Tilings\<close>

definition block_ok :: "hblock \<Rightarrow> bool" where
  "block_ok b \<longleftrightarrow> 0 < dataSize b \<and> dataType b < DATATYPE_FIRST_INVALID"

fun tseg :: "cluster \<Rightarrow> nat \<Rightarrow> nat list \<Rightarrow> nat \<Rightarrow> bool" where
  "tseg c a [] e \<longleftrightarrow> a = e"
| "tseg c a (b # bs) e \<longleftrightarrow> b = a \<and> block_ok (blocks c a) \<and> tseg c (a + dataSize (blocks c a)) bs e"

lemma tseg_append: "tseg c a (xs @ b # ys) e \<longleftrightarrow> tseg c a xs b \<and> tseg c b (b # ys) e"
  by (induction xs arbitrary: a) auto

lemma tseg_le: "tseg c a bs e \<Longrightarrow> a \<le> e"
  by (induction bs arbitrary: a) (auto simp: block_ok_def, fastforce)

lemma tseg_bounds: "tseg c a bs e \<Longrightarrow> b \<in> set bs \<Longrightarrow> a \<le> b \<and> b + dataSize (blocks c b) \<le> e \<and> b < e"
proof (induction bs arbitrary: a)
  case (Cons d bs)
  have t: "d = a" "block_ok (blocks c a)" "tseg c (a + dataSize (blocks c a)) bs e" using Cons.prems(1) by auto
  show ?case
  proof (cases "b = d")
    case True
    then show ?thesis using t tseg_le [OF t(3)] by (auto simp: block_ok_def)
  next
    case False
    then show ?thesis using Cons.IH [OF t(3)] Cons.prems(2) by auto
  qed
qed simp

lemma tseg_sorted: "tseg c a bs e \<Longrightarrow> sorted_wrt (<) bs"
proof (induction bs arbitrary: a)
  case (Cons d bs)
  then have t: "d = a" "0 < dataSize (blocks c a)" "tseg c (a + dataSize (blocks c a)) bs e"
    by (auto simp: block_ok_def)
  then show ?case using Cons.IH [OF t(3)] tseg_bounds [OF t(3)] by fastforce
qed simp

lemma tseg_distinct: "tseg c a bs e \<Longrightarrow> distinct bs"
  using tseg_sorted strict_sorted_iff by blast

lemma tseg_frame:
  "(\<forall>b \<in> set bs. same_id (blocks c' b) (blocks c b)) \<Longrightarrow> tseg c' a bs e \<longleftrightarrow> tseg c a bs e"
  by (induction bs arbitrary: a) (auto simp: same_id_def block_ok_def)

definition is_free :: "cluster \<Rightarrow> nat \<Rightarrow> bool" where
  "is_free c a \<longleftrightarrow> dataType (blocks c a) = DATATYPE_FREEBLOCK"

lemma is_free_frame: "same_id (blocks c' a) (blocks c a) \<Longrightarrow> is_free c' a \<longleftrightarrow> is_free c a"
  by (simp add: is_free_def same_id_def)

text \<open>The invariant, with the addresses of all blocks.\<close>

definition heap_wf :: "cluster \<Rightarrow> nat list \<Rightarrow> bool" where
  "heap_wf c bs \<longleftrightarrow> m_payloadSize c \<le> 0xFFFF \<and> tseg c 0 bs (m_payloadSize c) \<and>
     free_list c (filter (is_free c) bs) \<and> (\<forall>a \<in> set bs. is_free c a \<longrightarrow> \<not> IsAlive (blocks c a))"

section \<open>Searching\<close>

lemma Next_ok: "node_ok c p \<Longrightarrow> Next c p = Ret (link_next c p)"
  by (simp add: Next_def)

lemma Prev_ok: "node_ok c p \<Longrightarrow> Prev c p = Ret (link_prev c p)"
  by (simp add: Prev_def)

lemma ValidateList_loop_seg:
  "seg c p fs Tail \<Longrightarrow> m_null c = Null \<Longrightarrow> \<forall>a \<in> set fs. a < m_payloadSize c \<Longrightarrow> node_ok c p \<Longrightarrow>
     ValidateList_loop c p = Some (Ret ())"
proof (induction fs arbitrary: p)
  case Nil
  have "ValidateList_loop c Tail = Some (Ret ())"
    using Nil.prems by (subst ValidateList_loop.simps) (simp add: Next_ok)
  then show ?case using Nil.prems by (subst ValidateList_loop.simps) (simp add: Next_ok Prev_ok)
next
  case (Cons a fs)
  then show ?case by (subst ValidateList_loop.simps) (simp add: Next_ok Prev_ok)
qed

lemma ValidateList_free_list: "free_list c fs \<Longrightarrow> ValidateList c = Some (Ret ())"
  using ValidateList_loop_seg [of c Head fs] by (simp add: ValidateList_def free_list_def)

lemma find_forward_seg:
  "seg c p fs Tail \<Longrightarrow> m_null c = Null \<Longrightarrow> \<forall>a \<in> set fs. a < m_payloadSize c \<Longrightarrow>
     find_forward c len (link_next c p) =
       Some (Ret (map_option (\<lambda>a. (a, dataSize (blocks c a))) (find (\<lambda>a. len \<le> dataSize (blocks c a)) fs)))"
proof (induction fs arbitrary: p)
  case Nil
  then show ?case by (subst find_forward.simps) (simp add: Next_ok)
next
  case (Cons a fs)
  have "link_next c (Blk a) \<noteq> Null" using Cons.prems by (cases fs) auto
  then show ?case using Cons.prems Cons.IH [of "Blk a"]
    by (subst find_forward.simps) (simp add: Next_ok)
qed

lemma find_backward_seg:
  "seg c Head fs q \<Longrightarrow> m_null c = Null \<Longrightarrow> \<forall>a \<in> set fs. a < m_payloadSize c \<Longrightarrow>
     find_backward c len (link_prev c q) =
       Some (Ret (map_option (\<lambda>a. (a, dataSize (blocks c a))) (find (\<lambda>a. len \<le> dataSize (blocks c a)) (rev fs))))"
proof (induction fs arbitrary: q rule: rev_induct)
  case Nil
  then show ?case by (subst find_backward.simps) (simp add: Prev_ok)
next
  case (snoc a fs)
  have s: "seg c Head fs (Blk a)" "link_prev c q = Blk a" using snoc.prems(1) seg_append by auto
  have "link_prev c (Blk a) \<noteq> Null" using seg_prev_in [OF s(1)] by auto
  then show ?case using snoc.prems snoc.IH [OF s(1)] s(2)
    by (subst find_backward.simps) (simp add: Prev_ok)
qed

section \<open>Taking a block out of the free list\<close>

lemma heap_wf_split:
  assumes "heap_wf c (xs @ a # ys)" and "is_free c a"
  defines "fx \<equiv> filter (is_free c) xs" and "fy \<equiv> filter (is_free c) ys"
  shows "seg c Head fx (Blk a)" "seg c (Blk a) fy Tail" "distinct (fx @ a # fy)" "m_null c = Null"
    "tseg c 0 xs a" "tseg c (a + dataSize (blocks c a)) ys (m_payloadSize c)" "block_ok (blocks c a)"
    "a + dataSize (blocks c a) \<le> m_payloadSize c" "m_payloadSize c \<le> 0xFFFF"
    "\<And>b. b \<in> set xs \<Longrightarrow> b < a" "\<And>b. b \<in> set ys \<Longrightarrow> a + dataSize (blocks c a) \<le> b \<and> b < m_payloadSize c"
proof -
  have w: "tseg c 0 (xs @ a # ys) (m_payloadSize c)" "free_list c (filter (is_free c) (xs @ a # ys))"
    "m_payloadSize c \<le> 0xFFFF" using assms(1) by (auto simp: heap_wf_def)
  have "filter (is_free c) (xs @ a # ys) = fx @ a # fy" using assms(2) by (simp add: fx_def fy_def)
  then show "seg c Head fx (Blk a)" "seg c (Blk a) fy Tail" "distinct (fx @ a # fy)" "m_null c = Null"
    using w(2) seg_append by (auto simp: free_list_def)
  show x: "tseg c 0 xs a" and y: "tseg c (a + dataSize (blocks c a)) ys (m_payloadSize c)"
    and "block_ok (blocks c a)" using w(1) by (auto simp: tseg_append)
  show "a + dataSize (blocks c a) \<le> m_payloadSize c" using tseg_le [OF y] .
  show "m_payloadSize c \<le> 0xFFFF" using w(3) .
  show "\<And>b. b \<in> set xs \<Longrightarrow> b < a" using tseg_bounds [OF x] by blast
  show "\<And>b. b \<in> set ys \<Longrightarrow> a + dataSize (blocks c a) \<le> b \<and> b < m_payloadSize c" using tseg_bounds [OF y] by blast
qed

text \<open>The neighbours of a node, and the list with the node removed or replaced.\<close>

lemma neighbours:
  assumes "seg c Head fx (Blk a)" and "seg c (Blk a) fy Tail"
  shows "link_prev c (Blk a) \<in> {Head} \<union> Blk ` set fx" "link_next c (Blk a) \<in> {Tail} \<union> Blk ` set fy"
  using seg_prev_in [OF assms(1)] seg_next_in [OF assms(2)] by auto

lemma seg_remove:
  assumes s: "seg c Head fx (Blk a)" "seg c (Blk a) fy Tail" and d: "distinct (fx @ a # fy)"
  defines "P \<equiv> link_prev c (Blk a)" and "N \<equiv> link_next c (Blk a)"
  shows "seg (put_prev N P (put_next P N c)) Head (fx @ fy) Tail"
proof -
  let ?c = "put_prev N P (put_next P N c)"
  have PN: "P \<in> {Head} \<union> Blk ` set fx" "N \<in> {Tail} \<union> Blk ` set fy"
    unfolding P_def N_def by (rule neighbours [OF s])+
  then have P: "P \<noteq> Null" "P \<noteq> Tail" and N: "N \<noteq> Null" "N \<noteq> Head" by auto
  have nx: "link_next ?c x = (if x = P then N else link_next c x)" for x
    using P N by (simp add: link_next_put_prev link_next_put_next)
  have pv: "link_prev ?c x = (if x = N then P else link_prev c x)" for x
    using P N by (simp add: link_prev_put_prev link_prev_put_next)
  have disj: "Blk x \<noteq> N" if "x \<in> set fx" for x using that PN(2) d by auto
  have "seg ?c Head fx N"
    by (rule seg_retarget [OF s(1)]) (use d disj nx pv in \<open>auto simp: P_def [symmetric]\<close>)
  show ?thesis
  proof (cases fy)
    case Nil
    then have "N = Tail" using s(2) by (simp add: N_def)
    then show ?thesis using \<open>seg ?c Head fx N\<close> Nil by simp
  next
    case (Cons y zs)
    then have y: "N = Blk y" "seg c (Blk y) zs Tail" using s(2) by (auto simp: N_def)
    have "P \<notin> Blk ` set (y # zs)" using PN(1) d Cons by auto
    then have "seg ?c (Blk y) zs Tail \<longleftrightarrow> seg c (Blk y) zs Tail"
      using nx pv y(1) d Cons by (intro seg_frame) auto
    then show ?thesis using \<open>seg ?c Head fx N\<close> y Cons by (simp add: seg_append)
  qed
qed

lemma seg_replace:
  assumes s: "seg c Head fx (Blk a)" "seg c (Blk a) fy Tail" and d: "distinct (fx @ a # fy)"
    and b: "b \<notin> set (fx @ a # fy)"
  defines "P \<equiv> link_prev c (Blk a)" and "N \<equiv> link_next c (Blk a)"
  shows "seg (put_prev N (Blk b) (put_next P (Blk b) (put_prev (Blk b) P (put_next (Blk b) N c))))
    Head (fx @ b # fy) Tail"
proof -
  let ?c = "put_prev N (Blk b) (put_next P (Blk b) (put_prev (Blk b) P (put_next (Blk b) N c)))"
  have PN: "P \<in> {Head} \<union> Blk ` set fx" "N \<in> {Tail} \<union> Blk ` set fy"
    unfolding P_def N_def by (rule neighbours [OF s])+
  then have P: "P \<noteq> Null" "P \<noteq> Tail" "P \<noteq> Blk b" and N: "N \<noteq> Null" "N \<noteq> Head" "N \<noteq> Blk b" using b by auto
  have nx: "link_next ?c x = (if x = P then Blk b else if x = Blk b then N else link_next c x)" for x
    using P N by (simp add: link_next_put_prev link_next_put_next)
  have pv: "link_prev ?c x = (if x = N then Blk b else if x = Blk b then P else link_prev c x)" for x
    using P N by (simp add: link_prev_put_prev link_prev_put_next)
  have disj: "Blk x \<noteq> N" if "x \<in> set fx" for x using that PN(2) d by auto
  have "seg ?c Head fx (Blk b)"
    by (rule seg_retarget [OF s(1)]) (use d b disj nx pv P N in \<open>auto simp: P_def [symmetric]\<close>)
  moreover have "P \<notin> Blk ` set fy" using PN(1) d by auto
  then have "seg ?c (Blk b) fy Tail"
    by (intro seg_resource [OF s(2)]) (use d b nx pv P N in \<open>auto simp: N_def [symmetric]\<close>)
  ultimately show ?thesis by (simp add: seg_append)
qed

section \<open>Extraction\<close>

text \<open>The last steps of an extraction: the id of the block, and its contents cleared if asked for.\<close>

definition claim :: "u8 \<Rightarrow> u32 \<Rightarrow> nat \<Rightarrow> nat \<Rightarrow> cluster \<Rightarrow> cluster" where
  "claim dt flags len r c =
     (let c = update_block r (SetDataId dt flags len) c in
      if flags AND HB_InitializeToZero \<noteq> 0 then update_block r InitializeToZero c else c)"

lemma claim_simps [simp]:
  "m_payloadSize (claim dt flags len r c) = m_payloadSize c" "m_null (claim dt flags len r c) = m_null c"
  "dataType (blocks (claim dt flags len r c) r) = dt" "hflags (blocks (claim dt flags len r c) r) = ucast flags"
  "dataSize (blocks (claim dt flags len r c) r) = len mod 2 ^ 16"
  "x \<noteq> r \<Longrightarrow> blocks (claim dt flags len r c) x = blocks c x"
  by (simp_all add: claim_def Let_def update_block_def SetDataId_def)

lemma claim_seg:
  assumes "r \<notin> set fs" shows "seg (claim dt flags len r c) Head fs Tail \<longleftrightarrow> seg c Head fs Tail"
proof -
  have "x \<noteq> r" if "x \<in> set fs" for x using assms that by auto
  then show ?thesis by (intro seg_frame) (auto simp: claim_def Let_def link_clear)
qed

text \<open>What extraction promises: the new blocks, and that all else is as it was.\<close>

definition extracted_rest :: "cluster \<Rightarrow> nat list \<Rightarrow> nat \<Rightarrow> cluster \<Rightarrow> bool" where
  "extracted_rest c bs a c' \<longleftrightarrow>
     (\<forall>b \<in> set bs - {a}. same_id (blocks c' b) (blocks c b) \<and> (\<not> is_free c b \<longrightarrow> blocks c' b = blocks c b))"

lemma extracted_rest_split:
  "(\<And>x. x \<in> set xs \<union> set ys \<Longrightarrow>
      same_id (blocks c' x) (blocks c x) \<and> (\<not> is_free c x \<longrightarrow> blocks c' x = blocks c x)) \<Longrightarrow>
     extracted_rest c (xs @ a # ys) a c'"
  by (auto simp: extracted_rest_def)

text \<open>Where the new block lies in the free block, and what the free block becomes.\<close>

definition taken_at :: "u32 \<Rightarrow> nat \<Rightarrow> nat \<Rightarrow> nat \<Rightarrow> nat" where
  "taken_at flags len a s = (if flags AND ucast HB_Event \<noteq> 0 then a + (s - len) else a)"

definition remains_at :: "u32 \<Rightarrow> nat \<Rightarrow> nat \<Rightarrow> nat" where
  "remains_at flags len a = (if flags AND ucast HB_Event \<noteq> 0 then a else a + len)"

definition cut :: "nat \<Rightarrow> nat list \<Rightarrow> nat list \<Rightarrow> nat list" where
  "cut a parts bs = concat (map (\<lambda>b. if b = a then parts else [b]) bs)"

lemma cut_other: "a \<notin> set bs \<Longrightarrow> cut a parts bs = bs"
  by (induction bs) (auto simp: cut_def)

lemma cut_split: "a \<notin> set xs \<Longrightarrow> a \<notin> set ys \<Longrightarrow> cut a parts (xs @ a # ys) = xs @ parts @ ys"
  using cut_other [of a xs] cut_other [of a ys] by (simp add: cut_def)

lemma cut_wf:
  assumes "heap_wf c (xs @ a # ys)" shows "cut a parts (xs @ a # ys) = xs @ parts @ ys"
  using assms tseg_distinct [of c 0 "xs @ a # ys"] by (intro cut_split) (auto simp: heap_wf_def)

definition extracted ::
    "cluster \<Rightarrow> nat list \<Rightarrow> nat \<Rightarrow> nat \<Rightarrow> u8 \<Rightarrow> u32 \<Rightarrow> nat \<Rightarrow> nat \<Rightarrow> cluster \<Rightarrow> bool" where
  "extracted c bs a s dt flags len r c' \<longleftrightarrow>
     r = taken_at flags len a s \<and> m_payloadSize c' = m_payloadSize c \<and>
     heap_wf c' (cut a (if len = s then [a] else [a, max r (remains_at flags len a)]) bs) \<and>
     dataType (blocks c' r) = dt \<and> hflags (blocks c' r) = ucast flags \<and> dataSize (blocks c' r) = len \<and>
     (len < s \<longrightarrow> is_free c' (remains_at flags len a) \<and> dataSize (blocks c' (remains_at flags len a)) = s - len) \<and>
     extracted_rest c bs a c'"

lemma blocks_put_other [simp]:
  "p \<noteq> Blk x \<Longrightarrow> blocks (put_next p q c) x = blocks c x" "p \<noteq> Blk x \<Longrightarrow> blocks (put_prev p q c) x = blocks c x"
  by (cases p; simp add: update_block_def put_next.simps put_prev.simps)+

lemma FREEBLOCK_ok: "DATATYPE_FREEBLOCK < DATATYPE_FIRST_INVALID"
  by (simp add: DATATYPE_FREEBLOCK_def DATATYPE_FIRST_INVALID_def)

lemma Pinned_dead: "ucast (ucast HB_Pinned :: u32) AND HB_Alive = 0"
  by (simp add: HB_Pinned_def HB_Alive_def)

text \<open>The whole block.\<close>

lemma extract_exact:
  assumes wf: "heap_wf c (xs @ a # ys)" and free: "is_free c a" and len: "dataSize (blocks c a) = len"
    and dt: "dt \<noteq> DATATYPE_FREEBLOCK" "dt < DATATYPE_FIRST_INVALID"
  shows "\<exists>c'. extract_from dt flags len a (dataSize (blocks c a)) c = Ret (a, c') \<and>
    extracted c (xs @ a # ys) a (dataSize (blocks c a)) dt flags len a c'"
proof -
  define fx fy where "fx = filter (is_free c) xs" and "fy = filter (is_free c) ys"
  note w = heap_wf_split [OF wf free, folded fx_def fy_def]
  define P N where "P = link_prev c (Blk a)" and "N = link_next c (Blk a)"
  let ?c = "put_prev N P (put_next P N c)"
  let ?c' = "claim dt flags len a ?c"
  have PN: "P \<in> {Head} \<union> Blk ` set fx" "N \<in> {Tail} \<union> Blk ` set fy"
    unfolding P_def N_def by (rule neighbours [OF w(1,2)])+
  have rng: "x < m_payloadSize c" if "x \<in> set xs \<union> set ys \<union> {a}" for x
    using that w(7,8,10,11) by (fastforce simp: block_ok_def)
  have ok: "node_ok c (Blk a)" "node_ok c P" "node_ok c N"
    using PN rng by (auto simp: fx_def fy_def)
  have ex: "extract_from dt flags len a (dataSize (blocks c a)) c = Ret (a, ?c')"
    using ok len unfolding extract_from_def
    by (simp add: Next_ok Prev_ok SetNext_def SetPrev_def change_block_def claim_def
        flip: P_def N_def)
  have id: "same_id (blocks ?c' x) (blocks c x)" if "x \<noteq> a" for x
    using that by (simp add: same_id_trans [OF same_id_put(2) same_id_put(1)])
  have nn: "a \<notin> set xs" "a \<notin> set ys" using w(7,10,11) by (force simp: block_ok_def)+
  have fr: "is_free ?c' x \<longleftrightarrow> is_free c x" if "x \<noteq> a" for x by (rule is_free_frame [OF id [OF that]])
  have ne: "x \<noteq> a" if "x \<in> set xs \<union> set ys" for x using that nn by blast
  have "filter (is_free ?c') xs = fx" unfolding fx_def by (rule filter_cong) (use ne fr in auto)
  moreover have "filter (is_free ?c') ys = fy" unfolding fy_def by (rule filter_cong) (use ne fr in auto)
  ultimately have free': "filter (is_free ?c') (xs @ a # ys) = fx @ fy" using dt(1) by (simp add: is_free_def)
  have "block_ok (blocks ?c' a)" "dataSize (blocks ?c' a) = dataSize (blocks c a)"
    using w(7,8,9) dt len by (simp_all add: block_ok_def)
  moreover have "tseg ?c' 0 xs a" "tseg ?c' (a + dataSize (blocks c a)) ys (m_payloadSize c)"
    using w(5,6) nn id tseg_frame by (metis (no_types, lifting))+
  ultimately have "tseg ?c' 0 (xs @ a # ys) (m_payloadSize c)" by (simp add: tseg_append)
  moreover have "seg ?c' Head (fx @ fy) Tail"
    using seg_remove [OF w(1-3)] claim_seg [of a "fx @ fy" dt flags len ?c] w(3)
    unfolding P_def [symmetric] N_def [symmetric] by auto
  moreover have "m_null ?c' = Null" using w(4) PN by auto
  moreover have "\<not> IsAlive (blocks ?c' x)" if "x \<in> set (xs @ a # ys)" "is_free ?c' x" for x
  proof -
    have "x \<noteq> a" using that(2) dt(1) by (auto simp: is_free_def)
    then show ?thesis using that wf id [of x] is_free_frame [OF id]
      by (auto simp: heap_wf_def IsFlagSet_def same_id_def)
  qed
  ultimately have "heap_wf ?c' (xs @ a # ys)"
    using w(3,9) rng free' by (auto simp: heap_wf_def free_list_def fx_def fy_def)
  moreover have "blocks ?c' x = blocks c x" if "x \<in> set xs \<union> set ys" "\<not> is_free c x" for x
  proof -
    have "P \<noteq> Blk x" "N \<noteq> Blk x" using PN that(2) by (auto simp: fx_def fy_def)
    then show ?thesis using ne [OF that(1)] by simp
  qed
  then have "extracted_rest c (xs @ a # ys) a ?c'" using id ne by (intro extracted_rest_split) blast
  ultimately have "extracted c (xs @ a # ys) a (dataSize (blocks c a)) dt flags len a ?c'"
    using len w(8,9) by (simp add: extracted_def cut_wf [OF wf] taken_at_def)
  then show ?thesis using ex by blast
qed

text \<open>A free block divided in two, one of which stays free.\<close>

lemma split_wf:
  assumes wf: "heap_wf c (xs @ a # ys)" and free: "is_free c a"
    and k: "0 < k" "k < dataSize (blocks c a)"
    and c': "m_payloadSize c' = m_payloadSize c" "m_null c' = Null"
    and id: "\<And>x. x \<noteq> a \<Longrightarrow> x \<noteq> a + k \<Longrightarrow> same_id (blocks c' x) (blocks c x)"
    and ok: "block_ok (blocks c' a)" "block_ok (blocks c' (a + k))"
    and sz: "dataSize (blocks c' a) = k" "dataSize (blocks c' (a + k)) = dataSize (blocks c a) - k"
    and d: "{d, r} = {a, a + k}" "is_free c' d" "\<not> is_free c' r" "\<not> IsAlive (blocks c' d)"
    and seg: "seg c' Head (filter (is_free c) xs @ d # filter (is_free c) ys) Tail"
  shows "heap_wf c' (xs @ a # (a + k) # ys)"
proof -
  define fx fy where "fx = filter (is_free c) xs" and "fy = filter (is_free c) ys"
  note w = heap_wf_split [OF wf free, folded fx_def fy_def]
  have ne: "x \<noteq> a" "x \<noteq> a + k" if "x \<in> set xs \<union> set ys" for x
    using that w(10,11) k by fastforce+
  have idx: "same_id (blocks c' x) (blocks c x)" if "x \<in> set xs \<union> set ys" for x
    using id ne that by blast
  have rng: "x < m_payloadSize c" if "x \<in> set xs \<union> set ys \<union> {a, a + k}" for x
    using that w(8,10,11) k by fastforce
  have "filter (is_free c') xs = fx" unfolding fx_def by (rule filter_cong) (use idx is_free_frame in auto)
  moreover have "filter (is_free c') ys = fy" unfolding fy_def by (rule filter_cong) (use idx is_free_frame in auto)
  moreover have "d = a \<and> r = a + k \<or> d = a + k \<and> r = a" using d(1) by (auto simp: doubleton_eq_iff)
  ultimately have fs: "filter (is_free c') (xs @ a # (a + k) # ys) = fx @ d # fy" using d(2,3) by auto
  have "d \<notin> set fx \<union> set fy" using ne d(1) by (auto simp: fx_def fy_def doubleton_eq_iff)
  then have dist: "distinct (fx @ d # fy)" using w(3) by auto
  have "tseg c' 0 xs a" "tseg c' (a + dataSize (blocks c a)) ys (m_payloadSize c)"
    using w(5,6) idx tseg_frame by (metis (no_types, lifting) UnI1 UnI2)+
  then have "tseg c' 0 (xs @ a # (a + k) # ys) (m_payloadSize c)" using ok sz k by (simp add: tseg_append)
  moreover have "\<not> IsAlive (blocks c' x)" if "x \<in> set (xs @ a # (a + k) # ys)" "is_free c' x" for x
  proof (cases "x = d")
    case False
    then have x: "x \<in> set xs \<union> set ys" using that d by auto
    then have "\<not> IsAlive (blocks c x)" using that(2) wf is_free_frame [OF idx [OF x]] by (auto simp: heap_wf_def)
    then show ?thesis using idx [OF x] by (simp add: IsFlagSet_def same_id_def)
  qed (use d(4) in simp)
  moreover have "\<forall>x \<in> set (fx @ d # fy). x < m_payloadSize c" using rng d(1) by (auto simp: fx_def fy_def)
  ultimately show ?thesis using w(9) c' seg dist fs
    by (simp add: heap_wf_def free_list_def fx_def fy_def)
qed

lemma blocks_put_id:
  "dataType (blocks (put_next p q c) x) = dataType (blocks c x)"
  "dataType (blocks (put_prev p q c) x) = dataType (blocks c x)"
  "dataSize (blocks (put_next p q c) x) = dataSize (blocks c x)"
  "dataSize (blocks (put_prev p q c) x) = dataSize (blocks c x)"
  "hflags (blocks (put_next p q c) x) = hflags (blocks c x)"
  "hflags (blocks (put_prev p q c) x) = hflags (blocks c x)"
  using same_id_put [of p q c x] by (simp_all add: same_id_def)

lemma update_SetDataId [simp]:
  "dataType (blocks (update_block a (SetDataId dt fl n) c) x) = (if x = a then dt else dataType (blocks c x))"
  "hflags (blocks (update_block a (SetDataId dt fl n) c) x) = (if x = a then ucast fl else hflags (blocks c x))"
  "dataSize (blocks (update_block a (SetDataId dt fl n) c) x) = (if x = a then n mod 2 ^ 16 else dataSize (blocks c x))"
  by (simp_all add: update_block_def SetDataId_def)

text \<open>The front part, for an ordinary block.\<close>

lemma extract_front:
  assumes wf: "heap_wf c (xs @ a # ys)" and free: "is_free c a"
    and len: "0 < len" "len < dataSize (blocks c a)" and ev: "flags AND ucast HB_Event = 0"
    and dt: "dt \<noteq> DATATYPE_FREEBLOCK" "dt < DATATYPE_FIRST_INVALID"
  shows "\<exists>c'. extract_from dt flags len a (dataSize (blocks c a)) c = Ret (a, c') \<and>
    extracted c (xs @ a # ys) a (dataSize (blocks c a)) dt flags len a c'"
proof -
  let ?s = "dataSize (blocks c a)"
  define fx fy where "fx = filter (is_free c) xs" and "fy = filter (is_free c) ys"
  note w = heap_wf_split [OF wf free, folded fx_def fy_def]
  define P N where "P = link_prev c (Blk a)" and "N = link_next c (Blk a)"
  let ?d = "a + len"
  let ?c1 = "update_block ?d (SetDataId DATATYPE_FREEBLOCK (ucast HB_Pinned) (?s - len)) c"
  let ?c2 = "put_prev N (Blk ?d) (put_next P (Blk ?d) (put_prev (Blk ?d) P (put_next (Blk ?d) N ?c1)))"
  let ?c' = "claim dt flags len a ?c2"
  have PN: "P \<in> {Head} \<union> Blk ` set fx" "N \<in> {Tail} \<union> Blk ` set fy"
    unfolding P_def N_def by (rule neighbours [OF w(1,2)])+
  have rng: "x < m_payloadSize c" if "x \<in> set xs \<union> set ys \<union> {a, ?d}" for x
    using that w(8,10,11) len by fastforce
  have ok: "node_ok c (Blk a)" "node_ok c (Blk ?d)" "node_ok c P" "node_ok c N"
    using PN rng by (auto simp: fx_def fy_def)
  have small: "?s < 2 ^ 16" "len < 2 ^ 16" "(?s - len) mod 2 ^ 16 = ?s - len" using w(8,9) len by simp_all
  have ex: "extract_from dt flags len a ?s c = Ret (a, ?c')"
    using ok len ev unfolding extract_from_def Let_def
    by (simp add: Next_ok Prev_ok SetNext_def SetPrev_def change_block_def claim_def Let_def
        flip: P_def N_def)
  have dn: "?d \<notin> set (fx @ a # fy)" using w(10,11) len by (fastforce simp: fx_def fy_def)
  have s1: "seg ?c1 Head fx (Blk a)" "seg ?c1 (Blk a) fy Tail" "link_prev ?c1 (Blk a) = P" "link_next ?c1 (Blk a) = N"
    using w(1,2) seg_frame [of Head fx ?c1 c "Blk a"] seg_frame [of "Blk a" fy ?c1 c Tail]
    by (simp_all add: P_def N_def)
  have "seg ?c2 Head (fx @ ?d # fy) Tail"
    using seg_replace [OF s1(1,2) w(3) dn] unfolding s1(3,4) .
  moreover have "a \<notin> set (fx @ ?d # fy)" using w(3) len by auto
  ultimately have seg: "seg ?c' Head (fx @ ?d # fy) Tail" by (simp add: claim_seg)
  have dead: "\<not> IsAlive (blocks ?c' ?d)" using len Pinned_dead by (simp add: IsFlagSet_def blocks_put_id)
  have "heap_wf ?c' (xs @ a # ?d # ys)"
  proof (rule split_wf [OF wf free, where d = ?d and r = a])
    show "seg ?c' Head (filter (is_free c) xs @ ?d # filter (is_free c) ys) Tail"
      using seg unfolding fx_def fy_def .
    show "m_null ?c' = Null" using w(4) PN by auto
    show "same_id (blocks ?c' x) (blocks c x)" if "x \<noteq> a" "x \<noteq> ?d" for x
      using that by (simp add: same_id_def blocks_put_id)
  qed (use len small dt dead FREEBLOCK_ok in
      \<open>simp_all add: block_ok_def blocks_put_id is_free_def insert_commute\<close>)
  moreover have ne: "x \<noteq> a" "x \<noteq> ?d" if "x \<in> set xs \<union> set ys" for x
    using that w(10,11) len by fastforce+
  have id: "same_id (blocks ?c' x) (blocks c x)" if "x \<in> set xs \<union> set ys" for x
    using ne [OF that] by (simp add: same_id_def blocks_put_id)
  have "blocks ?c' x = blocks c x" if "x \<in> set xs \<union> set ys" "\<not> is_free c x" for x
  proof -
    have "P \<noteq> Blk x" "N \<noteq> Blk x" using PN that(2) by (auto simp: fx_def fy_def)
    then show ?thesis using ne [OF that(1)] by (simp add: update_block_def)
  qed
  then have "extracted_rest c (xs @ a # ys) a ?c'" using id by (intro extracted_rest_split) blast
  ultimately have "extracted c (xs @ a # ys) a ?s dt flags len a ?c'"
    using len small ev
    by (simp add: extracted_def cut_wf [OF wf] taken_at_def remains_at_def is_free_def blocks_put_id)
  then show ?thesis using ex by blast
qed

text \<open>The back part, for an event.\<close>

lemma extract_back:
  assumes wf: "heap_wf c (xs @ a # ys)" and free: "is_free c a"
    and len: "0 < len" "len < dataSize (blocks c a)" and ev: "flags AND ucast HB_Event \<noteq> 0"
    and dt: "dt \<noteq> DATATYPE_FREEBLOCK" "dt < DATATYPE_FIRST_INVALID"
  defines "r \<equiv> a + (dataSize (blocks c a) - len)"
  shows "\<exists>c'. extract_from dt flags len a (dataSize (blocks c a)) c = Ret (r, c') \<and>
    extracted c (xs @ a # ys) a (dataSize (blocks c a)) dt flags len r c'"
proof -
  let ?s = "dataSize (blocks c a)"
  let ?k = "?s - len"
  define fx fy where "fx = filter (is_free c) xs" and "fy = filter (is_free c) ys"
  note w = heap_wf_split [OF wf free, folded fx_def fy_def]
  let ?c1 = "update_block a (SetDataId DATATYPE_FREEBLOCK (ucast HB_Pinned) ?k) c"
  let ?c' = "claim dt flags len r ?c1"
  have rr: "r = a + ?k" "a \<noteq> r" using len by (simp_all add: r_def)
  have rng: "a < m_payloadSize c" "r < m_payloadSize c" using w(8) len by (simp_all add: r_def)
  have small: "?s < 2 ^ 16" "len < 2 ^ 16" "?k mod 2 ^ 16 = ?k" using w(8,9) len by simp_all
  have ex: "extract_from dt flags len a ?s c = Ret (r, ?c')"
    using rng len ev unfolding extract_from_def Let_def
    by (simp add: Next_ok Prev_ok change_block_def claim_def Let_def rr(1))
  have "r \<notin> set (fx @ a # fy)" using w(10,11) len rr by (fastforce simp: fx_def fy_def)
  moreover have "seg ?c1 Head (fx @ a # fy) Tail"
    using w(1,2) seg_frame [of Head "fx @ a # fy" ?c1 c Tail] by (simp add: seg_append)
  ultimately have seg: "seg ?c' Head (fx @ a # fy) Tail" by (simp add: claim_seg)
  have dead: "\<not> IsAlive (blocks ?c' a)" using rr Pinned_dead by (simp add: IsFlagSet_def)
  have "heap_wf ?c' (xs @ a # (a + ?k) # ys)"
  proof (rule split_wf [OF wf free, where d = a and r = r])
    show "seg ?c' Head (filter (is_free c) xs @ a # filter (is_free c) ys) Tail"
      using seg unfolding fx_def fy_def .
    show "m_null ?c' = Null" using w(4) by simp
    show "same_id (blocks ?c' x) (blocks c x)" if "x \<noteq> a" "x \<noteq> a + ?k" for x
      using that rr(1) by (simp add: same_id_def)
  qed (use len small dt dead FREEBLOCK_ok rr in \<open>simp_all add: block_ok_def is_free_def\<close>)
  then have "heap_wf ?c' (xs @ a # r # ys)" unfolding rr(1) .
  moreover have ne: "x \<noteq> a" "x \<noteq> r" if "x \<in> set xs \<union> set ys" for x
    using that w(10,11) len rr by fastforce+
  have "extracted_rest c (xs @ a # ys) a ?c'"
    by (rule extracted_rest_split) (use ne in \<open>auto simp: same_id_def update_block_def\<close>)
  ultimately have "extracted c (xs @ a # ys) a ?s dt flags len r ?c'"
    using len small rr ev
    by (simp add: extracted_def cut_wf [OF wf] taken_at_def remains_at_def is_free_def)
  then show ?thesis using ex by blast
qed

section \<open>The allocator\<close>

lemma find_split:
  assumes "find P xs = Some a" shows "a \<in> set xs" "P a"
  using assms by (auto simp: find_Some_iff)

lemma heap_wf_free_list: "heap_wf c bs \<Longrightarrow> free_list c (filter (is_free c) bs)"
  by (simp add: heap_wf_def)

text \<open>The free block that an allocation takes: the first that fits, or the last for an event.\<close>

definition chosen :: "cluster \<Rightarrow> nat list \<Rightarrow> u32 \<Rightarrow> nat \<Rightarrow> nat option" where
  "chosen c bs flags len =
     (let fs = filter (is_free c) bs in
      find (\<lambda>a. len \<le> dataSize (blocks c a)) (if flags AND ucast HB_Event \<noteq> 0 then rev fs else fs))"

lemma search_chosen:
  assumes "heap_wf c bs"
  shows "(if flags AND ucast HB_Event \<noteq> 0 then find_backward c len (m_last c)
     else find_forward c len (m_first c)) =
     Some (Ret (map_option (\<lambda>a. (a, dataSize (blocks c a))) (chosen c bs flags len)))"
proof -
  have f: "seg c Head (filter (is_free c) bs) Tail" "m_null c = Null"
    "\<forall>a \<in> set (filter (is_free c) bs). a < m_payloadSize c"
    using heap_wf_free_list [OF assms] by (auto simp: free_list_def)
  show ?thesis using find_forward_seg [OF f, of len] find_backward_seg [OF f, of len]
    by (simp add: chosen_def Let_def link_next.simps(1) link_prev.simps(2))
qed

lemma ExtractBlocks_none:
  assumes "heap_wf c bs" and "chosen c bs flags len = None"
  shows "ExtractBlocks dt flags len c = Some (Ret (None, c))"
  unfolding ExtractBlocks_def search_chosen [OF assms(1)] assms(2)
  by (simp add: ValidateList_free_list [OF heap_wf_free_list [OF assms(1)]])

lemma ExtractBlocks_some:
  assumes wf: "heap_wf c bs" and a: "chosen c bs flags len = Some a" and len: "0 < len"
    and dt: "dt \<noteq> DATATYPE_FREEBLOCK" "dt < DATATYPE_FIRST_INVALID"
  shows "\<exists>r c'. ExtractBlocks dt flags len c = Some (Ret (Some r, c')) \<and>
    extracted c bs a (dataSize (blocks c a)) dt flags len r c'"
proof -
  have "a \<in> set bs" "is_free c a" and fit: "len \<le> dataSize (blocks c a)"
    using find_split [OF a [unfolded chosen_def Let_def]] by (auto split: if_splits)
  then obtain xs ys where bs: "bs = xs @ a # ys" and free: "is_free c a" by (auto dest: split_list)
  have "\<exists>r c'. extract_from dt flags len a (dataSize (blocks c a)) c = Ret (r, c') \<and>
      extracted c bs a (dataSize (blocks c a)) dt flags len r c'"
  proof (cases "dataSize (blocks c a) = len")
    case True
    then show ?thesis using extract_exact [OF wf [unfolded bs] free True dt, of flags] bs by blast
  next
    case False
    then have lt: "len < dataSize (blocks c a)" using fit by simp
    show ?thesis
    proof (cases "flags AND ucast HB_Event = 0")
      case True
      then show ?thesis using extract_front [OF wf [unfolded bs] free len lt True dt] bs by blast
    next
      case False
      then show ?thesis using extract_back [OF wf [unfolded bs] free len lt False dt] bs by blast
    qed
  qed
  then obtain r c' where e: "extract_from dt flags len a (dataSize (blocks c a)) c = Ret (r, c')"
    "extracted c bs a (dataSize (blocks c a)) dt flags len r c'" by blast
  have "ValidateList c' = Some (Ret ())"
    using e(2) heap_wf_free_list ValidateList_free_list unfolding extracted_def by blast
  then have "ExtractBlocks dt flags len c = Some (Ret (Some r, c'))"
    unfolding ExtractBlocks_def search_chosen [OF wf] a
    by (simp add: ValidateList_free_list [OF heap_wf_free_list [OF wf]] e(1))
  then show ?thesis using e(2) by blast
qed

end
