(* ===== verification/NF_HeapSweep.thy ===== *)
theory NF_HeapSweep
  imports NF_HeapProps
begin

text \<open>
  The sweep of the heap cluster after the mark phase of a garbage collection
  (\<open>RecoverFromGC\<close> of CLR_RT_HeapCluster.cpp): every run of dead blocks becomes one free block,
  and the free list is built anew.
\<close>

section \<open>The sweep\<close>

text \<open>A list that is not closed yet: its last node has no successor.\<close>

fun oseg :: "cluster \<Rightarrow> node_ptr \<Rightarrow> nat list \<Rightarrow> node_ptr \<Rightarrow> bool" where
  "oseg c p [] l \<longleftrightarrow> l = p"
| "oseg c p (a # as) l \<longleftrightarrow> link_next c p = Blk a \<and> link_prev c (Blk a) = p \<and> oseg c (Blk a) as l"

lemma oseg_last_in: "oseg c p as l \<Longrightarrow> l \<in> set (p # map Blk as)"
  by (induction as arbitrary: p) auto

lemma oseg_close: "oseg c p as l \<Longrightarrow> link_next c l = q \<Longrightarrow> link_prev c q = l \<Longrightarrow> seg c p as q"
  by (induction as arbitrary: p) auto

lemma oseg_snoc: "oseg c p as l \<Longrightarrow> link_next c l = Blk b \<Longrightarrow> link_prev c (Blk b) = l \<Longrightarrow> oseg c p (as @ [b]) (Blk b)"
  by (induction as arbitrary: p) auto

lemma oseg_frame:
  "oseg c p as l \<Longrightarrow> distinct as \<Longrightarrow> p \<notin> Blk ` set as \<Longrightarrow>
   (\<forall>x \<in> set (p # map Blk as). x \<noteq> l \<longrightarrow> link_next c' x = link_next c x) \<Longrightarrow>
   (\<forall>x \<in> set (map Blk as). link_prev c' x = link_prev c x) \<Longrightarrow> oseg c' p as l"
proof (induction as arbitrary: p)
  case (Cons a as)
  have "p \<noteq> l" using Cons.prems(1,3) oseg_last_in [of c "Blk a" as l] by auto
  then show ?case using Cons by auto
qed simp

text \<open>The blocks that remain: the live ones, and the first of every run of dead ones.\<close>

fun kept :: "cluster \<Rightarrow> bool \<Rightarrow> nat list \<Rightarrow> nat list" where
  "kept c dead [] = []"
| "kept c dead (b # bs) =
     (if IsAlive (blocks c b) then b # kept c False bs
      else if dead then kept c True bs
      else b # kept c True bs)"

definition swept :: "hblock \<Rightarrow> hblock" where
  "swept b = (if IsEvent b then b else MarkDead b)"

lemma kept_frame: "(\<forall>b \<in> set bs. same_id (blocks c' b) (blocks c b)) \<Longrightarrow> kept c' d bs = kept c d bs"
  by (induction bs arbitrary: d) (auto simp: same_id_def IsFlagSet_def)

lemma kept_dead_run:
  "(\<forall>b \<in> set ds. \<not> IsAlive (blocks c b)) \<Longrightarrow> (as = [] \<or> IsAlive (blocks c (hd as))) \<Longrightarrow>
     kept c True (ds @ as) = kept c False as"
  by (induction ds) (auto, cases as, auto)

lemma kept_subset: "set (kept c d bs) \<subseteq> set bs"
  by (induction bs arbitrary: d) auto

definition total_size :: "cluster \<Rightarrow> nat list \<Rightarrow> nat" where
  "total_size c bs = sum_list (map (\<lambda>b. dataSize (blocks c b)) bs)"

lemma tseg_total: "tseg c a (ds @ as) e \<Longrightarrow> tseg c (a + total_size c ds) as e \<and> tseg c a ds (a + total_size c ds)"
  by (induction ds arbitrary: a) (fastforce simp: total_size_def add.assoc [symmetric])+

lemma ValidateBlock_ok: "block_ok (blocks c a) \<Longrightarrow> a + dataSize (blocks c a) \<le> m_payloadSize c \<Longrightarrow> ValidateBlock c a = Ret ()"
  by (auto simp: ValidateBlock_def block_ok_def)

lemma dead_run_total:
  assumes "tseg c a (d # ds @ as) (m_payloadSize c)" and "\<forall>b \<in> set (d # ds). \<not> IsAlive (blocks c b)"
    and "as = [] \<or> IsAlive (blocks c (hd as))"
  shows "dead_run c a n = Ret (a + total_size c (d # ds), n + total_size c (d # ds))"
  using assms
proof (induction ds arbitrary: a d n)
  case Nil
  have t: "d = a" "block_ok (blocks c a)" "tseg c (a + dataSize (blocks c a)) as (m_payloadSize c)" using Nil.prems by auto
  have v: "ValidateBlock c a = Ret ()" using t tseg_le [OF t(3)] by (intro ValidateBlock_ok) auto
  have "\<not> (a + dataSize (blocks c a) < m_payloadSize c \<and> \<not> IsAlive (blocks c (a + dataSize (blocks c a))))"
    using t(3) Nil.prems(3) by (cases as) auto
  then show ?case using v t(1) by (subst dead_run.simps) (auto simp: total_size_def)
next
  case (Cons e ds)
  have t: "d = a" "block_ok (blocks c a)" "tseg c (a + dataSize (blocks c a)) (e # ds @ as) (m_payloadSize c)"
    using Cons.prems by auto
  have v: "ValidateBlock c a = Ret ()" using t tseg_le [OF t(3)] by (intro ValidateBlock_ok) auto
  have e: "e = a + dataSize (blocks c a)" using t(3) by simp
  have "e < m_payloadSize c" using tseg_bounds [OF t(3), of e] by simp
  then have "dead_run c a n = dead_run c (a + dataSize (blocks c a)) (n + dataSize (blocks c a))"
    using v Cons.prems(2) e by (subst dead_run.simps) simp
  also have "\<dots> = Ret (a + dataSize (blocks c a) + total_size c (e # ds),
      n + dataSize (blocks c a) + total_size c (e # ds))"
    by (rule Cons.IH [OF t(3)]) (use Cons.prems in auto)
  finally show ?case using t(1) by (simp add: total_size_def add.assoc)
qed

text \<open>What the loop has done when it reaches the end, from a position on.\<close>

definition sweep_done ::
    "cluster \<Rightarrow> nat \<Rightarrow> nat list \<Rightarrow> nat list \<Rightarrow> cluster \<Rightarrow> node_ptr \<Rightarrow> nat list \<Rightarrow> bool" where
  "sweep_done c ptr ds rs c' l' fs \<longleftrightarrow>
     m_payloadSize c' = m_payloadSize c \<and> m_null c' = m_null c \<and> oseg c' Head (ds @ fs) l' \<and>
     tseg c' ptr (kept c False rs) (m_payloadSize c) \<and> fs = filter (is_free c') (kept c False rs) \<and>
     (\<forall>b < ptr. same_id (blocks c' b) (blocks c b) \<and> (b \<notin> set ds \<longrightarrow> blocks c' b = blocks c b)) \<and>
     (\<forall>b \<in> set rs. IsAlive (blocks c b) \<longrightarrow> blocks c' b = swept (blocks c b)) \<and>
     (\<forall>b \<in> set fs. \<not> IsAlive (blocks c' b)) \<and>
     (\<forall>b \<in> set (kept c False rs). is_free c' b \<longleftrightarrow> \<not> IsAlive (blocks c b))"

lemma MarkDead_simps [simp]:
  "dataType (MarkDead b) = dataType b" "dataSize (MarkDead b) = dataSize b"
  "nextBlock (MarkDead b) = nextBlock b" "prevBlock (MarkDead b) = prevBlock b"
  by (simp_all add: MarkDead_def)

lemma swept_simps [simp]: "dataType (swept b) = dataType b" "dataSize (swept b) = dataSize b"
  "nextBlock (swept b) = nextBlock b" "prevBlock (swept b) = prevBlock b"
  by (simp_all add: swept_def)

lemma sweep_alive:
  assumes t: "tseg c ptr (ptr # bs) (m_payloadSize c)" and alive: "IsAlive (blocks c ptr)"
    and live_used: "\<not> is_free c ptr" and ds: "\<forall>d \<in> set ds. d < ptr"
    and c1: "c1 = (if IsEvent (blocks c ptr) then c else update_block ptr MarkDead c)"
    and "sweep_done c1 (ptr + dataSize (blocks c ptr)) ds bs c' l' fs"
  shows "sweep_done c ptr ds (ptr # bs) c' l' fs"
proof -
  have b1: "blocks c1 = (blocks c)(ptr := swept (blocks c ptr))"
    by (simp add: c1 update_block_def swept_def)
  have pay: "m_payloadSize c1 = m_payloadSize c" "m_null c1 = m_null c" by (simp_all add: c1)
  let ?n = "ptr + dataSize (blocks c ptr)"
  have t': "block_ok (blocks c ptr)" "tseg c ?n bs (m_payloadSize c)" using t by auto
  have pos: "ptr < ?n" using t'(1) by (simp add: block_ok_def)
  have far: "x \<noteq> ptr" if "x \<in> set bs" for x using tseg_bounds [OF t'(2) that] pos by simp
  have k: "kept c1 False bs = kept c False bs" by (rule kept_frame) (use far b1 in auto)
  have s: "m_payloadSize c' = m_payloadSize c" "m_null c' = m_null c" "oseg c' Head (ds @ fs) l'"
    "tseg c' ?n (kept c False bs) (m_payloadSize c)" "fs = filter (is_free c') (kept c False bs)"
    "\<And>b. b < ?n \<Longrightarrow> same_id (blocks c' b) (blocks c1 b) \<and> (b \<notin> set ds \<longrightarrow> blocks c' b = blocks c1 b)"
    "\<And>b. b \<in> set bs \<Longrightarrow> IsAlive (blocks c1 b) \<Longrightarrow> blocks c' b = swept (blocks c1 b)"
    "\<forall>b \<in> set fs. \<not> IsAlive (blocks c' b)"
    "\<forall>b \<in> set (kept c False bs). is_free c' b \<longleftrightarrow> \<not> IsAlive (blocks c1 b)"
    using assms(6) unfolding sweep_done_def k pay by auto
  have p: "blocks c' ptr = swept (blocks c ptr)" using s(6) [of ptr] pos ds b1 by auto
  have "tseg c' ptr (kept c False (ptr # bs)) (m_payloadSize c)"
    using alive s(4) p t'(1) by (simp add: block_ok_def)
  moreover have "fs = filter (is_free c') (kept c False (ptr # bs))"
    using alive s(5) live_used p by (simp add: is_free_def)
  moreover have "same_id (blocks c' b) (blocks c b) \<and> (b \<notin> set ds \<longrightarrow> blocks c' b = blocks c b)" if "b < ptr" for b
    using s(6) [of b] that pos b1 by simp
  moreover have "blocks c' b = swept (blocks c b)" if "b \<in> set (ptr # bs)" "IsAlive (blocks c b)" for b
    using that p s(7) [of b] far [of b] b1 by (cases "b = ptr") auto
  moreover have "is_free c' b \<longleftrightarrow> \<not> IsAlive (blocks c b)" if "b \<in> set (kept c False (ptr # bs))" for b
  proof (cases "b = ptr")
    case True
    then show ?thesis using alive live_used p by (simp add: is_free_def)
  next
    case False
    then have "b \<in> set (kept c False bs)" using that alive by simp
    then show ?thesis using s(9) kept_subset far [of b] b1 by fastforce
  qed
  ultimately show ?thesis using s(1-3,8) unfolding sweep_done_def by blast
qed

lemma sweep_dead:
  assumes t: "tseg c ptr (ptr # ds' @ as) (m_payloadSize c)" and pay: "m_payloadSize c \<le> 0xFFFF"
    and dead: "\<forall>b \<in> set (ptr # ds'). \<not> IsAlive (blocks c b)" and as: "as = [] \<or> IsAlive (blocks c (hd as))"
    and o: "oseg c Head ds l" and ds: "\<forall>d \<in> set ds. d < ptr" "distinct ds"
  defines "n \<equiv> total_size c (ptr # ds')"
  obtains c1 where "link_free ptr n l c = Ret c1" "m_payloadSize c1 = m_payloadSize c" "m_null c1 = m_null c"
    "oseg c1 Head (ds @ [ptr]) (Blk ptr)" "tseg c1 (ptr + n) as (m_payloadSize c)"
    "is_free c1 ptr" "\<not> IsAlive (blocks c1 ptr)" "dataSize (blocks c1 ptr) = n" "0 < n"
    "\<And>x. x \<noteq> ptr \<Longrightarrow> same_id (blocks c1 x) (blocks c x)"
    "\<And>x. x \<noteq> ptr \<Longrightarrow> x \<notin> set ds \<Longrightarrow> blocks c1 x = blocks c x"
proof -
  let ?u = "update_block ptr (SetDataId DATATYPE_FREEBLOCK (ucast HB_Pinned) n) c"
  let ?v = "put_next l (Blk ptr) ?u"
  let ?c1 = "put_prev (Blk ptr) l ?v"
  have tt: "tseg c (ptr + n) as (m_payloadSize c)" "tseg c ptr (ptr # ds') (ptr + n)"
    using tseg_total [of c ptr "ptr # ds'" as "m_payloadSize c"] t unfolding n_def by auto
  have n: "ptr < m_payloadSize c" "0 < n" "n \<le> 0xFFFF"
    using tseg_bounds [OF t, of ptr] tseg_bounds [OF tt(2), of ptr] tseg_le [OF tt(1)] t pay by (auto simp: block_ok_def)
  have l: "l = Head \<or> (\<exists>d \<in> set ds. l = Blk d \<and> d < ptr)" using oseg_last_in [OF o] ds(1) by auto
  then have ok: "node_ok ?u l" "l \<noteq> Null" "l \<noteq> Tail" "l \<noteq> Blk ptr" using n(1) by auto
  have free: "link_free ptr n l c = Ret ?c1"
    using ok n(1) by (simp add: link_free_def change_block_def SetNext_def SetPrev_def)
  have bv: "blocks ?c1 x = blocks c x" if "x \<noteq> ptr" "Blk x \<noteq> l" for x
    using that l by (cases l) (auto simp: update_block_def put_next.simps put_prev.simps)
  have id: "same_id (blocks ?c1 x) (blocks ?u x)" for x
    by (rule same_id_trans [of _ "blocks ?v x"]) simp_all
  have u: "same_id (blocks ?u x) (blocks c x)" if "x \<noteq> ptr" for x
    using that by (simp add: same_id_def update_block_def)
  have p: "dataType (blocks ?c1 ptr) = DATATYPE_FREEBLOCK" "hflags (blocks ?c1 ptr) = ucast (ucast HB_Pinned :: u32)"
    "dataSize (blocks ?c1 ptr) = n"
    using id [of ptr] n(3) by (simp_all add: same_id_def)
  have nx: "link_next ?c1 x = (if x = l then Blk ptr else link_next c x)"
    and pv: "link_prev ?c1 x = (if x = Blk ptr then l else link_prev c x)" for x
    using ok by (simp_all add: link_next_put_prev link_next_put_next link_prev_put_prev link_prev_put_next)
  have "oseg ?c1 Head ds l"
    by (rule oseg_frame [OF o]) (use ds nx pv in auto)
  then have os: "oseg ?c1 Head (ds @ [ptr]) (Blk ptr)"
    by (rule oseg_snoc) (simp_all add: nx pv)
  have far: "x \<noteq> ptr" if "x \<in> set as" for x using tseg_bounds [OF tt(1) that] n(2) by simp
  have idx: "same_id (blocks ?c1 x) (blocks c x)" if "x \<noteq> ptr" for x
    using same_id_trans [OF id u [OF that]] .
  have "tseg ?c1 (ptr + n) as (m_payloadSize c)"
    using tt(1) tseg_frame [of as ?c1 c "ptr + n" "m_payloadSize c"] idx far by blast
  moreover have "\<not> IsAlive (blocks ?c1 ptr)" using p(2) Pinned_dead by (simp add: IsFlagSet_def)
  moreover have "blocks ?c1 x = blocks c x" if "x \<noteq> ptr" "x \<notin> set ds" for x
    using bv [OF that(1)] that(2) l by auto
  moreover have "m_null ?c1 = m_null c" using ok by simp
  ultimately show thesis
    using that [of ?c1] free os idx p n(2) by (simp add: is_free_def)
qed

lemma sweep_dead_done:
  assumes dead: "\<forall>b \<in> set (ptr # ds'). \<not> IsAlive (blocks c b)" and as: "as = [] \<or> IsAlive (blocks c (hd as))"
    and ds: "\<forall>d \<in> set ds. d < ptr" and t: "tseg c1 (ptr + n) as (m_payloadSize c)"
    and c1: "m_payloadSize c1 = m_payloadSize c" "m_null c1 = m_null c" "is_free c1 ptr" "\<not> IsAlive (blocks c1 ptr)"
      "dataSize (blocks c1 ptr) = n" "0 < n"
    and id: "\<And>x. x \<noteq> ptr \<Longrightarrow> same_id (blocks c1 x) (blocks c x)"
    and same: "\<And>x. x \<noteq> ptr \<Longrightarrow> x \<notin> set ds \<Longrightarrow> blocks c1 x = blocks c x"
    and s: "sweep_done c1 (ptr + n) (ds @ [ptr]) as c' l' fs"
  shows "sweep_done c ptr ds (ptr # ds' @ as) c' l' (ptr # fs)"
proof -
  have far: "ptr < x \<and> x \<notin> set ds" if "x \<in> set as" for x
    using tseg_bounds [OF t that] ds c1(6) by fastforce
  have kas: "kept c1 False as = kept c False as" by (rule kept_frame) (use far id in fastforce)
  have k: "kept c False (ptr # ds' @ as) = ptr # kept c False as"
    using dead kept_dead_run [of ds' c as] as by simp
  have d: "m_payloadSize c' = m_payloadSize c" "m_null c' = m_null c" "oseg c' Head (ds @ ptr # fs) l'"
    "tseg c' (ptr + n) (kept c False as) (m_payloadSize c)" "fs = filter (is_free c') (kept c False as)"
    "\<And>b. b < ptr + n \<Longrightarrow> same_id (blocks c' b) (blocks c1 b)"
    "\<And>b. b < ptr + n \<Longrightarrow> b \<notin> set (ds @ [ptr]) \<Longrightarrow> blocks c' b = blocks c1 b"
    "\<And>b. b \<in> set as \<Longrightarrow> IsAlive (blocks c1 b) \<Longrightarrow> blocks c' b = swept (blocks c1 b)"
    "\<forall>b \<in> set fs. \<not> IsAlive (blocks c' b)"
    "\<forall>b \<in> set (kept c False as). is_free c' b \<longleftrightarrow> \<not> IsAlive (blocks c1 b)"
    using s c1(1,2) unfolding sweep_done_def kas by auto
  have p: "same_id (blocks c' ptr) (blocks c1 ptr)" using d(6) [of ptr] c1(6) by simp
  then have pf: "is_free c' ptr" "\<not> IsAlive (blocks c' ptr)" "dataSize (blocks c' ptr) = n" "block_ok (blocks c' ptr)"
    using c1(3-6) FREEBLOCK_ok by (auto simp: same_id_def is_free_def IsFlagSet_def block_ok_def)
  have "tseg c' ptr (kept c False (ptr # ds' @ as)) (m_payloadSize c)" unfolding k using d(4) pf by simp
  moreover have "ptr # fs = filter (is_free c') (kept c False (ptr # ds' @ as))" unfolding k using d(5) pf(1) by simp
  moreover have "same_id (blocks c' b) (blocks c b) \<and> (b \<notin> set ds \<longrightarrow> blocks c' b = blocks c b)" if "b < ptr" for b
    using that d(6,7) [of b] id [of b] same [of b] same_id_trans by auto
  moreover have "blocks c' b = swept (blocks c b)" if "b \<in> set (ptr # ds' @ as)" "IsAlive (blocks c b)" for b
    using that dead far [of b] same [of b] d(8) [of b] by auto
  moreover have "\<forall>b \<in> set (ptr # fs). \<not> IsAlive (blocks c' b)" using d(9) pf(2) by simp
  moreover have "is_free c' b \<longleftrightarrow> \<not> IsAlive (blocks c b)" if "b \<in> set (kept c False (ptr # ds' @ as))" for b
  proof (cases "b = ptr")
    case True
    then show ?thesis using pf(1) dead by simp
  next
    case False
    then have b: "b \<in> set (kept c False as)" using that unfolding k by simp
    then have "b \<in> set as" using kept_subset by blast
    then show ?thesis using d(10) b far [of b] same [of b] by auto
  qed
  ultimately show ?thesis using d(1-3) unfolding sweep_done_def by blast
qed

lemma sweep_loop:
  assumes "tseg c ptr rs (m_payloadSize c)" and "m_payloadSize c \<le> 0xFFFF" and "oseg c Head ds l"
    and "\<forall>d \<in> set ds. d < ptr" and "distinct ds" and "\<forall>b \<in> set rs. is_free c b \<longrightarrow> \<not> IsAlive (blocks c b)"
  shows "\<exists>c' l' fs. RecoverFromGC_loop c ptr l = Ret (c', l') \<and> sweep_done c ptr ds rs c' l' fs"
  using assms
proof (induction rs arbitrary: c ptr ds l rule: length_induct)
  case (1 rs)
  show ?case
  proof (cases rs)
    case Nil
    then show ?thesis using "1.prems"
      by (intro exI [of _ c] exI [of _ l] exI [of _ "[]"], subst RecoverFromGC_loop.simps) (simp add: sweep_done_def)
  next
    case (Cons b bs)
    have t: "b = ptr" "block_ok (blocks c ptr)" "tseg c (ptr + dataSize (blocks c ptr)) bs (m_payloadSize c)"
      using "1.prems"(1) Cons by auto
    have lt: "ptr < m_payloadSize c" using tseg_bounds [OF "1.prems"(1), of ptr] Cons t(1) by simp
    have v: "ValidateBlock c ptr = Ret ()" using t tseg_le [OF t(3)] by (intro ValidateBlock_ok) auto
    show ?thesis
    proof (cases "IsAlive (blocks c ptr)")
      case True
      define c1 where "c1 = (if IsEvent (blocks c ptr) then c else update_block ptr MarkDead c)"
      have pos: "0 < dataSize (blocks c ptr)" using t(2) by (simp add: block_ok_def)
      have far: "blocks c1 x = blocks c x" if "x \<in> set bs" for x
        using tseg_bounds [OF t(3) that] pos by (auto simp: c1_def update_block_def)
      have pay: "m_payloadSize c1 = m_payloadSize c" by (simp add: c1_def)
      have lk: "link_next c1 x = link_next c x" "link_prev c1 x = link_prev c x" for x
        by (simp_all add: c1_def link_update_block)
      have "RecoverFromGC_loop c ptr l = RecoverFromGC_loop c1 (ptr + dataSize (blocks c ptr)) l"
        using lt v True by (subst RecoverFromGC_loop.simps) (simp add: c1_def Let_def)
      moreover have "\<exists>c' l' fs. RecoverFromGC_loop c1 (ptr + dataSize (blocks c ptr)) l = Ret (c', l') \<and>
          sweep_done c1 (ptr + dataSize (blocks c ptr)) ds bs c' l' fs"
      proof (rule "1.IH" [rule_format])
        show "tseg c1 (ptr + dataSize (blocks c ptr)) bs (m_payloadSize c1)"
          using t(3) tseg_frame [of bs c1 c] far pay by simp
        show "oseg c1 Head ds l" by (rule oseg_frame [OF "1.prems"(3,5)]) (use lk in auto)
      qed (use Cons pay "1.prems" far in \<open>auto simp: is_free_def\<close>)
      moreover have "\<not> is_free c ptr" using True "1.prems"(6) Cons t(1) by auto
      ultimately show ?thesis
        using sweep_alive [OF _ True _ "1.prems"(4) c1_def] "1.prems"(1) Cons t(1) by fastforce
    next
      case False
      let ?D = "\<lambda>b. \<not> IsAlive (blocks c b)"
      define ds' as where "ds' = takeWhile ?D bs" and "as = dropWhile ?D bs"
      have bs: "rs = ptr # ds' @ as" using Cons t(1) by (simp add: ds'_def as_def)
      have dead: "\<forall>b \<in> set (ptr # ds'). ?D b" using False set_takeWhileD [of _ ?D bs] by (auto simp: ds'_def)
      have as: "as = [] \<or> IsAlive (blocks c (hd as))" using hd_dropWhile [of ?D bs] by (auto simp: as_def)
      note tt = "1.prems"(1) [unfolded bs]
      define n where "n = total_size c (ptr # ds')"
      obtain c1 where c1: "link_free ptr n l c = Ret c1" "m_payloadSize c1 = m_payloadSize c" "m_null c1 = m_null c"
        "oseg c1 Head (ds @ [ptr]) (Blk ptr)" "tseg c1 (ptr + n) as (m_payloadSize c)"
        "is_free c1 ptr" "\<not> IsAlive (blocks c1 ptr)" "dataSize (blocks c1 ptr) = n" "0 < n"
        "\<And>x. x \<noteq> ptr \<Longrightarrow> same_id (blocks c1 x) (blocks c x)"
        "\<And>x. x \<noteq> ptr \<Longrightarrow> x \<notin> set ds \<Longrightarrow> blocks c1 x = blocks c x"
        using sweep_dead [OF tt "1.prems"(2) dead as "1.prems"(3-5), folded n_def] by blast
      have "dead_run c ptr 0 = Ret (ptr + n, n)" using dead_run_total [OF tt dead as, of 0] by (simp add: n_def)
      then have "RecoverFromGC_loop c ptr l = RecoverFromGC_loop c1 (ptr + n) (Blk ptr)"
        using lt v False c1(1) by (subst RecoverFromGC_loop.simps) simp
      moreover have "\<exists>c' l' fs. RecoverFromGC_loop c1 (ptr + n) (Blk ptr) = Ret (c', l') \<and>
          sweep_done c1 (ptr + n) (ds @ [ptr]) as c' l' fs"
      proof (rule "1.IH" [rule_format])
        show "tseg c1 (ptr + n) as (m_payloadSize c1)" "oseg c1 Head (ds @ [ptr]) (Blk ptr)" using c1(2,4,5) by simp_all
        show "is_free c1 b \<Longrightarrow> \<not> IsAlive (blocks c1 b)" if "b \<in> set as" for b
          using that tseg_bounds [OF c1(5) that] c1(9) c1(10) [of b] "1.prems"(6) bs
          by (auto simp: is_free_def same_id_def IsFlagSet_def)
      qed (use bs c1 "1.prems" in auto)
      ultimately show ?thesis
        using sweep_dead_done [OF dead as "1.prems"(4) c1(5,2,3,6-9) c1(10,11)] bs by fastforce
    qed
  qed
qed

text \<open>The whole sweep.\<close>

lemma link_m_null [simp]:
  "x \<noteq> Tail \<Longrightarrow> link_next (c\<lparr>m_null := q\<rparr>) x = link_next c x"
  "x \<noteq> Head \<Longrightarrow> link_prev (c\<lparr>m_null := q\<rparr>) x = link_prev c x"
  by (cases x; simp add: link_next.simps link_prev.simps)+

definition dead_first :: "cluster \<Rightarrow> nat list \<Rightarrow> nat list" where
  "dead_first c bs = filter (\<lambda>b. \<not> IsAlive (blocks c b)) (kept c False bs)"

definition after_sweep :: "cluster \<Rightarrow> nat list \<Rightarrow> cluster \<Rightarrow> bool" where
  "after_sweep c bs c' \<longleftrightarrow> heap_wf c' (kept c False bs) \<and> m_payloadSize c' = m_payloadSize c \<and>
     filter (is_free c') (kept c False bs) = dead_first c bs \<and>
     (\<forall>b \<in> set bs. IsAlive (blocks c b) \<longrightarrow> blocks c' b = swept (blocks c b))"

definition markable :: "cluster \<Rightarrow> nat list \<Rightarrow> bool" where
  "markable c bs \<longleftrightarrow> m_payloadSize c \<le> 0xFFFF \<and> tseg c 0 bs (m_payloadSize c) \<and>
     (\<forall>a \<in> set bs. is_free c a \<longrightarrow> \<not> IsAlive (blocks c a))"

lemma heap_wf_markable: "heap_wf c bs \<Longrightarrow> markable c bs"
  by (simp add: heap_wf_def markable_def)

lemma RecoverFromGC_sweeps:
  assumes "markable c bs"
  shows "\<exists>c'. RecoverFromGC c = Ret c' \<and> after_sweep c bs c'"
proof -
  let ?c0 = "c\<lparr>m_null := Null\<rparr>"
  have b0: "blocks ?c0 = blocks c" "m_payloadSize ?c0 = m_payloadSize c" by simp_all
  have k0: "kept ?c0 False bs = kept c False bs" by (rule kept_frame) simp
  have "tseg ?c0 0 bs (m_payloadSize ?c0)" using assms tseg_frame [of bs ?c0 c] by (simp add: markable_def)
  moreover have "oseg ?c0 Head [] Head" by simp
  ultimately obtain c1 l fs where lp: "RecoverFromGC_loop ?c0 0 Head = Ret (c1, l)"
    and dn: "sweep_done ?c0 0 [] bs c1 l fs"
    using sweep_loop [of ?c0 0 bs "[]" Head] assms by (auto simp: markable_def is_free_def)
  note d = dn [unfolded sweep_done_def k0, simplified]
  let ?K = "kept c False bs"
  let ?c2 = "put_prev Tail l (put_next l Tail c1)"
  let ?c' = "?c2\<lparr>m_null := Null\<rparr>"
  have oo: "oseg c1 Head fs l" using d by blast
  have l: "l \<in> set (Head # map Blk fs)" by (rule oseg_last_in [OF oo])
  have K: "\<forall>b \<in> set ?K. b < m_payloadSize c" using d tseg_bounds [of c1 0 ?K "m_payloadSize c"] by blast
  have fsK: "fs = filter (is_free c1) ?K" using d by blast
  have lok: "node_ok c1 l" "l \<noteq> Null" "l \<noteq> Tail" using l K d fsK by auto
  have rec: "RecoverFromGC c = Ret ?c'"
    using lp lok by (simp add: RecoverFromGC_def SetPrev_def SetNext_def put_prev.simps(1) put_next.simps(2))
  have id: "same_id (blocks ?c' x) (blocks c1 x)" for x
    using same_id_trans [OF same_id_put(2) same_id_put(1)] by simp
  have dist: "distinct ?K" using d tseg_distinct by blast
  have nx: "link_next ?c' x = (if x = l then Tail else link_next c1 x)" if "x \<noteq> Tail" for x
    using that lok by (simp add: link_next_put_prev link_next_put_next)
  have pv: "link_prev ?c' x = (if x = Tail then l else link_prev c1 x)" if "x \<noteq> Head" for x
    using that lok by (simp add: link_prev_put_prev link_prev_put_next)
  have "oseg ?c' Head fs l"
    by (rule oseg_frame [OF oo]) (use dist nx pv fsK in auto)
  then have seg: "seg ?c' Head fs Tail" by (rule oseg_close) (use nx pv lok in auto)
  have free: "is_free ?c' b = is_free c1 b" for b using id is_free_frame by blast
  then have "is_free ?c' = is_free c1" by (rule ext)
  then have fs': "fs = filter (is_free ?c') ?K" using fsK by metis
  have pay: "m_payloadSize ?c' = m_payloadSize c" using d by simp
  have tl: "tseg ?c' 0 ?K (m_payloadSize c)" using d id tseg_frame [of ?K ?c' c1] by blast
  have alive_b: "blocks ?c' b = swept (blocks c b)" if "b \<in> set bs" "IsAlive (blocks c b)" for b
  proof -
    have c1b: "blocks c1 b = swept (blocks c b)" using d that by blast
    then have "\<not> is_free c1 b" using that assms by (auto simp: markable_def is_free_def)
    then have "Blk b \<noteq> l" using l fsK by auto
    then have "blocks ?c' b = blocks c1 b"
      using lok by (cases l) (auto simp: update_block_def put_next.simps put_prev.simps)
    then show ?thesis using c1b by simp
  qed
  have dead_b: "is_free ?c' b \<longleftrightarrow> \<not> IsAlive (blocks c b)" if "b \<in> set ?K" for b
    using d that free by blast
  have "\<forall>a \<in> set ?K. is_free ?c' a \<longrightarrow> \<not> IsAlive (blocks ?c' a)"
    using d id free fsK by (auto simp: same_id_def IsFlagSet_def)
  then have "heap_wf ?c' ?K"
    using assms tl seg fs' pay K dist lok by (auto simp: heap_wf_def free_list_def markable_def)
  moreover have "filter (is_free ?c') ?K = dead_first c bs"
    unfolding dead_first_def using dead_b by (auto intro: filter_cong)
  ultimately show ?thesis using rec pay alive_b unfolding after_sweep_def by blast
qed

end
