(* ===== verification/NF_HeapInsert.thy ===== *)
theory NF_HeapInsert
  imports NF_HeapProps
begin

text \<open>
  Returning a region to a heap cluster (\<open>InsertInOrder\<close> of CLR_RT_HeapCluster.cpp, which the compaction
  uses): the region is linked in the order of the addresses and joined with the free blocks it touches.
\<close>

section \<open>Relinking\<close>

text \<open>Two clusters that differ in the links of some nodes only.\<close>

definition relinked :: "nat set \<Rightarrow> cluster \<Rightarrow> cluster \<Rightarrow> bool" where
  "relinked L c c' \<longleftrightarrow> m_payloadSize c' = m_payloadSize c \<and> m_null c' = m_null c \<and>
     (\<forall>x. same_id (blocks c' x) (blocks c x)) \<and> (\<forall>x. x \<notin> L \<longrightarrow> blocks c' x = blocks c x)"

lemma relinked_refl: "relinked L c c"
  by (simp add: relinked_def)

lemma relinked_trans: "relinked L c c' \<Longrightarrow> relinked L c' c'' \<Longrightarrow> relinked L c c''"
  using same_id_trans unfolding relinked_def by metis

lemma relinked_mono: "relinked L c c' \<Longrightarrow> L \<subseteq> M \<Longrightarrow> relinked M c c'"
  unfolding relinked_def by blast

lemma relinked_put:
  "relinked L c c' \<Longrightarrow> p \<noteq> Tail \<Longrightarrow> p \<in> insert Head (Blk ` L) \<Longrightarrow> relinked L c (put_next p q c')"
  "relinked L c c' \<Longrightarrow> p \<noteq> Head \<Longrightarrow> p \<in> insert Tail (Blk ` L) \<Longrightarrow> relinked L c (put_prev p q c')"
proof -
  assume r: "relinked L c c'"
  {
    assume p: "p \<noteq> Tail" "p \<in> insert Head (Blk ` L)"
    then have "p \<noteq> Blk x" if "x \<notin> L" for x using that by auto
    then have "relinked L c' (put_next p q c')" using p(1) by (simp add: relinked_def)
    then show "relinked L c (put_next p q c')" by (rule relinked_trans [OF r])
  next
    assume p: "p \<noteq> Head" "p \<in> insert Tail (Blk ` L)"
    then have "p \<noteq> Blk x" if "x \<notin> L" for x using that by auto
    then have "relinked L c' (put_prev p q c')" using p(1) by (simp add: relinked_def)
    then show "relinked L c (put_prev p q c')" by (rule relinked_trans [OF r])
  }
qed

lemma RemoveFromList_node:
  assumes s: "seg c Head fx (Blk a)" "seg c (Blk a) fy Tail" and "\<forall>x \<in> set (fx @ a # fy). x < m_payloadSize c"
  defines "P \<equiv> link_prev c (Blk a)" and "N \<equiv> link_next c (Blk a)"
  shows "RemoveFromList (Blk a) c = Ret (put_prev N P (put_next P N c))" "node_ok c P" "node_ok c N"
    "P \<in> insert Head (Blk ` set fx)" "N \<in> insert Tail (Blk ` set fy)"
proof -
  have PN: "P \<in> {Head} \<union> Blk ` set fx" "N \<in> {Tail} \<union> Blk ` set fy"
    unfolding P_def N_def by (rule neighbours [OF s])+
  then show ok: "node_ok c P" "node_ok c N" using assms(3) by auto
  have "P \<noteq> Null" "N \<noteq> Null" using PN by auto
  then show "RemoveFromList (Blk a) c = Ret (put_prev N P (put_next P N c))"
    using ok assms(3) unfolding RemoveFromList_def
    by (simp add: Next_ok Prev_ok ConsistencyCheck_Nodes_def SetNext_def SetPrev_def flip: P_def N_def)
  show "P \<in> insert Head (Blk ` set fx)" "N \<in> insert Tail (Blk ` set fy)" using PN by auto
qed

lemma Unlink_node:
  assumes s: "seg c Head fx (Blk a)" "seg c (Blk a) fy Tail" and d: "distinct (fx @ a # fy)"
    and b: "\<forall>x \<in> set (fx @ a # fy). x < m_payloadSize c"
  shows "\<exists>c'. Unlink (Blk a) c = Ret c' \<and> seg c' Head (fx @ fy) Tail \<and> relinked (set (fx @ a # fy)) c c'"
proof -
  define P N where "P = link_prev c (Blk a)" and "N = link_next c (Blk a)"
  note r = RemoveFromList_node [OF s b, folded P_def N_def]
  let ?c = "put_prev N P (put_next P N c)"
  let ?c' = "put_next (Blk a) Null (put_prev (Blk a) Null ?c)"
  have "Unlink (Blk a) c = Ret ?c'"
    using r(1) b by (simp add: Unlink_def SetNext_def SetPrev_def)
  moreover have "seg ?c Head (fx @ fy) Tail" using seg_remove [OF s d] unfolding P_def N_def .
  then have "seg ?c' Head (fx @ fy) Tail"
    using d by (subst seg_frame [of _ _ _ ?c])
      (auto simp: link_next_put_next link_prev_put_next link_next_put_prev link_prev_put_prev)
  moreover have "relinked (set (fx @ a # fy)) c ?c'"
    using r(4,5) by (intro relinked_put relinked_refl) auto
  ultimately show ?thesis by blast
qed

text \<open>The node before which a new one goes, and the list with the new one.\<close>

definition first_node :: "nat list \<Rightarrow> node_ptr" where
  "first_node fs = (case fs of [] \<Rightarrow> Tail | a # _ \<Rightarrow> Blk a)"

lemma seg_first_node: "seg c p (fx @ fy) Tail \<Longrightarrow> seg c p fx (first_node fy)"
  by (cases fy) (auto simp: first_node_def seg_append)

lemma insert_point_seg:
  "seg c p (fx @ fy) Tail \<Longrightarrow> m_null c = Null \<Longrightarrow> \<forall>a \<in> set (fx @ fy). a < m_payloadSize c \<Longrightarrow>
     \<forall>a \<in> set fx. a < node \<Longrightarrow> \<forall>a \<in> set fy. node < a \<Longrightarrow>
     insert_point c node (link_next c p) = Some (Ret (first_node fy))"
proof (induction fx arbitrary: p)
  case Nil
  show ?case
  proof (cases fy)
    case Nil
    then show ?thesis using Nil.prems
      by (subst insert_point.simps) (simp add: Next_ok first_node_def)
  next
    case (Cons y ys)
    then have "link_next c (Blk y) \<noteq> Null" using Nil.prems(1) by (cases ys) auto
    then show ?thesis using Cons Nil.prems
      by (subst insert_point.simps) (simp add: Next_ok first_node_def)
  qed
next
  case (Cons a fx)
  have "link_next c (Blk a) \<noteq> Null" using Cons.prems(1) by (cases "fx @ fy") auto
  then show ?case using Cons.prems Cons.IH [of "Blk a"]
    by (subst insert_point.simps) (simp add: Next_ok)
qed

lemma InsertBeforeNode_seg:
  assumes f: "free_list c (fx @ fy)" and b: "b \<notin> set (fx @ fy)" "b < m_payloadSize c"
    and clear: "nextBlock (blocks c b) = Null" "prevBlock (blocks c b) = Null"
  shows "\<exists>c'. InsertBeforeNode (first_node fy) (Blk b) c = Some (Ret c') \<and>
    seg c' Head fx (Blk b) \<and> seg c' (Blk b) fy Tail \<and> relinked (set (fx @ b # fy)) c c'"
proof -
  have s: "seg c Head (fx @ fy) Tail" and m: "m_null c = Null" and lt: "\<forall>a \<in> set (fx @ fy). a < m_payloadSize c"
    and d: "distinct (fx @ fy)" using f by (auto simp: free_list_def)
  define q where "q = first_node fy"
  define P where "P = link_prev c q"
  have sx: "seg c Head fx q" unfolding q_def by (rule seg_first_node [OF s])
  have P: "P \<in> insert Head (Blk ` set fx)" using seg_prev_in [OF sx] by (auto simp: P_def)
  have q: "q \<in> insert Tail (Blk ` set fy)" by (auto simp: q_def first_node_def split: list.splits)
  have ok: "node_ok c P" "node_ok c q" "node_ok c (Blk b)" using P q lt b by auto
  have ne: "P \<noteq> Null" "P \<noteq> Tail" "P \<noteq> Blk b" "q \<noteq> Null" "q \<noteq> Head" "q \<noteq> Blk b" "q \<noteq> P" using P q b d by auto
  let ?c = "put_next P (Blk b) (put_prev q (Blk b) (put_prev (Blk b) P (put_next (Blk b) q c)))"
  have r: "RemoveFromList (Blk b) c = Ret c"
    using clear b(2) by (simp add: RemoveFromList_def Next_ok Prev_ok ConsistencyCheck_Nodes_def
        link_next.simps link_prev.simps)
  have ins: "InsertBeforeNode q (Blk b) c = Some (Ret ?c)"
    unfolding InsertBeforeNode_def ValidateList_free_list [OF f] using ok ne r
    by (simp add: Next_ok Prev_ok SetNext_def SetPrev_def flip: P_def)
  have nx: "link_next ?c x = (if x = P then Blk b else if x = Blk b then q else link_next c x)" for x
    using ne by (simp add: link_next_put_prev link_next_put_next)
  have pv: "link_prev ?c x = (if x = q then Blk b else if x = Blk b then P else link_prev c x)" for x
    using ne by (simp add: link_prev_put_prev link_prev_put_next)
  have qx: "Blk x \<noteq> q" if "x \<in> set fx" for x using that q d by auto
  have "seg ?c Head fx (Blk b)"
    by (rule seg_retarget [OF sx]) (use d b nx pv ne qx in \<open>auto simp: P_def [symmetric]\<close>)
  moreover have "seg ?c (Blk b) fy Tail"
  proof (cases fy)
    case Nil
    then show ?thesis using nx pv ne by (simp add: q_def first_node_def)
  next
    case (Cons y ys)
    have qy: "q = Blk y" using Cons by (simp add: q_def first_node_def)
    have "P \<notin> Blk ` set fy" using P d by auto
    then have "seg ?c (Blk y) ys Tail \<longleftrightarrow> seg c (Blk y) ys Tail"
      using nx pv qy d b Cons by (intro seg_frame) auto
    then show ?thesis using s Cons qy nx pv ne by (simp add: seg_append)
  qed
  moreover have "relinked (set (fx @ b # fy)) c ?c"
    using P q ne by (intro relinked_put relinked_refl) auto
  ultimately show ?thesis using ins unfolding q_def by blast
qed

section \<open>Joining\<close>

lemma coalesce_following_seg:
  fixes n sz :: nat
  assumes s: "seg c Head fx (Blk n)" "seg c (Blk n) fy Tail" and d: "distinct (fx @ n # fy)"
    and b: "\<forall>x \<in> set (fx @ n # fy). x < m_payloadSize c" and m: "m_null c = Null"
  defines "join \<equiv> fy \<noteq> [] \<and> hd fy = n + sz"
  shows "\<exists>c'. coalesce_following n sz c = Ret (if join then sz + dataSize (blocks c (n + sz)) else sz, c') \<and>
    seg c' Head fx (Blk n) \<and> seg c' (Blk n) (if join then tl fy else fy) Tail \<and> relinked (set (fx @ n # fy)) c c'"
proof (cases fy)
  case Nil
  then show ?thesis using s b m
    by (intro exI [of _ c]) (simp add: coalesce_following_def Next_ok join_def relinked_refl)
next
  case (Cons y ys)
  have y: "link_next c (Blk n) = Blk y" "link_next c (Blk y) \<noteq> Null" "seg c (Blk y) ys Tail"
    using s(2) Cons by (cases ys; auto)+
  show ?thesis
  proof (cases "y = n + sz")
    case False
    then show ?thesis using s y b Cons
      by (intro exI [of _ c]) (simp add: coalesce_following_def Next_ok join_def relinked_refl)
  next
    case True
    have "seg c Head (fx @ [n]) (Blk y)" using s Cons by (simp add: seg_append)
    then obtain c' where c': "Unlink (Blk y) c = Ret c'" "seg c' Head ((fx @ [n]) @ ys) Tail"
      "relinked (set ((fx @ [n]) @ y # ys)) c c'"
      using Unlink_node [OF _ y(3), of "fx @ [n]"] d b Cons by auto
    then have "seg c' Head fx (Blk n)" "seg c' (Blk n) ys Tail" by (simp_all add: seg_append)
    then show ?thesis using c' y b True Cons
      by (intro exI [of _ c']) (simp add: coalesce_following_def Next_ok join_def)
  qed
qed

lemma coalesce_preceding_seg:
  assumes s: "seg c Head fx (Blk n)" "seg c (Blk n) fy Tail" and d: "distinct (fx @ n # fy)"
    and b: "\<forall>x \<in> set (fx @ n # fy). x < m_payloadSize c" and m: "m_null c = Null"
  defines "join \<equiv> fx \<noteq> [] \<and> last fx + dataSize (blocks c (last fx)) = n"
  shows "\<exists>c'. coalesce_preceding n sz c =
      Ret (if join then last fx else n, if join then sz + dataSize (blocks c (last fx)) else sz, c') \<and>
    seg c' Head (if join then fx @ fy else fx @ n # fy) Tail \<and> relinked (set (fx @ n # fy)) c c'"
proof (cases fx rule: rev_cases)
  case Nil
  then show ?thesis using s b m
    by (intro exI [of _ c]) (simp add: coalesce_preceding_def Prev_ok join_def relinked_refl)
next
  case (snoc zs a)
  have a: "link_prev c (Blk n) = Blk a" "seg c Head zs (Blk a)" using s(1) snoc seg_append by auto
  then have p: "link_prev c (Blk a) \<noteq> Null" using seg_prev_in by fastforce
  show ?thesis
  proof (cases "a + dataSize (blocks c a) = n")
    case False
    then show ?thesis using s a p b snoc
      by (intro exI [of _ c]) (simp add: coalesce_preceding_def Prev_ok join_def relinked_refl block_of_def seg_append)
  next
    case True
    obtain c' where "Unlink (Blk n) c = Ret c'" "seg c' Head (fx @ fy) Tail" "relinked (set (fx @ n # fy)) c c'"
      using Unlink_node [OF s d b] by blast
    then show ?thesis using a p b True snoc
      by (intro exI [of _ c']) (simp add: coalesce_preceding_def Prev_ok join_def block_of_def)
  qed
qed

text \<open>A cluster with a gap: blocks on both sides, the free ones of which are in the list.\<close>

definition gap_wf :: "cluster \<Rightarrow> nat list \<Rightarrow> nat \<Rightarrow> nat \<Rightarrow> nat list \<Rightarrow> bool" where
  "gap_wf c xs node sz ys \<longleftrightarrow> m_payloadSize c \<le> 0xFFFF \<and> 0 < sz \<and> tseg c 0 xs node \<and>
     tseg c (node + sz) ys (m_payloadSize c) \<and> free_list c (filter (is_free c) (xs @ ys)) \<and>
     (\<forall>a \<in> set (xs @ ys). is_free c a \<longrightarrow> \<not> IsAlive (blocks c a))"

definition joins_preceding :: "cluster \<Rightarrow> nat list \<Rightarrow> bool" where
  "joins_preceding c xs \<longleftrightarrow> xs \<noteq> [] \<and> is_free c (last xs)"

definition joins_following :: "cluster \<Rightarrow> nat list \<Rightarrow> bool" where
  "joins_following c ys \<longleftrightarrow> ys \<noteq> [] \<and> is_free c (hd ys)"

text \<open>The free block that comes of the region, and the blocks before and behind it.\<close>

definition region_start :: "cluster \<Rightarrow> nat list \<Rightarrow> nat \<Rightarrow> nat" where
  "region_start c xs node = (if joins_preceding c xs then last xs else node)"

definition region_size :: "cluster \<Rightarrow> nat list \<Rightarrow> nat \<Rightarrow> nat \<Rightarrow> nat list \<Rightarrow> nat" where
  "region_size c xs node sz ys =
     (if joins_preceding c xs then dataSize (blocks c (last xs)) else 0) + sz +
     (if joins_following c ys then dataSize (blocks c (node + sz)) else 0)"

definition blocks_before :: "cluster \<Rightarrow> nat list \<Rightarrow> nat list" where
  "blocks_before c xs = (if joins_preceding c xs then butlast xs else xs)"

definition blocks_behind :: "cluster \<Rightarrow> nat list \<Rightarrow> nat list" where
  "blocks_behind c ys = (if joins_following c ys then tl ys else ys)"

lemma tseg_last: "tseg c a xs e \<Longrightarrow> xs \<noteq> [] \<Longrightarrow> last xs + dataSize (blocks c (last xs)) = e"
  by (induction xs arbitrary: a) auto

lemma tseg_end_unique: "tseg c a xs e \<Longrightarrow> b \<in> set xs \<Longrightarrow> b + dataSize (blocks c b) = e \<Longrightarrow> b = last xs"
proof (induction xs arbitrary: a)
  case (Cons x xs)
  have t: "x = a" "tseg c (a + dataSize (blocks c a)) xs e" using Cons.prems(1) by auto
  show ?case
  proof (cases "xs = []")
    case False
    then have "b \<noteq> x" using t tseg_bounds [OF t(2), of "hd xs"] Cons.prems(3) by auto
    then show ?thesis using Cons.IH [OF t(2)] Cons.prems False by auto
  qed (use Cons.prems in auto)
qed simp

text \<open>Whether the code joins is whether the neighbours of the gap are free.\<close>

lemma join_preceding_iff:
  assumes "tseg c 0 xs n"
  defines "fx \<equiv> filter (is_free c) xs"
  shows "(fx \<noteq> [] \<and> last fx + dataSize (blocks c (last fx)) = n) = joins_preceding c xs"
    and "joins_preceding c xs \<Longrightarrow> last fx = last xs \<and> fx = filter (is_free c) (butlast xs) @ [last xs]"
proof -
  show j: "last fx = last xs \<and> fx = filter (is_free c) (butlast xs) @ [last xs]" if "joins_preceding c xs"
    using that by (cases xs rule: rev_cases) (auto simp: joins_preceding_def fx_def)
  show "(fx \<noteq> [] \<and> last fx + dataSize (blocks c (last fx)) = n) = joins_preceding c xs"
  proof
    assume l: "fx \<noteq> [] \<and> last fx + dataSize (blocks c (last fx)) = n"
    then have "last fx \<in> set xs" "is_free c (last fx)" using last_in_set [of fx] by (auto simp: fx_def)
    then show "joins_preceding c xs"
      using tseg_end_unique [OF assms(1)] l by (auto simp: joins_preceding_def)
  next
    assume "joins_preceding c xs"
    then show "fx \<noteq> [] \<and> last fx + dataSize (blocks c (last fx)) = n"
      using j tseg_last [OF assms(1)] by (auto simp: joins_preceding_def)
  qed
qed

lemma join_following_iff:
  assumes "tseg c e ys p"
  defines "fy \<equiv> filter (is_free c) ys"
  shows "(fy \<noteq> [] \<and> hd fy = e) = joins_following c ys"
    and "joins_following c ys \<Longrightarrow> hd ys = e \<and> fy = e # filter (is_free c) (tl ys)"
proof -
  show j: "hd ys = e \<and> fy = e # filter (is_free c) (tl ys)" if "joins_following c ys"
    using that assms(1) by (cases ys) (auto simp: joins_following_def fy_def)
  show "(fy \<noteq> [] \<and> hd fy = e) = joins_following c ys"
  proof
    assume "fy \<noteq> [] \<and> hd fy = e"
    then have "e \<in> set ys" "is_free c e" using hd_in_set [of fy] by (auto simp: fy_def)
    moreover have "hd ys = e" using assms(1) \<open>e \<in> set ys\<close> by (cases ys) auto
    ultimately show "joins_following c ys" by (auto simp: joins_following_def)
  qed (use j in auto)
qed

section \<open>The whole operation\<close>

lemma link_ClearData:
  "x \<noteq> Blk a \<Longrightarrow> link_next (update_block a ClearData c) x = link_next c x"
  "x \<noteq> Blk a \<Longrightarrow> link_prev (update_block a ClearData c) x = link_prev c x"
  by (cases x; simp add: update_block_def link_next.simps link_prev.simps)+

text \<open>The free list after the region has been linked and joined, before its id is written.\<close>

lemma InsertInOrder_relinks:
  assumes g: "gap_wf c xs node sz ys"
  defines "fx \<equiv> filter (is_free c) xs" and "fy \<equiv> filter (is_free c) ys"
  defines "n' \<equiv> region_start c xs node" and "sz' \<equiv> region_size c xs node sz ys"
  shows "\<exists>c'. InsertInOrder node sz c =
      Some (c_bind (change_block n' (SetDataId DATATYPE_FREEBLOCK (ucast HB_Pinned) sz') c') (\<lambda>c. Ret (n', c))) \<and>
    seg c' Head (filter (is_free c) (blocks_before c xs) @ n' # filter (is_free c) (blocks_behind c ys)) Tail \<and>
    relinked (set (fx @ node # fy)) (update_block node ClearData c) c'"
proof -
  let ?L = "set (fx @ node # fy)"
  have t: "tseg c 0 xs node" "tseg c (node + sz) ys (m_payloadSize c)" "0 < sz"
    and f: "free_list c (fx @ fy)" using g by (auto simp: gap_wf_def fx_def fy_def)
  have s: "seg c Head (fx @ fy) Tail" "m_null c = Null" "\<forall>a \<in> set (fx @ fy). a < m_payloadSize c" "distinct (fx @ fy)"
    using f by (auto simp: free_list_def)
  have lt: "\<forall>a \<in> set fx. a < node" "\<forall>a \<in> set fy. node < a"
    using tseg_bounds [OF t(1)] tseg_bounds [OF t(2)] t(3) by (fastforce simp: fx_def fy_def)+
  have n: "node < m_payloadSize c" using tseg_le [OF t(2)] t(3) by simp
  have ip: "insert_point c node (m_first c) = Some (Ret (first_node fy))"
    using insert_point_seg [OF s(1-3) lt] by (simp add: link_next.simps)
  let ?c0 = "update_block node ClearData c"
  have nin: "node \<notin> set (fx @ fy)" using lt by auto
  have ne: "x \<noteq> node" if "x \<in> set fx \<or> x \<in> set fy" for x using that nin by auto
  have "seg ?c0 Head (fx @ fy) Tail"
    using s(1) ne by (subst seg_frame [of _ _ _ c]) (auto simp: link_ClearData)
  then have f0: "free_list ?c0 (fx @ fy)" using s by (simp add: free_list_def)
  have clear: "nextBlock (blocks ?c0 node) = Null" "prevBlock (blocks ?c0 node) = Null"
    by (simp_all add: update_block_def ClearData_def)
  obtain c1 where c1: "InsertBeforeNode (first_node fy) (Blk node) ?c0 = Some (Ret c1)"
    "seg c1 Head fx (Blk node)" "seg c1 (Blk node) fy Tail" "relinked ?L ?c0 c1"
    using InsertBeforeNode_seg [OF f0 nin _ clear] n by auto
  have id0: "same_id (blocks ?c0 x) (blocks c x)" for x
    by (simp add: same_id_def update_block_def ClearData_def)
  have id1: "same_id (blocks c1 x) (blocks c x)" for x
    using c1(4) id0 same_id_trans unfolding relinked_def by blast
  have d: "distinct (fx @ node # fy)" using s(4) nin by auto
  have pay1: "\<forall>x \<in> set (fx @ node # fy). x < m_payloadSize c1" "m_null c1 = Null"
    using c1(4) s(2,3) n by (auto simp: relinked_def)
  note jf = join_following_iff [OF t(2), folded fy_def]
  note jp = join_preceding_iff [OF t(1), folded fx_def]
  define fy2 where "fy2 = (if joins_following c ys then tl fy else fy)"
  define sz2 where "sz2 = (if joins_following c ys then sz + dataSize (blocks c (node + sz)) else sz)"
  obtain c2 where c2: "coalesce_following node sz c1 = Ret (sz2, c2)"
    "seg c2 Head fx (Blk node)" "seg c2 (Blk node) fy2 Tail" "relinked ?L c1 c2"
    using coalesce_following_seg [OF c1(2,3) d pay1, of sz] id1 unfolding jf(1) fy2_def sz2_def
    by (auto simp: same_id_def)
  have id2: "same_id (blocks c2 x) (blocks c x)" for x
    using c2(4) id1 same_id_trans unfolding relinked_def by blast
  have sub: "set fy2 \<subseteq> set fy" "distinct (fx @ node # fy2)"
    using d by (cases fy; auto simp: fy2_def)+
  have pay2: "\<forall>x \<in> set (fx @ node # fy2). x < m_payloadSize c2" "m_null c2 = Null"
    using c2(4) pay1 sub(1) by (auto simp: relinked_def)
  have join: "(fx \<noteq> [] \<and> last fx + dataSize (blocks c2 (last fx)) = node) = joins_preceding c xs"
    using jp(1) id2 by (simp add: same_id_def)
  obtain c3 where c3: "coalesce_preceding node sz2 c2 = Ret (if joins_preceding c xs then last fx else node,
      if joins_preceding c xs then sz2 + dataSize (blocks c2 (last fx)) else sz2, c3)"
    "seg c3 Head (if joins_preceding c xs then fx @ fy2 else fx @ node # fy2) Tail"
    "relinked (set (fx @ node # fy2)) c2 c3"
    using coalesce_preceding_seg [OF c2(2,3) sub(2) pay2, of sz2] unfolding join by blast
  have "(if joins_preceding c xs then last fx else node) = n'" using jp(2) by (simp add: n'_def region_start_def)
  moreover have "(if joins_preceding c xs then sz2 + dataSize (blocks c2 (last fx)) else sz2) = sz'"
    using jp(2) id2 by (simp add: sz'_def region_size_def sz2_def same_id_def)
  ultimately have "coalesce_preceding node sz2 c2 = Ret (n', sz', c3)" using c3(1) by simp
  then have "coalesce node sz c1 =
      c_bind (change_block n' (SetDataId DATATYPE_FREEBLOCK (ucast HB_Pinned) sz') c3) (\<lambda>c. Ret (n', c))"
    using c2(1) by (simp add: coalesce_def)
  then have "InsertInOrder node sz c =
      Some (c_bind (change_block n' (SetDataId DATATYPE_FREEBLOCK (ucast HB_Pinned) sz') c3) (\<lambda>c. Ret (n', c)))"
    using ip n c1(1) by (simp add: InsertInOrder_def change_block_def)
  moreover have "relinked ?L c2 c3" using c3(3) sub(1) by (rule_tac relinked_mono) auto
  then have "relinked ?L ?c0 c3" using c1(4) c2(4) relinked_trans by blast
  moreover have "fy2 = filter (is_free c) (blocks_behind c ys)"
    using jf(2) by (simp add: fy2_def blocks_behind_def) (simp add: fy_def)
  moreover have "(if joins_preceding c xs then fx @ fy2 else fx @ node # fy2) =
      filter (is_free c) (blocks_before c xs) @ n' # fy2"
    using jp(2) by (simp add: n'_def region_start_def blocks_before_def) (simp add: fx_def)
  ultimately show ?thesis using c3(2) by (intro exI [of _ c3]) simp
qed

text \<open>Where the new block lies among the others.\<close>

lemma region_tiles:
  assumes "gap_wf c xs node sz ys"
  shows "tseg c 0 (blocks_before c xs) (region_start c xs node)"
    and "tseg c (region_start c xs node + region_size c xs node sz ys) (blocks_behind c ys) (m_payloadSize c)"
    and "0 < region_size c xs node sz ys"
    and "set (blocks_before c xs) \<subseteq> set xs" and "set (blocks_behind c ys) \<subseteq> set ys"
proof -
  have t: "tseg c 0 xs node" "tseg c (node + sz) ys (m_payloadSize c)" "0 < sz"
    using assms by (auto simp: gap_wf_def)
  have p: "tseg c 0 (butlast xs) (last xs) \<and> last xs + dataSize (blocks c (last xs)) = node"
    if "joins_preceding c xs"
    using that t(1) tseg_append [of c 0 "butlast xs" "last xs" "[]" node] by (auto simp: joins_preceding_def)
  have q: "tseg c (node + sz + dataSize (blocks c (node + sz))) (tl ys) (m_payloadSize c)" if "joins_following c ys"
    using that t(2) by (cases ys) (auto simp: joins_following_def)
  show "tseg c 0 (blocks_before c xs) (region_start c xs node)"
    using p t(1) by (simp add: blocks_before_def region_start_def)
  have e: "region_start c xs node + region_size c xs node sz ys =
      node + sz + (if joins_following c ys then dataSize (blocks c (node + sz)) else 0)"
    using p by (auto simp: region_start_def region_size_def)
  show "tseg c (region_start c xs node + region_size c xs node sz ys) (blocks_behind c ys) (m_payloadSize c)"
    unfolding e using q t(2) by (simp add: blocks_behind_def)
  show "0 < region_size c xs node sz ys" using t(3) by (simp add: region_size_def)
  show "set (blocks_before c xs) \<subseteq> set xs" "set (blocks_behind c ys) \<subseteq> set ys"
    by (auto simp: blocks_before_def blocks_behind_def dest: in_set_butlastD) (cases ys; auto)
qed

definition region_returned :: "cluster \<Rightarrow> nat list \<Rightarrow> nat \<Rightarrow> nat \<Rightarrow> nat list \<Rightarrow> cluster \<Rightarrow> bool" where
  "region_returned c xs node sz ys c' \<longleftrightarrow>
     (let n' = region_start c xs node in
      heap_wf c' (blocks_before c xs @ n' # blocks_behind c ys) \<and> m_payloadSize c' = m_payloadSize c \<and>
      is_free c' n' \<and> dataSize (blocks c' n') = region_size c xs node sz ys \<and>
      (\<forall>b \<in> set (blocks_before c xs @ blocks_behind c ys).
         same_id (blocks c' b) (blocks c b) \<and> (\<not> is_free c b \<longrightarrow> blocks c' b = blocks c b)))"

lemma InsertInOrder_returns:
  assumes g: "gap_wf c xs node sz ys"
  shows "\<exists>c'. InsertInOrder node sz c = Some (Ret (region_start c xs node, c')) \<and>
    region_returned c xs node sz ys c'"
proof -
  define n' sz' xs' ys' where "n' = region_start c xs node" and "sz' = region_size c xs node sz ys"
    and "xs' = blocks_before c xs" and "ys' = blocks_behind c ys"
  note t = region_tiles [OF g, folded n'_def sz'_def xs'_def ys'_def]
  define fx fy where "fx = filter (is_free c) xs" and "fy = filter (is_free c) ys"
  obtain c3 where c3: "InsertInOrder node sz c =
      Some (c_bind (change_block n' (SetDataId DATATYPE_FREEBLOCK (ucast HB_Pinned) sz') c3) (\<lambda>c. Ret (n', c)))"
    "seg c3 Head (filter (is_free c) xs' @ n' # filter (is_free c) ys') Tail"
    "relinked (set (fx @ node # fy)) (update_block node ClearData c) c3"
    using InsertInOrder_relinks [OF g] unfolding n'_def sz'_def xs'_def ys'_def fx_def fy_def by blast
  let ?c = "update_block n' (SetDataId DATATYPE_FREEBLOCK (ucast HB_Pinned) sz') c3"
  have pay: "m_payloadSize c3 = m_payloadSize c" "m_null c3 = Null"
    using c3(3) g by (auto simp: relinked_def gap_wf_def free_list_def)
  have le: "m_payloadSize c \<le> 0xFFFF" "n' + sz' \<le> m_payloadSize c" using g tseg_le [OF t(2)] by (auto simp: gap_wf_def)
  have far: "b < n' \<or> n' + sz' \<le> b" "b < m_payloadSize c" "b \<in> set (xs @ ys)" "b \<noteq> node" if "b \<in> set (xs' @ ys')" for b
  proof -
    show "b < n' \<or> n' + sz' \<le> b" "b < m_payloadSize c"
      using that tseg_bounds [OF t(1)] tseg_bounds [OF t(2)] le(2) t(3) by fastforce+
    show m: "b \<in> set (xs @ ys)" using that t(4,5) by auto
    have "tseg c 0 xs node" "tseg c (node + sz) ys (m_payloadSize c)" "0 < sz" using g by (auto simp: gap_wf_def)
    then show "b \<noteq> node" using m tseg_bounds [of c 0 xs node b] tseg_bounds [of c "node + sz" ys _ b] by fastforce
  qed
  have id: "same_id (blocks ?c b) (blocks c b)" if "b \<in> set (xs' @ ys')" for b
  proof -
    have "b \<noteq> n'" using far(1) [OF that] t(3) by auto
    then have "same_id (blocks ?c b) (blocks (update_block node ClearData c) b)"
      using c3(3) by (simp add: relinked_def update_block_def)
    then show ?thesis using far(4) [OF that] by (simp add: update_block_def)
  qed
  have same: "blocks ?c b = blocks c b" if "b \<in> set (xs' @ ys')" "\<not> is_free c b" for b
  proof -
    have "b \<noteq> n'" using far(1) [OF that(1)] t(3) by auto
    moreover have "b \<notin> set (fx @ node # fy)" using that(2) far(4) [OF that(1)] by (auto simp: fx_def fy_def)
    ultimately show ?thesis using c3(3) far(4) [OF that(1)] by (simp add: relinked_def update_block_def)
  qed
  have free: "is_free ?c b = is_free c b" if "b \<in> set (xs' @ ys')" for b by (rule is_free_frame [OF id [OF that]])
  have n: "is_free ?c n'" "\<not> IsAlive (blocks ?c n')" "dataSize (blocks ?c n') = sz'" "block_ok (blocks ?c n')"
    using le t(3) FREEBLOCK_ok Pinned_dead by (simp_all add: is_free_def IsFlagSet_def block_ok_def)
  have "tseg ?c 0 xs' n'" "tseg ?c (n' + sz') ys' (m_payloadSize c)"
    using t(1,2) id tseg_frame [of xs' ?c c] tseg_frame [of ys' ?c c] by simp_all
  then have "tseg ?c 0 (xs' @ n' # ys') (m_payloadSize c)" using n by (simp add: tseg_append)
  moreover have "filter (is_free ?c) xs' = filter (is_free c) xs'" "filter (is_free ?c) ys' = filter (is_free c) ys'"
    using free by (auto intro: filter_cong)
  then have "seg ?c Head (filter (is_free ?c) (xs' @ n' # ys')) Tail"
    using c3(2) n(1) seg_frame [of Head "filter (is_free c) (xs' @ n' # ys')" ?c c3 Tail]
    by (simp add: seg_append) (metis link_SetDataId seg_frame)
  moreover have "distinct (filter (is_free ?c) (xs' @ n' # ys'))"
    using calculation(1) tseg_distinct distinct_filter by blast
  moreover have "\<not> IsAlive (blocks ?c b)" if "b \<in> set (xs' @ n' # ys')" "is_free ?c b" for b
  proof (cases "b = n'")
    case False
    then have b: "b \<in> set (xs' @ ys')" using that by auto
    then have "\<not> IsAlive (blocks c b)" using g far(3) [OF b] free [OF b] that(2) by (auto simp: gap_wf_def)
    then show ?thesis using id [OF b] by (simp add: IsFlagSet_def same_id_def)
  qed (use n in simp)
  moreover have "n' < m_payloadSize c" using le(2) t(3) by simp
  ultimately have "heap_wf ?c (xs' @ n' # ys')"
    using le pay far(2) by (auto simp: heap_wf_def free_list_def)
  then have "region_returned c xs node sz ys ?c"
    using n pay id same by (simp add: region_returned_def Let_def n'_def sz'_def xs'_def ys'_def)
  moreover have "InsertInOrder node sz c = Some (Ret (n', ?c))"
    using c3(1) pay \<open>n' < m_payloadSize c\<close> by (simp add: change_block_def)
  ultimately show ?thesis unfolding n'_def by blast
qed

end
