(* ===== verification/NF_Heap.thy ===== *)
theory NF_Heap
  imports NF_HeapSweep NF_HeapInsert
begin

text \<open>
  The properties of a heap cluster: what an allocation takes, what the sweep after a mark phase
  leaves, that a collection makes room for whatever fits into a run of dead blocks, and that a region
  which is returned joins the free blocks it touches.
\<close>

section \<open>Neighbours after a sweep\<close>

lemma hd_kept_dead: "kept c True bs \<noteq> [] \<Longrightarrow> IsAlive (blocks c (hd (kept c True bs)))"
  by (induction bs) auto

lemma kept_no_dead_neighbours:
  "successively (\<lambda>a b. IsAlive (blocks c a) \<or> IsAlive (blocks c b)) (kept c d bs)"
proof (induction bs arbitrary: d)
  case (Cons b bs)
  then show ?case using hd_kept_dead [of c bs] by (auto simp: successively_Cons)
qed simp

lemma kept_append_dead:
  assumes "\<forall>b \<in> set ds. \<not> IsAlive (blocks c b)" and "distinct (xs @ ds @ ys)" and "b \<in> set (tl ds)"
  shows "b \<notin> set (kept c d (xs @ ds @ ys))"
  using assms
proof (induction xs arbitrary: d)
  case Nil
  obtain e es where ds: "ds = e # es" using Nil.prems(3) by (cases ds) auto
  have "kept c True (es @ ys) = kept c True ys" if "\<forall>b \<in> set es. \<not> IsAlive (blocks c b)" for es
    using that by (induction es) auto
  then have "set (kept c d (ds @ ys)) \<subseteq> {e} \<union> set ys"
    using Nil.prems(1) kept_subset [of c True ys] by (auto simp: ds)
  then show ?case using Nil.prems(2,3) by (auto simp: ds)
next
  case (Cons x xs)
  then have "b \<noteq> x" by (cases ds) auto
  then show ?case using Cons by auto
qed

text \<open>A tiling covers every address.\<close>

lemma tseg_covers:
  "tseg c a bs e \<Longrightarrow> a \<le> x \<Longrightarrow> x < e \<Longrightarrow>
     \<exists>b \<in> set bs. b \<le> x \<and> x < b + dataSize (blocks c b) \<and> b + dataSize (blocks c b) \<in> set bs \<union> {e}"
proof (induction bs arbitrary: a)
  case (Cons b bs)
  have t: "b = a" "tseg c (a + dataSize (blocks c a)) bs e" using Cons.prems(1) by auto
  show ?case
  proof (cases "x < a + dataSize (blocks c a)")
    case True
    have "a + dataSize (blocks c a) \<in> set bs \<union> {e}" using t(2) by (cases bs) auto
    then show ?thesis using True t(1) Cons.prems(2) by auto
  next
    case False
    then show ?thesis using Cons.IH [OF t(2)] Cons.prems(3) by fastforce
  qed
qed simp

text \<open>The free block that a sweep makes of a run of dead ones is at least as long.\<close>

lemma swept_run:
  assumes m: "markable c (xs @ ds @ ys)" and s: "after_sweep c (xs @ ds @ ys) c'"
    and dead: "\<forall>b \<in> set ds. \<not> IsAlive (blocks c b)" and ne: "ds \<noteq> []"
  shows "\<exists>b \<in> set (kept c False (xs @ ds @ ys)). is_free c' b \<and> total_size c ds \<le> dataSize (blocks c' b)"
proof -
  let ?bs = "xs @ ds @ ys" and ?K = "kept c False (xs @ ds @ ys)"
  obtain x es where ds: "ds = x # es" using ne by (cases ds) auto
  have t: "tseg c 0 ?bs (m_payloadSize c)" using m by (simp add: markable_def)
  then have tx: "tseg c x (ds @ ys) (m_payloadSize c)" by (simp add: ds tseg_append)
  have td: "tseg c x ds (x + total_size c ds)" "tseg c (x + total_size c ds) ys (m_payloadSize c)"
    using tseg_total [OF tx] by auto
  have K: "tseg c' 0 ?K (m_payloadSize c)" using s by (auto simp: after_sweep_def heap_wf_def)
  have "x < m_payloadSize c" using tseg_bounds [OF tx, of x] ds by simp
  then obtain b where b: "b \<in> set ?K" "b \<le> x" "x < b + dataSize (blocks c' b)"
    "b + dataSize (blocks c' b) \<in> set ?K \<union> {m_payloadSize c}" using tseg_covers [OF K, of x] by auto
  have b_bs: "b \<in> set ?bs" using b(1) kept_subset by blast
  define e where "e = b + dataSize (blocks c' b)"
  have "x + total_size c ds \<le> e"
  proof (rule ccontr)
    assume lt: "\<not> x + total_size c ds \<le> e"
    have "x + total_size c ds \<le> m_payloadSize c" using tseg_le [OF td(2)] .
    then have eK: "e \<in> set ?K" using b(4) lt by (auto simp: e_def)
    then have "e \<in> set ?bs" using kept_subset by blast
    moreover have "e \<notin> set ys" using tseg_bounds [OF td(2), of e] lt by auto
    moreover have "tseg c 0 xs x" using t by (simp add: ds tseg_append)
    then have "e \<notin> set xs" using tseg_bounds [of c 0 xs x e] b(3) by (auto simp: e_def)
    ultimately have "e \<in> set (tl ds)" using b(3) by (auto simp: ds e_def)
    then show False using kept_append_dead [OF dead tseg_distinct [OF t]] eK by blast
  qed
  moreover have "\<not> IsAlive (blocks c b)"
  proof
    assume al: "IsAlive (blocks c b)"
    then have "blocks c' b = swept (blocks c b)" using s b_bs by (simp add: after_sweep_def)
    then have sz: "dataSize (blocks c' b) = dataSize (blocks c b)" by simp
    have "b \<noteq> x" using al dead ds by auto
    then have "b \<in> set xs" using b_bs b(2) tseg_bounds [OF tx, of b] ds by fastforce
    moreover have "tseg c 0 xs x" using t by (simp add: ds tseg_append)
    ultimately show False using tseg_bounds [of c 0 xs x b] b(3) sz by auto
  qed
  then have "b \<in> set (filter (is_free c') ?K)"
    using s b(1) by (simp add: after_sweep_def dead_first_def)
  ultimately show ?thesis using b(1,2) by (intro bexI [of _ b]) (auto simp: e_def)
qed

lemma chosen_exists:
  assumes "b \<in> set bs" and "is_free c b" and "len \<le> dataSize (blocks c b)"
  shows "\<exists>a. chosen c bs flags len = Some a"
  using assms by (cases "chosen c bs flags len") (auto simp: chosen_def Let_def find_None_iff split: if_splits)

section \<open>Properties\<close>

text \<open>
  C6: an allocation. On a well-formed cluster \<open>ExtractBlocks\<close> fails, and changes nothing, exactly when no
  free block is long enough. Otherwise the new block lies at the start of the first free block that is
  long enough (for an event: at the end of the last one) and has the type, the flags and the length asked
  for; the rest of that free block is one free block; every other block keeps its id, every block in use
  all of its contents; and the cluster is well-formed again.
\<close>

theorem allocation_takes_one_free_block:
  assumes "heap_wf c bs" and "0 < len" and "dt \<noteq> DATATYPE_FREEBLOCK" and "dt < DATATYPE_FIRST_INVALID"
  shows "case chosen c bs flags len of
      None \<Rightarrow> ExtractBlocks dt flags len c = Some (Ret (None, c))
    | Some a \<Rightarrow> \<exists>r c'. ExtractBlocks dt flags len c = Some (Ret (Some r, c')) \<and>
        extracted c bs a (dataSize (blocks c a)) dt flags len r c'"
  using ExtractBlocks_none [OF assms(1)] ExtractBlocks_some [OF assms(1) _ assms(2-4)]
  by (auto split: option.splits)

text \<open>
  C7: the sweep. Whatever the free list was, when the blocks of a cluster tile it and no free block is
  marked, \<open>RecoverFromGC\<close> returns a well-formed cluster whose blocks are the marked ones and the first of
  every run of unmarked ones, grown to the length of the run and free; no two neighbours are free; a
  marked block keeps all of its contents and loses the mark, unless it is an event.
\<close>

theorem sweep_rebuilds_cluster:
  assumes "markable c bs"
  shows "\<exists>c'. RecoverFromGC c = Ret c' \<and> after_sweep c bs c' \<and>
    successively (\<lambda>a b. \<not> (is_free c' a \<and> is_free c' b)) (kept c False bs)"
proof -
  obtain c' where c': "RecoverFromGC c = Ret c'" "after_sweep c bs c'"
    using RecoverFromGC_sweeps [OF assms] by blast
  have "IsAlive (blocks c b) \<longrightarrow> \<not> is_free c' b" if "b \<in> set (kept c False bs)" for b
    using that c'(2) kept_subset [of c False bs] assms
    by (auto simp: after_sweep_def markable_def is_free_def)
  then have "successively (\<lambda>a b. \<not> (is_free c' a \<and> is_free c' b)) (kept c False bs)"
    by (intro successively_mono [OF kept_no_dead_neighbours]) blast+
  then show ?thesis using c' by blast
qed

text \<open>
  C16: a collection makes room. When a run of unmarked blocks is together as long as an allocation asks
  for, the allocation succeeds after the sweep.
\<close>

theorem collection_makes_room:
  assumes "markable c (xs @ ds @ ys)" and "\<forall>b \<in> set ds. \<not> IsAlive (blocks c b)"
    and "0 < len" and "len \<le> total_size c ds" and "dt \<noteq> DATATYPE_FREEBLOCK" and "dt < DATATYPE_FIRST_INVALID"
  shows "\<exists>c' r c''. RecoverFromGC c = Ret c' \<and> ExtractBlocks dt flags len c' = Some (Ret (Some r, c'')) \<and>
    dataSize (blocks c'' r) = len"
proof -
  let ?K = "kept c False (xs @ ds @ ys)"
  obtain c' where c': "RecoverFromGC c = Ret c'" "after_sweep c (xs @ ds @ ys) c'"
    using RecoverFromGC_sweeps [OF assms(1)] by blast
  have "ds \<noteq> []" using assms(3,4) by (auto simp: total_size_def)
  then obtain b where "b \<in> set ?K" "is_free c' b" "len \<le> dataSize (blocks c' b)"
    using swept_run [OF assms(1) c'(2) assms(2)] assms(4) by auto
  then obtain a where a: "chosen c' ?K flags len = Some a" using chosen_exists by blast
  have "heap_wf c' ?K" using c'(2) by (simp add: after_sweep_def)
  from ExtractBlocks_some [OF this a assms(3,5,6)] show ?thesis
    using c'(1) unfolding extracted_def by blast
qed

text \<open>
  C20: returning a region. When the blocks before and behind a region tile the rest of the cluster and
  the free ones are in the list, \<open>InsertInOrder\<close> makes one free block of the region and of the free
  blocks it touches on either side, and returns its address; the cluster is well-formed, and every
  other block keeps its id, every block in use all of its contents.
\<close>

theorem returned_region_joins_neighbours:
  assumes "gap_wf c xs node sz ys"
  shows "\<exists>c'. InsertInOrder node sz c = Some (Ret (region_start c xs node, c')) \<and>
    region_returned c xs node sz ys c'"
  by (rule InsertInOrder_returns [OF assms])

text \<open>A cluster of ten blocks: an object of two, three free ones, a marked object, four free ones.\<close>

definition demo_block :: "u8 \<Rightarrow> u8 \<Rightarrow> nat \<Rightarrow> node_ptr \<Rightarrow> node_ptr \<Rightarrow> hblock" where
  "demo_block dt fl sz nx pv = \<lparr>dataType = dt, hflags = fl, dataSize = sz, nextBlock = nx, prevBlock = pv,
     weak_flags = 0, weak_target = False, arr_typeOfElement = 0, arr_sizeOfElement = 0, arr_fReference = 0,
     arr_numOfElements = 0\<rparr>"

definition demo_cluster :: cluster where
  "demo_cluster = \<lparr>m_first = Blk 2, m_null = Null, m_last = Blk 6, blocks = (\<lambda>a.
     if a = 0 then demo_block 17 0 2 Null Null
     else if a = 2 then demo_block DATATYPE_FREEBLOCK HB_Pinned 3 (Blk 6) Head
     else if a = 5 then demo_block 17 HB_Alive 1 Null Null
     else demo_block DATATYPE_FREEBLOCK HB_Pinned 4 Tail (Blk 2)), m_payloadSize = 10\<rparr>"

lemmas demo_simps = demo_cluster_def demo_block_def is_free_def IsFlagSet_def block_ok_def
  DATATYPE_FREEBLOCK_def DATATYPE_FIRST_INVALID_def HB_Alive_def HB_Pinned_def HB_Event_def

lemma demo_wf: "heap_wf demo_cluster [0, 2, 5, 6]"
  by (simp add: heap_wf_def free_list_def demo_simps link_next.simps link_prev.simps)

lemma demo_chosen: "chosen demo_cluster [0, 2, 5, 6] 0 2 = Some 2" "chosen demo_cluster [0, 2, 5, 6] 4 2 = Some 6"
  "chosen demo_cluster [0, 2, 5, 6] 0 5 = None"
  by (simp_all add: chosen_def demo_simps)

theorem allocation_takes_one_free_block_witness:
  "ExtractBlocks 17 0 5 demo_cluster = Some (Ret (None, demo_cluster)) \<and>
   (\<exists>r c'. ExtractBlocks 17 0 2 demo_cluster = Some (Ret (Some r, c')) \<and>
      extracted demo_cluster [0, 2, 5, 6] 2 3 17 0 2 r c') \<and>
   (\<exists>r c'. ExtractBlocks 17 4 2 demo_cluster = Some (Ret (Some r, c')) \<and>
      extracted demo_cluster [0, 2, 5, 6] 6 4 17 4 2 r c')"
  using allocation_takes_one_free_block [OF demo_wf, of 5 17 0]
    allocation_takes_one_free_block [OF demo_wf, of 2 17 0] allocation_takes_one_free_block [OF demo_wf, of 2 17 4]
  by (simp add: demo_chosen) (simp add: demo_simps)

theorem sweep_rebuilds_cluster_witness:
  "\<exists>c'. RecoverFromGC demo_cluster = Ret c' \<and> after_sweep demo_cluster [0, 2, 5, 6] c' \<and>
     successively (\<lambda>a b. \<not> (is_free c' a \<and> is_free c' b)) [0, 5, 6]"
  using sweep_rebuilds_cluster [OF heap_wf_markable [OF demo_wf]] by (simp add: demo_simps)

theorem collection_makes_room_witness:
  "\<exists>c' r c''. RecoverFromGC demo_cluster = Ret c' \<and>
     ExtractBlocks 17 0 5 c' = Some (Ret (Some r, c'')) \<and> dataSize (blocks c'' r) = 5"
  by (rule collection_makes_room [of demo_cluster "[]" "[0, 2]" "[5, 6]" 5 17 0])
    (use heap_wf_markable [OF demo_wf] in \<open>simp_all add: demo_simps total_size_def\<close>)

theorem returned_region_joins_neighbours_witness:
  "\<exists>c'. InsertInOrder 5 1 demo_cluster = Some (Ret (2, c')) \<and> dataSize (blocks c' 2) = 8 \<and> heap_wf c' [0, 2]"
proof -
  have "gap_wf demo_cluster [0, 2] 5 1 [6]"
    using demo_wf by (auto simp: gap_wf_def heap_wf_def demo_simps)
  from returned_region_joins_neighbours [OF this] show ?thesis
    by (auto simp: region_returned_def region_start_def region_size_def blocks_before_def blocks_behind_def
        joins_preceding_def joins_following_def demo_simps)
qed

end
