(* ===== verification/NF_Time.thy ===== *)
theory NF_Time
  imports NF_ObjArray
begin

text \<open>
  The calendar of the runtime (src/HAL/nanoHAL_Time.cpp) and \<open>System.DateTime\<close> on top of it
  (corlib_native_System_DateTime.cpp): time is counted in units of 100 ns from 1 January 1601. The
  fields of a date are computed with a guess of the year and of the month that is corrected by at most
  one; the lemmas show that one correction is enough up to the end of the year 3111, against a
  calendar that counts days year by year and month by month.
\<close>

section \<open>The code\<close>

record SYSTEMTIME =
  wYear :: u16
  wMonth :: u16
  wDayOfWeek :: u16
  wDay :: u16
  wHour :: u16
  wMinute :: u16
  wSecond :: u16
  wMilliseconds :: u16

definition CummulativeDaysForMonth :: "int list" where
  "CummulativeDaysForMonth = [0, 31, 59, 90, 120, 151, 181, 212, 243, 273, 304, 334, 365]"

definition DaysInMonth :: "int list" where
  "DaysInMonth = [31, 28, 31, 30, 31, 30, 31, 31, 30, 31, 30, 31]"

definition BASE_YEAR :: int where "BASE_YEAR = 1601"
definition BASE_YEAR_LEAPYEAR_ADJUST :: int where "BASE_YEAR_LEAPYEAR_ADJUST = 388"
definition DAYS_IN_NORMAL_YEAR :: int where "DAYS_IN_NORMAL_YEAR = 365"
definition BASE_YEAR_DAYOFWEEK_SHIFT :: int where "BASE_YEAR_DAYOFWEEK_SHIFT = 1"

definition IS_LEAP_YEAR :: "int \<Rightarrow> bool" where
  "IS_LEAP_YEAR y \<longleftrightarrow> y smod 4 = 0 \<and> y smod 100 \<noteq> 0 \<or> y smod 400 = 0"

definition NUMBER_OF_LEAP_YEARS :: "int \<Rightarrow> int" where
  "NUMBER_OF_LEAP_YEARS y =
     (y - 1) sdiv 4 - (y - 1) sdiv 100 + (y - 1) sdiv 400 - BASE_YEAR_LEAPYEAR_ADJUST"

definition YEARS_TO_DAYS :: "int \<Rightarrow> int" where
  "YEARS_TO_DAYS y = (y - BASE_YEAR) * DAYS_IN_NORMAL_YEAR + NUMBER_OF_LEAP_YEARS y"

text \<open>The tables are indexed without a check: an index below or behind them is a fault.\<close>

definition table_entry :: "int list \<Rightarrow> int \<Rightarrow> int c_result" where
  "table_entry xs i = (if i < 0 then Fault BadIndex else c_index xs (nat i))"

definition MONTH_TO_DAYS :: "int \<Rightarrow> int \<Rightarrow> int c_result" where
  "MONTH_TO_DAYS y m =
     c_bind (table_entry CummulativeDaysForMonth (m - 1)) (\<lambda>n.
     Ret (n + (if IS_LEAP_YEAR y \<and> m > 2 then 1 else 0)))"

definition DAYS_IN_MONTH :: "int \<Rightarrow> int \<Rightarrow> int c_result" where
  "DAYS_IN_MONTH y m =
     c_bind (table_entry DaysInMonth (m - 1)) (\<lambda>n.
     Ret (n + (if IS_LEAP_YEAR y \<and> m = 2 then 1 else 0)))"

definition HAL_Time_ConvertFromSystemTime :: "SYSTEMTIME \<Rightarrow> u64 c_result" where
  "HAL_Time_ConvertFromSystemTime st =
     c_bind (MONTH_TO_DAYS (uint (wYear st)) (uint (wMonth st))) (\<lambda>mtd.
     let r = word_of_int (YEARS_TO_DAYS (uint (wYear st)) + mtd + uint (wDay st) - 1) :: u64 in
     Ret (((((r * 24 + ucast (wHour st)) * 60 + ucast (wMinute st)) * 60 + ucast (wSecond st)) * 1000 +
       ucast (wMilliseconds st)) * 10000))"

text \<open>
  From the number of a day to its year, month and day of the month: the year and the days before it,
  guessed with years of 365 days, and the month, guessed with months of 31 days.
\<close>

definition year_of_day :: "u64 \<Rightarrow> u16 \<times> u32" where
  "year_of_day time =
     (let year = ucast (time div word_of_int DAYS_IN_NORMAL_YEAR + word_of_int BASE_YEAR) :: u16;
          ytd = word_of_int (YEARS_TO_DAYS (uint year)) :: u32
      in if ucast ytd > time
         then let year = year - 1 in (year, word_of_int (YEARS_TO_DAYS (uint year)))
         else (year, ytd))"

definition split_month :: "u16 \<Rightarrow> u64 \<Rightarrow> (u16 \<times> u16 \<times> u16) c_result" where
  "split_month year time =
     (let month = ucast (time div 31 + 1) :: u16
      in c_bind (MONTH_TO_DAYS (uint year) (uint month + 1)) (\<lambda>mtd.
         let month = (if time \<ge> ucast (word_of_int mtd :: u32) then month + 1 else month) in
         c_bind (MONTH_TO_DAYS (uint year) (uint month)) (\<lambda>mtd.
         Ret (year, month, ucast (time - ucast (word_of_int mtd :: u32) + 1)))))"

definition split_day :: "u64 \<Rightarrow> (u16 \<times> u16 \<times> u16) c_result" where
  "split_day time = (let (year, ytd) = year_of_day time in split_month year (time - ucast ytd))"

text \<open>The fields of a time; the function always returns true.\<close>

definition HAL_Time_ToSystemTime :: "u64 \<Rightarrow> SYSTEMTIME c_result" where
  "HAL_Time_ToSystemTime time =
     (let time = time div 10000; ms = ucast (time mod 1000);
          time = time div 1000; sec = ucast (time mod 60);
          time = time div 60; minute = ucast (time mod 60);
          time = time div 60; hour = ucast (time mod 24);
          time = time div 24;
          dow = ucast ((time + word_of_int BASE_YEAR_DAYOFWEEK_SHIFT) mod 7)
      in c_bind (split_day time) (\<lambda>(year, month, day).
         Ret \<lparr>wYear = year, wMonth = month, wDayOfWeek = dow, wDay = day,
           wHour = hour, wMinute = minute, wSecond = sec, wMilliseconds = ms\<rparr>))"

definition HAL_Time_AccDaysInMonth :: "int \<Rightarrow> int \<Rightarrow> int c_result" where
  "HAL_Time_AccDaysInMonth year month = MONTH_TO_DAYS year month"

definition HAL_Time_DaysInMonth :: "int \<Rightarrow> int \<Rightarrow> int c_result" where
  "HAL_Time_DaysInMonth year month = DAYS_IN_MONTH year month"

subsection \<open>\<open>System.DateTime\<close>\<close>

text \<open>The arguments are 32-bit integers, which are cut to 16 bits before they are checked.\<close>

definition DateTime_ctor ::
    "int \<Rightarrow> int \<Rightarrow> int \<Rightarrow> int \<Rightarrow> int \<Rightarrow> int \<Rightarrow> int \<Rightarrow> (hresult + u64) c_result" where
  "DateTime_ctor year month day hour minute sec ms =
     (let st = \<lparr>wYear = word_of_int year, wMonth = word_of_int month, wDayOfWeek = 0, wDay = word_of_int day,
            wHour = word_of_int hour, wMinute = word_of_int minute, wSecond = word_of_int sec,
            wMilliseconds = word_of_int ms\<rparr>
      in if wYear st < 1601 \<or> wYear st > 3000 \<or> wMonth st < 1 \<or> wMonth st > 12 \<or> wDay st < 1 \<or> wDay st > 31
         then Ret (Inl CLR_E_OUT_OF_RANGE)
         else c_bind (HAL_Time_ConvertFromSystemTime st) (\<lambda>ticks. Ret (Inr ticks)))"

definition DateTime_get_DayOfYear :: "u64 \<Rightarrow> int c_result" where
  "DateTime_get_DayOfYear ticks =
     c_bind (HAL_Time_ToSystemTime ticks) (\<lambda>st.
     c_bind (HAL_Time_AccDaysInMonth (uint (wYear st)) (uint (wMonth st))) (\<lambda>days.
     Ret (days + uint (wDay st))))"

text \<open>The getters of a value expand it and take one field.\<close>

definition DateTime_field :: "(SYSTEMTIME \<Rightarrow> u16) \<Rightarrow> u64 \<Rightarrow> int c_result" where
  "DateTime_field f ticks = c_bind (HAL_Time_ToSystemTime ticks) (\<lambda>st. Ret (uint (f st)))"

definition DateTime_get_Day where "DateTime_get_Day = DateTime_field wDay"
definition DateTime_get_DayOfWeek where "DateTime_get_DayOfWeek = DateTime_field wDayOfWeek"
definition DateTime_get_Hour where "DateTime_get_Hour = DateTime_field wHour"
definition DateTime_get_Millisecond where "DateTime_get_Millisecond = DateTime_field wMilliseconds"
definition DateTime_get_Minute where "DateTime_get_Minute = DateTime_field wMinute"
definition DateTime_get_Month where "DateTime_get_Month = DateTime_field wMonth"
definition DateTime_get_Second where "DateTime_get_Second = DateTime_field wSecond"
definition DateTime_get_Year where "DateTime_get_Year = DateTime_field wYear"

definition DateTime_DaysInMonth :: "int \<Rightarrow> int \<Rightarrow> int c_result" where
  "DateTime_DaysInMonth year month = HAL_Time_DaysInMonth year month"

section \<open>The calendar\<close>

definition gregorian_leap :: "nat \<Rightarrow> bool" where
  "gregorian_leap y \<longleftrightarrow> 4 dvd y \<and> (\<not> 100 dvd y \<or> 400 dvd y)"

text \<open>The days of so many years from 1601 on, and of the months before one.\<close>

fun days_of_years :: "nat \<Rightarrow> nat" where
  "days_of_years 0 = 0"
| "days_of_years (Suc n) = days_of_years n + (if gregorian_leap (1601 + n) then 366 else 365)"

definition month_lengths :: "bool \<Rightarrow> nat list" where
  "month_lengths leap = [31, if leap then 29 else 28, 31, 30, 31, 30, 31, 31, 30, 31, 30, 31]"

definition days_of_months :: "bool \<Rightarrow> nat \<Rightarrow> nat" where
  "days_of_months leap m = sum_list (take m (month_lengths leap))"

text \<open>The day of a date, and the milliseconds of a time, from the start of 1601.\<close>

definition civil_day :: "nat \<Rightarrow> nat \<Rightarrow> nat \<Rightarrow> nat" where
  "civil_day y m d = days_of_years (y - 1601) + days_of_months (gregorian_leap y) (m - 1) + (d - 1)"

definition date_day :: "SYSTEMTIME \<Rightarrow> nat" where
  "date_day st = civil_day (unat (wYear st)) (unat (wMonth st)) (unat (wDay st))"

definition civil_ms :: "SYSTEMTIME \<Rightarrow> nat" where
  "civil_ms st = (((date_day st * 24 + unat (wHour st)) * 60 + unat (wMinute st)) * 60 +
     unat (wSecond st)) * 1000 + unat (wMilliseconds st)"

definition valid_date :: "SYSTEMTIME \<Rightarrow> bool" where
  "valid_date st \<longleftrightarrow> 1601 \<le> unat (wYear st) \<and> unat (wYear st) \<le> 3111 \<and>
     1 \<le> unat (wMonth st) \<and> unat (wMonth st) \<le> 12 \<and> 1 \<le> unat (wDay st) \<and>
     unat (wDay st) \<le> month_lengths (gregorian_leap (unat (wYear st))) ! (unat (wMonth st) - 1) \<and>
     unat (wHour st) < 24 \<and> unat (wMinute st) < 60 \<and> unat (wSecond st) < 60 \<and> unat (wMilliseconds st) < 1000"

text \<open>1 January 1601 was a Monday, which is day 1 of the week.\<close>

definition right_day_of_week :: "SYSTEMTIME \<Rightarrow> bool" where
  "right_day_of_week st \<longleftrightarrow> unat (wDayOfWeek st) = (date_day st + 1) mod 7"

section \<open>Years\<close>

lemma smod_nat: "int n smod int k = int (n mod k)"
  by (cases "n = 0") (simp_all add: signed_modulo_int_def zmod_int)

lemma sdiv_nat: "int n sdiv int k = int (n div k)"
  by (cases "n = 0"; cases "k = 0") (simp_all add: signed_divide_int_def zdiv_int)

lemma IS_LEAP_YEAR_nat: "IS_LEAP_YEAR (int y) = gregorian_leap y"
proof -
  have "IS_LEAP_YEAR (int y) \<longleftrightarrow> y mod 4 = 0 \<and> y mod 100 \<noteq> 0 \<or> y mod 400 = 0"
    unfolding IS_LEAP_YEAR_def using smod_nat [of y 4] smod_nat [of y 100] smod_nat [of y 400]
    by (simp add: zmod_int [symmetric])
  also have "\<dots> \<longleftrightarrow> gregorian_leap y"
    unfolding gregorian_leap_def by presburger
  finally show ?thesis .
qed

definition leaps :: "nat \<Rightarrow> nat" where
  "leaps n = (1600 + n) div 4 + (1600 + n) div 400 - (1600 + n) div 100 - 388"

lemma hundreds_le: "1600 \<le> a \<Longrightarrow> 388 + a div 100 \<le> a div 4 + a div 400" for a :: nat
proof -
  assume a: "1600 \<le> a"
  define r s where "r = a div 400" and "s = a mod 400"
  have e: "a = 400 * r + s" by (simp add: r_def s_def)
  have "a div 100 = 4 * r + s div 100" "a div 4 = 100 * r + s div 4" unfolding e by simp_all
  moreover have "s div 100 \<le> s div 4" by (rule div_le_mono2) simp_all
  moreover have "4 \<le> r" using a by (simp add: r_def)
  ultimately show ?thesis unfolding r_def [symmetric] by simp
qed

lemma leaps_Suc: "leaps (Suc n) = leaps n + (if gregorian_leap (1601 + n) then 1 else 0)"
proof -
  have step: "Suc a div k = a div k + (if k dvd Suc a then 1 else 0)" for a k :: nat
    using div_Suc [of a k] by (simp add: dvd_eq_mod_eq_0)
  define a where "a = 1600 + n"
  have d: "100 dvd Suc a \<Longrightarrow> 4 dvd Suc a" "400 dvd Suc a \<Longrightarrow> 100 dvd Suc a"
    using dvd_trans [of 4 100 "Suc a"] dvd_trans [of 100 400 "Suc a"] by simp_all
  have "388 + a div 100 \<le> a div 4 + a div 400" using a_def by (intro hundreds_le) simp
  then obtain q where q: "a div 4 + a div 400 = 388 + a div 100 + q" using le_iff_add by blast
  have "leaps (Suc n) = Suc a div 4 + Suc a div 400 - Suc a div 100 - 388"
    "leaps n = a div 4 + a div 400 - a div 100 - 388"
    by (simp_all add: leaps_def a_def)
  moreover have "Suc a div 4 + Suc a div 400 - Suc a div 100 - 388 =
      (a div 4 + a div 400 - a div 100 - 388) + (if gregorian_leap (Suc a) then 1 else 0)"
  proof (cases "4 dvd Suc a"; cases "100 dvd Suc a"; cases "400 dvd Suc a")
  qed (use step [of a 4] step [of a 100] step [of a 400] d q in \<open>simp_all add: gregorian_leap_def\<close>)
  moreover have "Suc a = 1601 + n" by (simp add: a_def)
  ultimately show ?thesis by metis
qed

lemma days_of_years_leaps: "days_of_years n = 365 * n + leaps n"
  by (induction n) (simp_all add: leaps_Suc, simp add: leaps_def)

lemma sdiv_numeral: "int n sdiv numeral k = int (n div numeral k)"
  by (metis of_nat_numeral sdiv_nat)

lemma YEARS_TO_DAYS_nat: "YEARS_TO_DAYS (1601 + int n) = int (days_of_years n)"
proof -
  have "NUMBER_OF_LEAP_YEARS (1601 + int n) =
      int (1600 + n) sdiv 4 - int (1600 + n) sdiv 100 + int (1600 + n) sdiv 400 - 388"
    by (simp add: NUMBER_OF_LEAP_YEARS_def BASE_YEAR_LEAPYEAR_ADJUST_def)
  also have "\<dots> = int ((1600 + n) div 4) - int ((1600 + n) div 100) + int ((1600 + n) div 400) - 388"
    by (simp only: sdiv_numeral)
  also have "\<dots> = int (leaps n)"
  proof -
    have "388 + (1600 + n) div 100 \<le> (1600 + n) div 4 + (1600 + n) div 400" by (rule hundreds_le) simp
    then obtain q where "(1600 + n) div 4 + (1600 + n) div 400 = 388 + (1600 + n) div 100 + q"
      using le_iff_add by blast
    then show ?thesis unfolding leaps_def by linarith
  qed
  finally show ?thesis
    by (simp add: YEARS_TO_DAYS_def BASE_YEAR_def DAYS_IN_NORMAL_YEAR_def days_of_years_leaps)
qed

lemma leaps_mono: "m \<le> n \<Longrightarrow> leaps m \<le> leaps n"
  by (rule lift_Suc_mono_le [of leaps]) (simp_all add: leaps_Suc)

text \<open>The guess of the year, up to 3111.\<close>

lemma year_guess:
  assumes "days_of_years n \<le> d" and "d < days_of_years (Suc n)" and "n \<le> 1510"
  shows "d div 365 = n \<or> d div 365 = Suc n"
proof -
  have "leaps (Suc n) \<le> leaps 1511" using assms(3) by (intro leaps_mono) simp
  also have "leaps 1511 = 365" by (simp add: leaps_def)
  finally have "leaps (Suc n) \<le> 365" .
  then have "365 * n \<le> d" "d < 365 * (n + 2)" using assms by (simp_all add: days_of_years_leaps)
  then have "n \<le> d div 365" "d div 365 < n + 2" by (simp_all add: less_eq_div_iff_mult_less_eq div_less_iff_less_mult mult.commute)
  then show ?thesis by auto
qed

section \<open>Months\<close>

lemma MONTH_TO_DAYS_nat:
  assumes "1 \<le> m" and "m \<le> 13"
  shows "MONTH_TO_DAYS (int y) (int m) = Ret (int (days_of_months (gregorian_leap y) (m - 1)))"
proof -
  have "m \<in> {1, 2, 3, 4, 5, 6, 7, 8, 9, 10, 11, 12, 13}" using assms by (simp, presburger)
  then show ?thesis
    by (auto simp: MONTH_TO_DAYS_def table_entry_def c_index_def CummulativeDaysForMonth_def
        IS_LEAP_YEAR_nat days_of_months_def month_lengths_def)
qed

text \<open>The guess of the month for the days of a year.\<close>

lemma month_guess:
  assumes "1 \<le> m" and "m \<le> 12" and "days_of_months leap (m - 1) \<le> x" and "x < days_of_months leap m"
  shows "(if days_of_months leap (x div 31 + 1) \<le> x then x div 31 + 2 else x div 31 + 1) = m"
proof -
  have "m \<in> {1, 2, 3, 4, 5, 6, 7, 8, 9, 10, 11, 12}" using assms(1,2) by (simp, presburger)
  then have "x div 31 + 1 = m \<or> x div 31 + 2 = m"
    using assms(3,4) by (cases leap) (auto simp: days_of_months_def month_lengths_def)
  then show ?thesis using assms by auto
qed

section \<open>Words\<close>

lemma u64_small: "n < 2 ^ 64 \<Longrightarrow> unat (of_nat n :: u64) = n"
  by (simp add: unat_of_nat)

lemma u64_div: "n < 2 ^ 64 \<Longrightarrow> (of_nat n :: u64) div w = of_nat (n div unat w)"
  using le_less_trans [OF div_le_dividend, of n "2 ^ 64" "unat w"]
  by (intro word_unat_eq_iff [THEN iffD2]) (simp add: unat_div u64_small)

lemma u64_mod: "n < 2 ^ 64 \<Longrightarrow> (of_nat n :: u64) mod w = of_nat (n mod unat w)"
  using le_less_trans [OF mod_less_eq_dividend, of n "2 ^ 64" "unat w"]
  by (intro word_unat_eq_iff [THEN iffD2]) (simp add: unat_mod u64_small)

lemma u64_fields:
  fixes n :: nat
  assumes "n < 2 ^ 64"
  shows "(of_nat n :: u64) div 1000 = of_nat (n div 1000)" "(of_nat n :: u64) div 60 = of_nat (n div 60)"
    "(of_nat n :: u64) div 24 = of_nat (n div 24)" "(of_nat n :: u64) div 31 = of_nat (n div 31)"
    "(of_nat n :: u64) div 365 = of_nat (n div 365)"
    "(of_nat n :: u64) mod 1000 = of_nat (n mod 1000)" "(of_nat n :: u64) mod 60 = of_nat (n mod 60)"
    "(of_nat n :: u64) mod 24 = of_nat (n mod 24)" "(of_nat n :: u64) mod 7 = of_nat (n mod 7)"
  using u64_div [OF assms] u64_mod [OF assms] by simp_all

lemma u16_of_u64 [simp]: "ucast (of_nat n :: u64) = (of_nat n :: u16)"
  by (simp add: unsigned_of_nat word_unat_eq_iff take_bit_take_bit)

lemma ucast_u64_u16: "(ucast (ucast w :: u64) :: u16) = w"
  by (simp add: word_unat_eq_iff unsigned_ucast_eq take_bit_nat_eq_self take_bit_word_eq_self)

lemma u64_of_u32: "n < 2 ^ 32 \<Longrightarrow> ucast (of_nat n :: u32) = (of_nat n :: u64)"
  by (simp add: unsigned_of_nat take_bit_nat_eq_self)

section \<open>Dates\<close>

lemma days_of_months_Suc:
  "1 \<le> m \<Longrightarrow> m \<le> 12 \<Longrightarrow> days_of_months leap m = days_of_months leap (m - 1) + month_lengths leap ! (m - 1)"
  using take_Suc_conv_app_nth [of "m - 1" "month_lengths leap"]
  by (simp add: days_of_months_def month_lengths_def)

lemma days_of_months_le: "m \<le> 12 \<Longrightarrow> days_of_months leap m \<le> (if leap then 366 else 365)"
proof -
  assume "m \<le> 12"
  then have "m \<in> {0, 1, 2, 3, 4, 5, 6, 7, 8, 9, 10, 11, 12}" by (simp, presburger)
  then show ?thesis by (auto simp: days_of_months_def month_lengths_def)
qed

text \<open>The part of the function that turns a day into a year, a month and a day of the month.\<close>

lemma date_of_day:
  assumes y: "y = 1601 + n" "n \<le> 1510" and m: "1 \<le> m" "m \<le> 12"
    and d: "1 \<le> d" "d \<le> month_lengths (gregorian_leap y) ! (m - 1)"
  defines "day \<equiv> civil_day y m d"
  shows "days_of_years n \<le> day" "day < days_of_years (Suc n)" "day < 2 ^ 20"
    "day - days_of_years n = days_of_months (gregorian_leap y) (m - 1) + (d - 1)"
    "days_of_months (gregorian_leap y) (m - 1) + (d - 1) < days_of_months (gregorian_leap y) m"
proof -
  let ?l = "gregorian_leap y"
  show day: "days_of_years n \<le> day" "day - days_of_years n = days_of_months ?l (m - 1) + (d - 1)"
    by (simp_all add: day_def civil_day_def y)
  show lt: "days_of_months ?l (m - 1) + (d - 1) < days_of_months ?l m"
    using days_of_months_Suc [OF m, of ?l] d by linarith
  then have "day < days_of_years n + (if ?l then 366 else 365)"
    using days_of_months_le [OF m(2), of ?l] by (simp add: day_def civil_day_def y)
  then show s: "day < days_of_years (Suc n)" by (simp add: y)
  have "leaps (Suc n) \<le> leaps 1511" using y(2) by (intro leaps_mono) simp
  also have "leaps 1511 = 365" by (simp add: leaps_def)
  finally have "days_of_years (Suc n) \<le> 365 * 1511 + 365" using y(2) by (simp add: days_of_years_leaps del: days_of_years.simps)
  then show "day < 2 ^ 20" using s by simp
qed

lemma u16_uint: "n < 2 ^ 16 \<Longrightarrow> uint (of_nat n :: u16) = int n"
  by (simp add: unsigned_of_nat take_bit_nat_eq_self)

lemma u32_days: "n < 2 ^ 20 \<Longrightarrow> ucast (word_of_int (int n) :: u32) = (of_nat n :: u64)"
  by (simp add: u64_of_u32)

lemma u64_less: "m < 2 ^ 20 \<Longrightarrow> n < 2 ^ 20 \<Longrightarrow> (of_nat m :: u64) < of_nat n \<longleftrightarrow> m < n"
  by (simp add: word_less_nat_alt unat_of_nat)

lemma u64_le: "m < 2 ^ 20 \<Longrightarrow> n < 2 ^ 20 \<Longrightarrow> (of_nat m :: u64) \<le> of_nat n \<longleftrightarrow> m \<le> n"
  by (simp add: word_le_nat_alt unat_of_nat)

lemma year_of_day_civil:
  assumes n: "n \<le> 1510" and d: "days_of_years n \<le> D" "D < days_of_years (Suc n)" "D < 2 ^ 20"
  shows "year_of_day (of_nat D) = (of_nat (1601 + n), of_nat (days_of_years n))"
proof -
  let ?Y = "D div 365 + 1601" and ?y = "1601 + n"
  have Y: "?Y = ?y \<or> ?Y = ?y + 1" using year_guess [OF d(1,2) n] by auto
  have D: "(of_nat D :: u64) div 365 = of_nat (D div 365)" using d(3) by (intro u64_fields(5)) simp
  have Yw: "(ucast ((of_nat D :: u64) div word_of_int DAYS_IN_NORMAL_YEAR + word_of_int BASE_YEAR) :: u16) = of_nat ?Y"
    unfolding u16_of_u64 [symmetric] by (simp add: D DAYS_IN_NORMAL_YEAR_def BASE_YEAR_def)
  have dn: "days_of_years n < 2 ^ 20" "days_of_years (Suc n) < 2 ^ 20"
  proof -
    show "days_of_years n < 2 ^ 20" using d(1,3) by simp
    have "leaps (Suc n) \<le> leaps 1511" using n by (intro leaps_mono) simp
    also have "leaps 1511 = 365" by (simp add: leaps_def)
    finally show "days_of_years (Suc n) < 2 ^ 20" using n by (simp add: days_of_years_leaps del: days_of_years.simps)
  qed
  have e: "YEARS_TO_DAYS (uint (of_nat ?y :: u16)) = int (days_of_years n)"
    using YEARS_TO_DAYS_nat [of n] u16_uint [of ?y] n by simp
  have e1: "YEARS_TO_DAYS (uint (of_nat (?y + 1) :: u16)) = int (days_of_years (Suc n))"
    using YEARS_TO_DAYS_nat [of "Suc n"] u16_uint [of "?y + 1"] n by (simp add: algebra_simps del: days_of_years.simps)
  show ?thesis
  proof (cases "?Y = ?y")
    case True
    have "\<not> (of_nat D :: u64) < of_nat (days_of_years n)" using u64_less [OF d(3) dn(1)] d(1) by simp
    then show ?thesis unfolding year_of_day_def Yw True Let_def e u32_days [OF dn(1)] by simp
  next
    case False
    then have Y1: "?Y = ?y + 1" using Y by simp
    have "(of_nat D :: u64) < of_nat (days_of_years (Suc n))" using u64_less [OF d(3) dn(2)] d(2) by simp
    moreover have "(of_nat (?y + 1) :: u16) - 1 = of_nat ?y" by simp
    ultimately show ?thesis
      unfolding year_of_day_def Yw Y1 Let_def e1 u32_days [OF dn(2)] by (simp only: if_True e of_int_of_nat_eq)
  qed
qed

lemma split_month_civil:
  assumes y: "y < 2 ^ 16" and m: "1 \<le> m" "m \<le> 12"
    and x: "days_of_months (gregorian_leap y) (m - 1) \<le> x" "x < days_of_months (gregorian_leap y) m"
  shows "split_month (of_nat y) (of_nat x) =
    Ret (of_nat y, of_nat m, of_nat (x - days_of_months (gregorian_leap y) (m - 1) + 1))"
proof -
  let ?l = "gregorian_leap y" and ?M = "x div 31 + 1"
  have x366: "x < 366" using x(2) days_of_months_le [OF m(2), of ?l] by (simp split: if_splits)
  then have M12: "?M \<le> 12" by simp
  have "(of_nat x :: u64) div 31 = of_nat (x div 31)" using x366 by (intro u64_fields(4)) simp
  then have Mw: "ucast ((of_nat x :: u64) div 31 + 1) = (of_nat ?M :: u16)"
    unfolding u16_of_u64 [symmetric] by (simp add: add.commute)
  have mo: "MONTH_TO_DAYS (uint (of_nat y :: u16)) (int k + 1) = Ret (int (days_of_months ?l k))" if "k \<le> 12" for k
    using MONTH_TO_DAYS_nat [of "k + 1" y] that y by (simp add: add.commute u16_uint)
  have mx: "days_of_months ?l k < 2 ^ 20" if "k \<le> 12" for k
    using days_of_months_le [OF that, of ?l] by (simp split: if_splits)
  have e1: "MONTH_TO_DAYS (uint (of_nat y :: u16)) (uint (of_nat ?M :: u16) + 1) = Ret (int (days_of_months ?l ?M))"
  proof -
    have "uint (of_nat ?M :: u16) = int ?M" by (rule u16_uint) (use M12 in simp)
    then show ?thesis using mo [OF M12] by (simp only:)
  qed
  have e2: "MONTH_TO_DAYS (uint (of_nat y :: u16)) (uint (of_nat m :: u16)) = Ret (int (days_of_months ?l (m - 1)))"
    using mo [of "m - 1"] m by (simp add: u16_uint)
  have cmp: "((of_nat (days_of_months ?l ?M) :: u64) \<le> of_nat x) = (days_of_months ?l ?M \<le> x)"
    using u64_le [OF mx [OF M12], of x] x366 by simp
  have mm: "(if days_of_months ?l ?M \<le> x then (of_nat ?M :: u16) + 1 else of_nat ?M) = of_nat m"
  proof (cases "days_of_months ?l ?M \<le> x")
    case True
    then have "?M + 1 = m" using month_guess [OF m x] by simp
    then show ?thesis using True by (metis of_nat_1 of_nat_add)
  next
    case False
    then have "?M = m" using month_guess [OF m x] by simp
    then show ?thesis using False by simp
  qed
  have day: "ucast ((of_nat x :: u64) - of_nat (days_of_months ?l (m - 1)) + 1) =
      (of_nat (x - days_of_months ?l (m - 1) + 1) :: u16)"
    unfolding u16_of_u64 [symmetric] using x(1) by (simp add: of_nat_diff add.commute)
  have m12: "m - 1 \<le> 12" using m by simp
  show ?thesis
    unfolding split_month_def Let_def Mw e1 c_bind_simps u32_days [OF mx [OF M12]] cmp mm e2
      u32_days [OF mx [OF m12]] day ..
qed

lemma split_day_civil:
  assumes y: "y = 1601 + n" "n \<le> 1510" and m: "1 \<le> m" "m \<le> 12"
    and d: "1 \<le> d" "d \<le> month_lengths (gregorian_leap y) ! (m - 1)"
  shows "split_day (of_nat (civil_day y m d)) = Ret (of_nat y, of_nat m, of_nat d)"
proof -
  note dd = date_of_day [OF y m d]
  have "days_of_years n < 2 ^ 32" using dd(1,3) by simp
  then have "(of_nat (civil_day y m d) :: u64) - ucast (of_nat (days_of_years n) :: u32) =
      of_nat (days_of_months (gregorian_leap y) (m - 1) + (d - 1))"
    by (simp add: u64_of_u32 dd(1) of_nat_diff [symmetric] dd(4) del: of_nat_diff)
  moreover have "split_month (of_nat y) (of_nat (days_of_months (gregorian_leap y) (m - 1) + (d - 1))) =
      Ret (of_nat y, of_nat m, of_nat d)"
    using split_month_civil [OF _ m _ dd(5)] d y by simp
  ultimately show ?thesis
    using year_of_day_civil [OF y(2) dd(1-3)] y(1) by (simp add: split_day_def)
qed

section \<open>Times\<close>

lemma valid_date_day:
  assumes "valid_date st"
  obtains n where "unat (wYear st) = 1601 + n" "n \<le> 1510" "date_day st < 2 ^ 20"
    "split_day (of_nat (date_day st)) = Ret (wYear st, wMonth st, wDay st)"
    "MONTH_TO_DAYS (uint (wYear st)) (uint (wMonth st)) =
       Ret (int (days_of_months (gregorian_leap (unat (wYear st))) (unat (wMonth st) - 1)))"
proof -
  define n where "n = unat (wYear st) - 1601"
  have y: "unat (wYear st) = 1601 + n" "n \<le> 1510" using assms by (auto simp: valid_date_def n_def)
  have m: "1 \<le> unat (wMonth st)" "unat (wMonth st) \<le> 12" and
    d: "1 \<le> unat (wDay st)" "unat (wDay st) \<le> month_lengths (gregorian_leap (unat (wYear st))) ! (unat (wMonth st) - 1)"
    using assms by (auto simp: valid_date_def)
  have "date_day st < 2 ^ 20" unfolding date_day_def by (rule date_of_day(3) [OF y m d])
  moreover have "split_day (of_nat (date_day st)) = Ret (wYear st, wMonth st, wDay st)"
    unfolding date_day_def using split_day_civil [OF y m d] by simp
  moreover have "MONTH_TO_DAYS (uint (wYear st)) (uint (wMonth st)) =
       Ret (int (days_of_months (gregorian_leap (unat (wYear st))) (unat (wMonth st) - 1)))"
    using MONTH_TO_DAYS_nat [of "unat (wMonth st)" "unat (wYear st)"] m by simp
  ultimately show thesis using that y by blast
qed

lemma ms_fields:
  fixes D h m s k :: nat
  assumes "h < 24" and "m < 60" and "s < 60" and "k < 1000"
  defines "t \<equiv> (((D * 24 + h) * 60 + m) * 60 + s) * 1000 + k"
  shows "t mod 1000 = k" "t div 1000 mod 60 = s" "t div 1000 div 60 mod 60 = m"
    "t div 1000 div 60 div 60 mod 24 = h" "t div 1000 div 60 div 60 div 24 = D"
proof -
  have e: "(a * c + b) div c = a" "(a * c + b) mod c = b" if "b < c" for a b c :: nat
    using that by simp_all
  show "t mod 1000 = k" "t div 1000 mod 60 = s" "t div 1000 div 60 mod 60 = m"
    "t div 1000 div 60 div 60 mod 24 = h" "t div 1000 div 60 div 60 div 24 = D"
    by (simp_all only: t_def e [OF assms(1)] e [OF assms(2)] e [OF assms(3)] e [OF assms(4)])
qed

lemma civil_ms_bound:
  assumes "valid_date st"
  shows "civil_ms st < 2 ^ 47"
proof -
  obtain n where d: "date_day st < 2 ^ 20" using valid_date_day [OF assms] by blast
  have "unat (wHour st) < 24" "unat (wMinute st) < 60" "unat (wSecond st) < 60" "unat (wMilliseconds st) < 1000"
    using assms by (auto simp: valid_date_def)
  with d show ?thesis by (simp add: civil_ms_def)
qed

lemma ToSystemTime_civil:
  assumes v: "valid_date st" and dow: "right_day_of_week st" and t: "unat t div 10000 = civil_ms st"
  shows "HAL_Time_ToSystemTime t = Ret st"
proof -
  have f: "unat (wHour st) < 24" "unat (wMinute st) < 60" "unat (wSecond st) < 60" "unat (wMilliseconds st) < 1000"
    using v by (auto simp: valid_date_def)
  obtain n where d: "date_day st < 2 ^ 20"
    and sp: "split_day (of_nat (date_day st)) = Ret (wYear st, wMonth st, wDay st)"
    using valid_date_day [OF v] by blast
  note b = civil_ms_bound [OF v]
  note F = ms_fields [OF f, of "date_day st", folded civil_ms_def]
  let ?c = "civil_ms st"
  have b64: "?c < 2 ^ 64" using b by simp
  have b1: "?c div 1000 < 2 ^ 64" by (rule le_less_trans [OF div_le_dividend b64])
  have b2: "?c div 1000 div 60 < 2 ^ 64" by (rule le_less_trans [OF div_le_dividend b1])
  have b3: "?c div 1000 div 60 div 60 < 2 ^ 64" by (rule le_less_trans [OF div_le_dividend b2])
  have tc: "t div 10000 = of_nat ?c"
    using t b64 by (simp add: word_unat_eq_iff unat_div u64_small)
  have dw: "((of_nat (date_day st) :: u64) + 1) mod 7 = of_nat ((date_day st + 1) mod 7)"
    using u64_fields(9) [of "date_day st + 1"] d by (simp add: add.commute)
  have wd: "(of_nat ((date_day st + 1) mod 7) :: u16) = wDayOfWeek st"
    unfolding dow [unfolded right_day_of_week_def, symmetric] by simp
  show ?thesis
    unfolding HAL_Time_ToSystemTime_def Let_def tc BASE_YEAR_DAYOFWEEK_SHIFT_def
    using u64_fields(1,6) [OF b64] u64_fields(2,7) [OF b1] u64_fields(2,7) [OF b2] u64_fields(3,8) [OF b3]
    by (simp add: F sp dw wd [simplified] ucast_u64_u16)
qed

lemma ConvertFromSystemTime_civil:
  assumes v: "valid_date st"
  shows "HAL_Time_ConvertFromSystemTime st = Ret (of_nat (civil_ms st * 10000))"
proof -
  obtain n where y: "unat (wYear st) = 1601 + n"
    and mo: "MONTH_TO_DAYS (uint (wYear st)) (uint (wMonth st)) =
       Ret (int (days_of_months (gregorian_leap (unat (wYear st))) (unat (wMonth st) - 1)))"
    using valid_date_day [OF v] by blast
  have d1: "1 \<le> unat (wDay st)" using v by (simp add: valid_date_def)
  have "uint (wYear st) = 1601 + int n" using arg_cong [OF y, of int] by simp
  then have "YEARS_TO_DAYS (uint (wYear st)) = int (days_of_years n)"
    by (simp only: YEARS_TO_DAYS_nat)
  moreover have "uint (wDay st) = int (unat (wDay st))" by simp
  ultimately have "YEARS_TO_DAYS (uint (wYear st)) +
       int (days_of_months (gregorian_leap (unat (wYear st))) (unat (wMonth st) - 1)) + uint (wDay st) - 1 =
       int (date_day st)"
    using d1 unfolding date_day_def civil_day_def y by (simp only: of_nat_add of_nat_diff diff_add_inverse)
  then have r: "(word_of_int (YEARS_TO_DAYS (uint (wYear st)) +
       int (days_of_months (gregorian_leap (unat (wYear st))) (unat (wMonth st) - 1)) + uint (wDay st) - 1) :: u64) =
       of_nat (date_day st)" by simp
  have c: "(ucast w :: u64) = of_nat (unat w)" for w :: u16 by (simp add: word_unat_eq_iff unsigned_of_nat)
  show ?thesis
    unfolding HAL_Time_ConvertFromSystemTime_def mo c_bind_simps Let_def r c civil_ms_def
    by (simp only: of_nat_add of_nat_mult of_nat_numeral)
qed

section \<open>Every time has a date\<close>

lemma day_in_year:
  "D < days_of_years k \<Longrightarrow> \<exists>n<k. days_of_years n \<le> D \<and> D < days_of_years (Suc n)"
proof (induction k)
  case (Suc k)
  then show ?case by (cases "D < days_of_years k") (auto intro: less_SucI simp del: days_of_years.simps)
qed simp

lemma day_in_month:
  "x < days_of_months l k \<Longrightarrow> \<exists>m. 1 \<le> m \<and> m \<le> k \<and> days_of_months l (m - 1) \<le> x \<and> x < days_of_months l m"
proof (induction k)
  case (Suc k)
  show ?case
  proof (cases "x < days_of_months l k")
    case True
    then show ?thesis using Suc.IH le_SucI by blast
  next
    case False
    then show ?thesis using Suc.prems by (intro exI [of _ "Suc k"]) simp
  qed
qed (simp add: days_of_months_def)

lemma days_of_months_12: "days_of_months l 12 = (if l then 366 else 365)"
  by (simp add: days_of_months_def month_lengths_def)

lemma civil_day_exists:
  assumes "D < days_of_years 1511"
  obtains y m d where "1601 \<le> y" "y \<le> 3111" "1 \<le> m" "m \<le> 12" "1 \<le> d"
    "d \<le> month_lengths (gregorian_leap y) ! (m - 1)" "civil_day y m d = D"
proof -
  obtain n where n: "n < 1511" "days_of_years n \<le> D" "D < days_of_years (Suc n)"
    using day_in_year [OF assms] by blast
  let ?l = "gregorian_leap (1601 + n)"
  have "D - days_of_years n < days_of_months ?l 12" using n(2,3) by (auto simp: days_of_months_12)
  then obtain m where m: "1 \<le> m" "m \<le> 12" "days_of_months ?l (m - 1) \<le> D - days_of_years n"
      "D - days_of_years n < days_of_months ?l m"
    using day_in_month by blast
  let ?d = "D - days_of_years n - days_of_months ?l (m - 1) + 1"
  have "?d \<le> month_lengths ?l ! (m - 1)" using days_of_months_Suc [OF m(1,2), of ?l] m(3,4) by linarith
  moreover have "civil_day (1601 + n) m ?d = D" using n(2) m(3) by (simp add: civil_day_def)
  ultimately show thesis using that [of "1601 + n" m ?d] n(1) m(1,2) by simp
qed

lemma month_lengths_le: "1 \<le> m \<Longrightarrow> m \<le> 12 \<Longrightarrow> month_lengths l ! (m - 1) \<le> 31"
proof -
  assume "1 \<le> m" "m \<le> 12"
  then have "m \<in> {1, 2, 3, 4, 5, 6, 7, 8, 9, 10, 11, 12}" by (simp, presburger)
  then show ?thesis by (auto simp: month_lengths_def)
qed

lemma date_of_time_exists:
  assumes "c < days_of_years 1511 * 86400000"
  obtains st where "valid_date st" "right_day_of_week st" "civil_ms st = c"
proof -
  define s m h D where "s = c div 1000" and "m = s div 60" and "h = m div 60" and "D = h div 24"
  have "c div 86400000 < days_of_years 1511" using assms by (simp add: div_less_iff_less_mult mult.commute)
  moreover have "c div 86400000 = D" by (simp add: D_def h_def m_def s_def div_mult2_eq [symmetric])
  ultimately have "D < days_of_years 1511" by simp
  then obtain y mo d where y: "1601 \<le> y" "y \<le> 3111" and mo: "1 \<le> mo" "mo \<le> 12"
      and d: "1 \<le> d" "d \<le> month_lengths (gregorian_leap y) ! (mo - 1)" and D: "civil_day y mo d = D"
    by (rule civil_day_exists)
  define st where "st = \<lparr>wYear = of_nat y, wMonth = of_nat mo, wDayOfWeek = of_nat ((D + 1) mod 7), wDay = of_nat d,
      wHour = of_nat (h mod 24), wMinute = of_nat (m mod 60), wSecond = of_nat (s mod 60),
      wMilliseconds = of_nat (c mod 1000)\<rparr>"
  have u: "unat (of_nat k :: u16) = k" if "k < 65536" for k using that by (simp add: unat_of_nat)
  have lt: "(D + 1) mod 7 < 7" "h mod 24 < 24" "m mod 60 < 60" "s mod 60 < 60" "c mod 1000 < 1000" by simp_all
  have "d \<le> 31" using d(2) month_lengths_le [OF mo, of "gregorian_leap y"] by simp
  then have f: "unat (wYear st) = y" "unat (wMonth st) = mo" "unat (wDayOfWeek st) = (D + 1) mod 7"
      "unat (wDay st) = d" "unat (wHour st) = h mod 24" "unat (wMinute st) = m mod 60"
      "unat (wSecond st) = s mod 60" "unat (wMilliseconds st) = c mod 1000"
    using y(2) mo(2) lt by (simp_all only: st_def SYSTEMTIME.simps) (rule u, linarith)+
  have dd: "date_day st = D" by (simp add: date_day_def f D)
  have "valid_date st" unfolding valid_date_def f using y mo d by simp
  moreover have "right_day_of_week st" unfolding right_day_of_week_def f dd ..
  moreover have "civil_ms st = c"
    unfolding civil_ms_def f dd D_def h_def m_def s_def by (simp only: div_mult_mod_eq)
  ultimately show thesis using that by blast
qed

section \<open>The properties\<close>

lemma days_1511: "days_of_years 1511 = 551880"
  by (simp add: days_of_years_leaps leaps_def)

lemma ticks_without_rest:
  "unat t div 10000 = c \<Longrightarrow> (of_nat (c * 10000) :: u64) = t - t mod 10000"
proof -
  assume "unat t div 10000 = c"
  then have "unat t = c * 10000 + unat t mod 10000" by (metis div_mult_mod_eq)
  then have "(of_nat (unat t) :: u64) = of_nat (c * 10000) + of_nat (unat t mod 10000)" by (metis of_nat_add)
  moreover have "(of_nat (unat t mod 10000) :: u64) = t mod 10000" by (simp add: word_unat_eq_iff unat_mod unat_of_nat)
  ultimately have "t = of_nat (c * 10000) + t mod 10000" by simp
  then show ?thesis by (metis add_diff_cancel_right')
qed

text \<open>
  C31: Every time before the year 3112 has one date, which is the one the runtime computes: the fields of
  HAL_Time_ToSystemTime are a real date of the Gregorian calendar with its day of the week, the time is
  that many milliseconds after the start of 1601, and HAL_Time_ConvertFromSystemTime maps the fields
  back to the time without the part below a millisecond.
\<close>

theorem every_time_has_its_date:
  assumes "unat t < days_of_years 1511 * 864000000000"
  shows "\<exists>st. HAL_Time_ToSystemTime t = Ret st \<and> valid_date st \<and> right_day_of_week st \<and>
    civil_ms st = unat t div 10000 \<and> HAL_Time_ConvertFromSystemTime st = Ret (t - t mod 10000)"
proof -
  have "unat t div 10000 < days_of_years 1511 * 86400000"
    using assms by (simp add: div_less_iff_less_mult)
  then obtain st where st: "valid_date st" "right_day_of_week st" "civil_ms st = unat t div 10000"
    by (rule date_of_time_exists)
  then show ?thesis
    using ToSystemTime_civil [of st t] ConvertFromSystemTime_civil [OF st(1)] ticks_without_rest [of t "civil_ms st"]
    by (intro exI [of _ st]) simp
qed

lemma every_time_has_its_date_witness:
  "\<exists>st. HAL_Time_ToSystemTime 131592384000000000 = Ret st \<and> valid_date st \<and> right_day_of_week st \<and>
    civil_ms st = unat (131592384000000000 :: u64) div 10000 \<and>
    HAL_Time_ConvertFromSystemTime st = Ret (131592384000000000 - 131592384000000000 mod 10000)"
  by (rule every_time_has_its_date) (simp add: days_1511)

lemma valid_fields:
  assumes y: "1601 \<le> y" "y \<le> 3000" and mo: "1 \<le> mo" "mo \<le> 12"
    and d: "1 \<le> d" "d \<le> month_lengths (gregorian_leap y) ! (mo - 1)"
    and f: "h < 24" "m < 60" "s < 60" "k < 1000"
  defines "st w \<equiv> \<lparr>wYear = of_nat y, wMonth = of_nat mo, wDayOfWeek = w, wDay = of_nat d,
    wHour = of_nat h, wMinute = of_nat m, wSecond = of_nat s, wMilliseconds = of_nat k\<rparr>"
  shows "valid_date (st w)" "date_day (st w) = civil_day y mo d"
    "right_day_of_week (st (of_nat ((civil_day y mo d + 1) mod 7)))" "civil_ms (st w) = civil_ms (st v)"
proof -
  have u: "unat (of_nat k :: u16) = k" if "k < 65536" for k using that by (simp add: unat_of_nat)
  have "d \<le> 31" using d(2) month_lengths_le [OF mo, of "gregorian_leap y"] by simp
  then have e: "unat (of_nat y :: u16) = y" "unat (of_nat mo :: u16) = mo" "unat (of_nat d :: u16) = d"
      "unat (of_nat h :: u16) = h" "unat (of_nat m :: u16) = m" "unat (of_nat s :: u16) = s"
      "unat (of_nat k :: u16) = k"
    using y(2) mo(2) f by (intro u, linarith)+
  show "valid_date (st w)" unfolding valid_date_def st_def using assms by (simp add: e)
  show dd: "date_day (st w) = civil_day y mo d" for w by (simp add: date_day_def st_def e)
  have "(civil_day y mo d + 1) mod 7 < 65536" using less_trans [OF mod_less_divisor [of 7]] by simp
  then have "unat (of_nat ((civil_day y mo d + 1) mod 7) :: u16) = (civil_day y mo d + 1) mod 7" by (rule u)
  then show "right_day_of_week (st (of_nat ((civil_day y mo d + 1) mod 7)))"
    unfolding right_day_of_week_def dd by (simp only: st_def SYSTEMTIME.simps)
  show "civil_ms (st w) = civil_ms (st v)" unfolding civil_ms_def dd by (simp add: st_def)
qed

lemma Convert_ignores_day_of_week:
  "HAL_Time_ConvertFromSystemTime (st\<lparr>wDayOfWeek := w\<rparr>) = HAL_Time_ConvertFromSystemTime st"
  by (simp add: HAL_Time_ConvertFromSystemTime_def)

text \<open>
  C32: A \<open>DateTime\<close> made from the fields of a real date between the years 1601 and 3000 is accepted, and every
  getter returns the field it was made from; the day of the week is counted from Monday, 1 January 1601,
  and the day of the year is the number of days of the months before plus the day of the month.
\<close>

theorem date_time_reads_back:
  assumes y: "1601 \<le> y" "y \<le> 3000" and mo: "1 \<le> mo" "mo \<le> 12"
    and d: "1 \<le> d" "d \<le> month_lengths (gregorian_leap y) ! (mo - 1)"
    and f: "h < 24" "m < 60" "s < 60" "k < 1000"
  shows "\<exists>ticks. DateTime_ctor (int y) (int mo) (int d) (int h) (int m) (int s) (int k) = Ret (Inr ticks) \<and>
    DateTime_get_Year ticks = Ret (int y) \<and> DateTime_get_Month ticks = Ret (int mo) \<and>
    DateTime_get_Day ticks = Ret (int d) \<and> DateTime_get_Hour ticks = Ret (int h) \<and>
    DateTime_get_Minute ticks = Ret (int m) \<and> DateTime_get_Second ticks = Ret (int s) \<and>
    DateTime_get_Millisecond ticks = Ret (int k) \<and>
    DateTime_get_DayOfWeek ticks = Ret (int ((civil_day y mo d + 1) mod 7)) \<and>
    DateTime_get_DayOfYear ticks = Ret (int (days_of_months (gregorian_leap y) (mo - 1) + d))"
proof -
  define st where "st w = \<lparr>wYear = of_nat y, wMonth = of_nat mo, wDayOfWeek = w, wDay = of_nat d,
    wHour = of_nat h, wMinute = of_nat m, wSecond = of_nat s, wMilliseconds = of_nat k\<rparr>" for w :: u16
  let ?w = "of_nat ((civil_day y mo d + 1) mod 7) :: u16"
  note v = valid_fields [OF y mo d f, folded st_def]
  let ?c = "civil_ms (st 0)"
  define ticks :: u64 where "ticks = of_nat (?c * 10000)"
  have "?c * 10000 < 2 ^ 64" using civil_ms_bound [OF v(1), of 0] by simp
  then have "unat ticks = ?c * 10000" by (simp only: ticks_def u64_small)
  then have "unat ticks div 10000 = civil_ms (st ?w)" using v(4) [of 0 ?w] by simp
  then have to: "HAL_Time_ToSystemTime ticks = Ret (st ?w)"
    by (rule ToSystemTime_civil [OF v(1,3)])
  have d31: "d \<le> 31" using d(2) month_lengths_le [OF mo, of "gregorian_leap y"] by simp
  moreover have uj: "uint (of_nat j :: u16) = int j" if "j < 65536" for j using u16_uint [of j] that by simp
  ultimately have u: "uint (of_nat y :: u16) = int y" "uint (of_nat mo :: u16) = int mo" "uint (of_nat d :: u16) = int d"
      "uint (of_nat h :: u16) = int h" "uint (of_nat m :: u16) = int m" "uint (of_nat s :: u16) = int s"
      "uint (of_nat k :: u16) = int k"
    using y(2) mo(2) f by (intro uj, linarith)+
  have "(civil_day y mo d + 1) mod 7 < 7" by simp
  then have uw: "uint ?w = int ((civil_day y mo d + 1) mod 7)" by (intro uj) linarith
  have "DateTime_ctor (int y) (int mo) (int d) (int h) (int m) (int s) (int k) = Ret (Inr ticks)"
    using y mo d(1) d31 ConvertFromSystemTime_civil [OF v(1), of 0, folded ticks_def]
    by (simp add: DateTime_ctor_def Let_def st_def [symmetric] word_less_def u) (simp add: st_def word_less_def u)
  moreover have "DateTime_get_DayOfYear ticks = Ret (int (days_of_months (gregorian_leap y) (mo - 1) + d))"
    using MONTH_TO_DAYS_nat [of mo y] mo
    by (simp add: DateTime_get_DayOfYear_def HAL_Time_AccDaysInMonth_def to st_def u)
  ultimately show ?thesis
    unfolding DateTime_get_Year_def DateTime_get_Month_def DateTime_get_Day_def DateTime_get_Hour_def
      DateTime_get_Minute_def DateTime_get_Second_def DateTime_get_Millisecond_def DateTime_get_DayOfWeek_def
      DateTime_field_def
    by (intro exI [of _ ticks]) (simp only: to c_bind_simps st_def SYSTEMTIME.simps u uw simp_thms)
qed

lemma date_time_reads_back_witness:
  "\<exists>ticks. DateTime_ctor 2000 2 29 23 59 58 999 = Ret (Inr ticks) \<and>
    DateTime_get_Year ticks = Ret 2000 \<and> DateTime_get_Month ticks = Ret 2 \<and>
    DateTime_get_Day ticks = Ret 29 \<and> DateTime_get_DayOfYear ticks = Ret 60"
  using date_time_reads_back [of 2000 2 29 23 59 58 999]
  by (auto simp: month_lengths_def gregorian_leap_def days_of_months_def)

section \<open>Where the arithmetic ends\<close>

text \<open>31 December 3112, the first day that needs a second correction of the year, is read as a day of 3113.\<close>

lemma year_3113_too_early:
  "civil_day 3112 12 31 = 552245 \<and> fst (year_of_day 552245) = 3113"
  by (simp add: civil_day_def days_of_months_def month_lengths_def gregorian_leap_def days_of_years_leaps leaps_def
      year_of_day_def Let_def DAYS_IN_NORMAL_YEAR_def BASE_YEAR_def YEARS_TO_DAYS_def NUMBER_OF_LEAP_YEARS_def
      BASE_YEAR_LEAPYEAR_ADJUST_def)

text \<open>The constructor checks the low 16 bits of its arguments: the year 67536 is taken for 2000.\<close>

lemma year_cut_to_16_bits: "DateTime_ctor 67536 1 1 0 0 0 0 = DateTime_ctor 2000 1 1 0 0 0 0"
proof -
  have "(67536 :: u16) = 2000" by simp
  then show ?thesis unfolding DateTime_ctor_def by (simp only: word_of_int_numeral)
qed

text \<open>A month that does not exist is read behind the table, where \<open>DateTime.DaysInMonth\<close> should refuse it.\<close>

lemma month_13_reads_behind_table: "DateTime_DaysInMonth 2000 13 = Fault BadIndex"
  by (simp add: DateTime_DaysInMonth_def HAL_Time_DaysInMonth_def DAYS_IN_MONTH_def table_entry_def
      c_index_def DaysInMonth_def)

text \<open>A day that the month does not have is accepted and read as a day of the next month.\<close>

lemma february_30_accepted: "DateTime_ctor 2001 2 30 0 0 0 0 = DateTime_ctor 2001 3 2 0 0 0 0"
  by (simp add: DateTime_ctor_def HAL_Time_ConvertFromSystemTime_def MONTH_TO_DAYS_def table_entry_def c_index_def
      CummulativeDaysForMonth_def IS_LEAP_YEAR_def YEARS_TO_DAYS_def NUMBER_OF_LEAP_YEARS_def Let_def)

end
