(* ===== verification/NF_GCMark.thy ===== *)
theory NF_GCMark
  imports NF_Prelude
begin

text \<open>
  The mark phase of the garbage collector (GarbageCollector.cpp and
  GarbageCollector_ComputeReachabilityGraph.cpp): the traversal of the object graph with a stack of
  ranges of heap blocks, which grows by further stacks from the heap and falls back to rescanning the
  heap when there is no room for one; and the roots it starts from.

  An address is a number of bytes. Of a heap block the model holds the mark, whether it is an event,
  its size and what the traversal reads of its contents.
\<close>

section \<open>The heap as the marker sees it\<close>

datatype gc_data =
    G_OBJECT "nat option"
  | G_BYREF "nat option"
  | G_ARRAY_BYREF "nat option"
  | G_CLASS
  | G_VALUETYPE
  | G_SZARRAY (g_fReference: bool) (g_numOfElements: nat)
  | G_REFLECTION
  | G_DELEGATE_HEAD
  | G_BINARY_BLOB_HEAD (g_hasMarkingHandler: bool)
  | G_DELEGATELIST_HEAD (g_weak: bool) (g_length: nat)
  | G_Other

record gc_block =
  g_alive :: bool
  g_event :: bool
  g_dataSize :: nat
  g_data :: gc_data

definition sizeof_CLR_RT_HeapBlock :: nat where "sizeof_CLR_RT_HeapBlock = 12"
definition sizeof_Array :: nat where "sizeof_Array = 20"
definition offset_Delegate_object :: nat where "offset_Delegate_object = 20"
definition sizeof_Delegate_List :: nat where "sizeof_Delegate_List = 24"

section \<open>The mark stack\<close>

text \<open>
  An element is a range of heap blocks that are still to be visited: the address of the first one and
  how many there are. The positions \<open>m_last\<close> and \<open>m_top\<close> are indexes of the elements.
\<close>

record mark_stack =
  elements :: "(nat \<times> nat) list"
  m_last :: nat
  m_top :: nat

text \<open>
  The state of the collector: the memory, the list of mark stacks and the number of the current one, the
  flag of the lack of space, the weak delegate lists met, and the heap the further stacks are taken from,
  which is a value of its own. The weak delegate lists are a linked list: its nodes from the first on, and
  whether the last one is linked to itself.
\<close>

record 'h gc_state =
  gmem :: "nat \<Rightarrow> gc_block"
  m_markStackList :: "mark_stack list"
  m_markStack :: nat
  m_fOutOfStackSpaceForGC :: bool
  m_weakDelegates_Reachable :: "nat list \<times> bool"
  gheap :: 'h

text \<open>The local variables of the traversal.\<close>

record gc_locals =
  stackList :: nat
  stackLast :: nat
  stack :: nat

definition c_minimumSpaceForGC :: nat where "c_minimumSpaceForGC = 128"

text \<open>A mark stack with its sentinel.\<close>

definition MarkStack_Initialize :: "nat \<Rightarrow> mark_stack" where
  "MarkStack_Initialize num = \<lparr>elements = replicate num (0, 0), m_last = num - 1, m_top = 0\<rparr>"

definition LOADSTATE :: "'h gc_state \<Rightarrow> gc_locals" where
  "LOADSTATE g = (let s = m_markStackList g ! m_markStack g
     in \<lparr>stackList = m_markStack g, stackLast = m_last s, stack = m_top s\<rparr>)"

definition SAVESTATE :: "gc_locals \<Rightarrow> 'h gc_state \<Rightarrow> 'h gc_state" where
  "SAVESTATE r g = g\<lparr>m_markStackList := (m_markStackList g)[m_markStack g :=
       (m_markStackList g ! m_markStack g)\<lparr>m_last := stackLast r, m_top := stack r\<rparr>],
     m_markStack := stackList r\<rparr>"

text \<open>Reading and writing the element under the pointer \<open>stack\<close>.\<close>

definition read_element :: "gc_locals \<Rightarrow> 'h gc_state \<Rightarrow> (nat \<times> nat) c_result" where
  "read_element r g = c_index (elements (m_markStackList g ! stackList r)) (stack r)"

definition write_element :: "nat \<times> nat \<Rightarrow> gc_locals \<Rightarrow> 'h gc_state \<Rightarrow> 'h gc_state c_result" where
  "write_element e r g =
     (let s = m_markStackList g ! stackList r
      in if stack r < length (elements s)
         then Ret (g\<lparr>m_markStackList := (m_markStackList g)[stackList r := s\<lparr>elements := (elements s)[stack r := e]\<rparr>]\<rparr>)
         else Fault BadIndex)"

text \<open>
  The next heap block of the topmost range, if there is one. At the bottom of a further stack the
  traversal goes on with the stack before; at the bottom of the first it ends.
\<close>

definition next_pending :: "gc_locals \<Rightarrow> 'h gc_state \<Rightarrow> (nat \<times> gc_locals \<times> 'h gc_state) option c_result" where
  "next_pending r g =
     c_bind (read_element r g) (\<lambda>(p, n).
     if n = 0 \<and> stackList r = 0 then Ret None
     else
       let (r, g) = (if n = 0
             then let g = (SAVESTATE r g)\<lparr>m_markStack := stackList r - 1\<rparr> in (LOADSTATE g, g)
             else (r, g))
       in c_bind (read_element r g) (\<lambda>(p, n).
          let n' = (if n = 0 then 2 ^ 32 - 1 else n - 1) in
          c_bind (write_element (p + sizeof_CLR_RT_HeapBlock, n') r g) (\<lambda>g.
          Ret (Some (p, if n' = 0 then r\<lparr>stack := stack r - 1\<rparr> else r, g)))))"

text \<open>
  The size of a further stack is halved until the heap gives it. The allocator is a parameter: from
  the number of bytes and the heap to the heap with the block taken, or nothing.
\<close>

fun allocate_stack :: "(nat \<Rightarrow> 'h \<Rightarrow> 'h option) \<Rightarrow> nat \<Rightarrow> 'h \<Rightarrow> (nat \<times> 'h) option" where
  "allocate_stack alloc cElement h =
     (if cElement < 1 then None
      else case alloc (20 + 8 * cElement) h of
        Some h' \<Rightarrow> Some (cElement, h')
      | None \<Rightarrow> allocate_stack alloc (cElement div 2) h)"

declare allocate_stack.simps [simp del]

text \<open>
  Room for one more element: there is some, or a further stack gives some, or there is none. When
  a further stack is already linked, the locals are loaded from the old one again, since
  \<open>m_markStack\<close> has not been set.
\<close>

definition make_room ::
    "(nat \<Rightarrow> 'h \<Rightarrow> 'h option) \<Rightarrow> gc_locals \<Rightarrow> 'h gc_state \<Rightarrow> (gc_locals \<times> 'h gc_state) option \<times> 'h gc_state" where
  "make_room alloc r g =
     (if stack r = stackLast r then
        if stackList r + 1 < length (m_markStackList g) then
          let g = SAVESTATE r g; r = LOADSTATE g in (Some (r, g), g)
        else
          (case (if m_fOutOfStackSpaceForGC g then None else allocate_stack alloc c_minimumSpaceForGC (gheap g)) of
             None \<Rightarrow> (None, g\<lparr>m_fOutOfStackSpaceForGC := True\<rparr>)
           | Some (cElement, h) \<Rightarrow>
               let g = SAVESTATE r (g\<lparr>gheap := h\<rparr>);
                   g = g\<lparr>m_markStackList := m_markStackList g @ [MarkStack_Initialize cElement],
                         m_markStack := length (m_markStackList g)\<rparr>
               in (Some (LOADSTATE g, g), g))
      else (Some (r, g), g))"

section \<open>The traversal\<close>

text \<open>
  Visiting one heap block: it is marked, and what is to be visited next is the range of its parts or
  the block it refers to, when that is not marked. A weak delegate list is only put on its list.
\<close>

definition mark_alive :: "nat \<Rightarrow> 'h gc_state \<Rightarrow> 'h gc_state" where
  "mark_alive a g = g\<lparr>gmem := (gmem g)(a := (gmem g a)\<lparr>g_alive := True\<rparr>)\<rparr>"

definition visit_sub :: "nat option \<Rightarrow> 'h gc_state \<Rightarrow> nat \<times> nat" where
  "visit_sub sub g = (case sub of None \<Rightarrow> (0, 0) | Some b \<Rightarrow> if g_alive (gmem g b) then (0, 0) else (b, 1))"

text \<open>
  \<open>LinkAtBack\<close> of a node whose links were cleared. When the node is in the list already, the nodes behind it
  are cut off; when it is the last one, it becomes its own successor.
\<close>

definition LinkAtBack :: "nat \<Rightarrow> nat list \<times> bool \<Rightarrow> nat list \<times> bool" where
  "LinkAtBack a l = (let xs = fst l
     in if a \<notin> set xs then (xs @ [a], False)
        else if a = last xs then (xs, True) else (takeWhile (\<lambda>x. x \<noteq> a) xs @ [a], False))"

definition visit :: "nat \<Rightarrow> 'h gc_state \<Rightarrow> ((nat \<times> nat) \<times> 'h gc_state) c_result" where
  "visit a g =
     (let g = mark_alive a g in
      case g_data (gmem g a) of
        G_OBJECT sub \<Rightarrow> Ret (visit_sub sub g, g)
      | G_BYREF sub \<Rightarrow> Ret (visit_sub sub g, g)
      | G_ARRAY_BYREF sub \<Rightarrow> Ret (visit_sub sub g, g)
      | G_CLASS \<Rightarrow> Ret ((a + sizeof_CLR_RT_HeapBlock, g_dataSize (gmem g a) - 1), g)
      | G_VALUETYPE \<Rightarrow> Ret ((a + sizeof_CLR_RT_HeapBlock, g_dataSize (gmem g a) - 1), g)
      | G_SZARRAY ref num \<Rightarrow> Ret (if ref then (a + sizeof_Array, num) else (0, 0), g)
      | G_REFLECTION \<Rightarrow> Ret ((0, 0), g)
      | G_DELEGATE_HEAD \<Rightarrow> Ret ((a + offset_Delegate_object, 1), g)
      | G_BINARY_BLOB_HEAD handler \<Rightarrow> if handler then Fault Halt else Ret ((0, 0), g)
      | G_DELEGATELIST_HEAD weak num \<Rightarrow>
          if weak then Ret ((0, 0), g\<lparr>m_weakDelegates_Reachable := LinkAtBack a (m_weakDelegates_Reachable g)\<rparr>)
          else Ret ((a + sizeof_Delegate_List, num), g)
      | G_Other \<Rightarrow> Ret ((0, 0), g))"

datatype 'h gc_next = Finished "gc_locals \<times> 'h gc_state" | Again nat nat gc_locals "'h gc_state"

definition visit_next :: "nat \<Rightarrow> gc_locals \<Rightarrow> 'h gc_state \<Rightarrow> 'h gc_next c_result" where
  "visit_next a r g = c_bind (visit a g) (\<lambda>((lst, num), g). Ret (Again lst num r g))"

text \<open>One turn of the loop.\<close>

definition mark_turn ::
    "(nat \<Rightarrow> 'h \<Rightarrow> 'h option) \<Rightarrow> nat \<Rightarrow> nat \<Rightarrow> gc_locals \<Rightarrow> 'h gc_state \<Rightarrow> 'h gc_next c_result" where
  "mark_turn alloc lst num r g =
     (if num = 0 then
        c_bind (next_pending r g) (\<lambda>res. case res of
          None \<Rightarrow> Ret (Finished (r, g))
        | Some (a, r, g) \<Rightarrow> visit_next a r g)
      else if num > 1 then
        (case make_room alloc r g of
           (None, g) \<Rightarrow> Ret (Again 0 0 r g)
         | (Some (r, g), _) \<Rightarrow>
             let r = r\<lparr>stack := stack r + 1\<rparr> in
             c_bind (write_element (lst + sizeof_CLR_RT_HeapBlock, num - 1) r g) (\<lambda>g. visit_next lst r g))
      else visit_next lst r g)"

partial_function (option) mark_loop ::
    "(nat \<Rightarrow> 'h \<Rightarrow> 'h option) \<Rightarrow> nat \<Rightarrow> nat \<Rightarrow> gc_locals \<Rightarrow> 'h gc_state \<Rightarrow> (gc_locals \<times> 'h gc_state) c_result option" where
  "mark_loop alloc lst num r g =
     (case mark_turn alloc lst num r g of
        Inl e \<Rightarrow> Some (Inl e)
      | Inr (Finished x) \<Rightarrow> Some (Ret x)
      | Inr (Again lst num r g) \<Rightarrow> mark_loop alloc lst num r g)"

definition ComputeReachabilityGraphForMultipleBlocks ::
    "(nat \<Rightarrow> 'h \<Rightarrow> 'h option) \<Rightarrow> nat \<Rightarrow> nat \<Rightarrow> 'h gc_state \<Rightarrow> 'h gc_state c_result option" where
  "ComputeReachabilityGraphForMultipleBlocks alloc lst num g =
     map_option (\<lambda>res. c_bind res (\<lambda>(r, g). Ret (SAVESTATE r g))) (mark_loop alloc lst num (LOADSTATE g) g)"

definition ComputeReachabilityGraphForSingleBlock ::
    "(nat \<Rightarrow> 'h \<Rightarrow> 'h option) \<Rightarrow> nat option \<Rightarrow> 'h gc_state \<Rightarrow> 'h gc_state c_result option" where
  "ComputeReachabilityGraphForSingleBlock alloc ptr g =
     (case ptr of
        None \<Rightarrow> Some (Ret g)
      | Some obj \<Rightarrow> if g_alive (gmem g obj) then Some (Ret g) else ComputeReachabilityGraphForMultipleBlocks alloc obj 1 g)"

text \<open>Sequencing of calls that may stop the system or not return.\<close>

definition oc_bind :: "'a c_result option \<Rightarrow> ('a \<Rightarrow> 'b c_result option) \<Rightarrow> 'b c_result option" where
  "oc_bind x f = (case x of None \<Rightarrow> None | Some (Inl e) \<Rightarrow> Some (Inl e) | Some (Inr y) \<Rightarrow> f y)"

lemma oc_bind_simps [simp]:
  "oc_bind None f = None" "oc_bind (Some (Inl e)) f = Some (Inl e)" "oc_bind (Some (Inr y)) f = f y"
  by (simp_all add: oc_bind_def)

section \<open>The roots\<close>

text \<open>The calls the roots are marked with; a null pointer is left out.\<close>

datatype gc_check =
    CheckSingleBlock "nat option"
  | CheckSingleBlock_Force "nat option"
  | CheckMultipleBlocks "nat option" nat

fun run_check :: "(nat \<Rightarrow> 'h \<Rightarrow> 'h option) \<Rightarrow> gc_check \<Rightarrow> 'h gc_state \<Rightarrow> 'h gc_state c_result option" where
  "run_check alloc (CheckSingleBlock ptr) g = ComputeReachabilityGraphForSingleBlock alloc ptr g"
| "run_check alloc (CheckSingleBlock_Force ptr) g =
     (case ptr of None \<Rightarrow> Some (Ret g) | Some a \<Rightarrow> ComputeReachabilityGraphForMultipleBlocks alloc a 1 g)"
| "run_check alloc (CheckMultipleBlocks lst num) g =
     (case lst of None \<Rightarrow> Some (Ret g) | Some a \<Rightarrow> ComputeReachabilityGraphForMultipleBlocks alloc a num g)"

fun run_checks :: "(nat \<Rightarrow> 'h \<Rightarrow> 'h option) \<Rightarrow> gc_check list \<Rightarrow> 'h gc_state \<Rightarrow> 'h gc_state c_result option" where
  "run_checks alloc [] g = Some (Ret g)"
| "run_checks alloc (c # cs) g = oc_bind (run_check alloc c g) (run_checks alloc cs)"

text \<open>What the marker reads of a stack frame, a thread, an assembly and the execution engine.\<close>

record gc_frame =
  m_inlineFrame :: "((nat option \<times> nat) \<times> (nat option \<times> nat) \<times> (nat option \<times> nat)) option"
  m_arguments :: "nat option"
  numArgs :: nat
  m_locals :: "nat option"
  numLocals :: nat
  m_evalStack :: "nat option"
  TopValuePosition :: nat

record gc_thread =
  m_dlg :: "nat option"
  m_currentException :: nat
  m_nestedExceptions :: "nat option list"
  m_stackFrames :: "gc_frame list"
  m_locks :: "nat list"
  m_waitForObject :: "(nat option \<times> nat) option"

record gc_assembly =
  m_pStaticFields :: "nat option"
  m_iStaticFields :: nat
  m_pFile :: "nat option"

datatype gc_protected = Protect_block nat | Protect_thread "gc_thread option"

record gc_roots =
  s_first :: "gc_protected list"
  m_finalizersPending :: "nat list"
  m_finalizersAlive :: "nat list"
  assemblies :: "gc_assembly list"
  m_threadsReady :: "gc_thread list"
  m_threadsWaiting :: "gc_thread list"
  m_globalLock :: "nat option"
  m_currentUICulture :: "nat option"
  m_scratchPadArray :: "nat option"

definition Frame_Mark :: "gc_frame \<Rightarrow> gc_check list" where
  "Frame_Mark f =
     (case m_inlineFrame f of
        None \<Rightarrow> []
      | Some ((a, na), (l, nl), (e, ne)) \<Rightarrow>
          [CheckMultipleBlocks a na, CheckMultipleBlocks l nl, CheckMultipleBlocks e ne]) @
     [CheckMultipleBlocks (m_arguments f) (numArgs f), CheckMultipleBlocks (m_locals f) (numLocals f),
      CheckMultipleBlocks (m_evalStack f) (TopValuePosition f)]"

definition Thread_Mark :: "gc_thread \<Rightarrow> gc_check list" where
  "Thread_Mark th =
     [CheckSingleBlock (m_dlg th), CheckSingleBlock_Force (Some (m_currentException th))] @
     map CheckSingleBlock_Force (m_nestedExceptions th) @
     concat (map Frame_Mark (m_stackFrames th)) @
     map (\<lambda>lock. CheckSingleBlock_Force (Some lock)) (m_locks th) @
     (case m_waitForObject th of None \<Rightarrow> [] | Some (objs, n) \<Rightarrow> [CheckMultipleBlocks objs n])"

definition ProtectFromGC_Invoke :: "gc_protected \<Rightarrow> gc_check list" where
  "ProtectFromGC_Invoke p =
     (case p of
        Protect_block a \<Rightarrow> [CheckMultipleBlocks (Some a) 1]
      | Protect_thread th \<Rightarrow> (case th of None \<Rightarrow> [] | Some th \<Rightarrow> Thread_Mark th))"

definition Assembly_Mark :: "gc_assembly list \<Rightarrow> gc_check list" where
  "Assembly_Mark as =
     concat (map (\<lambda>a. [CheckMultipleBlocks (m_pStaticFields a) (m_iStaticFields a), CheckSingleBlock (m_pFile a)]) as)"

text \<open>The roots in the order they are marked in, up to the objects that wait for their finalizer.\<close>

definition Mark_roots :: "gc_roots \<Rightarrow> gc_check list" where
  "Mark_roots rt =
     concat (map ProtectFromGC_Invoke (s_first rt)) @
     map (\<lambda>obj. CheckSingleBlock (Some obj)) (m_finalizersPending rt) @
     Assembly_Mark (assemblies rt) @
     concat (map Thread_Mark (m_threadsReady rt)) @ concat (map Thread_Mark (m_threadsWaiting rt)) @
     [CheckSingleBlock_Force (m_globalLock rt), CheckSingleBlock_Force (m_currentUICulture rt),
      CheckSingleBlock_Force (m_scratchPadArray rt)]"

section \<open>Rescanning the heap\<close>

partial_function (option) MarkSlow_cluster ::
    "(nat \<Rightarrow> 'h \<Rightarrow> 'h option) \<Rightarrow> nat \<Rightarrow> nat \<Rightarrow> 'h gc_state \<Rightarrow> 'h gc_state c_result option" where
  "MarkSlow_cluster alloc ptr payloadEnd g =
     (if ptr < payloadEnd then
        (case (if g_alive (gmem g ptr) \<and> \<not> g_event (gmem g ptr)
               then run_check alloc (CheckSingleBlock_Force (Some ptr)) g else Some (Ret g)) of
           None \<Rightarrow> None
         | Some (Inl e) \<Rightarrow> Some (Inl e)
         | Some (Inr g) \<Rightarrow>
             MarkSlow_cluster alloc (ptr + g_dataSize (gmem g ptr) * sizeof_CLR_RT_HeapBlock) payloadEnd g)
      else Some (Ret g))"

fun MarkSlow_heap ::
    "(nat \<Rightarrow> 'h \<Rightarrow> 'h option) \<Rightarrow> (nat \<times> nat) list \<Rightarrow> 'h gc_state \<Rightarrow> 'h gc_state c_result option" where
  "MarkSlow_heap alloc [] g = Some (Ret g)"
| "MarkSlow_heap alloc ((payloadStart, payloadEnd) # hcs) g =
     oc_bind (MarkSlow_cluster alloc payloadStart payloadEnd g) (MarkSlow_heap alloc hcs)"

partial_function (option) MarkSlow ::
    "(nat \<Rightarrow> 'h \<Rightarrow> 'h option) \<Rightarrow> (nat \<times> nat) list \<Rightarrow> 'h gc_state \<Rightarrow> 'h gc_state c_result option" where
  "MarkSlow alloc hcs g =
     (if m_fOutOfStackSpaceForGC g then
        (case MarkSlow_heap alloc hcs (g\<lparr>m_fOutOfStackSpaceForGC := False\<rparr>) of
           None \<Rightarrow> None
         | Some (Inl e) \<Rightarrow> Some (Inl e)
         | Some (Inr g) \<Rightarrow> MarkSlow alloc hcs g)
      else Some (Ret g))"

section \<open>The mark phase\<close>

text \<open>
  The objects with a finalizer that are not marked are marked once more and moved to the pending
  ones.
\<close>

fun Mark_finalizers ::
    "(nat \<Rightarrow> 'h \<Rightarrow> 'h option) \<Rightarrow> nat list \<Rightarrow> 'h gc_state \<Rightarrow> (nat list \<times> nat list \<times> 'h gc_state) c_result option" where
  "Mark_finalizers alloc [] g = Some (Ret ([], [], g))"
| "Mark_finalizers alloc (obj # fins) g =
     (if g_alive (gmem g obj) then
        oc_bind (Mark_finalizers alloc fins g) (\<lambda>(pending, alive, g). Some (Ret (pending, obj # alive, g)))
      else
        oc_bind (run_check alloc (CheckSingleBlock (Some obj)) g) (\<lambda>g.
        oc_bind (Mark_finalizers alloc fins g) (\<lambda>(pending, alive, g). Some (Ret (obj # pending, alive, g)))))"

text \<open>
  The whole phase, from a memory and a heap for further stacks. The clusters are given by the bounds of
  their payload. The further stacks are released at the end.
\<close>

definition Mark_start :: "(nat \<Rightarrow> gc_block) \<Rightarrow> 'h \<Rightarrow> 'h gc_state" where
  "Mark_start m h = \<lparr>gmem = m, m_markStackList = [MarkStack_Initialize c_minimumSpaceForGC], m_markStack = 0,
     m_fOutOfStackSpaceForGC = False, m_weakDelegates_Reachable = ([], False), gheap = h\<rparr>"

definition Mark ::
    "(nat \<Rightarrow> 'h \<Rightarrow> 'h option) \<Rightarrow> (nat \<times> nat) list \<Rightarrow> gc_roots \<Rightarrow> (nat \<Rightarrow> gc_block) \<Rightarrow> 'h \<Rightarrow>
       (gc_roots \<times> 'h gc_state) c_result option" where
  "Mark alloc hcs rt m h =
     oc_bind (run_checks alloc (Mark_roots rt) (Mark_start m h)) (\<lambda>g.
     oc_bind (if m_fOutOfStackSpaceForGC g then MarkSlow alloc hcs g else Some (Ret g)) (\<lambda>g.
     oc_bind (Mark_finalizers alloc (m_finalizersAlive rt) g) (\<lambda>(pending, alive, g).
     oc_bind (if m_fOutOfStackSpaceForGC g then MarkSlow alloc hcs g else Some (Ret g)) (\<lambda>g.
     Some (Ret (rt\<lparr>m_finalizersAlive := alive, m_finalizersPending := m_finalizersPending rt @ pending\<rparr>,
       g\<lparr>m_markStackList := take 1 (m_markStackList g)\<rparr>))))))"

section \<open>Weak references and weak delegates\<close>

record gc_weakref =
  w_block :: nat
  w_restored :: bool
  m_targetDirect :: "nat option"
  m_targetSerialized :: "nat option"

text \<open>
  A weak reference that is not marked leaves the list; one that is loses a target that is not marked,
  and keeps the serialized form of one that is.
\<close>

definition MarkWeak_node :: "gc_weakref \<Rightarrow> 'h gc_state \<Rightarrow> gc_weakref option \<times> 'h gc_state" where
  "MarkWeak_node weak g =
     (let g = (if w_restored weak \<and> m_targetSerialized weak \<noteq> None then mark_alive (w_block weak) g else g)
      in if g_alive (gmem g (w_block weak)) then
           (case m_targetDirect weak of
              None \<Rightarrow> (Some weak, g)
            | Some obj \<Rightarrow>
                if g_alive (gmem g obj) then
                  (Some weak, case m_targetSerialized weak of
                     None \<Rightarrow> g
                   | Some ser \<Rightarrow> if g_alive (gmem g ser) then g else mark_alive ser g)
                else (Some (weak\<lparr>m_targetDirect := None\<rparr>), g))
         else (None, g))"

fun MarkWeak :: "gc_weakref list \<Rightarrow> 'h gc_state \<Rightarrow> gc_weakref list \<times> 'h gc_state" where
  "MarkWeak [] g = ([], g)"
| "MarkWeak (weak # weaks) g =
     (let (weak', g) = MarkWeak_node weak g; (weaks', g) = MarkWeak weaks g
      in (case weak' of None \<Rightarrow> weaks' | Some w \<Rightarrow> w # weaks', g))"

fun Dereference :: "gc_data \<Rightarrow> nat option" where
  "Dereference (G_OBJECT sub) = sub"
| "Dereference (G_BYREF sub) = sub"
| "Dereference (G_ARRAY_BYREF sub) = sub"
| "Dereference _ = None"

text \<open>
  The delegates of a weak list: one whose object is not marked is taken out of the list, the others are
  marked.
\<close>

definition Sweep_delegate :: "nat \<Rightarrow> 'h gc_state \<Rightarrow> 'h gc_state" where
  "Sweep_delegate dlgs g =
     (case Dereference (g_data (gmem g dlgs)) of
        None \<Rightarrow> g
      | Some dlg \<Rightarrow>
          (case Dereference (g_data (gmem g (dlg + offset_Delegate_object))) of
             Some obj \<Rightarrow>
               if g_alive (gmem g obj) then mark_alive dlg g
               else g\<lparr>gmem := (gmem g)(dlgs := (gmem g dlgs)\<lparr>g_data := G_OBJECT None\<rparr>)\<rparr>
           | None \<Rightarrow> mark_alive dlg g))"

definition Sweep_weak_list :: "nat \<Rightarrow> 'h gc_state \<Rightarrow> 'h gc_state" where
  "Sweep_weak_list weak g =
     fold (\<lambda>i. Sweep_delegate (weak + sizeof_Delegate_List + i * sizeof_CLR_RT_HeapBlock))
       [0..<(case g_data (gmem g weak) of G_DELEGATELIST_HEAD _ num \<Rightarrow> num | _ \<Rightarrow> 0)] g"

text \<open>The loop over the weak lists does not end when the last one is linked to itself.\<close>

definition Sweep_weak :: "'h gc_state \<Rightarrow> 'h gc_state option" where
  "Sweep_weak g =
     (if snd (m_weakDelegates_Reachable g) then None
      else Some (fold Sweep_weak_list (fst (m_weakDelegates_Reachable g)) g))"

end
