(* ===== verification/NF_GCStack.thy ===== *)
theory NF_GCStack
  imports NF_GCMark
begin

text \<open>
  The stack of ranges behind the traversal: taking the next heap block from it and putting a range on it,
  whatever the number of further stacks, are the operations of one list. Only the room may end: then the
  range is dropped, or written behind the end of a stack.
\<close>

section \<open>Ranges\<close>

definition gc_range :: "nat \<Rightarrow> nat \<Rightarrow> nat list" where
  "gc_range a n = map (\<lambda>i. a + sizeof_CLR_RT_HeapBlock * i) [0..<n]"

lemma gc_range_0 [simp]: "gc_range a 0 = []"
  by (simp add: gc_range_def)

lemma gc_range_Suc [simp]: "gc_range a (Suc n) = a # gc_range (a + sizeof_CLR_RT_HeapBlock) n"
  by (simp add: gc_range_def map_upt_Suc algebra_simps del: upt_Suc)

lemma length_gc_range [simp]: "length (gc_range a n) = n"
  by (simp add: gc_range_def)

lemma gc_range_pos: "0 < n \<Longrightarrow> gc_range a n = a # gc_range (a + sizeof_CLR_RT_HeapBlock) (n - 1)"
  by (cases n) simp_all

section \<open>What is pending\<close>

text \<open>The elements of one stack up to a position, the topmost first, without the sentinel.\<close>

definition above_sentinel :: "mark_stack \<Rightarrow> nat \<Rightarrow> (nat \<times> nat) list" where
  "above_sentinel s n = rev (take n (tl (elements s)))"

definition stack_ok :: "mark_stack \<Rightarrow> nat \<Rightarrow> bool" where
  "stack_ok s n \<longleftrightarrow> elements s \<noteq> [] \<and> hd (elements s) = (0, 0) \<and> m_last s = length (elements s) - 1 \<and>
     n \<le> m_last s \<and> (\<forall>e \<in> set (above_sentinel s n). 0 < snd e \<and> snd e < 2 ^ 32)"

definition stacks_ok :: "gc_locals \<Rightarrow> 'h gc_state \<Rightarrow> bool" where
  "stacks_ok r g \<longleftrightarrow> m_markStack g = stackList r \<and> stackList r < length (m_markStackList g) \<and>
     stackLast r = m_last (m_markStackList g ! stackList r) \<and> stack_ok (m_markStackList g ! stackList r) (stack r) \<and>
     (\<forall>i < stackList r. stack_ok (m_markStackList g ! i) (m_top (m_markStackList g ! i)) \<and>
        0 < m_top (m_markStackList g ! i)) \<and>
     (\<forall>i \<le> stackList r. 1 < length (elements (m_markStackList g ! i)))"

definition below :: "'h gc_state \<Rightarrow> nat \<Rightarrow> (nat \<times> nat) list" where
  "below g k = concat (map (\<lambda>i. above_sentinel (m_markStackList g ! i) (m_top (m_markStackList g ! i))) (rev [0..<k]))"

definition pending :: "gc_locals \<Rightarrow> 'h gc_state \<Rightarrow> (nat \<times> nat) list" where
  "pending r g = above_sentinel (m_markStackList g ! stackList r) (stack r) @ below g (stackList r)"

lemma below_0 [simp]: "below g 0 = []"
  by (simp add: below_def)

lemma below_Suc: "below g (Suc k) = above_sentinel (m_markStackList g ! k) (m_top (m_markStackList g ! k)) @ below g k"
  by (simp add: below_def)

lemma below_cong: "(\<And>i. i < k \<Longrightarrow> m_markStackList g' ! i = m_markStackList g ! i) \<Longrightarrow> below g' k = below g k"
  by (induction k) (simp_all add: below_Suc)

lemma above_sentinel_0 [simp]: "above_sentinel s 0 = []"
  by (simp add: above_sentinel_def)

lemma stack_ok_elements:
  "stack_ok s n \<Longrightarrow> \<exists>xs. elements s = (0, 0) # xs \<and> n \<le> length xs \<and> m_last s = length xs"
  by (cases "elements s") (auto simp: stack_ok_def)

lemma above_sentinel_Suc:
  assumes "stack_ok s (Suc n)"
  shows "above_sentinel s (Suc n) = (elements s ! Suc n) # above_sentinel s n"
proof -
  obtain xs where "elements s = (0, 0) # xs" "Suc n \<le> length xs" using stack_ok_elements [OF assms] by blast
  then show ?thesis by (simp add: above_sentinel_def take_Suc_conv_app_nth)
qed

lemma stack_ok_Suc:
  assumes "stack_ok s (Suc n)"
  shows "stack_ok s n" "0 < snd (elements s ! Suc n)" "snd (elements s ! Suc n) < 2 ^ 32"
  using assms unfolding stack_ok_def above_sentinel_Suc [OF assms] by simp_all

lemma stack_ok_in_bounds: "stack_ok s n \<Longrightarrow> n < length (elements s)"
  by (auto dest: stack_ok_elements)

lemma stack_ok_sentinel: "stack_ok s n \<Longrightarrow> elements s ! 0 = (0, 0)"
  by (auto dest: stack_ok_elements)

lemma above_sentinel_write:
  assumes "n < length (elements s)" and "k \<le> n"
  shows "above_sentinel (s\<lparr>elements := (elements s)[n := e]\<rparr>) k =
    (if k = n \<and> 0 < n then e # above_sentinel s (n - 1) else above_sentinel s k)"
proof (cases "elements s")
  case (Cons x xs)
  show ?thesis
  proof (cases n)
    case (Suc j)
    then have "take (Suc j) (xs[j := e]) = take j xs @ [e]"
      using assms(1) Cons by (simp add: take_Suc_conv_app_nth)
    then show ?thesis using assms Cons Suc by (auto simp: above_sentinel_def take_update_cancel)
  qed (use assms Cons in \<open>auto simp: above_sentinel_def\<close>)
qed (use assms in auto)

lemma stack_ok_write:
  assumes ok: "stack_ok s n" and n: "0 < n" and e: "0 < snd e" "snd e < 2 ^ 32"
  shows "stack_ok (s\<lparr>elements := (elements s)[n := e]\<rparr>) n"
proof -
  obtain j where j: "n = Suc j" using n by (cases n) auto
  obtain xs where xs: "elements s = (0, 0) # xs" "n \<le> length xs" "m_last s = length xs"
    using stack_ok_elements [OF ok] by blast
  have "above_sentinel (s\<lparr>elements := (elements s)[n := e]\<rparr>) n = e # above_sentinel s j"
    using above_sentinel_write [of n s n e] stack_ok_in_bounds [OF ok] n j by simp
  moreover have "\<forall>e \<in> set (above_sentinel s j). 0 < snd e \<and> snd e < 2 ^ 32"
    using stack_ok_Suc(1) [OF ok [unfolded j]] by (simp add: stack_ok_def)
  ultimately show ?thesis using e xs j by (simp add: stack_ok_def)
qed

lemma stack_ok_push:
  assumes "stack_ok s n" and "n < m_last s" and "0 < snd e" and "snd e < 2 ^ 32"
  shows "stack_ok (s\<lparr>elements := (elements s)[Suc n := e]\<rparr>) (Suc n)"
    and "above_sentinel (s\<lparr>elements := (elements s)[Suc n := e]\<rparr>) (Suc n) = e # above_sentinel s n"
proof -
  have l: "Suc n < length (elements s)" using assms(1,2) by (auto simp: stack_ok_def)
  show a: "above_sentinel (s\<lparr>elements := (elements s)[Suc n := e]\<rparr>) (Suc n) = e # above_sentinel s n"
    using above_sentinel_write [OF l, of "Suc n" e] by simp
  have "hd ((elements s)[Suc n := e]) = hd (elements s)" using stack_ok_elements [OF assms(1)] by auto
  then show "stack_ok (s\<lparr>elements := (elements s)[Suc n := e]\<rparr>) (Suc n)"
    using assms a by (auto simp: stack_ok_def)
qed

text \<open>The part of the state that the stack operations leave alone.\<close>

definition same_heap :: "'h gc_state \<Rightarrow> 'h gc_state \<Rightarrow> bool" where
  "same_heap g' g \<longleftrightarrow> gmem g' = gmem g \<and> m_weakDelegates_Reachable g' = m_weakDelegates_Reachable g"

section \<open>Taking the next heap block\<close>

lemma pending_top:
  assumes "stacks_ok r g" and "stack r = Suc n"
  shows "pending r g = (elements (m_markStackList g ! stackList r) ! stack r) # pending (r\<lparr>stack := n\<rparr>) g"
  using assms above_sentinel_Suc [of "m_markStackList g ! stackList r" n] by (simp add: pending_def stacks_ok_def)

text \<open>Going back to the stack before.\<close>

lemma previous_stack:
  assumes ok: "stacks_ok r g" and e: "stack r = 0" and c: "0 < stackList r"
  defines "g' \<equiv> (SAVESTATE r g)\<lparr>m_markStack := stackList r - 1\<rparr>"
  shows "stacks_ok (LOADSTATE g') g'" "0 < stack (LOADSTATE g')" "pending (LOADSTATE g') g' = pending r g"
    and "same_heap g' g" "m_fOutOfStackSpaceForGC g' = m_fOutOfStackSpaceForGC g" "gheap g' = gheap g"
    and "length (m_markStackList g') = length (m_markStackList g)"
proof -
  let ?k = "stackList r" and ?l = "m_markStackList g"
  obtain j where j: "?k = Suc j" using c by (cases ?k) auto
  have o: "m_markStack g = ?k" "?k < length ?l" "stack_ok (?l ! j) (m_top (?l ! j))" "0 < m_top (?l ! j)"
    using ok j by (auto simp: stacks_ok_def)
  have g': "g' = g\<lparr>m_markStackList := ?l[?k := (?l ! ?k)\<lparr>m_last := stackLast r, m_top := 0\<rparr>], m_markStack := j\<rparr>"
    using o(1) by (simp add: g'_def SAVESTATE_def j e)
  have r': "LOADSTATE g' = \<lparr>stackList = j, stackLast = m_last (?l ! j), stack = m_top (?l ! j)\<rparr>"
    by (simp add: LOADSTATE_def Let_def g' j)
  have lower: "m_markStackList g' ! i = ?l ! i" if "i \<le> j" for i using that by (simp add: g' j)
  have top0: "\<forall>i \<le> j. 1 < length (elements (?l ! i))" using ok j by (simp add: stacks_ok_def)
  have low: "\<forall>i < j. stack_ok (?l ! i) (m_top (?l ! i)) \<and> 0 < m_top (?l ! i)" using ok j by (simp add: stacks_ok_def)
  show "stacks_ok (LOADSTATE g') g'"
    unfolding stacks_ok_def r' using o low top0 lower by (simp add: g' j)
  show "0 < stack (LOADSTATE g')" using o by (simp add: r')
  have "below g' j = below g j" using lower by (intro below_cong) simp
  then show "pending (LOADSTATE g') g' = pending r g" using lower by (simp add: pending_def r' e j below_Suc)
qed (simp_all add: g'_def SAVESTATE_def same_heap_def)

text \<open>The element on top loses its first heap block.\<close>

lemma take_from_top:
  assumes ok: "stacks_ok r g" and "0 < stack r"
  shows "\<exists>p n ps g'. pending r g = (p, n) # ps \<and> 0 < n \<and> read_element r g = Ret (p, n) \<and>
    write_element (p + sizeof_CLR_RT_HeapBlock, n - 1) r g = Ret g' \<and>
    stacks_ok (if n - 1 = 0 then r\<lparr>stack := stack r - 1\<rparr> else r) g' \<and>
    pending (if n - 1 = 0 then r\<lparr>stack := stack r - 1\<rparr> else r) g' =
      (if n = 1 then ps else (p + sizeof_CLR_RT_HeapBlock, n - 1) # ps) \<and>
    same_heap g' g \<and> m_fOutOfStackSpaceForGC g' = m_fOutOfStackSpaceForGC g \<and> gheap g' = gheap g \<and>
    length (m_markStackList g') = length (m_markStackList g)"
proof -
  let ?k = "stackList r" and ?l = "m_markStackList g"
  let ?s = "?l ! ?k"
  obtain j where j: "stack r = Suc j" using assms(2) by (cases "stack r") auto
  obtain p n where pn: "elements ?s ! stack r = (p, n)" by (cases "elements ?s ! stack r")
  have o: "m_markStack g = ?k" "?k < length ?l" "stackLast r = m_last ?s" "stack_ok ?s (stack r)"
    using ok by (auto simp: stacks_ok_def)
  have n: "0 < n" "n < 2 ^ 32" using stack_ok_Suc(2,3) [of ?s j] o(4) pn j by simp_all
  have l: "stack r < length (elements ?s)" by (rule stack_ok_in_bounds [OF o(4)])
  let ?ps = "pending (r\<lparr>stack := j\<rparr>) g"
  let ?e = "(p + sizeof_CLR_RT_HeapBlock, n - 1)"
  let ?s' = "?s\<lparr>elements := (elements ?s)[stack r := ?e]\<rparr>"
  define g' where "g' = g\<lparr>m_markStackList := ?l[?k := ?s']\<rparr>"
  have k: "m_markStackList g' ! ?k = ?s'" using o(2) by (simp add: g'_def)
  have lower: "m_markStackList g' ! i = ?l ! i" if "i < ?k" for i using that by (simp add: g'_def)
  have zero: "length (elements (m_markStackList g' ! i)) = length (elements (?l ! i))" for i
    by (cases "?k = i") (use o(2) in \<open>simp_all add: g'_def nth_list_update\<close>)
  have low: "below g' ?k = below g ?k" using lower by (intro below_cong)
  have other: "stacks_ok (r\<lparr>stack := q\<rparr>) g'" if "stack_ok ?s' q" for q
    using ok that lower o zero by (simp add: stacks_ok_def k) (simp add: g'_def)
  have as: "above_sentinel ?s' j = above_sentinel ?s j" "above_sentinel ?s' (Suc j) = ?e # above_sentinel ?s j"
    using above_sentinel_write [of "stack r" ?s j ?e] above_sentinel_write [of "stack r" ?s "Suc j" ?e] l j by auto
  have okj: "stack_ok ?s' j"
  proof -
    have "stack_ok ?s j" using stack_ok_Suc(1) [of ?s j] o(4) j by simp
    moreover have "hd ((elements ?s)[stack r := ?e]) = hd (elements ?s)"
      using stack_ok_elements [OF o(4)] j by auto
    ultimately show ?thesis using as(1) by (simp add: stack_ok_def)
  qed
  have "stacks_ok (if n - 1 = 0 then r\<lparr>stack := stack r - 1\<rparr> else r) g' \<and>
    pending (if n - 1 = 0 then r\<lparr>stack := stack r - 1\<rparr> else r) g' = (if n = 1 then ?ps else ?e # ?ps)"
  proof (cases "n = 1")
    case True
    then show ?thesis using other [OF okj] as(1) j low by (simp add: pending_def k)
  next
    case False
    then have "stack_ok ?s' (stack r)" using n by (intro stack_ok_write [OF o(4)]) (simp_all add: j)
    then have "stacks_ok r g'" using other [of "stack r"] by simp
    then show ?thesis using False n(1) as(2) low by (simp add: pending_def k j)
  qed
  moreover have "pending r g = (p, n) # ?ps" using pending_top [OF ok j] pn by simp
  moreover have "read_element r g = Ret (p, n)" using l pn by (simp add: read_element_def)
  moreover have "write_element ?e r g = Ret g'" using l by (simp add: write_element_def Let_def g'_def)
  ultimately show ?thesis using n(1)
    by (intro exI [of _ p] exI [of _ n] exI [of _ ?ps] exI [of _ g']) (simp add: g'_def same_heap_def)
qed

lemma pending_empty:
  assumes ok: "stacks_ok r g"
  shows "pending r g = [] \<longleftrightarrow> stack r = 0 \<and> stackList r = 0"
proof (cases "stack r")
  case 0
  let ?g = "(SAVESTATE r g)\<lparr>m_markStack := stackList r - 1\<rparr>"
  show ?thesis
  proof (cases "stackList r = 0")
    case False
    then have p: "stacks_ok (LOADSTATE ?g) ?g" "0 < stack (LOADSTATE ?g)" "pending (LOADSTATE ?g) ?g = pending r g"
      using previous_stack [OF ok 0] by auto
    then obtain n where "stack (LOADSTATE ?g) = Suc n" by (cases "stack (LOADSTATE ?g)") auto
    then have "pending r g \<noteq> []" using pending_top [OF p(1)] p(3) by (metis list.distinct(1))
    then show ?thesis using False by simp
  qed (use 0 in \<open>simp add: pending_def\<close>)
next
  case (Suc n)
  then show ?thesis using pending_top [OF ok Suc] by simp
qed

lemma next_pending_none:
  assumes ok: "stacks_ok r g" and "pending r g = []"
  shows "next_pending r g = Ret None"
proof -
  have z: "stack r = 0" "stackList r = 0" using assms pending_empty [OF ok] by simp_all
  have "stack_ok (m_markStackList g ! 0) 0" using ok z by (simp add: stacks_ok_def)
  then show ?thesis
    using z stack_ok_sentinel stack_ok_in_bounds
    by (fastforce simp: next_pending_def read_element_def c_index_def)
qed

text \<open>
  What may differ between the state before and after an operation: the stacks, and for an operation that
  needs room the heap they come from.
\<close>

definition quiet :: "'h gc_state \<Rightarrow> 'h gc_state \<Rightarrow> bool" where
  "quiet g' g \<longleftrightarrow> same_heap g' g \<and> m_fOutOfStackSpaceForGC g' = m_fOutOfStackSpaceForGC g"

lemma next_pending_some:
  assumes ok: "stacks_ok r g" and ne: "pending r g \<noteq> []"
  shows "\<exists>p n ps r' g'. pending r g = (p, n) # ps \<and> 0 < n \<and> next_pending r g = Ret (Some (p, r', g')) \<and>
    stacks_ok r' g' \<and> pending r' g' = (if n = 1 then ps else (p + sizeof_CLR_RT_HeapBlock, n - 1) # ps) \<and>
    quiet g' g \<and> length (m_markStackList g') = length (m_markStackList g)"
proof -
  define r1 g1 where "r1 = (if stack r = 0 then LOADSTATE ((SAVESTATE r g)\<lparr>m_markStack := stackList r - 1\<rparr>) else r)"
    and "g1 = (if stack r = 0 then (SAVESTATE r g)\<lparr>m_markStack := stackList r - 1\<rparr> else g)"
  have cur: "stack_ok (m_markStackList g ! stackList r) (stack r)" using ok by (simp add: stacks_ok_def)
  have top: "stacks_ok r1 g1 \<and> 0 < stack r1 \<and> pending r1 g1 = pending r g \<and> quiet g1 g \<and>
      length (m_markStackList g1) = length (m_markStackList g)"
  proof (cases "stack r = 0")
    case True
    then have "0 < stackList r" using ne pending_empty [OF ok] by simp
    then show ?thesis using previous_stack [OF ok True] True by (simp add: r1_def g1_def quiet_def)
  next
    case False
    then show ?thesis using ok by (simp add: r1_def g1_def quiet_def same_heap_def)
  qed
  obtain p n ps g' where t: "pending r1 g1 = (p, n) # ps" "0 < n" "read_element r1 g1 = Ret (p, n)"
    "write_element (p + sizeof_CLR_RT_HeapBlock, n - 1) r1 g1 = Ret g'"
    "stacks_ok (if n - 1 = 0 then r1\<lparr>stack := stack r1 - 1\<rparr> else r1) g'"
    "pending (if n - 1 = 0 then r1\<lparr>stack := stack r1 - 1\<rparr> else r1) g' =
       (if n = 1 then ps else (p + sizeof_CLR_RT_HeapBlock, n - 1) # ps)"
    "same_heap g' g1" "m_fOutOfStackSpaceForGC g' = m_fOutOfStackSpaceForGC g1"
    "length (m_markStackList g') = length (m_markStackList g1)"
    using take_from_top [OF conjunct1 [OF top] conjunct1 [OF conjunct2 [OF top]]] by (elim exE conjE) (rule that)
  obtain p0 n0 where e0: "read_element r g = Ret (p0, n0)" "n0 = 0 \<longleftrightarrow> stack r = 0"
  proof (cases "stack r = 0")
    case True
    have "read_element r g = Ret (0, 0)"
      using stack_ok_in_bounds [OF cur] stack_ok_sentinel [OF cur] True by (simp add: read_element_def)
    then show ?thesis using that True by blast
  next
    case False
    then have "r1 = r" "g1 = g" by (simp_all add: r1_def g1_def)
    then show ?thesis using that t(2,3) False by auto
  qed
  have "next_pending r g = Ret (Some (p, if n - 1 = 0 then r1\<lparr>stack := stack r1 - 1\<rparr> else r1, g'))"
    using e0 ne pending_empty [OF ok] t(2-4)
    unfolding next_pending_def r1_def g1_def by (auto simp: Let_def split: if_splits)
  then show ?thesis using t top by (auto simp: quiet_def same_heap_def)
qed

section \<open>Putting a range on the stack\<close>

lemma allocate_stack_pos: "allocate_stack alloc n h = Some (c, h') \<Longrightarrow> 0 < c \<and> (\<exists>k. alloc k h \<noteq> None)"
proof (induction alloc n h rule: allocate_stack.induct)
  case (1 alloc n h)
  show ?case
    using "1.prems" "1.IH" by (subst (asm) allocate_stack.simps) (auto split: if_splits option.splits)
qed

text \<open>With room on the current stack.\<close>

lemma push_in_place:
  assumes ok: "stacks_ok r g" and room: "stack r \<noteq> stackLast r" and e: "0 < snd e" "snd e < 2 ^ 32"
  shows "\<exists>g'. write_element e (r\<lparr>stack := stack r + 1\<rparr>) g = Ret g' \<and> stacks_ok (r\<lparr>stack := stack r + 1\<rparr>) g' \<and>
    pending (r\<lparr>stack := stack r + 1\<rparr>) g' = e # pending r g \<and> quiet g' g \<and>
    length (m_markStackList g') = length (m_markStackList g)"
proof -
  let ?k = "stackList r" and ?l = "m_markStackList g"
  let ?s = "?l ! ?k"
  have o: "m_markStack g = ?k" "?k < length ?l" "stackLast r = m_last ?s" "stack_ok ?s (stack r)"
    using ok by (auto simp: stacks_ok_def)
  have lt: "stack r < m_last ?s" using o(3,4) room by (auto simp: stack_ok_def)
  let ?s' = "?s\<lparr>elements := (elements ?s)[Suc (stack r) := e]\<rparr>"
  define g' where "g' = g\<lparr>m_markStackList := ?l[?k := ?s']\<rparr>"
  note p = stack_ok_push [OF o(4) lt e]
  have "Suc (stack r) < length (elements ?s)" using lt o(4) by (auto simp: stack_ok_def)
  then have w: "write_element e (r\<lparr>stack := stack r + 1\<rparr>) g = Ret g'"
    by (simp add: write_element_def Let_def g'_def)
  have k: "m_markStackList g' ! ?k = ?s'" using o(2) by (simp add: g'_def)
  have lower: "m_markStackList g' ! i = ?l ! i" if "i < ?k" for i using that by (simp add: g'_def)
  have "length (elements (m_markStackList g' ! i)) = length (elements (?l ! i))" for i
    by (cases "?k = i") (use o(2) in \<open>simp_all add: g'_def nth_list_update\<close>)
  then have "stacks_ok (r\<lparr>stack := stack r + 1\<rparr>) g'"
    using ok p(1) lower o by (simp add: stacks_ok_def k) (simp add: g'_def)
  moreover have "below g' ?k = below g ?k" using lower by (intro below_cong)
  then have "pending (r\<lparr>stack := stack r + 1\<rparr>) g' = e # pending r g" using p(2) by (simp add: pending_def k)
  ultimately show ?thesis using w by (intro exI [of _ g']) (simp add: g'_def quiet_def same_heap_def)
qed

text \<open>A further stack, empty, on top of the full one.\<close>

lemma further_stack:
  assumes ok: "stacks_ok r g" and full: "stack r = stackLast r" and new: "stackList r + 1 = length (m_markStackList g)"
    and c: "0 < c"
    and g0: "g0 = SAVESTATE r (g\<lparr>gheap := h\<rparr>)"
    and g': "g' = g0\<lparr>m_markStackList := m_markStackList g0 @ [MarkStack_Initialize c],
      m_markStack := length (m_markStackList g0)\<rparr>"
  shows "LOADSTATE g' = \<lparr>stackList = Suc (stackList r), stackLast = c - 1, stack = 0\<rparr>"
    and "elements (m_markStackList g' ! Suc (stackList r)) = replicate c (0, 0)" "quiet g' g"
    and "1 < c \<Longrightarrow> stacks_ok (LOADSTATE g') g' \<and> pending (LOADSTATE g') g' = pending r g"
proof -
  let ?k = "stackList r" and ?l = "m_markStackList g"
  let ?s = "?l ! ?k"
  have o: "m_markStack g = ?k" "?k < length ?l" "stackLast r = m_last ?s" "stack_ok ?s (stack r)"
    using ok by (auto simp: stacks_ok_def)
  let ?s' = "?s\<lparr>m_last := stackLast r, m_top := stack r\<rparr>"
  have g': "g' = g\<lparr>m_markStackList := ?l[?k := ?s'] @ [MarkStack_Initialize c], m_markStack := Suc ?k, gheap := h\<rparr>"
    using o(1) new by (simp add: g' g0 SAVESTATE_def)
  have new_s: "m_markStackList g' ! Suc ?k = MarkStack_Initialize c" using new by (simp add: g' nth_append)
  then show r': "LOADSTATE g' = \<lparr>stackList = Suc ?k, stackLast = c - 1, stack = 0\<rparr>"
    by (simp add: LOADSTATE_def Let_def MarkStack_Initialize_def g')
  show "elements (m_markStackList g' ! Suc ?k) = replicate c (0, 0)" using new_s by (simp add: MarkStack_Initialize_def)
  show "quiet g' g" by (simp add: g' quiet_def same_heap_def)
  have k: "m_markStackList g' ! ?k = ?s'" using o(2) by (simp add: g' nth_append)
  have lower: "m_markStackList g' ! i = ?l ! i" if "i < ?k" for i using that o(2) by (simp add: g' nth_append)
  have as: "above_sentinel ?s' n = above_sentinel ?s n" for n by (simp add: above_sentinel_def)
  have ok': "stack_ok ?s' (stack r)" using o(3,4) as by (simp add: stack_ok_def)
  have long: "1 < length (elements ?s)" using ok by (simp add: stacks_ok_def)
  then have top: "0 < stack r" using o(3,4) full by (auto simp: stack_ok_def)
  show "stacks_ok (LOADSTATE g') g' \<and> pending (LOADSTATE g') g' = pending r g" if "1 < c"
  proof
    have l: "1 < length (elements (m_markStackList g' ! i))" if i: "i \<le> Suc ?k" for i
    proof -
      consider "i < ?k" | "i = ?k" | "i = Suc ?k" using i by linarith
      then show ?thesis
        using ok lower [of i] k long new_s \<open>1 < c\<close> by cases (auto simp: stacks_ok_def MarkStack_Initialize_def)
    qed
    have t: "stack_ok (m_markStackList g' ! i) (m_top (m_markStackList g' ! i)) \<and> 0 < m_top (m_markStackList g' ! i)"
      if "i < Suc ?k" for i
      using that ok ok' top lower k by (cases "i = ?k") (auto simp: stacks_ok_def)
    have "stack_ok (MarkStack_Initialize c) 0"
      using c by (cases c) (simp_all add: stack_ok_def MarkStack_Initialize_def)
    then show "stacks_ok (LOADSTATE g') g'"
      unfolding stacks_ok_def r' using new_s l t new by (simp add: MarkStack_Initialize_def) (simp add: g')
    have "below g' ?k = below g ?k" using lower by (intro below_cong)
    then show "pending (LOADSTATE g') g' = pending r g" by (simp add: pending_def r' below_Suc k as)
  qed
qed

text \<open>
  The three outcomes: the range lies on the stack, it is dropped for lack of space, or it is written
  behind the end of a stack, which can only happen once a further stack has been taken from the heap.
\<close>

lemma push_range:
  assumes ok: "stacks_ok r g" and e: "0 < snd e" "snd e < 2 ^ 32"
  shows "(\<exists>r' g' x. make_room alloc r g = (Some (r', g'), x) \<and>
      write_element e (r'\<lparr>stack := stack r' + 1\<rparr>) g' = Fault BadIndex \<and>
      (1 < length (m_markStackList g) \<or> (\<exists>n h. alloc n h \<noteq> None)) \<and> pending r g \<noteq> []) \<or>
    make_room alloc r g = (None, g\<lparr>m_fOutOfStackSpaceForGC := True\<rparr>) \<and> pending r g \<noteq> [] \<or>
    (\<exists>r' g' x g''. make_room alloc r g = (Some (r', g'), x) \<and>
      write_element e (r'\<lparr>stack := stack r' + 1\<rparr>) g' = Ret g'' \<and> stacks_ok (r'\<lparr>stack := stack r' + 1\<rparr>) g'' \<and>
      pending (r'\<lparr>stack := stack r' + 1\<rparr>) g'' = e # pending r g \<and> quiet g'' g \<and>
      (length (m_markStackList g'') = length (m_markStackList g) \<or> (\<exists>n h. alloc n h \<noteq> None)))"
proof (cases "stack r = stackLast r")
  case False
  then show ?thesis using push_in_place [OF ok False e] by (auto simp: make_room_def)
next
  case full: True
  let ?k = "stackList r" and ?l = "m_markStackList g"
  have o: "m_markStack g = ?k" "?k < length ?l" "stackLast r = m_last (?l ! ?k)" "stack_ok (?l ! ?k) (stack r)"
    using ok by (auto simp: stacks_ok_def)
  have "1 < length (elements (?l ! ?k))" using ok by (simp add: stacks_ok_def)
  then have "0 < stack r" using o(3,4) full by (auto simp: stack_ok_def)
  then have ne: "pending r g \<noteq> []" using pending_empty [OF ok] by auto
  show ?thesis
  proof (cases "?k + 1 < length ?l")
    case True
    have m: "make_room alloc r g = (Some (LOADSTATE (SAVESTATE r g), SAVESTATE r g), SAVESTATE r g)"
      using full True by (simp add: make_room_def Let_def)
    have "length (elements (?l ! ?k)) = Suc (stack r)" using o(3,4) full by (cases "elements (?l ! ?k)") (auto simp: stack_ok_def)
    then have "write_element e (LOADSTATE (SAVESTATE r g)\<lparr>stack := stack (LOADSTATE (SAVESTATE r g)) + 1\<rparr>) (SAVESTATE r g) =
        Fault BadIndex"
      using o(1,2) by (simp add: write_element_def LOADSTATE_def SAVESTATE_def Let_def)
    then show ?thesis using m ne True by auto
  next
    case False
    then have new: "?k + 1 = length ?l" using o(2) by simp
    show ?thesis
    proof (cases "if m_fOutOfStackSpaceForGC g then None else allocate_stack alloc c_minimumSpaceForGC (gheap g)")
      case None
      then show ?thesis using full False ne by (simp add: make_room_def)
    next
      case (Some a)
      obtain c h where a: "a = (c, h)" by (cases a)
      have c: "0 < c" "\<exists>n h. alloc n h \<noteq> None"
        using Some a allocate_stack_pos [of alloc c_minimumSpaceForGC "gheap g" c h] by (auto split: if_splits)
      define g0 where "g0 = SAVESTATE r (g\<lparr>gheap := h\<rparr>)"
      define g' where "g' = g0\<lparr>m_markStackList := m_markStackList g0 @ [MarkStack_Initialize c],
        m_markStack := length (m_markStackList g0)\<rparr>"
      have m: "make_room alloc r g = (Some (LOADSTATE g', g'), g')"
        using full False Some by (simp add: make_room_def Let_def a g'_def g0_def)
      note f = further_stack [OF ok full new c(1) g0_def g'_def]
      show ?thesis
      proof (cases "c = 1")
        case True
        have "write_element e (LOADSTATE g'\<lparr>stack := stack (LOADSTATE g') + 1\<rparr>) g' = Fault BadIndex"
          using f(1,2) True by (simp add: write_element_def Let_def)
        then show ?thesis using m ne c(2) by blast
      next
        case False
        then have c1: "1 < c" using c(1) by simp
        have "stack (LOADSTATE g') \<noteq> stackLast (LOADSTATE g')" using f(1) c1 by simp
        from push_in_place [OF conjunct1 [OF f(4) [OF c1]] this e]
        obtain g'' where "write_element e (LOADSTATE g'\<lparr>stack := stack (LOADSTATE g') + 1\<rparr>) g' = Ret g''"
          "stacks_ok (LOADSTATE g'\<lparr>stack := stack (LOADSTATE g') + 1\<rparr>) g''"
          "pending (LOADSTATE g'\<lparr>stack := stack (LOADSTATE g') + 1\<rparr>) g'' = e # pending (LOADSTATE g') g'" "quiet g'' g'"
          by blast
        moreover have "quiet g'' g" using f(3) calculation(4) by (simp add: quiet_def same_heap_def)
        ultimately show ?thesis using m c(2) f(4) [OF c1] by auto
      qed
    qed
  qed
qed

end
