(* ===== verification/NF_GCTrace.thy ===== *)
theory NF_GCTrace
  imports NF_GCStack
begin

text \<open>
  The traversal as steps over a set of marked heap blocks and two lists of heap blocks to visit, the
  current range and the pending ones, and what the steps keep: the marks only grow inside of the graph,
  every marked block has its successors marked or waiting unless a range was dropped, and no run of steps
  goes on for ever.
\<close>

section \<open>The object graph\<close>

text \<open>The blocks that hold other blocks, and the successors of a block.\<close>

fun is_container :: "gc_data \<Rightarrow> bool" where
  "is_container G_CLASS = True"
| "is_container G_VALUETYPE = True"
| "is_container (G_SZARRAY ref num) = ref"
| "is_container G_DELEGATE_HEAD = True"
| "is_container (G_DELEGATELIST_HEAD weak num) = (\<not> weak)"
| "is_container _ = False"

definition gc_succ :: "(nat \<Rightarrow> gc_block) \<Rightarrow> nat \<Rightarrow> nat list" where
  "gc_succ m a = (case g_data (m a) of
      G_OBJECT sub \<Rightarrow> (case sub of None \<Rightarrow> [] | Some b \<Rightarrow> [b])
    | G_BYREF sub \<Rightarrow> (case sub of None \<Rightarrow> [] | Some b \<Rightarrow> [b])
    | G_ARRAY_BYREF sub \<Rightarrow> (case sub of None \<Rightarrow> [] | Some b \<Rightarrow> [b])
    | G_CLASS \<Rightarrow> gc_range (a + sizeof_CLR_RT_HeapBlock) (g_dataSize (m a) - 1)
    | G_VALUETYPE \<Rightarrow> gc_range (a + sizeof_CLR_RT_HeapBlock) (g_dataSize (m a) - 1)
    | G_SZARRAY ref num \<Rightarrow> if ref then gc_range (a + sizeof_Array) num else []
    | G_DELEGATE_HEAD \<Rightarrow> gc_range (a + offset_Delegate_object) 1
    | G_DELEGATELIST_HEAD weak num \<Rightarrow> if weak then [] else gc_range (a + sizeof_Delegate_List) num
    | _ \<Rightarrow> [])"

text \<open>
  The marks that were there before: the sweep takes them off the blocks, but not off the fields of an
  object or the elements of an array, and leaves them on the events. The blocks without successors can
  count as visited.
\<close>

definition settled :: "(nat \<Rightarrow> gc_block) \<Rightarrow> nat set" where
  "settled m = {a. g_alive (m a) \<and> gc_succ m a = []}"

definition stale :: "(nat \<Rightarrow> gc_block) \<Rightarrow> nat set" where
  "stale m = {a. g_alive (m a) \<and> gc_succ m a \<noteq> []}"

text \<open>
  A set of blocks the graph stays in. The parts of a container (the fields of an object, the elements of
  an array) are values and references, never containers themselves; no container and no block that is
  referred to has an old mark.
\<close>

definition gc_graph :: "(nat \<Rightarrow> gc_block) \<Rightarrow> nat set \<Rightarrow> bool" where
  "gc_graph m U \<longleftrightarrow> finite U \<and> (\<forall>a \<in> U. set (gc_succ m a) \<subseteq> U \<and> length (gc_succ m a) < 2 ^ 32 \<and>
     g_data (m a) \<noteq> G_BINARY_BLOB_HEAD True \<and>
     (is_container (g_data (m a)) \<longrightarrow> a \<notin> stale m \<and> (\<forall>c \<in> set (gc_succ m a). \<not> is_container (g_data (m c)))) \<and>
     (\<not> is_container (g_data (m a)) \<longrightarrow> set (gc_succ m a) \<inter> stale m = {}))"

lemma gc_graphD:
  assumes "gc_graph m U" and "a \<in> U"
  shows "set (gc_succ m a) \<subseteq> U" "length (gc_succ m a) < 2 ^ 32" "g_data (m a) \<noteq> G_BINARY_BLOB_HEAD True"
    and "is_container (g_data (m a)) \<Longrightarrow> c \<in> set (gc_succ m a) \<Longrightarrow> \<not> is_container (g_data (m c))"
    and "is_container (g_data (m a)) \<Longrightarrow> a \<notin> stale m"
    and "\<not> is_container (g_data (m a)) \<Longrightarrow> set (gc_succ m a) \<inter> stale m = {}"
  using assms by (auto simp: gc_graph_def)

lemma gc_succ_single: "\<not> is_container (g_data (m a)) \<Longrightarrow> gc_succ m a = [] \<or> (\<exists>b. gc_succ m a = [b])"
  by (cases "g_data (m a)") (auto simp: gc_succ_def split: option.splits)

section \<open>Steps\<close>

definition trace_next :: "(nat \<Rightarrow> gc_block) \<Rightarrow> nat \<Rightarrow> nat set \<Rightarrow> nat list" where
  "trace_next m a A =
     (if is_container (g_data (m a)) then gc_succ m a else filter (\<lambda>b. b \<notin> insert a A) (gc_succ m a))"

type_synonym trace_state = "nat list \<times> nat list \<times> nat set \<times> bool"

inductive trace_step :: "(nat \<Rightarrow> gc_block) \<Rightarrow> trace_state \<Rightarrow> trace_state \<Rightarrow> bool" for m where
  step_pending: "trace_step m ([], p # P, A, ov) (trace_next m p A, P, insert p A, ov)"
| step_current: "trace_step m (c # C, P, A, ov) (trace_next m c A, C @ P, insert c A, ov)"
| step_drop: "1 < length C \<Longrightarrow> P \<noteq> [] \<Longrightarrow> trace_step m (C, P, A, ov) ([], P, A, True)"

inductive_cases trace_stepE: "trace_step m (C, P, A, ov) s"

text \<open>A shape that every step keeps: only a block that is not yet marked may be a container.\<close>

fun trace_ok :: "(nat \<Rightarrow> gc_block) \<Rightarrow> nat set \<Rightarrow> trace_state \<Rightarrow> bool" where
  "trace_ok m U (C, P, A, ov) \<longleftrightarrow> set C \<union> set P \<subseteq> U \<and> (\<forall>c \<in> set P. \<not> is_container (g_data (m c))) \<and>
     (\<forall>c \<in> set C. is_container (g_data (m c)) \<longrightarrow> length C = 1 \<and> c \<notin> A)"

lemma trace_next_subset: "set (trace_next m a A) \<subseteq> set (gc_succ m a)"
  by (auto simp: trace_next_def)

lemma trace_next_sub: "gc_graph m U \<Longrightarrow> a \<in> U \<Longrightarrow> set (trace_next m a A) \<subseteq> U"
  using gc_graphD(1) [of m U a] trace_next_subset [of m a A] by blast

lemma trace_next_leaf:
  assumes "\<not> is_container (g_data (m a))"
  shows "gc_succ m a = [] \<and> trace_next m a A = [] \<or>
    (\<exists>b. gc_succ m a = [b] \<and> trace_next m a A = (if b \<in> insert a A then [] else [b]))"
  using gc_succ_single [of m a, OF assms] assms by (auto simp: trace_next_def)

lemma trace_next_single:
  "\<not> is_container (g_data (m a)) \<Longrightarrow> trace_next m a A = [] \<or> (\<exists>b. trace_next m a A = [b] \<and> b \<notin> insert a A)"
  using trace_next_leaf [of m a A] by (auto split: if_splits)

lemma trace_next_ok:
  assumes g: "gc_graph m U" and a: "a \<in> U" and P: "set P \<subseteq> U" "\<forall>c \<in> set P. \<not> is_container (g_data (m c))"
  shows "trace_ok m U (trace_next m a A, P, insert a A, ov)"
proof (cases "is_container (g_data (m a))")
  case True
  then show ?thesis using trace_next_sub [OF g a, of A] gc_graphD(4) [OF g a] P by (auto simp: trace_next_def)
next
  case False
  then show ?thesis using trace_next_sub [OF g a, of A] trace_next_single [of m a A, OF False] P by auto
qed

lemma trace_step_ok: "trace_step m s t \<Longrightarrow> gc_graph m U \<Longrightarrow> trace_ok m U s \<Longrightarrow> trace_ok m U t"
proof (induction rule: trace_step.induct)
  case (step_pending p P A ov)
  then show ?case by (intro trace_next_ok) auto
next
  case (step_current c C P A ov)
  then show ?case by (intro trace_next_ok) auto
qed auto

text \<open>Every step marks a block or lowers the number of blocks that wait.\<close>

definition current_weight :: "nat list \<Rightarrow> nat set \<Rightarrow> nat" where
  "current_weight C A = (if length C = 1 \<and> hd C \<notin> A then 1 else 2 * length C)"

fun trace_measure :: "nat set \<Rightarrow> trace_state \<Rightarrow> nat \<times> nat" where
  "trace_measure U (C, P, A, ov) = (card (U - A), 2 * length P + current_weight C A)"

lemma next_weight: "\<not> is_container (g_data (m a)) \<Longrightarrow> current_weight (trace_next m a A) (insert a A) \<le> 1"
  using trace_next_single [of m a A] by (auto simp: current_weight_def)

lemma card_insert_less: "finite U \<Longrightarrow> a \<in> U \<Longrightarrow> a \<notin> A \<Longrightarrow> card (U - insert a A) < card (U - A)"
  by (intro psubset_card_mono) auto

lemma trace_step_decreases:
  assumes "trace_step m s t" and g: "gc_graph m U" and "trace_ok m U s"
  shows "(trace_measure U t, trace_measure U s) \<in> less_than <*lex*> less_than"
  using assms(1,3)
proof (induction rule: trace_step.induct)
  case (step_pending p P A ov)
  have f: "finite U" using g by (simp add: gc_graph_def)
  show ?case
  proof (cases "p \<in> A")
    case True
    then have "insert p A = A" by auto
    then show ?thesis using next_weight [of m p A] step_pending.prems by (auto simp: current_weight_def)
  qed (use card_insert_less [OF f] step_pending.prems in auto)
next
  case (step_current c C P A ov)
  have f: "finite U" using g by (simp add: gc_graph_def)
  show ?case
  proof (cases "c \<in> A")
    case True
    then have "insert c A = A" by auto
    moreover have "\<not> is_container (g_data (m c))" using step_current.prems True by auto
    ultimately show ?thesis using next_weight [of m c A] True by (auto simp: current_weight_def)
  qed (use card_insert_less [OF f] step_current.prems in auto)
next
  case (step_drop C P A ov)
  then show ?case by (auto simp: current_weight_def)
qed

section \<open>What a run of steps marks\<close>

text \<open>
  Closed but for what waits: the one block of a current range of length one, and for containers
  all that waits, unless a range was dropped or the container is one of those still to be scanned.
\<close>

fun trace_closed :: "(nat \<Rightarrow> gc_block) \<Rightarrow> nat set \<Rightarrow> trace_state \<Rightarrow> bool" where
  "trace_closed m K (C, P, A, ov) \<longleftrightarrow>
     (\<forall>a \<in> A. \<not> is_container (g_data (m a)) \<longrightarrow> set (gc_succ m a) \<subseteq> A \<union> (if length C = 1 then set C else {})) \<and>
     (\<not> ov \<longrightarrow> (\<forall>a \<in> A - K. is_container (g_data (m a)) \<longrightarrow> set (gc_succ m a) \<subseteq> A \<union> set C \<union> set P))"

lemma succ_of_next:
  "set (gc_succ m a) \<subseteq> insert a A \<union> set (trace_next m a A)"
  "\<not> is_container (g_data (m a)) \<Longrightarrow>
     set (gc_succ m a) \<subseteq> insert a A \<union> (if length (trace_next m a A) = 1 then set (trace_next m a A) else {})"
proof -
  show "set (gc_succ m a) \<subseteq> insert a A \<union> set (trace_next m a A)" by (auto simp: trace_next_def)
  assume "\<not> is_container (g_data (m a))"
  from trace_next_leaf [of m a A, OF this]
  show "set (gc_succ m a) \<subseteq> insert a A \<union> (if length (trace_next m a A) = 1 then set (trace_next m a A) else {})"
    by (auto split: if_splits)
qed

lemma trace_step_closed: "trace_step m s t \<Longrightarrow> trace_closed m K s \<Longrightarrow> trace_closed m K t"
proof (induction rule: trace_step.induct)
  case (step_pending p P A ov)
  then show ?case using succ_of_next(1) [of m p A] succ_of_next(2) [of m p A] by auto
next
  case (step_current c C P A ov)
  then show ?case using succ_of_next(1) [of m c A] succ_of_next(2) [of m c A] by (fastforce split: if_splits)
next
  case (step_drop C P A ov)
  then show ?case by auto
qed

text \<open>The first step of a call: the first block of its range is scanned.\<close>

lemma trace_first_closed:
  assumes "trace_closed m (insert c K) ([c], [], A, ov)"
  shows "trace_closed m K (trace_next m c A, [], insert c A, ov)"
  using assms succ_of_next(1) [of m c A] succ_of_next(2) [of m c A] by auto

lemma trace_step_grows: "trace_step m (C, P, A, ov) (C', P', A', ov') \<Longrightarrow> A \<subseteq> A' \<and> (ov \<longrightarrow> ov')"
  by (auto elim: trace_stepE)

lemma trace_steps_ok: "(trace_step m)\<^sup>*\<^sup>* s t \<Longrightarrow> gc_graph m U \<Longrightarrow> trace_ok m U s \<Longrightarrow> trace_ok m U t"
  by (induction rule: rtranclp_induct) (auto intro: trace_step_ok)

lemma trace_steps_closed: "(trace_step m)\<^sup>*\<^sup>* s t \<Longrightarrow> trace_closed m K s \<Longrightarrow> trace_closed m K t"
  by (induction rule: rtranclp_induct) (auto intro: trace_step_closed)

lemma trace_steps_grow:
  "(trace_step m)\<^sup>*\<^sup>* s t \<Longrightarrow> fst (snd (snd s)) \<subseteq> fst (snd (snd t)) \<and> (snd (snd (snd s)) \<longrightarrow> snd (snd (snd t)))"
proof (induction rule: rtranclp_induct)
  case (step y z)
  then show ?case using trace_step_grows [of m "fst y" "fst (snd y)" "fst (snd (snd y))" "snd (snd (snd y))"
    "fst z" "fst (snd z)" "fst (snd (snd z))" "snd (snd (snd z))"] by auto
qed simp

text \<open>The marks stay inside of any closed set that holds what is to be visited.\<close>

lemma trace_steps_sound:
  "(trace_step m)\<^sup>*\<^sup>* (C, P, A, ov) (C', P', A', ov') \<Longrightarrow> set C \<union> set P \<union> A \<subseteq> V \<Longrightarrow> (\<forall>a \<in> V. set (gc_succ m a) \<subseteq> V) \<Longrightarrow>
     set C' \<union> set P' \<union> A' \<subseteq> V"
proof (induction "(C', P', A', ov')" arbitrary: C' P' A' ov' rule: rtranclp_induct)
  case (step y)
  obtain D Q B w where y: "y = (D, Q, B, w)" by (cases y)
  have v: "set D \<union> set Q \<union> B \<subseteq> V" using step.hyps(3) [OF y] step.prems by simp
  have "x \<in> V" if "x \<in> set (trace_next m a B)" "a \<in> V" for a x
    using that step.prems(2) trace_next_subset [of m a B] by blast
  then show ?case using step.hyps(2) v by (auto simp: y elim!: trace_stepE)
qed auto

text \<open>Every block of the range of a call is marked when it ends.\<close>

lemma trace_steps_marks:
  "(trace_step m)\<^sup>*\<^sup>* (C, P, A, ov) (C', P', A', ov') \<Longrightarrow> R \<subseteq> A \<union> set P \<Longrightarrow> R \<subseteq> A' \<union> set P'"
proof (induction "(C', P', A', ov')" arbitrary: C' P' A' ov' rule: rtranclp_induct)
  case (step y)
  obtain D Q B w where y: "y = (D, Q, B, w)" by (cases y)
  have "R \<subseteq> B \<union> set Q" using step.hyps(3) [OF y] step.prems by simp
  then show ?case using step.hyps(2) by (auto simp: y elim!: trace_stepE)
qed auto

text \<open>A range is only dropped below a block that was marked on the way.\<close>

lemma trace_steps_progress:
  assumes "(trace_step m)\<^sup>*\<^sup>* s t" and g: "gc_graph m U" and "trace_ok m U s"
    and "s = (C, [], A, False)"
  shows "case t of (C', P', A', ov') \<Rightarrow> (ov' \<or> 1 < length C' \<and> P' \<noteq> [] \<longrightarrow> A \<subset> A')"
  using assms(1,3,4)
proof (induction rule: rtranclp_induct)
  case (step y z)
  obtain D Q B w where y: "y = (D, Q, B, w)" by (cases y)
  obtain D' Q' B' w' where z: "z = (D', Q', B', w')" by (cases z)
  have ih: "w \<or> 1 < length D \<and> Q \<noteq> [] \<longrightarrow> A \<subset> B" using step.IH [OF step.prems] by (simp add: y)
  have ok: "trace_ok m U (D, Q, B, w)" using trace_steps_ok [OF step.hyps(1) g step.prems(1)] by (simp add: y)
  have AB: "A \<subseteq> B" using trace_steps_grow [OF step.hyps(1)] step.prems(2) by (simp add: y)
  have up: "A \<subset> insert c B" if "A \<subset> B" for c using that by blast
  from step.hyps(2) have "w' \<or> 1 < length D' \<and> Q' \<noteq> [] \<longrightarrow> A \<subset> B'"
    unfolding y z
  proof (cases rule: trace_step.cases)
    case (step_pending p)
    then have "\<not> is_container (g_data (m p))" using ok by auto
    then have "length D' \<le> 1" using trace_next_single [of m p B] step_pending by auto
    then show ?thesis using step_pending ih up by simp
  next
    case (step_current c E)
    show ?thesis
    proof (cases "is_container (g_data (m c))")
      case True
      then have "E = []" "c \<notin> B" using ok step_current by auto
      then have "A \<subset> insert c B" using AB by auto
      then show ?thesis using step_current by simp
    next
      case False
      then have "length D' \<le> 1" using trace_next_single [of m c B] step_current by auto
      then show ?thesis using step_current ih up by simp
    qed
  next
    case step_drop
    then show ?thesis using ih by auto
  qed
  then show ?case by (simp add: z)
qed auto

end
