(* ===== verification/NF_GCCall.thy ===== *)
theory NF_GCCall
  imports NF_GCTrace
begin

text \<open>
  One call of the traversal: every turn of its loop is a step over the graph or a write behind the end of
  a mark stack, so the call returns, and when it returns the marked blocks are those of a finished run.
\<close>

section \<open>States of the loop\<close>

definition with_marks :: "(nat \<Rightarrow> gc_block) \<Rightarrow> nat set \<Rightarrow> nat \<Rightarrow> gc_block" where
  "with_marks m A = (\<lambda>a. (m a)\<lparr>g_alive := a \<in> A \<or> a \<in> stale m\<rparr>)"

definition flat :: "(nat \<times> nat) list \<Rightarrow> nat list" where
  "flat ps = concat (map (\<lambda>(p, n). gc_range p n) ps)"

lemma flat_simps [simp]: "flat [] = []" "flat ((p, n) # ps) = gc_range p n @ flat ps"
  by (simp_all add: flat_def)

lemma with_marks_simps [simp]:
  "g_data (with_marks m A a) = g_data (m a)" "g_dataSize (with_marks m A a) = g_dataSize (m a)"
  "g_alive (with_marks m A a) = (a \<in> A \<or> a \<in> stale m)" "g_event (with_marks m A a) = g_event (m a)"
  by (simp_all add: with_marks_def)

lemma with_marks_insert: "(with_marks m A)(a := (with_marks m A a)\<lparr>g_alive := True\<rparr>) = with_marks m (insert a A)"
  by (auto simp: with_marks_def)

definition at_state :: "(nat \<Rightarrow> gc_block) \<Rightarrow> nat \<Rightarrow> nat \<Rightarrow> gc_locals \<Rightarrow> 'h gc_state \<Rightarrow> trace_state \<Rightarrow> bool" where
  "at_state m lst num r g s \<longleftrightarrow> stacks_ok r g \<and> num < 2 ^ 32 \<and>
     (\<exists>A. s = (gc_range lst num, flat (pending r g), A, m_fOutOfStackSpaceForGC g) \<and> gmem g = with_marks m A)"

text \<open>What the stacks may do: a further one needs an allocator that gives one.\<close>

definition may_overrun :: "(nat \<Rightarrow> 'h \<Rightarrow> 'h option) \<Rightarrow> 'h gc_state \<Rightarrow> bool" where
  "may_overrun alloc g \<longleftrightarrow> 1 < length (m_markStackList g) \<or> (\<exists>n h. alloc n h \<noteq> None)"

lemma mark_alive_simps [simp]:
  "gmem h = with_marks m A \<Longrightarrow> gmem (mark_alive a h) = with_marks m (insert a A)"
  "m_markStackList (mark_alive a h) = m_markStackList h" "m_markStack (mark_alive a h) = m_markStack h"
  "m_fOutOfStackSpaceForGC (mark_alive a h) = m_fOutOfStackSpaceForGC h" "gheap (mark_alive a h) = gheap h"
  by (simp_all add: mark_alive_def with_marks_insert)

lemma visit_sub_range:
  assumes "gmem h = with_marks m A"
  shows "gc_range (fst (visit_sub sub h)) (snd (visit_sub sub h)) =
      filter (\<lambda>b. b \<notin> A \<and> b \<notin> stale m) (case sub of None \<Rightarrow> [] | Some b \<Rightarrow> [b])"
    and "snd (visit_sub sub h) < 2 ^ 32"
  using gc_range_Suc [of _ 0] by (auto simp: visit_sub_def assms split: option.splits)

lemma visit_trace_next:
  assumes g: "gc_graph m U" and a: "a \<in> U" and mem: "gmem h = with_marks m A"
  shows "\<exists>e h'. visit a h = Ret (e, h') \<and> gc_range (fst e) (snd e) = trace_next m a A \<and> snd e < 2 ^ 32 \<and>
    gmem h' = with_marks m (insert a A) \<and> m_markStackList h' = m_markStackList h \<and> m_markStack h' = m_markStack h \<and>
    m_fOutOfStackSpaceForGC h' = m_fOutOfStackSpaceForGC h \<and> gheap h' = gheap h"
proof -
  have mk: "gmem (mark_alive a h) = with_marks m (insert a A)" by (simp add: mem)
  have l: "length (gc_succ m a) < 2 ^ 32" "g_data (m a) \<noteq> G_BINARY_BLOB_HEAD True"
    using gc_graphD [OF g a] by auto
  have f: "filter (\<lambda>b. b \<notin> insert a A \<and> b \<notin> stale m) (gc_succ m a) = filter (\<lambda>b. b \<notin> insert a A) (gc_succ m a)"
    if "\<not> is_container (g_data (m a))"
    using gc_graphD(6) [OF g a that] by (intro filter_cong) auto
  show ?thesis
    using l f visit_sub_range [OF mk]
    by (cases "g_data (m a)") (simp_all add: visit_def Let_def mk mem trace_next_def gc_succ_def split: if_splits)
qed

section \<open>A turn of the loop is a step\<close>

lemma at_state_visit:
  assumes g: "gc_graph m U" and a: "a \<in> U" and mem: "gmem h = with_marks m A" and ok: "stacks_ok r h"
  shows "\<exists>lst num h'. visit_next a r h = Ret (Again lst num r h') \<and>
    at_state m lst num r h' (trace_next m a A, flat (pending r h), insert a A, m_fOutOfStackSpaceForGC h) \<and>
    m_markStackList h' = m_markStackList h"
proof -
  obtain e h' where v: "visit a h = Ret (e, h')" "gc_range (fst e) (snd e) = trace_next m a A" "snd e < 2 ^ 32"
    "gmem h' = with_marks m (insert a A)" "m_markStackList h' = m_markStackList h" "m_markStack h' = m_markStack h"
    "m_fOutOfStackSpaceForGC h' = m_fOutOfStackSpaceForGC h"
    using visit_trace_next [OF g a mem] by blast
  have "stacks_ok r h'" using ok v(5,6) by (simp add: stacks_ok_def)
  moreover have "pending r h' = pending r h" using v(5) by (simp add: pending_def below_def)
  ultimately have "at_state m (fst e) (snd e) r h' (trace_next m a A, flat (pending r h), insert a A, m_fOutOfStackSpaceForGC h)"
    using v by (simp add: at_state_def)
  then show ?thesis using v(1,5) by (intro exI [of _ "fst e"] exI [of _ "snd e"] exI [of _ h'])
    (simp add: visit_next_def split_beta)
qed

lemma mark_turn_step:
  assumes g: "gc_graph m U" and at: "at_state m lst num r h s" and ok: "set (gc_range lst num) \<union> set (flat (pending r h)) \<subseteq> U"
  shows "(mark_turn alloc lst num r h = Fault BadIndex \<and> may_overrun alloc h) \<or>
    (mark_turn alloc lst num r h = Ret (Finished (r, h)) \<and> pending r h = [] \<and> num = 0) \<or>
    (\<exists>lst' num' r' h' s'. mark_turn alloc lst num r h = Ret (Again lst' num' r' h') \<and> trace_step m s s' \<and>
       at_state m lst' num' r' h' s' \<and> (may_overrun alloc h' \<longrightarrow> may_overrun alloc h))"
proof -
  define ov where "ov = m_fOutOfStackSpaceForGC h"
  obtain A where s: "s = (gc_range lst num, flat (pending r h), A, ov)" and mem: "gmem h = with_marks m A"
    using at by (auto simp: at_state_def ov_def)
  have st: "stacks_ok r h" and n32: "num < 2 ^ 32" using at by (simp_all add: at_state_def)
  consider "num = 0" "pending r h = []" | "num = 0" "pending r h \<noteq> []" | "num = 1" | "1 < num" by linarith
  then show ?thesis
  proof cases
    case 1
    then show ?thesis using next_pending_none [OF st] by (simp add: mark_turn_def)
  next
    case 2
    obtain p n ps r' h1 where np: "pending r h = (p, n) # ps" "0 < n" "next_pending r h = Ret (Some (p, r', h1))"
      "stacks_ok r' h1" "pending r' h1 = (if n = 1 then ps else (p + sizeof_CLR_RT_HeapBlock, n - 1) # ps)"
      "quiet h1 h" "length (m_markStackList h1) = length (m_markStackList h)"
      using next_pending_some [OF st 2(2)] by (elim exE conjE) (rule that)
    have f: "flat (pending r h) = p # flat (pending r' h1)"
      using np(1,2,5) by (cases "n = 1") (simp_all add: gc_range_pos)
    have s': "s = ([], p # flat (pending r' h1), A, ov)" using 2(1) by (simp add: s f)
    have p: "p \<in> U" using ok f by simp
    have m1: "gmem h1 = with_marks m A" "m_fOutOfStackSpaceForGC h1 = ov"
      using np(6) mem by (simp_all add: quiet_def same_heap_def ov_def)
    obtain lst' num' h' where v: "visit_next p r' h1 = Ret (Again lst' num' r' h')"
      "at_state m lst' num' r' h' (trace_next m p A, flat (pending r' h1), insert p A, ov)"
      "m_markStackList h' = m_markStackList h1"
      using at_state_visit [OF g p m1(1) np(4)] m1(2) by auto
    have "trace_step m s (trace_next m p A, flat (pending r' h1), insert p A, ov)"
      unfolding s' by (rule step_pending)
    then show ?thesis using v np(3,7) 2(1) by (simp add: mark_turn_def may_overrun_def) blast
  next
    case 3
    have s': "s = ([lst], flat (pending r h), A, ov)" using 3 gc_range_pos [of 1 lst] by (simp add: s)
    have l: "lst \<in> U" using ok 3 gc_range_pos [of 1 lst] by simp
    obtain lst' num' h' where v: "visit_next lst r h = Ret (Again lst' num' r h')"
      "at_state m lst' num' r h' (trace_next m lst A, flat (pending r h), insert lst A, ov)"
      "m_markStackList h' = m_markStackList h"
      using at_state_visit [OF g l mem st] by (auto simp: ov_def)
    have "trace_step m s (trace_next m lst A, [] @ flat (pending r h), insert lst A, ov)"
      unfolding s' by (rule step_current)
    then show ?thesis using v 3 by (simp add: mark_turn_def may_overrun_def) blast
  next
    case 4
    let ?e = "(lst + sizeof_CLR_RT_HeapBlock, num - 1)"
    have C: "gc_range lst num = lst # gc_range (lst + sizeof_CLR_RT_HeapBlock) (num - 1)" using 4 by (intro gc_range_pos) simp
    have s': "s = (lst # gc_range (lst + sizeof_CLR_RT_HeapBlock) (num - 1), flat (pending r h), A, ov)" by (simp add: s C)
    have l: "lst \<in> U" using ok C by simp
    have e: "0 < snd ?e" "snd ?e < 2 ^ 32" using 4 n32 by auto
    from push_range [OF st e, of alloc]
    consider (overrun) r' h1 x where "make_room alloc r h = (Some (r', h1), x)"
        "write_element ?e (r'\<lparr>stack := stack r' + 1\<rparr>) h1 = Fault BadIndex"
        "1 < length (m_markStackList h) \<or> (\<exists>n h. alloc n h \<noteq> None)"
      | (dropped) "make_room alloc r h = (None, h\<lparr>m_fOutOfStackSpaceForGC := True\<rparr>)" "pending r h \<noteq> []"
      | (pushed) r' h1 x h2 where "make_room alloc r h = (Some (r', h1), x)"
        "write_element ?e (r'\<lparr>stack := stack r' + 1\<rparr>) h1 = Ret h2" "stacks_ok (r'\<lparr>stack := stack r' + 1\<rparr>) h2"
        "pending (r'\<lparr>stack := stack r' + 1\<rparr>) h2 = ?e # pending r h" "quiet h2 h"
        "length (m_markStackList h2) = length (m_markStackList h) \<or> (\<exists>n h. alloc n h \<noteq> None)"
      by (elim disjE [where R = thesis] exE conjE) metis+
    then show ?thesis
    proof cases
      case overrun
      then show ?thesis using 4 by (simp add: mark_turn_def may_overrun_def Let_def)
    next
      case dropped
      note m = dropped(1) and ne = dropped(2)
      let ?h = "h\<lparr>m_fOutOfStackSpaceForGC := True\<rparr>"
      have fl: "flat (pending r h) \<noteq> []"
        using next_pending_some [OF st ne] by (auto simp: gc_range_pos)
      have "trace_step m s ([], flat (pending r h), A, True)"
        unfolding s using 4 fl by (intro step_drop) auto
      moreover have "pending r ?h = pending r h" "stacks_ok r ?h"
        using st by (simp_all add: pending_def below_def stacks_ok_def)
      then have "at_state m 0 0 r ?h ([], flat (pending r h), A, True)"
        using mem by (simp add: at_state_def)
      moreover have "mark_turn alloc lst num r h = Ret (Again 0 0 r ?h)" using m 4 by (simp add: mark_turn_def)
      ultimately show ?thesis by (auto simp: may_overrun_def)
    next
      case pushed
      note m = pushed(1) and w = pushed(2) and st2 = pushed(3) and pe = pushed(4) and q = pushed(5) and len = pushed(6)
      let ?r = "r'\<lparr>stack := stack r' + 1\<rparr>"
      have m2: "gmem h2 = with_marks m A" "m_fOutOfStackSpaceForGC h2 = ov"
        using q mem by (simp_all add: quiet_def same_heap_def ov_def)
      obtain lst' num' h' where v: "visit_next lst ?r h2 = Ret (Again lst' num' ?r h')"
        "at_state m lst' num' ?r h' (trace_next m lst A, flat (pending ?r h2), insert lst A, ov)"
        "m_markStackList h' = m_markStackList h2"
        using at_state_visit [OF g l m2(1) st2] m2(2) by auto
      have "trace_step m s (trace_next m lst A, flat (pending ?r h2), insert lst A, ov)"
        unfolding s' pe flat_simps by (rule step_current)
      moreover have "mark_turn alloc lst num r h = Ret (Again lst' num' ?r h')"
        using m w v(1) 4 by (simp add: mark_turn_def Let_def)
      moreover have "may_overrun alloc h' \<longrightarrow> may_overrun alloc h" using len v(3) by (auto simp: may_overrun_def)
      ultimately show ?thesis using v(2) by blast
    qed
  qed
qed

section \<open>The whole loop\<close>

lemma at_state_sub: "at_state m lst num r h s \<Longrightarrow> trace_ok m U s \<Longrightarrow> set (gc_range lst num) \<union> set (flat (pending r h)) \<subseteq> U"
  by (auto simp: at_state_def)

lemma mark_loop_run:
  assumes g: "gc_graph m U"
  shows "at_state m lst num r h s \<Longrightarrow> trace_ok m U s \<Longrightarrow>
    (mark_loop alloc lst num r h = Some (Fault BadIndex) \<and> may_overrun alloc h) \<or>
    (\<exists>r' h' A' ov'. mark_loop alloc lst num r h = Some (Ret (r', h')) \<and> (trace_step m)\<^sup>*\<^sup>* s ([], [], A', ov') \<and>
       at_state m 0 0 r' h' ([], [], A', ov') \<and> pending r' h' = [] \<and> (may_overrun alloc h' \<longrightarrow> may_overrun alloc h))"
proof (induction "trace_measure U s" arbitrary: lst num r h s rule: wf_induct_rule [OF wf_lex_prod [OF wf_less_than wf_less_than]])
  case 1
  note at = "1.prems"(1) and ok = "1.prems"(2)
  from mark_turn_step [OF g at at_state_sub [OF at ok], of alloc] show ?case
  proof (elim disjE)
    assume "mark_turn alloc lst num r h = Fault BadIndex \<and> may_overrun alloc h"
    then show ?thesis by (subst mark_loop.simps) simp
  next
    assume f: "mark_turn alloc lst num r h = Ret (Finished (r, h)) \<and> pending r h = [] \<and> num = 0"
    then have t: "mark_turn alloc lst num r h = Ret (Finished (r, h))" by (rule conjunct1)
    have "mark_loop alloc lst num r h = Some (Ret (r, h))" by (subst mark_loop.simps) (simp add: t)
    moreover obtain A where "s = ([], [], A, m_fOutOfStackSpaceForGC h)" using at f by (auto simp: at_state_def)
    ultimately show ?thesis using f at by (auto simp: at_state_def)
  next
    assume "\<exists>lst' num' r' h' s'. mark_turn alloc lst num r h = Ret (Again lst' num' r' h') \<and> trace_step m s s' \<and>
       at_state m lst' num' r' h' s' \<and> (may_overrun alloc h' \<longrightarrow> may_overrun alloc h)"
    then obtain lst' num' r' h' s' where t: "mark_turn alloc lst num r h = Ret (Again lst' num' r' h')"
      "trace_step m s s'" "at_state m lst' num' r' h' s'" "may_overrun alloc h' \<longrightarrow> may_overrun alloc h"
      by (elim exE conjE) (rule that)
    have e: "mark_loop alloc lst num r h = mark_loop alloc lst' num' r' h'"
      using t(1) by (subst mark_loop.simps) simp
    from "1.hyps" [OF trace_step_decreases [OF t(2) g ok] t(3) trace_step_ok [OF t(2) g ok]]
    show ?thesis unfolding e using t(2,4) by (meson converse_rtranclp_into_rtranclp)
  qed
qed

section \<open>A call\<close>

text \<open>Between the calls nothing is pending and the first stack is the current one.\<close>

definition gc_idle :: "(nat \<Rightarrow> gc_block) \<Rightarrow> nat set \<Rightarrow> bool \<Rightarrow> 'h gc_state \<Rightarrow> bool" where
  "gc_idle m A ov g \<longleftrightarrow> stacks_ok (LOADSTATE g) g \<and> pending (LOADSTATE g) g = [] \<and> gmem g = with_marks m A \<and>
     m_fOutOfStackSpaceForGC g = ov"

lemma idle_at_state:
  "gc_idle m A ov g \<Longrightarrow> num < 2 ^ 32 \<Longrightarrow> at_state m lst num (LOADSTATE g) g (gc_range lst num, [], A, ov)"
  by (simp add: gc_idle_def at_state_def)

lemma save_idle:
  assumes "at_state m 0 0 r h ([], [], A, ov)" and "pending r h = []"
  shows "gc_idle m A ov (SAVESTATE r h) \<and> length (m_markStackList (SAVESTATE r h)) = length (m_markStackList h)"
proof -
  have st: "stacks_ok r h" "m_fOutOfStackSpaceForGC h = ov" "gmem h = with_marks m A"
    using assms by (auto simp: at_state_def)
  have z: "stackList r = 0" "stack r = 0" using assms(2) pending_empty [OF st(1)] by auto
  have h: "m_markStack h = 0" "0 < length (m_markStackList h)" using st(1) z by (auto simp: stacks_ok_def)
  define s where "s = (m_markStackList h ! 0)\<lparr>m_last := stackLast r, m_top := 0\<rparr>"
  have s0: "m_markStackList (SAVESTATE r h) ! 0 = s" "m_markStack (SAVESTATE r h) = 0"
    using h z by (simp_all add: SAVESTATE_def s_def)
  have l: "LOADSTATE (SAVESTATE r h) = \<lparr>stackList = 0, stackLast = stackLast r, stack = 0\<rparr>"
    using s0 by (simp add: LOADSTATE_def Let_def s_def)
  have ok: "stack_ok s 0" "1 < length (elements s)" "stackLast r = m_last s"
    using st(1) z by (auto simp: stacks_ok_def s_def stack_ok_def)
  have "stacks_ok (LOADSTATE (SAVESTATE r h)) (SAVESTATE r h)"
    unfolding l stacks_ok_def using s0 h ok by (simp add: SAVESTATE_def)
  moreover have "pending (LOADSTATE (SAVESTATE r h)) (SAVESTATE r h) = []" by (simp add: pending_def l)
  ultimately show ?thesis using st(2,3) by (simp add: gc_idle_def SAVESTATE_def)
qed

text \<open>What a call makes of the marks.\<close>

definition gc_called :: "(nat \<Rightarrow> gc_block) \<Rightarrow> nat list \<Rightarrow> nat set \<Rightarrow> bool \<Rightarrow> nat set \<Rightarrow> bool \<Rightarrow> bool" where
  "gc_called m R A ov A' ov' \<longleftrightarrow> A \<union> set R \<subseteq> A' \<and> (ov \<longrightarrow> ov') \<and> (\<not> ov \<longrightarrow> ov' \<longrightarrow> A \<subset> A') \<and>
     (\<forall>V. A \<union> set R \<subseteq> V \<longrightarrow> (\<forall>a \<in> V. set (gc_succ m a) \<subseteq> V) \<longrightarrow> A' \<subseteq> V) \<and>
     (\<forall>K. trace_closed m (if length R = 1 then K \<union> set R else K) ([], [], A, ov) \<longrightarrow> trace_closed m K ([], [], A', ov'))"

lemma closed_range: "trace_closed m K ([], [], A, ov) \<Longrightarrow> trace_closed m K (R, [], A, ov)"
  by auto

lemma run_called:
  assumes g: "gc_graph m U" and ok: "trace_ok m U (R, [], A, ov)" and R: "length R \<noteq> 1"
    and run: "(trace_step m)\<^sup>*\<^sup>* (R, [], A, ov) ([], [], A', ov')"
  shows "gc_called m R A ov A' ov'"
proof -
  have up: "A \<subseteq> A'" "ov \<longrightarrow> ov'" using trace_steps_grow [OF run] by auto
  have "set R \<subseteq> A'"
  proof (cases R)
    case (Cons c C)
    from run obtain y where y: "trace_step m (R, [], A, ov) y" "(trace_step m)\<^sup>*\<^sup>* y ([], [], A', ov')"
      using Cons by (cases rule: converse_rtranclpE) auto
    then have "y = (trace_next m c A, C, insert c A, ov)" by (auto simp: Cons elim: trace_stepE)
    then show ?thesis using trace_steps_marks [of m _ _ _ _ _ _ A' ov' "set R"] y(2) by (fastforce simp: Cons)
  qed simp
  moreover have "A \<subset> A'" if "\<not> ov" "ov'" using trace_steps_progress [OF run g ok, of R A] that by auto
  moreover have "A' \<subseteq> V" if "A \<union> set R \<subseteq> V" "\<forall>a \<in> V. set (gc_succ m a) \<subseteq> V" for V
    using trace_steps_sound [OF run, of V] that by auto
  moreover have "trace_closed m K ([], [], A', ov')" if "trace_closed m K ([], [], A, ov)" for K
    using trace_steps_closed [OF run closed_range [OF that]] .
  ultimately show ?thesis using up R by (simp add: gc_called_def del: trace_closed.simps)
qed

text \<open>A call on one block scans it, even when it is marked already.\<close>

lemma run_called_single:
  assumes g: "gc_graph m U" and c: "c \<in> U"
    and run: "(trace_step m)\<^sup>*\<^sup>* (trace_next m c A, [], insert c A, ov) ([], [], A', ov')"
  shows "gc_called m [c] A ov A' ov'"
proof -
  let ?s = "(trace_next m c A, [], insert c A, ov)"
  have ok: "trace_ok m U ?s" by (rule trace_next_ok [OF g c]) simp_all
  have up: "insert c A \<subseteq> A'" "ov \<longrightarrow> ov'" using trace_steps_grow [OF run] by auto
  have "A \<subset> A'" if "\<not> ov" "ov'"
    using trace_steps_progress [OF run g ok, of "trace_next m c A" "insert c A"] that by auto
  moreover have "A' \<subseteq> V" if V: "A \<union> {c} \<subseteq> V" "\<forall>a \<in> V. set (gc_succ m a) \<subseteq> V" for V
  proof -
    have "set (trace_next m c A) \<subseteq> V" using V trace_next_subset [of m c A] by blast
    then show ?thesis using trace_steps_sound [OF run, of V] V by auto
  qed
  moreover have "trace_closed m K ([], [], A', ov')" if K: "trace_closed m (K \<union> {c}) ([], [], A, ov)" for K
  proof -
    have "trace_closed m (insert c K) ([c], [], A, ov)" using closed_range [OF K, of "[c]"] by simp
    from trace_steps_closed [OF run trace_first_closed [OF this]] show ?thesis .
  qed
  ultimately show ?thesis using up by (simp add: gc_called_def del: trace_closed.simps)
qed

theorem ComputeReachabilityGraph_call:
  assumes g: "gc_graph m U" and idle: "gc_idle m A ov h" and num: "num < 2 ^ 32" and R: "set (gc_range lst num) \<subseteq> U"
    and cells: "num \<noteq> 1 \<Longrightarrow> \<forall>c \<in> set (gc_range lst num). \<not> is_container (g_data (m c))"
  shows "(ComputeReachabilityGraphForMultipleBlocks alloc lst num h = Some (Fault BadIndex) \<and> may_overrun alloc h) \<or>
    (\<exists>h' A' ov'. ComputeReachabilityGraphForMultipleBlocks alloc lst num h = Some (Ret h') \<and> gc_idle m A' ov' h' \<and>
       gc_called m (gc_range lst num) A ov A' ov' \<and> (may_overrun alloc h' \<longrightarrow> may_overrun alloc h))"
proof -
  let ?r = "LOADSTATE h" and ?R = "gc_range lst num"
  note at = idle_at_state [OF idle num, of lst]
  have p: "flat (pending ?r h) = []" using idle by (simp add: gc_idle_def)
  have called: "\<exists>h2 A' ov'. map_option (\<lambda>res. c_bind res (\<lambda>(r, g). Ret (SAVESTATE r g))) x = Some (Ret h2) \<and>
      gc_idle m A' ov' h2 \<and> gc_called m ?R A ov A' ov' \<and> (may_overrun alloc h2 \<longrightarrow> may_overrun alloc h)"
    if "x = Some (Ret (r', h'))" "at_state m 0 0 r' h' ([], [], A', ov')" "pending r' h' = []"
      "may_overrun alloc h' \<longrightarrow> may_overrun alloc h" "gc_called m ?R A ov A' ov'" for x r' h' A' ov'
    using that save_idle [OF that(2,3)] by (auto simp: may_overrun_def)
  show ?thesis
  proof (cases "num = 1")
    case False
    then have ok: "trace_ok m U (?R, [], A, ov)" using R cells by auto
    from mark_loop_run [OF g at ok, of alloc]
    consider "mark_loop alloc lst num ?r h = Some (Fault BadIndex)" "may_overrun alloc h"
      | r' h' A' ov' where "mark_loop alloc lst num ?r h = Some (Ret (r', h'))"
        "(trace_step m)\<^sup>*\<^sup>* (?R, [], A, ov) ([], [], A', ov')" "at_state m 0 0 r' h' ([], [], A', ov')"
        "pending r' h' = []" "may_overrun alloc h' \<longrightarrow> may_overrun alloc h" by metis
    then show ?thesis
    proof cases
      case 2
      have "gc_called m ?R A ov A' ov'" using run_called [OF g ok _ 2(2)] False by simp
      then show ?thesis
        unfolding ComputeReachabilityGraphForMultipleBlocks_def using called [OF 2(1,3-5)] by blast
    qed (simp add: ComputeReachabilityGraphForMultipleBlocks_def)
  next
    case True
    then have Rl: "?R = [lst]" using gc_range_pos [of 1 lst] by simp
    have lU: "lst \<in> U" using R Rl by simp
    have st: "stacks_ok ?r h" "gmem h = with_marks m A" "m_fOutOfStackSpaceForGC h = ov"
      using idle by (simp_all add: gc_idle_def)
    obtain lst' num' h1 where v: "visit_next lst ?r h = Ret (Again lst' num' ?r h1)"
      "at_state m lst' num' ?r h1 (trace_next m lst A, [], insert lst A, ov)" "m_markStackList h1 = m_markStackList h"
      using at_state_visit [OF g lU st(2,1)] st(3) p by auto
    have e: "mark_loop alloc lst num ?r h = mark_loop alloc lst' num' ?r h1"
      using v(1) True by (subst mark_loop.simps) (simp add: mark_turn_def)
    have ok: "trace_ok m U (trace_next m lst A, [], insert lst A, ov)" by (rule trace_next_ok [OF g lU]) simp_all
    have ov1: "may_overrun alloc h1 = may_overrun alloc h" by (simp add: may_overrun_def v(3))
    from mark_loop_run [OF g v(2) ok, of alloc]
    consider "mark_loop alloc lst num ?r h = Some (Fault BadIndex)" "may_overrun alloc h"
      | r' h' A' ov' where "mark_loop alloc lst num ?r h = Some (Ret (r', h'))"
        "(trace_step m)\<^sup>*\<^sup>* (trace_next m lst A, [], insert lst A, ov) ([], [], A', ov')"
        "at_state m 0 0 r' h' ([], [], A', ov')" "pending r' h' = []" "may_overrun alloc h' \<longrightarrow> may_overrun alloc h"
      unfolding e ov1 by metis
    then show ?thesis
    proof cases
      case 2
      have "gc_called m ?R A ov A' ov'" unfolding Rl by (rule run_called_single [OF g lU 2(2)])
      then show ?thesis
        unfolding ComputeReachabilityGraphForMultipleBlocks_def using called [OF 2(1,3-5)] by blast
    qed (simp add: ComputeReachabilityGraphForMultipleBlocks_def)
  qed
qed

end
