(* ===== verification/NF_GC.thy ===== *)
theory NF_GC
  imports NF_GCCall
begin

text \<open>
  The mark phase as a whole: the calls on the roots, the rescans of the heap while ranges are dropped, and
  the objects with a finalizer. It marks exactly the blocks that can be reached, unless it writes behind
  the end of a mark stack.
\<close>

section \<open>Several calls\<close>

definition gc_marked :: "(nat \<Rightarrow> gc_block) \<Rightarrow> nat set \<Rightarrow> nat set \<Rightarrow> bool \<Rightarrow> nat set \<Rightarrow> bool \<Rightarrow> bool" where
  "gc_marked m R A ov A' ov' \<longleftrightarrow> A \<union> R \<subseteq> A' \<and> (ov \<longrightarrow> ov') \<and> (\<not> ov \<longrightarrow> ov' \<longrightarrow> A \<subset> A') \<and>
     (\<forall>V. A \<union> R \<subseteq> V \<longrightarrow> (\<forall>a \<in> V. set (gc_succ m a) \<subseteq> V) \<longrightarrow> A' \<subseteq> V)"

declare trace_closed.simps [simp del]

lemma gc_called_marked: "gc_called m R A ov A' ov' \<Longrightarrow> gc_marked m (set R) A ov A' ov'"
  by (simp add: gc_called_def gc_marked_def)

lemma gc_marked_none [simp]: "gc_marked m {} A ov A ov"
  by (auto simp: gc_marked_def)

lemma gc_markedD:
  assumes "gc_marked m R A ov A' ov'"
  shows "A \<union> R \<subseteq> A'" "ov \<Longrightarrow> ov'" "\<not> ov \<Longrightarrow> ov' \<Longrightarrow> A \<subset> A'"
    "A \<union> R \<subseteq> V \<Longrightarrow> \<forall>a \<in> V. set (gc_succ m a) \<subseteq> V \<Longrightarrow> A' \<subseteq> V"
  using assms by (simp_all add: gc_marked_def)

lemma gc_marked_trans:
  assumes 1: "gc_marked m R A ov A' ov'" and 2: "gc_marked m S A' ov' A'' ov''"
  shows "gc_marked m (R \<union> S) A ov A'' ov''"
  unfolding gc_marked_def
proof (intro conjI impI allI)
  show "A \<union> (R \<union> S) \<subseteq> A''" using gc_markedD(1) [OF 1] gc_markedD(1) [OF 2] by auto
  show "ov''" if ov using that gc_markedD(2) [OF 1] gc_markedD(2) [OF 2] by simp
  show "A \<subset> A''" if "\<not> ov" "ov''"
  proof (cases ov')
    case True
    then show ?thesis using gc_markedD(3) [OF 1 that(1)] gc_markedD(1) [OF 2] by blast
  next
    case False
    then show ?thesis using gc_markedD(1) [OF 1] gc_markedD(3) [OF 2 _ that(2)] by blast
  qed
  show "A'' \<subseteq> V" if "A \<union> (R \<union> S) \<subseteq> V" "\<forall>a \<in> V. set (gc_succ m a) \<subseteq> V" for V
  proof -
    have "A' \<subseteq> V" using that by (intro gc_markedD(4) [OF 1]) simp_all
    then show ?thesis using that by (intro gc_markedD(4) [OF 2]) simp_all
  qed
qed

lemma trace_closed_mono: "trace_closed m K s \<Longrightarrow> K \<subseteq> L \<Longrightarrow> trace_closed m L s"
  by (cases s) (auto simp: trace_closed.simps)

section \<open>The roots\<close>

fun check_roots :: "gc_check \<Rightarrow> nat list" where
  "check_roots (CheckSingleBlock ptr) = (case ptr of None \<Rightarrow> [] | Some a \<Rightarrow> [a])"
| "check_roots (CheckSingleBlock_Force ptr) = (case ptr of None \<Rightarrow> [] | Some a \<Rightarrow> [a])"
| "check_roots (CheckMultipleBlocks lst num) = (case lst of None \<Rightarrow> [] | Some a \<Rightarrow> gc_range a num)"

text \<open>The slots of a frame hold values and references, and a block that is only visited unmarked has no old mark.\<close>

definition check_ok :: "(nat \<Rightarrow> gc_block) \<Rightarrow> gc_check \<Rightarrow> bool" where
  "check_ok m c \<longleftrightarrow> length (check_roots c) < 2 ^ 32 \<and> (\<forall>a. c = CheckSingleBlock (Some a) \<longrightarrow> a \<notin> stale m) \<and>
     (length (check_roots c) \<noteq> 1 \<longrightarrow> (\<forall>a \<in> set (check_roots c). \<not> is_container (g_data (m a))))"

definition all_roots :: "gc_check list \<Rightarrow> nat set" where
  "all_roots cs = \<Union> ((\<lambda>c. set (check_roots c)) ` set cs)"

definition gc_returns ::
    "(nat \<Rightarrow> 'h \<Rightarrow> 'h option) \<Rightarrow> (nat \<Rightarrow> gc_block) \<Rightarrow> nat set \<Rightarrow> nat set \<Rightarrow> bool \<Rightarrow> 'h gc_state \<Rightarrow>
       'h gc_state c_result option \<Rightarrow> bool" where
  "gc_returns alloc m R A ov g res \<longleftrightarrow>
     (res = Some (Fault BadIndex) \<and> may_overrun alloc g) \<or>
     (\<exists>g' A' ov'. res = Some (Ret g') \<and> gc_idle m A' ov' g' \<and> gc_marked m R A ov A' ov' \<and>
        (may_overrun alloc g' \<longrightarrow> may_overrun alloc g) \<and>
        (trace_closed m {} ([], [], A, ov) \<longrightarrow> trace_closed m {} ([], [], A', ov')))"

lemma gc_returns_id: "gc_idle m A ov g \<Longrightarrow> R \<subseteq> A \<Longrightarrow> gc_returns alloc m R A ov g (Some (Ret g))"
  unfolding gc_returns_def by (intro disjI2 exI [of _ g] exI [of _ A] exI [of _ ov]) (auto simp: gc_marked_def)

lemma run_check_returns:
  assumes g: "gc_graph m U" and idle: "gc_idle m A ov g" and ok: "check_ok m c" and U: "set (check_roots c) \<subseteq> U"
  shows "gc_returns alloc m (set (check_roots c)) A ov g (run_check alloc c g)"
proof -
  have keep: "gc_returns alloc m R A ov g (Some (Ret g))" if "R \<subseteq> A" for R
    using idle that by (rule gc_returns_id)
  have call: "gc_returns alloc m (set (gc_range a num)) A ov g (ComputeReachabilityGraphForMultipleBlocks alloc a num g)"
    if "num < 2 ^ 32" "set (gc_range a num) \<subseteq> U" "num \<noteq> 1 \<Longrightarrow> \<forall>b \<in> set (gc_range a num). \<not> is_container (g_data (m b))"
    for a num
  proof -
    have "trace_closed m {} ([], [], A', ov')"
      if "gc_called m (gc_range a num) A ov A' ov'" "trace_closed m {} ([], [], A, ov)" for A' ov'
      using that(1) trace_closed_mono [OF that(2)] unfolding gc_called_def by (metis empty_subsetI)
    then show ?thesis
      using ComputeReachabilityGraph_call [OF g idle that, of alloc] gc_called_marked
      unfolding gc_returns_def by metis
  qed
  have call1: "gc_returns alloc m {a} A ov g (ComputeReachabilityGraphForMultipleBlocks alloc a 1 g)" if "a \<in> U" for a
    using call [of 1 a] that gc_range_pos [of 1 a] by simp
  show ?thesis
  proof (cases c)
    case (CheckSingleBlock ptr)
    then show ?thesis
      using keep call1 U idle ok
      by (auto simp: ComputeReachabilityGraphForSingleBlock_def gc_idle_def check_ok_def split: option.splits)
  next
    case (CheckSingleBlock_Force ptr)
    then show ?thesis using keep call1 U by (auto split: option.splits)
  next
    case (CheckMultipleBlocks lst num)
    then show ?thesis using keep call [of num] U ok by (auto simp: check_ok_def split: option.splits)
  qed
qed

lemma gc_returns_bind:
  assumes "gc_returns alloc m R A ov g res"
    and "\<And>g' A' ov'. gc_idle m A' ov' g' \<Longrightarrow> A \<subseteq> A' \<Longrightarrow> gc_returns alloc m S A' ov' g' (f g')"
  shows "gc_returns alloc m (R \<union> S) A ov g (oc_bind res f)"
  using assms(1) unfolding gc_returns_def [of _ _ R]
proof (elim disjE exE conjE)
  fix g' A' ov'
  assume r: "res = Some (Ret g')" and i: "gc_idle m A' ov' g'" and mk: "gc_marked m R A ov A' ov'"
    and o: "may_overrun alloc g' \<longrightarrow> may_overrun alloc g"
    and cl: "trace_closed m {} ([], [], A, ov) \<longrightarrow> trace_closed m {} ([], [], A', ov')"
  have "A \<subseteq> A'" using mk by (auto simp: gc_marked_def)
  from assms(2) [OF i this] show ?thesis
    using r o cl gc_marked_trans [OF mk] unfolding gc_returns_def by fastforce
qed (simp add: gc_returns_def)

lemma run_checks_return:
  assumes g: "gc_graph m U"
  shows "gc_idle m A ov h \<Longrightarrow> \<forall>c \<in> set cs. check_ok m c \<Longrightarrow> all_roots cs \<subseteq> U \<Longrightarrow>
    gc_returns alloc m (all_roots cs) A ov h (run_checks alloc cs h)"
proof (induction cs arbitrary: A ov h)
  case Nil
  then show ?case by (simp add: all_roots_def gc_returns_id)
next
  case (Cons c cs)
  have "gc_returns alloc m (set (check_roots c) \<union> all_roots cs) A ov h (oc_bind (run_check alloc c h) (run_checks alloc cs))"
    using Cons.prems
    by (intro gc_returns_bind run_check_returns [OF g] Cons.IH) (auto simp: all_roots_def)
  then show ?case by (simp add: all_roots_def)
qed

section \<open>Rescanning the heap\<close>

fun gc_tiles :: "(nat \<Rightarrow> gc_block) \<Rightarrow> nat \<Rightarrow> nat list \<Rightarrow> nat \<Rightarrow> bool" where
  "gc_tiles m a [] e \<longleftrightarrow> a = e"
| "gc_tiles m a (b # bs) e \<longleftrightarrow> b = a \<and> 0 < g_dataSize (m a) \<and> gc_tiles m (a + g_dataSize (m a) * sizeof_CLR_RT_HeapBlock) bs e"

lemma gc_tiles_le: "gc_tiles m a bs e \<Longrightarrow> a \<le> e"
  by (induction bs arbitrary: a) (auto dest: add_leD1)

lemma gc_tiles_less: "gc_tiles m a (b # bs) e \<Longrightarrow> a < e"
  using gc_tiles_le [of m "a + g_dataSize (m a) * sizeof_CLR_RT_HeapBlock" bs e] by (auto simp: sizeof_CLR_RT_HeapBlock_def)

definition gc_scan :: "(nat \<Rightarrow> 'h \<Rightarrow> 'h option) \<Rightarrow> (nat \<Rightarrow> gc_block) \<Rightarrow> nat set \<Rightarrow> nat set \<Rightarrow> nat set \<Rightarrow> bool \<Rightarrow> 'h gc_state \<Rightarrow>
       'h gc_state c_result option \<Rightarrow> bool" where
  "gc_scan alloc m K L A ov g res \<longleftrightarrow>
     (res = Some (Fault BadIndex) \<and> may_overrun alloc g) \<or>
     (\<exists>g' A' ov'. res = Some (Ret g') \<and> gc_idle m A' ov' g' \<and> gc_marked m {} A ov A' ov' \<and>
        (may_overrun alloc g' \<longrightarrow> may_overrun alloc g) \<and>
        (trace_closed m K ([], [], A, ov) \<longrightarrow> trace_closed m L ([], [], A', ov')))"

lemma gc_scan_id:
  "gc_idle m A ov g \<Longrightarrow> (trace_closed m K ([], [], A, ov) \<Longrightarrow> trace_closed m L ([], [], A, ov)) \<Longrightarrow>
     gc_scan alloc m K L A ov g (Some (Ret g))"
  unfolding gc_scan_def by (intro disjI2 exI [of _ g] exI [of _ A] exI [of _ ov]) simp

lemma gc_scan_trans:
  assumes "gc_scan alloc m K L A ov g (Some res)"
    and "\<And>g' A' ov'. res = Ret g' \<Longrightarrow> gc_idle m A' ov' g' \<Longrightarrow> A' \<subseteq> U \<Longrightarrow> gc_scan alloc m L L' A' ov' g' (f g')"
    and "A \<subseteq> U" and "\<forall>a \<in> U. set (gc_succ m a) \<subseteq> U"
  shows "gc_scan alloc m K L' A ov g (case res of Inl e \<Rightarrow> Some (Inl e) | Inr g' \<Rightarrow> f g')"
proof -
  from assms(1) consider "res = Fault BadIndex" "may_overrun alloc g"
    | g' A' ov' where "res = Ret g'" "gc_idle m A' ov' g'" "gc_marked m {} A ov A' ov'"
      "may_overrun alloc g' \<longrightarrow> may_overrun alloc g"
      "trace_closed m K ([], [], A, ov) \<longrightarrow> trace_closed m L ([], [], A', ov')"
    unfolding gc_scan_def by blast
  then show ?thesis
  proof cases
    case 2
    have "A' \<subseteq> U" using 2(3) assms(3,4) unfolding gc_marked_def by blast
    from assms(2) [OF 2(1,2) this]
    consider "f g' = Some (Fault BadIndex)" "may_overrun alloc g'"
      | g2 A2 ov2 where "f g' = Some (Ret g2)" "gc_idle m A2 ov2 g2" "gc_marked m {} A' ov' A2 ov2"
        "may_overrun alloc g2 \<longrightarrow> may_overrun alloc g'"
        "trace_closed m L ([], [], A', ov') \<longrightarrow> trace_closed m L' ([], [], A2, ov2)"
      unfolding gc_scan_def by blast
    then show ?thesis
    proof cases
      case 2
      note 3 = 2
      have "gc_marked m {} A ov A2 ov2" using gc_marked_trans [OF \<open>gc_marked m {} A ov A' ov'\<close> 3(3)] by simp
      then show ?thesis unfolding gc_scan_def \<open>res = Ret g'\<close>
        using 3 \<open>may_overrun alloc g' \<longrightarrow> may_overrun alloc g\<close>
          \<open>trace_closed m K ([], [], A, ov) \<longrightarrow> trace_closed m L ([], [], A', ov')\<close>
        by (intro disjI2 exI [of _ g2] exI [of _ A2] exI [of _ ov2]) simp
    qed (simp add: gc_scan_def \<open>res = Ret g'\<close> \<open>may_overrun alloc g' \<longrightarrow> may_overrun alloc g\<close>)
  qed (simp add: gc_scan_def)
qed

text \<open>One block of a cluster.\<close>

lemma scan_block:
  assumes g: "gc_graph m U" and idle: "gc_idle m A ov h" and A: "A \<subseteq> U"
    and ev: "g_event (m b) \<Longrightarrow> \<not> is_container (g_data (m b))" and st: "b \<notin> stale m"
  shows "gc_scan alloc m (insert b K) K A ov h
    (if g_alive (gmem h b) \<and> \<not> g_event (gmem h b) then run_check alloc (CheckSingleBlock_Force (Some b)) h else Some (Ret h))"
proof -
  have mem: "gmem h = with_marks m A" using idle by (simp add: gc_idle_def)
  show ?thesis
  proof (cases "b \<in> A \<and> \<not> g_event (m b)")
    case True
    have b: "gc_range b 1 = [b]" using gc_range_pos [of 1 b] by simp
    have bU: "b \<in> U" using True A by auto
    from ComputeReachabilityGraph_call [OF g idle, of 1 b alloc] bU
    consider "ComputeReachabilityGraphForMultipleBlocks alloc b 1 h = Some (Fault BadIndex)" "may_overrun alloc h"
      | h' A' ov' where "ComputeReachabilityGraphForMultipleBlocks alloc b 1 h = Some (Ret h')" "gc_idle m A' ov' h'"
        "gc_called m [b] A ov A' ov'" "may_overrun alloc h' \<longrightarrow> may_overrun alloc h"
      unfolding b by auto
    then show ?thesis
    proof cases
      case 2
      have "gc_marked m {} A ov A' ov'" "trace_closed m (insert b K) ([], [], A, ov) \<longrightarrow> trace_closed m K ([], [], A', ov')"
        using 2(3) True unfolding gc_called_def gc_marked_def by (auto)
      then show ?thesis using 2(1,2,4) True mem by (auto simp: gc_scan_def)
    qed (use True mem in \<open>simp add: gc_scan_def\<close>)
  next
    case False
    then have "trace_closed m (insert b K) ([], [], A, ov) \<Longrightarrow> trace_closed m K ([], [], A, ov)"
      using ev by (auto simp: trace_closed.simps)
    then have "gc_scan alloc m (insert b K) K A ov h (Some (Ret h))" by (rule gc_scan_id [OF idle])
    then show ?thesis using False mem st by auto
  qed
qed

lemma MarkSlow_cluster_scans:
  assumes g: "gc_graph m U"
  shows "gc_idle m A ov h \<Longrightarrow> A \<subseteq> U \<Longrightarrow> gc_tiles m a bs e \<Longrightarrow>
    \<forall>b \<in> set bs. b \<notin> stale m \<and> (g_event (m b) \<longrightarrow> \<not> is_container (g_data (m b))) \<Longrightarrow>
    gc_scan alloc m (K \<union> set bs) K A ov h (MarkSlow_cluster alloc a e h)"
proof (induction bs arbitrary: a A ov h)
  case Nil
  then show ?case by (subst MarkSlow_cluster.simps) (simp add: gc_scan_id)
next
  case (Cons b bs)
  have b: "b = a" and ts: "gc_tiles m (a + g_dataSize (m a) * sizeof_CLR_RT_HeapBlock) bs e" using Cons.prems(3) by auto
  have lt: "a < e" by (rule gc_tiles_less [OF Cons.prems(3)])
  let ?x = "if g_alive (gmem h a) \<and> \<not> g_event (gmem h a) then run_check alloc (CheckSingleBlock_Force (Some a)) h else Some (Ret h)"
  have "gc_scan alloc m (insert a (K \<union> set bs)) (K \<union> set bs) A ov h ?x"
    using Cons.prems(4) b by (intro scan_block [OF g Cons.prems(1,2)]) auto
  then obtain res where x: "?x = Some res" and sc: "gc_scan alloc m (insert a (K \<union> set bs)) (K \<union> set bs) A ov h (Some res)"
    by (auto simp: gc_scan_def)
  have cl: "\<forall>a \<in> U. set (gc_succ m a) \<subseteq> U" using gc_graphD(1) [OF g] by blast
  have "gc_scan alloc m (insert a (K \<union> set bs)) K A ov h (case res of Inl e \<Rightarrow> Some (Inl e)
      | Inr g' \<Rightarrow> MarkSlow_cluster alloc (a + g_dataSize (gmem g' a) * sizeof_CLR_RT_HeapBlock) e g')"
  proof (rule gc_scan_trans [OF sc _ Cons.prems(2) cl])
    fix g' :: "'a gc_state" and A' ov'
    assume i: "gc_idle m A' ov' g'" and A': "A' \<subseteq> U"
    then have "g_dataSize (gmem g' a) = g_dataSize (m a)" by (simp add: gc_idle_def)
    then show "gc_scan alloc m (K \<union> set bs) K A' ov' g'
        (MarkSlow_cluster alloc (a + g_dataSize (gmem g' a) * sizeof_CLR_RT_HeapBlock) e g')"
      using Cons.IH [OF i A' ts] Cons.prems(4) by simp
  qed
  then show ?case using b lt by (subst MarkSlow_cluster.simps) (simp add: x split: sum.splits)
qed

definition heads :: "nat list list \<Rightarrow> nat set" where
  "heads bss = \<Union> (set ` set bss)"

lemma heads_simps [simp]: "heads [] = {}" "heads (bs # bss) = set bs \<union> heads bss"
  by (simp_all add: heads_def)

abbreviation clusters_tiled :: "(nat \<Rightarrow> gc_block) \<Rightarrow> (nat \<times> nat) list \<Rightarrow> nat list list \<Rightarrow> bool" where
  "clusters_tiled m \<equiv> list_all2 (\<lambda>(s, e) bs. gc_tiles m s bs e)"

lemma MarkSlow_heap_scans:
  assumes g: "gc_graph m U"
  shows "clusters_tiled m hcs bss \<Longrightarrow> gc_idle m A ov h \<Longrightarrow> A \<subseteq> U \<Longrightarrow>
    \<forall>b \<in> heads bss. b \<notin> stale m \<and> (g_event (m b) \<longrightarrow> \<not> is_container (g_data (m b))) \<Longrightarrow>
    gc_scan alloc m (heads bss) {} A ov h (MarkSlow_heap alloc hcs h)"
proof (induction hcs bss arbitrary: A ov h rule: list_all2_induct)
  case Nil
  then show ?case by (simp add: gc_scan_id)
next
  case (Cons hc hcs bs bss)
  obtain a e where hc: "hc = (a, e)" by (cases hc)
  have cl: "\<forall>a \<in> U. set (gc_succ m a) \<subseteq> U" using gc_graphD(1) [OF g] by blast
  have t: "gc_tiles m a bs e" using Cons.hyps by (simp add: hc)
  have "gc_scan alloc m (heads bss \<union> set bs) (heads bss) A ov h (MarkSlow_cluster alloc a e h)"
    using Cons.prems by (intro MarkSlow_cluster_scans [OF g _ _ t]) auto
  moreover from this obtain res where x: "MarkSlow_cluster alloc a e h = Some res" by (auto simp: gc_scan_def)
  ultimately have "gc_scan alloc m (heads bss \<union> set bs) {} A ov h
      (case res of Inl e \<Rightarrow> Some (Inl e) | Inr g' \<Rightarrow> MarkSlow_heap alloc hcs g')"
    using Cons.IH Cons.prems(2,3) by (intro gc_scan_trans [where L = "heads bss" and U = U]) (auto simp: cl)
  then show ?case by (simp add: hc x oc_bind_def Un_commute split: sum.splits)
qed

text \<open>
  The rescans end, since a range is only dropped when a block was marked, and leave all marked blocks with
  marked successors.
\<close>

definition gc_completed ::
    "(nat \<Rightarrow> 'h \<Rightarrow> 'h option) \<Rightarrow> (nat \<Rightarrow> gc_block) \<Rightarrow> nat set \<Rightarrow> nat set \<Rightarrow> 'h gc_state \<Rightarrow> 'h gc_state c_result option \<Rightarrow> bool" where
  "gc_completed alloc m R A g res \<longleftrightarrow>
     (res = Some (Fault BadIndex) \<and> may_overrun alloc g) \<or>
     (\<exists>g' A'. res = Some (Ret g') \<and> gc_idle m A' False g' \<and> A \<union> R \<subseteq> A' \<and>
        (\<forall>V. A \<union> R \<subseteq> V \<longrightarrow> (\<forall>a \<in> V. set (gc_succ m a) \<subseteq> V) \<longrightarrow> A' \<subseteq> V) \<and>
        (may_overrun alloc g' \<longrightarrow> may_overrun alloc g) \<and> trace_closed m {} ([], [], A', False))"

lemma idle_flag: "gc_idle m A ov h \<Longrightarrow> gc_idle m A w (h\<lparr>m_fOutOfStackSpaceForGC := w\<rparr>)"
  by (simp add: gc_idle_def stacks_ok_def LOADSTATE_def Let_def pending_def below_def)

lemma MarkSlow_completes:
  assumes g: "gc_graph m U" and t: "clusters_tiled m hcs bss"
    and ev: "\<forall>b \<in> heads bss. b \<notin> stale m \<and> (g_event (m b) \<longrightarrow> \<not> is_container (g_data (m b)))"
    and hd: "\<forall>a \<in> U. is_container (g_data (m a)) \<longrightarrow> a \<in> heads bss"
  shows "gc_idle m A ov h \<Longrightarrow> A \<subseteq> U \<Longrightarrow> trace_closed m {} ([], [], A, ov) \<Longrightarrow>
    gc_completed alloc m {} A h (MarkSlow alloc hcs h)"
proof (induction "card (U - A)" arbitrary: A ov h rule: less_induct)
  case less
  have fin: "finite U" using g by (simp add: gc_graph_def)
  show ?case
  proof (cases ov)
    case False
    then show ?thesis
      using less.prems by (subst MarkSlow.simps) (auto simp: gc_completed_def gc_idle_def)
  next
    case True
    let ?h = "h\<lparr>m_fOutOfStackSpaceForGC := False\<rparr>"
    have ov: "m_fOutOfStackSpaceForGC h" using less.prems(1) True by (simp add: gc_idle_def)
    have i: "gc_idle m A False ?h" by (rule idle_flag [OF less.prems(1)])
    have mo: "may_overrun alloc ?h = may_overrun alloc h" by (simp add: may_overrun_def)
    have c: "trace_closed m (heads bss) ([], [], A, False)"
      using less.prems(2,3) hd True by (auto simp: trace_closed.simps)
    from MarkSlow_heap_scans [OF g t i less.prems(2) ev, of alloc]
    consider "MarkSlow_heap alloc hcs ?h = Some (Fault BadIndex)" "may_overrun alloc h"
      | g1 A1 ov1 where "MarkSlow_heap alloc hcs ?h = Some (Ret g1)" "gc_idle m A1 ov1 g1" "gc_marked m {} A False A1 ov1"
        "may_overrun alloc g1 \<longrightarrow> may_overrun alloc h" "trace_closed m {} ([], [], A1, ov1)"
      unfolding gc_scan_def mo using c by blast
    then show ?thesis
    proof cases
      case 1
      then show ?thesis using ov by (subst MarkSlow.simps) (simp add: gc_completed_def)
    next
      case 2
      have A1: "A1 \<subseteq> U" using gc_graphD(1) [OF g] less.prems(2) by (intro gc_markedD(4) [OF 2(3)]) auto
      have e: "MarkSlow alloc hcs h = MarkSlow alloc hcs g1" using 2(1) ov by (subst MarkSlow.simps) simp
      have "gc_completed alloc m {} A1 g1 (MarkSlow alloc hcs g1)"
      proof (cases ov1)
        case True
        then have "A \<subset> A1" using gc_markedD(3) [OF 2(3)] by simp
        then have "card (U - A1) < card (U - A)" using A1 fin by (intro psubset_card_mono) auto
        from less.hyps [OF this 2(2) A1 2(5)] show ?thesis .
      next
        case False
        then show ?thesis using 2 by (subst MarkSlow.simps) (auto simp: gc_completed_def gc_idle_def)
      qed
      then consider "MarkSlow alloc hcs g1 = Some (Fault BadIndex)" "may_overrun alloc g1"
        | g2 A2 where "MarkSlow alloc hcs g1 = Some (Ret g2)" "gc_idle m A2 False g2" "A1 \<subseteq> A2"
          "\<forall>V. A1 \<subseteq> V \<longrightarrow> (\<forall>a \<in> V. set (gc_succ m a) \<subseteq> V) \<longrightarrow> A2 \<subseteq> V"
          "may_overrun alloc g2 \<longrightarrow> may_overrun alloc g1" "trace_closed m {} ([], [], A2, False)"
        unfolding gc_completed_def by auto
      then show ?thesis
      proof cases
        case 1
        then show ?thesis using 2(4) by (simp add: gc_completed_def e)
      next
        case 3: 2
        have "A \<subseteq> A2" using gc_markedD(1) [OF 2(3)] 3(3) by simp
        moreover have "A2 \<subseteq> V" if "A \<subseteq> V" "\<forall>a \<in> V. set (gc_succ m a) \<subseteq> V" for V
          using 3(4) gc_markedD(4) [OF 2(3), of V] that by simp
        ultimately show ?thesis using 3 2(4) by (auto simp: gc_completed_def e)
      qed
    qed
  qed
qed

section \<open>What can be reached\<close>

definition gc_reach :: "(nat \<Rightarrow> gc_block) \<Rightarrow> nat set \<Rightarrow> nat set" where
  "gc_reach m R = {(a, b). b \<in> set (gc_succ m a)}\<^sup>* `` R"

lemma gc_reach_closed: "a \<in> gc_reach m R \<Longrightarrow> set (gc_succ m a) \<subseteq> gc_reach m R"
  unfolding gc_reach_def by (auto intro: rtrancl_into_rtrancl)

lemma gc_reach_roots: "R \<subseteq> gc_reach m R"
  by (auto simp: gc_reach_def)

lemma gc_reach_least:
  assumes "R \<subseteq> V" and "\<forall>a \<in> V. set (gc_succ m a) \<subseteq> V"
  shows "gc_reach m R \<subseteq> V"
proof -
  have "b \<in> V" if "(a, b) \<in> {(a, b). b \<in> set (gc_succ m a)}\<^sup>*" "a \<in> V" for a b
    using that assms(2) by (induction rule: rtrancl_induct) auto
  then show ?thesis using assms(1) by (auto simp: gc_reach_def)
qed

lemma gc_reach_into:
  assumes "gc_reach m R \<subseteq> V" and "S \<subseteq> V" and "\<forall>a \<in> V. set (gc_succ m a) \<subseteq> V"
  shows "gc_reach m (R \<union> S) \<subseteq> V"
  using assms gc_reach_roots [of R m] by (intro gc_reach_least) auto

section \<open>Finalizers\<close>

lemma Mark_finalizers_returns:
  assumes g: "gc_graph m U"
  shows "gc_idle m A ov h \<Longrightarrow> set fins \<subseteq> U \<Longrightarrow> set fins \<inter> stale m = {} \<Longrightarrow>
    (Mark_finalizers alloc fins h = Some (Fault BadIndex) \<and> may_overrun alloc h) \<or>
    (\<exists>ps as h' A' ov'. Mark_finalizers alloc fins h = Some (Ret (ps, as, h')) \<and> gc_idle m A' ov' h' \<and>
       gc_marked m (set fins) A ov A' ov' \<and> (may_overrun alloc h' \<longrightarrow> may_overrun alloc h) \<and>
       (trace_closed m {} ([], [], A, ov) \<longrightarrow> trace_closed m {} ([], [], A', ov')) \<and>
       set ps \<union> set as = set fins \<and> set ps \<inter> A = {} \<and> length ps + length as = length fins \<and>
       set as \<subseteq> gc_reach m (A \<union> set ps))"
proof (induction fins arbitrary: A ov h)
  case Nil
  then show ?case by (intro disjI2 exI [of _ "[]"] exI [of _ h] exI [of _ A] exI [of _ ov]) simp
next
  case (Cons f fins)
  have mem: "g_alive (gmem h f) \<longleftrightarrow> f \<in> A" using Cons.prems(1,3) by (simp add: gc_idle_def)
  show ?case
  proof (cases "f \<in> A")
    case True
    from Cons.IH [OF Cons.prems(1)] Cons.prems(2,3)
    consider "Mark_finalizers alloc fins h = Some (Fault BadIndex)" "may_overrun alloc h"
      | ps as h' A' ov' where "Mark_finalizers alloc fins h = Some (Ret (ps, as, h'))" "gc_idle m A' ov' h'"
         "gc_marked m (set fins) A ov A' ov'" "may_overrun alloc h' \<longrightarrow> may_overrun alloc h"
         "trace_closed m {} ([], [], A, ov) \<longrightarrow> trace_closed m {} ([], [], A', ov')"
         "set ps \<union> set as = set fins" "set ps \<inter> A = {}" "length ps + length as = length fins"
         "set as \<subseteq> gc_reach m (A \<union> set ps)"
      by auto
    then show ?thesis
    proof cases
      case 2
      have "gc_marked m (set (f # fins)) A ov A' ov'" using 2(3) True by (auto simp: gc_marked_def)
      moreover have "f \<in> gc_reach m (A \<union> set ps)" using True gc_reach_roots [of "A \<union> set ps" m] by blast
      ultimately show ?thesis using 2 True mem
        by (intro disjI2 exI [of _ ps] exI [of _ "f # as"] exI [of _ h'] exI [of _ A'] exI [of _ ov'] conjI) simp_all
    qed (use True mem in simp)
  next
    case False
    have c: "check_ok m (CheckSingleBlock (Some f))" using Cons.prems(3) by (simp add: check_ok_def)
    from run_check_returns [OF g Cons.prems(1) c, of alloc] Cons.prems(2)
    consider "run_check alloc (CheckSingleBlock (Some f)) h = Some (Fault BadIndex)" "may_overrun alloc h"
      | h1 A1 ov1 where "run_check alloc (CheckSingleBlock (Some f)) h = Some (Ret h1)" "gc_idle m A1 ov1 h1"
        "gc_marked m {f} A ov A1 ov1" "may_overrun alloc h1 \<longrightarrow> may_overrun alloc h"
        "trace_closed m {} ([], [], A, ov) \<longrightarrow> trace_closed m {} ([], [], A1, ov1)"
      unfolding gc_returns_def by auto
    then show ?thesis
    proof cases
      case 1
      then show ?thesis using False mem by simp
    next
      case 2
      note 1 = 2
      from Cons.IH [OF 1(2)] Cons.prems(2,3)
      consider "Mark_finalizers alloc fins h1 = Some (Fault BadIndex)" "may_overrun alloc h1"
        | ps as h' A' ov' where "Mark_finalizers alloc fins h1 = Some (Ret (ps, as, h'))" "gc_idle m A' ov' h'"
           "gc_marked m (set fins) A1 ov1 A' ov'" "may_overrun alloc h' \<longrightarrow> may_overrun alloc h1"
           "trace_closed m {} ([], [], A1, ov1) \<longrightarrow> trace_closed m {} ([], [], A', ov')"
           "set ps \<union> set as = set fins" "set ps \<inter> A1 = {}" "length ps + length as = length fins"
           "set as \<subseteq> gc_reach m (A1 \<union> set ps)"
        by auto
      then show ?thesis
      proof cases
        case 3: 2
        have "gc_marked m (set (f # fins)) A ov A' ov'" using gc_marked_trans [OF 1(3) 3(3)] by simp
        moreover have "set as \<subseteq> gc_reach m (A \<union> set (f # ps))"
        proof -
          let ?V = "gc_reach m (A \<union> set (f # ps))"
          have c: "\<forall>a \<in> ?V. set (gc_succ m a) \<subseteq> ?V" using gc_reach_closed by blast
          have r: "A \<union> set (f # ps) \<subseteq> ?V" by (rule gc_reach_roots)
          then have "A1 \<subseteq> ?V" by (intro gc_markedD(4) [OF 1(3) _ c]) auto
          then have "gc_reach m (A1 \<union> set ps) \<subseteq> ?V" using r by (intro gc_reach_least c) auto
          then show ?thesis using 3(9) by blast
        qed
        moreover have "set (f # ps) \<inter> A = {}" using 3(7) gc_markedD(1) [OF 1(3)] False by auto
        ultimately show ?thesis using 1 3 False mem
          by (intro disjI2 exI [of _ "f # ps"] exI [of _ as] exI [of _ h'] exI [of _ A'] exI [of _ ov'] conjI) simp_all
      qed (use 1 False mem in simp)
    qed
  qed
qed

section \<open>The mark phase\<close>

text \<open>
  The heap at the start of a collection: from the roots one stays in a finite graph whose containers are
  blocks of the clusters, which the blocks tile; the ranges of the roots hold values and references. Old
  marks are on events, which refer to nothing, and on fields and elements, not on the other blocks and
  not on what is referred to.
\<close>

definition all_objects :: "(nat \<Rightarrow> gc_block) \<Rightarrow> gc_roots \<Rightarrow> nat set" where
  "all_objects m rt = gc_reach m (all_roots (Mark_roots rt) \<union> set (m_finalizersAlive rt))"

definition gc_heap_ok :: "(nat \<Rightarrow> gc_block) \<Rightarrow> (nat \<times> nat) list \<Rightarrow> nat list list \<Rightarrow> gc_roots \<Rightarrow> bool" where
  "gc_heap_ok m hcs bss rt \<longleftrightarrow>
     gc_graph m (settled m \<union> all_objects m rt) \<and> set (m_finalizersAlive rt) \<inter> stale m = {} \<and>
     (\<forall>c \<in> set (Mark_roots rt). check_ok m c) \<and> clusters_tiled m hcs bss \<and>
     (\<forall>b \<in> heads bss. b \<notin> stale m \<and> (g_event (m b) \<longrightarrow> \<not> is_container (g_data (m b)))) \<and>
     (\<forall>a \<in> settled m \<union> all_objects m rt. is_container (g_data (m a)) \<longrightarrow> a \<in> heads bss)"

lemma Mark_start_idle: "gc_idle m (settled m) False (Mark_start m h)"
proof -
  have l: "LOADSTATE (Mark_start m h) = \<lparr>stackList = 0, stackLast = 127, stack = 0\<rparr>"
    by (simp add: LOADSTATE_def Mark_start_def MarkStack_Initialize_def c_minimumSpaceForGC_def)
  have "stack_ok (MarkStack_Initialize c_minimumSpaceForGC) 0"
    by (simp add: stack_ok_def MarkStack_Initialize_def c_minimumSpaceForGC_def)
  then have "stacks_ok (LOADSTATE (Mark_start m h)) (Mark_start m h)"
    unfolding stacks_ok_def l
    by (simp add: Mark_start_def) (simp add: MarkStack_Initialize_def c_minimumSpaceForGC_def)
  moreover have "(a \<in> settled m \<or> a \<in> stale m) = g_alive (m a)" for a by (auto simp: settled_def stale_def)
  then have "m = with_marks m (settled m)" by (simp add: with_marks_def)
  ultimately show ?thesis by (simp add: gc_idle_def pending_def l) (simp add: Mark_start_def)
qed

lemma Mark_start_overrun: "may_overrun alloc (Mark_start m h) \<longleftrightarrow> (\<exists>n h. alloc n h \<noteq> None)"
  by (simp add: may_overrun_def Mark_start_def)

lemma exact_marks:
  assumes "A0 \<union> R \<subseteq> A" and "\<And>V. A0 \<union> R \<subseteq> V \<Longrightarrow> \<forall>a \<in> V. set (gc_succ m a) \<subseteq> V \<Longrightarrow> A \<subseteq> V"
    and "trace_closed m {} ([], [], A, False)" and "\<forall>a \<in> A0. gc_succ m a = []"
  shows "A = A0 \<union> gc_reach m R"
proof
  have "\<forall>a \<in> A0 \<union> gc_reach m R. set (gc_succ m a) \<subseteq> A0 \<union> gc_reach m R"
    using assms(4) gc_reach_closed [of _ m R] by auto
  then show "A \<subseteq> A0 \<union> gc_reach m R" using gc_reach_roots [of R m] by (intro assms(2)) auto
  have "\<forall>a \<in> A. set (gc_succ m a) \<subseteq> A" using assms(3) by (auto simp: trace_closed.simps)
  then show "A0 \<union> gc_reach m R \<subseteq> A" using assms(1) by (intro Un_least gc_reach_least) auto
qed

text \<open>A phase and the rescans behind it.\<close>

lemma rescan_completes:
  assumes g: "gc_graph m U" and t: "clusters_tiled m hcs bss"
    and ev: "\<forall>b \<in> heads bss. b \<notin> stale m \<and> (g_event (m b) \<longrightarrow> \<not> is_container (g_data (m b)))"
    and hd: "\<forall>a \<in> U. is_container (g_data (m a)) \<longrightarrow> a \<in> heads bss"
    and idle: "gc_idle m A ov h" and A: "A \<subseteq> U" and cl: "trace_closed m {} ([], [], A, ov)"
  shows "gc_completed alloc m {} A h (if m_fOutOfStackSpaceForGC h then MarkSlow alloc hcs h else Some (Ret h))"
proof -
  have "MarkSlow alloc hcs h = Some (Ret h)" if "\<not> m_fOutOfStackSpaceForGC h"
    using that by (subst MarkSlow.simps) simp
  then show ?thesis using MarkSlow_completes [OF g t ev hd idle A cl, of alloc] by (auto split: if_splits)
qed

lemma gc_completedE:
  assumes "gc_completed alloc m R A g res"
  obtains "res = Some (Fault BadIndex)" "may_overrun alloc g"
    | g' A' where "res = Some (Ret g')" "gc_idle m A' False g'" "A \<union> R \<subseteq> A'"
      "\<And>V. A \<union> R \<subseteq> V \<Longrightarrow> \<forall>a \<in> V. set (gc_succ m a) \<subseteq> V \<Longrightarrow> A' \<subseteq> V"
      "may_overrun alloc g' \<Longrightarrow> may_overrun alloc g" "trace_closed m {} ([], [], A', False)"
  using assms unfolding gc_completed_def by blast

text \<open>The mark phase on a well-formed heap.\<close>

definition marked_exactly ::
    "(nat \<Rightarrow> gc_block) \<Rightarrow> gc_roots \<Rightarrow> gc_roots \<Rightarrow> 'h gc_state \<Rightarrow> bool" where
  "marked_exactly m rt rt' g \<longleftrightarrow>
     gmem g = with_marks m (settled m \<union> all_objects m rt) \<and> \<not> m_fOutOfStackSpaceForGC g \<and>
     (\<exists>ps as. rt' = rt\<lparr>m_finalizersAlive := as, m_finalizersPending := m_finalizersPending rt @ ps\<rparr> \<and>
        set ps \<union> set as = set (m_finalizersAlive rt) \<and> length ps + length as = length (m_finalizersAlive rt) \<and>
        (\<forall>obj \<in> set ps. obj \<notin> gc_reach m (all_roots (Mark_roots rt))) \<and>
        set as \<subseteq> settled m \<union> gc_reach m (all_roots (Mark_roots rt) \<union> set ps))"

lemma Mark_marks_exactly:
  assumes "gc_heap_ok m hcs bss rt"
  shows "(Mark alloc hcs rt m h = Some (Fault BadIndex) \<and> (\<exists>n h. alloc n h \<noteq> None)) \<or>
    (\<exists>rt' g. Mark alloc hcs rt m h = Some (Ret (rt', g)) \<and> marked_exactly m rt rt' g)"
proof -
  define A0 R1 U where "A0 = settled m" and "R1 = all_roots (Mark_roots rt)" and "U = A0 \<union> all_objects m rt"
  let ?F = "set (m_finalizersAlive rt)"
  have g: "gc_graph m U" and fst: "?F \<inter> stale m = {}" and ok: "\<forall>c \<in> set (Mark_roots rt). check_ok m c"
    and t: "clusters_tiled m hcs bss" and ev: "\<forall>b \<in> heads bss. b \<notin> stale m \<and> (g_event (m b) \<longrightarrow> \<not> is_container (g_data (m b)))"
    and hd: "\<forall>a \<in> U. is_container (g_data (m a)) \<longrightarrow> a \<in> heads bss"
    using assms unfolding gc_heap_ok_def U_def A0_def by auto
  have A0: "\<forall>a \<in> A0. gc_succ m a = []" by (simp add: A0_def settled_def)
  have cU: "\<forall>a \<in> U. set (gc_succ m a) \<subseteq> U" using gc_graphD(1) [OF g] by blast
  have RU: "R1 \<union> ?F \<subseteq> U" using gc_reach_roots [of "R1 \<union> ?F" m] by (auto simp: U_def all_objects_def R1_def)
  have c0: "trace_closed m {} ([], [], A0, False)" using A0 by (auto simp: trace_closed.simps)
  let ?g0 = "Mark_start m h"
  have R1U: "all_roots (Mark_roots rt) \<subseteq> U" using RU by (simp add: R1_def)
  from run_checks_return [OF g Mark_start_idle ok R1U, of alloc h]
  consider "run_checks alloc (Mark_roots rt) ?g0 = Some (Fault BadIndex)" "may_overrun alloc ?g0"
    | g1 A1 ov1 where "run_checks alloc (Mark_roots rt) ?g0 = Some (Ret g1)" "gc_idle m A1 ov1 g1"
      "gc_marked m R1 A0 False A1 ov1" "may_overrun alloc g1 \<longrightarrow> may_overrun alloc ?g0"
      "trace_closed m {} ([], [], A1, ov1)"
    unfolding gc_returns_def using c0 unfolding A0_def R1_def by blast
  then show ?thesis
  proof cases
    case 1
    then show ?thesis by (simp add: Mark_def Mark_start_overrun)
  next
    case 2
    note s1 = 2
    have A1: "A1 \<subseteq> U" using RU cU by (intro gc_markedD(4) [OF s1(3)]) (auto simp: U_def)
    let ?slow = "\<lambda>g. if m_fOutOfStackSpaceForGC g then MarkSlow alloc hcs g else Some (Ret g)"
    from rescan_completes [OF g t ev hd s1(2) A1 s1(5), of alloc] show ?thesis
    proof (cases rule: gc_completedE)
      case 1
      then show ?thesis using s1(1,4) by (simp add: Mark_def Mark_start_overrun)
    next
      case (2 g2 A2)
      note s2 = 2
      have A2: "A2 \<subseteq> U" using A1 cU by (intro s2(4)) auto
      have A2e: "A2 = A0 \<union> gc_reach m R1"
      proof (rule exact_marks)
        show "A0 \<union> R1 \<subseteq> A2" using gc_markedD(1) [OF s1(3)] s2(3) by auto
        show "A2 \<subseteq> V" if "A0 \<union> R1 \<subseteq> V" "\<forall>a \<in> V. set (gc_succ m a) \<subseteq> V" for V
          using gc_markedD(4) [OF s1(3) that] that(2) by (intro s2(4)) auto
      qed (rule s2(6), rule A0)
      have FU: "set (m_finalizersAlive rt) \<subseteq> U" using RU by simp
      from Mark_finalizers_returns [OF g s2(2) FU fst, of alloc]
      consider "Mark_finalizers alloc (m_finalizersAlive rt) g2 = Some (Fault BadIndex)" "may_overrun alloc g2"
        | ps as g3 A3 ov3 where "Mark_finalizers alloc (m_finalizersAlive rt) g2 = Some (Ret (ps, as, g3))"
          "gc_idle m A3 ov3 g3" "gc_marked m ?F A2 False A3 ov3" "may_overrun alloc g3 \<longrightarrow> may_overrun alloc g2"
          "trace_closed m {} ([], [], A3, ov3)" "set ps \<union> set as = ?F" "set ps \<inter> A2 = {}"
          "length ps + length as = length (m_finalizersAlive rt)"
          "set as \<subseteq> gc_reach m (A2 \<union> set ps)"
        using s2(6) by blast
      then show ?thesis
      proof cases
        case 1
        then show ?thesis using s1(1,4) s2(1,5) by (simp add: Mark_def Mark_start_overrun)
      next
        case (2 ps as g3 A3 ov3)
        note s3 = 2
        have A3: "A3 \<subseteq> U" using A2 RU cU by (intro gc_markedD(4) [OF s3(3)]) auto
        from rescan_completes [OF g t ev hd s3(2) A3 s3(5), of alloc] show ?thesis
        proof (cases rule: gc_completedE)
          case 1
          then show ?thesis using s1(1,4) s2(1,5) s3(1,4) by (simp add: Mark_def Mark_start_overrun)
        next
          case (2 g4 A4)
          note s4 = 2
          have "A4 = A0 \<union> gc_reach m (R1 \<union> ?F)"
          proof (rule exact_marks)
            show "A0 \<union> (R1 \<union> ?F) \<subseteq> A4"
              using gc_markedD(1) [OF s3(3)] s4(3) A2e gc_reach_roots [of R1 m] by auto
            show "A4 \<subseteq> V" if V: "A0 \<union> (R1 \<union> ?F) \<subseteq> V" "\<forall>a \<in> V. set (gc_succ m a) \<subseteq> V" for V
            proof -
              have "A2 \<subseteq> V" unfolding A2e using V by (intro Un_least gc_reach_least) auto
              then have "A3 \<subseteq> V" using V by (intro gc_markedD(4) [OF s3(3)]) auto
              then show ?thesis using V by (intro s4(4)) auto
            qed
          qed (rule s4(6), rule A0)
          then have "A4 = settled m \<union> all_objects m rt" by (simp add: A0_def R1_def all_objects_def)
          then have "gmem g4 = with_marks m (settled m \<union> all_objects m rt)" "\<not> m_fOutOfStackSpaceForGC g4"
            using s4(2) by (simp_all add: gc_idle_def)
          moreover have "set as \<subseteq> A0 \<union> gc_reach m (R1 \<union> set ps)"
          proof -
            let ?V = "A0 \<union> gc_reach m (R1 \<union> set ps)"
            have c: "\<forall>a \<in> ?V. set (gc_succ m a) \<subseteq> ?V"
              using A0 gc_reach_closed [of _ m "R1 \<union> set ps"] by auto
            have r: "R1 \<union> set ps \<subseteq> ?V" using gc_reach_roots [of "R1 \<union> set ps" m] by auto
            then have "gc_reach m R1 \<subseteq> ?V" by (intro gc_reach_least c) auto
            then have "gc_reach m (A2 \<union> set ps) \<subseteq> ?V" using r unfolding A2e by (intro gc_reach_least c) auto
            then show ?thesis using s3(9) by blast
          qed
          ultimately have "marked_exactly m rt (rt\<lparr>m_finalizersAlive := as, m_finalizersPending := m_finalizersPending rt @ ps\<rparr>)
              (g4\<lparr>m_markStackList := take 1 (m_markStackList g4)\<rparr>)"
            unfolding marked_exactly_def using s3(6-8) A2e
            by (intro conjI exI [of _ ps] exI [of _ as]) (auto simp: R1_def A0_def)
          then show ?thesis using s1(1) s2(1) s3(1) s4(1) by (simp add: Mark_def)
        qed
      qed
    qed
  qed
qed

end
