(* ===== verification/NF_GCOverrun.thy ===== *)
theory NF_GCOverrun
  imports NF_GC
begin

text \<open>
  Where the mark stack ends: a list of objects that are linked by their first field takes one element per
  object, so that a long one fills the first mark stack. A second one of that kind finds a further stack
  linked already, does not go over to it, and is written behind the end of the first.
\<close>

section \<open>Stacks are not taken away\<close>

definition stacks_grow :: "'h gc_state \<Rightarrow> 'h gc_state \<Rightarrow> bool" where
  "stacks_grow g g' \<longleftrightarrow> length (m_markStackList g) \<le> length (m_markStackList g') \<and>
     (m_markStackList g \<noteq> [] \<longrightarrow>
       length (elements (m_markStackList g' ! 0)) = length (elements (m_markStackList g ! 0)))"

lemma stacks_grow_refl [simp]: "stacks_grow g g"
  by (simp add: stacks_grow_def)

lemma stacks_grow_trans: "stacks_grow g g' \<Longrightarrow> stacks_grow g' g'' \<Longrightarrow> stacks_grow g g''"
  by (auto simp: stacks_grow_def)

lemma write_element_grow: "write_element e r g = Ret g' \<Longrightarrow> stacks_grow g g'"
  by (cases "stackList r") (auto simp: write_element_def Let_def stacks_grow_def nth_list_update split: if_splits)

lemma SAVESTATE_grow [simp]: "stacks_grow g (SAVESTATE r g)"
proof (cases "m_markStack g")
  case 0
  then show ?thesis by (cases "m_markStackList g") (simp_all add: SAVESTATE_def stacks_grow_def)
next
  case (Suc k)
  then show ?thesis by (cases "m_markStackList g") (simp_all add: SAVESTATE_def stacks_grow_def)
qed

lemma SAVESTATE_length [simp]: "length (m_markStackList (SAVESTATE r g)) = length (m_markStackList g)"
  by (simp add: SAVESTATE_def)

lemma visit_next_grow: "visit_next a r g = Ret (Again lst num r' g') \<Longrightarrow> stacks_grow g g'"
proof -
  have "m_markStackList g' = m_markStackList g" if "visit a g = Ret (e, g')" for e
    using that by (auto simp: visit_def Let_def split: gc_data.splits if_splits)
  then show "visit_next a r g = Ret (Again lst num r' g') \<Longrightarrow> stacks_grow g g'"
    by (auto simp: visit_next_def c_bind_Inr_iff stacks_grow_def)
qed

lemma visit_next_again: "visit_next a r g \<noteq> Ret (Finished x)"
  by (auto simp: visit_next_def c_bind_Inr_iff)

lemma append_grow: "m_markStackList g' = m_markStackList g @ ss \<Longrightarrow> stacks_grow g g'"
  by (cases "m_markStackList g") (simp_all add: stacks_grow_def)

lemma stacks_grow_list: "m_markStackList h = m_markStackList g' \<Longrightarrow> stacks_grow g g' \<Longrightarrow> stacks_grow g h"
  by (simp add: stacks_grow_def)

lemma make_room_grow:
  assumes m: "make_room alloc r g = (x, g')"
  shows "stacks_grow g g' \<and> (\<forall>r1 g1. x = Some (r1, g1) \<longrightarrow> g1 = g')"
proof (cases "stack r = stackLast r")
  case False
  then show ?thesis using m by (auto simp: make_room_def)
next
  case full: True
  show ?thesis
  proof (cases "stackList r + 1 < length (m_markStackList g)")
    case True
    then show ?thesis using m full by (auto simp: make_room_def Let_def)
  next
    case False
    show ?thesis
    proof (cases "if m_fOutOfStackSpaceForGC g then None else allocate_stack alloc c_minimumSpaceForGC (gheap g)")
      case None
      then show ?thesis using m full False by (auto simp: make_room_def Let_def stacks_grow_def)
    next
      case (Some a)
      obtain n k where a: "a = (n, k)" by (cases a)
      let ?s = "SAVESTATE r (g\<lparr>gheap := k\<rparr>)"
      have s: "stacks_grow g ?s"
        using SAVESTATE_grow [of "g\<lparr>gheap := k\<rparr>" r] by (simp add: stacks_grow_def)
      have "m_markStackList g' = m_markStackList ?s @ [MarkStack_Initialize n]"
        "\<forall>r1 g1. x = Some (r1, g1) \<longrightarrow> g1 = g'"
        using m full False Some by (auto simp: make_room_def Let_def a)
      then show ?thesis using stacks_grow_trans [OF s append_grow] by blast
    qed
  qed
qed

lemma next_pending_grow: "next_pending r g = Ret (Some (a, r', g')) \<Longrightarrow> stacks_grow g g'"
proof -
  let ?g1 = "(SAVESTATE r g)\<lparr>m_markStack := stackList r - 1\<rparr>"
  assume n: "next_pending r g = Ret (Some (a, r', g'))"
  then obtain e r1 g1 where "write_element e r1 g1 = Ret g'" "g1 = g \<or> g1 = ?g1"
    by (fastforce simp: next_pending_def Let_def c_bind_Inr_iff split: if_splits)
  moreover have "stacks_grow g ?g1"
    by (rule stacks_grow_list [OF _ SAVESTATE_grow [of g r]]) simp
  ultimately show ?thesis using write_element_grow stacks_grow_trans by blast
qed

lemma mark_turn_grow:
  "mark_turn alloc lst num r g = Ret (Again lst' num' r' g') \<Longrightarrow> stacks_grow g g'"
  "mark_turn alloc lst num r g = Ret (Finished (r', g')) \<Longrightarrow> stacks_grow g g'"
proof -
  assume t: "mark_turn alloc lst num r g = Ret (Again lst' num' r' g')"
  consider "num = 0" | "num = 1" | "1 < num" by linarith
  then show "stacks_grow g g'"
  proof cases
    case 1
    then show ?thesis
      using t next_pending_grow [of r g] visit_next_grow stacks_grow_trans
      by (fastforce simp: mark_turn_def c_bind_Inr_iff split: option.splits)
  next
    case 2
    then show ?thesis using t visit_next_grow by (auto simp: mark_turn_def)
  next
    case 3
    obtain x g1 where m: "make_room alloc r g = (x, g1)" by (cases "make_room alloc r g")
    show ?thesis
    proof (cases x)
      case None
      then show ?thesis
        using t 3 m make_room_grow [OF m] visit_next_grow stacks_grow_trans by (fastforce simp: mark_turn_def)
    next
      case (Some p)
      obtain r1 where p: "p = (r1, g1)" using make_room_grow [OF m] Some by (cases p) auto
      obtain g2 where w: "write_element (lst + sizeof_CLR_RT_HeapBlock, num - 1) (r1\<lparr>stack := stack r1 + 1\<rparr>) g1 = Ret g2"
        and v: "visit_next lst (r1\<lparr>stack := stack r1 + 1\<rparr>) g2 = Ret (Again lst' num' r' g')"
        using t 3 m Some p by (auto simp: mark_turn_def c_bind_Inr_iff Let_def)
      have "stacks_grow g g1" using make_room_grow [OF m] by simp
      then show ?thesis
        by (rule stacks_grow_trans [OF stacks_grow_trans [OF _ write_element_grow [OF w]] visit_next_grow [OF v]])
    qed
  qed
next
  assume "mark_turn alloc lst num r g = Ret (Finished (r', g'))"
  then show "stacks_grow g g'"
    by (auto simp: mark_turn_def c_bind_Inr_iff Let_def visit_next_again split: if_splits option.splits prod.splits)
qed

lemma mark_loop_turn:
  "mark_turn alloc lst num r g = Ret (Again lst' num' r' g') \<Longrightarrow> mark_loop alloc lst num r g = mark_loop alloc lst' num' r' g'"
  by (subst mark_loop.simps) simp

lemma mark_loop_grow:
  assumes "mark_loop alloc lst num r g = Some res"
  shows "\<forall>r' g'. res = Ret (r', g') \<longrightarrow> stacks_grow g g'"
  using assms
proof (induction rule: mark_loop.raw_induct [rotated, consumes 1, case_names body])
  case (body loop alloc' lst num r g res)
  show ?case
  proof (cases "mark_turn alloc' lst num r g")
    case (Inl e)
    then show ?thesis using body(2) by auto
  next
    case (Inr x)
    show ?thesis
    proof (cases x)
      case (Finished y)
      then show ?thesis using body(2) Inr mark_turn_grow(2) [of alloc' lst num r g] by (cases y) auto
    next
      case (Again lst' num' r1 g1)
      with Inr have t: "mark_turn alloc' lst num r g = Ret (Again lst' num' r1 g1)" by simp
      then have "\<forall>r' g'. res = Ret (r', g') \<longrightarrow> stacks_grow g1 g'"
        using body t by simp
      with mark_turn_grow(1) [OF t] show ?thesis using stacks_grow_trans by blast
    qed
  qed
qed

section \<open>Going down a list\<close>

definition linked :: "(nat \<Rightarrow> gc_block) \<Rightarrow> nat \<Rightarrow> nat \<Rightarrow> bool" where
  "linked m x y \<longleftrightarrow> g_data (m x) = G_CLASS \<and> 3 \<le> g_dataSize (m x) \<and> g_dataSize (m x) < 2 ^ 32 \<and>
     g_data (m (x + sizeof_CLR_RT_HeapBlock)) = G_OBJECT (Some y)"

text \<open>The state on the first stack with so many elements.\<close>

definition descending :: "(nat \<Rightarrow> gc_block) \<Rightarrow> nat \<Rightarrow> nat set \<Rightarrow> gc_locals \<Rightarrow> 'h gc_state \<Rightarrow> bool" where
  "descending m d A r h \<longleftrightarrow> stacks_ok r h \<and> stackList r = 0 \<and> stack r = d \<and> stackLast r = 127 \<and>
     gmem h = with_marks m A"

lemma visit_object:
  assumes l: "linked m x y" and mem: "gmem h = with_marks m A"
  shows "visit_next x r h = Ret (Again (x + sizeof_CLR_RT_HeapBlock) (g_dataSize (m x) - 1) r (mark_alive x h))"
  using l by (simp add: visit_next_def visit_def Let_def linked_def mem)

lemma visit_link:
  assumes l: "linked m x y" and mem: "gmem h = with_marks m A" and y: "y \<notin> insert (x + sizeof_CLR_RT_HeapBlock) A" "y \<notin> stale m"
  shows "visit_next (x + sizeof_CLR_RT_HeapBlock) r h = Ret (Again y 1 r (mark_alive (x + sizeof_CLR_RT_HeapBlock) h))"
  using l y by (simp add: visit_next_def visit_def Let_def linked_def mem visit_sub_def)

lemma mark_alive_stacks [simp]:
  "stacks_ok r (mark_alive a h) = stacks_ok r h" "pending r (mark_alive a h) = pending r h"
  by (simp_all add: stacks_ok_def pending_def below_def)

lemma descend:
  assumes l: "linked m x y" and d: "descending m d A r h" "d < 127" and y: "y \<notin> A" "y \<noteq> x" "y \<noteq> x + sizeof_CLR_RT_HeapBlock" "y \<notin> stale m"
  shows "\<exists>r' h'. mark_loop alloc x 1 r h = mark_loop alloc y 1 r' h' \<and>
    descending m (d + 1) (insert (x + sizeof_CLR_RT_HeapBlock) (insert x A)) r' h' \<and>
    length (m_markStackList h') = length (m_markStackList h) \<and> m_fOutOfStackSpaceForGC h' = m_fOutOfStackSpaceForGC h"
proof -
  have mem: "gmem h = with_marks m A" and st: "stacks_ok r h" and s: "stack r \<noteq> stackLast r"
    using d by (auto simp: descending_def)
  let ?h1 = "mark_alive x h" and ?f = "x + sizeof_CLR_RT_HeapBlock" and ?r = "r\<lparr>stack := stack r + 1\<rparr>"
  let ?e = "(?f + sizeof_CLR_RT_HeapBlock, g_dataSize (m x) - 1 - 1)"
  have e: "0 < snd ?e" "snd ?e < 2 ^ 32" using l by (auto simp: linked_def)
  have st1: "stacks_ok r ?h1" using st by simp
  obtain g' where g': "write_element ?e ?r ?h1 = Ret g'" "stacks_ok ?r g'" "quiet g' ?h1"
    "length (m_markStackList g') = length (m_markStackList ?h1)"
    using push_in_place [OF st1 s e] by blast
  have n: "Suc 0 < g_dataSize (m x) - Suc 0" "Suc 0 < g_dataSize (m x)" "g_dataSize (m x) - Suc 0 \<noteq> 0" "\<not> g_dataSize (m x) \<le> Suc 0"
    using l by (auto simp: linked_def)
  have mem1: "gmem g' = with_marks m (insert x A)" "m_fOutOfStackSpaceForGC g' = m_fOutOfStackSpaceForGC h"
    using g'(3) mem d by (simp_all add: quiet_def same_heap_def descending_def)
  have "mark_loop alloc x 1 r h = mark_loop alloc ?f (g_dataSize (m x) - 1) r ?h1"
    using visit_object [OF l mem] by (intro mark_loop_turn) (simp add: mark_turn_def)
  also have "mark_turn alloc ?f (g_dataSize (m x) - 1) r ?h1 = Ret (Again y 1 ?r (mark_alive ?f g'))"
    using visit_link [OF l mem1(1), of ?r] y n s g'(1) by (simp add: mark_turn_def make_room_def)
  then have "mark_loop alloc ?f (g_dataSize (m x) - 1) r ?h1 = mark_loop alloc y 1 ?r (mark_alive ?f g')"
    by (rule mark_loop_turn)
  finally show ?thesis
    using g' mem1 d by (intro exI [of _ ?r] exI [of _ "mark_alive ?f g'"]) (simp add: descending_def)
qed

lemma descend_all:
  "successively (linked m) (x # xs) \<Longrightarrow> descending m d A r h \<Longrightarrow> d + length xs \<le> 127 \<Longrightarrow> distinct (x # xs) \<Longrightarrow>
     set xs \<inter> A = {} \<Longrightarrow> set xs \<inter> stale m = {} \<Longrightarrow> set xs \<inter> (\<lambda>a. a + sizeof_CLR_RT_HeapBlock) ` set (x # xs) = {} \<Longrightarrow>
   \<exists>r' h' A'. mark_loop alloc x 1 r h = mark_loop alloc (last (x # xs)) 1 r' h' \<and>
     descending m (d + length xs) A' r' h' \<and> length (m_markStackList h') = length (m_markStackList h) \<and>
     m_fOutOfStackSpaceForGC h' = m_fOutOfStackSpaceForGC h \<and>
     A' \<subseteq> A \<union> set (x # xs) \<union> (\<lambda>a. a + sizeof_CLR_RT_HeapBlock) ` set (x # xs)"
proof (induction xs arbitrary: x d A r h)
  case Nil
  then show ?case by auto
next
  case (Cons y ys)
  have l: "linked m x y" using Cons.prems(1) by simp
  have "y \<notin> A" "y \<noteq> x" "y \<noteq> x + sizeof_CLR_RT_HeapBlock" "y \<notin> stale m" using Cons.prems(4-7) by auto
  then obtain r1 h1 where 1: "mark_loop alloc x 1 r h = mark_loop alloc y 1 r1 h1"
    "descending m (d + 1) (insert (x + sizeof_CLR_RT_HeapBlock) (insert x A)) r1 h1"
    "length (m_markStackList h1) = length (m_markStackList h)" "m_fOutOfStackSpaceForGC h1 = m_fOutOfStackSpaceForGC h"
    using descend [OF l Cons.prems(2)] Cons.prems(3) by fastforce
  have "set ys \<inter> insert (x + sizeof_CLR_RT_HeapBlock) (insert x A) = {}" "set ys \<inter> stale m = {}" using Cons.prems(4-7) by auto
  moreover have "successively (linked m) (y # ys)" "d + 1 + length ys \<le> 127" "distinct (y # ys)"
    "set ys \<inter> (\<lambda>a. a + sizeof_CLR_RT_HeapBlock) ` set (y # ys) = {}"
    using Cons.prems(1,3,4,7) by auto
  ultimately have "\<exists>r' h' A'. mark_loop alloc y 1 r1 h1 = mark_loop alloc (last (y # ys)) 1 r' h' \<and>
     descending m (d + 1 + length ys) A' r' h' \<and> length (m_markStackList h') = length (m_markStackList h1) \<and>
     m_fOutOfStackSpaceForGC h' = m_fOutOfStackSpaceForGC h1 \<and>
     A' \<subseteq> insert (x + sizeof_CLR_RT_HeapBlock) (insert x A) \<union> set (y # ys) \<union> (\<lambda>a. a + sizeof_CLR_RT_HeapBlock) ` set (y # ys)"
    by (intro Cons.IH 1(2))
  then obtain r' h' A' where "mark_loop alloc y 1 r1 h1 = mark_loop alloc (last (y # ys)) 1 r' h'"
    "descending m (d + 1 + length ys) A' r' h'" "length (m_markStackList h') = length (m_markStackList h1)"
    "m_fOutOfStackSpaceForGC h' = m_fOutOfStackSpaceForGC h1"
    "A' \<subseteq> insert (x + sizeof_CLR_RT_HeapBlock) (insert x A) \<union> set (y # ys) \<union> (\<lambda>a. a + sizeof_CLR_RT_HeapBlock) ` set (y # ys)"
    by (elim exE conjE) (rule that)
  then show ?case using 1 by (intro exI [of _ r'] exI [of _ h'] exI [of _ A']) auto
qed

section \<open>At the end of the first stack\<close>

lemma full_overruns:
  assumes l: "linked m x y" and d: "descending m 127 A r h" and two: "1 < length (m_markStackList h)"
  shows "mark_loop alloc x 1 r h = Some (Fault BadIndex)"
proof -
  have mem: "gmem h = with_marks m A" and st: "stacks_ok r h" and s: "stack r = stackLast r" "stackList r = 0"
    using d by (auto simp: descending_def)
  let ?h1 = "mark_alive x h" and ?f = "x + sizeof_CLR_RT_HeapBlock"
  let ?e = "(?f + sizeof_CLR_RT_HeapBlock, g_dataSize (m x) - 1 - 1)"
  let ?g = "SAVESTATE r ?h1"
  have c: "m_markStack h = 0" "0 < length (m_markStackList h)" "stack_ok (m_markStackList h ! 0) (stack r)"
    "stackLast r = m_last (m_markStackList h ! 0)"
    using st s(2) by (auto simp: stacks_ok_def)
  have len: "length (elements (m_markStackList h ! 0)) = Suc (stack r)"
    using stack_ok_elements [OF c(3)] c(4) s(1) by auto
  have m: "make_room alloc r ?h1 = (Some (LOADSTATE ?g, ?g), ?g)" using s two by (simp add: make_room_def Let_def)
  have "write_element ?e (LOADSTATE ?g\<lparr>stack := stack (LOADSTATE ?g) + 1\<rparr>) ?g = Fault BadIndex"
    using c(1,2) len s(2) by (simp add: write_element_def LOADSTATE_def SAVESTATE_def Let_def)
  moreover have "Suc 0 < g_dataSize (m x) - Suc 0" "Suc 0 < g_dataSize (m x)" "\<not> g_dataSize (m x) \<le> Suc 0"
    using l by (auto simp: linked_def)
  ultimately have "mark_turn alloc ?f (g_dataSize (m x) - 1) r ?h1 = Fault BadIndex"
    using m by (simp add: mark_turn_def Let_def)
  then have "mark_loop alloc ?f (g_dataSize (m x) - 1) r ?h1 = Some (Fault BadIndex)" by (subst mark_loop.simps) simp
  moreover have "mark_loop alloc x 1 r h = mark_loop alloc ?f (g_dataSize (m x) - 1) r ?h1"
    using visit_object [OF l mem] by (intro mark_loop_turn) (simp add: mark_turn_def)
  ultimately show ?thesis by simp
qed

lemma full_takes_further_stack:
  assumes l: "linked m x y" and d: "descending m 127 A r h" and y: "y \<notin> A" "y \<noteq> x" "y \<noteq> x + sizeof_CLR_RT_HeapBlock" "y \<notin> stale m"
    and one: "length (m_markStackList h) = 1" and ov: "\<not> m_fOutOfStackSpaceForGC h" and al: "\<And>n h. alloc n h \<noteq> None"
  shows "\<exists>r' h'. mark_loop alloc x 1 r h = mark_loop alloc y 1 r' h' \<and> length (m_markStackList h') = 2"
proof -
  have mem: "gmem h = with_marks m A" and st: "stacks_ok r h" and s: "stack r = stackLast r" "stackList r = 0"
    using d by (auto simp: descending_def)
  have n: "Suc 0 < g_dataSize (m x) - Suc 0" "Suc 0 < g_dataSize (m x)" "g_dataSize (m x) - Suc 0 \<noteq> 0" "\<not> g_dataSize (m x) \<le> Suc 0"
    using l by (auto simp: linked_def)
  let ?h1 = "mark_alive x h" and ?f = "x + sizeof_CLR_RT_HeapBlock"
  let ?e = "(?f + sizeof_CLR_RT_HeapBlock, g_dataSize (m x) - 1 - 1)"
  have e: "0 < snd ?e" "snd ?e < 2 ^ 32" using l by (auto simp: linked_def)
  have st1: "stacks_ok r ?h1" using st by simp
  obtain k where "alloc (20 + 8 * 128) (gheap ?h1) = Some k" using al [of "20 + 8 * 128" "gheap ?h1"] by auto
  then have a: "allocate_stack alloc c_minimumSpaceForGC (gheap ?h1) = Some (128, k)"
    by (subst allocate_stack.simps) (simp add: c_minimumSpaceForGC_def)
  define g0 where "g0 = SAVESTATE r (?h1\<lparr>gheap := k\<rparr>)"
  define g where "g = g0\<lparr>m_markStackList := m_markStackList g0 @ [MarkStack_Initialize 128],
    m_markStack := length (m_markStackList g0)\<rparr>"
  have m: "make_room alloc r ?h1 = (Some (LOADSTATE g, g), g)"
    using s one a ov by (simp add: make_room_def Let_def g_def g0_def)
  have new: "stackList r + 1 = length (m_markStackList ?h1)" using s one by simp
  note f = further_stack [OF st1 s(1) new _ g0_def g_def, simplified]
  have ok: "stacks_ok (LOADSTATE g) g" "stack (LOADSTATE g) \<noteq> stackLast (LOADSTATE g)" using f(1,4) by simp_all
  let ?r = "LOADSTATE g\<lparr>stack := stack (LOADSTATE g) + 1\<rparr>"
  obtain g' where g': "write_element ?e ?r g = Ret g'" "quiet g' g" "length (m_markStackList g') = length (m_markStackList g)"
    using push_in_place [OF ok e] by blast
  have mem1: "gmem g' = with_marks m (insert x A)"
    using g'(2) f(3) mem by (simp add: quiet_def same_heap_def)
  have "mark_loop alloc x 1 r h = mark_loop alloc ?f (g_dataSize (m x) - 1) r ?h1"
    using visit_object [OF l mem] by (intro mark_loop_turn) (simp add: mark_turn_def)
  also have "mark_turn alloc ?f (g_dataSize (m x) - 1) r ?h1 = Ret (Again y 1 ?r (mark_alive ?f g'))"
    using visit_link [OF l mem1, of ?r] y n m g'(1) by (simp add: mark_turn_def Let_def)
  then have "mark_loop alloc ?f (g_dataSize (m x) - 1) r ?h1 = mark_loop alloc y 1 ?r (mark_alive ?f g')"
    by (rule mark_loop_turn)
  finally show ?thesis using g'(3) one by (intro exI [of _ ?r] exI [of _ "mark_alive ?f g'"]) (simp add: g_def g0_def)
qed

section \<open>Two long lists\<close>

text \<open>The first 129 objects of a list.\<close>

definition deep_list :: "(nat \<Rightarrow> gc_block) \<Rightarrow> nat list \<Rightarrow> bool" where
  "deep_list m xs \<longleftrightarrow> length xs = 129 \<and> distinct xs \<and> successively (linked m) xs \<and> (\<forall>x \<in> set xs. g_data (m x) = G_CLASS)"

lemma successively_linked: "successively (linked m) (xs @ [y]) \<Longrightarrow> a \<in> set xs \<Longrightarrow> \<exists>b. linked m a b"
proof (induction xs)
  case (Cons x xs)
  then show ?case by (cases xs) auto
qed simp

lemma deep_list_fields:
  assumes g: "gc_graph m U" and U: "set xs \<subseteq> U" and l: "deep_list m (xs @ [y])"
  shows "set (xs @ [y]) \<inter> (\<lambda>a. a + sizeof_CLR_RT_HeapBlock) ` set xs = {}"
proof -
  have "\<not> is_container (g_data (m (a + sizeof_CLR_RT_HeapBlock)))" if a: "a \<in> set xs" for a
  proof -
    obtain b where b: "linked m a b" using successively_linked [of m xs y a] l a by (auto simp: deep_list_def)
    then have "a + sizeof_CLR_RT_HeapBlock \<in> set (gc_succ m a)"
      by (auto simp: gc_succ_def linked_def gc_range_pos)
    then show ?thesis using gc_graphD(4) [OF g] U a b by (auto simp: linked_def)
  qed
  moreover have "is_container (g_data (m b))" if "b \<in> set (xs @ [y])" for b
    using l that by (auto simp: deep_list_def)
  ultimately show ?thesis by (intro Int_emptyI) (metis imageE)
qed

lemma idle_descending:
  assumes i: "gc_idle m A ov h" and e: "length (elements (m_markStackList h ! 0)) = 128"
  shows "descending m 0 A (LOADSTATE h) h"
proof -
  let ?r = "LOADSTATE h"
  have st: "stacks_ok ?r h" and p: "pending ?r h = []" and mem: "gmem h = with_marks m A"
    using i by (auto simp: gc_idle_def)
  have z: "stackList ?r = 0" "stack ?r = 0" using pending_empty [OF st] p by auto
  have "stackLast ?r = 127" using st e z by (auto simp: stacks_ok_def stack_ok_def)
  then show ?thesis using st z mem by (simp add: descending_def)
qed

lemma descend_list:
  assumes g: "gc_graph m U" and U: "set xs \<subseteq> U" and l: "deep_list m (xs @ [y])"
    and i: "gc_idle m A ov h" and e: "length (elements (m_markStackList h ! 0)) = 128" and A: "set (xs @ [y]) \<inter> A = {}"
    and S: "set (xs @ [y]) \<inter> stale m = {}"
  obtains r' h' A' where "mark_loop alloc (hd xs) 1 (LOADSTATE h) h = mark_loop alloc (last xs) 1 r' h'"
    "linked m (last xs) y" "descending m 127 A' r' h'" "length (m_markStackList h') = length (m_markStackList h)"
    "m_fOutOfStackSpaceForGC h' = ov" "y \<notin> A'" "y \<noteq> last xs" "y \<noteq> last xs + sizeof_CLR_RT_HeapBlock" "y \<notin> stale m"
proof -
  note f = deep_list_fields [OF g U l]
  obtain x xs' where xs: "xs = x # xs'" using l by (cases xs) (auto simp: deep_list_def)
  have su: "successively (linked m) (x # xs')" "linked m (last (x # xs')) y"
    using l successively_append_iff [of "linked m" xs "[y]"] by (simp_all add: deep_list_def xs)
  have le: "length xs' = 127" using l by (simp add: deep_list_def xs)
  have di: "distinct (x # xs')" "y \<notin> set xs" using l by (auto simp: deep_list_def xs)
  have "set xs' \<inter> A = {}" "set xs' \<inter> stale m = {}" "set xs' \<inter> (\<lambda>a. a + sizeof_CLR_RT_HeapBlock) ` set (x # xs') = {}" using A S f by (auto simp: xs)
  moreover have "0 + length xs' \<le> 127" using le by simp
  ultimately have "\<exists>r' h' A'. mark_loop alloc x 1 (LOADSTATE h) h = mark_loop alloc (last (x # xs')) 1 r' h' \<and>
     descending m (0 + length xs') A' r' h' \<and> length (m_markStackList h') = length (m_markStackList h) \<and>
     m_fOutOfStackSpaceForGC h' = m_fOutOfStackSpaceForGC h \<and>
     A' \<subseteq> A \<union> set (x # xs') \<union> (\<lambda>a. a + sizeof_CLR_RT_HeapBlock) ` set (x # xs')"
    by (intro descend_all su(1) idle_descending [OF i e] di(1))
  then
  obtain r' h' A' where d: "mark_loop alloc x 1 (LOADSTATE h) h = mark_loop alloc (last (x # xs')) 1 r' h'"
    "descending m (0 + length xs') A' r' h'" "length (m_markStackList h') = length (m_markStackList h)"
    "m_fOutOfStackSpaceForGC h' = m_fOutOfStackSpaceForGC h"
    "A' \<subseteq> A \<union> set (x # xs') \<union> (\<lambda>a. a + sizeof_CLR_RT_HeapBlock) ` set (x # xs')"
    by (elim exE conjE) (rule that)
  have "y \<notin> A" "y \<notin> (\<lambda>a. a + sizeof_CLR_RT_HeapBlock) ` set (x # xs')" "y \<notin> set (x # xs')" using A f di(2) by (simp_all add: xs)
  then have "y \<notin> A \<union> set (x # xs') \<union> (\<lambda>a. a + sizeof_CLR_RT_HeapBlock) ` set (x # xs')" by (simp only: Un_iff) simp
  then have y: "y \<notin> A'" using d(5) by (rule contra_subsetD [rotated])
  have l: "last xs \<in> set xs" using xs by simp
  show ?thesis
  proof (rule that)
    show "y \<noteq> last xs" using di(2) l by blast
    show "y \<noteq> last xs + sizeof_CLR_RT_HeapBlock" using f l by fastforce
    show "m_fOutOfStackSpaceForGC h' = ov" using d(4) i by (simp add: gc_idle_def)
  qed (use d y su(2) le S in \<open>simp_all add: xs\<close>)
qed

lemma deep_list_split:
  assumes "deep_list m xs"
  obtains ys y where "xs = ys @ [y]" "ys \<noteq> []"
proof -
  have "xs \<noteq> []" using assms by (auto simp: deep_list_def)
  then have "xs = butlast xs @ [last xs]" by simp
  moreover have "length (butlast xs) = 128" using assms by (simp add: deep_list_def)
  then have "butlast xs \<noteq> []" by (metis list.size(3) zero_neq_numeral)
  ultimately show ?thesis by (rule that)
qed

text \<open>The first list takes a further stack, and the second one overruns the first.\<close>

lemma first_list:
  assumes g: "gc_graph m U" and U: "set xs \<subseteq> U" and l: "deep_list m xs" and A: "set xs \<inter> (A \<union> stale m) = {}"
    and i: "gc_idle m A False h" and e: "length (elements (m_markStackList h ! 0)) = 128"
    and one: "length (m_markStackList h) = 1" and al: "\<And>n h. alloc n h \<noteq> None"
  shows "ComputeReachabilityGraphForMultipleBlocks alloc (hd xs) 1 h = Some (Fault BadIndex) \<or>
    (\<exists>h' A' ov'. ComputeReachabilityGraphForMultipleBlocks alloc (hd xs) 1 h = Some (Ret h') \<and> gc_idle m A' ov' h' \<and>
       1 < length (m_markStackList h') \<and> length (elements (m_markStackList h' ! 0)) = 128 \<and>
       (\<forall>V. A \<union> {hd xs} \<subseteq> V \<longrightarrow> (\<forall>a \<in> V. set (gc_succ m a) \<subseteq> V) \<longrightarrow> A' \<subseteq> V))"
proof -
  obtain ys y where xs: "xs = ys @ [y]" "ys \<noteq> []" by (rule deep_list_split [OF l])
  have hd: "hd xs = hd ys" using xs by simp
  have ys: "set ys \<subseteq> U" "deep_list m (ys @ [y])" "set (ys @ [y]) \<inter> A = {}" "set (ys @ [y]) \<inter> stale m = {}"
    using U l A xs by auto
  obtain r1 h1 A1 where d: "mark_loop alloc (hd ys) 1 (LOADSTATE h) h = mark_loop alloc (last ys) 1 r1 h1"
    "linked m (last ys) y" "descending m 127 A1 r1 h1" "length (m_markStackList h1) = length (m_markStackList h)"
    "m_fOutOfStackSpaceForGC h1 = False" "y \<notin> A1" "y \<noteq> last ys" "y \<noteq> last ys + sizeof_CLR_RT_HeapBlock" "y \<notin> stale m"
    by (rule descend_list [OF g ys(1,2) i e ys(3,4)])
  have one1: "length (m_markStackList h1) = 1" and ov1: "\<not> m_fOutOfStackSpaceForGC h1" using d(4,5) one by simp_all
  obtain r2 h2 where f: "mark_loop alloc (last ys) 1 r1 h1 = mark_loop alloc y 1 r2 h2" "length (m_markStackList h2) = 2"
    using full_takes_further_stack [of m "last ys" y A1 r1 h1 alloc, OF d(2,3,6-9) one1 ov1 al] by blast
  have lU: "set (gc_range (hd xs) 1) \<subseteq> U" using U xs by (cases ys) (auto simp: gc_range_pos)
  have "(ComputeReachabilityGraphForMultipleBlocks alloc (hd xs) 1 h = Some (Fault BadIndex) \<and> may_overrun alloc h) \<or>
    (\<exists>h' A' ov'. ComputeReachabilityGraphForMultipleBlocks alloc (hd xs) 1 h = Some (Ret h') \<and> gc_idle m A' ov' h' \<and>
       gc_called m (gc_range (hd xs) 1) A False A' ov' \<and> (may_overrun alloc h' \<longrightarrow> may_overrun alloc h))"
    by (rule ComputeReachabilityGraph_call [OF g i _ lU]) simp_all
  then show ?thesis
  proof (elim disjE)
    assume "\<exists>h' A' ov'. ComputeReachabilityGraphForMultipleBlocks alloc (hd xs) 1 h = Some (Ret h') \<and>
       gc_idle m A' ov' h' \<and> gc_called m (gc_range (hd xs) 1) A False A' ov' \<and> (may_overrun alloc h' \<longrightarrow> may_overrun alloc h)"
    then obtain h' A' ov' where c: "ComputeReachabilityGraphForMultipleBlocks alloc (hd xs) 1 h = Some (Ret h')"
       "gc_idle m A' ov' h'" "gc_called m (gc_range (hd xs) 1) A False A' ov'" by blast
    then obtain r3 h3 where r3: "mark_loop alloc (hd xs) 1 (LOADSTATE h) h = Some (Ret (r3, h3))" "h' = SAVESTATE r3 h3"
      by (auto simp: ComputeReachabilityGraphForMultipleBlocks_def c_bind_Inr_iff)
    have "stacks_grow h h3" using mark_loop_grow [OF r3(1)] by blast
    moreover have "stacks_grow h2 h3" using mark_loop_grow [of alloc y 1 r2 h2 "Ret (r3, h3)"] r3(1) d(1) f(1) hd by simp
    ultimately have "stacks_grow h h'" "stacks_grow h2 h'"
      using stacks_grow_trans [OF _ SAVESTATE_grow [of h3 r3]] unfolding r3(2) by blast+
    moreover have "m_markStackList h \<noteq> []" using one by auto
    ultimately have "length (elements (m_markStackList h' ! 0)) = 128" "1 < length (m_markStackList h')"
      using f(2) e by (auto simp: stacks_grow_def)
    moreover have "\<forall>V. A \<union> {hd xs} \<subseteq> V \<longrightarrow> (\<forall>a \<in> V. set (gc_succ m a) \<subseteq> V) \<longrightarrow> A' \<subseteq> V"
      using c(3) by (simp add: gc_called_def gc_range_pos)
    ultimately show ?thesis using c(1,2) by blast
  qed simp_all
qed

lemma second_list:
  assumes g: "gc_graph m U" and U: "set xs \<subseteq> U" and l: "deep_list m xs" and A: "set xs \<inter> (A \<union> stale m) = {}"
    and i: "gc_idle m A ov h" and e: "length (elements (m_markStackList h ! 0)) = 128" and two: "1 < length (m_markStackList h)"
  shows "ComputeReachabilityGraphForMultipleBlocks alloc (hd xs) 1 h = Some (Fault BadIndex)"
proof -
  obtain ys y where xs: "xs = ys @ [y]" "ys \<noteq> []" by (rule deep_list_split [OF l])
  have ys: "set ys \<subseteq> U" "deep_list m (ys @ [y])" "set (ys @ [y]) \<inter> A = {}" "set (ys @ [y]) \<inter> stale m = {}"
    using U l A xs by auto
  obtain r1 h1 A1 where d: "mark_loop alloc (hd ys) 1 (LOADSTATE h) h = mark_loop alloc (last ys) 1 r1 h1"
    "linked m (last ys) y" "descending m 127 A1 r1 h1" "length (m_markStackList h1) = length (m_markStackList h)"
    by (rule descend_list [OF g ys(1,2) i e ys(3,4)])
  have "mark_loop alloc (hd xs) 1 (LOADSTATE h) h = Some (Fault BadIndex)"
    using full_overruns [OF d(2,3)] d(1,4) two xs by simp
  then show ?thesis by (simp add: ComputeReachabilityGraphForMultipleBlocks_def)
qed

text \<open>A collection that starts with the heads of two long lists.\<close>

lemma Mark_overruns:
  assumes ok: "gc_heap_ok m hcs bss rt" and none: "\<forall>a \<in> set xs \<union> set ys. \<not> g_alive (m a)" and first: "s_first rt = []"
    and roots: "m_finalizersPending rt = hd xs # hd ys # obs"
    and xs: "deep_list m xs" and ys: "deep_list m ys" and away: "set ys \<inter> gc_reach m {hd xs} = {}"
    and U: "set xs \<union> set ys \<subseteq> all_objects m rt" and al: "\<And>n h. alloc n h \<noteq> None"
  shows "Mark alloc hcs rt m h = Some (Fault BadIndex)"
proof -
  have g: "gc_graph m (settled m \<union> all_objects m rt)" using ok by (simp add: gc_heap_ok_def)
  have old: "set xs \<inter> (settled m \<union> stale m) = {}" "set ys \<inter> (settled m \<union> stale m) = {}"
    using none by (auto simp: settled_def stale_def)
  have h: "hd xs \<in> set xs" "hd ys \<in> set ys"
    using xs ys by (auto simp: deep_list_def intro!: hd_in_set)
  let ?g = "Mark_start m h"
  note i = Mark_start_idle [of m h]
  have e: "length (elements (m_markStackList ?g ! 0)) = 128" "length (m_markStackList ?g) = 1"
    by (simp_all add: Mark_start_def MarkStack_Initialize_def c_minimumSpaceForGC_def)
  let ?call = "\<lambda>a. ComputeReachabilityGraphForMultipleBlocks alloc a 1"
  have "gmem ?g = m" by (simp add: Mark_start_def)
  then have c1: "ComputeReachabilityGraphForSingleBlock alloc (Some (hd xs)) ?g = ?call (hd xs) ?g"
    using none h by (simp add: ComputeReachabilityGraphForSingleBlock_def)
  have "oc_bind (run_check alloc (CheckSingleBlock (Some (hd xs))) ?g)
      (run_checks alloc (CheckSingleBlock (Some (hd ys)) # cs)) = Some (Fault BadIndex)" for cs
  proof -
    have "?call (hd xs) ?g = Some (Fault BadIndex) \<or> (\<exists>h' A' ov'. ?call (hd xs) ?g = Some (Ret h') \<and> gc_idle m A' ov' h' \<and>
       1 < length (m_markStackList h') \<and> length (elements (m_markStackList h' ! 0)) = 128 \<and>
       (\<forall>V. settled m \<union> {hd xs} \<subseteq> V \<longrightarrow> (\<forall>a \<in> V. set (gc_succ m a) \<subseteq> V) \<longrightarrow> A' \<subseteq> V))"
      by (rule first_list [OF g _ xs old(1) i e al]) (use U in auto)
    then show ?thesis
  proof (elim disjE)
    assume "\<exists>h' A' ov'. ?call (hd xs) ?g = Some (Ret h') \<and> gc_idle m A' ov' h' \<and>
       1 < length (m_markStackList h') \<and> length (elements (m_markStackList h' ! 0)) = 128 \<and>
       (\<forall>V. settled m \<union> {hd xs} \<subseteq> V \<longrightarrow> (\<forall>a \<in> V. set (gc_succ m a) \<subseteq> V) \<longrightarrow> A' \<subseteq> V)"
    then obtain h' A' ov' where c: "?call (hd xs) ?g = Some (Ret h')" "gc_idle m A' ov' h'"
      "1 < length (m_markStackList h')" "length (elements (m_markStackList h' ! 0)) = 128"
      "\<forall>V. settled m \<union> {hd xs} \<subseteq> V \<longrightarrow> (\<forall>a \<in> V. set (gc_succ m a) \<subseteq> V) \<longrightarrow> A' \<subseteq> V" by auto
    have "\<forall>a \<in> settled m \<union> gc_reach m {hd xs}. set (gc_succ m a) \<subseteq> settled m \<union> gc_reach m {hd xs}"
      using gc_reach_closed [of _ m "{hd xs}"] by (auto simp: settled_def)
    then have "A' \<subseteq> settled m \<union> gc_reach m {hd xs}" using c(5) gc_reach_roots [of "{hd xs}" m] by blast
    then have A': "set ys \<inter> (A' \<union> stale m) = {}" using away old(2) by blast
    have "ComputeReachabilityGraphForSingleBlock alloc (Some (hd ys)) h' = ?call (hd ys) h'"
      using A' h(2) c(2) by (auto simp: ComputeReachabilityGraphForSingleBlock_def gc_idle_def)
    moreover have "set ys \<subseteq> settled m \<union> all_objects m rt" using U by blast
    ultimately show ?thesis using second_list [OF g _ ys A' c(2,4,3), of alloc] c(1) c1 by simp
  qed (simp_all add: c1)
  qed
  then show ?thesis
    using first roots by (simp add: Mark_def Mark_roots_def)
qed

end
