(* ===== verification/NF_GCProps.thy ===== *)
theory NF_GCProps
  imports NF_GCOverrun NF_HeapSweep
begin

text \<open>
  The properties of a garbage collection: what the mark phase marks, that it returns, where it writes
  behind its stack, what the weak references refer to afterwards, and what is left of a cluster when the
  sweep follows. With a small heap and two long lists as examples.
\<close>

section \<open>Marking\<close>

text \<open>
  C4: the mark phase. On a well-formed heap \<open>Mark\<close>, when no further mark stack can be had, returns, and
  has marked exactly the blocks that can be reached from the roots and from the objects with a finalizer,
  in addition to the old marks; whatever was dropped for lack of space is found by rescanning. An object
  with a finalizer that only the list of finalizers refers to is moved to the pending ones.
\<close>

theorem mark_phase_exact:
  assumes "gc_heap_ok m hcs bss rt" and "\<forall>n h. alloc n h = None"
  shows "\<exists>rt' g. Mark alloc hcs rt m h = Some (Ret (rt', g)) \<and> marked_exactly m rt rt' g"
  using Mark_marks_exactly [OF assms(1), of alloc h] assms(2) by auto

text \<open>
  C15: the mark phase with further mark stacks. Whatever the allocator gives, \<open>Mark\<close> ends, and when it
  returns it has marked exactly what can be reached; the only error is a write behind the end of a mark
  stack, which takes a second stack.
\<close>

theorem mark_phase_ends:
  assumes "gc_heap_ok m hcs bss rt"
  shows "(Mark alloc hcs rt m h = Some (Fault BadIndex) \<and> (\<exists>n h. alloc n h \<noteq> None)) \<or>
    (\<exists>rt' g. Mark alloc hcs rt m h = Some (Ret (rt', g)) \<and> marked_exactly m rt rt' g)"
  by (rule Mark_marks_exactly [OF assms])

text \<open>
  C13: the second long list. When the first two objects to mark are the heads of two lists of at least 129
  objects that are linked by their first field, and the second one cannot be reached from the first, and
  further mark stacks can be had, \<open>Mark\<close> writes behind the end of the first mark stack.
\<close>

theorem second_long_list_overruns_stack:
  assumes "gc_heap_ok m hcs bss rt" and "\<forall>a \<in> set xs \<union> set ys. \<not> g_alive (m a)" and "s_first rt = []"
    and "m_finalizersPending rt = hd xs # hd ys # obs" and "deep_list m xs" and "deep_list m ys"
    and "set ys \<inter> gc_reach m {hd xs} = {}" and "set xs \<union> set ys \<subseteq> all_objects m rt" and "\<And>n h. alloc n h \<noteq> None"
  shows "Mark alloc hcs rt m h = Some (Fault BadIndex)"
  by (rule Mark_overruns [OF assms])

section \<open>Weak references\<close>

definition marks :: "'h gc_state \<Rightarrow> nat set" where
  "marks g = {a. g_alive (gmem g a)}"

lemma mark_alive_marks [simp]: "marks (mark_alive a g) = insert a (marks g)"
  by (auto simp: marks_def mark_alive_def)

definition weak_ok :: "nat set \<Rightarrow> gc_weakref \<Rightarrow> bool" where
  "weak_ok A' w \<longleftrightarrow> w_block w \<in> A' \<and>
     (case m_targetDirect w of None \<Rightarrow> True
      | Some obj \<Rightarrow> obj \<in> A' \<and> (\<forall>ser. m_targetSerialized w = Some ser \<longrightarrow> ser \<in> A'))"

lemma weak_ok_mono: "weak_ok B w \<Longrightarrow> B \<subseteq> B' \<Longrightarrow> weak_ok B' w"
  by (auto simp: weak_ok_def split: option.splits)

lemma MarkWeak_node_marks:
  assumes "MarkWeak_node w g = (w', g')"
  shows "marks g \<subseteq> marks g' \<and> marks g' \<subseteq> marks g \<union> {w_block w} \<union> set_option (m_targetSerialized w) \<and>
    (case w' of None \<Rightarrow> w_block w \<notin> marks g
     | Some v \<Rightarrow> weak_ok (marks g') v \<and> w_block v = w_block w \<and> m_targetSerialized v = m_targetSerialized w)"
proof -
  have a: "g_alive (gmem h b) \<longleftrightarrow> b \<in> marks h" for h :: "'a gc_state" and b by (simp add: marks_def)
  show ?thesis
    using assms by (auto simp: MarkWeak_node_def Let_def a weak_ok_def split: option.splits if_splits)
qed

lemma MarkWeak_marks:
  "MarkWeak ws g = (ws', g') \<Longrightarrow> marks g \<subseteq> marks g' \<and>
     marks g' \<subseteq> marks g \<union> w_block ` set ws \<union> \<Union> ((\<lambda>w. set_option (m_targetSerialized w)) ` set ws) \<and>
     (\<forall>w \<in> set ws'. weak_ok (marks g') w) \<and> set (map w_block ws') \<subseteq> set (map w_block ws)"
proof (induction ws arbitrary: g ws' g')
  case (Cons w ws)
  obtain v g1 where 1: "MarkWeak_node w g = (v, g1)" by (cases "MarkWeak_node w g")
  obtain vs g2 where 2: "MarkWeak ws g1 = (vs, g2)" by (cases "MarkWeak ws g1")
  have e: "ws' = (case v of None \<Rightarrow> vs | Some x \<Rightarrow> x # vs)" "g' = g2" using Cons.prems 1 2 by simp_all
  have n: "marks g \<subseteq> marks g1" "marks g1 \<subseteq> marks g \<union> {w_block w} \<union> set_option (m_targetSerialized w)"
    "\<And>x. v = Some x \<Longrightarrow> weak_ok (marks g1) x \<and> w_block x = w_block w"
    using MarkWeak_node_marks [OF 1] by (auto split: option.splits)
  have ih: "marks g1 \<subseteq> marks g2" "\<forall>x \<in> set vs. weak_ok (marks g2) x" "set (map w_block vs) \<subseteq> set (map w_block ws)"
    "marks g2 \<subseteq> marks g1 \<union> w_block ` set ws \<union> \<Union> ((\<lambda>w. set_option (m_targetSerialized w)) ` set ws)"
    using Cons.IH [OF 2] by blast+
  have "marks g2 \<subseteq> marks g \<union> w_block ` set (w # ws) \<union> \<Union> ((\<lambda>w. set_option (m_targetSerialized w)) ` set (w # ws))"
    using ih(4) n(2) by auto
  moreover have "(\<forall>x \<in> set ws'. weak_ok (marks g2) x) \<and> set (map w_block ws') \<subseteq> set (map w_block (w # ws))"
  proof (cases v)
    case None
    then show ?thesis using ih(2,3) by (auto simp: e(1))
  next
    case (Some x)
    then show ?thesis using ih(2,3) n(3) [OF Some] weak_ok_mono [OF _ ih(1)] by (auto simp: e(1))
  qed
  ultimately show ?case using n(1) ih(1) by (simp add: e(2))
qed simp


text \<open>Without a target the serialized form is not kept, although the weak reference goes on to refer to it.\<close>

lemma serialized_form_dangles:
  assumes "g_alive (gmem g w)" and "\<not> g_alive (gmem g obj)" and "\<not> g_alive (gmem g ser)"
  shows "MarkWeak [\<lparr>w_block = w, w_restored = False, m_targetDirect = Some obj, m_targetSerialized = Some ser\<rparr>] g =
    ([\<lparr>w_block = w, w_restored = False, m_targetDirect = None, m_targetSerialized = Some ser\<rparr>], g)"
  using assms by (simp add: MarkWeak_node_def)

section \<open>Marking and sweeping\<close>

text \<open>
  A cluster whose payload starts at an address, as the marker sees it, and the cluster with the marks the
  marker has set. A block that is marked before a collection is an event.
\<close>

abbreviation block_address :: "nat \<Rightarrow> nat \<Rightarrow> nat" where
  "block_address base b \<equiv> base + b * sizeof_CLR_RT_HeapBlock"

definition cluster_at :: "nat \<Rightarrow> cluster \<Rightarrow> nat list \<Rightarrow> (nat \<Rightarrow> gc_block) \<Rightarrow> bool" where
  "cluster_at base c bs m \<longleftrightarrow> (\<forall>b \<in> set bs.
     g_alive (m (block_address base b)) = IsAlive (blocks c b) \<and> (IsAlive (blocks c b) \<longrightarrow> IsEvent (blocks c b)))"

definition store_marks :: "nat \<Rightarrow> 'h gc_state \<Rightarrow> cluster \<Rightarrow> cluster" where
  "store_marks base g c = c\<lparr>blocks := \<lambda>b.
     if g_alive (gmem g (block_address base b)) then MarkAlive (blocks c b) else blocks c b\<rparr>"

lemma alive_bit: "x AND (1 :: u8) \<noteq> 0 \<longleftrightarrow> bit x 0"
  by (simp add: and_one_eq bit_0 odd_iff_mod_2_eq_one)

lemma MarkAlive_IsAlive [simp]: "IsAlive (MarkAlive b)"
  by (simp add: IsFlagSet_def MarkAlive_def HB_Alive_def alive_bit bit_simps)

lemma MarkAlive_simps [simp]:
  "dataType (MarkAlive b) = dataType b" "dataSize (MarkAlive b) = dataSize b" "IsEvent (MarkAlive b) = IsEvent b"
  by (simp_all add: MarkAlive_def IsFlagSet_def HB_Alive_def HB_Event_def bit.conj_disj_distrib2)

lemma MarkDead_MarkAlive: "\<not> IsAlive b \<Longrightarrow> MarkDead (MarkAlive b) = b"
  by (cases b) (auto simp: IsFlagSet_def MarkAlive_def MarkDead_def HB_Alive_def alive_bit bit_eq_iff bit_simps)

lemma blocks_store_marks:
  "blocks (store_marks base g c) b =
     (if g_alive (gmem g (block_address base b)) then MarkAlive (blocks c b) else blocks c b)"
  by (simp add: store_marks_def)

lemma tseg_store_marks: "tseg (store_marks base g c) a bs e = tseg c a bs e"
  by (induction bs arbitrary: a) (auto simp: blocks_store_marks block_ok_def)

lemma store_marks_simps [simp]:
  "m_payloadSize (store_marks base g c) = m_payloadSize c" "is_free (store_marks base g c) b = is_free c b"
  by (simp_all add: store_marks_def is_free_def)

lemma kept_alive: "filter (\<lambda>b. IsAlive (blocks c b)) (kept c d bs) = filter (\<lambda>b. IsAlive (blocks c b)) bs"
  by (induction bs arbitrary: d) auto

lemma after_sweep_free:
  assumes "after_sweep c bs c'"
  shows "\<forall>b \<in> set (kept c False bs). is_free c' b \<longleftrightarrow> \<not> IsAlive (blocks c b)"
proof -
  have "set (filter (is_free c') (kept c False bs)) = set (filter (\<lambda>b. \<not> IsAlive (blocks c b)) (kept c False bs))"
    using assms by (simp add: after_sweep_def dead_first_def)
  then show ?thesis by auto
qed


section \<open>Examples\<close>

lemma gc_graph_reach:
  assumes "gc_graph m D" and "settled m \<union> R \<subseteq> D"
  shows "gc_reach m R \<subseteq> D" "gc_graph m (settled m \<union> gc_reach m R)"
proof -
  show sub: "gc_reach m R \<subseteq> D"
    using assms gc_graphD(1) [OF assms(1)] by (intro gc_reach_least) auto
  have "set (gc_succ m a) \<subseteq> settled m \<union> gc_reach m R" if "a \<in> settled m \<union> gc_reach m R" for a
    using that gc_reach_closed [of a m R] by (auto simp: settled_def)
  moreover have "a \<in> D" if "a \<in> settled m \<union> gc_reach m R" for a using that sub assms(2) by auto
  ultimately show "gc_graph m (settled m \<union> gc_reach m R)"
    using assms(1) sub unfolding gc_graph_def by (auto intro: finite_subset)
qed

lemma gc_reach_step: "a \<in> gc_reach m R \<Longrightarrow> b \<in> set (gc_succ m a) \<Longrightarrow> b \<in> gc_reach m R"
  using gc_reach_closed [of a m R] by blast

text \<open>
  Five objects, an event and two static fields, the first of which refers to the object at 0. The objects
  at 0 and 72 refer to each other, nothing refers to those at 36 and 120, and the one at 120 has a
  finalizer. The field at 84 has an old mark.
\<close>

definition no_roots :: gc_roots where
  "no_roots = \<lparr>s_first = [], m_finalizersPending = [], m_finalizersAlive = [], assemblies = [], m_threadsReady = [],
     m_threadsWaiting = [], m_globalLock = None, m_currentUICulture = None, m_scratchPadArray = None\<rparr>"

definition small_heap :: "nat \<Rightarrow> gc_block" where
  "small_heap a =
     (let obj = \<lambda>n. \<lparr>g_alive = False, g_event = False, g_dataSize = n, g_data = G_CLASS\<rparr>;
          ref = \<lambda>al b. \<lparr>g_alive = al, g_event = False, g_dataSize = 1, g_data = G_OBJECT b\<rparr> in
      if a = 0 then obj 3 else if a = 12 then ref False (Some 72) else if a = 24 then ref False None
      else if a = 36 then obj 3 else if a = 48 then ref False (Some 0)
      else if a = 72 then obj 2 else if a = 84 then ref True (Some 0)
      else if a = 96 then \<lparr>g_alive = True, g_event = True, g_dataSize = 2, g_data = G_Other\<rparr>
      else if a = 120 then obj 2
      else if a = 1000 then ref False (Some 0)
      else \<lparr>g_alive = False, g_event = False, g_dataSize = 2, g_data = G_Other\<rparr>)"

definition small_roots :: gc_roots where
  "small_roots = no_roots\<lparr>m_finalizersAlive := [120],
     assemblies := [\<lparr>m_pStaticFields = Some 1000, m_iStaticFields = 2, m_pFile = None\<rparr>]\<rparr>"

abbreviation small_reached :: "nat set" where
  "small_reached \<equiv> {0, 12, 24, 72, 84, 120, 132, 1000, 1012}"

lemma small_range:
  "gc_range 12 2 = [12, 24]" "gc_range 48 2 = [48, 60]" "gc_range 84 1 = [84]" "gc_range 132 1 = [132]" "gc_range 1000 2 = [1000, 1012]"
  by (simp_all add: gc_range_pos sizeof_CLR_RT_HeapBlock_def)

lemma small_succ:
  "gc_succ small_heap a = (if a = 0 then [12, 24] else if a = 12 then [72] else if a = 36 then [48, 60]
     else if a = 48 \<or> a = 84 \<or> a = 1000 then [0] else if a = 72 then [84] else if a = 120 then [132] else [])"
  using small_range by (simp add: gc_succ_def small_heap_def Let_def sizeof_CLR_RT_HeapBlock_def)

lemma small_marks: "settled small_heap = {96}" "stale small_heap = {84}"
  by (auto simp: settled_def stale_def small_succ) (auto simp: small_heap_def Let_def split: if_splits)

lemma small_root_blocks: "all_roots (Mark_roots small_roots) = {1000, 1012}"
  by (simp add: all_roots_def Mark_roots_def Assembly_Mark_def small_roots_def no_roots_def small_range)

lemma small_all: "all_objects small_heap small_roots = small_reached"
proof
  let ?R = "all_objects small_heap small_roots"
  have R: "?R = gc_reach small_heap {1000, 1012, 120}"
    by (simp add: all_objects_def small_root_blocks) (simp add: small_roots_def insert_commute)
  show "?R \<subseteq> small_reached" unfolding R by (intro gc_reach_least) (auto simp: small_succ)
  have step: "b \<in> ?R" if "a \<in> ?R" "b \<in> set (gc_succ small_heap a)" for a b
    using that gc_reach_step unfolding R by blast
  have r: "1000 \<in> ?R" "1012 \<in> ?R" "120 \<in> ?R" using gc_reach_roots [of "{1000, 1012, 120}" small_heap] unfolding R by auto
  have "0 \<in> ?R" "132 \<in> ?R" using step [OF r(1), of 0] step [OF r(3), of 132] by (simp_all add: small_succ)
  moreover from this have "12 \<in> ?R" "24 \<in> ?R" using step [of 0 12] step [of 0 24] by (simp_all add: small_succ)
  moreover from this have "72 \<in> ?R" using step [of 12 72] by (simp add: small_succ)
  moreover from this have "84 \<in> ?R" using step [of 72 84] by (simp add: small_succ)
  ultimately show "small_reached \<subseteq> ?R" using r by simp
qed

lemma small_ok: "gc_heap_ok small_heap [(0, 168)] [[0, 36, 72, 96, 120, 144]] small_roots"
proof -
  have "gc_graph small_heap (insert 96 small_reached)"
    by (simp add: gc_graph_def small_succ small_marks) (simp add: small_heap_def Let_def)
  moreover have "insert 96 small_reached = settled small_heap \<union> all_objects small_heap small_roots"
    by (auto simp: small_all small_marks)
  ultimately have "gc_graph small_heap (settled small_heap \<union> all_objects small_heap small_roots)" by simp
  moreover have "\<forall>c \<in> set (Mark_roots small_roots). check_ok small_heap c"
    by (simp add: Mark_roots_def Assembly_Mark_def small_roots_def no_roots_def check_ok_def small_range small_heap_def Let_def)
  moreover have "clusters_tiled small_heap [(0, 168)] [[0, 36, 72, 96, 120, 144]]"
    by (simp add: small_heap_def Let_def sizeof_CLR_RT_HeapBlock_def)
  moreover have "set (m_finalizersAlive small_roots) \<inter> stale small_heap = {}" by (simp add: small_roots_def small_marks)
  moreover have "\<forall>b \<in> heads [[0, 36, 72, 96, 120, 144]]. b \<notin> stale small_heap \<and>
      (g_event (small_heap b) \<longrightarrow> \<not> is_container (g_data (small_heap b)))"
    by (simp add: small_marks) (simp add: small_heap_def Let_def)
  moreover have "\<forall>a \<in> settled small_heap \<union> all_objects small_heap small_roots.
      is_container (g_data (small_heap a)) \<longrightarrow> a \<in> heads [[0, 36, 72, 96, 120, 144]]"
    by (simp add: small_marks small_all) (simp add: small_heap_def Let_def)
  ultimately show ?thesis unfolding gc_heap_ok_def by blast
qed

theorem mark_phase_exact_witness:
  "\<exists>rt' g. Mark (\<lambda>n h. None) [(0, 168)] small_roots small_heap () = Some (Ret (rt', g)) \<and>
     gmem g = with_marks small_heap {96, 0, 12, 24, 72, 84, 120, 132, 1000, 1012} \<and> m_finalizersPending rt' = [120]"
proof -
  obtain rt' g where r: "Mark (\<lambda>n h. None) [(0, 168)] small_roots small_heap () = Some (Ret (rt', g))"
    "marked_exactly small_heap small_roots rt' g"
    using mark_phase_exact [OF small_ok, of "\<lambda>n h. None" "()"] by auto
  obtain ps as where f: "m_finalizersPending rt' = ps" "set ps \<union> set as = {120}" "length ps + length as = 1"
    "set as \<subseteq> {96} \<union> gc_reach small_heap ({1000, 1012} \<union> set ps)"
    using r(2) by (auto simp: marked_exactly_def small_root_blocks small_marks) (simp add: small_roots_def no_roots_def)
  have "gc_reach small_heap {1000, 1012} \<subseteq> {0, 12, 24, 72, 84, 1000, 1012}"
    by (intro gc_reach_least) (auto simp: small_succ)
  then have "ps \<noteq> []" using f(2,4) by auto
  then have "ps = [120]" using f(2,3) by (cases ps) auto
  moreover have "gmem g = with_marks small_heap {96, 0, 12, 24, 72, 84, 120, 132, 1000, 1012}"
    using r(2) by (simp add: marked_exactly_def small_marks small_all insert_commute)
  ultimately show ?thesis using r(1) f(1) by blast
qed

theorem mark_phase_ends_witness:
  "(Mark (\<lambda>n h. Some h) [(0, 168)] small_roots small_heap () = Some (Fault BadIndex)) \<or>
   (\<exists>rt' g. Mark (\<lambda>n h. Some h) [(0, 168)] small_roots small_heap () = Some (Ret (rt', g)) \<and>
      marked_exactly small_heap small_roots rt' g)"
  using mark_phase_ends [OF small_ok, of "\<lambda>n h. Some h" "()"] by blast

definition small_cluster :: cluster where
  "small_cluster = \<lparr>m_first = Blk 12, m_null = Null, m_last = Blk 12, blocks = (\<lambda>a.
     let blk = \<lambda>dt fl sz nx pv. \<lparr>dataType = dt, hflags = fl, dataSize = sz, nextBlock = nx, prevBlock = pv,
       weak_flags = 0, weak_target = False, arr_typeOfElement = 0, arr_sizeOfElement = 0, arr_fReference = 0,
       arr_numOfElements = 0\<rparr> in
     if a = 0 \<or> a = 3 then blk 17 0 3 Null Null
     else if a = 6 \<or> a = 10 then blk 17 0 2 Null Null
     else if a = 8 then blk 40 (HB_Event OR HB_Alive) 2 Null Null
     else blk DATATYPE_FREEBLOCK HB_Pinned 2 Tail Head), m_payloadSize = 14\<rparr>"

lemmas small_cluster_defs = small_cluster_def Let_def is_free_def IsFlagSet_def block_ok_def
  DATATYPE_FREEBLOCK_def DATATYPE_FIRST_INVALID_def HB_Alive_def HB_Pinned_def HB_Event_def


lemma small_MarkWeak:
  "MarkWeak [\<lparr>w_block = 96, w_restored = False, m_targetDirect = Some 96, m_targetSerialized = Some 36\<rparr>] (Mark_start small_heap ()) =
   ([\<lparr>w_block = 96, w_restored = False, m_targetDirect = Some 96, m_targetSerialized = Some 36\<rparr>],
    mark_alive 36 (Mark_start small_heap ()))"
  by (simp add: MarkWeak_node_def Mark_start_def small_heap_def Let_def)


text \<open>Two lists of 129 objects of two fields each, one behind the other.\<close>

definition list_heap :: "nat \<Rightarrow> gc_block" where
  "list_heap a = \<lparr>g_alive = False, g_event = False, g_dataSize = (if a mod 36 = 0 then 3 else 1), g_data =
     (if a < 9288 \<and> a mod 36 = 0 then G_CLASS
      else if a < 9288 \<and> a mod 36 = 12 \<and> a \<noteq> 4620 \<and> a \<noteq> 9264 then G_OBJECT (Some (a + 24)) else G_Other)\<rparr>"

definition list_roots :: gc_roots where
  "list_roots = no_roots\<lparr>m_finalizersPending := [0, 4644]\<rparr>"

abbreviation list_nodes :: "nat \<Rightarrow> nat list" where
  "list_nodes a \<equiv> map (\<lambda>k. a + 36 * k) [0..<129]"

lemma list_succ:
  "gc_succ list_heap a = (if a < 9288 \<and> a mod 36 = 0 then [a + 12, a + 24]
     else if a < 9288 \<and> a mod 36 = 12 \<and> a \<noteq> 4620 \<and> a \<noteq> 9264 then [a + 24] else [])"
  by (simp add: gc_succ_def list_heap_def gc_range_pos sizeof_CLR_RT_HeapBlock_def numeral_2_eq_2)

lemma list_unmarked [simp]: "settled list_heap = {}" "stale list_heap = {}"
  by (simp_all add: settled_def stale_def list_heap_def)

lemma list_near:
  assumes "a mod 36 = (r::nat)" and "r < 36" and "a < 36 * n"
  shows "a + (35 - r) < 36 * n"
proof -
  define q where "q = a div 36"
  have a: "a = 36 * q + r" unfolding q_def using assms(1) by (metis mult_div_mod_eq)
  then have "q < n" using assms(3) by linarith
  then show ?thesis using a assms(2) by linarith
qed

lemma list_mod: "a mod 36 = (0::nat) \<Longrightarrow> (a + 12) mod 36 = 12" "a mod 36 = (0::nat) \<Longrightarrow> (a + 24) mod 36 = 24"
  "a mod 36 = (12::nat) \<Longrightarrow> (a + 24) mod 36 = 0"
  by presburger+

lemma list_container: "is_container (g_data (list_heap a)) \<longleftrightarrow> a < 9288 \<and> a mod 36 = 0"
  by (simp add: list_heap_def)

lemma list_graph: "gc_graph list_heap {..<9288}"
proof -
  have "set (gc_succ list_heap a) \<subseteq> {..<9288}" if "a < 9288" for a
    using list_near [of a 0 258] list_near [of a 12 258] that by (auto simp: list_succ)
  moreover have "\<not> is_container (g_data (list_heap c))"
    if "is_container (g_data (list_heap a))" "c \<in> set (gc_succ list_heap a)" for a c
    using that list_mod(1,2) [of a] by (auto simp: list_succ list_container)
  moreover have "length (gc_succ list_heap a) < 2 ^ 32" "g_data (list_heap a) \<noteq> G_BINARY_BLOB_HEAD True" for a
    by (simp_all add: list_succ) (simp add: list_heap_def)
  ultimately show ?thesis unfolding gc_graph_def by (simp add: list_container)
qed

lemma list_next: "a = 36 * k \<Longrightarrow> k \<noteq> 128 \<Longrightarrow> k < 257 \<Longrightarrow> linked list_heap a (36 + a)"
  by (simp add: linked_def list_heap_def sizeof_CLR_RT_HeapBlock_def)

lemma list_deep: "b = 0 \<or> b = 129 \<Longrightarrow> deep_list list_heap (list_nodes (36 * b))"
  unfolding deep_list_def successively_conv_nth
  using list_next [of "36 * b + 36 * i" "b + i" for i]
  by (auto simp: distinct_map inj_on_def list_heap_def)

lemma list_reach:
  assumes b: "b = 0 \<or> b = 129" and r: "36 * b \<in> gc_reach list_heap R"
  shows "set (list_nodes (36 * b)) \<subseteq> gc_reach list_heap R"
proof -
  have "k < 129 \<Longrightarrow> 36 * b + 36 * k \<in> gc_reach list_heap R" for k
  proof (induction k)
    case (Suc k)
    let ?a = "36 * b + 36 * k"
    have a: "?a < 9288" "?a mod 36 = 0" "?a + 12 < 9288" "?a + 12 \<noteq> 4620" "?a + 12 \<noteq> 9264"
      using b Suc.prems by auto
    have "?a + 12 \<in> gc_reach list_heap R"
      by (rule gc_reach_step [of ?a]) (use Suc a(1,2) in \<open>simp_all add: list_succ\<close>)
    then have "?a + 12 + 24 \<in> gc_reach list_heap R"
      by (rule gc_reach_step) (use a list_mod(1) [OF a(2)] in \<open>simp add: list_succ\<close>)
    then show ?case by (simp add: algebra_simps)
  qed (use r in simp)
  then show ?thesis by auto
qed

lemma list_away: "gc_reach list_heap {0} \<subseteq> {..<4644}"
proof (rule gc_reach_least)
  have "set (gc_succ list_heap a) \<subseteq> {..<4644}" if "a < 4644" for a
    using list_near [of a 0 129] list_near [of a 12 129] that by (auto simp: list_succ)
  then show "\<forall>a \<in> {..<4644}. set (gc_succ list_heap a) \<subseteq> {..<4644}" by blast
qed simp

lemma list_tiles: "k \<le> 258 \<Longrightarrow> gc_tiles list_heap (36 * k) (map ((*) 36) [k..<258]) 9288"
proof (induction rule: inc_induct)
  case (step k)
  have e: "36 * k + 3 * sizeof_CLR_RT_HeapBlock = 36 * Suc k" by (simp add: sizeof_CLR_RT_HeapBlock_def)
  have d: "g_dataSize (list_heap (36 * k)) = 3" by (simp add: list_heap_def)
  have u: "[k..<258] = k # [Suc k..<258]" using step.hyps by (simp add: upt_conv_Cons)
  show ?case unfolding u list.map gc_tiles.simps d e using step.IH by (simp del: mult_Suc_right)
qed simp

lemma list_all: "all_objects list_heap list_roots = gc_reach list_heap {0, 4644}"
proof -
  have "all_roots (Mark_roots list_roots) = {0, 4644}"
    by (simp add: all_roots_def Mark_roots_def Assembly_Mark_def list_roots_def no_roots_def insert_commute)
  then show ?thesis by (simp add: all_objects_def) (simp add: list_roots_def no_roots_def)
qed

lemma list_ok: "gc_heap_ok list_heap [(0, 9288)] [map ((*) 36) [0..<258]] list_roots"
proof -
  have sub: "settled list_heap \<union> {0, 4644} \<subseteq> {..<9288}" by simp
  note g = gc_graph_reach [OF list_graph sub]
  have "a \<in> (*) 36 ` {0..<258}" if "a < 9288" "a mod 36 = 0" for a :: nat
    using that by (intro image_eqI [of _ _ "a div 36"]) auto
  then have "\<forall>a \<in> settled list_heap \<union> all_objects list_heap list_roots.
      is_container (g_data (list_heap a)) \<longrightarrow> a \<in> heads [map ((*) 36) [0..<258]]"
    by (simp add: list_container)
  moreover have "gc_graph list_heap (settled list_heap \<union> all_objects list_heap list_roots)" using g(2) unfolding list_all .
  moreover have "\<forall>c \<in> set (Mark_roots list_roots). check_ok list_heap c"
    by (simp add: Mark_roots_def Assembly_Mark_def list_roots_def no_roots_def check_ok_def)
  moreover have "clusters_tiled list_heap [(0, 9288)] [map ((*) 36) [0..<258]]" using list_tiles [of 0] by simp
  moreover have "\<forall>b \<in> heads [map ((*) 36) [0..<258]]. b \<notin> stale list_heap \<and>
      (g_event (list_heap b) \<longrightarrow> \<not> is_container (g_data (list_heap b)))"
    by (simp add: list_heap_def)
  ultimately show ?thesis unfolding gc_heap_ok_def list_unmarked by blast
qed

theorem second_long_list_overruns_stack_witness:
  "Mark (\<lambda>n h. Some h) [(0, 9288)] list_roots list_heap () = Some (Fault BadIndex)"
proof (rule second_long_list_overruns_stack [OF list_ok, where xs = "list_nodes 0" and ys = "list_nodes 4644" and obs = "[]"])
  show "deep_list list_heap (list_nodes 0)" "deep_list list_heap (list_nodes 4644)"
    using list_deep [of 0] list_deep [of 129] by simp_all
  show "m_finalizersPending list_roots = hd (list_nodes 0) # hd (list_nodes 4644) # []"
    by (simp add: list_roots_def upt_conv_Cons)
  have "set (list_nodes 4644) \<inter> {..<4644} = {}" by auto
  then show "set (list_nodes 4644) \<inter> gc_reach list_heap {hd (list_nodes 0)} = {}"
    using list_away by (auto simp: upt_conv_Cons)
  show "set (list_nodes 0) \<union> set (list_nodes 4644) \<subseteq> all_objects list_heap list_roots"
    using list_reach [of 0 "{0, 4644}"] list_reach [of 129 "{0, 4644}"] gc_reach_roots [of "{0, 4644}" list_heap]
    unfolding list_all by simp
qed (simp_all add: list_heap_def list_roots_def no_roots_def)

end
