(* ===== verification/NF_Base64.thy ===== *)
theory NF_Base64
  imports NF_Unicode
begin

text \<open>
  Base64 (Helpers/Base64/base64.c) and the native methods of \<open>System.Convert\<close> that use it
  (corlib_native_System_Convert.cpp): \<open>ToBase64String\<close> with its line breaks and \<open>FromBase64CharArray\<close>.

  What \<open>platform_malloc\<close> returns, a buffer of unknown contents or nothing, is a parameter.
\<close>

section \<open>The codec\<close>

definition base64_enc_map :: "u8 list" where
  "base64_enc_map = map of_nat ([65..<91] @ [97..<123] @ [48..<58] @ [43, 47])"

definition mod_table :: "nat list" where "mod_table = [0, 2, 1]"

subsection \<open>Encoding\<close>

definition octet :: "u8 list \<Rightarrow> nat \<Rightarrow> nat \<Rightarrow> u32 c_result" where
  "octet src slen i = (if i < slen then c_bind (c_index src i) (\<lambda>b. Ret (ucast b)) else Ret 0)"

definition sextet_char :: "u32 \<Rightarrow> nat \<Rightarrow> u8" where
  "sextet_char triple k = base64_enc_map ! unat (drop_bit k triple AND 0x3F)"

function encode_loop :: "u8 list \<Rightarrow> nat \<Rightarrow> nat \<Rightarrow> nat \<Rightarrow> u8 list \<Rightarrow> u8 list c_result" where
  "encode_loop src slen i j dst =
     (if i < slen then
        c_bind (octet src slen i) (\<lambda>a.
        c_bind (octet src slen (i + 1)) (\<lambda>b.
        c_bind (octet src slen (i + 2)) (\<lambda>c.
        let triple = push_bit 16 a + push_bit 8 b + c in
        c_bind (c_store dst j (sextet_char triple 18)) (\<lambda>dst.
        c_bind (c_store dst (j + 1) (sextet_char triple 12)) (\<lambda>dst.
        c_bind (c_store dst (j + 2) (sextet_char triple 6)) (\<lambda>dst.
        c_bind (c_store dst (j + 3) (sextet_char triple 0)) (\<lambda>dst.
        encode_loop src slen (min slen (i + 3)) (j + 4) dst)))))))
      else Ret dst)"
  by auto
termination by (relation "measure (\<lambda>(_, slen, i, _). slen - i)") auto

declare encode_loop.simps [simp del]

fun pad_loop :: "nat \<Rightarrow> nat \<Rightarrow> nat \<Rightarrow> u8 list \<Rightarrow> u8 list c_result" where
  "pad_loop 0 i olen dst = Ret dst"
| "pad_loop (Suc n) i olen dst =
     (if olen < i + 1 then Fault BadIndex
      else c_bind (c_store dst (olen - 1 - i) 61) (pad_loop n (i + 1) olen))"

definition mbedtls_base64_encode :: "u8 list \<Rightarrow> nat \<Rightarrow> u8 list \<Rightarrow> nat \<Rightarrow> u8 list c_result" where
  "mbedtls_base64_encode dst olen src slen =
     c_bind (encode_loop src slen 0 0 dst) (\<lambda>dst.
     c_bind (pad_loop (mod_table ! (slen mod 3)) 0 olen dst) (\<lambda>dst.
     c_store dst olen 0))"

subsection \<open>Decoding\<close>

text \<open>
  The decoding table lies in memory that was not cleared. Whether its type \<open>char\<close> is signed depends on the
  target.
\<close>

definition build_decoding_table :: "u8 list \<Rightarrow> u8 list" where
  "build_decoding_table t = fold (\<lambda>i t. t[unat (base64_enc_map ! i) := of_nat i]) [0..<64] t"

definition sextet :: "bool \<Rightarrow> u8 list \<Rightarrow> u8 list \<Rightarrow> nat \<Rightarrow> u32 c_result" where
  "sextet char_signed t src i =
     c_bind (c_index src i) (\<lambda>ch.
     if ch = 61 then Ret 0 else c_bind (c_index t (unat ch)) (\<lambda>v. Ret (promote_char char_signed v)))"

definition put_below :: "nat \<Rightarrow> u32 \<Rightarrow> nat \<times> u8 list \<Rightarrow> (nat \<times> u8 list) c_result" where
  "put_below olen v = (\<lambda>(j, dst).
     if j < olen then c_bind (c_store dst j (ucast v)) (\<lambda>dst. Ret (j + 1, dst)) else Ret (j, dst))"

function decode_loop ::
    "bool \<Rightarrow> u8 list \<Rightarrow> u8 list \<Rightarrow> nat \<Rightarrow> nat \<Rightarrow> nat \<Rightarrow> nat \<times> u8 list \<Rightarrow> u8 list c_result" where
  "decode_loop cs t src slen olen i out =
     (if i < slen then
        c_bind (sextet cs t src i) (\<lambda>a.
        c_bind (sextet cs t src (i + 1)) (\<lambda>b.
        c_bind (sextet cs t src (i + 2)) (\<lambda>c.
        c_bind (sextet cs t src (i + 3)) (\<lambda>d.
        let triple = push_bit 18 a + push_bit 12 b + push_bit 6 c + d in
        c_bind (put_below olen (drop_bit 16 triple) out) (\<lambda>out.
        c_bind (put_below olen (drop_bit 8 triple) out) (\<lambda>out.
        c_bind (put_below olen triple out) (\<lambda>out.
        decode_loop cs t src slen olen (i + 4) out)))))))
      else Ret (snd out))"
  by auto
termination by (relation "measure (\<lambda>(_, _, _, slen, _, i, _). slen - i)") auto

declare decode_loop.simps [simp del]

text \<open>The result, whether the table was released, and the destination.\<close>

definition mbedtls_base64_decode ::
    "bool \<Rightarrow> u8 list option \<Rightarrow> u8 list \<Rightarrow> nat \<Rightarrow> u8 list \<Rightarrow> nat \<Rightarrow> (int \<times> bool \<times> u8 list) c_result" where
  "mbedtls_base64_decode cs table dst olen src slen =
     (case table of
        None \<Rightarrow> Ret (- 1, True, dst)
      | Some t \<Rightarrow>
          let t = build_decoding_table t in
          if slen mod 4 \<noteq> 0 then Ret (- 1, False, dst)
          else c_bind (decode_loop cs t src slen olen 0 (0, dst)) (\<lambda>dst. Ret (0, True, dst)))"

section \<open>Convert.ToBase64String\<close>

definition CLR_E_ARGUMENT_NULL :: hresult where "CLR_E_ARGUMENT_NULL = MAKE_HRESULT 1 0x4E00 0"

text \<open>
  The call \<open>k\<close> of \<open>platform_malloc\<close> for a number of bytes. The lengths are 32-bit, as \<open>size_t\<close> is on the
  targets; the counter of line breaks has 8 bits and the offset 16.
\<close>

fun c_copy :: "u8 list \<Rightarrow> int \<Rightarrow> u8 list \<Rightarrow> int \<Rightarrow> nat \<Rightarrow> u8 list c_result" where
  "c_copy dst d src s 0 = Ret dst"
| "c_copy dst d src s (Suc n) =
     (if d < 0 \<or> s < 0 then Fault BadIndex
      else c_bind (c_index src (nat s)) (\<lambda>b.
           c_bind (c_store dst (nat d) b) (\<lambda>dst. c_copy dst (d + 1) src (s + 1) n)))"

fun line_loop :: "nat \<Rightarrow> nat \<Rightarrow> u8 list \<Rightarrow> u32 \<Rightarrow> u16 \<Rightarrow> u8 list \<Rightarrow> u8 list c_result" where
  "line_loop 0 i out outputLength offsetIndex arr = Ret arr"
| "line_loop (Suc n) i out outputLength offsetIndex arr =
     (let count = (if outputLength > 76 then 76 else ucast outputLength :: u8) in
      c_bind (c_copy arr (uint offsetIndex) out (uint offsetIndex - int i * 2) (unat count)) (\<lambda>arr.
      if outputLength \<ge> 76 then
        c_bind (c_store arr (unat count + unat offsetIndex) 13) (\<lambda>arr.
        c_bind (c_store arr (unat count + unat offsetIndex + 1) 10) (\<lambda>arr.
        line_loop n (i + 1) out (outputLength - 76) (offsetIndex + (ucast count + 2)) arr))
      else
        let offsetIndex = offsetIndex + ucast count in
        c_bind (c_store arr (unat offsetIndex) 0) (line_loop n (i + 1) out outputLength offsetIndex)))"

text \<open>The string that \<open>SetResult_String\<close> makes: what stands before the terminator.\<close>

definition c_string :: "u8 list \<Rightarrow> u8 list c_result" where
  "c_string s = (if 0 \<in> set s then Ret (takeWhile (\<lambda>c. c \<noteq> 0) s) else Fault BadIndex)"

definition ToBase64String ::
    "(nat \<Rightarrow> u32 \<Rightarrow> u8 list option) \<Rightarrow> u8 list option \<Rightarrow> u32 \<Rightarrow> u32 \<Rightarrow> bool \<Rightarrow> (hresult \<times> u8 list option) c_result" where
  "ToBase64String malloc inArray off len insertLineBreaks =
     (case inArray of
        None \<Rightarrow> Ret (CLR_E_ARGUMENT_NULL, None)
      | Some src \<Rightarrow>
          let outputLength = 4 * ((len + 2) div 3) in
          case malloc 0 (outputLength + 1) of
            None \<Rightarrow> Ret (CLR_E_OUT_OF_MEMORY, None)
          | Some out \<Rightarrow>
              c_bind (mbedtls_base64_encode out (unat outputLength) (drop (unat off) src) (unat len)) (\<lambda>out.
              if insertLineBreaks then
                let lineBreakCount = ucast (outputLength div 76) :: u8 in
                case malloc 1 (outputLength + ucast lineBreakCount * 2 + 2) of
                  None \<Rightarrow> Fault NullDeref
                | Some arr \<Rightarrow>
                    c_bind (line_loop (unat lineBreakCount + 1) 0 out outputLength 0 arr) (\<lambda>arr.
                    c_bind (c_string arr) (\<lambda>s. Ret (S_OK, Some s)))
              else c_bind (c_string out) (\<lambda>s. Ret (S_OK, Some s))))"

section \<open>Convert.FromBase64CharArray\<close>

text \<open>
  The result of \<open>CLR_RT_HeapBlock_Array::CreateInstance\<close> is a parameter (\<open>new_array\<close>).
  The characters are narrowed to bytes in place. The array is its bytes, with the bytes of the header
  before them.
\<close>

function narrow_loop :: "nat \<Rightarrow> nat \<Rightarrow> u8 list \<Rightarrow> u8 list c_result" where
  "narrow_loop n i xs =
     (if i < n then c_bind (c_index xs (2 * i + 1)) (\<lambda>_. c_bind (c_index xs (2 * i)) (\<lambda>b.
        c_bind (c_store xs i b) (narrow_loop n (i + 1))))
      else Ret xs)"
  by auto
termination by (relation "measure (\<lambda>(n, i, _). n - i)") auto

declare narrow_loop.simps [simp del]

definition read_at :: "u8 list \<Rightarrow> u8 list \<Rightarrow> int \<Rightarrow> u8 c_result" where
  "read_at header xs k = (let p = int (length header) + k in if p < 0 then Fault BadIndex else c_index (header @ xs) (nat p))"

text \<open>The array as the call leaves it is part of the result.\<close>

definition FromBase64CharArray ::
    "bool \<Rightarrow> (nat \<Rightarrow> u32 \<Rightarrow> u8 list option) \<Rightarrow> (u32 \<Rightarrow> hresult) \<Rightarrow> u8 list \<Rightarrow> u8 list option \<Rightarrow> u32 \<Rightarrow>
       (hresult \<times> u8 list option \<times> u8 list option) c_result" where
  "FromBase64CharArray cs malloc new_array header inArray len =
     (case inArray of
        None \<Rightarrow> Ret (CLR_E_ARGUMENT_NULL, None, None)
      | Some xs \<Rightarrow>
          let n = nat (sint (ucast len :: u16)) in
          c_bind (narrow_loop n 0 xs) (\<lambda>xs.
          c_bind (read_at header xs (int n - 1)) (\<lambda>c1.
          c_bind (read_at header xs (int n - 2)) (\<lambda>c2.
          let outputLength = len div 4 * 3;
              outputLength = (if c1 = 61 then outputLength - 1 else outputLength);
              outputLength = (if c2 = 61 then outputLength - 1 else outputLength);
              p = int (length header) + int n - int (unat len) in
          case malloc 0 (outputLength + 1) of
            None \<Rightarrow> Ret (CLR_E_OUT_OF_MEMORY, None, Some xs)
          | Some out \<Rightarrow>
              if p < 0 then Fault BadIndex
              else
                c_bind (mbedtls_base64_decode cs (malloc 1 256) out (unat outputLength)
                    (drop (nat p) (header @ xs)) (unat len)) (\<lambda>(_, _, out).
                if new_array outputLength \<noteq> S_OK then Ret (new_array outputLength, None, Some xs)
                else if length out < unat outputLength then Fault BadIndex
                else Ret (S_OK, Some (take (unat outputLength) out), Some xs))))))"

end
