(* ===== verification/NF_Base64Props.thy ===== *)
theory NF_Base64Props
  imports NF_Base64
begin

text \<open>
  What the Base64 methods compute: the encoding of RFC 4648 as a function on lists, that the loops compute
  it and its inverse, the line breaks, and what is returned for a text that is not a number of quartets.
\<close>

section \<open>The encoding\<close>

abbreviation enc_char :: "nat \<Rightarrow> u8" where
  "enc_char i \<equiv> base64_enc_map ! i"

definition quartet :: "u8 \<Rightarrow> u8 \<Rightarrow> u8 \<Rightarrow> u8 list" where
  "quartet a b c = [enc_char (unat a div 4), enc_char (unat a mod 4 * 16 + unat b div 16),
     enc_char (unat b mod 16 * 4 + unat c div 64), enc_char (unat c mod 64)]"

fun base64 :: "u8 list \<Rightarrow> u8 list" where
  "base64 [] = []"
| "base64 [a] = take 2 (quartet a 0 0) @ [61, 61]"
| "base64 [a, b] = take 3 (quartet a b 0) @ [61]"
| "base64 (a # b # c # xs) = quartet a b c @ base64 xs"

text \<open>Before the padding.\<close>

fun quartets :: "u8 list \<Rightarrow> u8 list" where
  "quartets [] = []"
| "quartets [a] = quartet a 0 0"
| "quartets [a, b] = quartet a b 0"
| "quartets (a # b # c # xs) = quartet a b c @ quartets xs"

lemma length_quartet [simp]: "length (quartet a b c) = 4"
  by (simp add: quartet_def)

lemma quartets_more: "(5 + n) div 3 = Suc ((n + 2) div (3::nat))"
  by presburger

lemma length_quartets: "length (quartets xs) = 4 * ((length xs + 2) div 3)"
  by (induction xs rule: quartets.induct) (simp_all add: quartets_more)

lemma length_base64: "length (base64 xs) = 4 * ((length xs + 2) div 3)"
  by (induction xs rule: base64.induct) (simp_all add: quartets_more)

lemma unat_u8 [simp]: "unat (x :: u8) < 256"
  using unsigned_less [of x, where ?'a = nat] by simp

lemma base64_padded:
  "base64 xs = take (length (quartets xs) - mod_table ! (length xs mod 3)) (quartets xs) @
     replicate (mod_table ! (length xs mod 3)) 61"
proof (induction xs rule: base64.induct)
  case (4 a b c xs)
  have "length (a # b # c # xs) mod 3 = length xs mod 3" by simp
  moreover have "mod_table ! (length xs mod 3) \<le> length (quartets xs)"
  proof (cases "length xs mod 3 = 0")
    case False
    then have "3 \<le> length xs + 2" by (cases xs) auto
    from div_le_mono [OF this, of 3] have "1 \<le> (length xs + 2) div 3" by simp
    moreover have "length xs mod 3 = 1 \<or> length xs mod 3 = 2" using False by linarith
    ultimately show ?thesis unfolding length_quartets by (auto simp: mod_table_def)
  qed (simp add: mod_table_def)
  ultimately show ?case using 4 by simp
qed (simp_all add: mod_table_def numeral_2_eq_2)

section \<open>Encoding\<close>

lemma triple_parts:
  fixes a b c :: nat
  assumes "a < 256" and "b < 256" and "c < 256"
  defines "t \<equiv> a * 65536 + b * 256 + c"
  shows "t div 262144 = a div 4" "t div 4096 mod 64 = a mod 4 * 16 + b div 16"
    "t div 64 mod 64 = b mod 16 * 4 + c div 64" "t mod 64 = c mod 64"
proof -
  obtain a1 a0 where a: "a = 4 * a1 + a0" "a0 < 4" using mult_div_mod_eq [of 4 a] by (metis mod_less_divisor zero_less_numeral)
  obtain b1 b0 where b: "b = 16 * b1 + b0" "b0 < 16" using mult_div_mod_eq [of 16 b] by (metis mod_less_divisor zero_less_numeral)
  obtain c1 c0 where c: "c = 64 * c1 + c0" "c0 < 64" using mult_div_mod_eq [of 64 c] by (metis mod_less_divisor zero_less_numeral)
  have bounds: "a1 < 64" "b1 < 16" "c1 < 4" using assms(1-3) a b c by auto
  show "t div 262144 = a div 4"
    by (rule div_nat_eqI) (use a b c bounds in \<open>simp_all add: t_def\<close>)
  have "t div 4096 = 64 * a1 + (a0 * 16 + b1)"
    by (rule div_nat_eqI) (use a b c bounds in \<open>simp_all add: t_def\<close>)
  then show "t div 4096 mod 64 = a mod 4 * 16 + b div 16" using a b bounds by simp
  have "t div 64 = 64 * (16 * a + b1) + (b0 * 4 + c1)"
    by (rule div_nat_eqI) (use b c bounds in \<open>simp_all add: t_def\<close>)
  moreover have "b0 * 4 + c1 < 64" using b bounds by simp
  ultimately have "t div 64 mod 64 = b0 * 4 + c1" by (simp only: mod_mult_self4 mod_less)
  then show "t div 64 mod 64 = b mod 16 * 4 + c div 64" using b c bounds by simp
  have "t = 64 * (1024 * a + 4 * b + c1) + c0" using c by (simp add: t_def)
  then have "t mod 64 = c0" using c(2) by (simp only: mod_mult_self4 mod_less)
  then show "t mod 64 = c mod 64" using c by simp
qed

lemma unat_triple:
  fixes a b c :: u8
  shows "unat (push_bit 16 (ucast a) + push_bit 8 (ucast b) + ucast c :: u32) = unat a * 65536 + unat b * 256 + unat c"
proof -
  have l: "unat a < 256" "unat b < 256" "unat c < 256" by simp_all
  have "push_bit 16 (ucast a) + push_bit 8 (ucast b) + ucast c = (of_nat (unat a * 65536 + unat b * 256 + unat c) :: u32)"
    by (simp add: push_bit_eq_mult)
  then have "unat (push_bit 16 (ucast a) + push_bit 8 (ucast b) + ucast c :: u32) =
      (unat a * 65536 + unat b * 256 + unat c) mod 2 ^ 32" by (simp only: unat_of_nat) simp
  then show ?thesis using l by simp
qed

lemma sextet_char_div: "sextet_char t k = enc_char (unat t div 2 ^ k mod 64)"
proof -
  have "drop_bit k t AND 0x3F = take_bit 6 (drop_bit k t)" by (simp add: take_bit_eq_mask mask_eq_exp_minus_1)
  then have "unat (drop_bit k t AND 0x3F) = take_bit 6 (drop_bit k (unat t))"
    by (simp only: unsigned_take_bit_eq unat_drop_bit_eq)
  then show ?thesis by (simp add: sextet_char_def drop_bit_eq_div take_bit_eq_mod)
qed

lemma sextet_chars:
  fixes a b c :: u8
  defines "t \<equiv> push_bit 16 (ucast a) + push_bit 8 (ucast b) + ucast c :: u32"
  shows "[sextet_char t 18, sextet_char t 12, sextet_char t 6, sextet_char t 0] = quartet a b c"
proof -
  have l: "unat a < 256" "unat b < 256" "unat c < 256" by simp_all
  have "unat a div 4 < 64" using l(1) by linarith
  then have "unat a div 4 mod 64 = unat a div 4" by simp
  then show ?thesis
    using triple_parts [OF l] by (simp add: t_def sextet_char_div unat_triple quartet_def)
qed

text \<open>A piece of a buffer is overwritten.\<close>

definition overwritten :: "'a list \<Rightarrow> nat \<Rightarrow> 'a list \<Rightarrow> 'a list" where
  "overwritten xs j ys = take j xs @ ys @ drop (j + length ys) xs"

lemma length_overwritten [simp]: "j + length ys \<le> length xs \<Longrightarrow> length (overwritten xs j ys) = length xs"
  by (simp add: overwritten_def)

lemma overwritten_Nil [simp]: "overwritten xs j [] = xs"
  by (simp add: overwritten_def)

lemma overwritten_append:
  "j + length ys + length zs \<le> length xs \<Longrightarrow> k = j + length ys \<Longrightarrow>
     overwritten (overwritten xs j ys) k zs = overwritten xs j (ys @ zs)"
  by (simp add: overwritten_def ac_simps)

lemma overwritten_Cons: "j + Suc (length ys) \<le> length xs \<Longrightarrow> overwritten (xs[j := y]) (Suc j) ys = overwritten xs j (y # ys)"
  by (simp add: overwritten_def take_Suc_conv_app_nth upd_conv_take_nth_drop ac_simps)

lemma c_store_four:
  "j + 4 \<le> length dst \<Longrightarrow>
     c_bind (c_store dst j p) (\<lambda>dst. c_bind (c_store dst (j + 1) q) (\<lambda>dst.
     c_bind (c_store dst (j + 2) r) (\<lambda>dst. c_bind (c_store dst (j + 3) s) f))) = f (overwritten dst j [p, q, r, s])"
  by (simp add: c_store_def overwritten_Cons [symmetric] numeral_3_eq_3)

lemma octet_in: "i < slen \<Longrightarrow> slen \<le> length src \<Longrightarrow> octet src slen i = Ret (ucast (src ! i))"
  by (simp add: octet_def c_index_def)

lemma octet_out [simp]: "slen \<le> i \<Longrightarrow> octet src slen i = Ret 0"
  by (simp add: octet_def)

lemma encode_loop_turn:
  assumes "octet src slen i = Ret (ucast a)" "octet src slen (i + 1) = Ret (ucast b)" "octet src slen (i + 2) = Ret (ucast c)"
    and "i < slen" and "j + 4 \<le> length dst"
  shows "encode_loop src slen i j dst =
    encode_loop src slen (min slen (i + 3)) (j + 4) (overwritten dst j (quartet a b c))"
  by (subst encode_loop.simps)
    (simp only: assms c_bind_simps Let_def c_store_four sextet_chars if_True simp_thms)

lemma encode_loop_quartets:
  "i \<le> slen \<Longrightarrow> slen \<le> length src \<Longrightarrow> take (slen - i) (drop i src) = xs \<Longrightarrow> j + length (quartets xs) \<le> length dst \<Longrightarrow>
     encode_loop src slen i j dst = Ret (overwritten dst j (quartets xs))"
proof (induction xs arbitrary: i j dst rule: quartets.induct)
  case 1
  then have "slen \<le> i" by auto
  then show ?case by (subst encode_loop.simps) simp
next
  case (2 a)
  have "length (take (slen - i) (drop i src)) = 1" by (simp only: 2(3)) simp
  then have n: "slen = i + 1" using 2(1,2) by simp
  have "src ! i = a" using 2(3) n 2(2) by (simp add: take_Suc_conv_app_nth)
  then have "encode_loop src slen i j dst = encode_loop src slen (min slen (i + 3)) (j + 4) (overwritten dst j (quartet a 0 0))"
    using 2 n by (intro encode_loop_turn) (simp_all add: octet_in)
  also have "\<dots> = Ret (overwritten dst j (quartet a 0 0))" using n by (subst encode_loop.simps) simp
  finally show ?case by simp
next
  case (3 a b)
  have "length (take (slen - i) (drop i src)) = 2" by (simp only: 3(3)) simp
  then have n: "slen = i + 2" using 3(1,2) by simp
  have "src ! i = a" "src ! (i + 1) = b" using 3(3) n 3(2) by (auto simp: list_eq_iff_nth_eq numeral_2_eq_2 less_Suc_eq)
  then have "encode_loop src slen i j dst = encode_loop src slen (min slen (i + 3)) (j + 4) (overwritten dst j (quartet a b 0))"
    using 3 n by (intro encode_loop_turn) (simp_all add: octet_in)
  also have "\<dots> = Ret (overwritten dst j (quartet a b 0))" using n by (subst encode_loop.simps) simp
  finally show ?case by simp
next
  case (4 a b c xs)
  have "length (take (slen - i) (drop i src)) = 3 + length xs" by (simp only: 4(4)) simp
  then have n: "i + 3 \<le> slen" using 4(2,3) by simp
  have nth: "src ! (i + k) = (a # b # c # xs) ! k" if "k < 3" for k
    using 4(4) [symmetric] that n 4(3) by simp
  have src: "src ! i = a" "src ! (i + 1) = b" "src ! (i + 2) = c" using nth [of 0] nth [of 1] nth [of 2] by simp_all
  have "drop 3 (take (slen - i) (drop i src)) = xs" by (simp only: 4(4)) simp
  then have xs: "take (slen - (i + 3)) (drop (i + 3) src) = xs" by (simp add: drop_take add.commute)
  have "encode_loop src slen i j dst = encode_loop src slen (min slen (i + 3)) (j + 4) (overwritten dst j (quartet a b c))"
    using 4 n src by (intro encode_loop_turn) (simp_all add: octet_in)
  also have "\<dots> = Ret (overwritten (overwritten dst j (quartet a b c)) (j + 4) (quartets xs))"
    using 4(1) [OF n 4(3) xs, of "j + 4"] 4(5) n by (simp add: min_absorb2)
  also have "\<dots> = Ret (overwritten dst j (quartets (a # b # c # xs)))"
    using 4(5) by (simp add: overwritten_append)
  finally show ?case .
qed

lemma pad_loop_pads:
  "n + i \<le> olen \<Longrightarrow> olen \<le> length dst \<Longrightarrow>
     pad_loop n i olen dst = Ret (take (olen - (n + i)) dst @ replicate n 61 @ drop (olen - i) dst)"
proof (induction n arbitrary: i dst)
  case (Suc n)
  have "olen - Suc i < length dst" using Suc.prems by simp
  then have "pad_loop (Suc n) i olen dst = pad_loop n (Suc i) olen (dst[olen - Suc i := 61])"
    using Suc.prems by (simp add: c_store_def)
  also have "\<dots> = Ret (take (olen - (n + Suc i)) (dst[olen - Suc i := 61]) @ replicate n 61 @
      drop (olen - Suc i) (dst[olen - Suc i := 61]))"
    using Suc.prems by (intro Suc.IH) simp_all
  also have "take (olen - (n + Suc i)) (dst[olen - Suc i := 61]) = take (olen - (Suc n + i)) dst" by simp
  also have "drop (olen - Suc i) (dst[olen - Suc i := 61]) = 61 # drop (olen - i) dst"
    using Suc.prems by (simp add: drop_update_swap Cons_nth_drop_Suc [symmetric] Suc_diff_Suc)
  finally show ?case by (simp add: replicate_app_Cons_same)
qed simp

lemma length_enc_map [simp]: "length base64_enc_map = 64"
  by (simp add: base64_enc_map_def)

lemma enc_map_chars: "0 \<notin> set base64_enc_map" "61 \<notin> set base64_enc_map" "13 \<notin> set base64_enc_map"
  by (simp_all add: base64_enc_map_def upt_conv_Cons)

lemma quartet_bounds:
  fixes a b c :: u8
  shows "unat a div 4 < 64" "unat a mod 4 * 16 + unat b div 16 < 64" "unat b mod 16 * 4 + unat c div 64 < 64" "unat c mod 64 < 64"
proof -
  have l: "unat a < 256" "unat b < 256" "unat c < 256" by simp_all
  have m: "unat a mod 4 < 4" "unat b mod 16 < 16" by simp_all
  show "unat a div 4 < 64" using l by linarith
  have "unat b div 16 < 16" using l by linarith
  then show "unat a mod 4 * 16 + unat b div 16 < 64" using m by linarith
  have "unat c div 64 < 4" using l by linarith
  then show "unat b mod 16 * 4 + unat c div 64 < 64" using m by linarith
qed simp

lemma quartet_chars: "set (quartet a b c) \<subseteq> set base64_enc_map"
  by (simp add: quartet_def quartet_bounds)

lemma base64_set: "set (base64 xs) \<subseteq> insert 61 (set base64_enc_map)"
  by (induction xs rule: base64.induct) (auto dest!: in_set_takeD quartet_chars [THEN subsetD])

lemma base64_chars: "0 \<notin> set (base64 xs)"
  using base64_set [of xs] enc_map_chars by auto

theorem encode_writes_base64:
  assumes "slen \<le> length src" and "length (base64 (take slen src)) < length dst"
  shows "mbedtls_base64_encode dst (length (base64 (take slen src))) src slen =
    Ret (overwritten dst 0 (base64 (take slen src) @ [0]))"
proof -
  let ?xs = "take slen src" and ?q = "quartets (take slen src)"
  define p where "p = mod_table ! (slen mod 3)"
  have l: "length (base64 ?xs) = length ?q" by (simp only: length_base64 length_quartets)
  have e: "encode_loop src slen 0 0 dst = Ret (overwritten dst 0 ?q)"
    using assms l by (intro encode_loop_quartets) auto
  have b: "base64 ?xs = take (length ?q - p) ?q @ replicate p 61"
    using base64_padded [of ?xs] assms(1) by (simp add: p_def)
  then have "p \<le> length ?q" using l by (metis add_diff_cancel_left' diff_le_self le_add2 length_append length_replicate)
  then have "pad_loop p 0 (length ?q) (overwritten dst 0 ?q) = Ret (overwritten dst 0 (base64 ?xs))"
    using assms(2) l by (simp add: pad_loop_pads b overwritten_def)
  moreover have "drop (length ?q) dst = dst ! length ?q # drop (Suc (length ?q)) dst"
    using assms(2) l by (simp add: Cons_nth_drop_Suc)
  ultimately show ?thesis
    using assms(2) e l by (simp add: mbedtls_base64_encode_def p_def c_store_def) (simp add: overwritten_def list_update_append)
qed

section \<open>Decoding\<close>

lemma fold_update_nth:
  "inj_on f {..<n} \<Longrightarrow> k < n \<Longrightarrow> f k < length t \<Longrightarrow> fold (\<lambda>i t. t[f i := g i]) [0..<n] t ! f k = g k"
proof (induction n)
  case (Suc n)
  have l: "length (fold (\<lambda>i t. t[f i := g i]) xs t) = length t" for xs
    by (induction xs arbitrary: t) simp_all
  show ?case
  proof (cases "k = n")
    case False
    then have "f n \<noteq> f k" using Suc.prems(1,2) by (auto simp: inj_on_def)
    moreover have "inj_on f {..<n}" using Suc.prems(1) by (rule inj_on_subset) auto
    ultimately show ?thesis using Suc False by simp
  qed (use Suc.prems l in simp)
qed simp

lemma enc_map_distinct: "distinct base64_enc_map"
  by (simp add: base64_enc_map_def upt_conv_Cons)

lemma table_char:
  assumes "k < 64" and "length t = 256"
  shows "build_decoding_table t ! unat (enc_char k) = of_nat k" "length (build_decoding_table t) = 256"
proof -
  have "inj_on (\<lambda>i. unat (enc_char i)) {..<64}"
    using nth_eq_iff_index_eq [OF enc_map_distinct] by (auto simp: inj_on_def word_unat_eq_iff [symmetric])
  from fold_update_nth [OF this assms(1), of t] show "build_decoding_table t ! unat (enc_char k) = of_nat k"
    using assms(2) by (simp add: build_decoding_table_def)
  have "length (fold (\<lambda>i t. t[f i := g i]) xs u) = length u" for f :: "nat \<Rightarrow> nat" and g xs and u :: "u8 list"
    by (induction xs arbitrary: u) simp_all
  then show "length (build_decoding_table t) = 256" using assms(2) by (simp add: build_decoding_table_def)
qed

lemma promote_small: "k < 64 \<Longrightarrow> promote_char cs (of_nat k) = of_nat k"
proof -
  have "\<forall>k \<in> set [0..<64]. promote_char True (of_nat k) = of_nat k \<and> promote_char False (of_nat k) = of_nat k"
    by (simp add: promote_char_def upt_conv_Cons)
  then show "k < 64 \<Longrightarrow> promote_char cs (of_nat k) = of_nat k" by (cases cs) auto
qed

lemma sextet_value:
  assumes "length t = 256" and "k < 64" and "i < length src" and "src ! i = enc_char k"
  shows "sextet cs (build_decoding_table t) src i = Ret (of_nat k)"
proof -
  have "enc_char k \<noteq> 61" using enc_map_chars(2) assms(2) by (metis length_enc_map nth_mem)
  then show ?thesis using assms table_char [OF assms(2,1)] by (simp add: sextet_def c_index_def promote_small)
qed

lemma sextet_pad: "i < length src \<Longrightarrow> src ! i = 61 \<Longrightarrow> sextet cs t src i = Ret (of_nat 0)"
  by (simp add: sextet_def c_index_def)

text \<open>The sextets of a quartet are the digits of the three bytes.\<close>

lemma quartet_digits:
  fixes a b c :: nat
  shows "a div 4 * 262144 + (a mod 4 * 16 + b div 16) * 4096 + (b mod 16 * 4 + c div 64) * 64 + c mod 64 =
    a * 65536 + b * 256 + c"
proof -
  have "p * 262144 + (q * 16 + r) * 4096 + (s * 4 + u) * 64 + v = (p * 4 + q) * 65536 + (r * 16 + s) * 256 + (u * 64 + v)"
    for p q r s u v :: nat by simp
  from this [of "a div 4" "a mod 4" "b div 16" "b mod 16" "c div 64" "c mod 64"] show ?thesis by (simp only: div_mult_mod_eq)
qed

lemma triple_bytes:
  fixes a b c :: u8
  defines "t \<equiv> of_nat (unat a * 65536 + unat b * 256 + unat c) :: u32"
  shows "ucast (drop_bit 16 t) = a" "ucast (drop_bit 8 t) = b" "ucast t = c"
proof -
  have l: "unat a < 256" "unat b < 256" "unat c < 256" by simp_all
  define n where "n = unat a * 65536 + unat b * 256 + unat c"
  have "n < 4294967296" unfolding n_def using l by linarith
  then have t: "unat t = n" unfolding t_def n_def [symmetric] by (simp only: unat_of_nat) simp
  have "unat b * 256 + unat c < 65536" using l(2,3) by linarith
  then have d: "n div 65536 = unat a" by (intro div_nat_eqI) (simp_all add: n_def)
  have "n div 256 = 256 * unat a + unat b" using l(3) by (intro div_nat_eqI) (simp_all add: n_def)
  then have e: "n div 256 mod 256 = unat b" using l by (simp only: mod_mult_self4 mod_less)
  have "n = 256 * (256 * unat a + unat b) + unat c" by (simp add: n_def)
  then have f: "n mod 256 = unat c" using l by (simp only: mod_mult_self4 mod_less)
  have u: "unat (ucast x :: u8) = unat x mod 256" for x :: u32
    by (simp add: unsigned_ucast_eq take_bit_eq_mod)
  show "ucast (drop_bit 16 t) = a" "ucast (drop_bit 8 t) = b" "ucast t = c"
    unfolding word_unat_eq_iff u unat_drop_bit_eq t using d e f by (simp_all add: drop_bit_eq_div)
qed

lemma sextet_sum:
  "push_bit 18 (of_nat p) + push_bit 12 (of_nat q) + push_bit 6 (of_nat r) + of_nat s =
    (of_nat (p * 262144 + q * 4096 + r * 64 + s) :: u32)"
  by (simp add: push_bit_eq_mult)

lemma put_three:
  assumes "j \<le> olen" and "olen \<le> length dst"
  shows "c_bind (put_below olen u (j, dst)) (\<lambda>out. c_bind (put_below olen v out) (\<lambda>out. c_bind (put_below olen w out) f)) =
    f (j + length (take (olen - j) [ucast u :: u8, ucast v, ucast w]), overwritten dst j (take (olen - j) [ucast u, ucast v, ucast w]))"
proof -
  consider "olen = j" | "olen = j + 1" | "olen = j + 2" | k where "olen = j + 3 + k"
  proof (cases "olen - j < 3")
    case True
    then have "olen - j = 0 \<or> olen - j = 1 \<or> olen - j = 2" by linarith
    then show ?thesis using assms(1) that(1-3) by auto
  qed (use that(4) [of "olen - (j + 3)"] in simp)
  then show ?thesis
    using assms(2) by cases (simp_all add: put_below_def c_store_def overwritten_Cons [symmetric] numeral_2_eq_2 numeral_3_eq_3)
qed

lemma decode_turn:
  assumes s: "sextet cs t src i = Ret (of_nat (unat a div 4))" "sextet cs t src (i + 1) = Ret (of_nat (unat a mod 4 * 16 + unat b div 16))"
      "sextet cs t src (i + 2) = Ret (of_nat (unat b mod 16 * 4 + unat c div 64))" "sextet cs t src (i + 3) = Ret (of_nat (unat c mod 64))"
    and i: "i < slen" and j: "j \<le> olen" "olen \<le> length dst"
  shows "decode_loop cs t src slen olen i (j, dst) =
    decode_loop cs t src slen olen (i + 4)
      (j + length (take (olen - j) [a, b, c]), overwritten dst j (take (olen - j) [a, b, c]))"
  by (subst decode_loop.simps, simp only: i s c_bind_simps Let_def if_True sextet_sum quartet_digits,
      subst put_three [OF j], simp only: triple_bytes)

lemma decode_loop_base64:
  assumes t: "length t = 256"
  shows "take (length (base64 xs)) (drop i src) = base64 xs \<Longrightarrow> slen = i + length (base64 xs) \<Longrightarrow> slen \<le> length src \<Longrightarrow>
    olen = j + length xs \<Longrightarrow> olen \<le> length dst \<Longrightarrow>
    decode_loop cs (build_decoding_table t) src slen olen i (j, dst) = Ret (overwritten dst j xs)"
proof (induction xs arbitrary: i j dst rule: base64.induct)
  case 1
  then show ?case by (subst decode_loop.simps) simp
next
  case (2 a)
  have n: "src ! (i + k) = base64 [a] ! k" "i + k < length src" if "k < 4" for k
    using 2 that by (auto simp: list_eq_iff_nth_eq)
  have "decode_loop cs (build_decoding_table t) src slen olen i (j, dst) =
    decode_loop cs (build_decoding_table t) src slen olen (i + 4)
      (j + length (take (olen - j) [a, 0, 0]), overwritten dst j (take (olen - j) [a, 0, 0]))"
  proof (rule decode_turn)
    show "sextet cs (build_decoding_table t) src i = Ret (of_nat (unat a div 4))"
      by (rule sextet_value [OF t quartet_bounds(1)]) (use n [of 0] in \<open>simp_all add: quartet_def\<close>)
    show "sextet cs (build_decoding_table t) src (i + 1) = Ret (of_nat (unat a mod 4 * 16 + unat (0 :: u8) div 16))"
      by (rule sextet_value [OF t quartet_bounds(2)]) (use n [of 1] in \<open>simp_all add: quartet_def\<close>)
  qed (use 2 n [of 2] n [of 3] in \<open>simp_all add: sextet_pad [simplified] quartet_def\<close>)
  then show ?case using 2 by (subst (asm) (2) decode_loop.simps) simp
next
  case (3 a b)
  have n: "src ! (i + k) = base64 [a, b] ! k" "i + k < length src" if "k < 4" for k
    using 3 that by (auto simp: list_eq_iff_nth_eq)
  have "decode_loop cs (build_decoding_table t) src slen olen i (j, dst) =
    decode_loop cs (build_decoding_table t) src slen olen (i + 4)
      (j + length (take (olen - j) [a, b, 0]), overwritten dst j (take (olen - j) [a, b, 0]))"
  proof (rule decode_turn)
    show "sextet cs (build_decoding_table t) src i = Ret (of_nat (unat a div 4))"
      by (rule sextet_value [OF t quartet_bounds(1)]) (use n [of 0] in \<open>simp_all add: quartet_def\<close>)
    show "sextet cs (build_decoding_table t) src (i + 1) = Ret (of_nat (unat a mod 4 * 16 + unat b div 16))"
      by (rule sextet_value [OF t quartet_bounds(2)]) (use n [of 1] in \<open>simp_all add: quartet_def\<close>)
    show "sextet cs (build_decoding_table t) src (i + 2) = Ret (of_nat (unat b mod 16 * 4 + unat (0 :: u8) div 64))"
      by (rule sextet_value [OF t quartet_bounds(3)]) (use n [of 2] in \<open>simp_all add: quartet_def numeral_2_eq_2\<close>)
  qed (use 3 n [of 3] in \<open>simp_all add: sextet_pad [simplified] quartet_def numeral_3_eq_3\<close>)
  then show ?case using 3 by (subst (asm) (2) decode_loop.simps) simp
next
  case (4 a b c xs)
  have n: "src ! (i + k) = base64 (a # b # c # xs) ! k" "i + k < length src" if "k < 4" for k
    using 4(2-4) that by (auto simp: list_eq_iff_nth_eq)
  have d: "decode_loop cs (build_decoding_table t) src slen olen i (j, dst) =
    decode_loop cs (build_decoding_table t) src slen olen (i + 4)
      (j + length (take (olen - j) [a, b, c]), overwritten dst j (take (olen - j) [a, b, c]))"
  proof (rule decode_turn)
    show "sextet cs (build_decoding_table t) src i = Ret (of_nat (unat a div 4))"
      by (rule sextet_value [OF t quartet_bounds(1)]) (use n [of 0] in \<open>simp_all add: quartet_def\<close>)
    show "sextet cs (build_decoding_table t) src (i + 1) = Ret (of_nat (unat a mod 4 * 16 + unat b div 16))"
      by (rule sextet_value [OF t quartet_bounds(2)]) (use n [of 1] in \<open>simp_all add: quartet_def\<close>)
    show "sextet cs (build_decoding_table t) src (i + 2) = Ret (of_nat (unat b mod 16 * 4 + unat c div 64))"
      by (rule sextet_value [OF t quartet_bounds(3)]) (use n [of 2] in \<open>simp_all add: quartet_def numeral_2_eq_2\<close>)
    show "sextet cs (build_decoding_table t) src (i + 3) = Ret (of_nat (unat c mod 64))"
      by (rule sextet_value [OF t quartet_bounds(4)]) (use n [of 3] in \<open>simp_all add: quartet_def numeral_3_eq_3\<close>)
  qed (use 4(3-6) in simp_all)
  have "drop 4 (take (length (base64 (a # b # c # xs))) (drop i src)) = base64 xs" by (simp only: 4(2)) simp
  then have "take (length (base64 xs)) (drop (i + 4) src) = base64 xs" by (simp add: drop_take add.commute)
  then have "decode_loop cs (build_decoding_table t) src slen olen (i + 4) (j + 3, overwritten dst j [a, b, c]) =
      Ret (overwritten (overwritten dst j [a, b, c]) (j + 3) xs)"
    using 4(3-6) by (intro 4(1)) simp_all
  then show ?case using d 4(5,6) by (simp add: overwritten_append numeral_3_eq_3)
qed

section \<open>Convert\<close>

text \<open>A text broken into lines of 76 characters, each full line with its line break.\<close>

function break_lines :: "u8 list \<Rightarrow> u8 list" where
  "break_lines s = (if length s < 76 then s else take 76 s @ [13, 10] @ break_lines (drop 76 s))"
  by auto
termination by (relation "measure length") auto

declare break_lines.simps [simp del]

lemma c_copy_overwrites:
  "s + n \<le> length src \<Longrightarrow> d + n \<le> length dst \<Longrightarrow>
     c_copy dst (int d) src (int s) n = Ret (overwritten dst d (take n (drop s src)))"
proof (induction n arbitrary: d s dst)
  case (Suc n)
  have "c_copy dst (int d) src (int s) (Suc n) = c_copy (dst[d := src ! s]) (int (Suc d)) src (int (Suc s)) n"
    using Suc.prems by (simp add: c_index_def c_store_def add.commute)
  also have "\<dots> = Ret (overwritten (dst[d := src ! s]) (Suc d) (take n (drop (Suc s) src)))"
    using Suc.prems by (intro Suc.IH) simp_all
  also have "\<dots> = Ret (overwritten dst d (src ! s # take n (drop (Suc s) src)))"
    using Suc.prems by (subst overwritten_Cons) simp_all
  also have "src ! s # take n (drop (Suc s) src) = take (Suc n) (drop s src)"
    using Suc.prems by (simp add: Cons_nth_drop_Suc [symmetric])
  finally show ?case .
qed simp

lemma line_words:
  assumes "k < 20000"
  shows "(of_nat k :: u32) > 76 \<longleftrightarrow> k > 76" "(of_nat k :: u32) \<ge> 76 \<longleftrightarrow> k \<ge> 76"
    "k \<le> 76 \<Longrightarrow> (ucast (of_nat k :: u32) :: u8) = of_nat k" "unat (of_nat k :: u16) = k"
    "k \<le> 76 \<Longrightarrow> unat (of_nat k :: u8) = k" "k \<le> 76 \<Longrightarrow> (ucast (of_nat k :: u8) :: u16) = of_nat k"
proof -
  have u: "unat (of_nat k :: u32) = k" using assms by (simp add: unat_of_nat)
  show "(of_nat k :: u32) > 76 \<longleftrightarrow> k > 76" "(of_nat k :: u32) \<ge> 76 \<longleftrightarrow> k \<ge> 76"
    unfolding word_less_nat_alt word_le_nat_alt u by simp_all
  show "unat (of_nat k :: u16) = k" using assms by (simp add: unat_of_nat)
  have b: "unat (of_nat k :: u8) = k" if "k \<le> 76" using that by (simp add: unat_of_nat)
  then show "k \<le> 76 \<Longrightarrow> unat (of_nat k :: u8) = k" .
  show "(ucast (of_nat k :: u32) :: u8) = of_nat k" if "k \<le> 76"
    unfolding word_unat_eq_iff b [OF that] using that u by (simp add: unsigned_ucast_eq take_bit_nat_eq_self)
  show "(ucast (of_nat k :: u8) :: u16) = of_nat k" if "k \<le> 76"
    unfolding word_unat_eq_iff using that assms b [OF that]
    by (simp add: unsigned_ucast_eq take_bit_nat_eq_self unat_of_nat)
qed

lemma c_store_next:
  assumes "j + Suc (length ys) \<le> length xs" and "k = j + length ys"
  shows "c_store (overwritten xs j ys) k y = Ret (overwritten xs j (ys @ [y]))"
proof -
  have "drop (j + length ys) xs = xs ! (j + length ys) # drop (Suc (j + length ys)) xs"
    using assms(1) by (simp add: Cons_nth_drop_Suc)
  then show ?thesis using assms by (simp add: c_store_def) (simp add: overwritten_def list_update_append)
qed

lemma line_turn:
  assumes k: "k < 20000" and i: "i < 256" and arr: "78 * i + k + (if k \<ge> 76 then 2 else 1) \<le> length arr" and out: "76 * i + k \<le> length out"
  defines "w \<equiv> take (min 76 k) (drop (76 * i) out)"
  shows "line_loop (Suc n) i out (of_nat k) (of_nat (78 * i)) arr =
    (if k \<ge> 76 then line_loop n (i + 1) out (of_nat (k - 76)) (of_nat (78 * (i + 1))) (overwritten arr (78 * i) (w @ [13, 10]))
     else line_loop n (i + 1) out (of_nat k) (of_nat (78 * i + k)) (overwritten arr (78 * i) (w @ [0])))"
proof -
  define c where "c = min 76 k"
  have c76: "c \<le> 76" "c < 20000" by (simp_all add: c_def)
  have i78: "78 * i < 20000" using i by simp
  have cnt: "(if (of_nat k :: u32) > 76 then 76 else ucast (of_nat k :: u32) :: u8) = of_nat c"
    using line_words(1,3) [OF k] by (auto simp: c_def min_def)
  have o: "uint (of_nat (78 * i) :: u16) = int (78 * i)"
    using line_words(4) [OF i78] by (metis uint_nat)
  have s: "int (78 * i) - int i * 2 = int (76 * i)" by simp
  have cp: "c_copy arr (int (78 * i)) out (int (76 * i)) c = Ret (overwritten arr (78 * i) w)"
    unfolding w_def c_def using arr out by (intro c_copy_overwrites) (simp_all split: if_splits)
  have lw: "length w = c" using out by (simp add: w_def c_def)
  have store: "c_store (overwritten arr (78 * i) w) (c + 78 * i) x = Ret (overwritten arr (78 * i) (w @ [x]))" for x
    using arr lw by (intro c_store_next) (simp_all add: c_def split: if_splits)
  have store2: "c_store (overwritten arr (78 * i) (w @ [x])) (c + 78 * i + 1) y = Ret (overwritten arr (78 * i) (w @ [x, y]))"
    if "k \<ge> 76" for x y
    using arr lw that c_store_next [of "78 * i" "w @ [x]" arr "c + 78 * i + 1" y] by (simp add: c_def)
  show ?thesis
  proof (cases "k \<ge> 76")
    case True
    have d: "(of_nat k - 76 :: u32) = of_nat (k - 76)" using True by (simp add: of_nat_diff)
    have e: "of_nat (78 * i) + (ucast (of_nat c :: u8) + 2) = (of_nat (78 * (i + 1)) :: u16)"
      using line_words(6) [OF c76(2,1)] True by (simp add: c_def)
    show ?thesis
      unfolding line_loop.simps Let_def cnt o s line_words(5) [OF c76(2,1)] cp c_bind_simps line_words(2) [OF k]
        line_words(4) [OF i78] store store2 [OF True] d e using True by simp
  next
    case False
    have e: "of_nat (78 * i) + ucast (of_nat c :: u8) = (of_nat (78 * i + k) :: u16)"
      using line_words(6) [OF c76(2,1)] False by (simp add: c_def)
    have "unat (of_nat (78 * i + k) :: u16) = c + 78 * i"
      using line_words(4) [of "78 * i + k"] i False by (simp add: c_def)
    then show ?thesis
      unfolding line_loop.simps Let_def cnt o s line_words(5) [OF c76(2,1)] cp c_bind_simps line_words(2) [OF k] e
      using False store [of 0] by simp
  qed
qed

lemma break_lines_short: "length s < 76 \<Longrightarrow> break_lines s = s"
  by (subst break_lines.simps) simp

lemma break_lines_long: "\<not> length s < 76 \<Longrightarrow> break_lines s = take 76 s @ [13, 10] @ break_lines (drop 76 s)"
  by (subst break_lines.simps) simp

lemma length_break_lines: "length (break_lines s) = length s + 2 * (length s div 76)"
proof (induction s rule: break_lines.induct)
  case (1 s)
  show ?case
  proof (cases "length s < 76")
    case False
    then have "length s div 76 = Suc ((length s - 76) div 76)" by (simp add: le_div_geq)
    then show ?thesis using 1 [OF False] False by (simp add: break_lines_long)
  qed (simp add: break_lines_short)
qed

text \<open>The loop over the lines, from line \<open>i\<close> on.\<close>

lemma line_loop_breaks:
  "length s div 76 = n \<Longrightarrow> i + n < 256 \<Longrightarrow> 76 * i + length s = length whole \<Longrightarrow> length whole \<le> length out \<Longrightarrow> drop (76 * i) whole = s \<Longrightarrow>
     take (length whole) out = whole \<Longrightarrow> 78 * i + length (break_lines s) + 1 \<le> length arr \<Longrightarrow>
     line_loop (Suc n) i out (of_nat (length s)) (of_nat (78 * i)) arr = Ret (overwritten arr (78 * i) (break_lines s @ [0]))"
proof (induction n arbitrary: i s arr)
  case 0
  have s: "length s < 76" using 0(1) by (simp add: div_eq_0_iff)
  have "take (length s) (drop (76 * i) out) = drop (76 * i) (take (length whole) out)"
    using 0(3) [symmetric] by (simp add: take_drop add.commute)
  then have w: "take (length s) (drop (76 * i) out) = s" using s 0(5,6) by simp
  have "line_loop (Suc 0) i out (of_nat (length s)) (of_nat (78 * i)) arr =
      line_loop 0 (i + 1) out (of_nat (length s)) (of_nat (78 * i + length s)) (overwritten arr (78 * i) (s @ [0]))"
    using line_turn [of "length s" i arr out 0] 0 s by (simp add: w break_lines_short del: line_loop.simps(2))
  then show ?case using s by (simp add: break_lines_short)
next
  case (Suc n)
  have s: "76 \<le> length s" using Suc.prems(1) by (cases "length s < 76") simp_all
  then have b: "break_lines s = take 76 s @ [13, 10] @ break_lines (drop 76 s)" by (simp add: break_lines_long)
  have k: "length s < 20000" using Suc.prems(1,2) div_mult_mod_eq [of "length s" 76] mod_less_divisor [of 76 "length s"] by linarith
  have "take (length s) (drop (76 * i) out) = drop (76 * i) (take (length whole) out)"
    using Suc.prems(3) [symmetric] by (simp add: take_drop add.commute)
  then have "take (length s) (drop (76 * i) out) = s" using Suc.prems(5,6) by simp
  then have "take 76 (take (length s) (drop (76 * i) out)) = take 76 s" by simp
  then have w: "take 76 (drop (76 * i) out) = take 76 s" using s by (simp add: min_absorb1)
  let ?arr = "overwritten arr (78 * i) (take 76 s @ [13, 10])"
  have la: "length ?arr = length arr" using Suc.prems(7) s by (intro length_overwritten) (simp add: b)
  have "78 * i + length s + 2 \<le> length arr" using Suc.prems(1,7) by (simp add: length_break_lines)
  then have "line_loop (Suc (Suc n)) i out (of_nat (length s)) (of_nat (78 * i)) arr =
      line_loop (Suc n) (i + 1) out (of_nat (length s - 76)) (of_nat (78 * (i + 1))) ?arr"
    using line_turn [of "length s" i arr out "Suc n"] k Suc.prems(2-4,7) s by (simp add: w b del: line_loop.simps(2))
  moreover have "drop (76 + 76 * i) whole = drop 76 s" using Suc.prems(5) by (metis drop_drop)
  then have "line_loop (Suc n) (i + 1) out (of_nat (length s - 76)) (of_nat (78 * (i + 1))) ?arr =
      Ret (overwritten ?arr (78 * (i + 1)) (break_lines (drop 76 s) @ [0]))"
    using Suc.IH [of "drop 76 s" "i + 1" ?arr] Suc.prems s la by (simp add: b le_div_geq drop_drop del: line_loop.simps(2))
  moreover have "overwritten ?arr (78 * (i + 1)) (break_lines (drop 76 s) @ [0]) = overwritten arr (78 * i) (break_lines s @ [0])"
    using Suc.prems(7) s by (simp add: b overwritten_append)
  ultimately show ?case by (simp del: line_loop.simps)
qed

text \<open>An allocator that always gives a buffer of the length asked for.\<close>

definition mallocs :: "(nat \<Rightarrow> u32 \<Rightarrow> u8 list option) \<Rightarrow> bool" where
  "mallocs malloc \<longleftrightarrow> (\<forall>k n. \<exists>buf. malloc k n = Some buf \<and> length buf = unat n)"

lemma mallocsE:
  assumes "mallocs malloc" and "n < 2 ^ 32"
  obtains buf where "malloc k (of_nat n) = Some buf" "length buf = n"
proof -
  have "unat (of_nat n :: u32) = n" using assms(2) by (simp add: unat_of_nat)
  then show ?thesis using assms(1) that unfolding mallocs_def by metis
qed

lemma c_string_overwritten:
  "0 \<notin> set s \<Longrightarrow> c_string (overwritten buf 0 (s @ [0])) = Ret s"
  by (simp add: c_string_def overwritten_def takeWhile_append2 takeWhile_append)

lemma break_lines_chars: "0 \<notin> set s \<Longrightarrow> 0 \<notin> set (break_lines s)"
proof (induction s rule: break_lines.induct)
  case (1 s)
  show ?case
  proof (cases "length s < 76")
    case False
    then show ?thesis using 1 by (auto simp: break_lines_long dest: in_set_takeD in_set_dropD)
  qed (use 1 in \<open>simp add: break_lines_short\<close>)
qed

lemma output_length:
  assumes "n < 2 ^ 30"
  shows "4 * ((of_nat n + 2) div 3) = (of_nat (4 * ((n + 2) div 3)) :: u32)"
proof -
  have n: "unat (of_nat n + 2 :: u32) = n + 2" using assms by (simp add: unat_word_ariths unat_of_nat)
  then have "unat ((of_nat n + 2) div 3 :: u32) = (n + 2) div 3" by (simp add: unat_div)
  then have "(of_nat (unat ((of_nat n + 2) div 3 :: u32)) :: u32) = of_nat ((n + 2) div 3)" by (simp only:)
  then have "(of_nat n + 2) div 3 = (of_nat ((n + 2) div 3) :: u32)" by simp
  then show ?thesis by simp
qed


text \<open>The array of characters, as its bytes.\<close>

definition char_array :: "u8 list \<Rightarrow> u8 list" where
  "char_array s = concat (map (\<lambda>c. bytes_of_u16 (ucast c)) s)"

lemma length_char_array [simp]: "length (char_array s) = 2 * length s"
  by (induction s) (simp_all add: char_array_def)

lemma narrowed [simp]: "ucast (ucast (c :: u8) :: u16) = c"
  by (rule bit_word_eqI) (auto simp: bit_simps)

lemma char_array_nth: "i < length s \<Longrightarrow> char_array s ! (2 * i) = s ! i"
proof (induction s arbitrary: i)
  case (Cons c s)
  then show ?case by (cases i) (simp_all add: char_array_def bytes_of_u16_def)
qed simp

lemma narrow_loop_narrows:
  "i \<le> n \<Longrightarrow> n \<le> length s \<Longrightarrow>
     narrow_loop n i (overwritten (char_array s) 0 (take i s)) = Ret (overwritten (char_array s) 0 (take n s))"
proof (induction "n - i" arbitrary: i)
  case 0
  then show ?case by (subst narrow_loop.simps) simp
next
  case (Suc k)
  let ?xs = "overwritten (char_array s) 0 (take i s)"
  have i: "i < n" "i < length s" using Suc by auto
  have len: "length ?xs = 2 * length s" using i by simp
  have "?xs ! (2 * i) = s ! i"
    using i char_array_nth [of i s, unfolded mult_2] by (cases "i = 0") (simp_all add: overwritten_def nth_append mult_2)
  moreover have "c_store ?xs i (s ! i) = Ret (overwritten (char_array s) 0 (take (Suc i) s))"
    using i c_store_next [of 0 "take i s" "char_array s" i "s ! i"] by (simp add: take_Suc_conv_app_nth)
  ultimately have "narrow_loop n i ?xs = narrow_loop n (i + 1) (overwritten (char_array s) 0 (take (Suc i) s))"
    using i len by (subst narrow_loop.simps) (simp add: c_index_def)
  also have "\<dots> = Ret (overwritten (char_array s) 0 (take n s))" using Suc i by simp
  finally show ?case .
qed

lemma narrow_whole: "narrow_loop (length s) 0 (char_array s) = Ret (overwritten (char_array s) 0 s)"
  using narrow_loop_narrows [of 0 "length s" s] by simp

lemma read_at_array:
  "k < length s \<Longrightarrow> read_at header (overwritten (char_array s) 0 s) (int k) = Ret (s ! k)"
  by (simp add: read_at_def Let_def c_index_def overwritten_def nth_append flip: of_nat_add)

lemma length_base64_nonempty: "xs \<noteq> [] \<Longrightarrow> 4 \<le> length (base64 xs)"
  by (cases xs rule: base64.cases) simp_all

lemma base64_pads:
  assumes "xs \<noteq> []"
  shows "length (base64 xs) div 4 * 3 = length xs + (if last (base64 xs) = 61 then 1 else 0) +
    (if base64 xs ! (length (base64 xs) - 2) = 61 then 1 else 0)"
  using assms
proof (induction xs rule: base64.induct)
  case (2 a)
  then show ?case by (simp add: quartet_def)
next
  case (3 a b)
  have "enc_char k \<noteq> 61" if "k < 64" for k using enc_map_chars(2) that by (metis length_enc_map nth_mem)
  then show ?case using quartet_bounds(3) [of b 0] by (simp add: quartet_def)
next
  case (4 a b c xs)
  have e: "enc_char k \<noteq> 61" if "k < 64" for k using enc_map_chars(2) that by (metis length_enc_map nth_mem)
  show ?case
  proof (cases "xs = []")
    case True
    then show ?thesis using e quartet_bounds by (simp add: quartet_def)
  next
    case False
    note l = length_base64_nonempty [OF False]
    have "base64 (a # b # c # xs) ! (length (base64 (a # b # c # xs)) - 2) = base64 xs ! (length (base64 xs) - 2)"
      using l by (simp add: nth_append)
    moreover have "last (base64 (a # b # c # xs)) = last (base64 xs)" using l by (simp add: last_append) (auto simp: last_append)
    moreover have "(4 + length (base64 xs)) div 4 = Suc (length (base64 xs) div 4)" by simp
    ultimately show ?thesis using 4(1) [OF False] by simp
  qed
qed simp

lemma sint_length: "n < 2 ^ 15 \<Longrightarrow> nat (sint (ucast (of_nat n :: u32) :: u16)) = n"
proof -
  assume n: "n < 2 ^ 15"
  have "(ucast (of_nat n :: u32) :: u16) = of_nat n"
    using n by (simp add: word_unat_eq_iff unsigned_ucast_eq unat_of_nat take_bit_nat_eq_self)
  moreover have "uint (of_nat n :: u16) = int n" using n by (simp add: unsigned_of_nat take_bit_nat_eq_self)
  ultimately show ?thesis using n by (simp add: sint_uint signed_take_bit_int_eq_self)
qed

text \<open>
  C35: Convert.FromBase64CharArray. Of an encoding of at least one byte and less than 32768 characters the
  method returns the bytes that were encoded, whatever the memory of the decoding table and of the
  output contains; the first half of the array of characters is overwritten by the characters as bytes.
\<close>

theorem from_base64_decodes:
  assumes "mallocs malloc" and "\<forall>n. new_array n = S_OK" and "xs \<noteq> []" and "length (base64 xs) < 2 ^ 15"
  shows "FromBase64CharArray cs malloc new_array header (Some (char_array (base64 xs))) (of_nat (length (base64 xs))) =
    Ret (S_OK, Some xs, Some (overwritten (char_array (base64 xs)) 0 (base64 xs)))"
proof -
  let ?s = "base64 xs"
  let ?L = "length ?s"
  let ?a = "overwritten (char_array ?s) 0 ?s"
  note l4 = length_base64_nonempty [OF assms(3)]
  have n: "nat (sint (ucast (of_nat ?L :: u32) :: u16)) = ?L" by (rule sint_length [OF assms(4)])
  have u: "unat (of_nat ?L :: u32) = ?L" using assms(4) by (simp add: unat_of_nat)
  have lx: "length xs < 2 ^ 15" "?L mod 4 = 0" using assms(4) by (simp_all add: length_base64)
  have ux: "unat (of_nat (length xs) :: u32) = length xs" using lx by (simp add: unat_of_nat)
  have c1: "read_at header ?a (int ?L - 1) = Ret (last ?s)"
    using read_at_array [of "?L - 1" ?s header] l4 by (simp add: of_nat_diff last_conv_nth flip: length_greater_0_conv)
  have c2: "read_at header ?a (int ?L - 2) = Ret (?s ! (?L - 2))"
    using read_at_array [of "?L - 2" ?s header] l4 by (simp add: of_nat_diff)
  have "unat (of_nat ?L div 4 :: u32) = ?L div 4" using u by (simp add: unat_div)
  then have "(of_nat (unat (of_nat ?L div 4 :: u32)) :: u32) = of_nat (?L div 4)" by (simp only:)
  then have "(of_nat ?L div 4 :: u32) = of_nat (?L div 4)" by simp
  then have "(of_nat ?L div 4 * 3 :: u32) = of_nat (?L div 4 * 3)" by simp
  then have o: "(if ?s ! (?L - 2) = 61 then (if last ?s = 61 then of_nat ?L div 4 * 3 - 1 else of_nat ?L div 4 * 3) - 1
      else (if last ?s = 61 then of_nat ?L div 4 * 3 - 1 else of_nat ?L div 4 * 3) :: u32) = of_nat (length xs)"
    unfolding base64_pads [OF assms(3)] by simp
  obtain out where m: "malloc 0 (of_nat (length xs + 1)) = Some out" "length out = length xs + 1"
    using lx by (auto intro: mallocsE [OF assms(1), of "length xs + 1" 0])
  then have m0: "malloc 0 (of_nat (length xs) + 1) = Some out" by (simp add: add.commute)
  obtain t where t: "malloc 1 (of_nat 256) = Some t" "length t = 256"
    using mallocsE [OF assms(1), of 256 1] by auto
  have "decode_loop cs (build_decoding_table t) ?a ?L (length xs) 0 (0, out) = Ret (overwritten out 0 xs)"
    using m(2) by (intro decode_loop_base64 [OF t(2)]) (simp_all add: overwritten_def)
  then have d: "mbedtls_base64_decode cs (malloc 1 256) out (length xs) ?a ?L = Ret (0, True, overwritten out 0 xs)"
    using t(1) lx(2) by (simp add: mbedtls_base64_decode_def Let_def)
  show ?thesis
    unfolding FromBase64CharArray_def option.case n Let_def narrow_whole c_bind_simps c1 c2 o m0 u ux
    using d m(2) assms(2) by (simp add: overwritten_def)
qed

text \<open>The allocator of the examples: every byte of a buffer is 7.\<close>

definition sevens :: "nat \<Rightarrow> u32 \<Rightarrow> u8 list option" where
  "sevens k n = Some (replicate (unat n) 7)"

lemma sevens [simp]: "mallocs sevens"
  by (simp add: mallocs_def sevens_def)


theorem from_base64_decodes_witness:
  "FromBase64CharArray False sevens (\<lambda>_. S_OK) [5, 5] (Some (char_array (base64 [1, 2, 255, 77]))) 8 =
     Ret (S_OK, Some [1, 2, 255, 77],
       Some (overwritten (char_array (base64 [1, 2, 255, 77])) 0 (base64 [1, 2, 255, 77])))"
proof -
  have "length (base64 [1, 2, 255, 77]) = 8" by (simp add: length_base64)
  then show ?thesis
    using from_base64_decodes [of sevens "\<lambda>_. S_OK" "[1, 2, 255, 77]" False "[5, 5]"] by simp
qed

section \<open>A text that is not a number of quartets\<close>

text \<open>
  C36: an incomplete text. When the number of characters is not a multiple of four (and no padding
  shortens the result), FromBase64CharArray ignores that the decoder refuses the text: it succeeds and
  returns what the output buffer contained when it was allocated. The decoder has allocated its table
  and not released it.
\<close>

theorem incomplete_text_returns_uninitialised_memory:
  assumes "\<forall>n. new_array n = S_OK" and "length s mod 4 \<noteq> 0" and "2 \<le> length s" and "length s < 2 ^ 15"
    and "last s \<noteq> 61" and "s ! (length s - 2) \<noteq> 61"
    and "malloc 0 (of_nat (length s div 4 * 3 + 1)) = Some buf" and "length buf = length s div 4 * 3 + 1"
    and "malloc 1 256 = Some t"
  shows "mbedtls_base64_decode cs (Some t) buf (length s div 4 * 3) (overwritten (char_array s) 0 s) (length s) =
      Ret (- 1, False, buf) \<and>
    FromBase64CharArray cs malloc new_array header (Some (char_array s)) (of_nat (length s)) =
      Ret (S_OK, Some (butlast buf), Some (overwritten (char_array s) 0 s))"
proof -
  let ?L = "length s"
  let ?a = "overwritten (char_array s) 0 s"
  have n: "nat (sint (ucast (of_nat ?L :: u32) :: u16)) = ?L" by (rule sint_length [OF assms(4)])
  have u: "unat (of_nat ?L :: u32) = ?L" using assms(4) by (simp add: unat_of_nat)
  have c1: "read_at header ?a (int ?L - 1) = Ret (last s)"
    using read_at_array [of "?L - 1" s header] assms(3) by (simp add: of_nat_diff last_conv_nth flip: length_greater_0_conv)
  have c2: "read_at header ?a (int ?L - 2) = Ret (s ! (?L - 2))"
    using read_at_array [of "?L - 2" s header] assms(3) by (simp add: of_nat_diff)
  have "unat (of_nat ?L div 4 :: u32) = ?L div 4" using u by (simp add: unat_div)
  then have "(of_nat (unat (of_nat ?L div 4 :: u32)) :: u32) = of_nat (?L div 4)" by (simp only:)
  then have "(of_nat ?L div 4 :: u32) = of_nat (?L div 4)" by simp
  then have o: "(of_nat ?L div 4 * 3 :: u32) = of_nat (?L div 4 * 3)" by simp
  have uo: "unat (of_nat (?L div 4 * 3) :: u32) = ?L div 4 * 3" using assms(4) by (simp add: unat_of_nat del: of_nat_mult)
  have m0: "malloc 0 (of_nat (?L div 4 * 3) + 1) = Some buf" using assms(7) by (simp add: add.commute)
  have d: "mbedtls_base64_decode cs (Some t) buf (?L div 4 * 3) ?a ?L = Ret (- 1, False, buf)"
    using assms(2) by (simp add: mbedtls_base64_decode_def)
  have "take (?L div 4 * 3) buf = butlast buf" using assms(8) by (simp add: butlast_conv_take)
  then show ?thesis
    unfolding FromBase64CharArray_def option.case n Let_def narrow_whole c_bind_simps c1 c2 o u
    using d m0 uo assms(1,5,6,8,9) by (simp add: overwritten_def del: of_nat_mult)
qed

theorem incomplete_text_returns_uninitialised_memory_witness:
  "FromBase64CharArray True sevens (\<lambda>_. S_OK) [] (Some (char_array [65, 81, 73, 68, 66])) 5 =
     Ret (S_OK, Some [7, 7, 7], Some (overwritten (char_array [65, 81, 73, 68, 66]) 0 [65, 81, 73, 68, 66]))"
proof -
  let ?s = "[65, 81, 73, 68, 66] :: u8 list"
  have r: "replicate 4 7 = [7, 7, 7, 7 :: u8]" by (simp add: numeral_eq_Suc)
  have m: "length ?s = 5" "last ?s = 66" "?s ! 3 = 68" by (simp_all add: numeral_eq_Suc)
  have b: "sevens 0 (of_nat (5 div 4 * 3 + 1)) = Some [7, 7, 7, 7]" "sevens 1 256 = Some (replicate 256 7)"
    by (simp_all add: sevens_def r)
  from incomplete_text_returns_uninitialised_memory
    [of "\<lambda>_. S_OK" ?s sevens "[7, 7, 7, 7]" "replicate 256 7" True "[]", unfolded m] b
  show ?thesis by simp
qed

end
