(* ===== verification/NF_BitStream.thy ===== *)
theory NF_BitStream
  imports NF_ObjArray
begin

text \<open>
  The memory stream of the runtime (CLR_RT_HeapBlock_MemoryStream, Streams.cpp), a list of buffers that is
  written and read bit by bit, and the compressed integers that the binary formatter stores in it
  (BinaryFormatter.cpp).

  A buffer reads either its own payload or the external data it was given. \<open>alloc\<close> is what the event cache
  gives: the contents of the \<open>n\<close>-th buffer that is asked for, or nothing. The position in the list of
  buffers is a number; the number of the buffers stands for the end of the list.
\<close>

section \<open>The stream\<close>

definition c_PayloadSize :: nat where "c_PayloadSize = 32 * 12 - 4 - 4"

record stream_buffer =
  b_data :: "u8 list option"
  b_length :: nat
  b_payload :: "u8 list"

record memory_stream =
  s_buffers :: "stream_buffer list"
  s_current :: nat
  s_pos :: int
  s_avail :: nat
  s_extracted :: nat

type_synonym event_cache = "nat \<Rightarrow> u8 list option"

definition NewBuffer :: "event_cache \<Rightarrow> memory_stream \<Rightarrow> bool \<times> memory_stream" where
  "NewBuffer alloc s =
     (let s = s\<lparr>s_extracted := s_extracted s + 1\<rparr> in
      case alloc (s_extracted s - 1) of
        None \<Rightarrow> (False, s)
      | Some p \<Rightarrow> (True, s\<lparr>s_current := length (s_buffers s), s_pos := - 1, s_avail := 0,
          s_buffers := s_buffers s @ [\<lparr>b_data = None, b_length = 0, b_payload = p\<rparr>]\<rparr>))"

text \<open>The fields that are not set before the first buffer is asked for have unknown values.\<close>

definition MemoryStream_Initialize ::
    "event_cache \<Rightarrow> u8 list option \<Rightarrow> nat \<Rightarrow> memory_stream \<Rightarrow> hresult \<times> memory_stream" where
  "MemoryStream_Initialize alloc buf len s =
     (case NewBuffer alloc (s\<lparr>s_buffers := []\<rparr>) of (ok, s) \<Rightarrow>
      if \<not> ok then (CLR_E_OUT_OF_MEMORY, s)
      else
        case buf of
          None \<Rightarrow> (S_OK, s)
        | Some d \<Rightarrow> (S_OK, s\<lparr>s_buffers := (s_buffers s)
            [s_current s := (s_buffers s ! s_current s)\<lparr>b_data := Some d, b_length := len\<rparr>]\<rparr>))"

definition Rewind :: "memory_stream \<Rightarrow> memory_stream" where
  "Rewind s = s\<lparr>s_current := 0, s_pos := - 1, s_avail := 0\<rparr>"

definition MemoryStream_Reset :: "memory_stream \<Rightarrow> memory_stream" where
  "MemoryStream_Reset s = Rewind (s\<lparr>s_buffers := map (\<lambda>b. b\<lparr>b_length := 0\<rparr>) (s_buffers s)\<rparr>)"

text \<open>\<open>ToArray\<close> copies the payload of every buffer; whether the array can be made is a parameter.\<close>

definition MemoryStream_ToArray ::
    "(u32 \<Rightarrow> hresult) \<Rightarrow> memory_stream \<Rightarrow> (hresult \<times> u8 list option) c_result" where
  "MemoryStream_ToArray new_array s =
     (let tot = of_nat (sum_list (map b_length (s_buffers s))) in
      if new_array tot \<noteq> S_OK then Ret (new_array tot, None)
      else c_bind (c_map (\<lambda>b. c_map (c_index (b_payload b)) [0..<b_length b]) (s_buffers s))
             (\<lambda>bs. Ret (S_OK, Some (concat bs))))"

definition BitsAvailable :: "memory_stream \<Rightarrow> int" where
  "BitsAvailable s =
     s32 (int (s_avail s) - 8 * s_pos s - 8 + 8 * int (sum_list (map b_length (drop (s_current s) (s_buffers s)))))"

definition BitsWritten :: "memory_stream \<Rightarrow> int" where
  "BitsWritten s =
     s32 (s_pos s * 8 - int (s_avail s) + 8 + 8 * int (sum_list (map b_length (take (s_current s) (s_buffers s)))))"

subsection \<open>Reading\<close>

text \<open>To the next byte that is in a buffer. The end of the list is not a buffer: reading its fields is a fault.\<close>

function skip_buffers :: "memory_stream \<Rightarrow> (hresult \<times> memory_stream) c_result" where
  "skip_buffers s =
     (if s_current s < length (s_buffers s) then
        if s_pos s \<ge> int (b_length (s_buffers s ! s_current s)) then
          let s = s\<lparr>s_current := s_current s + 1\<rparr> in
          if s_current s = length (s_buffers s) then Ret (CLR_E_OUT_OF_RANGE, s)
          else skip_buffers (s\<lparr>s_pos := 0\<rparr>)
        else Ret (S_OK, s)
      else Fault BadIndex)"
  by auto
termination by (relation "measure (\<lambda>s. length (s_buffers s) - s_current s)") auto

declare skip_buffers.simps [simp del]

definition next_to_read :: "memory_stream \<Rightarrow> (hresult \<times> memory_stream) c_result" where
  "next_to_read s =
     (if s_avail s = 0 then skip_buffers (s\<lparr>s_pos := s_pos s + 1, s_avail := 8\<rparr>) else Ret (S_OK, s))"

definition buffer_data :: "stream_buffer \<Rightarrow> u8 list" where
  "buffer_data b = (case b_data b of None \<Rightarrow> b_payload b | Some d \<Rightarrow> d)"

definition current_byte :: "memory_stream \<Rightarrow> u8 c_result" where
  "current_byte s =
     (if s_pos s < 0 then Fault BadIndex
      else c_bind (c_index (s_buffers s) (s_current s)) (\<lambda>b. c_index (buffer_data b) (nat (s_pos s))))"

definition low_mask :: "nat \<Rightarrow> u32" where
  "low_mask n = push_bit n 1 - 1"

lemma skip_buffers_avail: "skip_buffers s = Ret (hr, s') \<Longrightarrow> s_avail s' = s_avail s"
  by (induction s rule: skip_buffers.induct) (auto simp: skip_buffers.simps Let_def split: if_splits)

lemma next_to_read_avail: "next_to_read s = Ret (hr, s') \<Longrightarrow> 0 < s_avail s'"
  by (auto simp: next_to_read_def split: if_splits dest: skip_buffers_avail)

function read_loop ::
    "u32 \<Rightarrow> u32 \<Rightarrow> nat \<Rightarrow> nat \<Rightarrow> memory_stream \<Rightarrow> (hresult \<times> u32 \<times> memory_stream) c_result" where
  "read_loop res val pos bits s =
     (if bits > 0 then
        c_bind (next_to_read s) (\<lambda>(hr, s).
        if hr \<noteq> S_OK then Ret (hr, res, s)
        else
          let insert = min bits (s_avail s); pos = pos - insert in
          c_bind (current_byte s) (\<lambda>b.
          let piece = drop_bit (s_avail s - insert) (ucast b) AND low_mask insert in
          read_loop res (val OR push_bit pos piece) pos (bits - insert) (s\<lparr>s_avail := s_avail s - insert\<rparr>)))
      else Ret (S_OK, val, s))"
  by auto
termination
  by (relation "measure (\<lambda>(_, _, _, bits, _). bits)") (auto dest: next_to_read_avail)

declare read_loop.simps [simp del]

definition ReadBits_32 :: "u32 \<Rightarrow> nat \<Rightarrow> memory_stream \<Rightarrow> (hresult \<times> u32 \<times> memory_stream) c_result" where
  "ReadBits_32 res bits s = read_loop res 0 bits bits s"

definition ReadBits_64 :: "u64 \<Rightarrow> nat \<Rightarrow> memory_stream \<Rightarrow> (hresult \<times> u64 \<times> memory_stream) c_result" where
  "ReadBits_64 res bits s =
     (let low = ucast res :: u32; high = ucast (drop_bit 32 res) :: u32;
          both = \<lambda>low high. push_bit 32 (ucast (high :: u32)) OR ucast (low :: u32) :: u64 in
      c_bind (if bits > 32 then ReadBits_32 high (bits - 32) s else Ret (S_OK, 0, s)) (\<lambda>(hr, high, s).
      if hr \<noteq> S_OK then Ret (hr, both low high, s)
      else c_bind (ReadBits_32 low (min bits 32) s) (\<lambda>(hr, low, s). Ret (hr, both low high, s))))"

fun ReadArray :: "nat \<Rightarrow> memory_stream \<Rightarrow> (hresult \<times> u8 list \<times> memory_stream) c_result" where
  "ReadArray 0 s = Ret (S_OK, [], s)"
| "ReadArray (Suc n) s =
     c_bind (ReadBits_32 0 8 s) (\<lambda>(hr, data, s).
     if hr \<noteq> S_OK then Ret (hr, [], s)
     else c_bind (ReadArray n s) (\<lambda>(hr, buf, s). Ret (hr, ucast data # buf, s)))"

subsection \<open>Writing\<close>

function next_to_write :: "event_cache \<Rightarrow> memory_stream \<Rightarrow> (hresult \<times> memory_stream) c_result" where
  "next_to_write alloc s =
     (if s_avail s = 0 then
        let s = s\<lparr>s_pos := s_pos s + 1\<rparr> in
        if s_pos s < int c_PayloadSize then
          if s_pos s < 0 then Fault BadIndex
          else
            c_bind (c_index (s_buffers s) (s_current s)) (\<lambda>b.
            c_bind (c_store (b_payload b) (nat (s_pos s)) 0) (\<lambda>p.
            Ret (S_OK, s\<lparr>s_buffers := (s_buffers s)[s_current s := b\<lparr>b_length := b_length b + 1, b_payload := p\<rparr>],
                         s_avail := 8\<rparr>)))
        else
          let r = NewBuffer alloc s in
          if fst r then next_to_write alloc (snd r) else Ret (CLR_E_OUT_OF_MEMORY, snd r)
      else Ret (S_OK, s))"
  by auto
termination
  by (relation "measure (\<lambda>(_, s). nat (s_pos s + 2))")
    (auto simp: NewBuffer_def Let_def c_PayloadSize_def split: option.splits)

declare next_to_write.simps [simp del]

definition or_current :: "u8 \<Rightarrow> memory_stream \<Rightarrow> memory_stream c_result" where
  "or_current v s =
     (if s_pos s < 0 then Fault BadIndex
      else
        c_bind (c_index (s_buffers s) (s_current s)) (\<lambda>b.
        c_bind (c_index (b_payload b) (nat (s_pos s))) (\<lambda>old.
        Ret (s\<lparr>s_buffers := (s_buffers s)
          [s_current s := b\<lparr>b_payload := (b_payload b)[nat (s_pos s) := old OR v]\<rparr>]\<rparr>))))"

lemma next_to_write_avail: "next_to_write alloc s = Ret (hr, s') \<Longrightarrow> hr = S_OK \<Longrightarrow> 0 < s_avail s'"
proof (induction alloc s rule: next_to_write.induct)
  case (1 alloc s)
  from 1(2,3) 1(1) [OF _ refl _ refl] show ?case
    by (subst (asm) next_to_write.simps) (auto simp: Let_def c_bind_Inr_iff split: if_splits)
qed

function write_loop ::
    "event_cache \<Rightarrow> u32 \<Rightarrow> nat \<Rightarrow> nat \<Rightarrow> memory_stream \<Rightarrow> (hresult \<times> memory_stream) c_result" where
  "write_loop alloc val pos bits s =
     (if bits > 0 then
        c_bind (next_to_write alloc s) (\<lambda>(hr, s).
        if hr \<noteq> S_OK then Ret (hr, s)
        else
          let insert = min bits (s_avail s); pos = pos - insert in
          c_bind (c_shr val pos) (\<lambda>v.
          c_bind (or_current (ucast (push_bit (s_avail s - insert) (v AND low_mask insert))) s) (\<lambda>s'.
          write_loop alloc val pos (bits - insert) (s'\<lparr>s_avail := s_avail s - insert\<rparr>))))
      else Ret (S_OK, s))"
  by auto
termination
  by (relation "measure (\<lambda>(_, _, _, bits, _). bits)") (auto dest: next_to_write_avail)

declare write_loop.simps [simp del]

definition WriteBits_32 :: "event_cache \<Rightarrow> u32 \<Rightarrow> nat \<Rightarrow> memory_stream \<Rightarrow> (hresult \<times> memory_stream) c_result" where
  "WriteBits_32 alloc val bits s = write_loop alloc val bits bits s"

definition WriteBits_64 :: "event_cache \<Rightarrow> u64 \<Rightarrow> nat \<Rightarrow> memory_stream \<Rightarrow> (hresult \<times> memory_stream) c_result" where
  "WriteBits_64 alloc res bits s =
     c_bind (if bits > 32 then WriteBits_32 alloc (ucast (drop_bit 32 res)) (bits - 32) s else Ret (S_OK, s)) (\<lambda>(hr, s).
     if hr \<noteq> S_OK then Ret (hr, s) else WriteBits_32 alloc (ucast res) (min bits 32) s)"

fun WriteArray :: "event_cache \<Rightarrow> u8 list \<Rightarrow> memory_stream \<Rightarrow> (hresult \<times> memory_stream) c_result" where
  "WriteArray alloc [] s = Ret (S_OK, s)"
| "WriteArray alloc (b # buf) s =
     c_bind (WriteBits_32 alloc (ucast b) 8 s) (\<lambda>(hr, s).
     if hr \<noteq> S_OK then Ret (hr, s) else WriteArray alloc buf s)"

subsection \<open>Compressed integers\<close>

definition compressed_bits :: "u32 \<Rightarrow> (u32 \<times> nat) option" where
  "compressed_bits val =
     (if val = 0xFFFFFFFF then Some (val, 8)
      else if val < 0x80 then Some (val, 8)
      else if val < 0x3F00 then Some (val OR 0x8000, 16)
      else if val < 0x3F000000 then Some (val OR 0xC0000000, 32)
      else None)"

definition WriteCompressedUnsigned ::
    "event_cache \<Rightarrow> u32 \<Rightarrow> memory_stream \<Rightarrow> (hresult \<times> memory_stream) c_result" where
  "WriteCompressedUnsigned alloc val s =
     (case compressed_bits val of
        None \<Rightarrow> Ret (CLR_E_OUT_OF_RANGE, s)
      | Some (val, bits) \<Rightarrow> WriteBits_32 alloc val bits s)"

text \<open>
  The local \<open>extra\<close> has an unknown value before it is read: it is a parameter. When the second read fails
  the value is computed from it, and the error returned.
\<close>

definition extra_bits :: "u32 \<Rightarrow> nat" where
  "extra_bits val = (if val AND 0xC0 = 0x80 then 8 else if val AND 0xC0 = 0xC0 then 24 else 0)"

definition ReadCompressedUnsigned ::
    "u32 \<Rightarrow> u32 \<Rightarrow> memory_stream \<Rightarrow> (hresult \<times> u32 \<times> memory_stream) c_result" where
  "ReadCompressedUnsigned extra val s =
     c_bind (ReadBits_32 val 8 s) (\<lambda>(hr, val, s).
     if hr \<noteq> S_OK then Ret (hr, val, s)
     else if val = 0xFF then Ret (hr, 0xFFFFFFFF, s)
     else if extra_bits val = 0 then Ret (hr, val, s)
     else
       c_bind (ReadBits_32 extra (extra_bits val) s) (\<lambda>(hr, extra, s).
       Ret (hr, push_bit (extra_bits val) (val AND NOT 0xC0) OR extra, s)))"

end
