(* ===== verification/NF_BitStreamProps.thy ===== *)
theory NF_BitStreamProps
  imports NF_BitStream
begin

text \<open>
  A memory stream is a list of bits: writing puts the bits of a value behind those that were written,
  most significant first, reading takes them from the front of those that are left. What is written is
  therefore read back, compressed integers included.
\<close>

section \<open>Bits\<close>

definition byte_bits :: "u8 \<Rightarrow> bool list" where
  "byte_bits b = map (bit b) (rev [0..<8])"

definition bits_of :: "u8 list \<Rightarrow> bool list" where
  "bits_of bs = concat (map byte_bits bs)"

definition word_bits :: "nat \<Rightarrow> 'a::len word \<Rightarrow> bool list" where
  "word_bits n v = map (bit v) (rev [0..<n])"

definition bits_value :: "bool list \<Rightarrow> 'a::len word" where
  "bits_value bs = horner_sum of_bool 2 (rev bs)"

lemma length_byte_bits [simp]: "length (byte_bits b) = 8"
  by (simp add: byte_bits_def)

lemma length_word_bits [simp]: "length (word_bits n v) = n"
  by (simp add: word_bits_def)

lemma bits_of_simps [simp]:
  "bits_of [] = []" "bits_of (b # bs) = byte_bits b @ bits_of bs" "bits_of (xs @ ys) = bits_of xs @ bits_of ys"
  by (simp_all add: bits_of_def)

lemma length_bits_of [simp]: "length (bits_of bs) = 8 * length bs"
  by (induction bs) simp_all

lemma byte_bits_nth: "i < 8 \<Longrightarrow> byte_bits b ! i = bit b (7 - i)"
  by (simp add: byte_bits_def rev_nth)

lemma word_bits_nth: "i < n \<Longrightarrow> word_bits n v ! i = bit v (n - Suc i)"
  by (simp add: word_bits_def rev_nth)

lemma bit_bits_value:
  "bit (bits_value bs :: 'a::len word) i \<longleftrightarrow> i < LENGTH('a) \<and> i < length bs \<and> bs ! (length bs - Suc i)"
  by (auto simp: bits_value_def bit_horner_sum_bit_word_iff rev_nth)

lemma bits_value_word_bits: "bits_value (word_bits n v) = take_bit n (v :: 'a::len word)"
  by (rule bit_word_eqI) (auto simp: bit_bits_value word_bits_nth bit_take_bit_iff)

lemma bits_value_append:
  "bits_value (xs @ ys) = push_bit (length ys) (bits_value xs :: 'a::len word) OR bits_value ys"
  by (rule bit_word_eqI) (auto simp: bit_bits_value bit_push_bit_iff bit_or_iff nth_append Suc_diff_Suc)

lemma word_bits_append: "word_bits (m + n) v = word_bits m (drop_bit n v) @ word_bits n v"
  by (rule nth_equalityI) (auto simp: word_bits_nth nth_append bit_drop_bit_eq add.commute)

lemma word_bits_halves:
  fixes v :: u64
  assumes "32 < n" "n \<le> 64"
  shows "word_bits n v = word_bits (n - 32) (ucast (drop_bit 32 v) :: u32) @ word_bits 32 (ucast v :: u32)"
  using assms by (intro nth_equalityI)
    (auto simp: word_bits_nth nth_append bit_drop_bit_eq bit_ucast_iff)

lemma word_bits_low: "n \<le> 32 \<Longrightarrow> word_bits n (ucast (v :: u64) :: u32) = word_bits n v"
  by (intro nth_equalityI) (auto simp: word_bits_nth bit_ucast_iff)

lemma bit_low_mask: "bit (low_mask n) i \<longleftrightarrow> i < n \<and> i < 32"
proof -
  have "low_mask n = mask n" by (simp add: low_mask_def mask_eq_decr_exp)
  then show ?thesis by (simp add: bit_mask_iff conj_commute)
qed

section \<open>Writing\<close>

definition own_bytes :: "stream_buffer \<Rightarrow> u8 list" where
  "own_bytes b = take (b_length b) (b_payload b)"

definition bits_written :: "memory_stream \<Rightarrow> bool list" where
  "bits_written s =
     (let b = s_buffers s ! s_current s; n = b_length b in
      bits_of (concat (map own_bytes (take (s_current s) (s_buffers s))) @ take (n - 1) (b_payload b)) @
      (if n = 0 then [] else take (8 - s_avail s) (byte_bits (b_payload b ! (n - 1)))))"

text \<open>
  A stream that is being written: the buffers behind the current one are empty, the position is its last
  byte and the bits that are still available there are clear.
\<close>

definition wf_buffer :: "stream_buffer \<Rightarrow> bool" where
  "wf_buffer b \<longleftrightarrow> b_data b = None \<and> length (b_payload b) = c_PayloadSize \<and> b_length b \<le> c_PayloadSize"

definition writing :: "memory_stream \<Rightarrow> bool" where
  "writing s \<longleftrightarrow> s_current s < length (s_buffers s) \<and> (\<forall>b\<in>set (s_buffers s). wf_buffer b) \<and>
     (\<forall>b\<in>set (drop (Suc (s_current s)) (s_buffers s)). b_length b = 0) \<and>
     s_pos s = int (b_length (s_buffers s ! s_current s)) - 1 \<and> s_avail s \<le> 8 \<and>
     (b_length (s_buffers s ! s_current s) = 0 \<longrightarrow> s_avail s = 0) \<and>
     (\<forall>i < s_avail s. \<not> bit (b_payload (s_buffers s ! s_current s) ! nat (s_pos s)) i)"

definition gives_buffers :: "event_cache \<Rightarrow> bool" where
  "gives_buffers alloc \<longleftrightarrow> (\<forall>n. \<exists>p. alloc n = Some p \<and> length p = c_PayloadSize)"

lemma writing_nth: "writing s \<Longrightarrow> wf_buffer (s_buffers s ! s_current s)"
  by (simp add: writing_def)

lemma next_to_write_room:
  assumes "writing s" and "s_avail s = 0" and "b_length (s_buffers s ! s_current s) < c_PayloadSize"
  shows "\<exists>s'. next_to_write alloc s = Ret (S_OK, s') \<and> writing s' \<and> s_avail s' = 8 \<and> bits_written s' = bits_written s"
proof -
  let ?b = "s_buffers s ! s_current s"
  let ?n = "b_length ?b"
  let ?c = "?b\<lparr>b_length := ?n + 1, b_payload := (b_payload ?b)[?n := 0]\<rparr>"
  let ?s = "s\<lparr>s_pos := int ?n, s_buffers := (s_buffers s)[s_current s := ?c], s_avail := 8\<rparr>"
  have w: "s_current s < length (s_buffers s)" "s_pos s = int ?n - 1" "wf_buffer ?b"
    using assms(1) by (simp_all add: writing_def)
  have l: "length (b_payload ?b) = c_PayloadSize" using w(3) by (simp add: wf_buffer_def)
  have "next_to_write alloc s = Ret (S_OK, ?s)"
    using assms(2,3) w(1,2) l by (subst next_to_write.simps) (simp add: Let_def c_index_def c_store_def)
  moreover have "writing ?s"
  proof -
    have "\<forall>b\<in>set (s_buffers ?s). wf_buffer b"
    proof
      fix b assume "b \<in> set (s_buffers ?s)"
      then have "b \<in> insert ?c (set (s_buffers s))" using set_update_subset_insert by fastforce
      then show "wf_buffer b" using assms(1,3) l w(3) by (auto simp: writing_def wf_buffer_def)
    qed
    moreover have "s_buffers ?s ! s_current ?s = ?c" using w(1) by simp
    moreover have "b_payload ?c ! ?n = 0" using assms(3) l by simp
    moreover have "\<forall>b\<in>set (drop (Suc (s_current s)) (s_buffers s)). b_length b = 0" using assms(1) by (simp add: writing_def)
    moreover have "s_avail ?s = 8" "s_pos ?s = int ?n" "s_current ?s = s_current s" "length (s_buffers ?s) = length (s_buffers s)"
      "drop (Suc (s_current s)) (s_buffers ?s) = drop (Suc (s_current s)) (s_buffers s)" "b_length ?c = ?n + 1"
      by simp_all
    ultimately show ?thesis using w(1) unfolding writing_def by simp
  qed
  moreover have "bits_written ?s = bits_written s"
  proof (cases "?n = 0")
    case True
    then show ?thesis using w(1) by (simp add: bits_written_def Let_def)
  next
    case False
    have "take ?n (b_payload ?b) = take (?n - 1) (b_payload ?b) @ [b_payload ?b ! (?n - 1)]"
      using False assms(3) l take_Suc_conv_app_nth [of "?n - 1" "b_payload ?b"] by simp
    then show ?thesis using w(1) False assms(2) l by (simp add: bits_written_def Let_def)
  qed
  ultimately show ?thesis by (intro exI [of _ ?s]) simp
qed

lemma own_bytes_empty: "\<forall>b\<in>set bs. b_length b = 0 \<Longrightarrow> concat (map own_bytes bs) = []"
  by (simp add: own_bytes_def)

lemma bits_written_full:
  assumes "writing s" and "s_avail s = 0"
  shows "bits_written s = bits_of (concat (map own_bytes (s_buffers s)))"
proof -
  let ?b = "s_buffers s ! s_current s"
  let ?n = "b_length ?b"
  have w: "s_current s < length (s_buffers s)" "?n \<le> length (b_payload ?b)"
    using assms(1) by (simp_all add: writing_def wf_buffer_def)
  have e: "concat (map own_bytes (drop (Suc (s_current s)) (s_buffers s))) = []"
    using assms(1) by (intro own_bytes_empty) (simp add: writing_def)
  have "concat (map own_bytes (s_buffers s)) = concat (map own_bytes (take (s_current s) (s_buffers s))) @ own_bytes ?b"
    by (subst id_take_nth_drop [OF w(1)]) (simp only: map_append concat_append list.map concat.simps e append_Nil2)
  moreover have "take ?n (b_payload ?b) = take (?n - 1) (b_payload ?b) @ [b_payload ?b ! (?n - 1)]" if "?n \<noteq> 0"
    using that w(2) take_Suc_conv_app_nth [of "?n - 1" "b_payload ?b"] by simp
  ultimately show ?thesis using assms(2) by (simp add: bits_written_def Let_def own_bytes_def)
qed

lemma next_to_write_ready:
  assumes "writing s" and "s_avail s = 0" and "gives_buffers alloc"
  shows "\<exists>s'. next_to_write alloc s = Ret (S_OK, s') \<and> writing s' \<and> s_avail s' = 8 \<and> bits_written s' = bits_written s"
proof (cases "b_length (s_buffers s ! s_current s) < c_PayloadSize")
  case True
  then show ?thesis using next_to_write_room assms by blast
next
  case False
  then have n: "b_length (s_buffers s ! s_current s) = c_PayloadSize"
    using assms(1) writing_nth [of s] by (simp add: wf_buffer_def)
  obtain p where p: "alloc (s_extracted s) = Some p" "length p = c_PayloadSize"
    using assms(3) by (auto simp: gives_buffers_def)
  let ?b = "\<lparr>b_data = None, b_length = 0, b_payload = p\<rparr>"
  let ?s = "s\<lparr>s_extracted := Suc (s_extracted s), s_current := length (s_buffers s), s_pos := - 1, s_avail := 0,
    s_buffers := s_buffers s @ [?b]\<rparr>"
  have "next_to_write alloc s = next_to_write alloc ?s"
    using assms(1,2) n p by (subst next_to_write.simps) (simp add: writing_def NewBuffer_def Let_def)
  moreover have w: "writing ?s" using assms(1) p(2) by (auto simp: writing_def wf_buffer_def)
  moreover have "bits_written ?s = bits_written s"
    using bits_written_full [OF assms(1,2)] bits_written_full [OF w] by (simp add: own_bytes_def)
  moreover have "b_length (s_buffers ?s ! s_current ?s) < c_PayloadSize" by (simp add: c_PayloadSize_def)
  ultimately show ?thesis using next_to_write_room [OF w] by simp
qed

lemma byte_with_bits:
  assumes "\<forall>i < a. \<not> bit old i" and "a \<le> 8" and "k \<le> a"
  shows "take (8 - (a - k)) (byte_bits (old OR ucast (push_bit (a - k) (w AND low_mask k)))) =
      take (8 - a) (byte_bits old) @ word_bits k w"
    and "\<forall>i < a - k. \<not> bit (old OR ucast (push_bit (a - k) (w AND low_mask k))) i"
proof -
  show "take (8 - (a - k)) (byte_bits (old OR ucast (push_bit (a - k) (w AND low_mask k)))) =
      take (8 - a) (byte_bits old) @ word_bits k w"
  proof (rule nth_equalityI)
    fix i assume "i < length (take (8 - (a - k)) (byte_bits (old OR ucast (push_bit (a - k) (w AND low_mask k)))))"
    then have i: "i < 8 - (a - k)" "i < 8" by simp_all
    show "take (8 - (a - k)) (byte_bits (old OR ucast (push_bit (a - k) (w AND low_mask k)))) ! i =
        (take (8 - a) (byte_bits old) @ word_bits k w) ! i"
    proof (cases "i < 8 - a")
      case True
      then have "7 - i - (a - k) \<ge> k" using assms(2,3) by linarith
      then show ?thesis using True i
        by (simp add: nth_append byte_bits_nth bit_or_iff bit_ucast_iff bit_push_bit_iff bit_and_iff bit_low_mask)
    next
      case False
      define j where "j = k - Suc (i - (8 - a))"
      have e: "7 - i = (a - k) + j" "j < k" "(a - k) + j < a" "i - (8 - a) < k" "j < 32" "(a - k) + j < 32" "(a - k) + j < 8"
        using False assms(2,3) i unfolding j_def by arith+
      have "word_bits k w ! (i - (8 - a)) = bit w j" using e(4) by (simp add: word_bits_nth j_def)
      moreover have "byte_bits b ! i = bit b ((a - k) + j)" for b using i(2) e(1) by (simp add: byte_bits_nth)
      moreover have "\<not> bit old ((a - k) + j)" using assms(1) e(3) by simp
      ultimately show ?thesis using False i e(2-)
        by (simp add: nth_append bit_or_iff bit_ucast_iff bit_push_bit_iff bit_and_iff bit_low_mask)
    qed
  qed (use assms(2,3) in simp)
  show "\<forall>i < a - k. \<not> bit (old OR ucast (push_bit (a - k) (w AND low_mask k))) i"
    using assms by (auto simp: bit_simps)
qed

lemma or_current_appends:
  assumes "writing s" and "k \<le> s_avail s" and "0 < s_avail s"
  shows "\<exists>s1. or_current (ucast (push_bit (s_avail s - k) (w AND low_mask k))) s = Ret s1 \<and>
    writing (s1\<lparr>s_avail := s_avail s - k\<rparr>) \<and>
    bits_written (s1\<lparr>s_avail := s_avail s - k\<rparr>) = bits_written s @ word_bits k w"
proof -
  let ?b = "s_buffers s ! s_current s"
  let ?n = "b_length ?b"
  let ?v = "ucast (push_bit (s_avail s - k) (w AND low_mask k)) :: u8"
  let ?p = "(b_payload ?b)[?n - 1 := b_payload ?b ! (?n - 1) OR ?v]"
  let ?c = "?b\<lparr>b_payload := ?p\<rparr>"
  let ?s1 = "s\<lparr>s_buffers := (s_buffers s)[s_current s := ?c]\<rparr>"
  let ?s2 = "?s1\<lparr>s_avail := s_avail s - k\<rparr>"
  have w: "s_current s < length (s_buffers s)" "s_pos s = int ?n - 1" "wf_buffer ?b" "?n \<noteq> 0" "s_avail s \<le> 8"
    "\<forall>i < s_avail s. \<not> bit (b_payload ?b ! nat (s_pos s)) i" "\<forall>b\<in>set (s_buffers s). wf_buffer b"
    "\<forall>b\<in>set (drop (Suc (s_current s)) (s_buffers s)). b_length b = 0"
    using assms(1,3) by (auto simp: writing_def)
  have l: "length (b_payload ?b) = c_PayloadSize" "?n \<le> c_PayloadSize" using w(3) by (simp_all add: wf_buffer_def)
  have pos: "nat (s_pos s) = ?n - 1" "0 \<le> s_pos s" using w(2,4) by simp_all
  have n: "?n - 1 < length (b_payload ?b)" using w(4) l by simp
  note new = byte_with_bits [OF w(6) w(5) assms(2), of w]
  have "or_current ?v s = Ret ?s1"
    using w(1) pos n by (simp add: or_current_def c_index_def)
  moreover have "writing ?s2"
  proof -
    have "\<forall>b\<in>set (s_buffers ?s2). wf_buffer b"
    proof
      fix b assume "b \<in> set (s_buffers ?s2)"
      then have "b \<in> insert ?c (set (s_buffers s))" using set_update_subset_insert by fastforce
      then show "wf_buffer b" using w(3,7) by (auto simp: wf_buffer_def)
    qed
    moreover have "s_buffers ?s2 ! s_current ?s2 = ?c" using w(1) by simp
    moreover have "?p ! (?n - 1) = b_payload ?b ! (?n - 1) OR ?v" using n by simp
    ultimately show ?thesis using w(1,2,4,5,8) new(2) pos unfolding writing_def by simp
  qed
  moreover have "bits_written ?s2 = bits_written s @ word_bits k w"
    using w(1,4) n new(1) pos by (simp add: bits_written_def Let_def)
  ultimately show ?thesis by (intro exI [of _ ?s1]) simp
qed

lemma write_loop_appends:
  "writing s \<Longrightarrow> gives_buffers alloc \<Longrightarrow> bits \<le> 32 \<Longrightarrow>
   \<exists>s'. write_loop alloc val bits bits s = Ret (S_OK, s') \<and> writing s' \<and> bits_written s' = bits_written s @ word_bits bits val"
proof (induction bits arbitrary: s rule: less_induct)
  case (less bits)
  show ?case
  proof (cases "bits = 0")
    case True
    then show ?thesis using less.prems by (subst write_loop.simps) (simp add: word_bits_def)
  next
    case False
    obtain s1 where s1: "next_to_write alloc s = Ret (S_OK, s1)" "writing s1" "0 < s_avail s1" "bits_written s1 = bits_written s"
    proof (cases "s_avail s = 0")
      case True
      then show ?thesis using next_to_write_ready [OF less.prems(1) _ less.prems(2)] that by auto
    next
      case False
      then have "next_to_write alloc s = Ret (S_OK, s)" by (subst next_to_write.simps) simp
      then show ?thesis using that False less.prems(1) by simp
    qed
    let ?k = "min bits (s_avail s1)"
    let ?v = "drop_bit (bits - ?k) val"
    obtain s2 where s2: "or_current (ucast (push_bit (s_avail s1 - ?k) (?v AND low_mask ?k))) s1 = Ret s2"
      "writing (s2\<lparr>s_avail := s_avail s1 - ?k\<rparr>)"
      "bits_written (s2\<lparr>s_avail := s_avail s1 - ?k\<rparr>) = bits_written s @ word_bits ?k ?v"
      using or_current_appends [OF s1(2) _ s1(3), of ?k ?v] s1(4) by auto
    have k: "bits - ?k < bits" "bits - ?k < 32" "?k + (bits - ?k) = bits" using False s1(3) less.prems(3) by auto
    then have "write_loop alloc val bits bits s = write_loop alloc val (bits - ?k) (bits - ?k) (s2\<lparr>s_avail := s_avail s1 - ?k\<rparr>)"
      using False s1(1) s2(1) by (subst write_loop.simps) (simp add: Let_def c_shr_def)
    with less.IH [OF k(1) s2(2) less.prems(2)] k s2(3) word_bits_append [of ?k "bits - ?k" val] show ?thesis by simp
  qed
qed

section \<open>Reading\<close>

definition content :: "stream_buffer \<Rightarrow> u8 list" where
  "content b = take (b_length b) (buffer_data b)"

definition bits_left :: "memory_stream \<Rightarrow> bool list" where
  "bits_left s =
     (let b = s_buffers s ! s_current s in
      drop (8 - s_avail s) (byte_bits (content b ! nat (s_pos s))) @ bits_of (drop (nat (s_pos s + 1)) (content b)) @
      bits_of (concat (map content (drop (Suc (s_current s)) (s_buffers s)))))"

definition reading :: "memory_stream \<Rightarrow> bool" where
  "reading s \<longleftrightarrow> s_current s < length (s_buffers s) \<and>
     (\<forall>b\<in>set (s_buffers s). b_length b \<le> length (buffer_data b)) \<and> - 1 \<le> s_pos s \<and> s_avail s \<le> 8 \<and>
     (0 < s_avail s \<longrightarrow> 0 \<le> s_pos s \<and> s_pos s < int (b_length (s_buffers s ! s_current s)))"

lemma length_content: "reading s \<Longrightarrow> s_current s < length (s_buffers s) \<Longrightarrow>
    length (content (s_buffers s ! s_current s)) = b_length (s_buffers s ! s_current s)"
  by (simp add: reading_def content_def)

text \<open>Where reading goes on, when \<open>ahead\<close> are the bytes to come: at the first of them, or nowhere.\<close>

definition skips_to :: "memory_stream \<Rightarrow> u8 list \<Rightarrow> bool" where
  "skips_to s ahead \<longleftrightarrow>
     (if ahead = [] then \<exists>s'. skip_buffers s = Ret (CLR_E_OUT_OF_RANGE, s') \<and> s_current s' = length (s_buffers s') \<and> s_avail s' = 8
      else \<exists>s'. skip_buffers s = Ret (S_OK, s') \<and> reading s' \<and> s_avail s' = 8 \<and> s_buffers s' = s_buffers s \<and>
        bits_left s' = bits_of ahead)"

lemma skip_buffers_finds:
  assumes "s_current s < length (s_buffers s)" and "\<forall>b\<in>set (s_buffers s). b_length b \<le> length (buffer_data b)"
    and "0 \<le> s_pos s" and "s_avail s = 8"
  shows "skips_to s (drop (nat (s_pos s)) (content (s_buffers s ! s_current s)) @
    concat (map content (drop (Suc (s_current s)) (s_buffers s))))"
  using assms
proof (induction s rule: skip_buffers.induct)
  case (1 s)
  let ?b = "s_buffers s ! s_current s"
  have l: "length (content ?b) = b_length ?b" using 1(2,3) by (simp add: content_def)
  show ?case
  proof (cases "s_pos s \<ge> int (b_length ?b)")
    case False
    then have d: "drop (nat (s_pos s)) (content ?b) = content ?b ! nat (s_pos s) # drop (nat (s_pos s + 1)) (content ?b)"
      using 1(4) l by (subst Cons_nth_drop_Suc [symmetric]) (simp_all add: nat_less_iff Suc_nat_eq_nat_zadd1 add.commute)
    have "skip_buffers s = Ret (S_OK, s)" using False 1(2) by (subst skip_buffers.simps) simp
    moreover have "reading s" using False 1(2-5) by (simp add: reading_def)
    moreover have "bits_left s = bits_of (drop (nat (s_pos s)) (content ?b) @
        concat (map content (drop (Suc (s_current s)) (s_buffers s))))"
      using 1(5) unfolding bits_left_def Let_def d by simp
    ultimately show ?thesis using d 1(5) by (simp add: skips_to_def)
  next
    case True
    then have e: "drop (nat (s_pos s)) (content ?b) = []" using l by simp
    show ?thesis
    proof (cases "Suc (s_current s) = length (s_buffers s)")
      case last: True
      then have "skip_buffers s = Ret (CLR_E_OUT_OF_RANGE, s\<lparr>s_current := Suc (s_current s)\<rparr>)"
        using True 1(2) by (subst skip_buffers.simps) (simp add: Let_def)
      then show ?thesis using e last 1(5) by (simp add: skips_to_def)
    next
      case False
      let ?s = "s\<lparr>s_current := Suc (s_current s), s_pos := 0\<rparr>"
      have c: "Suc (s_current s) < length (s_buffers s)" using False 1(2) by simp
      have "skip_buffers s = skip_buffers ?s"
        using False True 1(2) by (subst skip_buffers.simps) (simp add: Let_def)
      then have r: "skips_to s = skips_to ?s" by (simp add: skips_to_def fun_eq_iff)
      have d: "concat (map content (drop (Suc (s_current s)) (s_buffers s))) =
          content (s_buffers s ! Suc (s_current s)) @ concat (map content (drop (Suc (Suc (s_current s))) (s_buffers s)))"
        using c by (subst Cons_nth_drop_Suc [symmetric]) simp_all
      show ?thesis using 1(1) [OF 1(2) True refl] False c 1(3,5) unfolding r e d by simp
    qed
  qed
qed

lemma next_to_read_ready:
  assumes "reading s"
  shows "if bits_left s = [] then \<exists>s'. next_to_read s = Ret (CLR_E_OUT_OF_RANGE, s') \<and>
      s_current s' = length (s_buffers s') \<and> s_avail s' = 8
    else \<exists>s'. next_to_read s = Ret (S_OK, s') \<and> reading s' \<and> 0 < s_avail s' \<and> s_buffers s' = s_buffers s \<and> bits_left s' = bits_left s"
proof (cases "s_avail s = 0")
  case True
  let ?s = "s\<lparr>s_pos := s_pos s + 1, s_avail := 8\<rparr>"
  let ?ahead = "drop (nat (s_pos ?s)) (content (s_buffers ?s ! s_current ?s)) @
    concat (map content (drop (Suc (s_current ?s)) (s_buffers ?s)))"
  have "bits_left s = bits_of ?ahead" using True by (simp add: bits_left_def Let_def)
  moreover have "bits_of ?ahead = [] \<longleftrightarrow> ?ahead = []"
    by (metis length_bits_of length_0_conv mult_is_0 zero_neq_numeral)
  ultimately show ?thesis
    using skip_buffers_finds [of ?s] assms True by (auto simp: skips_to_def reading_def next_to_read_def split: if_splits)
next
  case False
  then have "8 - s_avail s < 8" by simp
  then have "bits_left s \<noteq> []" by (simp add: bits_left_def Let_def linorder_not_le)
  then show ?thesis using False assms by (simp add: next_to_read_def)
qed

lemma byte_piece:
  assumes "k \<le> a" and "a \<le> 8"
  shows "drop_bit (a - k) (ucast b) AND low_mask k = bits_value (take k (drop (8 - a) (byte_bits b)))"
proof (rule bit_word_eqI)
  fix i assume "i < LENGTH(32)"
  show "bit (drop_bit (a - k) (ucast b) AND low_mask k) i = bit (bits_value (take k (drop (8 - a) (byte_bits b))) :: u32) i"
  proof (cases "i < k")
    case True
    then have e: "8 - a + (k - Suc i) < 8" "7 - (8 - a + (k - Suc i)) = a - k + i" "a - k + i < 32" "k - Suc i < k"
      using assms by arith+
    have "min k (8 - (8 - a)) = k" using assms by simp
    then show ?thesis using True e \<open>i < LENGTH(32)\<close>
      by (simp add: bit_and_iff bit_drop_bit_eq bit_ucast_iff bit_low_mask bit_bits_value byte_bits_nth)
  qed (simp add: bit_and_iff bit_low_mask bit_bits_value)
qed

lemma read_piece:
  assumes "reading s" and "0 < s_avail s" and "k \<le> s_avail s"
  shows "\<exists>b. current_byte s = Ret b \<and>
      drop_bit (s_avail s - k) (ucast b) AND low_mask k = bits_value (take k (bits_left s)) \<and>
      bits_left (s\<lparr>s_avail := s_avail s - k\<rparr>) = drop k (bits_left s) \<and>
      reading (s\<lparr>s_avail := s_avail s - k\<rparr>)"
proof -
  let ?b = "s_buffers s ! s_current s"
  have r: "s_current s < length (s_buffers s)" "s_avail s \<le> 8" "0 \<le> s_pos s" "nat (s_pos s) < b_length ?b"
    "b_length ?b \<le> length (buffer_data ?b)"
    using assms(1,2) by (auto simp: reading_def)
  have c: "current_byte s = Ret (content ?b ! nat (s_pos s))"
    using r by (simp add: current_byte_def c_index_def content_def)
  have l: "k \<le> length (drop (8 - s_avail s) (byte_bits (content ?b ! nat (s_pos s))))" using assms(3) r(2) by simp
  have "take k (bits_left s) = take k (drop (8 - s_avail s) (byte_bits (content ?b ! nat (s_pos s))))"
    using l unfolding bits_left_def Let_def by simp
  moreover have "8 - (s_avail s - k) = k + (8 - s_avail s)" using assms(3) r(2) by simp
  then have "bits_left (s\<lparr>s_avail := s_avail s - k\<rparr>) = drop k (bits_left s)"
    using l unfolding bits_left_def Let_def by simp
  moreover have "reading (s\<lparr>s_avail := s_avail s - k\<rparr>)" using assms by (auto simp: reading_def)
  ultimately show ?thesis using c byte_piece [OF assms(3) r(2)] by auto
qed

lemma read_loop_takes:
  "reading s \<Longrightarrow> bits \<le> length (bits_left s) \<Longrightarrow>
   \<exists>s'. read_loop res val bits bits s = Ret (S_OK, val OR bits_value (take bits (bits_left s)), s') \<and> reading s' \<and>
     s_buffers s' = s_buffers s \<and> bits_left s' = drop bits (bits_left s)"
proof (induction bits arbitrary: s val rule: less_induct)
  case (less bits)
  show ?case
  proof (cases "bits = 0")
    case True
    then show ?thesis using less.prems by (subst read_loop.simps) (simp add: bits_value_def)
  next
    case False
    then have "bits_left s \<noteq> []" using less.prems(2) by auto
    then obtain s1 where s1: "next_to_read s = Ret (S_OK, s1)" "reading s1" "0 < s_avail s1"
      "s_buffers s1 = s_buffers s" "bits_left s1 = bits_left s"
      using next_to_read_ready [OF less.prems(1)] by auto
    let ?k = "min bits (s_avail s1)"
    let ?s2 = "s1\<lparr>s_avail := s_avail s1 - ?k\<rparr>"
    have k: "bits - ?k < bits" "bits = ?k + (bits - ?k)" using False s1(3) by auto
    obtain b where b: "current_byte s1 = Ret b"
      "drop_bit (s_avail s1 - ?k) (ucast b) AND low_mask ?k = bits_value (take ?k (bits_left s))"
      "bits_left ?s2 = drop ?k (bits_left s)" "reading ?s2"
      using read_piece [OF s1(2,3), of ?k] s1(5) by auto
    let ?val = "val OR push_bit (bits - ?k) (bits_value (take ?k (bits_left s)))"
    have r: "read_loop res val bits bits s = read_loop res ?val (bits - ?k) (bits - ?k) ?s2"
      using False s1(1) b(1,2) by (subst read_loop.simps) (simp add: Let_def del: push_bit_and)
    have n: "bits - ?k \<le> length (bits_left ?s2)" using less.prems(2) b(3) by simp
    obtain s' where s': "read_loop res ?val (bits - ?k) (bits - ?k) ?s2 =
        Ret (S_OK, ?val OR bits_value (take (bits - ?k) (bits_left ?s2)), s')"
      "reading s'" "s_buffers s' = s_buffers s1" "bits_left s' = drop (bits - ?k) (bits_left ?s2)"
      using less.IH [OF k(1) b(4) n, of ?val] by auto
    have t: "take bits (bits_left s) = take ?k (bits_left s) @ take (bits - ?k) (drop ?k (bits_left s))"
      by (subst k(2)) (simp only: take_add)
    have "length (take (bits - ?k) (drop ?k (bits_left s))) = bits - ?k" using n b(3) by simp
    then have "bits_value (take bits (bits_left s)) =
        push_bit (bits - ?k) (bits_value (take ?k (bits_left s))) OR (bits_value (take (bits - ?k) (drop ?k (bits_left s))) :: u32)"
      unfolding t by (simp only: bits_value_append)
    moreover have "drop bits (bits_left s) = drop (bits - ?k) (drop ?k (bits_left s))" by (simp add: add.commute)
    ultimately show ?thesis using r s' b(3) s1(4) by (auto simp: or.assoc)
  qed
qed

lemma read_loop_ends:
  "reading s \<Longrightarrow> length (bits_left s) < bits \<Longrightarrow>
   \<exists>s'. read_loop res val bits bits s = Ret (CLR_E_OUT_OF_RANGE, res, s') \<and> s_current s' = length (s_buffers s') \<and> s_avail s' = 8"
proof (induction bits arbitrary: s val rule: less_induct)
  case (less bits)
  show ?case
  proof (cases "bits_left s = []")
    case True
    then obtain s' where "next_to_read s = Ret (CLR_E_OUT_OF_RANGE, s')" "s_current s' = length (s_buffers s')" "s_avail s' = 8"
      using next_to_read_ready [OF less.prems(1)] by auto
    then show ?thesis using less.prems(2) by (subst read_loop.simps) simp
  next
    case False
    then obtain s1 where s1: "next_to_read s = Ret (S_OK, s1)" "reading s1" "0 < s_avail s1" "bits_left s1 = bits_left s"
      using next_to_read_ready [OF less.prems(1)] by auto
    let ?k = "min bits (s_avail s1)"
    let ?s2 = "s1\<lparr>s_avail := s_avail s1 - ?k\<rparr>"
    obtain b where b: "current_byte s1 = Ret b" "bits_left ?s2 = drop ?k (bits_left s)" "reading ?s2"
      using read_piece [OF s1(2,3), of ?k] s1(4) by auto
    have "s_avail s1 \<le> length (bits_left s1)" using s1(2) unfolding bits_left_def Let_def reading_def by auto
    then have "s_avail s1 \<le> length (bits_left s)" using s1(4) by simp
    then have k: "bits - ?k < bits" "length (bits_left ?s2) < bits - ?k" using less.prems(2) s1(3) b(2) by auto
    have "read_loop res val bits bits s =
        read_loop res (val OR push_bit (bits - ?k) (drop_bit (s_avail s1 - ?k) (ucast b) AND low_mask ?k)) (bits - ?k) (bits - ?k) ?s2"
      using less.prems(2) s1(1) b(1) by (subst read_loop.simps) (simp add: Let_def)
    then show ?thesis using less.IH [OF k(1) b(3) k(2)] by simp
  qed
qed

section \<open>A stream as a list of bits\<close>

lemma ucast_bits_value: "length xs \<le> 32 \<Longrightarrow> ucast (bits_value xs :: u32) = (bits_value xs :: u64)"
  by (rule bit_word_eqI) (auto simp: bit_ucast_iff bit_bits_value)

lemma write_64_appends:
  assumes "writing s" and "gives_buffers alloc" and "n \<le> 64"
  shows "\<exists>s'. WriteBits_64 alloc v n s = Ret (S_OK, s') \<and> writing s' \<and> bits_written s' = bits_written s @ word_bits n v"
proof (cases "32 < n")
  case False
  then show ?thesis using write_loop_appends [OF assms(1,2), of n "ucast v"]
    by (simp add: WriteBits_64_def WriteBits_32_def word_bits_low)
next
  case True
  have n: "n - 32 \<le> 32" using assms(3) by simp
  obtain s1 where s1: "write_loop alloc (ucast (drop_bit 32 v)) (n - 32) (n - 32) s = Ret (S_OK, s1)" "writing s1"
    "bits_written s1 = bits_written s @ word_bits (n - 32) (ucast (drop_bit 32 v) :: u32)"
    using write_loop_appends [OF assms(1,2) n, of "ucast (drop_bit 32 v)"] by auto
  with write_loop_appends [OF s1(2) assms(2), of 32 "ucast v"] True assms(3) show ?thesis
    by (auto simp: WriteBits_64_def WriteBits_32_def word_bits_halves)
qed

lemma read_64_takes:
  assumes "reading s" and "n \<le> length (bits_left s)" and "n \<le> 64"
  shows "\<exists>s'. ReadBits_64 res n s = Ret (S_OK, bits_value (take n (bits_left s)), s') \<and> reading s' \<and>
    bits_left s' = drop n (bits_left s)"
proof (cases "32 < n")
  case False
  then show ?thesis using read_loop_takes [OF assms(1,2), of "ucast res" 0] ucast_bits_value [of "take n (bits_left s)"]
    by (auto simp: ReadBits_64_def ReadBits_32_def Let_def min_absorb1)
next
  case True
  have n: "n - 32 \<le> length (bits_left s)" using assms(2) by simp
  obtain s1 where s1: "read_loop (ucast (drop_bit 32 res)) 0 (n - 32) (n - 32) s = Ret (S_OK, bits_value (take (n - 32) (bits_left s)), s1)"
    "reading s1" "bits_left s1 = drop (n - 32) (bits_left s)"
    using read_loop_takes [OF assms(1) n, of "ucast (drop_bit 32 res)" 0] by auto
  have l: "32 \<le> length (bits_left s1)" using s1(3) assms(2) True by simp
  obtain s2 where s2: "read_loop (ucast res) 0 32 32 s1 = Ret (S_OK, bits_value (take 32 (bits_left s1)), s2)"
    "reading s2" "bits_left s2 = drop 32 (bits_left s1)"
    using read_loop_takes [OF s1(2) l, of "ucast res" 0] by auto
  have "take n (bits_left s) = take (n - 32) (bits_left s) @ take 32 (bits_left s1)"
    using True s1(3) take_add [of "n - 32" 32 "bits_left s"] by simp
  moreover have "length (take (n - 32) (bits_left s)) \<le> 32" "length (take 32 (bits_left s1)) = 32" using assms(3) l by auto
  ultimately have "push_bit 32 (ucast (bits_value (take (n - 32) (bits_left s)) :: u32)) OR
      ucast (bits_value (take 32 (bits_left s1)) :: u32) = (bits_value (take n (bits_left s)) :: u64)"
    by (simp only: bits_value_append ucast_bits_value order_refl)
  then show ?thesis using True s1 s2 by (simp add: ReadBits_64_def ReadBits_32_def Let_def min_absorb2)
qed

lemma write_array_appends:
  "writing s \<Longrightarrow> gives_buffers alloc \<Longrightarrow>
   \<exists>s'. WriteArray alloc buf s = Ret (S_OK, s') \<and> writing s' \<and> bits_written s' = bits_written s @ bits_of buf"
proof (induction buf arbitrary: s)
  case (Cons b buf)
  obtain s1 where s1: "write_loop alloc (ucast b) 8 8 s = Ret (S_OK, s1)" "writing s1"
    "bits_written s1 = bits_written s @ word_bits 8 (ucast b :: u32)"
    using write_loop_appends [OF Cons.prems, of 8 "ucast b"] by auto
  have "word_bits 8 (ucast b :: u32) = byte_bits b"
    by (rule nth_equalityI) (auto simp: word_bits_nth byte_bits_nth bit_ucast_iff)
  with Cons.IH [OF s1(2) Cons.prems(2)] s1 show ?case by (auto simp: WriteBits_32_def)
qed simp

lemma read_array_takes:
  "reading s \<Longrightarrow> bits_left s = bits_of buf @ rest \<Longrightarrow>
   \<exists>s'. ReadArray (length buf) s = Ret (S_OK, buf, s') \<and> reading s' \<and> bits_left s' = rest"
proof (induction buf arbitrary: s)
  case (Cons b buf)
  have l: "8 \<le> length (bits_left s)" using Cons.prems(2) by simp
  have "ucast (bits_value (byte_bits b) :: u32) = b"
    by (rule bit_word_eqI) (auto simp: bit_ucast_iff bit_bits_value byte_bits_nth)
  moreover have "take 8 (bits_left s) = byte_bits b" "drop 8 (bits_left s) = bits_of buf @ rest"
    using Cons.prems(2) by simp_all
  ultimately obtain s1 d where s1: "read_loop 0 0 8 8 s = Ret (S_OK, d, s1)" "ucast d = b" "reading s1"
    "bits_left s1 = bits_of buf @ rest"
    using read_loop_takes [OF Cons.prems(1) l, of 0 0] by auto
  with Cons.IH [OF s1(3,4)] show ?case by (auto simp: ReadBits_32_def)
qed simp

lemma rewind_reads:
  assumes "writing s"
  shows "reading (Rewind s)" and "\<exists>pad. bits_left (Rewind s) = bits_written s @ pad"
proof -
  let ?b = "s_buffers s ! s_current s"
  let ?n = "b_length ?b"
  have w: "s_current s < length (s_buffers s)" "\<forall>b\<in>set (s_buffers s). wf_buffer b" "?n \<le> length (b_payload ?b)"
    using assms by (auto simp: writing_def wf_buffer_def)
  have c: "content b = own_bytes b" if "b \<in> set (s_buffers s)" for b
    using w(2) that by (simp add: content_def buffer_data_def own_bytes_def wf_buffer_def)
  then have m: "map content (s_buffers s) = map own_bytes (s_buffers s)" by simp
  have ne: "s_buffers s \<noteq> []" using w(1) by auto
  show "reading (Rewind s)"
    using w ne by (auto simp: reading_def Rewind_def buffer_data_def wf_buffer_def)
  have "content (s_buffers s ! 0) @ concat (map content (drop (Suc 0) (s_buffers s))) = concat (map content (s_buffers s))"
    using ne by (cases "s_buffers s") simp_all
  then have "bits_left (Rewind s) = bits_of (concat (map own_bytes (s_buffers s)))"
    unfolding m [symmetric] by (simp add: bits_left_def Let_def Rewind_def flip: bits_of_simps(3))
  moreover have e: "concat (map own_bytes (drop (Suc (s_current s)) (s_buffers s))) = []"
    using assms by (intro own_bytes_empty) (simp add: writing_def)
  have "concat (map own_bytes (s_buffers s)) = concat (map own_bytes (take (s_current s) (s_buffers s))) @ own_bytes ?b"
    by (subst id_take_nth_drop [OF w(1)]) (simp only: map_append concat_append list.map concat.simps e append_Nil2)
  moreover have "?n \<noteq> 0 \<Longrightarrow> own_bytes ?b = take (?n - 1) (b_payload ?b) @ [b_payload ?b ! (?n - 1)]"
    using w(3) take_Suc_conv_app_nth [of "?n - 1" "b_payload ?b"] by (simp add: own_bytes_def)
  moreover have "?n = 0 \<Longrightarrow> own_bytes ?b = []" by (simp add: own_bytes_def)
  moreover have "byte_bits x = take (8 - s_avail s) (byte_bits x) @ drop (8 - s_avail s) (byte_bits x)" for x by simp
  ultimately show "\<exists>pad. bits_left (Rewind s) = bits_written s @ pad"
    by (cases "?n = 0")
      (auto simp: bits_written_def Let_def intro: exI [of _ "drop (8 - s_avail s) (byte_bits (b_payload ?b ! (?n - 1)))"])
qed

section \<open>Compressed integers\<close>

lemma bit_const:
  "bit (0xC0 :: u32) i \<longleftrightarrow> i = 6 \<or> i = 7" "bit (0x80 :: u32) i \<longleftrightarrow> i = 7" "bit (0xFF :: u32) i \<longleftrightarrow> i < 8"
  "bit (0x8000 :: u32) i \<longleftrightarrow> i = 15" "bit (0xC0000000 :: u32) i \<longleftrightarrow> i = 30 \<or> i = 31"
proof -
  have c: "(0xC0 :: u32) = push_bit 6 (mask 2)" "(0x80 :: u32) = push_bit 7 1" "(0xFF :: u32) = mask 8"
    "(0x8000 :: u32) = push_bit 15 1" "(0xC0000000 :: u32) = push_bit 30 (mask 2)"
    by (simp_all add: mask_eq_exp_minus_1)
  show "bit (0xC0 :: u32) i \<longleftrightarrow> i = 6 \<or> i = 7" "bit (0x80 :: u32) i \<longleftrightarrow> i = 7" "bit (0xFF :: u32) i \<longleftrightarrow> i < 8"
    "bit (0x8000 :: u32) i \<longleftrightarrow> i = 15" "bit (0xC0000000 :: u32) i \<longleftrightarrow> i = 30 \<or> i = 31"
    unfolding c bit_push_bit_iff bit_mask_iff bit_1_iff by auto
qed

lemma no_high_bits: "(v :: u32) < 2 ^ n \<Longrightarrow> n \<le> i \<Longrightarrow> \<not> bit v i"
  by (metis bit_and_iff bit_mask_iff less_mask_eq linorder_not_less)

text \<open>The first byte says how many bytes follow, and the bits of the value are what remains.\<close>

definition packed :: "u32 \<Rightarrow> nat \<Rightarrow> u32 \<Rightarrow> bool" where
  "packed w n v \<longleftrightarrow>
     (let c = take_bit 8 (drop_bit (n - 8) w) in
      extra_bits c = n - 8 \<and> c \<noteq> 0xFF \<and> (if n = 8 then c = v else push_bit (n - 8) (c AND NOT 0xC0) OR take_bit (n - 8) w = v))"

lemma packed_8:
  assumes "v < 0x80" shows "packed v 8 v"
proof -
  have b: "\<not> bit v i" if "7 \<le> i" for i using no_high_bits [of v 7 i] assms that by simp
  have "i < 8" if "bit v i" for i using b [of i] that by (cases "7 \<le> i") simp_all
  then have c: "take_bit 8 (drop_bit 0 v) = v" by (intro bit_word_eqI) (auto simp: bit_take_bit_iff)
  have "v AND 0xC0 \<noteq> 0x80" "v AND 0xC0 \<noteq> 0xC0" "v \<noteq> 0xFF"
    using b [of 7] by (auto dest!: arg_cong [where f = "\<lambda>x. bit x 7"] simp: bit_and_iff bit_const)
  then show ?thesis using c by (simp add: packed_def Let_def extra_bits_def)
qed

lemmas bit_iffs = bit_take_bit_iff bit_drop_bit_eq comp_apply bit_or_iff bit_and_iff bit_not_iff bit_push_bit_iff bit_const

lemma packed_16:
  assumes "v < 0x3F00" shows "packed (v OR 0x8000) 16 v"
proof -
  define c where "c = take_bit 8 (drop_bit 8 (v OR 0x8000))"
  have "v < 2 ^ 14" using assms by (rule less_trans) simp
  then have b: "\<not> bit v i" if "14 \<le> i" for i using no_high_bits that by blast
  then have b': "bit v i \<Longrightarrow> i < 14" for i by (meson linorder_not_less)
  have c: "bit c i \<longleftrightarrow> i < 8 \<and> (bit v (8 + i) \<or> i = 7)" for i
    unfolding c_def by (simp only: bit_iffs) auto
  have "c AND 0xC0 = 0x80"
    using b [of 14] by (intro bit_word_eqI) (simp only: bit_iffs c, auto)
  moreover have "c \<noteq> 0xFF"
    using b [of 14] c [of 6] by (auto dest!: arg_cong [where f = "\<lambda>x. bit x 6"] simp: bit_const)
  moreover have "push_bit 8 (c AND NOT 0xC0) OR take_bit 8 (v OR 0x8000) = v"
  proof (rule bit_word_eqI)
    fix i assume "i < LENGTH(32)"
    then show "bit (push_bit 8 (c AND NOT 0xC0) OR take_bit 8 (v OR 0x8000)) i = bit v i"
      using b' [of i] by (simp only: bit_iffs c) auto
  qed
  ultimately show ?thesis by (simp add: packed_def Let_def extra_bits_def c_def del: take_bit_or drop_bit_or)
qed

lemma packed_32:
  assumes "v < 0x3F000000" shows "packed (v OR 0xC0000000) 32 v"
proof -
  define c where "c = take_bit 8 (drop_bit 24 (v OR 0xC0000000))"
  have "v < 2 ^ 30" using assms by (rule less_trans) simp
  then have b: "\<not> bit v i" if "30 \<le> i" for i using no_high_bits that by blast
  then have b': "bit v i \<Longrightarrow> i < 30" for i by (meson linorder_not_less)
  have c: "bit c i \<longleftrightarrow> i < 8 \<and> (bit v (24 + i) \<or> i = 6 \<or> i = 7)" for i
    unfolding c_def by (simp only: bit_iffs) auto
  have "c AND 0xC0 = 0xC0"
    by (intro bit_word_eqI) (simp only: bit_iffs c, auto)
  moreover have "c \<noteq> 0xFF"
  proof
    assume "c = 0xFF"
    then have "bit c i \<longleftrightarrow> i < 8" for i by (simp only: bit_const)
    then have "bit v (24 + i)" if "i < 6" for i using c [of i] that by simp
    moreover have "i < 6" if "bit v (24 + i)" for i using b [of "24 + i"] that by (cases "i < 6") simp_all
    ultimately have "drop_bit 24 v = mask 6"
      by (intro bit_word_eqI) (auto simp: bit_drop_bit_eq bit_mask_iff)
    then have "unat (drop_bit 24 v) = 63" by (simp add: mask_eq_exp_minus_1)
    then have "unat v div 2 ^ 24 = 63" by (simp add: drop_bit_eq_div unat_div)
    moreover have "unat v < 0x3F000000" using assms by (simp add: word_less_nat_alt)
    ultimately show False by simp
  qed
  moreover have "push_bit 24 (c AND NOT 0xC0) OR take_bit 24 (v OR 0xC0000000) = v"
  proof (rule bit_word_eqI)
    fix i assume "i < LENGTH(32)"
    then show "bit (push_bit 24 (c AND NOT 0xC0) OR take_bit 24 (v OR 0xC0000000)) i = bit v i"
      using b' [of i] by (simp only: bit_iffs c) auto
  qed
  ultimately show ?thesis by (simp add: packed_def Let_def extra_bits_def c_def del: take_bit_or drop_bit_or)
qed

lemma compressed_packed:
  "compressed_bits v = Some (w, n) \<Longrightarrow> v \<noteq> 0xFFFFFFFF \<Longrightarrow> packed w n v \<and> n \<in> {8, 16, 32}"
  by (auto simp: compressed_bits_def packed_8 packed_16 packed_32 split: if_splits)

lemma read_compressed_takes:
  assumes "reading s" and "compressed_bits v = Some (w, n)" and "bits_left s = word_bits n w @ rest"
  shows "\<exists>s'. ReadCompressedUnsigned extra val s = Ret (S_OK, v, s') \<and> reading s' \<and> bits_left s' = rest"
proof -
  have n: "8 \<le> n" using assms(2) by (auto simp: compressed_bits_def split: if_splits)
  then have l: "8 \<le> length (bits_left s)" using assms(3) by simp
  have w: "word_bits n w = word_bits 8 (drop_bit (n - 8) w) @ word_bits (n - 8) w"
    using word_bits_append [of 8 "n - 8" w] n by simp
  obtain s1 where s1: "ReadBits_32 val 8 s = Ret (S_OK, take_bit 8 (drop_bit (n - 8) w), s1)" "reading s1"
    "bits_left s1 = word_bits (n - 8) w @ rest"
    using read_loop_takes [OF assms(1) l, of val 0] unfolding ReadBits_32_def assms(3) w
    by (auto simp: bits_value_word_bits)
  show ?thesis
  proof (cases "v = 0xFFFFFFFF")
    case True
    then have "w = 0xFFFFFFFF" "n = 8" using assms(2) by (simp_all add: compressed_bits_def)
    moreover have "take_bit 8 (0xFFFFFFFF :: u32) = 0xFF"
      by (intro bit_word_eqI) (auto simp: bit_take_bit_iff bit_const bit_minus_1_iff)
    ultimately show ?thesis using s1 True by (simp add: ReadCompressedUnsigned_def word_bits_def)
  next
    case False
    let ?c = "take_bit 8 (drop_bit (n - 8) w)"
    have p: "extra_bits ?c = n - 8" "?c \<noteq> 0xFF" "n = 8 \<longrightarrow> ?c = v"
      "n \<noteq> 8 \<longrightarrow> push_bit (n - 8) (?c AND NOT 0xC0) OR take_bit (n - 8) w = v"
      using compressed_packed [OF assms(2) False] by (simp_all add: packed_def Let_def split: if_splits)
    show ?thesis
    proof (cases "n = 8")
      case True
      then show ?thesis using s1 p by (simp add: ReadCompressedUnsigned_def word_bits_def)
    next
      case False
      have "n - 8 \<le> length (bits_left s1)" using s1(3) by simp
      from read_loop_takes [OF s1(2) this, of extra 0] obtain s2 where
        "ReadBits_32 extra (n - 8) s1 = Ret (S_OK, take_bit (n - 8) w, s2)" "reading s2" "bits_left s2 = rest"
        unfolding ReadBits_32_def s1(3) by (auto simp: bits_value_word_bits)
      then show ?thesis using s1(1) p False n by (simp add: ReadCompressedUnsigned_def)
    qed
  qed
qed

section \<open>What is written is read back\<close>

text \<open>What the binary formatter stores: bits, compressed integers and arrays of bytes.\<close>

datatype stream_item = Bits u64 nat | Compressed u32 | Bytes "u8 list"

fun item_ok :: "stream_item \<Rightarrow> bool" where
  "item_ok (Bits v n) = (n \<le> 64 \<and> take_bit n v = v)"
| "item_ok (Compressed v) = (v < 0x3F000000 \<or> v = 0xFFFFFFFF)"
| "item_ok (Bytes bs) = True"

fun item_bits :: "stream_item \<Rightarrow> bool list" where
  "item_bits (Bits v n) = word_bits n v"
| "item_bits (Compressed v) = (case compressed_bits v of None \<Rightarrow> [] | Some (w, n) \<Rightarrow> word_bits n w)"
| "item_bits (Bytes bs) = bits_of bs"

fun write_item :: "event_cache \<Rightarrow> stream_item \<Rightarrow> memory_stream \<Rightarrow> (hresult \<times> memory_stream) c_result" where
  "write_item alloc (Bits v n) s = WriteBits_64 alloc v n s"
| "write_item alloc (Compressed v) s = WriteCompressedUnsigned alloc v s"
| "write_item alloc (Bytes bs) s = WriteArray alloc bs s"

text \<open>Reading an item of the same shape, with \<open>junk\<close> in the variables that are not set before.\<close>

fun read_item :: "u32 \<Rightarrow> stream_item \<Rightarrow> memory_stream \<Rightarrow> (hresult \<times> stream_item \<times> memory_stream) c_result" where
  "read_item junk (Bits _ n) s =
     c_bind (ReadBits_64 (ucast junk) n s) (\<lambda>(hr, v, s). Ret (hr, Bits v n, s))"
| "read_item junk (Compressed _) s =
     c_bind (ReadCompressedUnsigned junk junk s) (\<lambda>(hr, v, s). Ret (hr, Compressed v, s))"
| "read_item junk (Bytes bs) s =
     c_bind (ReadArray (length bs) s) (\<lambda>(hr, bs, s). Ret (hr, Bytes bs, s))"

fun write_items :: "event_cache \<Rightarrow> stream_item list \<Rightarrow> memory_stream \<Rightarrow> (hresult \<times> memory_stream) c_result" where
  "write_items alloc [] s = Ret (S_OK, s)"
| "write_items alloc (x # xs) s =
     c_bind (write_item alloc x s) (\<lambda>(hr, s). if hr \<noteq> S_OK then Ret (hr, s) else write_items alloc xs s)"

fun read_items ::
    "u32 \<Rightarrow> stream_item list \<Rightarrow> memory_stream \<Rightarrow> (hresult \<times> stream_item list \<times> memory_stream) c_result" where
  "read_items junk [] s = Ret (S_OK, [], s)"
| "read_items junk (x # xs) s =
     c_bind (read_item junk x s) (\<lambda>(hr, y, s).
     if hr \<noteq> S_OK then Ret (hr, [], s)
     else c_bind (read_items junk xs s) (\<lambda>(hr, ys, s). Ret (hr, y # ys, s)))"

lemma compressed_fits: "item_ok (Compressed v) \<Longrightarrow> \<exists>w n. compressed_bits v = Some (w, n) \<and> n \<le> 32"
  by (auto simp: compressed_bits_def)

lemma write_item_appends:
  assumes "writing s" and "gives_buffers alloc" and "item_ok x"
  shows "\<exists>s'. write_item alloc x s = Ret (S_OK, s') \<and> writing s' \<and> bits_written s' = bits_written s @ item_bits x"
proof (cases x)
  case (Bits v n)
  then show ?thesis using write_64_appends [OF assms(1,2)] assms(3) by simp
next
  case (Compressed v)
  obtain w n where c: "compressed_bits v = Some (w, n)" "n \<le> 32"
    using compressed_fits assms(3) Compressed by blast
  then show ?thesis using Compressed write_loop_appends [OF assms(1,2) c(2), of w]
    by (simp add: WriteCompressedUnsigned_def WriteBits_32_def)
next
  case (Bytes bs)
  then show ?thesis using write_array_appends [OF assms(1,2)] by simp
qed

lemma read_item_takes:
  assumes "reading s" and "bits_left s = item_bits x @ rest" and "item_ok x"
  shows "\<exists>s'. read_item junk x s = Ret (S_OK, x, s') \<and> reading s' \<and> bits_left s' = rest"
proof (cases x)
  case (Bits v n)
  then have n: "n \<le> length (bits_left s)" "n \<le> 64" using assms(2,3) by simp_all
  from read_64_takes [OF assms(1) n, of "ucast junk"] show ?thesis
    using Bits assms(2,3) by (auto simp: bits_value_word_bits)
next
  case (Compressed v)
  obtain w n where c: "compressed_bits v = Some (w, n)"
    using compressed_fits assms(3) Compressed by blast
  have "bits_left s = word_bits n w @ rest" using assms(2) Compressed c by simp
  from read_compressed_takes [OF assms(1) c this, of junk junk] show ?thesis using Compressed by auto
next
  case (Bytes bs)
  then show ?thesis using read_array_takes [OF assms(1), of bs rest] assms(2) by auto
qed

lemma write_items_appends:
  "writing s \<Longrightarrow> gives_buffers alloc \<Longrightarrow> \<forall>x\<in>set xs. item_ok x \<Longrightarrow>
   \<exists>s'. write_items alloc xs s = Ret (S_OK, s') \<and> writing s' \<and> bits_written s' = bits_written s @ concat (map item_bits xs)"
proof (induction xs arbitrary: s)
  case (Cons x xs)
  obtain s1 where s1: "write_item alloc x s = Ret (S_OK, s1)" "writing s1" "bits_written s1 = bits_written s @ item_bits x"
    using write_item_appends [OF Cons.prems(1,2), of x] Cons.prems(3) by auto
  with Cons.IH [OF s1(2) Cons.prems(2)] Cons.prems(3) show ?case by auto
qed simp

lemma read_items_takes:
  "reading s \<Longrightarrow> bits_left s = concat (map item_bits xs) @ rest \<Longrightarrow> \<forall>x\<in>set xs. item_ok x \<Longrightarrow>
   \<exists>s'. read_items junk xs s = Ret (S_OK, xs, s') \<and> reading s' \<and> bits_left s' = rest"
proof (induction xs arbitrary: s)
  case (Cons x xs)
  obtain s1 where s1: "read_item junk x s = Ret (S_OK, x, s1)" "reading s1" "bits_left s1 = concat (map item_bits xs) @ rest"
    using read_item_takes [OF Cons.prems(1), of x "concat (map item_bits xs) @ rest" junk] Cons.prems(2,3) by auto
  with Cons.IH [OF s1(2,3)] Cons.prems(3) show ?case by auto
qed simp

lemma new_stream_writes:
  assumes "gives_buffers alloc"
  shows "\<exists>s. MemoryStream_Initialize alloc None 0 s0 = (S_OK, s) \<and> writing s \<and> bits_written s = []"
proof -
  obtain p where "alloc (s_extracted s0) = Some p" "length p = c_PayloadSize"
    using assms by (auto simp: gives_buffers_def)
  then show ?thesis
    by (auto simp: MemoryStream_Initialize_def NewBuffer_def Let_def writing_def wf_buffer_def bits_written_def)
qed

lemma opened_stream_reads:
  assumes "gives_buffers alloc"
  shows "\<exists>s. MemoryStream_Initialize alloc (Some bytes) (length bytes) s0 = (S_OK, s) \<and> reading s \<and> bits_left s = bits_of bytes"
proof -
  obtain p where "alloc (s_extracted s0) = Some p" using assms by (auto simp: gives_buffers_def)
  then show ?thesis
    by (auto simp: MemoryStream_Initialize_def NewBuffer_def Let_def reading_def bits_left_def content_def buffer_data_def)
qed

lemma to_array_bytes:
  assumes "writing s" and "\<forall>n. new_array n = S_OK"
  shows "\<exists>bytes pad. MemoryStream_ToArray new_array s = Ret (S_OK, Some bytes) \<and> bits_of bytes = bits_written s @ pad"
proof -
  have w: "\<forall>b\<in>set (s_buffers s). wf_buffer b" using assms(1) by (simp add: writing_def)
  then have "c_map (\<lambda>b. c_map (c_index (b_payload b)) [0..<b_length b]) (s_buffers s) = Ret (map own_bytes (s_buffers s))"
    by (intro c_map_Ret) (simp add: c_map_index own_bytes_def wf_buffer_def)
  then have t: "MemoryStream_ToArray new_array s = Ret (S_OK, Some (concat (map own_bytes (s_buffers s))))"
    using assms(2) by (simp add: MemoryStream_ToArray_def Let_def)
  obtain pad where p: "bits_left (Rewind s) = bits_written s @ pad" using rewind_reads(2) [OF assms(1)] by blast
  have "map content (s_buffers s) = map own_bytes (s_buffers s)"
    using w by (simp add: content_def buffer_data_def own_bytes_def wf_buffer_def)
  moreover have "s_buffers s \<noteq> []" using assms(1) by (auto simp: writing_def)
  then have "bits_left (Rewind s) = bits_of (concat (map content (s_buffers s)))"
    by (cases "s_buffers s") (simp_all add: bits_left_def Let_def Rewind_def)
  ultimately have "bits_of (concat (map own_bytes (s_buffers s))) = bits_written s @ pad" using p by metis
  then show ?thesis using t by blast
qed

text \<open>
  C37: what is written is read back. Whatever sequence of bit fields of up to 64 bits, compressed integers
  and byte arrays is written to a new stream, and whatever its buffers contained before: every write
  succeeds, and a stream that is opened on the array made from it returns the same items, as does the
  stream itself after \<open>Rewind\<close>.
\<close>

theorem stream_round_trip:
  assumes "gives_buffers alloc" and "\<forall>n. new_array n = S_OK" and "\<forall>x\<in>set items. item_ok x"
  shows "\<exists>s s1 bytes r s2 s3.
    MemoryStream_Initialize alloc None 0 any = (S_OK, s) \<and> write_items alloc items s = Ret (S_OK, s1) \<and>
    MemoryStream_ToArray new_array s1 = Ret (S_OK, Some bytes) \<and>
    MemoryStream_Initialize alloc (Some bytes) (length bytes) any' = (S_OK, r) \<and>
    read_items junk items r = Ret (S_OK, items, s2) \<and> read_items junk items (Rewind s1) = Ret (S_OK, items, s3)"
proof -
  obtain s where s: "MemoryStream_Initialize alloc None 0 any = (S_OK, s)" "writing s" "bits_written s = []"
    using new_stream_writes [OF assms(1)] by blast
  obtain s1 where s1: "write_items alloc items s = Ret (S_OK, s1)" "writing s1" "bits_written s1 = concat (map item_bits items)"
    using write_items_appends [OF s(2) assms(1,3)] s(3) by auto
  obtain bytes pad where b: "MemoryStream_ToArray new_array s1 = Ret (S_OK, Some bytes)"
    "bits_of bytes = concat (map item_bits items) @ pad"
    using to_array_bytes [OF s1(2) assms(2)] s1(3) by auto
  obtain r where r: "MemoryStream_Initialize alloc (Some bytes) (length bytes) any' = (S_OK, r)" "reading r"
    "bits_left r = concat (map item_bits items) @ pad"
    using opened_stream_reads [OF assms(1)] b(2) by metis
  obtain pad' where p: "bits_left (Rewind s1) = concat (map item_bits items) @ pad'"
    using rewind_reads(2) [OF s1(2)] s1(3) by auto
  from read_items_takes [OF r(2,3) assms(3)] read_items_takes [OF rewind_reads(1) [OF s1(2)] p assms(3)]
  show ?thesis using s(1) s1(1) b(1) r(1) by blast
qed

definition nines :: event_cache where
  "nines n = Some (replicate c_PayloadSize 9)"

lemma nines [simp]: "gives_buffers nines"
  by (simp add: gives_buffers_def nines_def)

definition empty_stream :: memory_stream where
  "empty_stream = \<lparr>s_buffers = [], s_current = 0, s_pos = 0, s_avail = 0, s_extracted = 0\<rparr>"

theorem stream_round_trip_witness:
  "\<exists>s s1 bytes r s2.
    MemoryStream_Initialize nines None 0 empty_stream = (S_OK, s) \<and>
    write_items nines [Bits 5 3, Compressed 300, Bytes [1, 2], Compressed 0xFFFFFFFF] s = Ret (S_OK, s1) \<and>
    MemoryStream_ToArray (\<lambda>_. S_OK) s1 = Ret (S_OK, Some bytes) \<and>
    MemoryStream_Initialize nines (Some bytes) (length bytes) empty_stream = (S_OK, r) \<and>
    read_items 77 [Bits 5 3, Compressed 300, Bytes [1, 2], Compressed 0xFFFFFFFF] r =
      Ret (S_OK, [Bits 5 3, Compressed 300, Bytes [1, 2], Compressed 0xFFFFFFFF], s2)"
proof -
  have "\<forall>x\<in>set [Bits 5 3, Compressed 300, Bytes [1, 2], Compressed 0xFFFFFFFF]. item_ok x"
    by (simp add: take_bit_eq_mod)
  from stream_round_trip [OF nines _ this, of "\<lambda>_. S_OK" empty_stream empty_stream 77] show ?thesis by blast
qed

text \<open>
  C38: reading past the end. A read of more bits than are left returns \<open>CLR_E_OUT_OF_RANGE\<close> and leaves
  the value alone; but the stream has left its buffers and seems to have a byte at hand, so that any read
  that follows reads the fields of a buffer that does not exist.
\<close>

theorem read_past_end_then_faults:
  assumes "reading s" and "length (bits_left s) < n" and "0 < m"
  shows "\<exists>s'. ReadBits_32 res n s = Ret (CLR_E_OUT_OF_RANGE, res, s') \<and> ReadBits_32 res' m s' = Fault BadIndex"
proof -
  obtain s' where s': "read_loop res 0 n n s = Ret (CLR_E_OUT_OF_RANGE, res, s')" "s_current s' = length (s_buffers s')" "s_avail s' = 8"
    using read_loop_ends [OF assms(1,2)] by blast
  then have "next_to_read s' = Ret (S_OK, s')" "current_byte s' = Fault BadIndex"
    by (simp_all add: next_to_read_def current_byte_def c_index_def)
  then have "read_loop res' 0 m m s' = Fault BadIndex" using assms(3) by (subst read_loop.simps) simp
  then show ?thesis using s'(1) by (simp add: ReadBits_32_def)
qed

theorem read_past_end_then_faults_witness:
  "\<exists>r s'. MemoryStream_Initialize nines (Some [0xAB]) 1 empty_stream = (S_OK, r) \<and>
     ReadBits_32 3 9 r = Ret (CLR_E_OUT_OF_RANGE, 3, s') \<and> ReadBits_32 0 8 s' = Fault BadIndex"
proof -
  obtain r where r: "MemoryStream_Initialize nines (Some [0xAB]) 1 empty_stream = (S_OK, r)" "reading r" "bits_left r = bits_of [0xAB]"
    using opened_stream_reads [OF nines, of "[0xAB]" empty_stream] by auto
  then have "length (bits_left r) < 9" by simp
  from read_past_end_then_faults [OF r(2) this, of 8 3 0] r(1) show ?thesis by auto
qed

end
