(* ===== verification/NF_IL.thy ===== *)
theory NF_IL
  imports NF_HeapCluster
begin

text \<open>
  The interpreter of the runtime (Interpreter.cpp) on the instructions that need neither the heap nor the
  metadata of an assembly: loads and stores of arguments and locals, constants, arithmetic, conversions,
  comparisons and branches, with the operations of CLR_RT_HeapBlock.cpp that they call.

  A value is a heap block: a type, flags and 64 bits of data in two halves, so that a 32-bit
  value leaves the upper half as it was. A signed operation that overflows wraps, as on every target; what has
  no result at all (a shift by the width or more, the quotient of the least number by minus one) is a
  fault. Floating point is a parameter, as is what the heap holds. An instruction that goes on in
  the heap or the metadata ends in \<open>Beyond\<close>.
\<close>

section \<open>Values\<close>

text \<open>The types of values; \<open>DT_RUNTIME\<close> stands for those that tag structures of the runtime.\<close>

datatype clr_type =
    DT_VOID | DT_BOOLEAN | DT_I1 | DT_U1 | DT_CHAR | DT_I2 | DT_U2 | DT_I4 | DT_U4 | DT_R4
  | DT_I8 | DT_U8 | DT_R8 | DT_DATETIME | DT_TIMESPAN | DT_STRING | DT_OBJECT | DT_CLASS
  | DT_VALUETYPE | DT_SZARRAY | DT_BYREF | DT_WEAKCLASS | DT_REFLECTION | DT_ARRAY_BYREF
  | DT_DELEGATE_HEAD | DT_DELEGATELIST_HEAD | DT_RUNTIME

record hb =
  hb_type :: clr_type
  hb_flags :: u8
  hb_LL :: u32
  hb_HH :: u32

definition HB_Boxed :: u8 where "HB_Boxed = 0x10"

definition hb_u1 :: "hb \<Rightarrow> u8" where "hb_u1 v = ucast (hb_LL v)"
definition hb_u2 :: "hb \<Rightarrow> u16" where "hb_u2 v = ucast (hb_LL v)"

definition hb_u8 :: "hb \<Rightarrow> u64" where
  "hb_u8 v = push_bit 32 (ucast (hb_HH v)) OR ucast (hb_LL v)"

definition set_u8 :: "u64 \<Rightarrow> hb \<Rightarrow> hb" where
  "set_u8 x v = v\<lparr>hb_LL := ucast x, hb_HH := ucast (drop_bit 32 x)\<rparr>"

abbreviation set_u4 :: "u32 \<Rightarrow> hb \<Rightarrow> hb" where
  "set_u4 x v \<equiv> v\<lparr>hb_LL := x\<rparr>"

definition SetInteger32 :: "u32 \<Rightarrow> hb \<Rightarrow> hb" where
  "SetInteger32 x v = v\<lparr>hb_type := DT_I4, hb_flags := 0, hb_LL := x\<rparr>"

definition SetInteger64 :: "u64 \<Rightarrow> hb \<Rightarrow> hb" where
  "SetInteger64 x v = set_u8 x (v\<lparr>hb_type := DT_I8, hb_flags := 0\<rparr>)"

definition SetFloatFromBits :: "u32 \<Rightarrow> hb \<Rightarrow> hb" where
  "SetFloatFromBits x v = v\<lparr>hb_type := DT_R4, hb_flags := 0, hb_LL := x\<rparr>"

definition SetDoubleFromBits :: "u64 \<Rightarrow> hb \<Rightarrow> hb" where
  "SetDoubleFromBits x v = set_u8 x (v\<lparr>hb_type := DT_R8, hb_flags := 0\<rparr>)"

definition SetObjectReference :: "u32 \<Rightarrow> hb \<Rightarrow> hb" where
  "SetObjectReference p v = v\<lparr>hb_type := DT_OBJECT, hb_flags := 0, hb_LL := p\<rparr>"

text \<open>The columns of \<open>c_CLR_RT_DataTypeLookup\<close> that the operations below read.\<close>

definition dt_signed :: "clr_type \<Rightarrow> bool" where
  "dt_signed t \<longleftrightarrow> t \<in> {DT_I1, DT_I2, DT_I4, DT_R4, DT_I8, DT_R8, DT_DATETIME, DT_TIMESPAN}"

definition dt_numeric :: "clr_type \<Rightarrow> bool" where
  "dt_numeric t \<longleftrightarrow> t \<in> {DT_BOOLEAN, DT_I1, DT_U1, DT_CHAR, DT_I2, DT_U2, DT_I4, DT_U4, DT_R4, DT_I8, DT_U8, DT_R8}"

fun dt_sizeInBits :: "clr_type \<Rightarrow> nat" where
  "dt_sizeInBits DT_BOOLEAN = 1"
| "dt_sizeInBits DT_I1 = 8" | "dt_sizeInBits DT_U1 = 8"
| "dt_sizeInBits DT_CHAR = 16" | "dt_sizeInBits DT_I2 = 16" | "dt_sizeInBits DT_U2 = 16"
| "dt_sizeInBits DT_I4 = 32" | "dt_sizeInBits DT_U4 = 32" | "dt_sizeInBits DT_R4 = 32"
| "dt_sizeInBits DT_I8 = 64" | "dt_sizeInBits DT_U8 = 64" | "dt_sizeInBits DT_R8 = 64"
| "dt_sizeInBits DT_DATETIME = 64" | "dt_sizeInBits DT_TIMESPAN = 64"
| "dt_sizeInBits _ = 0"

text \<open>A type without a fixed size that is not a number never gets that far.\<close>

fun dt_sizeInBytes :: "clr_type \<Rightarrow> nat" where
  "dt_sizeInBytes DT_BOOLEAN = 1" | "dt_sizeInBytes DT_I1 = 1" | "dt_sizeInBytes DT_U1 = 1"
| "dt_sizeInBytes DT_CHAR = 2" | "dt_sizeInBytes DT_I2 = 2" | "dt_sizeInBytes DT_U2 = 2"
| "dt_sizeInBytes DT_I4 = 4" | "dt_sizeInBytes DT_U4 = 4" | "dt_sizeInBytes DT_R4 = 4"
| "dt_sizeInBytes DT_I8 = 8" | "dt_sizeInBytes DT_U8 = 8" | "dt_sizeInBytes DT_R8 = 8"
| "dt_sizeInBytes DT_DATETIME = 12" | "dt_sizeInBytes DT_TIMESPAN = 12"
| "dt_sizeInBytes _ = 0"

text \<open>
  What is behind the interpreter: floating point arithmetic on the bits of its operands, the header of
  the heap block at an address, and the size of the elements of the array at an address.
\<close>

datatype float_op = F_Add | F_Sub | F_Mul | F_Div | F_Rem

record il_env =
  e_f4 :: "float_op \<Rightarrow> u32 \<Rightarrow> u32 \<Rightarrow> u32"
  e_f8 :: "float_op \<Rightarrow> u64 \<Rightarrow> u64 \<Rightarrow> u64"
  e_neg4 :: "u32 \<Rightarrow> u32"
  e_neg8 :: "u64 \<Rightarrow> u64"
  e_less4 :: "u32 \<Rightarrow> u32 \<Rightarrow> bool"
  e_less8 :: "u64 \<Rightarrow> u64 \<Rightarrow> bool"
  e_zero4 :: "u32 \<Rightarrow> bool"
  e_zero8 :: "u64 \<Rightarrow> bool"
  e_of_s64 :: "u64 \<Rightarrow> u64"
  e_of_u64 :: "u64 \<Rightarrow> u64"
  e_of_r4 :: "u32 \<Rightarrow> u64"
  e_to_s64 :: "u64 \<Rightarrow> u64"
  e_to_r4 :: "u64 \<Rightarrow> u32"
  e_block :: "u32 \<Rightarrow> clr_type \<times> u8"
  e_sizeOfElement :: "u32 \<Rightarrow> u8"

definition IsAValueType :: "il_env \<Rightarrow> hb \<Rightarrow> bool" where
  "IsAValueType env v \<longleftrightarrow> hb_type v = DT_OBJECT \<and> hb_LL v \<noteq> 0 \<and>
     fst (e_block env (hb_LL v)) = DT_VALUETYPE \<and> snd (e_block env (hb_LL v)) AND HB_Boxed = 0"

definition IsZero :: "il_env \<Rightarrow> hb \<Rightarrow> bool" where
  "IsZero env v =
     (case hb_type v of
        DT_OBJECT \<Rightarrow> hb_LL v = 0
      | DT_I8 \<Rightarrow> hb_u8 v = 0
      | DT_U8 \<Rightarrow> hb_u8 v = 0
      | DT_R4 \<Rightarrow> e_zero4 env (hb_LL v)
      | DT_R8 \<Rightarrow> e_zero8 env (hb_u8 v)
      | _ \<Rightarrow> hb_LL v = 0)"

definition Promote :: "hb \<Rightarrow> hb" where
  "Promote v =
     (case hb_type v of
        DT_I1 \<Rightarrow> v\<lparr>hb_type := DT_I4, hb_LL := scast (hb_u1 v)\<rparr>
      | DT_I2 \<Rightarrow> v\<lparr>hb_type := DT_I4, hb_LL := scast (hb_u2 v)\<rparr>
      | DT_BOOLEAN \<Rightarrow> v\<lparr>hb_type := DT_I4, hb_LL := ucast (hb_u1 v)\<rparr>
      | DT_U1 \<Rightarrow> v\<lparr>hb_type := DT_I4, hb_LL := ucast (hb_u1 v)\<rparr>
      | DT_CHAR \<Rightarrow> v\<lparr>hb_type := DT_I4, hb_LL := ucast (hb_u2 v)\<rparr>
      | DT_U2 \<Rightarrow> v\<lparr>hb_type := DT_I4, hb_LL := ucast (hb_u2 v)\<rparr>
      | _ \<Rightarrow> v)"

definition LAST_PRIMITIVE_TO_PRESERVE :: "clr_type set" where
  "LAST_PRIMITIVE_TO_PRESERVE = {DT_VOID, DT_BOOLEAN, DT_I1, DT_U1, DT_CHAR, DT_I2, DT_U2, DT_I4, DT_U4,
     DT_R4, DT_I8, DT_U8, DT_R8}"

definition AssignAndPreserveType :: "hb \<Rightarrow> hb \<Rightarrow> hb" where
  "AssignAndPreserveType v dst =
     (let dst = dst\<lparr>hb_LL := hb_LL v, hb_HH := hb_HH v\<rparr> in
      if hb_type dst \<in> LAST_PRIMITIVE_TO_PRESERVE then dst
      else dst\<lparr>hb_type := hb_type v, hb_flags := hb_flags v\<rparr>)"

section \<open>Conversion\<close>

datatype num_result = Value hb | Error hresult

definition CLR_E_UNKNOWN_INSTRUCTION :: hresult where "CLR_E_UNKNOWN_INSTRUCTION = MAKE_HRESULT 1 0x0100 0"
definition CLR_E_UNSUPPORTED_INSTRUCTION :: hresult where "CLR_E_UNSUPPORTED_INSTRUCTION = MAKE_HRESULT 1 0x0200 0"
definition CLR_E_NULL_REFERENCE :: hresult where "CLR_E_NULL_REFERENCE = MAKE_HRESULT 1 0x2100 0"
definition CLR_E_WRONG_TYPE :: hresult where "CLR_E_WRONG_TYPE = MAKE_HRESULT 1 0x2200 0"
definition CLR_E_DIVIDE_BY_ZERO :: hresult where "CLR_E_DIVIDE_BY_ZERO = MAKE_HRESULT 1 0x3100 0"

definition SMALL_INTEGERS :: "clr_type set" where
  "SMALL_INTEGERS = {DT_BOOLEAN, DT_I1, DT_U1, DT_CHAR, DT_I2, DT_U2, DT_I4, DT_U4}"

text \<open>A value of 32 bits or less is first extended to 64, with its sign when both types have one.\<close>

definition extend_precision :: "clr_type \<Rightarrow> hb \<Rightarrow> hb" where
  "extend_precision et v =
     (let res = ucast (hb_LL v) :: u64; shift = 64 - dt_sizeInBits (hb_type v) in
      set_u8 (if dt_signed (hb_type v) \<and> dt_signed et then signed_drop_bit shift (push_bit shift res) else res) v)"

definition convert_scale :: "il_env \<Rightarrow> clr_type \<Rightarrow> hb \<Rightarrow> hb" where
  "convert_scale env et v =
     (let val = (case hb_type v of
          DT_R4 \<Rightarrow> e_of_r4 env (hb_LL v)
        | DT_R8 \<Rightarrow> hb_u8 v
        | t \<Rightarrow> if dt_signed t then e_of_s64 env (hb_u8 v) else e_of_u64 env (hb_u8 v)) in
      case et of
        DT_R4 \<Rightarrow> set_u4 (e_to_r4 env val) v
      | DT_R8 \<Rightarrow> set_u8 val v
      | _ \<Rightarrow> set_u8 (e_to_s64 env val) v)"

definition Convert_Internal :: "il_env \<Rightarrow> clr_type \<Rightarrow> hb \<Rightarrow> num_result" where
  "Convert_Internal env et v =
     (let t = hb_type v;
          v1 = (if t \<in> SMALL_INTEGERS then extend_precision et v else v);
          scaleIn = (if t = DT_R4 then 1 else if t = DT_R8 then 2 else 0 :: nat);
          scaleOut = (if et = DT_R4 then 1 else if et = DT_R8 then 2 else 0)
      in if t \<notin> SMALL_INTEGERS \<union> {DT_I8, DT_U8, DT_R4, DT_R8} then Error CLR_E_WRONG_TYPE
         else Value (Promote ((if scaleOut \<noteq> scaleIn then convert_scale env et v1 else v1)\<lparr>hb_type := et\<rparr>)))"

text \<open>Neither the overflow check nor the unsigned reading that an instruction asks for is done.\<close>

definition Convert :: "il_env \<Rightarrow> clr_type \<Rightarrow> bool \<Rightarrow> bool \<Rightarrow> hb \<Rightarrow> num_result" where
  "Convert env et fOverflow fUnsigned v = Convert_Internal env et v"

section \<open>Comparison\<close>

definition three_way :: "int \<Rightarrow> int \<Rightarrow> int" where
  "three_way left right = (if left > right then 1 else if left < right then - 1 else 0)"

definition as_integer :: "bool \<Rightarrow> 'a::len word \<Rightarrow> int" where
  "as_integer fSigned x = (if fSigned then sint x else uint x)"

definition CompareValues_Numeric :: "hb \<Rightarrow> hb \<Rightarrow> bool \<Rightarrow> nat \<Rightarrow> int" where
  "CompareValues_Numeric left right fSigned bytes =
     (if bytes = 4 then three_way (as_integer fSigned (hb_LL left)) (as_integer fSigned (hb_LL right))
      else if bytes = 8 then three_way (as_integer fSigned (hb_u8 left)) (as_integer fSigned (hb_u8 right))
      else if bytes = 2 then three_way (as_integer fSigned (hb_u2 left)) (as_integer fSigned (hb_u2 right))
      else if bytes = 1 then three_way (as_integer fSigned (hb_u1 left)) (as_integer fSigned (hb_u1 right))
      else - 1)"

text \<open>\<open>None\<close> when the comparison goes on in the heap.\<close>

definition Compare_Values :: "il_env \<Rightarrow> bool \<Rightarrow> hb \<Rightarrow> hb \<Rightarrow> int option" where
  "Compare_Values env fSigned left right =
     (let l = hb_type left; r = hb_type right in
      if l = r then
        if l \<in> {DT_OBJECT, DT_BYREF} then
          if hb_LL left = 0 then Some (if hb_LL right = 0 then 0 else - 1)
          else if hb_LL right = 0 then Some 1
          else None
        else if l \<in> {DT_STRING, DT_DELEGATELIST_HEAD, DT_DELEGATE_HEAD, DT_CLASS, DT_VALUETYPE, DT_SZARRAY,
            DT_WEAKCLASS, DT_REFLECTION} then None
        else if l = DT_R4 then
          Some (if e_less4 env (hb_LL right) (hb_LL left) then 1
                else if e_less4 env (hb_LL left) (hb_LL right) then - 1 else 0)
        else if l = DT_R8 then
          Some (if e_less8 env (hb_u8 right) (hb_u8 left) then 1
                else if e_less8 env (hb_u8 left) (hb_u8 right) then - 1 else 0)
        else if dt_numeric l \<or> l = DT_DATETIME \<or> l = DT_TIMESPAN then
          Some (CompareValues_Numeric left right fSigned (dt_sizeInBytes l))
        else Some (- 1)
      else if l = DT_STRING \<and> r = DT_OBJECT then if hb_LL right = 0 then Some 1 else None
      else if l = DT_OBJECT \<and> r = DT_STRING then if hb_LL left = 0 then Some (- 1) else None
      else if dt_numeric l \<and> dt_numeric r \<and> dt_sizeInBytes l = dt_sizeInBytes r then
        Some (CompareValues_Numeric left right fSigned (dt_sizeInBytes l))
      else Some (- 1))"

section \<open>Arithmetic\<close>

definition c_sdiv :: "'a::len word \<Rightarrow> 'a word \<Rightarrow> 'a word c_result" where
  "c_sdiv x y =
     (if y = 0 \<or> y = - 1 \<and> sint x = - (2 ^ (LENGTH('a) - 1)) then Fault BadQuotient
      else Ret (word_of_int (sint x sdiv sint y)))"

definition c_smod :: "'a::len word \<Rightarrow> 'a word \<Rightarrow> 'a word c_result" where
  "c_smod x y =
     (if y = 0 \<or> y = - 1 \<and> sint x = - (2 ^ (LENGTH('a) - 1)) then Fault BadQuotient
      else Ret (word_of_int (sint x smod sint y)))"

definition c_udiv :: "'a::len word \<Rightarrow> 'a word \<Rightarrow> 'a word c_result" where
  "c_udiv x y = (if y = 0 then Fault BadQuotient else Ret (x div y))"

definition c_umod :: "'a::len word \<Rightarrow> 'a word \<Rightarrow> 'a word c_result" where
  "c_umod x y = (if y = 0 then Fault BadQuotient else Ret (x mod y))"

definition c_shl :: "'a::len word \<Rightarrow> nat \<Rightarrow> 'a word c_result" where
  "c_shl x n = (if n < LENGTH('a) then Ret (push_bit n x) else Fault BadShift)"

definition c_sshr :: "'a::len word \<Rightarrow> nat \<Rightarrow> 'a word c_result" where
  "c_sshr x n = (if n < LENGTH('a) then Ret (signed_drop_bit n x) else Fault BadShift)"

definition put4 :: "hb \<Rightarrow> u32 c_result \<Rightarrow> num_result c_result" where
  "put4 left r = c_bind r (\<lambda>x. Ret (Value (set_u4 x left)))"

definition put8 :: "hb \<Rightarrow> u64 c_result \<Rightarrow> num_result c_result" where
  "put8 left r = c_bind r (\<lambda>x. Ret (Value (set_u8 x left)))"

definition wrong_type :: "num_result c_result" where
  "wrong_type = Ret (Error CLR_E_WRONG_TYPE)"

text \<open>An array reference holds the array in its lower and the index in its upper half.\<close>

definition move_array_reference :: "il_env \<Rightarrow> (u32 \<Rightarrow> u32 \<Rightarrow> u32) \<Rightarrow> hb \<Rightarrow> hb \<Rightarrow> num_result c_result" where
  "move_array_reference env f left right =
     (if hb_LL left = 0 then Ret (Error CLR_E_NULL_REFERENCE)
      else c_bind (c_sdiv (hb_LL right) (ucast (e_sizeOfElement env (hb_LL left))))
             (\<lambda>d. Ret (Value (left\<lparr>hb_HH := f (hb_HH left) d\<rparr>))))"

definition NumericAdd :: "il_env \<Rightarrow> hb \<Rightarrow> hb \<Rightarrow> num_result c_result" where
  "NumericAdd env left right =
     (case hb_type left of
        DT_I4 \<Rightarrow> put4 left (Ret (hb_LL left + hb_LL right))
      | DT_U4 \<Rightarrow> put4 left (Ret (hb_LL left + hb_LL right))
      | DT_I8 \<Rightarrow> put8 left (Ret (hb_u8 left + hb_u8 right))
      | DT_U8 \<Rightarrow> put8 left (Ret (hb_u8 left + hb_u8 right))
      | DT_R4 \<Rightarrow> put4 left (Ret (e_f4 env F_Add (hb_LL left) (hb_LL right)))
      | DT_R8 \<Rightarrow> put8 left (Ret (e_f8 env F_Add (hb_u8 left) (hb_u8 right)))
      | DT_ARRAY_BYREF \<Rightarrow> move_array_reference env (+) left right
      | _ \<Rightarrow> wrong_type)"

definition NumericSub :: "il_env \<Rightarrow> hb \<Rightarrow> hb \<Rightarrow> num_result c_result" where
  "NumericSub env left right =
     (case hb_type left of
        DT_U4 \<Rightarrow> put4 left (Ret (hb_LL left - hb_LL right))
      | DT_I4 \<Rightarrow> put4 left (Ret (hb_LL left - hb_LL right))
      | DT_U8 \<Rightarrow> put8 left (Ret (hb_u8 left - hb_u8 right))
      | DT_I8 \<Rightarrow> put8 left (Ret (hb_u8 left - hb_u8 right))
      | DT_R4 \<Rightarrow> put4 left (Ret (e_f4 env F_Sub (hb_LL left) (hb_LL right)))
      | DT_R8 \<Rightarrow> put8 left (Ret (e_f8 env F_Sub (hb_u8 left) (hb_u8 right)))
      | DT_ARRAY_BYREF \<Rightarrow> move_array_reference env (-) left right
      | _ \<Rightarrow> wrong_type)"

definition NumericMul :: "il_env \<Rightarrow> hb \<Rightarrow> hb \<Rightarrow> num_result c_result" where
  "NumericMul env left right =
     (case hb_type left of
        DT_U4 \<Rightarrow> put4 left (Ret (hb_LL left * hb_LL right))
      | DT_I4 \<Rightarrow> put4 left (Ret (hb_LL left * hb_LL right))
      | DT_U8 \<Rightarrow> put8 left (Ret (hb_u8 left * hb_u8 right))
      | DT_I8 \<Rightarrow> put8 left (Ret (hb_u8 left * hb_u8 right))
      | DT_R4 \<Rightarrow> put4 left (Ret (e_f4 env F_Mul (hb_LL left) (hb_LL right)))
      | DT_R8 \<Rightarrow> put8 left (Ret (e_f8 env F_Mul (hb_u8 left) (hb_u8 right)))
      | _ \<Rightarrow> wrong_type)"

definition NumericDiv :: "il_env \<Rightarrow> hb \<Rightarrow> hb \<Rightarrow> num_result c_result" where
  "NumericDiv env left right =
     (if IsZero env right then Ret (Error CLR_E_DIVIDE_BY_ZERO)
      else case hb_type left of
        DT_U4 \<Rightarrow> put4 left (c_sdiv (hb_LL left) (hb_LL right))
      | DT_I4 \<Rightarrow> put4 left (c_sdiv (hb_LL left) (hb_LL right))
      | DT_U8 \<Rightarrow> put8 left (c_sdiv (hb_u8 left) (hb_u8 right))
      | DT_I8 \<Rightarrow> put8 left (c_sdiv (hb_u8 left) (hb_u8 right))
      | DT_R4 \<Rightarrow> put4 left (Ret (e_f4 env F_Div (hb_LL left) (hb_LL right)))
      | DT_R8 \<Rightarrow> put8 left (Ret (e_f8 env F_Div (hb_u8 left) (hb_u8 right)))
      | _ \<Rightarrow> wrong_type)"

definition NumericDivUn :: "il_env \<Rightarrow> hb \<Rightarrow> hb \<Rightarrow> num_result c_result" where
  "NumericDivUn env left right =
     (if IsZero env right then Ret (Error CLR_E_DIVIDE_BY_ZERO)
      else case hb_type left of
        DT_I4 \<Rightarrow> put4 left (c_udiv (hb_LL left) (hb_LL right))
      | DT_U4 \<Rightarrow> put4 left (c_udiv (hb_LL left) (hb_LL right))
      | DT_I8 \<Rightarrow> put8 left (c_udiv (hb_u8 left) (hb_u8 right))
      | DT_U8 \<Rightarrow> put8 left (c_udiv (hb_u8 left) (hb_u8 right))
      | _ \<Rightarrow> wrong_type)"

definition NumericRem :: "il_env \<Rightarrow> hb \<Rightarrow> hb \<Rightarrow> num_result c_result" where
  "NumericRem env left right =
     (if IsZero env right then Ret (Error CLR_E_DIVIDE_BY_ZERO)
      else case hb_type left of
        DT_U4 \<Rightarrow> put4 left (c_umod (hb_LL left) (hb_LL right))
      | DT_I4 \<Rightarrow> put4 left (c_smod (hb_LL left) (hb_LL right))
      | DT_U8 \<Rightarrow> put8 left (c_umod (hb_u8 left) (hb_u8 right))
      | DT_I8 \<Rightarrow> put8 left (c_smod (hb_u8 left) (hb_u8 right))
      | DT_R4 \<Rightarrow> put4 left (Ret (e_f4 env F_Rem (hb_LL left) (hb_LL right)))
      | DT_R8 \<Rightarrow> put8 left (Ret (e_f8 env F_Rem (hb_u8 left) (hb_u8 right)))
      | _ \<Rightarrow> wrong_type)"

definition NumericRemUn :: "il_env \<Rightarrow> hb \<Rightarrow> hb \<Rightarrow> num_result c_result" where
  "NumericRemUn env left right =
     (if IsZero env right then Ret (Error CLR_E_DIVIDE_BY_ZERO)
      else case hb_type left of
        DT_I4 \<Rightarrow> put4 left (c_umod (hb_LL left) (hb_LL right))
      | DT_U4 \<Rightarrow> put4 left (c_umod (hb_LL left) (hb_LL right))
      | DT_I8 \<Rightarrow> put8 left (c_umod (hb_u8 left) (hb_u8 right))
      | DT_U8 \<Rightarrow> put8 left (c_umod (hb_u8 left) (hb_u8 right))
      | _ \<Rightarrow> wrong_type)"

definition NumericShl :: "hb \<Rightarrow> hb \<Rightarrow> num_result c_result" where
  "NumericShl left right =
     (let n = unat (hb_LL right) in
      case hb_type left of
        DT_I4 \<Rightarrow> put4 left (c_shl (hb_LL left) n)
      | DT_U4 \<Rightarrow> put4 left (c_shl (hb_LL left) n)
      | DT_I8 \<Rightarrow> put8 left (c_shl (hb_u8 left) n)
      | DT_U8 \<Rightarrow> put8 left (c_shl (hb_u8 left) n)
      | _ \<Rightarrow> wrong_type)"

definition NumericShr :: "hb \<Rightarrow> hb \<Rightarrow> num_result c_result" where
  "NumericShr left right =
     (let n = unat (hb_LL right) in
      case hb_type left of
        DT_U4 \<Rightarrow> put4 left (c_shr (hb_LL left) n)
      | DT_I4 \<Rightarrow> put4 left (c_sshr (hb_LL left) n)
      | DT_U8 \<Rightarrow> put8 left (c_shr (hb_u8 left) n)
      | DT_I8 \<Rightarrow> put8 left (c_sshr (hb_u8 left) n)
      | _ \<Rightarrow> wrong_type)"

definition NumericShrUn :: "hb \<Rightarrow> hb \<Rightarrow> num_result c_result" where
  "NumericShrUn left right =
     (let n = unat (hb_LL right) in
      case hb_type left of
        DT_I4 \<Rightarrow> put4 left (c_shr (hb_LL left) n)
      | DT_U4 \<Rightarrow> put4 left (c_shr (hb_LL left) n)
      | DT_I8 \<Rightarrow> put8 left (c_shr (hb_u8 left) n)
      | DT_U8 \<Rightarrow> put8 left (c_shr (hb_u8 left) n)
      | _ \<Rightarrow> wrong_type)"

definition NumericNeg :: "il_env \<Rightarrow> hb \<Rightarrow> num_result c_result" where
  "NumericNeg env v =
     (case hb_type v of
        DT_U4 \<Rightarrow> put4 v (Ret (- hb_LL v))
      | DT_I4 \<Rightarrow> put4 v (Ret (- hb_LL v))
      | DT_U8 \<Rightarrow> put8 v (Ret (- hb_u8 v))
      | DT_I8 \<Rightarrow> put8 v (Ret (- hb_u8 v))
      | DT_R4 \<Rightarrow> put4 v (Ret (e_neg4 env (hb_LL v)))
      | DT_R8 \<Rightarrow> put8 v (Ret (e_neg8 env (hb_u8 v)))
      | _ \<Rightarrow> wrong_type)"

section \<open>Instructions\<close>

datatype il_cond = C_EQ | C_GE | C_GT | C_LE | C_LT | C_NE

datatype il_branch = BR_ALWAYS | BR_ZERO bool | BR_CMP il_cond bool

datatype il_binop =
    B_ADD | B_SUB | B_MUL | B_DIV | B_DIV_UN | B_REM | B_REM_UN | B_AND | B_OR | B_XOR | B_SHL | B_SHR | B_SHR_UN

datatype il_instr =
    I_LDARG nat | I_LDLOC nat | I_STLOC nat | I_STARG nat
  | I_LDNULL | I_LDC_I4 u32 | I_LDC_I8 u64 | I_LDC_R4 u32 | I_LDC_R8 u64
  | I_DUP | I_POP | I_BRANCH il_branch int | I_SWITCH nat
  | I_BINOP il_binop | I_NEG | I_NOT | I_CONV clr_type bool bool | I_CONV_NATIVE clr_type bool bool
  | I_COMPARE il_cond bool | I_NOTHING | I_UNSUPPORTED | I_UNKNOWN | I_BEYOND

text \<open>The code is the image of the assembly, the instruction pointer a position in it.\<close>

definition fetch :: "u8 list \<Rightarrow> int \<Rightarrow> u8 c_result" where
  "fetch code ip = (if 0 \<le> ip then c_index code (nat ip) else Fault BadIndex)"

definition fetch_bytes :: "u8 list \<Rightarrow> int \<Rightarrow> nat \<Rightarrow> u8 list c_result" where
  "fetch_bytes code ip n = c_map (\<lambda>i. fetch code (ip + int i)) [0..<n]"

definition FETCH_ARG_UINT8 :: "u8 list \<Rightarrow> int \<Rightarrow> nat c_result" where
  "FETCH_ARG_UINT8 code ip = c_bind (fetch code ip) (\<lambda>b. Ret (unat b))"

definition FETCH_ARG_INT8 :: "u8 list \<Rightarrow> int \<Rightarrow> int c_result" where
  "FETCH_ARG_INT8 code ip = c_bind (fetch code ip) (\<lambda>b. Ret (sint b))"

definition FETCH_ARG_UINT16 :: "u8 list \<Rightarrow> int \<Rightarrow> nat c_result" where
  "FETCH_ARG_UINT16 code ip = c_bind (fetch_bytes code ip 2) (\<lambda>bs. Ret (unat (u16_of_bytes bs)))"

definition FETCH_ARG_INT16 :: "u8 list \<Rightarrow> int \<Rightarrow> int c_result" where
  "FETCH_ARG_INT16 code ip = c_bind (fetch_bytes code ip 2) (\<lambda>bs. Ret (sint (u16_of_bytes bs)))"

definition FETCH_ARG_UINT32 :: "u8 list \<Rightarrow> int \<Rightarrow> u32 c_result" where
  "FETCH_ARG_UINT32 code ip = c_bind (fetch_bytes code ip 4) (\<lambda>bs. Ret (u32_of_bytes bs))"

definition FETCH_ARG_UINT64 :: "u8 list \<Rightarrow> int \<Rightarrow> u64 c_result" where
  "FETCH_ARG_UINT64 code ip = c_bind (fetch_bytes code ip 8) (\<lambda>bs.
     Ret (ucast (bs ! 0) OR push_bit 8 (ucast (bs ! 1)) OR push_bit 16 (ucast (bs ! 2)) OR
          push_bit 24 (ucast (bs ! 3)) OR push_bit 32 (ucast (bs ! 4)) OR push_bit 40 (ucast (bs ! 5)) OR
          push_bit 48 (ucast (bs ! 6)) OR push_bit 56 (ucast (bs ! 7))))"

text \<open>The numbers of the opcodes are those of opcode.def; one behind the prefix 0xFE is above 255.\<close>

definition c_branches :: "il_branch list" where
  "c_branches = [BR_ALWAYS, BR_ZERO True, BR_ZERO False,
     BR_CMP C_EQ True, BR_CMP C_GE True, BR_CMP C_GT True, BR_CMP C_LE True, BR_CMP C_LT True,
     BR_CMP C_NE False, BR_CMP C_GE False, BR_CMP C_GT False, BR_CMP C_LE False, BR_CMP C_LT False]"

definition c_operations :: "(nat \<times> il_instr) list" where
  "c_operations =
    [(20, I_LDNULL), (37, I_DUP), (38, I_POP),
     (88, I_BINOP B_ADD), (214, I_BINOP B_ADD), (215, I_BINOP B_ADD),
     (89, I_BINOP B_SUB), (218, I_BINOP B_SUB), (219, I_BINOP B_SUB),
     (90, I_BINOP B_MUL), (216, I_BINOP B_MUL), (217, I_BINOP B_MUL),
     (91, I_BINOP B_DIV), (92, I_BINOP B_DIV_UN), (93, I_BINOP B_REM), (94, I_BINOP B_REM_UN),
     (95, I_BINOP B_AND), (96, I_BINOP B_OR), (97, I_BINOP B_XOR),
     (98, I_BINOP B_SHL), (99, I_BINOP B_SHR), (100, I_BINOP B_SHR_UN),
     (101, I_NEG), (102, I_NOT),
     (103, I_CONV DT_I1 False False), (179, I_CONV DT_I1 True False), (130, I_CONV DT_I1 True True),
     (104, I_CONV DT_I2 False False), (181, I_CONV DT_I2 True False), (131, I_CONV DT_I2 True True),
     (105, I_CONV DT_I4 False False), (183, I_CONV DT_I4 True False), (132, I_CONV DT_I4 True True),
     (211, I_CONV_NATIVE DT_I4 False False), (212, I_CONV_NATIVE DT_I4 True False), (138, I_CONV_NATIVE DT_I4 True True),
     (106, I_CONV DT_I8 False False), (185, I_CONV DT_I8 True False), (133, I_CONV DT_I8 True True),
     (107, I_CONV DT_R4 False False), (118, I_CONV DT_R8 False True), (108, I_CONV DT_R8 False False),
     (210, I_CONV DT_U1 False False), (180, I_CONV DT_U1 True False), (134, I_CONV DT_U1 True True),
     (209, I_CONV DT_U2 False False), (182, I_CONV DT_U2 True False), (135, I_CONV DT_U2 True True),
     (109, I_CONV DT_U4 False False), (184, I_CONV DT_U4 True False), (136, I_CONV DT_U4 True True),
     (224, I_CONV_NATIVE DT_U4 False False), (213, I_CONV_NATIVE DT_U4 True False), (139, I_CONV_NATIVE DT_U4 True True),
     (110, I_CONV DT_U8 False False), (186, I_CONV DT_U8 True False), (137, I_CONV DT_U8 True True),
     (257, I_COMPARE C_EQ True), (258, I_COMPARE C_GT True), (259, I_COMPARE C_GT False),
     (260, I_COMPARE C_LT True), (261, I_COMPARE C_LT False)]"

definition c_no_operation :: "nat list" where
  "c_no_operation = [0, 1, 274, 275, 276]"

definition c_unsupported :: "nat list" where
  "c_unsupported = [256, 279, 39, 280, 41, 195, 271, 198, 285, 194, 286]"

text \<open>
  The arms that are not modelled: addresses and indirect accesses, calls, objects, fields, arrays,
  tokens and exceptions.
\<close>

definition c_beyond :: "nat list" where
  "c_beyond = [18, 269, 15, 266] @ [70..<88] @ [223] @
     [40, 111, 42, 112, 129, 113, 114, 115, 116, 117, 122, 123, 124, 125, 126, 127, 128, 140, 121, 165] @
     [141..<165] @ [208, 220, 221, 222, 262, 263, 277, 282, 284, 278, 273]"

definition decode_op :: "u8 list \<Rightarrow> nat \<Rightarrow> int \<Rightarrow> (il_instr \<times> int) c_result" where
  "decode_op code op ip =
     (if op \<in> {2..5} then Ret (I_LDARG (op - 2), ip)
      else if op = 14 then c_bind (FETCH_ARG_UINT8 code ip) (\<lambda>arg. Ret (I_LDARG arg, ip + 1))
      else if op = 265 then c_bind (FETCH_ARG_UINT16 code ip) (\<lambda>arg. Ret (I_LDARG arg, ip + 2))
      else if op \<in> {6..9} then Ret (I_LDLOC (op - 6), ip)
      else if op = 17 then c_bind (FETCH_ARG_UINT8 code ip) (\<lambda>arg. Ret (I_LDLOC arg, ip + 1))
      else if op = 268 then c_bind (FETCH_ARG_UINT16 code ip) (\<lambda>arg. Ret (I_LDLOC arg, ip + 2))
      else if op \<in> {10..13} then Ret (I_STLOC (op - 10), ip)
      else if op = 19 then c_bind (FETCH_ARG_UINT8 code ip) (\<lambda>arg. Ret (I_STLOC arg, ip + 1))
      else if op = 270 then c_bind (FETCH_ARG_UINT16 code ip) (\<lambda>arg. Ret (I_STLOC arg, ip + 2))
      else if op = 16 then c_bind (FETCH_ARG_UINT8 code ip) (\<lambda>arg. Ret (I_STARG arg, ip + 1))
      else if op = 267 then c_bind (FETCH_ARG_UINT16 code ip) (\<lambda>arg. Ret (I_STARG arg, ip + 2))
      else if op \<in> {21..30} then Ret (I_LDC_I4 (word_of_int (int op - 22)), ip)
      else if op = 31 then c_bind (FETCH_ARG_INT8 code ip) (\<lambda>arg. Ret (I_LDC_I4 (word_of_int arg), ip + 1))
      else if op = 32 then c_bind (FETCH_ARG_UINT32 code ip) (\<lambda>arg. Ret (I_LDC_I4 arg, ip + 4))
      else if op = 33 then c_bind (FETCH_ARG_UINT64 code ip) (\<lambda>arg. Ret (I_LDC_I8 arg, ip + 8))
      else if op = 34 then c_bind (FETCH_ARG_UINT32 code ip) (\<lambda>arg. Ret (I_LDC_R4 arg, ip + 4))
      else if op = 35 then c_bind (FETCH_ARG_UINT64 code ip) (\<lambda>arg. Ret (I_LDC_R8 arg, ip + 8))
      else if op \<in> {43..55} then
        c_bind (FETCH_ARG_INT8 code ip) (\<lambda>offset. Ret (I_BRANCH (c_branches ! (op - 43)) offset, ip + 1))
      else if op \<in> {56..68} then
        c_bind (FETCH_ARG_INT16 code ip) (\<lambda>offset. Ret (I_BRANCH (c_branches ! (op - 56)) offset, ip + 2))
      else if op = 69 then c_bind (FETCH_ARG_UINT8 code ip) (\<lambda>arg. Ret (I_SWITCH arg, ip + 1))
      else case map_of c_operations op of
        Some i \<Rightarrow> Ret (i, ip)
      | None \<Rightarrow>
          if op \<in> set c_no_operation then Ret (I_NOTHING, ip)
          else if op \<in> set c_unsupported then Ret (I_UNSUPPORTED, ip)
          else if op \<in> set c_beyond then Ret (I_BEYOND, ip)
          else Ret (I_UNKNOWN, ip))"

definition decode :: "u8 list \<Rightarrow> int \<Rightarrow> (il_instr \<times> int) c_result" where
  "decode code ip =
     c_bind (fetch code ip) (\<lambda>op.
       if op = 0xFE then c_bind (fetch code (ip + 1)) (\<lambda>op. decode_op code (unat op + 256) (ip + 2))
       else decode_op code (unat op) (ip + 1))"

section \<open>Execution\<close>

text \<open>
  The frame: the arguments, the locals and the evaluation stack with the number of its live blocks. The
  blocks above them keep what they held.
\<close>

record il_frame =
  f_args :: "hb list"
  f_locals :: "hb list"
  f_eval :: "hb list"
  f_pos :: nat
  f_ip :: int

text \<open>
  How an instruction ends: execution goes on, the time of the thread is up at a branch, an exception is
  to be raised, or the instruction goes on where the model ends.
\<close>

datatype il_outcome = Running il_frame | Expired il_frame | Failed hresult il_frame | Beyond

definition il_push :: "(hb \<Rightarrow> hb) \<Rightarrow> il_frame \<Rightarrow> il_frame c_result" where
  "il_push f fr =
     c_bind (c_index (f_eval fr) (f_pos fr)) (\<lambda>slot.
       Ret (fr\<lparr>f_eval := (f_eval fr)[f_pos fr := f slot], f_pos := f_pos fr + 1\<rparr>))"

definition il_pop :: "il_frame \<Rightarrow> (hb \<times> il_frame) c_result" where
  "il_pop fr =
     (if f_pos fr = 0 then Fault BadIndex
      else c_bind (c_index (f_eval fr) (f_pos fr - 1)) (\<lambda>v. Ret (v, fr\<lparr>f_pos := f_pos fr - 1\<rparr>)))"

definition il_top :: "il_frame \<Rightarrow> hb c_result" where
  "il_top fr = (if f_pos fr = 0 then Fault BadIndex else c_index (f_eval fr) (f_pos fr - 1))"

definition il_set_top :: "hb \<Rightarrow> il_frame \<Rightarrow> il_frame" where
  "il_set_top v fr = fr\<lparr>f_eval := (f_eval fr)[f_pos fr - 1 := v]\<rparr>"

definition il_unary :: "(hb \<Rightarrow> num_result c_result) \<Rightarrow> il_frame \<Rightarrow> il_outcome c_result" where
  "il_unary f fr =
     c_bind (il_top fr) (\<lambda>v. c_bind (f v) (\<lambda>r.
       case r of Value v \<Rightarrow> Ret (Running (il_set_top v fr)) | Error hr \<Rightarrow> Ret (Failed hr fr)))"

definition il_binary :: "(hb \<Rightarrow> hb \<Rightarrow> num_result c_result) \<Rightarrow> il_frame \<Rightarrow> il_outcome c_result" where
  "il_binary f fr = c_bind (il_pop fr) (\<lambda>(right, fr). il_unary (\<lambda>left. f left right) fr)"

text \<open>A load copies the value and widens it; a value type is cloned, in the heap.\<close>

definition Execute_LoadAndPromote :: "il_env \<Rightarrow> hb \<Rightarrow> il_frame \<Rightarrow> il_outcome c_result" where
  "Execute_LoadAndPromote env v fr =
     c_bind (il_push (\<lambda>_. Promote v) fr) (\<lambda>fr.
       if IsAValueType env v then Ret Beyond else Ret (Running fr))"

definition Execute_BR :: "bool \<Rightarrow> int \<Rightarrow> bool \<Rightarrow> il_frame \<Rightarrow> il_outcome" where
  "Execute_BR expired offset fCondition fr =
     (let fr = (if fCondition then fr\<lparr>f_ip := f_ip fr + offset\<rparr> else fr) in
      if expired then Expired fr else Running fr)"

fun cond_holds :: "il_cond \<Rightarrow> int \<Rightarrow> bool" where
  "cond_holds C_EQ r = (r = 0)"
| "cond_holds C_GE r = (r \<ge> 0)"
| "cond_holds C_GT r = (r > 0)"
| "cond_holds C_LE r = (r \<le> 0)"
| "cond_holds C_LT r = (r < 0)"
| "cond_holds C_NE r = (r \<noteq> 0)"

fun exec_binop :: "il_env \<Rightarrow> il_binop \<Rightarrow> hb \<Rightarrow> hb \<Rightarrow> num_result c_result" where
  "exec_binop env B_ADD = NumericAdd env"
| "exec_binop env B_SUB = NumericSub env"
| "exec_binop env B_MUL = NumericMul env"
| "exec_binop env B_DIV = NumericDiv env"
| "exec_binop env B_DIV_UN = NumericDivUn env"
| "exec_binop env B_REM = NumericRem env"
| "exec_binop env B_REM_UN = NumericRemUn env"
| "exec_binop env B_AND = (\<lambda>l r. Ret (Value (l\<lparr>hb_LL := hb_LL l AND hb_LL r, hb_HH := hb_HH l AND hb_HH r\<rparr>)))"
| "exec_binop env B_OR = (\<lambda>l r. Ret (Value (l\<lparr>hb_LL := hb_LL l OR hb_LL r, hb_HH := hb_HH l OR hb_HH r\<rparr>)))"
| "exec_binop env B_XOR = (\<lambda>l r. Ret (Value (l\<lparr>hb_LL := hb_LL l XOR hb_LL r, hb_HH := hb_HH l XOR hb_HH r\<rparr>)))"
| "exec_binop env B_SHL = NumericShl"
| "exec_binop env B_SHR = NumericShr"
| "exec_binop env B_SHR_UN = NumericShrUn"

fun exec_branch :: "il_env \<Rightarrow> bool \<Rightarrow> il_branch \<Rightarrow> int \<Rightarrow> il_frame \<Rightarrow> il_outcome c_result" where
  "exec_branch env expired BR_ALWAYS offset fr = Ret (Execute_BR expired offset True fr)"
| "exec_branch env expired (BR_ZERO z) offset fr =
     c_bind (il_pop fr) (\<lambda>(v, fr). Ret (Execute_BR expired offset (IsZero env v = z) fr))"
| "exec_branch env expired (BR_CMP c fSigned) offset fr =
     c_bind (il_pop fr) (\<lambda>(right, fr). c_bind (il_pop fr) (\<lambda>(left, fr).
       case Compare_Values env fSigned left right of
         None \<Rightarrow> Ret Beyond
       | Some r \<Rightarrow> Ret (Execute_BR expired offset (cond_holds c r) fr)))"

definition exec_switch :: "u8 list \<Rightarrow> nat \<Rightarrow> il_frame \<Rightarrow> il_outcome c_result" where
  "exec_switch code numCases fr =
     c_bind (il_pop fr) (\<lambda>(v, fr).
       let caseSelected = unat (hb_LL v) in
       if caseSelected < numCases then
         c_bind (FETCH_ARG_INT16 code (f_ip fr + int caseSelected * 2)) (\<lambda>offset.
           Ret (Running (fr\<lparr>f_ip := f_ip fr + offset + int numCases * 2\<rparr>)))
       else Ret (Running (fr\<lparr>f_ip := f_ip fr + int numCases * 2\<rparr>)))"

text \<open>\<open>ceq\<close> and its kin leave the result in the block of the left operand.\<close>

definition exec_compare :: "il_env \<Rightarrow> il_cond \<Rightarrow> bool \<Rightarrow> il_frame \<Rightarrow> il_outcome c_result" where
  "exec_compare env c fSigned fr =
     c_bind (il_pop fr) (\<lambda>(right, fr). c_bind (il_top fr) (\<lambda>left.
       case Compare_Values env fSigned left right of
         None \<Rightarrow> Ret Beyond
       | Some r \<Rightarrow> Ret (Running (il_set_top (SetInteger32 (if cond_holds c r then 1 else 0) left) fr))))"

definition push_value :: "(hb \<Rightarrow> hb) \<Rightarrow> il_frame \<Rightarrow> il_outcome c_result" where
  "push_value f fr = c_bind (il_push f fr) (\<lambda>fr. Ret (Running fr))"

text \<open>A store to a pinned local goes on in the heap.\<close>

definition exec_stloc :: "nat \<Rightarrow> il_frame \<Rightarrow> il_outcome c_result" where
  "exec_stloc n fr =
     c_bind (c_index (f_locals fr) n) (\<lambda>dst.
       c_bind (il_pop fr) (\<lambda>(v, fr).
         if hb_flags dst AND HB_Pinned \<noteq> 0 then Ret Beyond
         else Ret (Running (fr\<lparr>f_locals := (f_locals fr)[n := AssignAndPreserveType v dst]\<rparr>))))"

definition exec_starg :: "nat \<Rightarrow> il_frame \<Rightarrow> il_outcome c_result" where
  "exec_starg n fr =
     c_bind (c_index (f_args fr) n) (\<lambda>dst.
       c_bind (il_pop fr) (\<lambda>(v, fr).
         Ret (Running (fr\<lparr>f_args := (f_args fr)[n := AssignAndPreserveType v dst]\<rparr>))))"

fun exec_instr :: "il_env \<Rightarrow> u8 list \<Rightarrow> bool \<Rightarrow> il_instr \<Rightarrow> il_frame \<Rightarrow> il_outcome c_result" where
  "exec_instr env code expired (I_LDARG n) fr =
     c_bind (c_index (f_args fr) n) (\<lambda>v. Execute_LoadAndPromote env v fr)"
| "exec_instr env code expired (I_LDLOC n) fr =
     c_bind (c_index (f_locals fr) n) (\<lambda>v. Execute_LoadAndPromote env v fr)"
| "exec_instr env code expired (I_STLOC n) fr = exec_stloc n fr"
| "exec_instr env code expired (I_STARG n) fr = exec_starg n fr"
| "exec_instr env code expired I_LDNULL fr = push_value (SetObjectReference 0) fr"
| "exec_instr env code expired (I_LDC_I4 x) fr = push_value (SetInteger32 x) fr"
| "exec_instr env code expired (I_LDC_I8 x) fr = push_value (SetInteger64 x) fr"
| "exec_instr env code expired (I_LDC_R4 x) fr = push_value (SetFloatFromBits x) fr"
| "exec_instr env code expired (I_LDC_R8 x) fr = push_value (SetDoubleFromBits x) fr"
| "exec_instr env code expired I_DUP fr = c_bind (il_top fr) (\<lambda>v. push_value (\<lambda>_. v) fr)"
| "exec_instr env code expired I_POP fr = c_bind (il_pop fr) (\<lambda>(v, fr). Ret (Running fr))"
| "exec_instr env code expired (I_BRANCH b offset) fr = exec_branch env expired b offset fr"
| "exec_instr env code expired (I_SWITCH n) fr = exec_switch code n fr"
| "exec_instr env code expired (I_BINOP b) fr = il_binary (exec_binop env b) fr"
| "exec_instr env code expired I_NEG fr = il_unary (NumericNeg env) fr"
| "exec_instr env code expired I_NOT fr =
     il_unary (\<lambda>v. Ret (Value (v\<lparr>hb_LL := NOT (hb_LL v), hb_HH := NOT (hb_HH v)\<rparr>))) fr"
| "exec_instr env code expired (I_CONV et fOverflow fUnsigned) fr =
     il_unary (\<lambda>v. Ret (Convert env et fOverflow fUnsigned v)) fr"
| "exec_instr env code expired (I_CONV_NATIVE et fOverflow fUnsigned) fr =
     il_unary (\<lambda>v. if hb_type v \<in> {DT_BYREF, DT_ARRAY_BYREF} then Ret (Value v)
                   else Ret (Convert env et fOverflow fUnsigned v)) fr"
| "exec_instr env code expired (I_COMPARE c fSigned) fr = exec_compare env c fSigned fr"
| "exec_instr env code expired I_NOTHING fr = Ret (Running fr)"
| "exec_instr env code expired I_UNSUPPORTED fr = Ret (Failed CLR_E_UNSUPPORTED_INSTRUCTION fr)"
| "exec_instr env code expired I_UNKNOWN fr = Ret (Failed CLR_E_UNKNOWN_INSTRUCTION fr)"
| "exec_instr env code expired I_BEYOND fr = Ret Beyond"

definition il_step :: "il_env \<Rightarrow> u8 list \<Rightarrow> bool \<Rightarrow> il_frame \<Rightarrow> il_outcome c_result" where
  "il_step env code expired fr =
     c_bind (decode code (f_ip fr)) (\<lambda>(i, ip). exec_instr env code expired i (fr\<lparr>f_ip := ip\<rparr>))"

text \<open>
  The loop. \<open>expired k\<close> is what the flag \<open>m_timeQuantumExpired\<close>, that a timer sets, holds during the
  \<open>k\<close>-th instruction. A program that never leaves the loop has no result.
\<close>

partial_function (option) Execute_IL ::
    "il_env \<Rightarrow> u8 list \<Rightarrow> (nat \<Rightarrow> bool) \<Rightarrow> nat \<Rightarrow> il_frame \<Rightarrow> il_outcome c_result option" where
  "Execute_IL env code expired k fr =
     (case il_step env code (expired k) fr of
        Inl e \<Rightarrow> Some (Fault e)
      | Inr out \<Rightarrow> (case out of
            Running fr' \<Rightarrow> Execute_IL env code expired (Suc k) fr'
          | Expired fr' \<Rightarrow> Some (Ret (Expired fr'))
          | Failed hr fr' \<Rightarrow> Some (Ret (Failed hr fr'))
          | Beyond \<Rightarrow> Some (Ret Beyond)))"

end
