(* ===== verification/NF_CLI.thy ===== *)
theory NF_CLI
  imports NF_IL
begin

text \<open>
  What the common language infrastructure (ECMA-335) says of the integer instructions, as a machine of
  its own over the integers: the values of the evaluation stack are an \<open>int32\<close> or an \<open>int64\<close> without
  any further type, arithmetic is that of the integers, cut to the width of its operands. The
  interpreter is compared with it in NF_ILProps. Behind the machine come the laws that relate words to
  it.
\<close>

section \<open>The reference machine\<close>

datatype cli_val = CI4 int | CI8 int

text \<open>A number as the value of a signed and of an unsigned integer of \<open>w\<close> bits.\<close>

abbreviation cli_s :: "nat \<Rightarrow> int \<Rightarrow> int" where "cli_s w \<equiv> signed_take_bit (w - Suc 0)"
abbreviation cli_u :: "nat \<Rightarrow> int \<Rightarrow> int" where "cli_u w \<equiv> take_bit w"

fun cli_arith :: "nat \<Rightarrow> il_binop \<Rightarrow> int \<Rightarrow> int \<Rightarrow> int" where
  "cli_arith w B_ADD a b = cli_s w (a + b)"
| "cli_arith w B_SUB a b = cli_s w (a - b)"
| "cli_arith w B_MUL a b = cli_s w (a * b)"
| "cli_arith w B_DIV a b = a sdiv b"
| "cli_arith w B_DIV_UN a b = cli_s w (cli_u w a div cli_u w b)"
| "cli_arith w B_REM a b = a smod b"
| "cli_arith w B_REM_UN a b = cli_s w (cli_u w a mod cli_u w b)"
| "cli_arith w B_AND a b = a AND b"
| "cli_arith w B_OR a b = a OR b"
| "cli_arith w B_XOR a b = a XOR b"
| "cli_arith w B_SHL a b = cli_s w (a * 2 ^ nat b)"
| "cli_arith w B_SHR a b = a div 2 ^ nat b"
| "cli_arith w B_SHR_UN a b = cli_s w (cli_u w a div 2 ^ nat b)"

definition cli_shifts :: "il_binop \<Rightarrow> bool" where
  "cli_shifts op \<longleftrightarrow> op \<in> {B_SHL, B_SHR, B_SHR_UN}"

definition cli_divides :: "il_binop \<Rightarrow> bool" where
  "cli_divides op \<longleftrightarrow> op \<in> {B_DIV, B_DIV_UN, B_REM, B_REM_UN}"

text \<open>
  The shift by the width or more is unspecified; the quotient of the least number and minus one is an
  exception that the interpreter does not know.
\<close>

definition cli_defined :: "nat \<Rightarrow> il_binop \<Rightarrow> int \<Rightarrow> int \<Rightarrow> bool" where
  "cli_defined w op a b \<longleftrightarrow>
     (cli_shifts op \<longrightarrow> 0 \<le> b \<and> b < int w) \<and>
     (op = B_DIV \<or> op = B_REM \<longrightarrow> \<not> (a = - (2 ^ (w - Suc 0)) \<and> b = - 1))"

datatype cli_result = CVal cli_val | CDivideByZero | CUndefined

definition cli_binop4 :: "il_binop \<Rightarrow> int \<Rightarrow> int \<Rightarrow> cli_result" where
  "cli_binop4 op a b =
     (if cli_divides op \<and> b = 0 then CDivideByZero
      else if cli_defined 32 op a b then CVal (CI4 (cli_arith 32 op a b)) else CUndefined)"

definition cli_binop8 :: "il_binop \<Rightarrow> int \<Rightarrow> int \<Rightarrow> cli_result" where
  "cli_binop8 op a b =
     (if cli_divides op \<and> b = 0 then CDivideByZero
      else if cli_defined 64 op a b then CVal (CI8 (cli_arith 64 op a b)) else CUndefined)"

text \<open>Both operands have one width, but the amount of a shift is always an \<open>int32\<close>.\<close>

fun cli_binop :: "il_binop \<Rightarrow> cli_val \<Rightarrow> cli_val \<Rightarrow> cli_result" where
  "cli_binop op (CI4 a) (CI4 b) = cli_binop4 op a b"
| "cli_binop op (CI8 a) (CI8 b) = (if cli_shifts op then CUndefined else cli_binop8 op a b)"
| "cli_binop op (CI8 a) (CI4 b) = (if cli_shifts op then cli_binop8 op a b else CUndefined)"
| "cli_binop op (CI4 a) (CI8 b) = CUndefined"

fun cli_unary :: "(nat \<Rightarrow> int \<Rightarrow> int) \<Rightarrow> cli_val \<Rightarrow> cli_val" where
  "cli_unary f (CI4 a) = CI4 (f 32 a)"
| "cli_unary f (CI8 a) = CI8 (f 64 a)"

fun cli_narrow :: "clr_type \<Rightarrow> int \<Rightarrow> int option" where
  "cli_narrow DT_BOOLEAN a = Some (cli_u 8 a)"
| "cli_narrow DT_I1 a = Some (cli_s 8 a)"
| "cli_narrow DT_U1 a = Some (cli_u 8 a)"
| "cli_narrow DT_CHAR a = Some (cli_u 16 a)"
| "cli_narrow DT_I2 a = Some (cli_s 16 a)"
| "cli_narrow DT_U2 a = Some (cli_u 16 a)"
| "cli_narrow DT_I4 a = Some (cli_s 32 a)"
| "cli_narrow DT_U4 a = Some (cli_s 32 a)"
| "cli_narrow _ a = None"

fun cli_conv :: "clr_type \<Rightarrow> cli_val \<Rightarrow> cli_val option" where
  "cli_conv DT_I8 (CI4 a) = Some (CI8 a)"
| "cli_conv DT_U8 (CI4 a) = Some (CI8 (cli_u 32 a))"
| "cli_conv DT_I8 (CI8 a) = Some (CI8 a)"
| "cli_conv DT_U8 (CI8 a) = Some (CI8 a)"
| "cli_conv t (CI4 a) = map_option CI4 (cli_narrow t a)"
| "cli_conv t (CI8 a) = map_option CI4 (cli_narrow t a)"

text \<open>A store to an argument or a local cuts the value to the declared type.\<close>

fun cli_store :: "clr_type \<Rightarrow> cli_val \<Rightarrow> cli_val option" where
  "cli_store t (CI4 a) = map_option CI4 (cli_narrow t a)"
| "cli_store t (CI8 a) = (if t = DT_I8 \<or> t = DT_U8 then Some (CI8 a) else None)"

definition cli_holds :: "nat \<Rightarrow> il_cond \<Rightarrow> bool \<Rightarrow> int \<Rightarrow> int \<Rightarrow> bool" where
  "cli_holds w c fSigned a b =
     (let a = if fSigned then a else cli_u w a; b = if fSigned then b else cli_u w b in
      case c of C_EQ \<Rightarrow> a = b | C_GE \<Rightarrow> a \<ge> b | C_GT \<Rightarrow> a > b | C_LE \<Rightarrow> a \<le> b | C_LT \<Rightarrow> a < b | C_NE \<Rightarrow> a \<noteq> b)"

fun cli_compare :: "il_cond \<Rightarrow> bool \<Rightarrow> cli_val \<Rightarrow> cli_val \<Rightarrow> bool option" where
  "cli_compare c fSigned (CI4 a) (CI4 b) = Some (cli_holds 32 c fSigned a b)"
| "cli_compare c fSigned (CI8 a) (CI8 b) = Some (cli_holds 64 c fSigned a b)"
| "cli_compare c fSigned _ _ = None"

fun cli_is_zero :: "cli_val \<Rightarrow> bool" where
  "cli_is_zero (CI4 a) \<longleftrightarrow> a = 0"
| "cli_is_zero (CI8 a) \<longleftrightarrow> a = 0"

text \<open>
  The state: arguments and locals with their declared types, the evaluation stack, the room left on it
  and the position in the code.
\<close>

record cli_state =
  c_args :: "(clr_type \<times> cli_val) list"
  c_locals :: "(clr_type \<times> cli_val) list"
  c_stack :: "cli_val list"
  c_room :: nat
  c_ip :: int

datatype cli_outcome = CliRun cli_state | CliDivideByZero

definition cli_push :: "cli_val \<Rightarrow> cli_state \<Rightarrow> cli_outcome option" where
  "cli_push v s =
     (if c_room s = 0 then None
      else Some (CliRun (s\<lparr>c_stack := v # c_stack s, c_room := c_room s - 1\<rparr>)))"

definition cli_load :: "(clr_type \<times> cli_val) list \<Rightarrow> nat \<Rightarrow> cli_state \<Rightarrow> cli_outcome option" where
  "cli_load xs n s = (if n < length xs then cli_push (snd (xs ! n)) s else None)"

definition cli_stored :: "(clr_type \<times> cli_val) list \<Rightarrow> nat \<Rightarrow> cli_val \<Rightarrow> (clr_type \<times> cli_val) list option" where
  "cli_stored xs n v =
     (if n < length xs then map_option (\<lambda>v. xs[n := (fst (xs ! n), v)]) (cli_store (fst (xs ! n)) v) else None)"

definition cli_jump :: "bool \<Rightarrow> int \<Rightarrow> cli_state \<Rightarrow> cli_outcome option" where
  "cli_jump b offset s = Some (CliRun (if b then s\<lparr>c_ip := c_ip s + offset\<rparr> else s))"

text \<open>The operands of an instruction, with the state that is left without them.\<close>

definition cli_pop :: "cli_state \<Rightarrow> (cli_val \<times> cli_state) option" where
  "cli_pop s =
     (case c_stack s of [] \<Rightarrow> None | v # vs \<Rightarrow> Some (v, s\<lparr>c_stack := vs, c_room := c_room s + 1\<rparr>))"

definition cli_top :: "(cli_val \<Rightarrow> cli_val option) \<Rightarrow> cli_state \<Rightarrow> cli_outcome option" where
  "cli_top f s =
     (case c_stack s of
        [] \<Rightarrow> None
      | v # vs \<Rightarrow> map_option (\<lambda>v. CliRun (s\<lparr>c_stack := v # vs\<rparr>)) (f v))"

fun cli_exec :: "u8 list \<Rightarrow> il_instr \<Rightarrow> cli_state \<Rightarrow> cli_outcome option" where
  "cli_exec code (I_LDARG n) s = cli_load (c_args s) n s"
| "cli_exec code (I_LDLOC n) s = cli_load (c_locals s) n s"
| "cli_exec code (I_STLOC n) s =
     Option.bind (cli_pop s) (\<lambda>(v, s). map_option (\<lambda>xs. CliRun (s\<lparr>c_locals := xs\<rparr>)) (cli_stored (c_locals s) n v))"
| "cli_exec code (I_STARG n) s =
     Option.bind (cli_pop s) (\<lambda>(v, s). map_option (\<lambda>xs. CliRun (s\<lparr>c_args := xs\<rparr>)) (cli_stored (c_args s) n v))"
| "cli_exec code (I_LDC_I4 x) s = cli_push (CI4 (sint x)) s"
| "cli_exec code (I_LDC_I8 x) s = cli_push (CI8 (sint x)) s"
| "cli_exec code I_DUP s = (case c_stack s of [] \<Rightarrow> None | v # vs \<Rightarrow> cli_push v s)"
| "cli_exec code I_POP s = map_option (\<lambda>(v, s). CliRun s) (cli_pop s)"
| "cli_exec code (I_BRANCH BR_ALWAYS offset) s = cli_jump True offset s"
| "cli_exec code (I_BRANCH (BR_ZERO z) offset) s =
     Option.bind (cli_pop s) (\<lambda>(v, s). cli_jump (cli_is_zero v = z) offset s)"
| "cli_exec code (I_BRANCH (BR_CMP c fSigned) offset) s =
     Option.bind (cli_pop s) (\<lambda>(right, s). Option.bind (cli_pop s) (\<lambda>(left, s).
       Option.bind (cli_compare c fSigned left right) (\<lambda>b. cli_jump b offset s)))"
| "cli_exec code (I_SWITCH n) s =
     Option.bind (cli_pop s) (\<lambda>(v, s).
       case v of
         CI8 a \<Rightarrow> None
       | CI4 a \<Rightarrow>
           if cli_u 32 a < int n then
             (case FETCH_ARG_INT16 code (c_ip s + 2 * cli_u 32 a) of
                Inl e \<Rightarrow> None
              | Inr offset \<Rightarrow> cli_jump True (2 * int n + offset) s)
           else cli_jump True (2 * int n) s)"
| "cli_exec code (I_BINOP op) s =
     Option.bind (cli_pop s) (\<lambda>(right, s). Option.bind (cli_pop s) (\<lambda>(left, s).
       case cli_binop op left right of
         CVal v \<Rightarrow> cli_push v s
       | CDivideByZero \<Rightarrow> Some CliDivideByZero
       | CUndefined \<Rightarrow> None))"
| "cli_exec code I_NEG s = cli_top (\<lambda>v. Some (cli_unary (\<lambda>w a. cli_s w (- a)) v)) s"
| "cli_exec code I_NOT s = cli_top (\<lambda>v. Some (cli_unary (\<lambda>w a. - a - 1) v)) s"
| "cli_exec code (I_CONV et fOverflow fUnsigned) s = cli_top (cli_conv et) s"
| "cli_exec code (I_CONV_NATIVE et fOverflow fUnsigned) s = cli_top (cli_conv et) s"
| "cli_exec code (I_COMPARE c fSigned) s =
     Option.bind (cli_pop s) (\<lambda>(right, s). Option.bind (cli_pop s) (\<lambda>(left, s).
       Option.bind (cli_compare c fSigned left right) (\<lambda>b. cli_push (CI4 (if b then 1 else 0)) s)))"
| "cli_exec code I_NOTHING s = Some (CliRun s)"
| "cli_exec code _ s = None"

definition cli_step :: "u8 list \<Rightarrow> cli_state \<Rightarrow> cli_outcome option" where
  "cli_step code s =
     (case decode code (c_ip s) of Inl e \<Rightarrow> None | Inr r \<Rightarrow> cli_exec code (fst r) (s\<lparr>c_ip := snd r\<rparr>))"

fun cli_steps :: "u8 list \<Rightarrow> nat \<Rightarrow> cli_state \<Rightarrow> cli_outcome option" where
  "cli_steps code 0 s = Some (CliRun s)"
| "cli_steps code (Suc n) s =
     Option.bind (cli_step code s) (\<lambda>r.
       case r of CliRun s' \<Rightarrow> cli_steps code n s' | CliDivideByZero \<Rightarrow> Some CliDivideByZero)"

section \<open>Words as integers\<close>

named_theorems cli_words \<open>the signed value of an operation on words\<close>

lemma sint_arith [cli_words]:
  fixes x y :: "'a::len word"
  shows "sint (x + y) = cli_s LENGTH('a) (sint x + sint y)"
    "sint (x - y) = cli_s LENGTH('a) (sint x - sint y)"
    "sint (x * y) = cli_s LENGTH('a) (sint x * sint y)"
    "sint (- x) = cli_s LENGTH('a) (- sint x)"
  by (simp_all add: sint_word_ariths)

lemma sint_bitwise [cli_words]:
  fixes x y :: "'a::len word"
  shows "sint (x AND y) = sint x AND sint y" "sint (x OR y) = sint x OR sint y"
    "sint (x XOR y) = sint x XOR sint y"
  by (simp_all add: signed_and_eq signed_or_eq signed_xor_eq)

lemma sint_NOT [cli_words]: "sint (NOT x) = - sint x - 1"
proof -
  have "- (2 ^ LENGTH('a)) \<le> NOT (sint x)" "NOT (sint x) < 2 ^ LENGTH('a)" for x :: "'a::len word"
  proof -
    have "(2 :: int) ^ (LENGTH('a) - Suc 0) \<le> 2 ^ LENGTH('a)" by (rule power_increasing) simp_all
    then show "- (2 ^ LENGTH('a)) \<le> NOT (sint x)" "NOT (sint x) < 2 ^ LENGTH('a)"
      using sint_greater_eq [of x] sint_less [of x] unfolding not_int_def by linarith+
  qed
  then have "signed_take_bit LENGTH('a) (NOT (sint x)) = NOT (sint x)" for x :: "'a::len word"
    by (simp add: signed_take_bit_int_eq_self)
  then show ?thesis by (simp add: signed_not_eq not_int_def)
qed

lemma sint_unsigned [cli_words]:
  fixes x y :: "'a::len word"
  shows "sint (x div y) = cli_s LENGTH('a) (cli_u LENGTH('a) (sint x) div cli_u LENGTH('a) (sint y))"
    "sint (x mod y) = cli_s LENGTH('a) (cli_u LENGTH('a) (sint x) mod cli_u LENGTH('a) (sint y))"
  by (simp_all add: sint_uint [of "x div y"] sint_uint [of "x mod y"] uint_div uint_mod uint_sint [symmetric])

lemma sint_shifts [cli_words]:
  fixes x :: "'a::len word"
  shows "sint (push_bit n x) = cli_s LENGTH('a) (sint x * 2 ^ n)"
    "sint (signed_drop_bit n x) = sint x div 2 ^ n"
    "sint (drop_bit n x) = cli_s LENGTH('a) (cli_u LENGTH('a) (sint x) div 2 ^ n)"
proof -
  show "sint (push_bit n x) = cli_s LENGTH('a) (sint x * 2 ^ n)"
    by (subst signed_push_bit_eq) (simp add: push_bit_eq_mult)
  show "sint (signed_drop_bit n x) = sint x div 2 ^ n"
    by (simp add: sint_signed_drop_bit_eq drop_bit_eq_div)
  have "uint (drop_bit n x) = uint x div 2 ^ n"
    by (subst unsigned_drop_bit_eq) (simp add: drop_bit_eq_div bintr_uint)
  then show "sint (drop_bit n x) = cli_s LENGTH('a) (cli_u LENGTH('a) (sint x) div 2 ^ n)"
    by (simp only: sint_uint [of "drop_bit n x"] uint_sint [symmetric])
qed

text \<open>The quotient and the remainder that truncate stay in the type, but for one quotient.\<close>

lemma sdiv_in_range:
  fixes a b m :: int
  assumes a: "- m \<le> a" "a < m" and b: "b \<noteq> 0" "\<not> (a = - m \<and> b = - 1)"
  shows "- m \<le> a sdiv b" "a sdiv b < m"
proof -
  have r: "- \<bar>a\<bar> \<le> a sdiv b" "a sdiv b \<le> \<bar>a\<bar>" using sdiv_int_range [of a b] by auto
  then show "- m \<le> a sdiv b" using a by linarith
  show "a sdiv b < m"
  proof (cases "a = - m \<and> b \<noteq> 1")
    case True
    then have "2 \<le> \<bar>b\<bar>" "0 < m" using a b by linarith+
    then have "\<bar>a\<bar> div \<bar>b\<bar> \<le> \<bar>a\<bar> div 2" by (intro zdiv_mono2) auto
    also have "\<bar>a\<bar> div 2 < m" using True \<open>0 < m\<close> by auto
    finally have "\<bar>a\<bar> div \<bar>b\<bar> < m" .
    moreover have "0 \<le> \<bar>a\<bar> div \<bar>b\<bar>" using \<open>2 \<le> \<bar>b\<bar>\<close> by (simp add: pos_imp_zdiv_nonneg_iff)
    ultimately show ?thesis using \<open>0 < m\<close> by (auto simp: signed_divide_int_def sgn_if)
  next
    case False
    then show ?thesis using a r by (cases "b = 1") auto
  qed
qed

lemma sint_quotients [cli_words]:
  fixes x y :: "'a::len word"
  assumes y: "y \<noteq> 0" "\<not> (y = - 1 \<and> sint x = - (2 ^ (LENGTH('a) - Suc 0)))"
  shows "sint (word_of_int (sint x sdiv sint y) :: 'a word) = sint x sdiv sint y"
    "sint (word_of_int (sint x smod sint y) :: 'a word) = sint x smod sint y"
proof -
  have b: "sint y \<noteq> 0" using y(1) by (metis sint_0 signed_word_eqI)
  have "\<not> (sint x = - (2 ^ (LENGTH('a) - Suc 0)) \<and> sint y = - 1)"
    using y(2) by (metis signed_word_eqI sint_n1)
  then show "sint (word_of_int (sint x sdiv sint y) :: 'a word) = sint x sdiv sint y"
    using sdiv_in_range [of "2 ^ (LENGTH('a) - Suc 0)" "sint x" "sint y"] b sint_greater_eq [of x] sint_less [of x]
    by (simp add: sint_sbintrunc' signed_take_bit_int_eq_self)
  have "- (2 ^ (LENGTH('a) - Suc 0)) \<le> sint x smod sint y" "sint x smod sint y < 2 ^ (LENGTH('a) - Suc 0)"
    using smod_int_range [OF b, of "sint x"] sint_greater_eq [of y] sint_less [of y] by auto
  then show "sint (word_of_int (sint x smod sint y) :: 'a word) = sint x smod sint y"
    by (simp add: sint_sbintrunc' signed_take_bit_int_eq_self)
qed

section \<open>The halves of a value\<close>

lemma u32_bit_bound [dest]: "bit (x :: u32) n \<Longrightarrow> n < 32"
  by (drule bit_imp_le_length) simp

lemma u8_of_set [simp]: "hb_u8 (set_u8 x v) = x"
  unfolding hb_u8_def set_u8_def by (rule bit_word_eqI) (auto simp: bit_simps)

lemma set_u8_fields [simp]:
  "hb_type (set_u8 x v) = hb_type v" "hb_flags (set_u8 x v) = hb_flags v" "hb_LL (set_u8 x v) = ucast x"
  by (simp_all add: set_u8_def)

lemma low_of_u8 [simp]: "ucast (hb_u8 v) = hb_LL v"
  unfolding hb_u8_def by (rule bit_word_eqI) (auto simp: bit_simps)

lemma u8_of_fields [simp]:
  "hb_u8 (v\<lparr>hb_type := t\<rparr>) = hb_u8 v" "hb_u8 (v\<lparr>hb_flags := f\<rparr>) = hb_u8 v"
  by (simp_all add: hb_u8_def)

lemma u8_of_halves:
  "hb_u8 (v\<lparr>hb_LL := hb_LL l AND hb_LL r, hb_HH := hb_HH l AND hb_HH r\<rparr>) = hb_u8 l AND hb_u8 r"
  "hb_u8 (v\<lparr>hb_LL := hb_LL l OR hb_LL r, hb_HH := hb_HH l OR hb_HH r\<rparr>) = hb_u8 l OR hb_u8 r"
  "hb_u8 (v\<lparr>hb_LL := hb_LL l XOR hb_LL r, hb_HH := hb_HH l XOR hb_HH r\<rparr>) = hb_u8 l XOR hb_u8 r"
  "hb_u8 (v\<lparr>hb_LL := NOT (hb_LL l), hb_HH := NOT (hb_HH l)\<rparr>) = NOT (hb_u8 l)"
  unfolding hb_u8_def by (rule bit_word_eqI; auto simp: bit_simps)+

end
