(* ===== verification/NF_ILProps.thy ===== *)
theory NF_ILProps
  imports NF_CLI
begin

text \<open>
  The interpreter against the reference machine: a frame stands for a state of the machine, every
  operation on values does what the machine does, and so does every instruction. Then what follows for
  a whole run, that an interruption changes nothing, and where the interpreter departs from the machine.
\<close>

section \<open>Values\<close>

definition il_val :: "hb \<Rightarrow> cli_val option" where
  "il_val v =
     (if hb_type v \<in> {DT_I4, DT_U4} then Some (CI4 (sint (hb_LL v)))
      else if hb_type v \<in> {DT_I8, DT_U8} then Some (CI8 (sint (hb_u8 v)))
      else None)"

lemma il_val_4 [simp]: "hb_type v = DT_I4 \<or> hb_type v = DT_U4 \<Longrightarrow> il_val v = Some (CI4 (sint (hb_LL v)))"
  by (auto simp: il_val_def)

lemma il_val_8 [simp]: "hb_type v = DT_I8 \<or> hb_type v = DT_U8 \<Longrightarrow> il_val v = Some (CI8 (sint (hb_u8 v)))"
  by (auto simp: il_val_def)

lemma il_val_CI4: "il_val v = Some (CI4 a) \<longleftrightarrow> (hb_type v = DT_I4 \<or> hb_type v = DT_U4) \<and> a = sint (hb_LL v)"
  by (auto simp: il_val_def)

lemma il_val_CI8: "il_val v = Some (CI8 a) \<longleftrightarrow> (hb_type v = DT_I8 \<or> hb_type v = DT_U8) \<and> a = sint (hb_u8 v)"
  by (auto simp: il_val_def)

lemma sint_zero [simp]: "sint x = 0 \<longleftrightarrow> x = 0" for x :: "'a::len word"
  by (metis signed_word_eqI sint_0)

lemma IsZero_val: "il_val v = Some c \<Longrightarrow> IsZero env v = cli_is_zero c"
  by (cases c) (auto simp: il_val_CI4 il_val_CI8 IsZero_def)

lemma unat_of_sint: "0 \<le> sint x \<Longrightarrow> unat x = nat (sint x)" for x :: "'a::len word"
proof -
  assume "0 \<le> sint x"
  moreover have "sint x < 2 ^ LENGTH('a)"
  proof -
    have "(2 :: int) ^ (LENGTH('a) - Suc 0) \<le> 2 ^ LENGTH('a)" by (rule power_increasing) simp_all
    then show ?thesis using sint_less [of x] by linarith
  qed
  ultimately have "uint x = sint x" by (simp add: uint_sint take_bit_int_eq_self)
  then show ?thesis by (simp flip: nat_uint_eq)
qed

lemma sint_minus_one: "sint x = - 1 \<longleftrightarrow> x = - 1" for x :: "'a::len word"
  by (metis signed_word_eqI sint_n1)

lemma c_sdiv_defined:
  fixes x y :: "'a::len word"
  assumes "y \<noteq> 0" "\<not> (sint x = - (2 ^ (LENGTH('a) - Suc 0)) \<and> sint y = - 1)"
  shows "c_sdiv x y = Ret (word_of_int (sint x sdiv sint y))" "c_smod x y = Ret (word_of_int (sint x smod sint y))"
    "sint (word_of_int (sint x sdiv sint y) :: 'a word) = sint x sdiv sint y"
    "sint (word_of_int (sint x smod sint y) :: 'a word) = sint x smod sint y"
  using assms by (auto simp: c_sdiv_def c_smod_def sint_minus_one intro!: sint_quotients)

lemma put_Ret [simp]: "put4 l (Ret x) = Ret (Value (set_u4 x l))" "put8 l (Ret y) = Ret (Value (set_u8 y l))"
  by (simp_all add: put4_def put8_def)

lemmas numeric_defs = NumericAdd_def NumericSub_def NumericMul_def NumericDiv_def NumericDivUn_def
  NumericRem_def NumericRemUn_def NumericShl_def NumericShr_def NumericShrUn_def

text \<open>
  The interpreter keeps the signedness of the type a value was loaded with; the remainder and the
  shift to the right look at it.
\<close>

definition sign_matters :: "il_binop \<Rightarrow> bool" where
  "sign_matters op \<longleftrightarrow> op = B_REM \<or> op = B_SHR"

lemma binop4_refines:
  assumes l: "hb_type l = DT_I4 \<or> hb_type l = DT_U4" and r: "hb_type r = DT_I4 \<or> hb_type r = DT_U4"
    and sgn: "sign_matters op \<longrightarrow> hb_type l = DT_I4"
    and res: "cli_binop4 op (sint (hb_LL l)) (sint (hb_LL r)) = CVal c"
  shows "\<exists>v. exec_binop env op l r = Ret (Value v) \<and> il_val v = Some c"
proof -
  let ?a = "hb_LL l" and ?b = "hb_LL r"
  have d: "cli_divides op \<longrightarrow> ?b \<noteq> 0" and c: "c = CI4 (cli_arith 32 op (sint ?a) (sint ?b))"
    and def: "cli_defined 32 op (sint ?a) (sint ?b)"
    using res by (auto simp: cli_binop4_def split: if_splits)
  have z: "IsZero env r \<longleftrightarrow> ?b = 0" using r by (auto simp: IsZero_def)
  have sh: "cli_shifts op \<Longrightarrow> unat ?b = nat (sint ?b) \<and> nat (sint ?b) < 32"
    using def unat_of_sint [of ?b] by (auto simp: cli_defined_def)
  show ?thesis
    using l sgn d def sh unfolding c
    by (cases op; elim disjE)
      (auto simp: numeric_defs z cli_divides_def cli_shifts_def cli_defined_def sign_matters_def c_udiv_def c_umod_def
        c_shl_def c_shr_def c_sshr_def c_sdiv_defined cli_words)
qed

lemma binop8_refines:
  assumes l: "hb_type l = DT_I8 \<or> hb_type l = DT_U8"
    and r: "hb_type r \<in> (if cli_shifts op then {DT_I4, DT_U4} else {DT_I8, DT_U8})"
    and sgn: "sign_matters op \<longrightarrow> hb_type l = DT_I8"
    and res: "cli_binop8 op (sint (hb_u8 l)) (if cli_shifts op then sint (hb_LL r) else sint (hb_u8 r)) = CVal c"
  shows "\<exists>v. exec_binop env op l r = Ret (Value v) \<and> il_val v = Some c"
proof -
  let ?a = "hb_u8 l" and ?b = "hb_u8 r" and ?n = "hb_LL r"
  have d: "cli_divides op \<longrightarrow> ?b \<noteq> 0" and c: "c = CI8 (cli_arith 64 op (sint ?a) (if cli_shifts op then sint ?n else sint ?b))"
    and def: "cli_defined 64 op (sint ?a) (if cli_shifts op then sint ?n else sint ?b)"
    using res by (auto simp: cli_binop8_def cli_divides_def cli_shifts_def split: if_splits)
  have z: "cli_divides op \<Longrightarrow> IsZero env r \<longleftrightarrow> ?b = 0"
    using r by (auto simp: IsZero_def cli_divides_def cli_shifts_def)
  have sh: "cli_shifts op \<Longrightarrow> unat ?n = nat (sint ?n) \<and> nat (sint ?n) < 64"
    using def unat_of_sint [of ?n] by (auto simp: cli_defined_def)
  show ?thesis
    using l sgn d z def sh unfolding c
    by (cases op; elim disjE)
      (auto simp: numeric_defs cli_divides_def cli_shifts_def cli_defined_def sign_matters_def c_udiv_def c_umod_def
        c_shl_def c_shr_def c_sshr_def c_sdiv_defined u8_of_halves cli_words)
qed

lemma division_by_zero:
  assumes "cli_divides op" "IsZero env r"
  shows "exec_binop env op l r = Ret (Error CLR_E_DIVIDE_BY_ZERO)"
  using assms by (cases op) (simp_all add: cli_divides_def numeric_defs)

lemma binop_refines:
  assumes l: "il_val l = Some a" and r: "il_val r = Some b"
    and sgn: "sign_matters op \<longrightarrow> hb_type l = DT_I4 \<or> hb_type l = DT_I8"
  shows "cli_binop op a b = CVal c \<Longrightarrow> \<exists>v. exec_binop env op l r = Ret (Value v) \<and> il_val v = Some c"
    and "cli_binop op a b = CDivideByZero \<Longrightarrow> exec_binop env op l r = Ret (Error CLR_E_DIVIDE_BY_ZERO)"
proof -
  assume "cli_binop op a b = CVal c"
  with l r sgn show "\<exists>v. exec_binop env op l r = Ret (Value v) \<and> il_val v = Some c"
  proof (cases a; cases b)
    fix i j assume "a = CI4 i" "b = CI4 j"
    then show ?thesis using l r sgn \<open>cli_binop op a b = CVal c\<close>
      by (intro binop4_refines) (auto simp: il_val_CI4)
  qed (rule binop8_refines; auto simp: il_val_CI4 il_val_CI8 sign_matters_def split: if_splits)+
next
  assume "cli_binop op a b = CDivideByZero"
  then have "cli_divides op" "cli_is_zero b"
    by (cases a; cases b; auto simp: cli_binop4_def cli_binop8_def cli_shifts_def cli_divides_def split: if_splits)+
  then show "exec_binop env op l r = Ret (Error CLR_E_DIVIDE_BY_ZERO)"
    using IsZero_val [OF r] by (auto intro: division_by_zero)
qed

section \<open>Conversions and stores\<close>

lemma sint_narrow:
  fixes x :: u32
  shows "sint (ucast (ucast x :: u8) :: u32) = cli_u 8 (sint x)" "sint (scast (ucast x :: u8) :: u32) = cli_s 8 (sint x)"
    "sint (ucast (ucast x :: u16) :: u32) = cli_u 16 (sint x)" "sint (scast (ucast x :: u16) :: u32) = cli_s 16 (sint x)"
  by (rule bit_eqI; auto simp: bit_simps min_def)+

lemma sint_full: "signed_take_bit (LENGTH('a) - Suc 0) (sint x) = sint x" for x :: "'a::len word"
  using sint_greater_eq [of x] sint_less [of x] by (simp add: signed_take_bit_int_eq_self)

lemma Promote_val:
  "hb_type v = DT_BOOLEAN \<or> hb_type v = DT_U1 \<Longrightarrow> il_val (Promote v) = Some (CI4 (cli_u 8 (sint (hb_LL v))))"
  "hb_type v = DT_CHAR \<or> hb_type v = DT_U2 \<Longrightarrow> il_val (Promote v) = Some (CI4 (cli_u 16 (sint (hb_LL v))))"
  "hb_type v = DT_I1 \<Longrightarrow> il_val (Promote v) = Some (CI4 (cli_s 8 (sint (hb_LL v))))"
  "hb_type v = DT_I2 \<Longrightarrow> il_val (Promote v) = Some (CI4 (cli_s 16 (sint (hb_LL v))))"
  "hb_type v = DT_I4 \<or> hb_type v = DT_U4 \<Longrightarrow> il_val (Promote v) = Some (CI4 (cli_s 32 (sint (hb_LL v))))"
  "hb_type v = DT_I8 \<or> hb_type v = DT_U8 \<Longrightarrow> il_val (Promote v) = Some (CI8 (sint (hb_u8 v)))"
  using sint_full [of "hb_LL v"]
  by (auto simp: Promote_def il_val_def hb_u1_def hb_u2_def sint_narrow)

lemma signed_drop_push: "signed_drop_bit 32 (push_bit 32 (ucast x :: u64)) = scast (x :: u32)"
proof (rule bit_word_eqI)
  fix n
  show "bit (signed_drop_bit 32 (push_bit 32 (ucast x :: u64))) n = bit (scast x :: u64) n" if "n < LENGTH(64)"
    using that by (cases "n \<le> 31") (auto simp: bit_simps min_def)
qed

lemma sint_widen:
  fixes x :: u32
  shows "sint (scast x :: u64) = sint x" "sint (ucast x :: u64) = cli_u 32 (sint x)"
    "ucast (scast x :: u64) = x" "ucast (ucast x :: u64) = x"
  subgoal
    using sint_greater_eq [of x] sint_less [of x] by (simp add: signed_scast_eq signed_take_bit_int_eq_self)
  subgoal
  proof -
    have "uint x < 2 ^ 32" using unsigned_less [of x, where ?'a = int] by simp
    then have "signed_take_bit 63 (uint x) = uint x"
      by (intro signed_take_bit_int_eq_self order_trans [OF _ unsigned_greater_eq]) simp_all
    then show ?thesis using uint_sint [of x] by (simp add: signed_ucast_eq)
  qed
  subgoal
  proof (rule bit_word_eqI)
    fix n show "bit (ucast (scast x :: u64) :: u32) n = bit x n" if "n < LENGTH(32)"
      using that by (cases "n = 31") (auto simp: bit_simps min_def)
  qed
  subgoal by (rule bit_word_eqI) (auto simp: bit_simps)
  done

lemma sint_low: "sint (hb_LL v) = cli_s 32 (sint (hb_u8 v))"
  unfolding low_of_u8 [symmetric, of v] by (rule bit_eqI) (auto simp: bit_simps min_def simp del: low_of_u8)

lemma narrow_low: "cli_narrow t (sint (hb_LL v)) = cli_narrow t (sint (hb_u8 v))"
  by (cases t) (simp_all add: sint_low take_bit_signed_take_bit signed_take_bit_signed_take_bit)

lemma Promote_narrow:
  "cli_narrow (hb_type v) (sint (hb_LL v)) = Some a \<Longrightarrow> il_val (Promote v) = Some (CI4 a)"
  using Promote_val [of v] by (cases "hb_type v") auto

lemma extend_precision_fields:
  assumes "hb_type v = DT_I4 \<or> hb_type v = DT_U4"
  shows "hb_LL (extend_precision et v) = hb_LL v"
    "sint (hb_u8 (extend_precision et v)) =
      (if hb_type v = DT_I4 \<and> dt_signed et then sint (hb_LL v) else cli_u 32 (sint (hb_LL v)))"
  using assms by (auto simp: extend_precision_def Let_def dt_signed_def signed_drop_push sint_widen)

lemma conv_to_8:
  assumes "cli_conv et a = Some (CI8 c)" "il_val v = Some a" "et = DT_I8 \<longrightarrow> hb_type v \<noteq> DT_U4"
  shows "\<exists>w. Convert env et ov un v = Value w \<and> il_val w = Some (CI8 c)"
proof -
  have et: "et = DT_I8 \<or> et = DT_U8" using assms(1) by (cases et; cases a) auto
  show ?thesis
  proof (cases a)
    case (CI4 i)
    then have t: "hb_type v = DT_I4 \<or> hb_type v = DT_U4" and i: "i = sint (hb_LL v)"
      using assms(2) by (auto simp: il_val_CI4)
    have "Convert env et ov un v = Value ((extend_precision et v)\<lparr>hb_type := et\<rparr>)"
      using et t by (auto simp: Convert_def Convert_Internal_def Let_def SMALL_INTEGERS_def Promote_def)
    moreover have "il_val ((extend_precision et v)\<lparr>hb_type := et\<rparr>) = Some (CI8 c)"
      using et t i CI4 assms by (auto simp: extend_precision_fields dt_signed_def)
    ultimately show ?thesis by blast
  next
    case (CI8 i)
    then have t: "hb_type v = DT_I8 \<or> hb_type v = DT_U8" and i: "i = sint (hb_u8 v)"
      using assms(2) by (auto simp: il_val_CI8)
    have "Convert env et ov un v = Value (v\<lparr>hb_type := et\<rparr>)"
      using et t by (auto simp: Convert_def Convert_Internal_def Let_def SMALL_INTEGERS_def Promote_def)
    then show ?thesis using et CI8 i assms(1) by auto
  qed
qed

lemma conv_to_4:
  assumes "cli_conv et a = Some (CI4 c)" "il_val v = Some a"
  shows "\<exists>w. Convert env et ov un v = Value w \<and> il_val w = Some (CI4 c)"
proof -
  let ?v = "if hb_type v \<in> SMALL_INTEGERS then extend_precision et v else v"
  have n: "cli_narrow et (sint (hb_LL v)) = Some c"
  proof (cases a)
    case (CI4 i)
    then show ?thesis using assms by (cases et) (auto simp: il_val_CI4)
  next
    case (CI8 i)
    then have "cli_narrow et (sint (hb_u8 v)) = Some c" using assms by (cases et) (auto simp: il_val_CI8)
    then show ?thesis by (simp only: narrow_low)
  qed
  then have et: "et \<in> SMALL_INTEGERS" by (cases et) (auto simp: SMALL_INTEGERS_def)
  have t: "hb_type v \<in> {DT_I4, DT_U4, DT_I8, DT_U8}"
    using assms(2) by (auto simp: il_val_def split: if_splits)
  then have "hb_LL ?v = hb_LL v" by (auto simp: SMALL_INTEGERS_def extend_precision_fields)
  then have "il_val (Promote (?v\<lparr>hb_type := et\<rparr>)) = Some (CI4 c)" using n by (intro Promote_narrow) simp
  moreover have "Convert env et ov un v = Value (Promote (?v\<lparr>hb_type := et\<rparr>))"
    using et t by (auto simp: Convert_def Convert_Internal_def Let_def SMALL_INTEGERS_def)
  ultimately show ?thesis by blast
qed

lemma convert_refines:
  assumes "cli_conv et a = Some c" "il_val v = Some a" "et = DT_I8 \<longrightarrow> hb_type v \<noteq> DT_U4"
  shows "\<exists>w. Convert env et ov un v = Value w \<and> il_val w = Some c"
  using assms conv_to_4 conv_to_8 by (cases c) blast+

text \<open>An argument or a local: its declared type and the value that a load gives.\<close>

definition il_slot :: "hb \<Rightarrow> (clr_type \<times> cli_val) option" where
  "il_slot v =
     (if hb_flags v AND HB_Pinned = 0 \<and> hb_type v \<in> SMALL_INTEGERS \<union> {DT_I8, DT_U8}
      then map_option (Pair (hb_type v)) (il_val (Promote v)) else None)"

lemma store_refines:
  assumes s: "il_slot dst = Some (t, old)" and v: "il_val v = Some a" and c: "cli_store t a = Some c"
  shows "il_slot (AssignAndPreserveType v dst) = Some (t, c)"
proof -
  let ?d = "dst\<lparr>hb_LL := hb_LL v, hb_HH := hb_HH v\<rparr>"
  have t: "hb_type dst = t" "t \<in> SMALL_INTEGERS \<union> {DT_I8, DT_U8}" "hb_flags dst AND HB_Pinned = 0"
    using s by (auto simp: il_slot_def split: if_splits)
  have d: "AssignAndPreserveType v dst = ?d"
    using t by (auto simp: AssignAndPreserveType_def LAST_PRIMITIVE_TO_PRESERVE_def SMALL_INTEGERS_def)
  have u: "hb_u8 ?d = hb_u8 v" by (simp add: hb_u8_def)
  have "il_val (Promote ?d) = Some c"
  proof (cases c)
    case (CI4 i)
    then have "cli_narrow t (sint (hb_LL v)) = Some i"
      using c v by (cases a) (auto simp: il_val_CI4 split: if_splits)
    then show ?thesis using CI4 t by (auto intro: Promote_narrow)
  next
    case (CI8 i)
    then have "a = CI8 i" "t = DT_I8 \<or> t = DT_U8" using c by (cases a; auto split: if_splits)+
    then show ?thesis using CI8 v t u by (subst Promote_val) (auto simp: il_val_CI8)
  qed
  then show ?thesis using t by (simp add: d il_slot_def)
qed

lemma load_refines: "il_slot v = Some (t, c) \<Longrightarrow> il_val (Promote v) = Some c \<and> \<not> IsAValueType env v"
  by (auto simp: il_slot_def IsAValueType_def SMALL_INTEGERS_def split: if_splits)

lemma cond_three_way: "cond_holds c (three_way a b) =
    (case c of C_EQ \<Rightarrow> a = b | C_GE \<Rightarrow> a \<ge> b | C_GT \<Rightarrow> a > b | C_LE \<Rightarrow> a \<le> b | C_LT \<Rightarrow> a < b | C_NE \<Rightarrow> a \<noteq> b)"
  by (cases c) (auto simp: three_way_def)

lemma as_integer_holds:
  "cond_holds c (three_way (as_integer fSigned x) (as_integer fSigned y)) =
     cli_holds LENGTH('a) c fSigned (sint x) (sint y)" for x y :: "'a::len word"
  by (simp only: cond_three_way as_integer_def cli_holds_def uint_sint Let_def)

lemma Compare_Values_numeric:
  "hb_type l \<in> {DT_I4, DT_U4} \<Longrightarrow> hb_type r \<in> {DT_I4, DT_U4} \<Longrightarrow>
     Compare_Values env fSigned l r = Some (CompareValues_Numeric l r fSigned 4)"
  "hb_type l \<in> {DT_I8, DT_U8} \<Longrightarrow> hb_type r \<in> {DT_I8, DT_U8} \<Longrightarrow>
     Compare_Values env fSigned l r = Some (CompareValues_Numeric l r fSigned 8)"
  unfolding Compare_Values_def Let_def dt_numeric_def by (elim insertE emptyE; simp)+

lemma compare_refines:
  assumes "il_val l = Some a" "il_val r = Some b" "cli_compare c fSigned a b = Some res"
  shows "\<exists>k. Compare_Values env fSigned l r = Some k \<and> cond_holds c k = res"
proof (cases a)
  case (CI4 i)
  then obtain j where b: "b = CI4 j" using assms(3) by (cases b) auto
  have "Compare_Values env fSigned l r = Some (CompareValues_Numeric l r fSigned 4)"
    using assms(1,2) CI4 b by (intro Compare_Values_numeric) (simp_all add: il_val_CI4)
  moreover have "cond_holds c (CompareValues_Numeric l r fSigned 4) = res"
    using assms CI4 b as_integer_holds [of c fSigned "hb_LL l" "hb_LL r"]
    by (simp add: il_val_CI4 CompareValues_Numeric_def)
  ultimately show ?thesis by blast
next
  case (CI8 i)
  then obtain j where b: "b = CI8 j" using assms(3) by (cases b) auto
  have "Compare_Values env fSigned l r = Some (CompareValues_Numeric l r fSigned 8)"
    using assms(1,2) CI8 b by (intro Compare_Values_numeric) (simp_all add: il_val_CI8)
  moreover have "cond_holds c (CompareValues_Numeric l r fSigned 8) = res"
    using assms CI8 b as_integer_holds [of c fSigned "hb_u8 l" "hb_u8 r"]
    by (simp add: il_val_CI8 CompareValues_Numeric_def)
  ultimately show ?thesis by blast
qed

section \<open>Frames\<close>

definition il_sim :: "il_frame \<Rightarrow> cli_state \<Rightarrow> bool" where
  "il_sim fr s \<longleftrightarrow>
     f_pos fr \<le> length (f_eval fr) \<and> c_room s = length (f_eval fr) - f_pos fr \<and> c_ip s = f_ip fr \<and>
     map il_val (rev (take (f_pos fr) (f_eval fr))) = map Some (c_stack s) \<and>
     map il_slot (f_args fr) = map Some (c_args s) \<and> map il_slot (f_locals fr) = map Some (c_locals s)"

text \<open>What the interpreter yields is what the machine says.\<close>

definition outcome_matches :: "il_outcome c_result \<Rightarrow> cli_outcome \<Rightarrow> bool" where
  "outcome_matches r out =
     (case out of
        CliRun s \<Rightarrow> \<exists>fr. r = Ret (Running fr) \<and> il_sim fr s
      | CliDivideByZero \<Rightarrow> \<exists>fr. r = Ret (Failed CLR_E_DIVIDE_BY_ZERO fr))"

lemma matches_Running [intro]: "r = Ret (Running fr) \<Longrightarrow> il_sim fr s \<Longrightarrow> outcome_matches r (CliRun s)"
  by (auto simp: outcome_matches_def)

lemma sim_slots:
  assumes "il_sim fr s"
  shows "length (f_args fr) = length (c_args s)" "length (f_locals fr) = length (c_locals s)"
    "n < length (c_args s) \<Longrightarrow> il_slot (f_args fr ! n) = Some (c_args s ! n)"
    "n < length (c_locals s) \<Longrightarrow> il_slot (f_locals fr ! n) = Some (c_locals s ! n)"
proof -
  have a: "map il_slot (f_args fr) = map Some (c_args s)" and l: "map il_slot (f_locals fr) = map Some (c_locals s)"
    using assms by (simp_all add: il_sim_def)
  show len: "length (f_args fr) = length (c_args s)" "length (f_locals fr) = length (c_locals s)"
    using map_eq_imp_length_eq [OF a] map_eq_imp_length_eq [OF l] by simp_all
  show "n < length (c_args s) \<Longrightarrow> il_slot (f_args fr ! n) = Some (c_args s ! n)"
    using arg_cong [OF a, of "\<lambda>xs. xs ! n"] len by simp
  show "n < length (c_locals s) \<Longrightarrow> il_slot (f_locals fr ! n) = Some (c_locals s ! n)"
    using arg_cong [OF l, of "\<lambda>xs. xs ! n"] len by simp
qed

lemma sim_push:
  assumes "il_sim fr s" "c_room s \<noteq> 0" "\<And>slot. il_val (f slot) = Some c"
  shows "\<exists>fr'. il_push f fr = Ret fr' \<and> il_sim fr' (s\<lparr>c_stack := c # c_stack s, c_room := c_room s - 1\<rparr>)"
proof -
  have "f_pos fr < length (f_eval fr)" using assms(1,2) by (auto simp: il_sim_def)
  then show ?thesis
    using assms by (auto simp: il_push_def il_sim_def c_index_def take_Suc_conv_app_nth)
qed

lemma push_matches:
  assumes "il_sim fr s" "cli_push c s = Some out" "\<And>slot. il_val (f slot) = Some c"
  shows "outcome_matches (push_value f fr) out"
  using assms sim_push [of fr s f c]
  by (fastforce simp: cli_push_def push_value_def split: if_splits)

lemma sim_pop:
  assumes sim: "il_sim fr s" and pop: "cli_pop s = Some (a, s')"
  obtains v where "il_pop fr = Ret (v, fr\<lparr>f_pos := f_pos fr - 1\<rparr>)" "v = f_eval fr ! (f_pos fr - 1)"
    "il_val v = Some a" "il_sim (fr\<lparr>f_pos := f_pos fr - 1\<rparr>) s'"
proof -
  obtain as where as: "c_stack s = a # as" and s': "s' = s\<lparr>c_stack := as, c_room := c_room s + 1\<rparr>"
    using pop by (auto simp: cli_pop_def split: list.splits)
  obtain p where p: "f_pos fr = Suc p" using sim as by (cases "f_pos fr") (auto simp: il_sim_def)
  then have lt: "p < length (f_eval fr)" using sim by (simp add: il_sim_def)
  show thesis
    by (rule that [of "f_eval fr ! p"])
      (use sim as s' p lt in \<open>auto simp: il_sim_def il_pop_def c_index_def take_Suc_conv_app_nth\<close>)
qed

lemma sim_top:
  assumes sim: "il_sim fr s" and as: "c_stack s = a # as"
  obtains v where "il_top fr = Ret v" "v = f_eval fr ! (f_pos fr - 1)" "il_val v = Some a"
    "\<And>w c. il_val w = Some c \<Longrightarrow> il_sim (il_set_top w fr) (s\<lparr>c_stack := c # as\<rparr>)"
proof -
  obtain p where p: "f_pos fr = Suc p" using sim as by (cases "f_pos fr") (auto simp: il_sim_def)
  then have lt: "p < length (f_eval fr)" using sim by (simp add: il_sim_def)
  show thesis
    by (rule that [of "f_eval fr ! p"])
      (use sim as p lt in \<open>auto simp: il_sim_def il_top_def il_set_top_def c_index_def take_Suc_conv_app_nth\<close>)
qed

lemma unary_matches:
  assumes sim: "il_sim fr s" and out: "cli_top g s = Some out"
    and f: "\<And>v a c. v = f_eval fr ! (f_pos fr - 1) \<Longrightarrow> il_val v = Some a \<Longrightarrow> g a = Some c \<Longrightarrow>
      \<exists>w. f v = Ret (Value w) \<and> il_val w = Some c"
  shows "outcome_matches (il_unary f fr) out"
proof -
  obtain a as c where as: "c_stack s = a # as" and c: "g a = Some c" and out: "out = CliRun (s\<lparr>c_stack := c # as\<rparr>)"
    using out by (auto simp: cli_top_def split: list.splits)
  obtain v where v: "il_top fr = Ret v" "v = f_eval fr ! (f_pos fr - 1)" "il_val v = Some a"
    and top: "\<And>w c. il_val w = Some c \<Longrightarrow> il_sim (il_set_top w fr) (s\<lparr>c_stack := c # as\<rparr>)"
    using sim_top [OF sim as] by blast
  obtain w where "f v = Ret (Value w)" "il_val w = Some c" using f [OF v(2,3) c] by blast
  then show ?thesis using v top by (auto simp: il_unary_def out)
qed

lemma load_matches:
  assumes sim: "il_sim fr s" and v: "il_slot v = Some (t, c)" and out: "cli_push c s = Some out"
  shows "outcome_matches (Execute_LoadAndPromote env v fr) out"
proof -
  have r: "c_room s \<noteq> 0" and o: "out = CliRun (s\<lparr>c_stack := c # c_stack s, c_room := c_room s - 1\<rparr>)"
    using out by (simp_all add: cli_push_def split: if_splits)
  have p: "il_val (Promote v) = Some c" "\<not> IsAValueType env v" using load_refines [OF v] by auto
  then show ?thesis using sim_push [OF sim r, of "\<lambda>_. Promote v" c] by (auto simp: Execute_LoadAndPromote_def o)
qed

lemma stored_slot:
  assumes "cli_stored xs n a = Some ys" "map il_slot hs = map Some xs" "il_val v = Some a"
  shows "map il_slot (hs[n := AssignAndPreserveType v (hs ! n)]) = map Some ys" "n < length hs"
    "hb_flags (hs ! n) AND HB_Pinned = 0"
proof -
  have len: "length hs = length xs" using map_eq_imp_length_eq [OF assms(2)] by simp
  obtain c where n: "n < length xs" and c: "cli_store (fst (xs ! n)) a = Some c"
    and ys: "ys = xs[n := (fst (xs ! n), c)]"
    using assms(1) by (auto simp: cli_stored_def split: if_splits)
  show "n < length hs" using n len by simp
  have slot: "il_slot (hs ! n) = Some (fst (xs ! n), snd (xs ! n))"
    using arg_cong [OF assms(2), of "\<lambda>xs. xs ! n"] n len by simp
  then show "hb_flags (hs ! n) AND HB_Pinned = 0" by (auto simp: il_slot_def split: if_splits)
  show "map il_slot (hs[n := AssignAndPreserveType v (hs ! n)]) = map Some ys"
    using assms(2) store_refines [OF slot assms(3) c] by (simp add: map_update ys)
qed

lemma stloc_matches:
  assumes sim: "il_sim fr s" and out: "cli_exec code (I_STLOC n) s = Some out"
  shows "outcome_matches (exec_stloc n fr) out"
proof -
  obtain a s' ys where pop: "cli_pop s = Some (a, s')" and ys: "cli_stored (c_locals s') n a = Some ys"
    and o: "out = CliRun (s'\<lparr>c_locals := ys\<rparr>)"
    using out by (auto simp: bind_eq_Some_conv)
  obtain v where v: "il_pop fr = Ret (v, fr\<lparr>f_pos := f_pos fr - 1\<rparr>)" "il_val v = Some a"
    "il_sim (fr\<lparr>f_pos := f_pos fr - 1\<rparr>) s'" using sim_pop [OF sim pop] by metis
  have "map il_slot (f_locals fr) = map Some (c_locals s')" using v(3) by (simp add: il_sim_def)
  note st = stored_slot [OF ys this v(2)]
  show ?thesis
    using v st by (auto simp: exec_stloc_def c_index_def o il_sim_def)
qed

lemma starg_matches:
  assumes sim: "il_sim fr s" and out: "cli_exec code (I_STARG n) s = Some out"
  shows "outcome_matches (exec_starg n fr) out"
proof -
  obtain a s' ys where pop: "cli_pop s = Some (a, s')" and ys: "cli_stored (c_args s') n a = Some ys"
    and o: "out = CliRun (s'\<lparr>c_args := ys\<rparr>)"
    using out by (auto simp: bind_eq_Some_conv)
  obtain v where v: "il_pop fr = Ret (v, fr\<lparr>f_pos := f_pos fr - 1\<rparr>)" "il_val v = Some a"
    "il_sim (fr\<lparr>f_pos := f_pos fr - 1\<rparr>) s'" using sim_pop [OF sim pop] by metis
  have "map il_slot (f_args fr) = map Some (c_args s')" using v(3) by (simp add: il_sim_def)
  note st = stored_slot [OF ys this v(2)]
  show ?thesis
    using v st by (auto simp: exec_starg_def c_index_def o il_sim_def)
qed

lemma jump_matches:
  "il_sim fr s \<Longrightarrow> cli_jump b offset s = Some out \<Longrightarrow> outcome_matches (Ret (Execute_BR False offset b fr)) out"
  by (auto simp: cli_jump_def Execute_BR_def Let_def il_sim_def outcome_matches_def)

text \<open>The two operands of an instruction, the right one first.\<close>

lemma sim_pop2:
  assumes sim: "il_sim fr s" and pop: "cli_pop s = Some (b, s1)" "cli_pop s1 = Some (a, s2)"
  obtains l r fr1 fr2 where "il_pop fr = Ret (r, fr1)" "il_pop fr1 = Ret (l, fr2)" "il_top fr1 = Ret l"
    "l = f_eval fr ! (f_pos fr - 2)" "il_val l = Some a" "il_val r = Some b" "il_sim fr1 s1" "il_sim fr2 s2"
    "\<And>w c. il_val w = Some c \<Longrightarrow>
      il_sim (il_set_top w fr1) (s2\<lparr>c_stack := c # c_stack s2, c_room := c_room s2 - 1\<rparr>)"
proof -
  let ?fr1 = "fr\<lparr>f_pos := f_pos fr - 1\<rparr>"
  obtain r where r: "il_pop fr = Ret (r, ?fr1)" "il_val r = Some b" "il_sim ?fr1 s1"
    using sim_pop [OF sim pop(1)] by metis
  obtain l where l: "il_pop ?fr1 = Ret (l, ?fr1\<lparr>f_pos := f_pos ?fr1 - 1\<rparr>)" "l = f_eval ?fr1 ! (f_pos ?fr1 - 1)"
    "il_val l = Some a" "il_sim (?fr1\<lparr>f_pos := f_pos ?fr1 - 1\<rparr>) s2"
    using sim_pop [OF r(3) pop(2)] by metis
  obtain as where as: "c_stack s1 = a # as" "s2 = s1\<lparr>c_stack := as, c_room := c_room s1 + 1\<rparr>"
    using pop(2) by (auto simp: cli_pop_def split: list.splits)
  obtain l' where l': "il_top ?fr1 = Ret l'" "l' = f_eval ?fr1 ! (f_pos ?fr1 - 1)"
    "\<And>w c. il_val w = Some c \<Longrightarrow> il_sim (il_set_top w ?fr1) (s1\<lparr>c_stack := c # as\<rparr>)"
    using sim_top [OF r(3) as(1)] by metis
  have "f_pos fr - 1 - 1 = f_pos fr - 2" by simp
  then show thesis using that [OF r(1) l(1)] r l l' as by simp
qed

lemma compare_matches:
  assumes sim: "il_sim fr s" and out: "cli_exec code (I_COMPARE c fSigned) s = Some out"
  shows "outcome_matches (exec_compare env c fSigned fr) out"
proof -
  obtain b s1 a s2 res where pop: "cli_pop s = Some (b, s1)" "cli_pop s1 = Some (a, s2)"
    and res: "cli_compare c fSigned a b = Some res" and o: "cli_push (CI4 (if res then 1 else 0)) s2 = Some out"
    using out by (auto simp: bind_eq_Some_conv)
  obtain l r fr1 fr2 where p: "il_pop fr = Ret (r, fr1)" "il_top fr1 = Ret l"
    "il_val l = Some a" "il_val r = Some b"
    and top: "\<And>w c. il_val w = Some c \<Longrightarrow>
      il_sim (il_set_top w fr1) (s2\<lparr>c_stack := c # c_stack s2, c_room := c_room s2 - 1\<rparr>)"
    using sim_pop2 [OF sim pop] by metis
  obtain k where k: "Compare_Values env fSigned l r = Some k" "cond_holds c k = res"
    using compare_refines [OF p(3,4) res] by blast
  have w: "il_val (SetInteger32 (if res then 1 else 0) l) = Some (CI4 (if res then 1 else 0))"
    by (subst il_val_4) (simp_all add: SetInteger32_def)
  show ?thesis
    using p k o top [OF w] by (auto simp: exec_compare_def cli_push_def split: if_splits)
qed

lemma branch_matches:
  assumes sim: "il_sim fr s" and out: "cli_exec code (I_BRANCH br offset) s = Some out"
  shows "outcome_matches (exec_branch env False br offset fr) out"
proof (cases br)
  case BR_ALWAYS
  then show ?thesis using jump_matches [OF sim] out by simp
next
  case (BR_ZERO z)
  then obtain a s' where pop: "cli_pop s = Some (a, s')" and o: "cli_jump (cli_is_zero a = z) offset s' = Some out"
    using out by (auto simp: bind_eq_Some_conv)
  obtain v fr' where v: "il_pop fr = Ret (v, fr')" "il_val v = Some a" "il_sim fr' s'"
    using sim_pop [OF sim pop] by metis
  then show ?thesis using jump_matches [OF v(3) o] by (simp add: BR_ZERO IsZero_val [OF v(2)])
next
  case (BR_CMP c fSigned)
  then obtain b s1 a s2 res where pop: "cli_pop s = Some (b, s1)" "cli_pop s1 = Some (a, s2)"
    and res: "cli_compare c fSigned a b = Some res" and o: "cli_jump res offset s2 = Some out"
    using out by (auto simp: bind_eq_Some_conv)
  obtain l r fr1 fr2 where p: "il_pop fr = Ret (r, fr1)" "il_pop fr1 = Ret (l, fr2)"
    "il_val l = Some a" "il_val r = Some b" "il_sim fr2 s2"
    using sim_pop2 [OF sim pop] by metis
  obtain k where k: "Compare_Values env fSigned l r = Some k" "cond_holds c k = res"
    using compare_refines [OF p(3,4) res] by blast
  then show ?thesis using p jump_matches [OF p(5) o] by (simp add: BR_CMP)
qed

lemma binary_matches:
  assumes sim: "il_sim fr s" and out: "cli_exec code (I_BINOP op) s = Some out"
    and sgn: "sign_matters op \<longrightarrow> hb_type (f_eval fr ! (f_pos fr - 2)) \<in> {DT_I4, DT_I8}"
  shows "outcome_matches (il_binary (exec_binop env op) fr) out"
proof -
  obtain b s1 a s2 where pop: "cli_pop s = Some (b, s1)" "cli_pop s1 = Some (a, s2)"
    and o: "(case cli_binop op a b of CVal v \<Rightarrow> cli_push v s2 | CDivideByZero \<Rightarrow> Some CliDivideByZero
      | CUndefined \<Rightarrow> None) = Some out"
    using out by (auto simp: bind_eq_Some_conv)
  obtain l r fr1 fr2 where p: "il_pop fr = Ret (r, fr1)" "il_top fr1 = Ret l"
    "l = f_eval fr ! (f_pos fr - 2)" "il_val l = Some a" "il_val r = Some b"
    and top: "\<And>w c. il_val w = Some c \<Longrightarrow>
      il_sim (il_set_top w fr1) (s2\<lparr>c_stack := c # c_stack s2, c_room := c_room s2 - 1\<rparr>)"
    using sim_pop2 [OF sim pop] by metis
  have "sign_matters op \<longrightarrow> hb_type l = DT_I4 \<or> hb_type l = DT_I8" using sgn p(3) by simp
  note b = binop_refines [OF p(4,5) this]
  show ?thesis
  proof (cases "cli_binop op a b")
    case (CVal c)
    then obtain w where w: "exec_binop env op l r = Ret (Value w)" "il_val w = Some c" using b(1) by blast
    then show ?thesis
      using p(1,2) o CVal top [OF w(2)] by (auto simp: il_binary_def il_unary_def cli_push_def split: if_splits)
  next
    case CDivideByZero
    then show ?thesis
      using p(1,2) o b(2) by (auto simp: il_binary_def il_unary_def outcome_matches_def)
  next
    case CUndefined
    then show ?thesis using o by simp
  qed
qed

lemma switch_matches:
  assumes sim: "il_sim fr s" and out: "cli_exec code (I_SWITCH n) s = Some out"
  shows "outcome_matches (exec_switch code n fr) out"
proof -
  obtain a s' where a: "cli_pop s = Some (a, s')" using out by (auto simp: bind_eq_Some_conv)
  then obtain i where "a = CI4 i" using out by (cases a) auto
  then have pop: "cli_pop s = Some (CI4 i, s')" using a by simp
  obtain v fr' where v: "il_pop fr = Ret (v, fr')" "il_val v = Some (CI4 i)" and sim': "il_sim fr' s'"
    using sim_pop [OF sim pop] by metis
  let ?k = "int (unat (hb_LL v))"
  have k: "cli_u 32 i = ?k" using v(2) uint_sint [of "hb_LL v"] by (simp add: il_val_CI4)
  note [simp del] = of_nat_unat
  have ip: "c_ip s' = f_ip fr'" using sim' by (simp add: il_sim_def)
  show ?thesis
  proof (cases "unat (hb_LL v) < n")
    case True
    then obtain offset where "FETCH_ARG_INT16 code (f_ip fr' + ?k * 2) = Ret offset"
      "out = CliRun (s'\<lparr>c_ip := c_ip s' + (2 * int n + offset)\<rparr>)"
      using out pop k ip by (auto simp: cli_jump_def mult.commute split: sum.splits)
    then show ?thesis using True v(1) sim'
      by (auto simp: exec_switch_def Let_def il_sim_def outcome_matches_def)
  next
    case False
    then show ?thesis using out pop k v(1) sim'
      by (auto simp: exec_switch_def Let_def il_sim_def outcome_matches_def cli_jump_def)
  qed
qed

text \<open>The operands whose type the interpreter looks at although the machine does not.\<close>

fun signed_operand :: "il_instr \<Rightarrow> il_frame \<Rightarrow> bool" where
  "signed_operand (I_BINOP op) fr \<longleftrightarrow>
     (sign_matters op \<longrightarrow> hb_type (f_eval fr ! (f_pos fr - 2)) \<in> {DT_I4, DT_I8})"
| "signed_operand (I_CONV et _ _) fr \<longleftrightarrow> (et = DT_I8 \<longrightarrow> hb_type (f_eval fr ! (f_pos fr - 1)) \<noteq> DT_U4)"
| "signed_operand (I_CONV_NATIVE et _ _) fr \<longleftrightarrow> (et = DT_I8 \<longrightarrow> hb_type (f_eval fr ! (f_pos fr - 1)) \<noteq> DT_U4)"
| "signed_operand _ fr \<longleftrightarrow> True"

lemma unary_matches_Value:
  assumes "il_sim fr s" "cli_top g s = Some out"
    "\<And>v a c. v = f_eval fr ! (f_pos fr - 1) \<Longrightarrow> il_val v = Some a \<Longrightarrow> g a = Some c \<Longrightarrow> il_val (f v) = Some c"
  shows "outcome_matches (il_unary (\<lambda>v. Ret (Value (f v))) fr) out"
  using assms by (intro unary_matches [of fr s g]) auto

lemma conv_matches:
  assumes sim: "il_sim fr s" and out: "cli_top (cli_conv et) s = Some out"
    and sgn: "et = DT_I8 \<longrightarrow> hb_type (f_eval fr ! (f_pos fr - 1)) \<noteq> DT_U4"
  shows "outcome_matches (il_unary (\<lambda>v. Ret (Convert env et ov un v)) fr) out"
    "outcome_matches (il_unary (\<lambda>v. if hb_type v \<in> {DT_BYREF, DT_ARRAY_BYREF} then Ret (Value v)
       else Ret (Convert env et ov un v)) fr) out"
proof -
  have c: "\<exists>w. Convert env et ov un v = Value w \<and> il_val w = Some c \<and> hb_type v \<notin> {DT_BYREF, DT_ARRAY_BYREF}"
    if "v = f_eval fr ! (f_pos fr - 1)" "il_val v = Some a" "cli_conv et a = Some c" for v a c
  proof -
    have "hb_type v \<notin> {DT_BYREF, DT_ARRAY_BYREF}" using that(2) by (auto simp: il_val_def)
    then show ?thesis using convert_refines [OF that(3,2), of env ov un] sgn that(1) by blast
  qed
  show "outcome_matches (il_unary (\<lambda>v. Ret (Convert env et ov un v)) fr) out"
    by (rule unary_matches [OF sim out]) (use c in force)
  show "outcome_matches (il_unary (\<lambda>v. if hb_type v \<in> {DT_BYREF, DT_ARRAY_BYREF} then Ret (Value v)
       else Ret (Convert env et ov un v)) fr) out"
    by (rule unary_matches [OF sim out]) (use c in force)
qed

lemma neg_refines: "il_val v = Some a \<Longrightarrow>
    \<exists>w. NumericNeg env v = Ret (Value w) \<and> il_val w = Some (cli_unary (\<lambda>w a. cli_s w (- a)) a)"
  by (cases a) (auto simp: il_val_CI4 il_val_CI8 NumericNeg_def cli_words)

lemma not_refines: "il_val v = Some a \<Longrightarrow>
    il_val (v\<lparr>hb_LL := NOT (hb_LL v), hb_HH := NOT (hb_HH v)\<rparr>) = Some (cli_unary (\<lambda>w a. - a - 1) a)"
  by (cases a) (auto simp: il_val_CI4 il_val_CI8 u8_of_halves cli_words)

theorem exec_matches:
  assumes sim: "il_sim fr s" and sgn: "signed_operand i fr" and out: "cli_exec code i s = Some out"
  shows "outcome_matches (exec_instr env code False i fr) out"
proof (cases i)
  case (I_LDARG n)
  then have n: "n < length (c_args s)" "cli_push (snd (c_args s ! n)) s = Some out"
    using out by (auto simp: cli_load_def split: if_splits)
  have v: "il_slot (f_args fr ! n) = Some (fst (c_args s ! n), snd (c_args s ! n))" using sim_slots(3) [OF sim n(1)] by simp
  show ?thesis using load_matches [OF sim v n(2)] n(1) sim_slots(1) [OF sim] by (simp add: I_LDARG c_index_def)
next
  case (I_LDLOC n)
  then have n: "n < length (c_locals s)" "cli_push (snd (c_locals s ! n)) s = Some out"
    using out by (auto simp: cli_load_def split: if_splits)
  have v: "il_slot (f_locals fr ! n) = Some (fst (c_locals s ! n), snd (c_locals s ! n))" using sim_slots(4) [OF sim n(1)] by simp
  show ?thesis using load_matches [OF sim v n(2)] n(1) sim_slots(2) [OF sim] by (simp add: I_LDLOC c_index_def)
next
  case (I_LDC_I4 x)
  then show ?thesis using out by (auto intro!: push_matches [OF sim] simp: SetInteger32_def)
next
  case (I_LDC_I8 x)
  then show ?thesis using out by (auto intro!: push_matches [OF sim] simp: SetInteger64_def)
next
  case I_DUP
  then obtain a as where as: "c_stack s = a # as" and o: "cli_push a s = Some out"
    using out by (auto split: list.splits)
  obtain v where "il_top fr = Ret v" "il_val v = Some a" using sim_top [OF sim as] by metis
  then show ?thesis using push_matches [OF sim o] by (simp add: I_DUP)
next
  case I_POP
  then obtain a s' where pop: "cli_pop s = Some (a, s')" and o: "out = CliRun s'" using out by auto
  obtain v fr' where "il_pop fr = Ret (v, fr')" "il_sim fr' s'" using sim_pop [OF sim pop] by metis
  then show ?thesis by (auto simp: I_POP o)
next
  case I_NEG
  then have "cli_top (\<lambda>v. Some (cli_unary (\<lambda>w a. cli_s w (- a)) v)) s = Some out" using out by simp
  then show ?thesis unfolding I_NEG exec_instr.simps
    by (rule unary_matches [OF sim]) (use neg_refines in auto)
next
  case I_NOT
  then have "cli_top (\<lambda>v. Some (cli_unary (\<lambda>w a. - a - 1) v)) s = Some out" using out by simp
  then show ?thesis unfolding I_NOT exec_instr.simps
    by (rule unary_matches_Value [OF sim]) (use not_refines in auto)
next
  case (I_CONV et ov un)
  then show ?thesis using conv_matches(1) [OF sim, of et out] out sgn by simp
next
  case (I_CONV_NATIVE et ov un)
  then show ?thesis using conv_matches(2) [OF sim, of et out] out sgn by simp
next
  case I_NOTHING
  then show ?thesis using out sim by (auto simp: outcome_matches_def)
qed (use out sgn stloc_matches [OF sim] starg_matches [OF sim] branch_matches [OF sim] switch_matches [OF sim]
      binary_matches [OF sim] compare_matches [OF sim] in \<open>simp_all\<close>)

end
