(* ===== verification/NF_ILRun.thy ===== *)
theory NF_ILRun
  imports NF_ILProps
begin

text \<open>
  Whole runs of the interpreter: they follow the reference machine, an interruption at the end of the
  time slice changes nothing, and where a run departs from the machine.
\<close>

section \<open>Runs follow the machine\<close>

fun il_steps :: "il_env \<Rightarrow> u8 list \<Rightarrow> nat \<Rightarrow> il_frame \<Rightarrow> il_outcome c_result" where
  "il_steps env code 0 fr = Ret (Running fr)"
| "il_steps env code (Suc n) fr =
     (case il_step env code False fr of
        Inl e \<Rightarrow> Inl e
      | Inr out \<Rightarrow> (case out of Running fr' \<Rightarrow> il_steps env code n fr' | _ \<Rightarrow> Ret out))"

definition step_signed :: "u8 list \<Rightarrow> il_frame \<Rightarrow> bool" where
  "step_signed code fr =
     (case decode code (f_ip fr) of Inl e \<Rightarrow> True | Inr r \<Rightarrow> signed_operand (fst r) (fr\<lparr>f_ip := snd r\<rparr>))"

text \<open>Every instruction of a run finds its operand with a sign where it looks at it.\<close>

fun run_signed :: "il_env \<Rightarrow> u8 list \<Rightarrow> nat \<Rightarrow> il_frame \<Rightarrow> bool" where
  "run_signed env code 0 fr \<longleftrightarrow> True"
| "run_signed env code (Suc n) fr \<longleftrightarrow> step_signed code fr \<and>
     (case il_step env code False fr of
        Inr (Running fr') \<Rightarrow> run_signed env code n fr'
      | _ \<Rightarrow> True)"

lemma step_matches:
  assumes sim: "il_sim fr s" and sgn: "step_signed code fr" and out: "cli_step code s = Some out"
  shows "outcome_matches (il_step env code False fr) out"
proof -
  have ip: "c_ip s = f_ip fr" using sim by (simp add: il_sim_def)
  obtain i p where d: "decode code (f_ip fr) = Ret (i, p)" and o: "cli_exec code i (s\<lparr>c_ip := p\<rparr>) = Some out"
    using out ip by (auto simp: cli_step_def split: sum.splits)
  have "il_sim (fr\<lparr>f_ip := p\<rparr>) (s\<lparr>c_ip := p\<rparr>)" using sim by (simp add: il_sim_def)
  then show ?thesis using exec_matches [of "fr\<lparr>f_ip := p\<rparr>" _ i] sgn o by (simp add: il_step_def step_signed_def d)
qed

lemma steps_match:
  "il_sim fr s \<Longrightarrow> run_signed env code n fr \<Longrightarrow> cli_steps code n s = Some out \<Longrightarrow>
     outcome_matches (il_steps env code n fr) out"
proof (induction n arbitrary: fr s)
  case 0
  then show ?case by (auto simp: outcome_matches_def)
next
  case (Suc n)
  obtain r where r: "cli_step code s = Some r"
    and o: "(case r of CliRun s' \<Rightarrow> cli_steps code n s' | CliDivideByZero \<Rightarrow> Some CliDivideByZero) = Some out"
    using Suc.prems(3) by (auto simp: bind_eq_Some_conv)
  have m: "outcome_matches (il_step env code False fr) r"
    using step_matches [OF Suc.prems(1) _ r] Suc.prems(2) by simp
  show ?case
  proof (cases r)
    case (CliRun s')
    then obtain fr' where "il_step env code False fr = Ret (Running fr')" "il_sim fr' s'"
      using m by (auto simp: outcome_matches_def)
    then show ?thesis using Suc.IH [of fr' s'] Suc.prems(2) o CliRun by simp
  next
    case CliDivideByZero
    then show ?thesis using m o by (auto simp: outcome_matches_def)
  qed
qed

text \<open>What \<open>n\<close> steps reach, the loop reaches as long as the time is not up.\<close>

abbreviation never :: "nat \<Rightarrow> bool" where "never \<equiv> \<lambda>_. False"

lemma Execute_IL_step:
  "il_step env code (ex k) fr = Inl e \<Longrightarrow> Execute_IL env code ex k fr = Some (Fault e)"
  "il_step env code (ex k) fr = Ret (Running fr') \<Longrightarrow> Execute_IL env code ex k fr = Execute_IL env code ex (Suc k) fr'"
  "il_step env code (ex k) fr = Ret (Expired fr') \<Longrightarrow> Execute_IL env code ex k fr = Some (Ret (Expired fr'))"
  "il_step env code (ex k) fr = Ret (Failed hr fr') \<Longrightarrow> Execute_IL env code ex k fr = Some (Ret (Failed hr fr'))"
  "il_step env code (ex k) fr = Ret Beyond \<Longrightarrow> Execute_IL env code ex k fr = Some (Ret Beyond)"
  by (subst Execute_IL.simps, simp)+

lemma il_step_cases [case_names Inl Running Expired Failed Beyond]:
  obtains e where "r = Inl e" | fr where "r = Ret (Running fr)" | fr where "r = Ret (Expired fr)"
    | hr fr where "r = Ret (Failed hr fr)" | "r = Ret Beyond"
  by (metis il_outcome.exhaust sum.exhaust)

lemma Execute_IL_never_ind:
  "Execute_IL env code ex k fr = Some y \<Longrightarrow> ex = never \<Longrightarrow> Execute_IL env code never j fr = Some y"
proof (induction arbitrary: j rule: Execute_IL.raw_induct [rotated, consumes 1, case_names body])
  case (body loop env code ex k fr y)
  from body(3) have ex: "ex = never" .
  show ?case
    using body(2) unfolding ex
    by (cases rule: il_step_cases [of "il_step env code False fr"])
      (auto simp: Execute_IL_step body(1) [OF _ ex [unfolded ex]])
qed

lemma Execute_IL_position: "Execute_IL env code never k fr = Execute_IL env code never j fr"
proof (cases "Execute_IL env code never k fr")
  case None
  then show ?thesis
    using Execute_IL_never_ind [of env code never j fr _ k] by (cases "Execute_IL env code never j fr") auto
next
  case (Some y)
  then show ?thesis using Execute_IL_never_ind [OF Some refl, of j] by simp
qed

lemma Execute_IL_steps:
  "il_steps env code n fr = Ret (Running fr') \<Longrightarrow> Execute_IL env code never k fr = Execute_IL env code never j fr'"
  "il_steps env code n fr = Ret (Failed hr fr') \<Longrightarrow> Execute_IL env code never k fr = Some (Ret (Failed hr fr'))"
proof (induction n arbitrary: fr k)
  case 0
  { case 1 then show ?case by (simp add: Execute_IL_position [of env code k]) }
  { case 2 then show ?case by simp }
next
  case (Suc n)
  { case 1 then show ?case
      using Suc.IH(1) by (cases rule: il_step_cases [of "il_step env code False fr"]) (simp_all add: Execute_IL_step) }
  { case 2 then show ?case
      using Suc.IH(2) by (cases rule: il_step_cases [of "il_step env code False fr"]) (simp_all add: Execute_IL_step) }
qed


text \<open>A loop that adds an argument of type byte to a local and divides by a constant.\<close>

definition sample_env :: il_env where
  "sample_env = \<lparr>e_f4 = \<lambda>_ a _. a, e_f8 = \<lambda>_ a _. a, e_neg4 = id, e_neg8 = id, e_less4 = \<lambda>_ _. False,
     e_less8 = \<lambda>_ _. False, e_zero4 = \<lambda>_. False, e_zero8 = \<lambda>_. False, e_of_s64 = id, e_of_u64 = id,
     e_of_r4 = \<lambda>_. 0, e_to_s64 = id, e_to_r4 = \<lambda>_. 0, e_block = \<lambda>_. (DT_VOID, 0), e_sizeOfElement = \<lambda>_. 1\<rparr>"

definition hb_of :: "clr_type \<Rightarrow> u32 \<Rightarrow> hb" where
  "hb_of t x = \<lparr>hb_type = t, hb_flags = 0, hb_LL = x, hb_HH = 0\<rparr>"

definition sample_code :: "u8 list" where
  "sample_code = [2, 6, 88, 29, 91, 10, 6, 0x2D, 0xF7, 6, 22, 91]"

definition sample_frame :: "u32 \<Rightarrow> int \<Rightarrow> il_frame" where
  "sample_frame x ip = \<lparr>f_args = [hb_of DT_U1 200], f_locals = [hb_of DT_I4 x],
     f_eval = [hb_of DT_VOID 0, hb_of DT_VOID 0], f_pos = 0, f_ip = ip\<rparr>"

definition cli_sample :: "int \<Rightarrow> int \<Rightarrow> cli_state" where
  "cli_sample x ip = \<lparr>c_args = [(DT_U1, CI4 200)], c_locals = [(DT_I4, CI4 x)], c_stack = [], c_room = 2, c_ip = ip\<rparr>"


section \<open>Interruptions\<close>

text \<open>An instruction does the same whether the time is up or not; only a branch then leaves the loop.\<close>

lemma no_Expired [simp]:
  "il_unary f fr \<noteq> Ret (Expired x)" "push_value g fr \<noteq> Ret (Expired x)" "Execute_LoadAndPromote env v fr \<noteq> Ret (Expired x)"
  by (auto simp: il_unary_def push_value_def Execute_LoadAndPromote_def c_bind_Inr_iff split: num_result.splits)

lemma il_binary_not_Expired [simp]: "il_binary f fr \<noteq> Ret (Expired x)"
  by (auto simp: il_binary_def c_bind_Inr_iff)

lemma only_branches_expire:
  "exec_instr env code b i fr = Ret (Expired fr') \<Longrightarrow> \<exists>br offset. i = I_BRANCH br offset"
  by (cases i)
    (auto simp: c_bind_Inr_iff exec_stloc_def exec_starg_def exec_switch_def exec_compare_def Let_def
      split: if_splits option.splits)


lemma exec_expired:
  "exec_instr env code b i fr = Ret (Expired fr') \<Longrightarrow> exec_instr env code False i fr = Ret (Running fr')"
  "exec_instr env code b i fr = r \<Longrightarrow> \<forall>fr'. r \<noteq> Ret (Expired fr') \<Longrightarrow> exec_instr env code False i fr = r"
proof -
  assume r: "exec_instr env code b i fr = Ret (Expired fr')"
  then obtain br offset where i: "i = I_BRANCH br offset" using only_branches_expire by blast
  show "exec_instr env code False i fr = Ret (Running fr')"
    using r unfolding i
    by (cases br) (auto simp: c_bind_Inr_iff Execute_BR_def Let_def split: if_split_asm option.split_asm)
next
  assume r: "exec_instr env code b i fr = r" "\<forall>fr'. r \<noteq> Ret (Expired fr')"
  show "exec_instr env code False i fr = r"
  proof (cases "\<exists>br offset. i = I_BRANCH br offset")
    case True
    then obtain br offset where "i = I_BRANCH br offset" by blast
    then show ?thesis
      using r by (cases br; cases "il_pop fr")
        (auto simp: c_bind_def Execute_BR_def Let_def split: if_splits option.splits sum.splits)
  next
    case False
    then show ?thesis using r(1) by (cases i) simp_all
  qed
qed

lemma step_expired:
  "il_step env code b fr = Ret (Expired fr') \<Longrightarrow> il_step env code False fr = Ret (Running fr')"
  by (auto simp: il_step_def c_bind_Inr_iff dest: exec_expired(1))

lemma step_not_expired:
  "(\<And>fr'. il_step env code b fr \<noteq> Ret (Expired fr')) \<Longrightarrow> il_step env code False fr = il_step env code b fr"
  by (cases "decode code (f_ip fr)") (auto simp: il_step_def intro!: exec_expired(2))

text \<open>
  A thread that is interrupted at will and resumed where it stopped; the last slice is as long as it takes.
\<close>

fun run_slices :: "il_env \<Rightarrow> u8 list \<Rightarrow> (nat \<Rightarrow> bool) list \<Rightarrow> il_frame \<Rightarrow> il_outcome c_result option" where
  "run_slices env code [] fr = Execute_IL env code never 0 fr"
| "run_slices env code (ex # exs) fr =
     (case Execute_IL env code ex 0 fr of
        None \<Rightarrow> None
      | Some r \<Rightarrow> (case r of
            Inl e \<Rightarrow> Some (Inl e)
          | Inr out \<Rightarrow> (case out of Expired fr' \<Rightarrow> run_slices env code exs fr' | _ \<Rightarrow> Some (Ret out))))"

definition resumed :: "il_env \<Rightarrow> u8 list \<Rightarrow> il_outcome c_result \<Rightarrow> il_outcome c_result option" where
  "resumed env code r =
     (case r of Inl e \<Rightarrow> Some (Inl e)
      | Inr out \<Rightarrow> (case out of Expired fr' \<Rightarrow> Execute_IL env code never 0 fr' | _ \<Rightarrow> Some (Ret out)))"

lemma slice_resumed:
  "Execute_IL env code ex k fr = Some y \<Longrightarrow> Execute_IL env code never j fr = resumed env code y"
proof (induction arbitrary: j rule: Execute_IL.raw_induct [rotated, consumes 1, case_names body])
  case (body loop env code ex k fr y)
  show ?case
  proof (cases "\<exists>fr'. il_step env code (ex k) fr = Ret (Expired fr')")
    case True
    then obtain fr' where e: "il_step env code (ex k) fr = Ret (Expired fr')" by blast
    then have "y = Ret (Expired fr')" using body(2) by auto
    then show ?thesis
      using Execute_IL_step(2) [where ex = never, OF step_expired [OF e]] Execute_IL_position [of env code "Suc j" fr' 0]
      by (simp add: resumed_def)
  next
    case False
    then have same: "il_step env code False fr = il_step env code (ex k) fr" by (intro step_not_expired) blast
    show ?thesis
      using body(2) False
      by (cases rule: il_step_cases [of "il_step env code (ex k) fr"])
        (auto simp: resumed_def Execute_IL_step same dest!: body(1))
  qed
qed

lemma slice_ends:
  "Execute_IL env code ev k fr = Some y \<Longrightarrow> ev = never \<Longrightarrow> \<exists>z. Execute_IL env code ex j fr = Some z"
proof (induction arbitrary: j rule: Execute_IL.raw_induct [rotated, consumes 1, case_names body])
  case (body loop env code ev k fr y)
  from body(3) have ev: "ev = never" .
  show ?case
  proof (cases "\<exists>fr'. il_step env code (ex j) fr = Ret (Expired fr')")
    case True
    then show ?thesis using Execute_IL_step(3) by blast
  next
    case False
    then have same: "il_step env code False fr = il_step env code (ex j) fr" by (intro step_not_expired) blast
    show ?thesis
      using body(2) False unfolding ev
      by (cases rule: il_step_cases [of "il_step env code (ex j) fr"])
        (auto simp: Execute_IL_step same intro: body(1) [OF _ ev [unfolded ev]])
  qed
qed

text \<open>
  C3: however often a thread is interrupted at its branches and resumed, it ends as an uninterrupted run
  of the interpreter does, and does not end exactly when that does not.
\<close>

theorem interruptions_change_nothing:
  "run_slices env code exs fr = Execute_IL env code never 0 fr"
proof (induction exs arbitrary: fr)
  case Nil
  show ?case by simp
next
  case (Cons ex exs)
  show ?case
  proof (cases "Execute_IL env code ex 0 fr")
    case None
    then have "Execute_IL env code never 0 fr = None"
      using slice_ends [OF _ refl, of env code 0 fr _ ex 0] by (cases "Execute_IL env code never 0 fr") auto
    then show ?thesis using None by simp
  next
    case (Some y)
    then show ?thesis
      using Cons.IH slice_resumed [OF Some, of 0]
      by (auto simp: resumed_def split: sum.splits il_outcome.splits)
  qed
qed

section \<open>Departures from the machine\<close>

text \<open>
  C40: \<open>add.ovf\<close> and \<open>add.ovf.un\<close>, that are to raise an exception when the sum leaves the type, never do: on
  two 32-bit integers they leave the sum that wraps and go on.
\<close>

theorem overflow_is_not_reported:
  assumes sim: "il_sim fr s" and st: "c_stack s = CI4 b # CI4 a # vs"
    and op: "0 \<le> f_ip fr" "nat (f_ip fr) < length code" "code ! nat (f_ip fr) \<in> {0xD6, 0xD7}"
  shows "\<exists>fr'. il_step env code False fr = Ret (Running fr') \<and>
      il_sim fr' (s\<lparr>c_ip := c_ip s + 1, c_stack := CI4 (cli_s 32 (a + b)) # vs, c_room := c_room s + 1\<rparr>)"
proof -
  have ip: "c_ip s = f_ip fr" using sim by (simp add: il_sim_def)
  have d: "decode code (f_ip fr) = Ret (I_BINOP B_ADD, f_ip fr + 1)"
    using op(1,2) op(3)[unfolded insert_iff empty_iff]
    by (elim disjE; simp add: decode_def fetch_def c_index_def decode_op_def c_operations_def)
  have "cli_step code s = Some (CliRun (s\<lparr>c_ip := c_ip s + 1, c_stack := CI4 (cli_s 32 (a + b)) # vs, c_room := c_room s + 1\<rparr>))"
    by (simp add: cli_step_def ip d cli_pop_def st cli_binop4_def cli_divides_def cli_defined_def cli_shifts_def cli_push_def)
  moreover have "step_signed code fr" by (simp add: step_signed_def d sign_matters_def)
  ultimately have "outcome_matches (il_step env code False fr)
      (CliRun (s\<lparr>c_ip := c_ip s + 1, c_stack := CI4 (cli_s 32 (a + b)) # vs, c_room := c_room s + 1\<rparr>))"
    by (intro step_matches [OF sim])
  then show ?thesis by (simp add: outcome_matches_def)
qed

theorem overflow_is_not_reported_witness:
  "\<exists>fr'. il_step sample_env [0xD6] False
       \<lparr>f_args = [], f_locals = [], f_eval = [hb_of DT_I4 0x7FFFFFFF, hb_of DT_I4 1], f_pos = 2, f_ip = 0\<rparr> =
       Ret (Running fr') \<and>
     il_sim fr' \<lparr>c_args = [], c_locals = [], c_stack = [CI4 (- 2147483648)], c_room = 1, c_ip = 1\<rparr>"
proof -
  let ?fr = "\<lparr>f_args = [], f_locals = [], f_eval = [hb_of DT_I4 0x7FFFFFFF, hb_of DT_I4 1], f_pos = 2, f_ip = 0\<rparr>"
  let ?s = "\<lparr>c_args = [], c_locals = [], c_stack = [CI4 1, CI4 2147483647], c_room = 0, c_ip = 0\<rparr>"
  have "il_sim ?fr ?s" by code_simp
  from overflow_is_not_reported [OF this, of 1 2147483647 "[]" "[0xD6]" sample_env]
  show ?thesis by simp
qed

text \<open>
  C39: a negative number of a 32-bit type without sign, as a load of such a local leaves it, stays what it is
  for the reference machine, whose values have no sign of their own. The interpreter goes by the type: a
  signed shift to the right makes it positive, and so does the conversion to a signed 64-bit integer.
\<close>

theorem unsigned_operand_loses_sign:
  assumes l: "hb_type l = DT_U4" "sint (hb_LL l) < 0" and r: "hb_type r = DT_I4" "0 < sint (hb_LL r)" "sint (hb_LL r) < 32"
  shows "\<exists>v w a b c. exec_binop env B_SHR l r = Ret (Value v) \<and> il_val v = Some (CI4 a) \<and> 0 \<le> a \<and>
      cli_binop B_SHR (CI4 (sint (hb_LL l))) (CI4 (sint (hb_LL r))) = CVal (CI4 b) \<and> b < 0 \<and>
      Convert env DT_I8 False False l = Value w \<and> il_val w = Some (CI8 c) \<and> 0 \<le> c \<and>
      cli_conv DT_I8 (CI4 (sint (hb_LL l))) = Some (CI8 (sint (hb_LL l)))"
proof -
  let ?n = "unat (hb_LL r)" and ?x = "hb_LL l"
  have n: "?n = nat (sint (hb_LL r))" using r(2) by (intro unat_of_sint) simp
  then have n': "0 < ?n" "?n < 32" using r by auto
  have "uint ?x < 2 ^ 32" using unsigned_less [of ?x, where ?'a = int] by simp
  then have "uint ?x div 2 ^ ?n < 2 ^ 31"
  proof -
    assume x: "uint ?x < 2 ^ 32"
    have "(2 :: int) ^ 1 \<le> 2 ^ ?n" using n' by (intro power_increasing) auto
    then have "uint ?x div 2 ^ ?n \<le> uint ?x div 2" by (intro zdiv_mono2) simp_all
    also have "\<dots> < 2 ^ 31" using x by simp
    finally show ?thesis .
  qed
  moreover have "0 \<le> uint ?x div 2 ^ ?n" by (simp add: pos_imp_zdiv_nonneg_iff)
  ultimately have s: "cli_s 32 (uint ?x div 2 ^ ?n) = uint ?x div 2 ^ ?n"
    by (intro signed_take_bit_int_eq_self) simp_all
  have v: "exec_binop env B_SHR l r = Ret (Value (set_u4 (drop_bit ?n ?x) l))"
    using l n' by (simp add: NumericShr_def c_shr_def)
  have a: "il_val (set_u4 (drop_bit ?n ?x) l) = Some (CI4 (uint ?x div 2 ^ ?n))"
    using l s sint_shifts(3) [of ?n ?x] uint_sint [of ?x] by (subst il_val_4) simp_all
  have b: "cli_binop B_SHR (CI4 (sint ?x)) (CI4 (sint (hb_LL r))) = CVal (CI4 (sint ?x div 2 ^ ?n))"
    using r n by (simp add: cli_binop4_def cli_divides_def cli_defined_def cli_shifts_def)
  have neg: "sint ?x div 2 ^ ?n < 0" using l(2) by (intro div_neg_pos_less0) simp_all
  have c: "Convert env DT_I8 False False l = Value ((extend_precision DT_I8 l)\<lparr>hb_type := DT_I8\<rparr>)"
    using l by (simp add: Convert_def Convert_Internal_def Let_def SMALL_INTEGERS_def Promote_def)
  have "il_val ((extend_precision DT_I8 l)\<lparr>hb_type := DT_I8\<rparr>) = Some (CI8 (cli_u 32 (sint ?x)))"
    using l by (simp add: extend_precision_fields)
  then show ?thesis
    using v a b c neg \<open>0 \<le> uint ?x div 2 ^ ?n\<close> by (intro exI conjI) (assumption | simp)+
qed

theorem unsigned_operand_loses_sign_witness:
  "\<exists>v w a b c. exec_binop sample_env B_SHR (hb_of DT_U4 0x80000000) (hb_of DT_I4 1) = Ret (Value v) \<and> il_val v = Some (CI4 a) \<and> 0 \<le> a \<and>
      cli_binop B_SHR (CI4 (- 2147483648)) (CI4 1) = CVal (CI4 b) \<and> b < 0 \<and>
      Convert sample_env DT_I8 False False (hb_of DT_U4 0x80000000) = Value w \<and> il_val w = Some (CI8 c) \<and> 0 \<le> c \<and>
      cli_conv DT_I8 (CI4 (- 2147483648)) = Some (CI8 (- 2147483648))"
proof -
  have "sint (hb_LL (hb_of DT_U4 0x80000000)) = - 2147483648" "sint (hb_LL (hb_of DT_I4 1)) = 1"
    by code_simp+
  then show ?thesis
    using unsigned_operand_loses_sign [of "hb_of DT_U4 0x80000000" "hb_of DT_I4 1" sample_env]
    by (simp add: hb_of_def)
qed

text \<open>
  The prefix \<open>unaligned.\<close> carries an alignment that is not skipped, so that it runs as the next instruction;
  two equal times never compare as equal.
\<close>

lemma unaligned_operand_is_executed:
  "0 \<le> ip \<Longrightarrow> Suc (nat ip) < length code \<Longrightarrow> code ! nat ip = 0xFE \<Longrightarrow> code ! Suc (nat ip) = 0x12 \<Longrightarrow>
     decode code ip = Ret (I_NOTHING, ip + 2)"
  by (simp add: decode_def fetch_def c_index_def decode_op_def c_operations_def c_no_operation_def nat_add_distrib)

lemma equal_times_compare_less:
  "hb_type v = DT_DATETIME \<or> hb_type v = DT_TIMESPAN \<Longrightarrow> Compare_Values env fSigned v v = Some (- 1)"
  by (auto simp: Compare_Values_def Let_def CompareValues_Numeric_def)

end
