(* ===== verification/Spec2Isabelle.thy ===== *)
theory Spec2Isabelle
  imports NF_SectorMap NF_Collections NF_UnicodeProps NF_Heap NF_Time NF_GCProps NF_Base64Props NF_BitStreamProps NF_ILRun
begin

text \<open>
  A verification development for the native part of nanoFramework's nf-interpreter: the small CLR and
  its boot loader for microcontrollers. It follows the C and C++ sources function by function; the
  names of the definitions are those of the code, with a suffix where one name has several bodies
  (\<open>WP_TransmitMessage_ChibiOS_Serial\<close>, \<open>flash_lld_write_v3\<close>).

  \<^bold>\<open>The parts and how they interact.\<close> A host talks to a board over a serial line in frames of Wire Protocol.
  On the board a receiver (\<open>WP_Message_Process\<close>) collects a frame through the transport of the target,
  checks it with CRC-32 and hands it to the application. The application of the boot loader
  (nanoBooter) answers memory, flash and configuration requests; it reaches the flash memory through the
  block storage layer, which finds regions in the storage table of the target and calls the flash driver
  of the part. The CLR itself, that the boot loader starts, runs IL code in an interpreter
  (\<open>Execute_IL\<close>) and keeps its objects in heap clusters that the garbage collector marks and sweeps; the natives of its class library (collections, strings in
  UTF-8 and UTF-16, dates, conversions) work on such objects.

  \<^bold>\<open>How the code is modelled.\<close> NF_Prelude fixes the conventions. The C integer types are words of
  their width (\<open>u8\<close>, \<open>u16\<close>, \<open>u32\<close>, \<open>u64\<close>), so that arithmetic wraps as it does on the targets, or integers
  wrapped where they are stored (\<open>s32\<close>). Reads and writes outside of an object, null dereferences and
  the like are values: a C computation is a \<open>c_result\<close>, \<open>Ret\<close> of a value or a \<open>Fault\<close>, and a theorem that
  says \<open>= Ret ...\<close> also says that nothing of the kind happens. State is passed explicitly, as records with
  the fields of the code. Loops are structural recursion or functions with a termination proof; a loop
  that may run for ever (waiting for the line, for the flash controller, over the mark stack, along a
  free list) is a \<open>partial_function (option)\<close>, whose result \<open>None\<close> means that it does not return. There is
  no fuel anywhere: that a loop returns is always a theorem about it. What is not in the repository
  (drivers of the RTOS, the flash controller, \<open>platform_malloc\<close>, the linker's choice of functions) is a
  parameter, and what the code relies on is a locale over those parameters, interpreted on a
  concrete instance.

  \<^bold>\<open>Theories.\<close> Paths are relative to src/.

  \<^item> NF_CRC32 (src/CLR/Core/nanoSupport_CRC32.c): the table and the loop. The lemmas compare them with the
    bit-serial division by the generator polynomial, show linearity, and that bursts are detected.

  \<^item> NF_WP_Types, NF_WP_Message (src/CLR/Include/WireProtocol.h, src/CLR/WireProtocol/
    WireProtocol_Message.c): the packet header with its byte image, the message, one definition per state
    of the receiver, the loop over them, and the preparation of requests and replies.
    NF_WP_Receiver: the contracts \<open>wp_transport\<close> (receive and transmit over a line of which \<open>rx\<close> is still
    to come and \<open>tx\<close> has been sent) and \<open>wp_application\<close>, joined in \<open>wp_receiver\<close>; termination of the
    receiver, and the out-of-bounds write of its resynchronisation.
    NF_WP_Transport (the four WireProtocol_HAL_Interface.c of the targets): each transport keeps
    \<open>wp_transport\<close> when its driver keeps \<open>rtos_contract\<close> (five sublocales, interpreted on a line of bytes).

  \<^item> NF_Booter (targets/CMSIS-OS/ChibiOS/nanoBooter/): filter for repeated packets, dispatch, commands.
    NF_BooterFrames: from a frame on the line (\<open>prompt_link\<close>) to the call of the application, and the
    invariant that no payload leaves the reception buffer (\<open>booter_link\<close>).
    NF_BooterApp: \<open>booter_app\<close>, that every request is answered once, over every transport and every
    \<open>quiet_flash\<close>; interpreted for the STM32F769I discovery board. NF_SectorMap: the sector map command.

  \<^item> NF_BlockStorage, NF_BlockStream (src/PAL/BlockStorage/nanoPAL_BlockStorage.c): regions, ranges,
    searches, streams, dispatch and device list. NF_BlockLayout: \<open>device_layout\<close>, under which the
    searches find what they should. NF_DeviceTables (the Device_BlockStorage*.c of all targets): the tables
    as data, with one interpretation of \<open>device_layout\<close> each; the 2 MB ESP32 table breaks it.

  \<^item> NF_FlashSTM32 (nf-overlay/.../FLASHv2/flash_lld.c, hal_stm32_flash.c,
    Target_BlockStorage_STM32FlashDriver.c), NF_FlashF0L0 (FLASHv1, FLASHv3): the drivers as sequences of
    register accesses. NF_FlashController: \<open>flash_controller\<close>, the documented behaviour of the controller;
    writing and erasing over it by rules for the polling loops. NF_FlashProps: a simulated
    controller that keeps the contract, and the properties of the drivers.

  \<^item> NF_ObjArray, NF_ArrayList, NF_Queue, NF_Stack (CLR_RT_HeapBlock_{Array,ArrayList,Queue,Stack}.cpp):
    the three collections over arrays of references. The locales \<open>collection\<close> and \<open>exact_collection\<close> state
    refinement of a list for a sequence of operations any of which may find the heap exhausted; each
    collection interprets one of them. NF_Collections: what follows, and the two places where the code fails.

  \<^item> NF_Unicode, NF_UnicodeProps (CLR_RT_UnicodeHelper.cpp): counting and conversion, against the
    definition of the encodings on code points.

  \<^item> NF_HeapCluster (CLR_RT_HeapCluster.cpp, CLR_RT_DblLinkedList.cpp): a cluster as blocks with a
    list of the free ones. NF_HeapProps: the invariant. NF_HeapSweep, NF_HeapInsert: the sweep and the
    return of a region keep it. NF_Heap: the properties.

  \<^item> NF_GCMark (GarbageCollector.cpp, GarbageCollector_ComputeReachabilityGraph.cpp): the traversal with
    its linked mark stacks, the roots, rescans, finalizers and weak references. NF_GCStack shows that the
    linked stacks are one list; NF_GCTrace abstracts the traversal to steps over a set of marked blocks;
    NF_GCCall and NF_GC carry the result over a call and over the mark phase. NF_GCOverrun finds the
    heaps on which a push goes behind the end of a stack. NF_GCProps: the properties, and mark and sweep
    together, over a cluster of NF_HeapCluster.

  \<^item> NF_Time (src/HAL/nanoHAL_Time.cpp, corlib_native_System_DateTime.cpp): ticks and dates, against a
    calendar that counts day by day.

  \<^item> NF_Base64, NF_Base64Props (Helpers/Base64, corlib_native_System_Convert.cpp): the codec and the two
    methods on top of it, against the encoding of RFC 4648 on lists.

  \<^item> NF_BitStream, NF_BitStreamProps (Streams.cpp, BinaryFormatter.cpp): the memory stream as a list of
    bits, and the compressed integers in it.
  \<^item> NF_IL, NF_CLI, NF_ILProps, NF_ILRun (Interpreter.cpp, CLR_RT_HeapBlock.cpp): the decoding and the loop
    of the interpreter with the instructions that work on the frame alone; the integer machine of
    ECMA-335; the step of the one as a step of the other; whole runs, the end of a time slice, and where
    the interpreter departs from the machine.
  This theory joins the parts: a frame that arrives reaches the application, payloads stay in their
  buffer, requests are answered once, a failed write is acknowledged.

  \<^bold>\<open>Bounds.\<close> The theorems hold for all inputs within the bounds they state, which are those of the code: a
  payload of at most the reception buffer, dates up to 3111, fewer than 256 line breaks, texts that
  fit 16-bit counters. A cluster has fewer than \<open>2 ^ 16\<close> heap blocks per block, as the size field has 16 bits. The
  heap is that of the builds that validate it (the checks of the code are then branches of the model).

  \<^bold>\<open>Not modelled.\<close> The type system, the instructions of the interpreter that leave the frame (calls, objects,
  fields, arrays, exceptions), the scheduler with its threads and locks, the debugger and the
  serializer: each is defined by the metadata tables of assemblies, and a faithful model starts with
  those. Compaction relocates every pointer of the runtime, for the same reason; of it only the
  return of the freed region is here. In the collection theorem the references of weak references and
  of events are left aside: they are the subject of a theorem of their own. Sockets, TLS, file systems and the
  device classes are calls of libraries that the repository does not hold. Vendor headers, SDK drivers and
  the patched copies of lwIP make up most of the lines of the repository; they are not its own code.
  Debug output is left out, and so are the floating point conversions.
\<close>

section \<open>From the wire to the application\<close>

text \<open>
  C1: a frame arrives. On a link that delivers in time, a receiver that starts to wait for a message
  hands every frame (marker, any header, a payload of at most the reception buffer) on to the
  booter's \<open>WP_App_ProcessPayload\<close> with the header as sent (its CRC cleared), the payload as sent at
  the start of the reception buffer and the line positioned behind the frame; then it waits again.
\<close>

theorem frame_reaches_application:
  assumes "prompt_link L rx tx" and "lk_ProcessHeader L = WP_App_ProcessHeader_Booter"
    and "m_rxState m = ReceiveState_Initialize" and "wf_packet (m_header m)"
    and "wf_packet p" and "m_signature p \<in> {MARKER_DEBUGGER_V1, MARKER_PACKET_V1}"
    and "unat (m_hsize p) = length payload" "length payload \<le> sizeof_receptionBuffer"
    and "length (receptionBuffer g) = sizeof_receptionBuffer"
    and "rx (os g) = packet_bytes p @ payload @ rest"
  shows "\<exists>m' g'. m_header m' = p\<lparr>m_crcHeader := 0\<rparr> \<and>
      payload_bytes g' (m_payload m') (length payload) = Ret payload \<and> rx (os g') = rest \<and>
      wp_state.more g' = wp_state.more g \<and> lastOutboundMessage g' = lastOutboundMessage g \<and>
      WP_Message_Process L m g =
        (case lk_ProcessPayload L m' g' of Inl e \<Rightarrow> Some (Inl e)
         | Inr r \<Rightarrow> WP_Message_Process L ((fst r)\<lparr>m_rxState := ReceiveState_Initialize\<rparr>) (snd r))"
proof -
  obtain m' g' where eq: "WP_Message_Process L m g = WP_Message_Process L m' g'"
    and m': "m_rxState m' = ReceiveState_CompletePayload" "m_header m' = p\<lparr>m_crcHeader := 0\<rparr>"
      "m_payload m' = PayloadReceptionBuffer"
    and g': "receptionBuffer g' = payload @ drop (length payload) (receptionBuffer g)" "rx (os g') = rest"
      "wp_state.more g' = wp_state.more g" "lastOutboundMessage g' = lastOutboundMessage g"
    using prompt_link.frame_reaches_payload [OF assms(1-7) _ _ assms(10)] assms(8,9) by auto
  have "payload_bytes g' (m_payload m') (length payload) = Ret payload" using m'(3) g'(1) by simp
  with prompt_link.step_CompletePayload [OF assms(1) m'(1,3), of g'] eq m' g' show ?thesis
    by (intro exI [of _ m'] exI [of _ g']) simp
qed

definition board_state :: "u8 list \<Rightarrow> sim_flash \<Rightarrow> board booter_state" where
  "board_state input flash =
     \<lparr>receptionBuffer = replicate 1056 0, lastOutboundMessage = 0, marker = None, WP_Port_Intitialised = False,
      os = \<lparr>line_in = input, line_out = [], line_bursts = [], line_ticks = 0, chip = flash\<rparr>,
      lastPacketSequence = lastPacketSequence_init\<rparr>"

definition ping_packet :: WP_Packet where
  "ping_packet = \<lparr>m_signature = MARKER_PACKET_V1, m_crcHeader = 0, m_crcData = 0, m_cmd = 0, m_seq = 5,
     m_seqReply = 0, m_flags = 0, m_hsize = 4\<rparr>"

theorem frame_reaches_application_witness:
  "\<exists>m' g'. payload_bytes g' (m_payload m') 4 = Ret [1, 2, 3, 4] \<and> line_in (os g') = [9] \<and>
     WP_Message_Process booter_link_F769 (WP_Message_PrepareReception local_message)
       (board_state (packet_bytes ping_packet @ [1, 2, 3, 4] @ [9]) sim_start) =
     (case lk_ProcessPayload booter_link_F769 m' g' of Inl e \<Rightarrow> Some (Inl e)
      | Inr r \<Rightarrow> WP_Message_Process booter_link_F769 ((fst r)\<lparr>m_rxState := ReceiveState_Initialize\<rparr>) (snd r))"
proof -
  let ?m = "WP_Message_PrepareReception local_message"
  let ?g = "board_state (packet_bytes ping_packet @ [1, 2, 3, 4] @ [9]) sim_start"
  have h: "lk_ProcessHeader booter_link_F769 = WP_App_ProcessHeader_Booter"
    "m_rxState ?m = ReceiveState_Initialize" "wf_packet (m_header ?m)" "wf_packet ping_packet"
    "m_signature ping_packet \<in> {MARKER_DEBUGGER_V1, MARKER_PACKET_V1}"
    "unat (m_hsize ping_packet) = length [1, 2, 3, 4 :: u8]"
    "length [1, 2, 3, 4 :: u8] \<le> sizeof_receptionBuffer"
    "length (receptionBuffer ?g) = sizeof_receptionBuffer"
    "line_in (os ?g) = packet_bytes ping_packet @ [1, 2, 3, 4] @ [9]"
    by (simp_all add: booter_link_F769_def WP_Message_PrepareReception_def local_message_def
        ping_packet_def wf_packet_def board_state_def zero_packet_def)
  have four: "length [1, 2, 3, 4 :: u8] = 4" by simp
  from frame_reaches_application [OF F769_prompt.prompt_link_axioms h, unfolded four] show ?thesis
    by blast
qed

text \<open>
  C9: payloads stay inside the reception buffer. From every state in which no payload is being read,
  whatever arrives and however the reads fail, a turn of the receiver that reads a payload for the
  booter stores inside \<open>receptionBuffer\<close>: the size check of \<open>WP_App_ProcessHeader\<close> guards the only
  place where a payload is stored.
\<close>

theorem payload_stays_in_reception_buffer:
  assumes "booter_link L rx tx" and "length (receptionBuffer g) = sizeof_receptionBuffer"
    and "m_rxState m \<noteq> ReceiveState_ReadingPayload"
    and "(rx_turn L)\<^sup>*\<^sup>* (m, g) (m', g')" and "m_rxState m' = ReceiveState_ReadingPayload"
  shows "\<exists>s. WP_Message_step L m' g' = Ret s"
proof -
  have "payload_in_buffer (m, g)" using assms(2,3) by (simp add: payload_in_buffer_def)
  from booter_link.invariant_reachable [OF assms(1,4) this] assms(5) show ?thesis
    by (rule booter_link.payload_turn_safe [OF assms(1)])
qed

theorem payload_stays_in_reception_buffer_witness:
  "\<exists>m' g' s. (rx_turn booter_link_F769)\<^sup>*\<^sup>*
       (local_message\<lparr>m_header := ping_packet, m_rxState := ReceiveState_CompleteHeader\<rparr>, board_state [7] sim_start)
       (m', g') \<and>
     m_rxState m' = ReceiveState_ReadingPayload \<and> WP_Message_step booter_link_F769 m' g' = Ret s"
proof -
  let ?m = "local_message\<lparr>m_header := ping_packet, m_rxState := ReceiveState_CompleteHeader\<rparr>"
  let ?g = "board_state [7] sim_start"
  obtain m' g' where step: "WP_Message_step booter_link_F769 ?m ?g = Inr (Continue m' g')"
    and m': "m_rxState m' = ReceiveState_ReadingPayload"
    by (simp add: WP_Message_step_def process_CompleteHeader_def booter_link_F769_def
        WP_App_ProcessHeader_Booter_def ping_packet_def wp_target_def prompt_io_def line_io_def)
  then have reach: "(rx_turn booter_link_F769)\<^sup>*\<^sup>* (?m, ?g) (m', g')" by (intro r_into_rtranclp) simp
  have "length (receptionBuffer ?g) = sizeof_receptionBuffer" by (simp add: board_state_def)
  from payload_stays_in_reception_buffer [OF F769_link.booter_link_axioms this _ reach m'] reach m'
  show ?thesis by auto
qed

section \<open>Answers\<close>


definition ping_message :: WP_Message where
  "ping_message = local_message\<lparr>m_header := ping_packet, m_payload := PayloadReceptionBuffer\<rparr>"

lemma F769_ping:
  "\<exists>r m' g'. WP_App_ProcessPayload_Booter F769_booter ping_message (board_state [] sim_start) = Ret (r, m', g')"
  by (auto simp: WP_App_ProcessPayload_Booter_def ping_message_def ping_packet_def board_state_def
      lastPacketSequence_init_def c_Lookup_Request_def Monitor_Ping_def reply_def WP_ReplyToCommand_def
      WP_Message_PrepareReply_def WP_TransmitMessage_ChibiOS_Serial_def write_message_def
      F769_booter_def prompt_io_def line_io_def has_flag_def flag_simps Let_def)


text \<open>
  C28: a repeated packet is ignored. After any packet has been processed, a packet with the same
  sequence number, whatever else it holds, is not executed, not answered and changes nothing.
\<close>

theorem booter_ignores_repeats:
  assumes "booter_app T rx" and "WP_App_ProcessPayload_Booter T m g = Ret (r, m', g')"
    and "m_seq (m_header m2) = m_seq (m_header m)"
  shows "WP_App_ProcessPayload_Booter T m2 g' = Ret (False, m2, g')"
proof -
  have "lastPacketSequence g' = ucast (m_seq (m_header m))"
  proof (cases "ucast (m_seq (m_header m)) = lastPacketSequence g")
    case True
    then show ?thesis using assms(2) by (simp add: WP_App_ProcessPayload_Booter_def)
  next
    case False
    from booter_app.ProcessPayload_once [OF assms(1,2) this] show ?thesis
      by (cases g; cases g') (simp add: same_def)
  qed
  then show ?thesis using assms(3) by (simp add: WP_App_ProcessPayload_Booter_def)
qed

theorem booter_ignores_repeats_witness:
  "\<exists>r m' g'. WP_App_ProcessPayload_Booter F769_booter ping_message (board_state [] sim_start) = Ret (r, m', g') \<and>
     WP_App_ProcessPayload_Booter F769_booter ping_message g' = Ret (False, ping_message, g')"
proof -
  obtain r m' g' where p: "WP_App_ProcessPayload_Booter F769_booter ping_message (board_state [] sim_start) = Ret (r, m', g')"
    using F769_ping by blast
  from booter_ignores_repeats [OF F769.booter_app_axioms p refl] p show ?thesis by blast
qed

text \<open>
  C21: the answer to a sector map request. On every STM32 target the booter answers with one entry of
  four words per block range of the target's storage table, and the entries account for the whole
  flash memory: the first starts at its base, each next one where the blocks of the one before end,
  and the last ends where the memory ends.
\<close>

theorem sector_map_reply:
  assumes "cfg \<in> set stm32_configs"
    and "BlockStorageList_GetFirstDevice (bt_storage T) = Ret (Some d)"
    and "BlockStorageDevice_GetDeviceInfo (Some d) (bt_storage T) = Ret (BlockDeviceInformation cfg)"
    and "bt_malloc T (16 * length (table_entries (BlockDeviceInformation cfg))) g = (True, g1)"
    and "\<not> has_flag (m_flags (m_header m)) WP_Flags_c_Reply"
  shows "Monitor_FlashSectorMap T m g =
      c_bind (reply T m True (PayloadObject (concat (map entry_bytes (table_entries (BlockDeviceInformation cfg)))))
                (16 * int (length (table_entries (BlockDeviceInformation cfg)))) g1) (\<lambda>(m, g). Ret (True, m, g)) \<and>
    entries_tile (unat (BaseAddress_cfg cfg)) (unat (BaseAddress_cfg cfg) + unat (SizeInBytes_cfg cfg))
      (table_entries (BlockDeviceInformation cfg))"
proof -
  let ?d = "BlockDeviceInformation cfg"
  have l: "device_layout ?d" and t: "tiles_flash cfg" using stm32_layouts [OF assms(1)] by auto
  note dl = device_layout.count_entries [OF l] device_layout.sector_map_entries [OF l]
  have "entries_tile (unat (BaseAddress_cfg cfg)) (unat (BaseAddress_cfg cfg) + unat (SizeInBytes_cfg cfg))
      (table_entries ?d)"
    using t device_layout.layout [OF l] unfolding tiles_flash_def table_entries_def
    by (intro table_tile) (simp_all add: wf_device_def)
  with assms(2-5) dl show ?thesis
    by (simp add: Monitor_FlashSectorMap_def mult.commute)
qed

theorem sector_map_reply_witness:
  "Monitor_FlashSectorMap F769_booter ping_message (board_state [] sim_start) =
     c_bind (reply F769_booter ping_message True
        (PayloadObject (concat (map entry_bytes (table_entries Device_BlockInfo_STM32F769I_DISCOVERY))))
        (16 * int (length (table_entries Device_BlockInfo_STM32F769I_DISCOVERY))) (board_state [] sim_start))
       (\<lambda>(m, g). Ret (True, m, g)) \<and>
   entries_tile 0x08000000 0x08200000 (table_entries Device_BlockInfo_STM32F769I_DISCOVERY)"
proof -
  let ?c = Device_BlockStorageConfig_STM32F769I_DISCOVERY
  have c: "?c \<in> set stm32_configs" by (simp add: stm32_configs_def)
  have h: "BlockStorageList_GetFirstDevice (bt_storage F769_booter) = Ret (Some 0)"
    "BlockStorageDevice_GetDeviceInfo (Some 0) (bt_storage F769_booter) = Ret (BlockDeviceInformation ?c)"
    "bt_malloc F769_booter (16 * length (table_entries (BlockDeviceInformation ?c))) (board_state [] sim_start) =
       (True, board_state [] sim_start)"
    "\<not> has_flag (m_flags (m_header ping_message)) WP_Flags_c_Reply"
    by (simp_all add: F769_booter_def F769_driver_storage_def BlockStorageList_GetFirstDevice_def first_loop.simps c_index_def
        BlockStorageDevice_GetDeviceInfo_def device_at_def entry_def STM32Flash_BlockStorageInterface_def
        STM32FlashDriver_GetDeviceInfo_def ping_message_def ping_packet_def has_flag_def TARGET_BLOCKSTORAGE_COUNT_def)
  from sector_map_reply [OF c h] show ?thesis
    by (simp add: Device_BlockStorageConfig_STM32F769I_DISCOVERY_def)
qed

text \<open>
  C29: a write that fails is acknowledged. When the flash controller is unlocked, the flash driver
  refuses to write; the booter then leaves everything as it is and answers the write request like a
  successful one: acknowledged, error code zero.
\<close>

theorem failed_write_is_acknowledged:
  assumes "get_CR (bt_flash T) (os g) AND FLASH_CR_LOCK = 0"
    and "payload_u32 g (m_payload m) 0 = Ret address" and "payload_u32 g (m_payload m) 4 = Ret len"
    and "payload_rest g (m_payload m) 8 = Ret data" and "FLASH_BASE < address" and "0 < len"
  shows "stm32FlashWrite (bt_debug T) (bt_flash T) address len data (os g) = Ret (False, os g) \<and>
    Monitor_WriteMemory T m g =
      c_bind (reply T m True (PayloadObject [0, 0, 0, 0]) 4 g) (\<lambda>(m, g). Ret (True, m, g))"
proof -
  have w: "stm32FlashWrite (bt_debug T) (bt_flash T) address len data (os g) = Ret (False, os g)"
    using assms(1,5,6) by (simp add: stm32FlashWrite_def osalDbgCheck_def flash_lld_write_def HAL_FLASH_Unlock_def)
  then show ?thesis using assms(2-4)
    by (simp add: Monitor_WriteMemory_def AccessMemory_def AccessMemoryErrorCode_NoError_def bytes_of_u32_def Let_def)
qed

theorem failed_write_is_acknowledged_witness:
  "let flash = sim_start\<lparr>sim_cr := 0\<rparr>;
       m = local_message\<lparr>m_payload := PayloadObject [0, 0, 4, 8, 2, 0, 0, 0, 0xAA, 0xBB]\<rparr>
   in Monitor_WriteMemory F769_booter m (board_state [] flash) =
      c_bind (reply F769_booter m True (PayloadObject [0, 0, 0, 0]) 4 (board_state [] flash)) (\<lambda>(m, g). Ret (True, m, g))"
proof -
  let ?m = "local_message\<lparr>m_payload := PayloadObject [0, 0, 4, 8, 2, 0, 0, 0, 0xAA, 0xBB]\<rparr>"
  let ?g = "board_state [] (sim_start\<lparr>sim_cr := 0\<rparr>)"
  have "get_CR (bt_flash F769_booter) (os ?g) AND FLASH_CR_LOCK = 0"
    "payload_u32 ?g (m_payload ?m) 0 = Ret 0x08040000" "payload_u32 ?g (m_payload ?m) 4 = Ret 2"
    "payload_rest ?g (m_payload ?m) 8 = Ret [0xAA, 0xBB]"
    by (simp_all add: F769_booter_def board_bus_def sim_bus_def board_state_def payload_u32_def payload_rest_def
        u32_of_bytes_def Let_def)
  from failed_write_is_acknowledged [OF this] show ?thesis by (simp add: FLASH_BASE_def Let_def)
qed

end
